(* ===== verification/Prelude.thy ===== *)
theory Prelude
  imports Complex_Main
begin

text \<open>
  What the components share: the state-and-error monad in which the stateful Rust code is
  written, with its Hoare-style rules; the JSON values of \<open>serde_json\<close>; Rust's
  \<open>partition_point\<close>; and generic list facts. The collection \<open>hoare_rules\<close> holds the
  rules that take a monadic program apart, \<open>mon_simps\<close> the equations that run one.
\<close>

named_theorems hoare_rules \<open>introduction rules for Hoare triples of monadic programs\<close>
named_theorems mon_simps \<open>equations that execute monadic programs\<close>

section \<open>A monad of state and errors\<close>

text \<open>
  A Rust function that takes \<open>&mut S\<close> and returns \<open>Result<A, E>\<close> is a function from the
  state to a result and the next state; the state reached before an error is kept, as the
  mutations made before a \<open>?\<close> are kept in Rust.
\<close>

type_synonym ('s, 'e, 'a) prog = "'s \<Rightarrow> ('e + 'a) \<times> 's"

definition ret :: "'a \<Rightarrow> ('s, 'e, 'a) prog" where
  "ret x = (\<lambda>s. (Inr x, s))"

definition fail :: "'e \<Rightarrow> ('s, 'e, 'a) prog" where
  "fail e = (\<lambda>s. (Inl e, s))"

definition bnd :: "('s, 'e, 'a) prog \<Rightarrow> ('a \<Rightarrow> ('s, 'e, 'b) prog) \<Rightarrow> ('s, 'e, 'b) prog" where
  "bnd m f = (\<lambda>s. case m s of (Inl e, s') \<Rightarrow> (Inl e, s') | (Inr x, s') \<Rightarrow> f x s')"

definition thn :: "('s, 'e, 'a) prog \<Rightarrow> ('s, 'e, 'b) prog \<Rightarrow> ('s, 'e, 'b) prog" where
  "thn m k = bnd m (\<lambda>_. k)"

definition gets :: "('s \<Rightarrow> 'a) \<Rightarrow> ('s, 'e, 'a) prog" where
  "gets f = (\<lambda>s. (Inr (f s), s))"

definition upd :: "('s \<Rightarrow> 's) \<Rightarrow> ('s, 'e, unit) prog" where
  "upd f = (\<lambda>s. (Inr (), f s))"

text \<open>\<open>match m { Ok(x) => f(x), Err(e) => h(e) }\<close>: neither continuation is skipped.\<close>

definition match_result ::
    "('s, 'e, 'a) prog \<Rightarrow> ('a \<Rightarrow> ('s, 'e2, 'b) prog) \<Rightarrow> ('e \<Rightarrow> ('s, 'e2, 'b) prog) \<Rightarrow> ('s, 'e2, 'b) prog"
  where
  "match_result m f h = (\<lambda>s. case m s of (Inl e, s') \<Rightarrow> h e s' | (Inr x, s') \<Rightarrow> f x s')"

text \<open>A \<open>for\<close> loop whose body may fail with \<open>?\<close>.\<close>

fun for_each :: "'a list \<Rightarrow> ('a \<Rightarrow> ('s, 'e, unit) prog) \<Rightarrow> ('s, 'e, unit) prog" where
  "for_each [] f = ret ()"
| "for_each (x # xs) f = thn (f x) (for_each xs f)"

lemma ret_run [mon_simps]: "ret x s = (Inr x, s)"
  by (simp add: ret_def)

lemma fail_run [mon_simps]: "fail e s = (Inl e, s)"
  by (simp add: fail_def)

lemma gets_run [mon_simps]: "gets f s = (Inr (f s), s)"
  by (simp add: gets_def)

lemma upd_run [mon_simps]: "upd f s = (Inr (), f s)"
  by (simp add: upd_def)

lemma bnd_run [mon_simps]:
  "bnd m f s = (case m s of (Inl e, s') \<Rightarrow> (Inl e, s') | (Inr x, s') \<Rightarrow> f x s')"
  by (simp add: bnd_def)

lemma thn_run [mon_simps]:
  "thn m k s = (case m s of (Inl e, s') \<Rightarrow> (Inl e, s') | (Inr _, s') \<Rightarrow> k s')"
  by (simp add: thn_def bnd_def)

lemma match_result_run [mon_simps]:
  "match_result m f h s = (case m s of (Inl e, s') \<Rightarrow> h e s' | (Inr x, s') \<Rightarrow> f x s')"
  by (simp add: match_result_def)

subsection \<open>Hoare triples\<close>

text \<open>
  \<open>hoare P m Q E\<close>: from a state with \<open>P\<close> the program \<open>m\<close> returns a value and a state
  with \<open>Q\<close>, or fails with an error and a state with \<open>E\<close>.
\<close>

definition hoare ::
    "('s \<Rightarrow> bool) \<Rightarrow> ('s, 'e, 'a) prog \<Rightarrow> ('a \<Rightarrow> 's \<Rightarrow> bool) \<Rightarrow> ('e \<Rightarrow> 's \<Rightarrow> bool) \<Rightarrow> bool" where
  "hoare P m Q E \<longleftrightarrow>
     (\<forall>s. P s \<longrightarrow> (case m s of (Inl e, s') \<Rightarrow> E e s' | (Inr x, s') \<Rightarrow> Q x s'))"

lemma hoareI:
  assumes "\<And>s x s'. P s \<Longrightarrow> m s = (Inr x, s') \<Longrightarrow> Q x s'"
    and "\<And>s e s'. P s \<Longrightarrow> m s = (Inl e, s') \<Longrightarrow> E e s'"
  shows "hoare P m Q E"
  using assms by (auto simp: hoare_def split: prod.splits sum.splits)

lemma hoare_value: "hoare P m Q E \<Longrightarrow> P s \<Longrightarrow> m s = (Inr x, s') \<Longrightarrow> Q x s'"
  by (fastforce simp: hoare_def)

lemma hoare_error: "hoare P m Q E \<Longrightarrow> P s \<Longrightarrow> m s = (Inl e, s') \<Longrightarrow> E e s'"
  by (fastforce simp: hoare_def)

lemma hoare_pre: "hoare P m Q E \<Longrightarrow> (\<And>s. P' s \<Longrightarrow> P s) \<Longrightarrow> hoare P' m Q E"
  by (fastforce simp: hoare_def)

lemma hoare_conseq:
  assumes "hoare P m Q E"
    and "\<And>s. P' s \<Longrightarrow> P s" and "\<And>x s. Q x s \<Longrightarrow> Q' x s" and "\<And>e s. E e s \<Longrightarrow> E' e s"
  shows "hoare P' m Q' E'"
  using assms by (fastforce simp: hoare_def split: prod.splits sum.splits)

lemma hoare_ret [hoare_rules]: "(\<And>s. P s \<Longrightarrow> Q x s) \<Longrightarrow> hoare P (ret x) Q E"
  by (simp add: hoare_def ret_def)

lemma hoare_fail [hoare_rules]: "(\<And>s. P s \<Longrightarrow> E e s) \<Longrightarrow> hoare P (fail e) Q E"
  by (simp add: hoare_def fail_def)

lemma hoare_gets [hoare_rules]: "(\<And>s. P s \<Longrightarrow> Q (f s) s) \<Longrightarrow> hoare P (gets f) Q E"
  by (simp add: hoare_def gets_def)

lemma hoare_upd [hoare_rules]: "(\<And>s. P s \<Longrightarrow> Q () (f s)) \<Longrightarrow> hoare P (upd f) Q E"
  by (simp add: hoare_def upd_def)

lemma hoare_bnd:
  assumes "hoare P m R E" and "\<And>x. hoare (R x) (f x) Q E"
  shows "hoare P (bnd m f) Q E"
proof (rule hoareI)
  fix s y s' assume P: "P s" and run: "bnd m f s = (Inr y, s')"
  then obtain x s1 where "m s = (Inr x, s1)" and "f x s1 = (Inr y, s')"
    by (auto simp: bnd_def split: prod.splits sum.splits)
  with P assms show "Q y s'" by (blast dest: hoare_value)
next
  fix s e s' assume P: "P s" and run: "bnd m f s = (Inl e, s')"
  show "E e s'"
  proof (cases "m s")
    case (Pair r s1)
    with P run assms show ?thesis
      by (cases r) (auto simp: bnd_def dest: hoare_value hoare_error)
  qed
qed

lemma hoare_thn:
  assumes "hoare P m (\<lambda>_. R) E" and "hoare R k Q E"
  shows "hoare P (thn m k) Q E"
  using assms by (auto simp: thn_def intro: hoare_bnd)

lemma hoare_match_result:
  assumes "hoare P m R F" and "\<And>x. hoare (R x) (f x) Q E" and "\<And>e. hoare (F e) (h e) Q E"
  shows "hoare P (match_result m f h) Q E"
proof -
  have "case match_result m f h s of (Inl e, s') \<Rightarrow> E e s' | (Inr x, s') \<Rightarrow> Q x s'" if "P s" for s
  proof (cases "m s")
    case (Pair r s1)
    show ?thesis
    proof (cases r)
      case (Inl e)
      with Pair that assms(1) have "F e s1" by (auto dest: hoare_error)
      with assms(3)[of e] Pair Inl show ?thesis by (simp add: match_result_def hoare_def)
    next
      case (Inr x)
      with Pair that assms(1) have "R x s1" by (auto dest: hoare_value)
      with assms(2)[of x] Pair Inr show ?thesis by (simp add: match_result_def hoare_def)
    qed
  qed
  then show ?thesis by (simp add: hoare_def)
qed

lemma hoare_if [hoare_rules]:
  assumes "b \<Longrightarrow> hoare P m Q E" and "\<not> b \<Longrightarrow> hoare P k Q E"
  shows "hoare P (if b then m else k) Q E"
  using assms by simp

lemma hoare_case_option [hoare_rules]:
  assumes "x = None \<Longrightarrow> hoare P m Q E" and "\<And>y. x = Some y \<Longrightarrow> hoare P (f y) Q E"
  shows "hoare P (case x of None \<Rightarrow> m | Some y \<Rightarrow> f y) Q E"
  using assms by (cases x) auto

lemma hoare_state_if [hoare_rules]:
  assumes "hoare P m Q E" and "hoare P k Q E"
  shows "hoare P (\<lambda>s. if b s then m s else k s) Q E"
  using assms by (simp add: hoare_def)

lemma hoare_state [hoare_rules]:
  assumes "\<And>s. P s \<Longrightarrow> hoare P (m s) Q E"
  shows "hoare P (\<lambda>s. m s s) Q E"
  using assms by (simp add: hoare_def)

lemma hoare_pure [hoare_rules]: "(\<And>s. P s \<Longrightarrow> Q (f s) s) \<Longrightarrow> hoare P (\<lambda>s. (Inr (f s), s)) Q E"
  by (simp add: hoare_def)

lemma hoare_for_each:
  assumes "\<And>x. x \<in> set xs \<Longrightarrow> hoare I (f x) (\<lambda>_. I) E"
  shows "hoare I (for_each xs f) (\<lambda>_. I) E"
  using assms
proof (induction xs)
  case Nil
  then show ?case by (simp add: hoare_ret)
next
  case (Cons x xs)
  have "hoare I (f x) (\<lambda>_. I) E" using Cons.prems by simp
  moreover have "hoare I (for_each xs f) (\<lambda>_. I) E" using Cons by simp
  ultimately show ?case by (auto intro: hoare_thn)
qed

section \<open>Lists\<close>

lemma concat_map_Nil [simp]: "concat (map f xs) = [] \<longleftrightarrow> (\<forall>x \<in> set xs. f x = [])"
  by (induction xs) auto

declare concat_eq_Nil_conv [simp del]

lemma if_Nil_Cons [simp]:
  "((if b then [] else x # xs) = []) = b" "((if b then x # xs else []) = []) = (\<not> b)"
  by auto

section \<open>JSON values\<close>

text \<open>
  \<open>serde_json::Value\<close>. A number is an integer (\<open>is_i64\<close> or \<open>is_u64\<close>) or a finite float,
  kept as the rational it denotes; an object is its list of members in insertion order (the
  workspace builds \<open>serde_json\<close> with \<open>preserve_order\<close>).
\<close>

datatype json =
    JNull
  | JBool bool
  | JInt int
  | JFloat rat
  | JStr string
  | JArr "json list"
  | JObj "(string \<times> json) list"

fun json_get :: "string \<Rightarrow> json \<Rightarrow> json option" where
  "json_get k (JObj ms) = map_of ms k"
| "json_get k _ = None"

fun json_as_str :: "json \<Rightarrow> string option" where
  "json_as_str (JStr s) = Some s"
| "json_as_str _ = None"

fun json_as_u64 :: "json \<Rightarrow> nat option" where
  "json_as_u64 (JInt i) = (if 0 \<le> i \<and> i < 2 ^ 64 then Some (nat i) else None)"
| "json_as_u64 _ = None"

fun json_as_bool :: "json \<Rightarrow> bool option" where
  "json_as_bool (JBool b) = Some b"
| "json_as_bool _ = None"

fun is_object :: "json \<Rightarrow> bool" where
  "is_object (JObj _) = True"
| "is_object _ = False"

section \<open>Unsigned 64-bit arithmetic\<close>

definition u64_max :: nat where
  "u64_max = 2 ^ 64 - 1"

definition saturating_add :: "nat \<Rightarrow> nat \<Rightarrow> nat" where
  "saturating_add a b = min (a + b) u64_max"

text \<open>Also of products and powers; \<open>saturating_sub\<close> is the truncating subtraction of \<open>nat\<close>.\<close>

definition saturating_mul :: "nat \<Rightarrow> nat \<Rightarrow> nat" where
  "saturating_mul a b = min (a * b) u64_max"

definition saturating_pow :: "nat \<Rightarrow> nat \<Rightarrow> nat" where
  "saturating_pow a n = min (a ^ n) u64_max"

definition saturating_sub :: "nat \<Rightarrow> nat \<Rightarrow> nat" where
  "saturating_sub a b = a - b"

text \<open>\<open>u64\<close> and \<open>u32\<close> arithmetic of the release profile, which wraps.\<close>

definition add_u64 :: "nat \<Rightarrow> nat \<Rightarrow> nat" where
  "add_u64 a b = (a + b) mod 2 ^ 64"

definition mul_u64 :: "nat \<Rightarrow> nat \<Rightarrow> nat" where
  "mul_u64 a b = (a * b) mod 2 ^ 64"

definition add_u32 :: "nat \<Rightarrow> nat \<Rightarrow> nat" where
  "add_u32 a b = (a + b) mod 2 ^ 32"

definition sub_u64 :: "nat \<Rightarrow> nat \<Rightarrow> nat" where
  "sub_u64 a b = (a + 2 ^ 64 - b) mod 2 ^ 64"

lemma saturating_add_le: "saturating_add a b \<le> u64_max"
  by (simp add: saturating_add_def)

lemma saturating_add_mono: "a \<le> u64_max \<Longrightarrow> a \<le> saturating_add a b"
  by (simp add: saturating_add_def)

section \<open>Rust's partition_point\<close>

text \<open>
  \<open>slice::partition_point\<close> is a binary search: the loop keeps a window that starts at
  \<open>base\<close> and has \<open>n\<close> elements. Its result is the split point where the slice is
  partitioned by the predicate; elsewhere it is whatever the search reaches, and the model
  computes that too.
\<close>

function pp_loop :: "('a \<Rightarrow> bool) \<Rightarrow> 'a list \<Rightarrow> nat \<Rightarrow> nat \<Rightarrow> nat" where
  "pp_loop p xs base n =
     (if n \<le> 1 then base
      else let half = n div 2; mid = base + half
           in pp_loop p xs (if p (xs ! mid) then mid else base) (n - half))"
  by pat_completeness auto
termination
  by (relation "measure (\<lambda>(p, xs, base, n). n)") auto

declare pp_loop.simps [simp del]

definition partition_point :: "('a \<Rightarrow> bool) \<Rightarrow> 'a list \<Rightarrow> nat" where
  "partition_point p xs =
     (if xs = [] then 0
      else let base = pp_loop p xs 0 (length xs) in base + (if p (xs ! base) then 1 else 0))"

definition split_at :: "('a \<Rightarrow> bool) \<Rightarrow> 'a list \<Rightarrow> nat \<Rightarrow> bool" where
  "split_at p xs k \<longleftrightarrow> k \<le> length xs \<and> (\<forall>i < length xs. p (xs ! i) \<longleftrightarrow> i < k)"

lemma pp_loop_window:
  assumes "pp_loop p xs base n = b" and "split_at p xs k" and "base + n \<le> length xs" and "0 < n"
    and "base \<le> k" and "k \<le> base + n" and "base = 0 \<or> base < k"
  shows "b < length xs \<and> (if p (xs ! b) then Suc b else b) = k"
  using assms
proof (induction p xs base n rule: pp_loop.induct)
  case (1 p xs base n)
  show ?case
  proof (cases "n \<le> 1")
    case True
    with "1.prems" have "n = 1" and "b = base" by (simp_all add: pp_loop.simps)
    with "1.prems" show ?thesis by (auto simp: split_at_def)
  next
    case False
    define half where "half = n div 2"
    define base' where "base' = (if p (xs ! (base + half)) then base + half else base)"
    have half: "0 < half" "half < n" "2 * half \<le> n" using False by (auto simp: half_def)
    have p_iff: "p (xs ! (base + half)) \<longleftrightarrow> base + half < k"
      using "1.prems" half by (auto simp: split_at_def)
    have step: "pp_loop p xs base' (n - half) = b"
      using False "1.prems"(1) by (subst (asm) pp_loop.simps) (simp add: Let_def half_def base'_def split: if_splits)
    show ?thesis
    proof (rule "1.IH"[OF False half_def refl, folded base'_def])
      show "k \<le> base' + (n - half)"
        using "1.prems"(6) p_iff half by (auto simp: base'_def)
    qed (use "1.prems" step p_iff half in \<open>auto simp: base'_def\<close>)
  qed
qed

lemma partition_point_split:
  assumes "split_at p xs k"
  shows "partition_point p xs = k"
proof (cases "xs = []")
  case True
  with assms show ?thesis by (simp add: partition_point_def split_at_def)
next
  case False
  have "k \<le> 0 + length xs" using assms by (simp add: split_at_def)
  with pp_loop_window[OF refl assms, of 0 "length xs"] False show ?thesis
    by (auto simp: partition_point_def Let_def split: if_splits)
qed

text \<open>On a strictly increasing list a threshold splits the list.\<close>

lemma split_at_takeWhile:
  assumes "sorted_wrt (<) (xs :: nat list)"
  shows "split_at (\<lambda>i. i < c) xs (length (takeWhile (\<lambda>i. i < c) xs))"
  using assms
proof (induction xs)
  case Nil
  then show ?case by (simp add: split_at_def)
next
  case (Cons x xs)
  then have IH: "split_at (\<lambda>i. i < c) xs (length (takeWhile (\<lambda>i. i < c) xs))" by simp
  have "(x # xs) ! i < c \<longleftrightarrow> i < length (takeWhile (\<lambda>i. i < c) (x # xs))"
    if i: "i < length (x # xs)" for i
  proof (cases "x < c")
    case True
    with IH i show ?thesis by (cases i) (auto simp: split_at_def)
  next
    case False
    have "\<not> (x # xs) ! i < c"
      using False Cons.prems nth_mem[OF i] by (auto simp: not_less intro: less_imp_le)
    with False show ?thesis by simp
  qed
  then show ?case by (auto simp: split_at_def intro: length_takeWhile_le)
qed

lemma partition_point_less:
  "sorted_wrt (<) (xs :: nat list) \<Longrightarrow>
   partition_point (\<lambda>i. i < c) xs = length (takeWhile (\<lambda>i. i < c) xs)"
  by (intro partition_point_split split_at_takeWhile)

lemma partition_point_le:
  assumes "sorted_wrt (<) (xs :: nat list)"
  shows "partition_point (\<lambda>i. i \<le> c) xs = length (takeWhile (\<lambda>i. i \<le> c) xs)"
proof -
  have "(\<lambda>i. i \<le> c) = (\<lambda>i. i < Suc c)" by (auto simp: fun_eq_iff)
  with partition_point_less[OF assms, of "Suc c"] show ?thesis by simp
qed

end
