(* ===== verification/AgentTypes.thy ===== *)
theory AgentTypes
  imports Prelude
begin

text \<open>
  The domain types of the agent loop (\<open>crates/pa-agent/src/types.rs\<close>) and of its model
  stream (\<open>stream.rs\<close>). Structs are records whose field names carry a prefix, enums are
  datatypes with the source's constructors. The money fields of \<open>Usage\<close> and \<open>Model\<close> (floats
  that the loop copies and never reads) are left out.
\<close>

datatype thinking_level = ThOff | ThMinimal | ThLow | ThMedium | ThHigh | ThXhigh | ThMax

datatype service_tier = TierAuto | TierDefault | TierFlex | TierScale | TierPriority

datatype tool_execution_mode = Sequential | Parallel

datatype stop_reason = StopStop | StopLength | StopToolUse | StopError | StopAborted

record text_content =
  tc_text :: string
  tc_signature :: "string option"

record thinking_content =
  th_thinking :: string
  th_signature :: "string option"
  th_redacted :: "bool option"

record image_content =
  im_data :: string
  im_mime_type :: string

record tool_call =
  call_id :: string
  call_name :: string
  call_arguments :: json
  call_thought_signature :: "string option"

datatype assistant_content =
    AText text_content
  | AThinking thinking_content
  | AToolCall tool_call

record usage =
  us_input :: nat
  us_output :: nat
  us_cache_read :: nat
  us_cache_write :: nat
  us_total_tokens :: nat

definition usage_zero :: usage where
  "usage_zero = \<lparr>us_input = 0, us_output = 0, us_cache_read = 0, us_cache_write = 0,
                 us_total_tokens = 0\<rparr>"

record assistant_diagnostic =
  dg_kind :: string
  dg_timestamp :: int
  dg_error :: "json option"
  dg_details :: "json option"

datatype user_part = UPText text_content | UPImage image_content

datatype user_content = UText string | UParts "user_part list"

record user_message =
  um_content :: user_content
  um_timestamp :: int

record assistant_message =
  am_content :: "assistant_content list"
  am_api :: string
  am_provider :: string
  am_model :: string
  am_response_model :: "string option"
  am_response_id :: "string option"
  am_diagnostics :: "assistant_diagnostic list option"
  am_usage :: usage
  am_stop_reason :: stop_reason
  am_stop_reason_raw :: "string option"
  am_error_message :: "string option"
  am_timestamp :: int

text \<open>\<open>AssistantMessage::tool_calls\<close>: the tool calls of the content, in order.\<close>

fun content_tool_calls :: "assistant_content list \<Rightarrow> tool_call list" where
  "content_tool_calls [] = []"
| "content_tool_calls (AToolCall tc # cs) = tc # content_tool_calls cs"
| "content_tool_calls (_ # cs) = content_tool_calls cs"

definition tool_calls :: "assistant_message \<Rightarrow> tool_call list" where
  "tool_calls m = content_tool_calls (am_content m)"

datatype tool_result_content = TRText text_content | TRImage image_content

definition tool_result_text :: "string \<Rightarrow> tool_result_content" where
  "tool_result_text t = TRText \<lparr>tc_text = t, tc_signature = None\<rparr>"

record tool_result_message =
  tr_call_id :: string
  tr_tool_name :: string
  tr_content :: "tool_result_content list"
  tr_details :: "json option"
  tr_is_error :: bool
  tr_timestamp :: int

datatype message =
    User user_message
  | Assistant assistant_message
  | ToolResult tool_result_message

record custom_agent_message =
  cm_role :: string
  cm_payload :: json

datatype agent_message = Standard message | Custom custom_agent_message

abbreviation from_assistant :: "assistant_message \<Rightarrow> agent_message" where
  "from_assistant m \<equiv> Standard (Assistant m)"

abbreviation from_tool_result :: "tool_result_message \<Rightarrow> agent_message" where
  "from_tool_result m \<equiv> Standard (ToolResult m)"

fun role :: "agent_message \<Rightarrow> string" where
  "role (Standard (User _)) = ''user''"
| "role (Standard (Assistant _)) = ''assistant''"
| "role (Standard (ToolResult _)) = ''toolResult''"
| "role (Custom c) = cm_role c"

record model =
  md_id :: string
  md_name :: string
  md_api :: string
  md_provider :: string
  md_base_url :: string
  md_reasoning :: bool
  md_context_window :: nat
  md_max_tokens :: nat

record agent_tool_result =
  res_content :: "tool_result_content list"
  res_details :: json
  res_terminate :: "bool option"

text \<open>\<open>AgentToolResult::error\<close>: an error result has an empty details object.\<close>

definition error_result :: "string \<Rightarrow> agent_tool_result" where
  "error_result t = \<lparr>res_content = [tool_result_text t], res_details = JObj [], res_terminate = None\<rparr>"

section \<open>Errors\<close>

text \<open>
  \<open>anyhow::Error\<close> as the loop sees it: the chain holds the typed \<open>AbortedError\<close> marker or it
  does not (\<open>is_abort_error\<close>). \<open>format!("{error:#}")\<close> is \<open>err_text\<close>.
\<close>

datatype agent_error = AbortedError | OtherError string

definition is_abort_error :: "agent_error \<Rightarrow> bool" where
  "is_abort_error e \<longleftrightarrow> e = AbortedError"

definition abort_error_message :: string where
  "abort_error_message = ''Request was aborted''"

fun err_text :: "agent_error \<Rightarrow> string" where
  "err_text AbortedError = abort_error_message"
| "err_text (OtherError t) = t"

section \<open>The events of the model stream\<close>

datatype stream_event =
    EvStart assistant_message
  | EvTextStart nat assistant_message
  | EvTextDelta nat string assistant_message
  | EvTextEnd nat string assistant_message
  | EvThinkingStart nat assistant_message
  | EvThinkingDelta nat string assistant_message
  | EvThinkingEnd nat assistant_message
  | EvToolCallStart nat assistant_message
  | EvToolCallDelta nat string assistant_message
  | EvToolCallEnd nat tool_call assistant_message
  | EvDone stop_reason assistant_message
  | EvError stop_reason assistant_message

fun terminal_message :: "stream_event \<Rightarrow> assistant_message option" where
  "terminal_message (EvDone _ m) = Some m"
| "terminal_message (EvError _ m) = Some m"
| "terminal_message _ = None"

fun is_delta :: "stream_event \<Rightarrow> bool" where
  "is_delta (EvStart _) = False"
| "is_delta (EvDone _ _) = False"
| "is_delta (EvError _ _) = False"
| "is_delta _ = True"

text \<open>\<open>event_partial\<close> of \<open>agent_loop/response.rs\<close>: the partial message an event carries.\<close>

fun event_partial :: "stream_event \<Rightarrow> assistant_message option" where
  "event_partial (EvStart m) = Some m"
| "event_partial (EvTextStart _ m) = Some m"
| "event_partial (EvTextDelta _ _ m) = Some m"
| "event_partial (EvTextEnd _ _ m) = Some m"
| "event_partial (EvThinkingStart _ m) = Some m"
| "event_partial (EvThinkingDelta _ _ m) = Some m"
| "event_partial (EvThinkingEnd _ m) = Some m"
| "event_partial (EvToolCallStart _ m) = Some m"
| "event_partial (EvToolCallDelta _ _ m) = Some m"
| "event_partial (EvToolCallEnd _ _ m) = Some m"
| "event_partial (EvDone _ _) = None"
| "event_partial (EvError _ _) = None"

text \<open>Every stream event is a start, a delta with a partial, or terminal.\<close>

lemma stream_event_cases:
  obtains (start) m where "ev = EvStart m"
  | (delta) m where "is_delta ev" and "event_partial ev = Some m" and "terminal_message ev = None"
  | (terminal) m where "terminal_message ev = Some m" and "\<not> is_delta ev"
  by (cases ev) auto

section \<open>The events of the loop\<close>

datatype agent_event =
    AgentStart
  | AgentEnd "agent_message list"
  | TurnStart
  | TurnEnd agent_message "tool_result_message list"
  | MessageStart agent_message
  | MessageUpdate agent_message stream_event
  | MessageEnd agent_message
  | ToolExecutionStart string string json
  | ToolExecutionUpdate string string json agent_tool_result
  | ToolExecutionEnd string string agent_tool_result bool

end
