(* ===== verification/Rust_Text.thy ===== *)
theory Rust_Text
  imports Prelude
begin

text \<open>
  The part of Rust's \<open>str\<close> and of its integer parsing and printing that the components use.
  A \<open>string\<close> is the UTF-8 byte sequence that a Rust \<open>String\<close> stores, so \<open>length\<close> is
  \<open>len()\<close>; what Rust does by character (\<open>trim\<close>, \<open>chars().count()\<close>) decodes here too.
\<close>

section \<open>Characters and white space\<close>

abbreviation byte :: "char \<Rightarrow> nat" where
  "byte c \<equiv> of_char c"

text \<open>A continuation byte \<open>0b10xxxxxx\<close> belongs to the character that started before it.\<close>

definition is_continuation :: "char \<Rightarrow> bool" where
  "is_continuation c \<longleftrightarrow> 128 \<le> byte c \<and> byte c < 192"

definition chars_count :: "string \<Rightarrow> nat" where
  "chars_count s = length (filter (\<lambda>c. \<not> is_continuation c) s)"

definition is_ascii_space :: "char \<Rightarrow> bool" where
  "is_ascii_space c \<longleftrightarrow> (9 \<le> byte c \<and> byte c \<le> 13) \<or> byte c = 32"

definition is_ascii_digit :: "char \<Rightarrow> bool" where
  "is_ascii_digit c \<longleftrightarrow> 48 \<le> byte c \<and> byte c \<le> 57"

text \<open>
  \<open>char::is_whitespace\<close> on the encoded character: the Unicode \<open>White_Space\<close> characters
  above ASCII are U+0085, U+00A0, U+1680, U+2000 to U+200A, U+2028, U+2029, U+202F, U+205F
  and U+3000. Each function gives the number of bytes of the white-space character at the
  front, 0 if there is none; the second one reads a reversed string.
\<close>

definition wide_space :: "nat \<Rightarrow> nat \<Rightarrow> nat \<Rightarrow> bool" where
  "wide_space a b c \<longleftrightarrow>
     (a = 225 \<and> b = 154 \<and> c = 128)
     \<or> (a = 226 \<and> b = 128 \<and> (128 \<le> c \<and> c \<le> 138 \<or> c = 168 \<or> c = 169 \<or> c = 175))
     \<or> (a = 226 \<and> b = 129 \<and> c = 159)
     \<or> (a = 227 \<and> b = 128 \<and> c = 128)"

fun space_prefix :: "string \<Rightarrow> nat" where
  "space_prefix [] = 0"
| "space_prefix (a # s) =
     (if is_ascii_space a then 1
      else case s of
        [] \<Rightarrow> 0
      | b # s' \<Rightarrow>
          if byte a = 194 \<and> (byte b = 133 \<or> byte b = 160) then 2
          else case s' of [] \<Rightarrow> 0 | c # _ \<Rightarrow> if wide_space (byte a) (byte b) (byte c) then 3 else 0)"

fun space_suffix :: "string \<Rightarrow> nat" where
  "space_suffix [] = 0"
| "space_suffix (c # s) =
     (if is_ascii_space c then 1
      else case s of
        [] \<Rightarrow> 0
      | b # s' \<Rightarrow>
          if byte b = 194 \<and> (byte c = 133 \<or> byte c = 160) then 2
          else case s' of [] \<Rightarrow> 0 | a # _ \<Rightarrow> if wide_space (byte a) (byte b) (byte c) then 3 else 0)"

function trim_by :: "(string \<Rightarrow> nat) \<Rightarrow> string \<Rightarrow> string" where
  "trim_by f s = (if s = [] \<or> f s = 0 then s else trim_by f (drop (f s) s))"
  by pat_completeness auto
termination
  by (relation "measure (\<lambda>(f, s). length s)") auto

declare trim_by.simps [simp del]

definition trim_start :: "string \<Rightarrow> string" where
  "trim_start s = trim_by space_prefix s"

definition trim_end :: "string \<Rightarrow> string" where
  "trim_end s = rev (trim_by space_suffix (rev s))"

definition trim :: "string \<Rightarrow> string" where
  "trim s = trim_end (trim_start s)"

lemma trim_by_suffix: "\<exists>k. trim_by f s = drop k s"
proof (induction f s rule: trim_by.induct)
  case (1 f s)
  show ?case
  proof (cases "s = [] \<or> f s = 0")
    case True
    then show ?thesis by (metis drop0 trim_by.simps)
  next
    case False
    with "1.IH" obtain k where "trim_by f (drop (f s) s) = drop k (drop (f s) s)" by blast
    with False show ?thesis by (metis drop_drop trim_by.simps)
  qed
qed

lemma trim_by_stops: "trim_by f s = [] \<or> f (trim_by f s) = 0"
proof (induction f s rule: trim_by.induct)
  case (1 f s)
  show ?case
  proof (cases "s = [] \<or> f s = 0")
    case True
    then show ?thesis by (simp add: trim_by.simps)
  next
    case False
    then have "trim_by f s = trim_by f (drop (f s) s)" by (subst trim_by.simps) simp
    with False "1.IH" show ?thesis by simp
  qed
qed

lemma trim_by_id: "s = [] \<or> f s = 0 \<Longrightarrow> trim_by f s = s"
  by (auto simp: trim_by.simps)

lemma length_trim_le: "length (trim s) \<le> length s"
proof -
  obtain k where "trim_by space_prefix s = drop k s" using trim_by_suffix by blast
  moreover obtain j where "trim_by space_suffix (rev (trim_start s)) = drop j (rev (trim_start s))"
    using trim_by_suffix by blast
  ultimately show ?thesis by (simp add: trim_def trim_end_def trim_start_def)
qed

text \<open>
  A trimmed string ends in no white space. That it starts with none as well needs the
  bytes to be UTF-8: cutting a white-space character off the end of arbitrary bytes could
  make the rest begin with one, but no proper prefix of a string gains a white-space
  character at its front.
\<close>

lemma space_prefix_take:
  assumes "space_prefix (take k s) \<noteq> 0"
  shows "space_prefix s \<noteq> 0"
proof (cases s)
  case (Cons a s1)
  with assms obtain k1 where k: "k = Suc k1" by (cases k) auto
  show ?thesis
  proof (cases s1)
    case Nil
    with assms Cons k show ?thesis by simp
  next
    case (Cons b s2)
    note s1 = this
    show ?thesis
    proof (cases k1)
      case 0
      with assms \<open>s = a # s1\<close> s1 k show ?thesis by (simp split: if_splits)
    next
      case (Suc k2)
      with assms \<open>s = a # s1\<close> s1 k show ?thesis
        by (cases s2; cases k2) (simp_all split: if_splits)
    qed
  qed
qed (use assms in simp)

lemma rev_drop_rev: "rev (drop k (rev s)) = take (length s - k) s"
  by (simp add: rev_drop)

lemma trim_no_front_space: "trim s = [] \<or> space_prefix (trim s) = 0"
proof -
  obtain k where k: "trim_by space_suffix (rev (trim_start s)) = drop k (rev (trim_start s))"
    using trim_by_suffix by blast
  have front: "trim_start s = [] \<or> space_prefix (trim_start s) = 0"
    unfolding trim_start_def by (rule trim_by_stops)
  have eq: "trim s = take (length (trim_start s) - k) (trim_start s)"
    unfolding trim_def trim_end_def k by (rule rev_drop_rev)
  show ?thesis
  proof (cases "trim_start s = []")
    case True
    then show ?thesis by (simp add: eq)
  next
    case False
    with front have "space_prefix (trim_start s) = 0" by simp
    then show ?thesis unfolding eq using space_prefix_take by blast
  qed
qed

lemma trim_no_end_space: "trim s = [] \<or> space_suffix (rev (trim s)) = 0"
  using trim_by_stops[of space_suffix "rev (trim_start s)"] by (auto simp: trim_def trim_end_def)

lemma trim_idem: "trim (trim s) = trim s"
proof -
  have "trim_start (trim s) = trim s"
    unfolding trim_start_def using trim_no_front_space by (rule trim_by_id)
  moreover have "trim_end (trim s) = trim s"
    unfolding trim_end_def using trim_no_end_space[of s] by (auto simp: trim_by_id)
  ultimately show ?thesis by (simp add: trim_def)
qed

section \<open>Decimal integers\<close>

definition digit_char :: "nat \<Rightarrow> char" where
  "digit_char d = char_of (48 + d)"

function show_nat :: "nat \<Rightarrow> string" where
  "show_nat n = (if n < 10 then [digit_char n] else show_nat (n div 10) @ [digit_char (n mod 10)])"
  by pat_completeness auto
termination
  by (relation "measure id") auto

declare show_nat.simps [simp del]

definition show_int :: "int \<Rightarrow> string" where
  "show_int i = (if i < 0 then ''-'' @ show_nat (nat (- i)) else show_nat (nat i))"

fun digits_value :: "nat \<Rightarrow> string \<Rightarrow> nat option" where
  "digits_value acc [] = Some acc"
| "digits_value acc (c # cs) =
     (if is_ascii_digit c then digits_value (10 * acc + (byte c - 48)) cs else None)"

text \<open>\<open>u64::from_str\<close>: an optional plus sign, then at least one digit, within the range.\<close>

definition parse_unsigned :: "nat \<Rightarrow> string \<Rightarrow> nat option" where
  "parse_unsigned maxv s =
     (let ds = (case s of c # cs \<Rightarrow> if c = CHR ''+'' then cs else s | [] \<Rightarrow> [])
      in if ds = [] then None
         else case digits_value 0 ds of None \<Rightarrow> None | Some n \<Rightarrow> if n \<le> maxv then Some n else None)"

definition parse_u64 :: "string \<Rightarrow> nat option" where
  "parse_u64 s = parse_unsigned u64_max s"

text \<open>\<open>i64::from_str\<close>: as above with an optional minus sign.\<close>

definition parse_i64 :: "string \<Rightarrow> int option" where
  "parse_i64 s =
     (case s of
        c # cs \<Rightarrow>
          if c = CHR ''-'' then
            (if cs = [] then None
             else case digits_value 0 cs of
                    None \<Rightarrow> None
                  | Some n \<Rightarrow> if n \<le> 2 ^ 63 then Some (- int n) else None)
          else map_option int (parse_unsigned (2 ^ 63 - 1) s)
      | [] \<Rightarrow> None)"

lemma byte_digit_char: "d < 10 \<Longrightarrow> byte (digit_char d) = 48 + d"
  by (simp add: digit_char_def)

lemma is_digit_digit_char: "d < 10 \<Longrightarrow> is_ascii_digit (digit_char d)"
  by (simp add: is_ascii_digit_def byte_digit_char)

lemma digits_value_append:
  "digits_value acc (xs @ ys) =
     (case digits_value acc xs of None \<Rightarrow> None | Some a \<Rightarrow> digits_value a ys)"
  by (induction xs arbitrary: acc) auto

lemma digits_value_show: "digits_value 0 (show_nat n) = Some n"
proof (induction n rule: show_nat.induct)
  case (1 n)
  show ?case
  proof (cases "n < 10")
    case True
    then show ?thesis
      by (subst show_nat.simps) (simp add: is_digit_digit_char byte_digit_char)
  next
    case False
    then show ?thesis using "1.IH"
      by (subst show_nat.simps)
         (simp add: digits_value_append is_digit_digit_char byte_digit_char)
  qed
qed

lemma show_nat_nonempty [simp]: "show_nat n \<noteq> []"
  by (subst show_nat.simps) simp

lemma show_nat_digits: "c \<in> set (show_nat n) \<Longrightarrow> is_ascii_digit c"
proof (induction n rule: show_nat.induct)
  case (1 n)
  then show ?case
    by (cases "n < 10") (auto simp: show_nat.simps[of n] is_digit_digit_char)
qed

lemma show_nat_inj: "show_nat m = show_nat n \<Longrightarrow> m = n"
  by (metis digits_value_show option.inject)

lemma parse_u64_show: "n \<le> u64_max \<Longrightarrow> parse_u64 (show_nat n) = Some n"
proof -
  assume "n \<le> u64_max"
  have "hd (show_nat n) \<noteq> CHR ''+''"
    using show_nat_digits[of "hd (show_nat n)" n] by (auto simp: is_ascii_digit_def)
  then have "(case show_nat n of c # cs \<Rightarrow> if c = CHR ''+'' then cs else show_nat n | [] \<Rightarrow> []) = show_nat n"
    by (cases "show_nat n") auto
  with \<open>n \<le> u64_max\<close> show ?thesis
    by (simp add: parse_u64_def parse_unsigned_def digits_value_show)
qed

section \<open>Joining, lower case, replacement\<close>

fun join_with :: "string \<Rightarrow> string list \<Rightarrow> string" where
  "join_with sep [] = []"
| "join_with sep [x] = x"
| "join_with sep (x # y # ys) = x @ sep @ join_with sep (y # ys)"

definition ascii_lower :: "char \<Rightarrow> char" where
  "ascii_lower c = (if 65 \<le> byte c \<and> byte c \<le> 90 then char_of (byte c + 32) else c)"

definition to_ascii_lowercase :: "string \<Rightarrow> string" where
  "to_ascii_lowercase s = map ascii_lower s"

text \<open>\<open>str::replace\<close> of one ASCII character.\<close>

definition replace_char :: "char \<Rightarrow> string \<Rightarrow> string \<Rightarrow> string" where
  "replace_char c r s = concat (map (\<lambda>x. if x = c then r else [x]) s)"

text \<open>\<open>str::starts_with\<close>, \<open>str::strip_prefix\<close>, \<open>str::contains\<close>.\<close>

fun starts_with :: "string \<Rightarrow> string \<Rightarrow> bool" where
  "starts_with s [] = True"
| "starts_with [] (p # ps) = False"
| "starts_with (c # s) (p # ps) = (c = p \<and> starts_with s ps)"

definition strip_prefix :: "string \<Rightarrow> string \<Rightarrow> string option" where
  "strip_prefix s p = (if starts_with s p then Some (drop (length p) s) else None)"

fun contains_str :: "string \<Rightarrow> string \<Rightarrow> bool" where
  "contains_str [] p = (p = [])"
| "contains_str (c # s) p = (starts_with (c # s) p \<or> contains_str s p)"

lemma starts_with_iff: "starts_with s p \<longleftrightarrow> (\<exists>t. s = p @ t)"
  by (induction s p rule: starts_with.induct) auto

lemma strip_prefix_Some: "strip_prefix s p = Some t \<longleftrightarrow> s = p @ t"
  by (auto simp: strip_prefix_def starts_with_iff)

lemma contains_str_iff: "contains_str s p \<longleftrightarrow> (\<exists>u v. s = u @ p @ v)"
proof (induction s)
  case Nil
  then show ?case by auto
next
  case (Cons c s)
  show ?case
  proof
    assume "contains_str (c # s) p"
    then consider "starts_with (c # s) p" | "contains_str s p" by auto
    then show "\<exists>u v. c # s = u @ p @ v"
    proof cases
      case 1
      then show ?thesis unfolding starts_with_iff by (metis append_Nil)
    next
      case 2
      with Cons obtain u v where "s = u @ p @ v" by blast
      then show ?thesis by (metis append_Cons)
    qed
  next
    assume "\<exists>u v. c # s = u @ p @ v"
    then obtain u v where uv: "c # s = u @ p @ v" by blast
    show "contains_str (c # s) p"
    proof (cases u)
      case Nil
      with uv have "starts_with (c # s) p" by (auto simp: starts_with_iff)
      then show ?thesis by simp
    next
      case (Cons x u')
      with uv have "\<exists>u v. s = u @ p @ v" by auto
      with Cons.IH show ?thesis by auto
    qed
  qed
qed

section \<open>Bytes to text\<close>

text \<open>
  \<open>String::from_utf8_lossy\<close>: each maximal prefix of a character that the next byte cannot
  continue becomes U+FFFD.
\<close>

definition replacement :: string where
  "replacement = [char_of (239::nat), char_of (191::nat), char_of (189::nat)]"

definition second_ok :: "nat \<Rightarrow> char \<Rightarrow> bool" where
  "second_ok a b \<longleftrightarrow>
     (if a = 224 then 160 \<le> byte b \<and> byte b \<le> 191
      else if a = 237 then 128 \<le> byte b \<and> byte b \<le> 159
      else if a = 240 then 144 \<le> byte b \<and> byte b \<le> 191
      else if a = 244 then 128 \<le> byte b \<and> byte b \<le> 143
      else is_continuation b)"

definition char_width :: "char \<Rightarrow> nat" where
  "char_width c =
     (let a = byte c :: nat
      in if a < 128 then 1
         else if 194 \<le> a \<and> a \<le> 223 then 2
         else if 224 \<le> a \<and> a \<le> 239 then 3
         else if 240 \<le> a \<and> a \<le> 244 then 4 else 0)"

text \<open>The number of bytes of the character at the front that are there, and whether it is whole.\<close>

fun front_char :: "string \<Rightarrow> nat \<times> bool" where
  "front_char [] = (0, True)"
| "front_char (a # s) =
     (let w = char_width a
      in if w = 1 then (1, True)
         else if w = 0 then (1, False)
         else case s of
           [] \<Rightarrow> (1, False)
         | b # s1 \<Rightarrow>
             if \<not> second_ok (byte a) b then (1, False)
             else if w = 2 then (2, True)
             else case s1 of
               [] \<Rightarrow> (2, False)
             | c # s2 \<Rightarrow>
                 if \<not> is_continuation c then (2, False)
                 else if w = 3 then (3, True)
                 else case s2 of
                   [] \<Rightarrow> (3, False)
                 | d # s3 \<Rightarrow> if is_continuation d then (4, True) else (3, False))"

function from_utf8_lossy :: "string \<Rightarrow> string" where
  "from_utf8_lossy s =
     (if s = [] then []
      else case front_char s of (n, whole) \<Rightarrow>
        (if whole then take n s else replacement) @ from_utf8_lossy (drop (max 1 n) s))"
  by pat_completeness auto
termination
  by (relation "measure length") auto

declare from_utf8_lossy.simps [simp del]

lemma lossy_ascii: "(\<And>c. c \<in> set s \<Longrightarrow> byte c < (128 :: nat)) \<Longrightarrow> from_utf8_lossy s = s"
proof (induction s)
  case (Cons c s)
  have "front_char (c # s) = (1, True)"
    using Cons.prems[of c] by (simp add: char_width_def)
  with Cons show ?case by (subst from_utf8_lossy.simps) simp
qed (simp add: from_utf8_lossy.simps)

text \<open>\<open>str::from_utf8\<close> succeeds on the bytes that the lossy conversion leaves alone.\<close>

definition valid_utf8 :: "string \<Rightarrow> bool" where
  "valid_utf8 s \<longleftrightarrow> from_utf8_lossy s = s"

section \<open>UTF-8 text and its boundaries\<close>

text \<open>Text is a sequence of whole characters.\<close>

function whole_chars :: "string \<Rightarrow> bool" where
  "whole_chars s =
     (if s = [] then True
      else case front_char s of (n, whole) \<Rightarrow> whole \<and> whole_chars (drop (max 1 n) s))"
  by pat_completeness auto
termination
  by (relation "measure length") auto

declare whole_chars.simps [simp del]

lemma whole_chars_Nil [simp]: "whole_chars []"
  by (simp add: whole_chars.simps)

lemma front_char_bound: "front_char s = (n, whole) \<Longrightarrow> n \<le> length s \<and> (s \<noteq> [] \<longrightarrow> 0 < n)"
  by (induction s rule: front_char.induct) (auto simp: Let_def split: if_splits list.splits)

lemma whole_chars_unfold:
  "s \<noteq> [] \<Longrightarrow> whole_chars s \<longleftrightarrow> (\<exists>n > 0. front_char s = (n, True) \<and> whole_chars (drop n s))"
  using front_char_bound [of s] by (subst whole_chars.simps) (cases "front_char s", auto simp: max_def)

lemma second_ok_continuation: "second_ok a b \<Longrightarrow> is_continuation b"
  by (auto simp: second_ok_def is_continuation_def split: if_splits)

text \<open>Inside a whole character there are only continuation bytes.\<close>

lemma front_char_inside:
  "front_char s = (n, True) \<Longrightarrow> 0 < i \<Longrightarrow> i < n \<Longrightarrow> is_continuation (s ! i)"
  by (induction s rule: front_char.induct)
     (auto simp: Let_def nth_Cons less_Suc_eq eval_nat_numeral second_ok_continuation
       split: if_splits list.splits nat.splits)

lemma front_char_prefix:
  "front_char (s @ t) = (n, True) \<Longrightarrow> n \<le> length s \<Longrightarrow> s \<noteq> [] \<Longrightarrow> front_char s = (n, True)"
  by (cases s; cases "tl s"; cases "tl (tl s)"; cases "tl (tl (tl s))")
     (auto simp: Let_def split: if_splits list.splits)

lemma lossy_whole_chars: "whole_chars s \<Longrightarrow> from_utf8_lossy s = s"
proof (induction s rule: from_utf8_lossy.induct)
  case (1 s)
  show ?case
  proof (cases "s = []")
    case True
    then show ?thesis by (simp add: from_utf8_lossy.simps)
  next
    case False
    with "1.prems" obtain n where n: "0 < n" "front_char s = (n, True)" "whole_chars (drop n s)"
      by (auto simp: whole_chars_unfold)
    then have "from_utf8_lossy (drop n s) = drop n s" using "1.IH" [OF False n(2) [symmetric]] by (simp add: max_def)
    with n False show ?thesis by (subst from_utf8_lossy.simps) (simp add: max_def)
  qed
qed

lemma valid_whole_chars: "valid_utf8 s \<Longrightarrow> whole_chars s"
  unfolding valid_utf8_def
proof (induction s rule: from_utf8_lossy.induct)
  case (1 s)
  show ?case
  proof (cases "s = []")
    case False
    obtain n whole where f: "front_char s = (n, whole)" by (cases "front_char s")
    from front_char_bound [OF f] False have n: "0 < n" "n \<le> length s" by auto
    have eq: "(if whole then take n s else replacement) @ from_utf8_lossy (drop n s) = s"
      using "1.prems" n f False by (subst (asm) from_utf8_lossy.simps) (simp add: max_def)
    have whole
    proof (rule ccontr)
      assume "\<not> whole"
      with eq have "s = replacement @ from_utf8_lossy (drop n s)" by simp
      then obtain t where "s = replacement @ t" ..
      then have "front_char s = (3, True)"
        by (simp add: replacement_def char_width_def second_ok_def is_continuation_def)
      with f \<open>\<not> whole\<close> show False by simp
    qed
    with eq have "from_utf8_lossy (drop n s) = drop n s"
      by (metis (full_types) append_take_drop_id same_append_eq)
    with "1.IH" [OF False f [symmetric]] n have "whole_chars (drop n s)" by (simp add: max_def)
    with f n \<open>whole\<close> False show ?thesis by (auto simp: whole_chars_unfold)
  qed simp
qed

lemma valid_utf8_iff: "valid_utf8 s \<longleftrightarrow> whole_chars s"
  using valid_whole_chars lossy_whole_chars by (auto simp: valid_utf8_def)

lemma whole_chars_append_iff:
  "t = [] \<or> \<not> is_continuation (hd t) \<Longrightarrow> whole_chars (s @ t) \<longleftrightarrow> whole_chars s \<and> whole_chars t"
proof (induction "length s" arbitrary: s rule: less_induct)
  case less
  show ?case
  proof (cases "s = []")
    case False
    show ?thesis
    proof
      assume "whole_chars (s @ t)"
      with False obtain n where n: "0 < n" "front_char (s @ t) = (n, True)" "whole_chars (drop n (s @ t))"
        by (auto simp: whole_chars_unfold [of "s @ t"])
      have le: "n \<le> length s"
      proof (rule ccontr)
        assume "\<not> n \<le> length s"
        with front_char_inside [OF n(2), of "length s"] False have "is_continuation ((s @ t) ! length s)" by simp
        moreover have "t \<noteq> []" using front_char_bound [OF n(2)] \<open>\<not> n \<le> length s\<close> by auto
        ultimately show False using less.prems by (simp add: hd_conv_nth nth_append)
      qed
      then have "whole_chars (drop n s @ t)" using n by simp
      then have "whole_chars (drop n s)" "whole_chars t" using less.hyps [of "drop n s"] less.prems n False by auto
      with front_char_prefix [OF n(2) le False] n False show "whole_chars s \<and> whole_chars t"
        by (auto simp: whole_chars_unfold [of s])
    next
      assume st: "whole_chars s \<and> whole_chars t"
      with False obtain n where n: "0 < n" "front_char s = (n, True)" "whole_chars (drop n s)"
        by (auto simp: whole_chars_unfold [of s])
      have "front_char (s @ t) = (n, True)"
        using n(2) False by (cases s; cases "tl s"; cases "tl (tl s)"; cases "tl (tl (tl s))")
          (auto simp: Let_def split: if_splits)
      moreover have "whole_chars (drop n (s @ t))"
        using less.hyps [of "drop n s"] less.prems n st False front_char_bound [OF n(2)] by auto
      ultimately show "whole_chars (s @ t)" using n False by (auto simp: whole_chars_unfold [of "s @ t"])
    qed
  qed simp
qed

text \<open>The characters of a UTF-8 text: a byte with its continuation bytes.\<close>

function split_chars :: "string \<Rightarrow> string list" where
  "split_chars [] = []"
| "split_chars (c # s) = (c # takeWhile is_continuation s) # split_chars (dropWhile is_continuation s)"
  by pat_completeness auto
termination
  by (relation "measure length") (auto simp: le_imp_less_Suc length_dropWhile_le)

lemma concat_split_chars: "concat (split_chars s) = s"
  by (induction s rule: split_chars.induct) simp_all

section \<open>Lines\<close>

abbreviation line_feed :: char where
  "line_feed \<equiv> CHR 0x0A"

text \<open>\<open>str::lines\<close>: split at line feeds, a carriage return before one is dropped.\<close>

fun drop_cr :: "string \<Rightarrow> string" where
  "drop_cr [] = []"
| "drop_cr (x # xs) = (if byte x = (13 :: nat) then xs else x # xs)"

fun split_lines :: "string \<Rightarrow> string \<Rightarrow> string list" where
  "split_lines acc [] = (if acc = [] then [] else [rev acc])"
| "split_lines acc (c # cs) =
     (if c = line_feed then
        rev (drop_cr acc) # split_lines [] cs
      else split_lines (c # acc) cs)"

definition str_lines :: "string \<Rightarrow> string list" where
  "str_lines s = split_lines [] s"

text \<open>A file of lines, each ended by a line feed.\<close>

definition unlines :: "string list \<Rightarrow> string" where
  "unlines ls = concat (map (\<lambda>l. l @ [line_feed]) ls)"

lemma unlines_simps [simp]:
  "unlines [] = []" "unlines (l # ls) = l @ line_feed # unlines ls" "unlines (ls @ ls') = unlines ls @ unlines ls'"
  by (simp_all add: unlines_def)

lemma join_with_unlines: "ls \<noteq> [] \<Longrightarrow> join_with [line_feed] ls @ [line_feed] = unlines ls"
  by (induction ls rule: induct_list012) simp_all

lemma split_lines_line:
  "line_feed \<notin> set l \<Longrightarrow> split_lines acc (l @ line_feed # s) =
     rev (drop_cr (rev l @ acc)) # split_lines [] s"
  by (induction l arbitrary: acc) auto

lemma split_lines_last: "line_feed \<notin> set l \<Longrightarrow> split_lines acc l = (if rev l @ acc = [] then [] else [rev acc @ l])"
  by (induction l arbitrary: acc) auto

text \<open>The lines that the JSON writer makes: one object each.\<close>

definition object_line :: "string \<Rightarrow> bool" where
  "object_line l \<longleftrightarrow> line_feed \<notin> set l \<and> 2 \<le> length l \<and> hd l = CHR 0x7B \<and> last l = CHR 0x7D"

lemma split_lines_object:
  "object_line l \<Longrightarrow> split_lines [] (l @ line_feed # s) = l # split_lines [] s"
  using split_lines_line[of l "[]" s] by (cases l rule: rev_cases) (auto simp: object_line_def)

lemma str_lines_objects:
  "\<forall>l \<in> set ls. object_line l \<Longrightarrow> str_lines (unlines ls) = ls"
  by (induction ls) (simp_all add: str_lines_def split_lines_object)

lemma front_char_bounds: "s \<noteq> [] \<Longrightarrow> front_char s = (n, whole) \<Longrightarrow> 1 \<le> n \<and> n \<le> length s"
  by (induction s rule: front_char.induct) (auto simp: Let_def split: if_splits list.splits)

lemma front_char_append:
  "s \<noteq> [] \<Longrightarrow> front_char s = (n, True) \<Longrightarrow> front_char (s @ t) = (n, True)"
  by (cases s) (auto simp: Let_def split: if_splits list.splits)

lemma front_char_replacement: "front_char (replacement @ s) = (3, True)"
  by (simp add: replacement_def char_width_def second_ok_def is_continuation_def Let_def)

lemma valid_utf8_front:
  assumes "valid_utf8 s" and "s \<noteq> []"
  obtains n where "front_char s = (n, True)" and "valid_utf8 (drop n s)" and "1 \<le> n"
proof -
  obtain n whole where f: "front_char s = (n, whole)" by fastforce
  note n = front_char_bounds[OF assms(2) f]
  then have m: "max 1 n = n" by simp
  have eq: "(if whole then take n s else replacement) @ from_utf8_lossy (drop n s) = s"
    using assms f m unfolding valid_utf8_def by (subst (asm) from_utf8_lossy.simps) simp
  have whole: whole
  proof (rule ccontr)
    assume "\<not> whole"
    with eq have "front_char s = (3, True)" using front_char_replacement by metis
    with f \<open>\<not> whole\<close> show False by simp
  qed
  with eq have "from_utf8_lossy (drop n s) = drop n s"
    by (metis append_take_drop_id same_append_eq)
  with whole f n show thesis by (intro that[of n]) (simp_all add: valid_utf8_def)
qed

lemma valid_utf8_append:
  assumes "valid_utf8 s" and "valid_utf8 t"
  shows "valid_utf8 (s @ t)"
  using assms(1)
proof (induction "length s" arbitrary: s rule: less_induct)
  case less
  show ?case
  proof (cases "s = []")
    case True
    with assms(2) show ?thesis by simp
  next
    case False
    obtain n where n: "front_char s = (n, True)" "valid_utf8 (drop n s)" "1 \<le> n"
      using valid_utf8_front[OF less.prems False] by blast
    have le: "n \<le> length s" using front_char_bounds[OF False n(1)] by simp
    have "valid_utf8 (drop n s @ t)" using n False by (intro less.hyps) (auto simp: neq_Nil_conv)
    then have "from_utf8_lossy (drop n (s @ t)) = drop n (s @ t)" using le by (simp add: valid_utf8_def)
    then show ?thesis
      using front_char_append[OF False n(1), of t] n(3) False le unfolding valid_utf8_def
      by (subst from_utf8_lossy.simps) (simp add: max_def)
  qed
qed

lemma valid_utf8_ascii: "(\<And>c. c \<in> set s \<Longrightarrow> byte c < (128 :: nat)) \<Longrightarrow> valid_utf8 s"
  by (simp add: valid_utf8_def lossy_ascii)

lemma valid_utf8_unlines: "\<forall>l \<in> set ls. valid_utf8 l \<Longrightarrow> valid_utf8 (unlines ls)"
proof (induction ls)
  case Nil
  then show ?case by (simp add: valid_utf8_def from_utf8_lossy.simps)
next
  case (Cons l ls)
  have "valid_utf8 [line_feed]" by (rule valid_utf8_ascii) simp
  with Cons have "valid_utf8 (l @ [line_feed] @ unlines ls)" by (intro valid_utf8_append) simp_all
  then show ?case by simp
qed

end
