(* ===== verification/Validation.thy ===== *)
theory Validation
  imports Rust_Text
begin

text \<open>
  Tool-argument validation, \<open>crates/pa-agent/src/validation.rs\<close>: coercion of primitive values
  towards a JSON Schema and the check of the coerced value, with the errors in the order the
  code reports them. The reference semantics \<open>conforms\<close> says what the check accepts.

  Floating-point parsing, printing and rounding are the fields of a record \<open>fp_ops\<close>; a float
  is the rational it denotes. \<open>to_string_pretty\<close> of \<open>serde_json\<close> is a parameter of the
  message.
\<close>

record fp_ops =
  fp_parse :: "string \<Rightarrow> rat option option"
    \<comment> \<open>\<open>parse::<f64>\<close>: \<open>None\<close> is a parse error, \<open>Some None\<close> an infinity or NaN\<close>
  fp_number :: "rat \<Rightarrow> string"  \<comment> \<open>\<open>Number::to_string\<close> of a float\<close>
  fp_display :: "rat \<Rightarrow> string" \<comment> \<open>\<open>{}\<close> of an \<open>f64\<close>\<close>
  fp_of_int :: "int \<Rightarrow> rat"     \<comment> \<open>\<open>as f64\<close> of an integer\<close>

fun as_f64 :: "fp_ops \<Rightarrow> json \<Rightarrow> rat option" where
  "as_f64 fp (JInt i) = Some (fp_of_int fp i)"
| "as_f64 fp (JFloat r) = Some r"
| "as_f64 fp _ = None"

section \<open>Schema helpers\<close>

definition strings_of :: "json list \<Rightarrow> string list" where
  "strings_of vs = List.map_filter json_as_str vs"

definition schema_type :: "json \<Rightarrow> string list" where
  "schema_type schema =
     (case json_get ''type'' schema of
        Some (JStr t) \<Rightarrow> [t]
      | Some (JArr items) \<Rightarrow> strings_of items
      | _ \<Rightarrow> [])"

fun type_name :: "json \<Rightarrow> string" where
  "type_name JNull = ''null''"
| "type_name (JBool _) = ''boolean''"
| "type_name (JInt _) = ''integer''"
| "type_name (JFloat _) = ''number''"
| "type_name (JStr _) = ''string''"
| "type_name (JArr _) = ''array''"
| "type_name (JObj _) = ''object''"

definition type_matches :: "string \<Rightarrow> json \<Rightarrow> bool" where
  "type_matches ty v =
     (if ty = ''null'' then v = JNull
      else if ty = ''boolean'' then (case v of JBool _ \<Rightarrow> True | _ \<Rightarrow> False)
      else if ty = ''integer'' then (case v of JInt _ \<Rightarrow> True | _ \<Rightarrow> False)
      else if ty = ''number'' then (case v of JInt _ \<Rightarrow> True | JFloat _ \<Rightarrow> True | _ \<Rightarrow> False)
      else if ty = ''string'' then (case v of JStr _ \<Rightarrow> True | _ \<Rightarrow> False)
      else if ty = ''array'' then (case v of JArr _ \<Rightarrow> True | _ \<Rightarrow> False)
      else if ty = ''object'' then (case v of JObj _ \<Rightarrow> True | _ \<Rightarrow> False)
      else True)"

section \<open>Coercion\<close>

definition two_pow_53 :: rat where
  "two_pow_53 = 9007199254740992"

definition number_value :: "rat option \<Rightarrow> json" where
  "number_value n =
     (case n of
        None \<Rightarrow> JNull
      | Some r \<Rightarrow> if of_int \<lfloor>r\<rfloor> = r \<and> \<bar>r\<bar> < two_pow_53 then JInt \<lfloor>r\<rfloor> else JFloat r)"

text \<open>
  The loop of \<open>coerce\<close> over the schema's types: the first type that converts the value
  wins. Each exit of the loop goes on with \<open>coerce_children\<close>.
\<close>

fun coerce_one :: "fp_ops \<Rightarrow> string \<Rightarrow> json \<Rightarrow> json option" where
  "coerce_one fp ty (JStr s) =
     (if ty = ''number'' then map_option number_value (fp_parse fp (trim s))
      else if ty = ''integer'' then map_option JInt (parse_i64 (trim s))
      else if ty = ''boolean'' then
        (let lower = to_ascii_lowercase (trim s)
         in if lower = ''true'' then Some (JBool True)
            else if lower = ''false'' then Some (JBool False)
            else None)
      else None)"
| "coerce_one fp ty (JInt i) = (if ty = ''string'' then Some (JStr (show_int i)) else None)"
| "coerce_one fp ty (JFloat r) = (if ty = ''string'' then Some (JStr (fp_number fp r)) else None)"
| "coerce_one fp ty (JBool b) =
     (if ty = ''string'' then Some (JStr (if b then ''true'' else ''false'')) else None)"
| "coerce_one fp ty _ = None"

fun coerce_prim :: "fp_ops \<Rightarrow> string list \<Rightarrow> json \<Rightarrow> json" where
  "coerce_prim fp [] v = v"
| "coerce_prim fp (ty # tys) v =
     (case coerce_one fp ty v of Some w \<Rightarrow> w | None \<Rightarrow> coerce_prim fp tys v)"

text \<open>Sizes under a member of an object, for the termination of the recursion over schemas.\<close>

lemma size_member: "(k, w) \<in> set ms \<Longrightarrow> size w < size (JObj ms)"
  by (induction ms) auto

lemma size_element: "w \<in> set vs \<Longrightarrow> size w < size (JArr vs)"
  by (induction vs) auto

lemma json_get_size: "json_get k v = Some w \<Longrightarrow> size w < size v"
  by (cases v) (auto dest!: map_of_SomeD simp del: json.size intro: size_member)

lemma json_get_member_size:
  "json_get k v = Some (JObj ms) \<Longrightarrow> map_of ms j = Some w \<Longrightarrow> size w < size v"
  by (meson json_get_size less_trans map_of_SomeD size_member)

lemma json_get_element_size:
  "json_get k v = Some (JArr ws) \<Longrightarrow> i < length ws \<Longrightarrow> size (ws ! i) < size v"
  by (meson json_get_size less_trans nth_mem size_element)

text \<open>
  \<open>coerce\<close> and \<open>coerce_children\<close>. As in the code, the children are reached only through a
  schema that has a \<open>properties\<close> object: the early return of \<open>coerce_children\<close> comes before
  the array case as well.
\<close>

function coerce :: "fp_ops \<Rightarrow> json \<Rightarrow> json \<Rightarrow> json"
  and coerce_children :: "fp_ops \<Rightarrow> json \<Rightarrow> json \<Rightarrow> json" where
  "coerce fp schema v = coerce_children fp schema (coerce_prim fp (schema_type schema) v)"
| "coerce_children fp schema v =
     (case json_get ''properties'' schema of
        Some (JObj props) \<Rightarrow>
          (case v of
             JObj ms \<Rightarrow>
               JObj (map (\<lambda>(k, x).
                 (k, case map_of props k of
                       Some sub \<Rightarrow> coerce fp sub x
                     | None \<Rightarrow>
                         (case json_get ''additionalProperties'' schema of
                            Some (JObj a) \<Rightarrow> coerce fp (JObj a) x
                          | _ \<Rightarrow> x))) ms)
           | JArr items \<Rightarrow>
               (case json_get ''items'' schema of
                  Some (JArr subs) \<Rightarrow>
                    JArr (map (\<lambda>(i, x). if i < length subs then coerce fp (subs ! i) x else x)
                            (enumerate 0 items))
                | Some sub \<Rightarrow> JArr (map (coerce fp sub) items)
                | None \<Rightarrow> v)
           | _ \<Rightarrow> v)
      | _ \<Rightarrow> v)"
  by pat_completeness auto
termination
  by (relation "measure (\<lambda>x. case x of Inl (fp, s, v) \<Rightarrow> Suc (2 * size s) | Inr (fp, s, v) \<Rightarrow> 2 * size s)")
     (auto simp del: json.size dest: json_get_size json_get_member_size json_get_element_size)

declare coerce.simps [simp del] coerce_children.simps [simp del]

section \<open>The check\<close>

definition format_path :: "string \<Rightarrow> string" where
  "format_path path = (if path = [] then ''root'' else path)"

definition sub_path :: "string \<Rightarrow> string \<Rightarrow> string" where
  "sub_path path key = (if path = [] then key else path @ ''.'' @ key)"

type_synonym error_line = "string \<times> string"

definition has_type_mismatch :: "json \<Rightarrow> json \<Rightarrow> bool" where
  "has_type_mismatch schema v \<longleftrightarrow>
     schema_type schema \<noteq> [] \<and> \<not> (\<exists>ty \<in> set (schema_type schema). type_matches ty v)"

definition check_enum_const :: "json \<Rightarrow> json \<Rightarrow> string \<Rightarrow> error_line list" where
  "check_enum_const schema v path =
     (case json_get ''enum'' schema of
        Some (JArr allowed) \<Rightarrow>
          if v \<in> set allowed then []
          else [(format_path path, ''Value did not match any of the expected enum values'')]
      | _ \<Rightarrow> [])
     @ (case json_get ''const'' schema of
          Some c \<Rightarrow>
            if c = v then []
            else [(format_path path, ''Value did not match the expected const value'')]
        | None \<Rightarrow> [])"

definition check_required :: "json \<Rightarrow> (string \<times> json) list \<Rightarrow> string \<Rightarrow> error_line list" where
  "check_required schema ms path =
     (case json_get ''required'' schema of
        Some (JArr reqs) \<Rightarrow>
          concat (map (\<lambda>r. if map_of ms r \<noteq> None then []
                            else [(format_path path, ''Required property '' @ [CHR 0x27] @ r
                                    @ [CHR 0x27] @ '' is missing'')])
                   (strings_of reqs))
      | _ \<Rightarrow> [])"

definition check_additional :: "json \<Rightarrow> (string \<times> json) list \<Rightarrow> string \<Rightarrow> error_line list" where
  "check_additional schema ms path =
     (if Option.bind (json_get ''additionalProperties'' schema) json_as_bool = Some False then
        (case json_get ''properties'' schema of
           Some (JObj props) \<Rightarrow>
             concat (map (\<lambda>(k, _). if map_of props k \<noteq> None then []
                                    else [(sub_path path k,
                                           ''Property is not allowed by additionalProperties'')])
                      ms)
         | _ \<Rightarrow> [])
      else [])"

definition check_bounds :: "fp_ops \<Rightarrow> json \<Rightarrow> rat \<Rightarrow> string \<Rightarrow> error_line list" where
  "check_bounds fp schema n path =
     (case Option.bind (json_get ''minimum'' schema) (as_f64 fp) of
        Some lo \<Rightarrow>
          if n < lo then [(format_path path,
            ''Expected value to be greater than or equal to '' @ fp_display fp lo)] else []
      | None \<Rightarrow> [])
     @ (case Option.bind (json_get ''maximum'' schema) (as_f64 fp) of
          Some hi \<Rightarrow>
            if n > hi then [(format_path path,
              ''Expected value to be less than or equal to '' @ fp_display fp hi)] else []
        | None \<Rightarrow> [])"

function check :: "fp_ops \<Rightarrow> json \<Rightarrow> json \<Rightarrow> string \<Rightarrow> error_line list" where
  "check fp schema v path =
     (if has_type_mismatch schema v then
        [(format_path path, ''Expected '' @ join_with ''/'' (schema_type schema)
                             @ '', received '' @ type_name v)]
      else
        check_enum_const schema v path
        @ (case v of
             JObj ms \<Rightarrow>
               (if ''object'' \<in> set (schema_type schema) \<or> json_get ''properties'' schema \<noteq> None then
                  (case json_get ''properties'' schema of
                     Some (JObj props) \<Rightarrow>
                       concat (map (\<lambda>(k, sub).
                         case map_of ms k of
                           Some x \<Rightarrow> check fp sub x (sub_path path k)
                         | None \<Rightarrow> []) props)
                   | _ \<Rightarrow> [])
                  @ check_required schema ms path
                  @ check_additional schema ms path
                else [])
           | JArr items \<Rightarrow>
               (case json_get ''items'' schema of
                  Some (JArr subs) \<Rightarrow>
                    concat (map (\<lambda>(i, x).
                      if i < length subs then check fp (subs ! i) x (sub_path path (show_nat i))
                      else []) (enumerate 0 items))
                | Some sub \<Rightarrow>
                    concat (map (\<lambda>(i, x). check fp sub x (sub_path path (show_nat i)))
                      (enumerate 0 items))
                | None \<Rightarrow> [])
           | JInt i \<Rightarrow> check_bounds fp schema (fp_of_int fp i) path
           | JFloat r \<Rightarrow> check_bounds fp schema r path
           | _ \<Rightarrow> []))"
  by pat_completeness auto
termination
  by (relation "measure (\<lambda>(fp, s, v, p). size s)")
     (auto simp del: json.size dest: json_get_size json_get_member_size json_get_element_size
        intro: less_trans[OF size_member json_get_size])

declare check.simps [simp del]

text \<open>\<open>validate_tool_arguments\<close>: the coerced arguments, or the formatted error message.\<close>

definition validation_message ::
    "(json \<Rightarrow> string) \<Rightarrow> string \<Rightarrow> error_line list \<Rightarrow> json \<Rightarrow> string" where
  "validation_message pretty tool_name errors arguments =
     ''Validation failed for tool '' @ [CHR 0x22] @ tool_name @ [CHR 0x22] @ '':'' @ [CHR 0x0A]
     @ join_with [CHR 0x0A] (map (\<lambda>(p, m). ''  - '' @ p @ '': '' @ m) errors)
     @ [CHR 0x0A, CHR 0x0A] @ ''Received arguments:'' @ [CHR 0x0A] @ pretty arguments"

definition validate_tool_arguments ::
    "fp_ops \<Rightarrow> (json \<Rightarrow> string) \<Rightarrow> string \<Rightarrow> json \<Rightarrow> json \<Rightarrow> string + json" where
  "validate_tool_arguments fp pretty tool_name schema arguments =
     (let args = coerce fp schema arguments;
          errors = check fp schema args []
      in if errors = [] then Inr args
         else Inl (validation_message pretty tool_name errors arguments))"

section \<open>What the check accepts\<close>

text \<open>
  The schema language the code implements, as a predicate: the keywords of a schema and
  what each asks of a value. The keywords of objects apply only to a schema that says
  \<open>object\<close> or has \<open>properties\<close>.
\<close>

definition in_bounds :: "fp_ops \<Rightarrow> json \<Rightarrow> rat \<Rightarrow> bool" where
  "in_bounds fp schema n \<longleftrightarrow>
     (\<forall>lo. Option.bind (json_get ''minimum'' schema) (as_f64 fp) = Some lo \<longrightarrow> lo \<le> n)
     \<and> (\<forall>hi. Option.bind (json_get ''maximum'' schema) (as_f64 fp) = Some hi \<longrightarrow> n \<le> hi)"

inductive conforms :: "fp_ops \<Rightarrow> json \<Rightarrow> json \<Rightarrow> bool" for fp :: fp_ops where
  conforms:
  "conforms fp schema v"
  if "schema_type schema = [] \<or> (\<exists>ty \<in> set (schema_type schema). type_matches ty v)"
    and "\<forall>allowed. json_get ''enum'' schema = Some (JArr allowed) \<longrightarrow> v \<in> set allowed"
    and "\<forall>c. json_get ''const'' schema = Some c \<longrightarrow> v = c"
    and "\<forall>ms props k sub x. v = JObj ms \<longrightarrow> json_get ''properties'' schema = Some (JObj props) \<longrightarrow>
           (k, sub) \<in> set props \<longrightarrow> map_of ms k = Some x \<longrightarrow> conforms fp sub x"
    and "\<forall>ms reqs r. v = JObj ms \<longrightarrow>
           ''object'' \<in> set (schema_type schema) \<or> json_get ''properties'' schema \<noteq> None \<longrightarrow>
           json_get ''required'' schema = Some (JArr reqs) \<longrightarrow> JStr r \<in> set reqs \<longrightarrow> map_of ms r \<noteq> None"
    and "\<forall>ms props k. v = JObj ms \<longrightarrow> json_get ''properties'' schema = Some (JObj props) \<longrightarrow>
           json_get ''additionalProperties'' schema = Some (JBool False) \<longrightarrow>
           k \<in> fst ` set ms \<longrightarrow> map_of props k \<noteq> None"
    and "\<forall>items subs i. v = JArr items \<longrightarrow> json_get ''items'' schema = Some (JArr subs) \<longrightarrow>
           i < length items \<longrightarrow> i < length subs \<longrightarrow> conforms fp (subs ! i) (items ! i)"
    and "\<forall>items sub x. v = JArr items \<longrightarrow> json_get ''items'' schema = Some sub \<longrightarrow>
           (\<forall>ss. sub \<noteq> JArr ss) \<longrightarrow> x \<in> set items \<longrightarrow> conforms fp sub x"
    and "\<forall>n. as_f64 fp v = Some n \<longrightarrow> in_bounds fp schema n"

inductive_simps conforms_iff: "conforms fp schema v"

lemma strings_of_set: "r \<in> set (strings_of vs) \<longleftrightarrow> JStr r \<in> set vs"
proof -
  have "json_as_str v = Some r \<longleftrightarrow> v = JStr r" for v by (cases v) auto
  then show ?thesis by (force simp: strings_of_def List.map_filter_def image_iff)
qed

lemma check_enum_const_Nil:
  "check_enum_const schema v path = [] \<longleftrightarrow>
     (\<forall>allowed. json_get ''enum'' schema = Some (JArr allowed) \<longrightarrow> v \<in> set allowed)
     \<and> (\<forall>c. json_get ''const'' schema = Some c \<longrightarrow> v = c)"
  by (auto simp: check_enum_const_def split: option.splits json.splits)

lemma check_required_Nil:
  "check_required schema ms path = [] \<longleftrightarrow>
     (\<forall>reqs r. json_get ''required'' schema = Some (JArr reqs) \<longrightarrow> JStr r \<in> set reqs \<longrightarrow> map_of ms r \<noteq> None)"
  unfolding check_required_def strings_of_set[symmetric]
  by (auto split: option.splits json.splits simp del: not_None_eq)

lemma json_as_bool_Some: "json_as_bool v = Some b \<longleftrightarrow> v = JBool b"
  by (cases v) auto

lemma check_additional_Nil:
  "check_additional schema ms path = [] \<longleftrightarrow>
     (\<forall>props k. json_get ''properties'' schema = Some (JObj props) \<longrightarrow>
        json_get ''additionalProperties'' schema = Some (JBool False) \<longrightarrow>
        k \<in> fst ` set ms \<longrightarrow> map_of props k \<noteq> None)"
  by (force simp: check_additional_def json_as_bool_Some bind_eq_Some_conv
        split: option.splits json.splits)

lemma check_bounds_Nil: "check_bounds fp schema n path = [] \<longleftrightarrow> in_bounds fp schema n"
  by (auto simp: check_bounds_def in_bounds_def not_less split: option.splits)

lemmas check_Nil_simps =
  check_enum_const_Nil check_required_Nil check_additional_Nil check_bounds_Nil

text \<open>
  The members that \<open>check\<close> visits: the properties of the schema that the object has. The two
  loops over an array visit each index once.
\<close>

lemma enumerate_all:
  "(\<forall>(i, x) \<in> set (enumerate 0 xs). P i x) \<longleftrightarrow> (\<forall>i < length xs. P i (xs ! i))"
  by (auto simp: in_set_enumerate_eq)

lemma has_type_mismatch_iff:
  "\<not> has_type_mismatch schema v \<longleftrightarrow>
     schema_type schema = [] \<or> (\<exists>ty \<in> set (schema_type schema). type_matches ty v)"
  by (simp add: has_type_mismatch_def)

text \<open>The check and the predicate on each kind of value, one condition per keyword.\<close>

definition type_ok :: "json \<Rightarrow> json \<Rightarrow> bool" where
  "type_ok schema v \<longleftrightarrow>
     \<not> has_type_mismatch schema v
     \<and> (\<forall>allowed. json_get ''enum'' schema = Some (JArr allowed) \<longrightarrow> v \<in> set allowed)
     \<and> (\<forall>c. json_get ''const'' schema = Some c \<longrightarrow> v = c)"

definition members_ok :: "fp_ops \<Rightarrow> json \<Rightarrow> (string \<times> json) list \<Rightarrow> bool" where
  "members_ok fp schema ms \<longleftrightarrow>
     (\<forall>props k sub x. json_get ''properties'' schema = Some (JObj props) \<longrightarrow>
        (k, sub) \<in> set props \<longrightarrow> map_of ms k = Some x \<longrightarrow> conforms fp sub x)"

definition elements_ok :: "fp_ops \<Rightarrow> json \<Rightarrow> json list \<Rightarrow> bool" where
  "elements_ok fp schema items \<longleftrightarrow>
     (\<forall>subs i. json_get ''items'' schema = Some (JArr subs) \<longrightarrow>
        i < length items \<longrightarrow> i < length subs \<longrightarrow> conforms fp (subs ! i) (items ! i))
     \<and> (\<forall>sub x. json_get ''items'' schema = Some sub \<longrightarrow> (\<forall>ss. sub \<noteq> JArr ss) \<longrightarrow>
          x \<in> set items \<longrightarrow> conforms fp sub x)"

abbreviation object_keywords :: "json \<Rightarrow> bool" where
  "object_keywords schema \<equiv> ''object'' \<in> set (schema_type schema) \<or> json_get ''properties'' schema \<noteq> None"

lemma conforms_JObj:
  "conforms fp schema (JObj ms) \<longleftrightarrow>
     type_ok schema (JObj ms) \<and> members_ok fp schema ms
     \<and> (object_keywords schema \<longrightarrow> check_required schema ms [] = [])
     \<and> check_additional schema ms [] = []"
  unfolding conforms_iff[of fp schema "JObj ms"] type_ok_def members_ok_def has_type_mismatch_iff
    check_required_Nil check_additional_Nil
  by auto

lemma conforms_JArr:
  "conforms fp schema (JArr items) \<longleftrightarrow> type_ok schema (JArr items) \<and> elements_ok fp schema items"
  unfolding conforms_iff[of fp schema "JArr items"] type_ok_def elements_ok_def has_type_mismatch_iff
  by auto

lemma conforms_number:
  "as_f64 fp v = Some n \<Longrightarrow> conforms fp schema v \<longleftrightarrow> type_ok schema v \<and> in_bounds fp schema n"
  unfolding conforms_iff[of fp schema v] type_ok_def has_type_mismatch_iff
  by (cases v) auto

lemma conforms_other:
  "v = JNull \<or> (\<exists>b. v = JBool b) \<or> (\<exists>s. v = JStr s) \<Longrightarrow> conforms fp schema v \<longleftrightarrow> type_ok schema v"
  unfolding conforms_iff[of fp schema v] type_ok_def has_type_mismatch_iff
  by auto

lemma check_path_Nil:
  "check_required schema ms path = [] \<longleftrightarrow> check_required schema ms [] = []"
  "check_additional schema ms path = [] \<longleftrightarrow> check_additional schema ms [] = []"
  by (simp_all add: check_required_Nil check_additional_Nil)

lemma type_ok_check:
  "type_ok schema v \<longleftrightarrow> \<not> has_type_mismatch schema v \<and> check_enum_const schema v path = []"
  by (simp add: type_ok_def check_enum_const_Nil)

text \<open>
  By induction on the size of the schema: the errors are empty exactly when the value conforms.
\<close>

lemma check_Nil_iff_conforms: "check fp schema v path = [] \<longleftrightarrow> conforms fp schema v"
proof (induction "size schema" arbitrary: schema v path rule: less_induct)
  case less
  note unf = check.simps[of fp schema v path]
  show ?case
  proof (cases "has_type_mismatch schema v")
    case True
    then have "\<not> type_ok schema v" by (simp add: type_ok_def)
    moreover have "conforms fp schema v \<Longrightarrow> type_ok schema v"
      by (cases v) (auto simp: conforms_JObj conforms_JArr conforms_number conforms_other)
    ultimately show ?thesis using True by (auto simp: unf)
  next
    case False
    then have ok: "type_ok schema v \<longleftrightarrow> check_enum_const schema v path = []"
      by (simp add: type_ok_check[of _ _ path])
    show ?thesis
    proof (cases v)
      case (JObj ms)
      let ?props = "case json_get ''properties'' schema of
            Some (JObj props) \<Rightarrow> concat (map (\<lambda>(k, sub).
              case map_of ms k of Some x \<Rightarrow> check fp sub x (sub_path path k) | None \<Rightarrow> []) props)
          | _ \<Rightarrow> []"
      have "?props = [] \<longleftrightarrow> members_ok fp schema ms"
      proof (cases "\<exists>props. json_get ''properties'' schema = Some (JObj props)")
        case True
        then obtain props where props: "json_get ''properties'' schema = Some (JObj props)" by blast
        have "check fp sub x p = [] \<longleftrightarrow> conforms fp sub x" if "(k, sub) \<in> set props" for k sub x p
          using that props by (intro less) (meson json_get_size less_trans size_member)
        then show ?thesis by (fastforce simp: props members_ok_def split: option.splits)
      next
        case False
        then show ?thesis by (simp add: members_ok_def split: option.splits json.splits)
      qed
      moreover have "check fp schema (JObj ms) path = [] \<longleftrightarrow>
          check_enum_const schema (JObj ms) path = []
          \<and> (object_keywords schema \<longrightarrow> ?props = [] \<and> check_required schema ms path = []
               \<and> check_additional schema ms path = [])"
        using False[unfolded JObj] unfolding check.simps[of fp schema "JObj ms" path]
        by (cases "object_keywords schema") (simp_all only: json.case if_False if_True append_is_Nil_conv simp_thms)
      moreover have "\<not> object_keywords schema \<Longrightarrow>
          members_ok fp schema ms \<and> check_additional schema ms [] = []"
        by (simp add: members_ok_def check_additional_Nil)
      ultimately show ?thesis
        using ok unfolding JObj conforms_JObj check_path_Nil[of schema ms path] by argo
    next
      case (JArr items)
      let ?els = "case json_get ''items'' schema of
            Some (JArr subs) \<Rightarrow> concat (map (\<lambda>(i, x).
              if i < length subs then check fp (subs ! i) x (sub_path path (show_nat i)) else [])
              (enumerate 0 items))
          | Some sub \<Rightarrow> concat (map (\<lambda>(i, x). check fp sub x (sub_path path (show_nat i)))
              (enumerate 0 items))
          | None \<Rightarrow> []"
      have "?els = [] \<longleftrightarrow> elements_ok fp schema items"
      proof (cases "json_get ''items'' schema")
        case None
        then show ?thesis by (simp add: elements_ok_def)
      next
        case (Some sub)
        have pos: "check fp (subs ! i) x p = [] \<longleftrightarrow> conforms fp (subs ! i) x"
          if "sub = JArr subs" "i < length subs" for subs i x p
          using that Some by (intro less json_get_element_size) auto
        have one: "check fp sub x p = [] \<longleftrightarrow> conforms fp sub x" for x p
          using Some by (intro less json_get_size)
        show ?thesis
        proof (cases "\<exists>subs. sub = JArr subs")
          case True
          then obtain subs where subs: "sub = JArr subs" by blast
          have "?els = [] \<longleftrightarrow>
              (\<forall>(i, x) \<in> set (enumerate 0 items). i < length subs \<longrightarrow> conforms fp (subs ! i) x)"
            by (auto simp: Some subs pos split_beta)
          then show ?thesis
            unfolding enumerate_all by (auto simp: elements_ok_def Some subs)
        next
          case False
          then have "?els = concat (map (\<lambda>(i, x). check fp sub x (sub_path path (show_nat i))) (enumerate 0 items))"
            using Some by (cases sub) auto
          then have "?els = [] \<longleftrightarrow> (\<forall>(i, x) \<in> set (enumerate 0 items). conforms fp sub x)"
            by (simp add: one split_beta)
          moreover have "elements_ok fp schema items \<longleftrightarrow> (\<forall>x \<in> set items. conforms fp sub x)"
            using Some False by (auto simp: elements_ok_def)
          ultimately show ?thesis unfolding enumerate_all by (simp add: all_set_conv_all_nth)
        qed
      qed
      moreover have "check fp schema (JArr items) path = [] \<longleftrightarrow>
          check_enum_const schema (JArr items) path = [] \<and> ?els = []"
        using False JArr by (simp add: check.simps[of fp schema "JArr items" path])
      ultimately show ?thesis using ok unfolding JArr conforms_JArr by argo
    qed (use False ok in \<open>simp_all add: conforms_number conforms_other check_bounds_Nil
           check.simps[of fp schema JNull path] check.simps[of fp schema "JBool b" path for b]
           check.simps[of fp schema "JInt i" path for i] check.simps[of fp schema "JStr t" path for t]
           check.simps[of fp schema "JFloat r" path for r]\<close>)
  qed
qed

section \<open>Coercion and conforming values\<close>

text \<open>
  A schema with no union type and no schema-valued \<open>additionalProperties\<close>, at every level;
  and the invariant of a parsed object, that its keys are distinct.
\<close>

fun plain_schema :: "json \<Rightarrow> bool" where
  "plain_schema (JObj ms) \<longleftrightarrow>
     length (schema_type (JObj ms)) \<le> 1
     \<and> (\<forall>a. json_get ''additionalProperties'' (JObj ms) \<noteq> Some (JObj a))
     \<and> (\<forall>m \<in> set ms. plain_schema (snd m))"
| "plain_schema (JArr ws) \<longleftrightarrow> (\<forall>w \<in> set ws. plain_schema w)"
| "plain_schema _ \<longleftrightarrow> True"

fun wf_json :: "json \<Rightarrow> bool" where
  "wf_json (JObj ms) \<longleftrightarrow> distinct (map fst ms) \<and> (\<forall>m \<in> set ms. wf_json (snd m))"
| "wf_json (JArr ws) \<longleftrightarrow> (\<forall>w \<in> set ws. wf_json w)"
| "wf_json _ \<longleftrightarrow> True"

lemma plain_schema_get: "plain_schema s \<Longrightarrow> json_get k s = Some w \<Longrightarrow> plain_schema w"
  by (cases s) (auto dest!: map_of_SomeD)

lemma plain_schema_types: "plain_schema s \<Longrightarrow> length (schema_type s) \<le> 1"
  by (cases s) (simp_all add: schema_type_def)

lemma coerce_one_matching: "type_matches ty v \<Longrightarrow> coerce_one fp ty v = None"
  by (cases v) (auto simp: type_matches_def split: if_splits)

lemma coerce_prim_conforming:
  assumes "length (schema_type s) \<le> 1" and "type_ok s v"
  shows "coerce_prim fp (schema_type s) v = v"
proof (cases "schema_type s")
  case (Cons ty tys)
  with assms have "tys = []" and "type_matches ty v"
    by (auto simp: type_ok_def has_type_mismatch_def)
  with Cons show ?thesis by (simp add: coerce_one_matching)
qed simp

lemma conforms_type_ok: "conforms fp schema v \<Longrightarrow> type_ok schema v"
  by (cases v) (auto simp: conforms_JObj conforms_JArr conforms_number conforms_other)

lemma coerce_conforming:
  "plain_schema schema \<Longrightarrow> wf_json v \<Longrightarrow> conforms fp schema v \<Longrightarrow> coerce fp schema v = v"
proof (induction "size schema" arbitrary: schema v rule: less_induct)
  case less
  have plain: "\<And>a. json_get ''additionalProperties'' schema \<noteq> Some (JObj a)"
    using less.prems(1) by (cases schema) auto
  have prim: "coerce fp schema v = coerce_children fp schema v"
    using coerce_prim_conforming[OF plain_schema_types[OF less.prems(1)] conforms_type_ok[OF less.prems(3)]]
    by (simp add: coerce.simps)
  have "coerce_children fp schema v = v"
  proof (cases "\<exists>props. json_get ''properties'' schema = Some (JObj props)")
    case False
    then show ?thesis by (auto simp: coerce_children.simps split: option.splits json.splits)
  next
    case True
    then obtain props where props: "json_get ''properties'' schema = Some (JObj props)" by blast
    show ?thesis
    proof (cases v)
      case (JObj ms)
      have "coerce fp sub x = x" if kx: "(k, x) \<in> set ms" and sub: "map_of props k = Some sub" for k x sub
      proof (rule less.hyps)
        show "size sub < size schema" using json_get_member_size[OF props sub] .
        show "plain_schema sub"
          using plain_schema_get[OF less.prems(1) props] map_of_SomeD[OF sub] by auto
        show "wf_json x" using less.prems(2) kx JObj by auto
        show "conforms fp sub x"
          using less.prems(2,3) kx map_of_SomeD[OF sub] props JObj
          by (auto simp: conforms_JObj members_ok_def)
      qed
      moreover have "(case json_get ''additionalProperties'' schema of
          Some (JObj a) \<Rightarrow> coerce fp (JObj a) x | _ \<Rightarrow> x) = x" for x
        using plain by (auto split: option.splits json.splits)
      ultimately have "map (\<lambda>(k, x). (k, case map_of props k of
              Some sub \<Rightarrow> coerce fp sub x
            | None \<Rightarrow> (case json_get ''additionalProperties'' schema of
                Some (JObj a) \<Rightarrow> coerce fp (JObj a) x | _ \<Rightarrow> x))) ms = ms"
        by (intro map_idI) (auto split: option.split)
      then show ?thesis by (simp add: coerce_children.simps props JObj)
    next
      case (JArr items)
      show ?thesis
      proof (cases "json_get ''items'' schema")
        case None
        then show ?thesis by (simp add: coerce_children.simps props JArr)
      next
        case (Some sub)
        have one: "coerce fp s x = x"
          if "size s < size schema" "plain_schema s" "conforms fp s x" "x \<in> set items" for s x
          using that less.hyps[of s x] less.prems(2) JArr by auto
        show ?thesis
        proof (cases "\<exists>subs. sub = JArr subs")
          case True
          then obtain subs where subs: "json_get ''items'' schema = Some (JArr subs)" using Some by blast
          have "coerce fp (subs ! i) (items ! i) = items ! i" if i: "i < length items" "i < length subs" for i
            using i one json_get_element_size[OF subs i(2)] plain_schema_get[OF less.prems(1) subs]
              less.prems(3) JArr subs by (auto simp: conforms_JArr elements_ok_def)
          then have "map (\<lambda>(i, x). if i < length subs then coerce fp (subs ! i) x else x) (enumerate 0 items) = items"
            by (intro nth_equalityI) (auto simp: nth_enumerate_eq)
          then show ?thesis by (simp add: coerce_children.simps props JArr subs)
        next
          case False
          then have "coerce fp sub x = x" if "x \<in> set items" for x
            using that one[of sub x] Some json_get_size[OF Some] plain_schema_get[OF less.prems(1) Some]
              less.prems(3) JArr by (auto simp: conforms_JArr elements_ok_def)
          then have "map (coerce fp sub) items = items" by (simp add: map_idI)
          with False Some show ?thesis
            by (cases sub) (simp_all add: coerce_children.simps props JArr)
        qed
      qed
    qed (simp_all add: coerce_children.simps props)
  qed
  with prim show ?case by simp
qed

section \<open>Properties\<close>

text \<open>
  C38. Validation is sound and complete for the schema language the code implements: it
  returns a value exactly when the coerced arguments conform to the tool's schema, and what it
  returns is those coerced arguments.
\<close>

theorem validate_returns_conforming:
  "validate_tool_arguments fp pretty name schema arguments = Inr args \<longleftrightarrow>
     args = coerce fp schema arguments \<and> conforms fp schema args"
  by (auto simp: validate_tool_arguments_def check_Nil_iff_conforms Let_def)

text \<open>
  Arguments that already conform are handed to the tool unchanged, for a schema without
  union types and without a schema-valued \<open>additionalProperties\<close>.
\<close>

lemma validate_keeps_conforming:
  assumes "plain_schema schema" and "wf_json arguments" and "conforms fp schema arguments"
  shows "validate_tool_arguments fp pretty name schema arguments = Inr arguments"
  using assms
  by (simp add: validate_tool_arguments_def check_Nil_iff_conforms coerce_conforming)

definition demo_fp :: fp_ops where
  "demo_fp = \<lparr>fp_parse = (\<lambda>_. None), fp_number = (\<lambda>_. ''''), fp_display = (\<lambda>_. ''''),
              fp_of_int = of_int\<rparr>"

definition demo_schema :: json where
  "demo_schema = JObj [(''type'', JStr ''object''),
     (''properties'', JObj [(''n'', JObj [(''type'', JStr ''integer''), (''minimum'', JInt 1)])]),
     (''required'', JArr [JStr ''n''])]"

theorem validate_keeps_conforming_witness:
  "validate_tool_arguments demo_fp (\<lambda>_. '''') ''t'' demo_schema (JObj [(''n'', JInt 3)])
     = Inr (JObj [(''n'', JInt 3)])"
proof (rule validate_keeps_conforming)
  show "plain_schema demo_schema" by (simp add: demo_schema_def schema_type_def)
  show "wf_json (JObj [(''n'', JInt 3)])" by simp
  show "conforms demo_fp demo_schema (JObj [(''n'', JInt 3)])"
    unfolding check_Nil_iff_conforms[symmetric, where path = "[]"]
    by (simp add: check.simps demo_schema_def demo_fp_def has_type_mismatch_def schema_type_def
          type_matches_def check_enum_const_def check_required_def strings_of_def List.map_filter_def
          check_additional_def check_bounds_def)
qed

text \<open>
  The elements of an array are never coerced unless the schema of the array also has
  \<open>properties\<close>: \<open>coerce_children\<close> returns before it looks at \<open>items\<close>.
\<close>

lemma array_elements_not_coerced:
  assumes "json_get ''properties'' schema = None"
  shows "coerce fp schema (JArr items) = JArr items"
proof -
  have "coerce_prim fp tys (JArr items) = JArr items" for tys
    by (induction tys) auto
  with assms show ?thesis by (simp add: coerce.simps coerce_children.simps)
qed

theorem array_elements_not_coerced_witness:
  "coerce demo_fp (JObj [(''type'', JStr ''array''), (''items'', JObj [(''type'', JStr ''integer'')])])
     (JArr [JStr ''42'']) = JArr [JStr ''42'']"
  by (rule array_elements_not_coerced) simp

end
