(* ===== verification/AgentLoop.thy ===== *)
theory AgentLoop
  imports AgentTypes Validation
begin

text \<open>
  The agent turn loop, \<open>crates/pa-agent/src/agent_loop/\<close>. A run is a program over a state
  that holds the context's messages, the messages the run has produced, the events it has
  emitted and the world: everything outside the loop, which the hooks, the tools, the model
  stream and the event sink read and change. The world also decides when the abort signal
  fires, which branch of a race wins and how the spawned tasks (tool calls and the emitters of their
  updates) are scheduled, so a statement about every world is a statement about every
  interleaving at the loop's await points.
\<close>

section \<open>State and configuration\<close>

record 'w agent_tool =
  tool_name :: string
  tool_description :: string
  tool_parameters :: json
  tool_prepare :: "json \<Rightarrow> json option"
  tool_mode :: "tool_execution_mode option"
  tool_polls :: "string \<Rightarrow> json \<Rightarrow> 'w \<Rightarrow> nat"
    \<comment> \<open>how many polls of the execution are pending before the one that is ready\<close>
  tool_poll :: "string \<Rightarrow> json \<Rightarrow> 'w \<Rightarrow> agent_tool_result list \<times> 'w"
    \<comment> \<open>a pending poll: the updates the callback accepted in it, in order\<close>
  tool_execute ::
    "string \<Rightarrow> json \<Rightarrow> 'w \<Rightarrow> (agent_tool_result list \<times> (agent_error + agent_tool_result)) \<times> 'w"
    \<comment> \<open>the poll that is ready: its updates, and the tool's result\<close>

record before_result =
  br_block :: bool
  br_reason :: "string option"

record after_result =
  ar_content :: "tool_result_content list option"
  ar_details :: "json option"
  ar_is_error :: "bool option"
  ar_terminate :: "bool option"

record before_context =
  bc_assistant :: assistant_message
  bc_call :: tool_call
  bc_args :: json
  bc_messages :: "agent_message list"

record after_context =
  ac_assistant :: assistant_message
  ac_call :: tool_call
  ac_args :: json
  ac_result :: agent_tool_result
  ac_is_error :: bool
  ac_messages :: "agent_message list"

record stop_context =
  sc_message :: assistant_message
  sc_tool_results :: "tool_result_message list"
  sc_messages :: "agent_message list"
  sc_new_messages :: "agent_message list"

record tool_definition =
  td_name :: string
  td_description :: string
  td_parameters :: json

record stream_request =
  rq_model :: model
  rq_system_prompt :: string
  rq_messages :: "message list"
  rq_tools :: "tool_definition list"
  rq_max_tokens :: "nat option"
  rq_reasoning :: thinking_level
  rq_session_id :: "string option"
  rq_service_tier :: "service_tier option"
  rq_api_key :: "string option"

text \<open>
  A \<open>ModelStream\<close>: the events the loop will read from it and what \<open>result()\<close> resolves to.
\<close>

record model_stream =
  sm_events :: "stream_event list"
  sm_result :: "agent_error + assistant_message"

type_synonym ('w, 'a) op = "'w \<Rightarrow> (agent_error + 'a) \<times> 'w"

text \<open>
  \<open>AgentLoopConfig\<close> together with the arguments that every function of the loop carries:
  the sink, the signal (\<open>cf_has_signal\<close> is false for \<open>None\<close>), the stream function, the
  tools and system prompt of the context, and the clock. \<open>cf_wait\<close> is what happens in the
  world while the loop waits for the stream, \<open>cf_abort_wins\<close> the choice of \<open>tokio::select!\<close>
  when the signal has fired and the operation is ready too. The runtime's scheduler is in the
  world as well: \<open>cf_schedule\<close> are the tool tasks polled at a scheduling point,
  \<open>cf_emitter_first\<close> says whether a call's update emitter is polled before the call,
  \<open>cf_late\<close> which detached emitters are polled before an await of the loop goes on, and
  \<open>cf_task_panic\<close> and \<open>cf_emitter_panic\<close> whether the task of a call or of its emitter panics
  when it is polled, with the text of the join error.
\<close>

record 'w loop_config =
  cf_sink :: "agent_event \<Rightarrow> ('w, unit) op"
  cf_has_signal :: bool
  cf_signal :: "'w \<Rightarrow> bool"
  cf_abort_wins :: "'w \<Rightarrow> bool"
  cf_now_ms :: "'w \<Rightarrow> int"
  cf_wait :: "'w \<Rightarrow> 'w"
  cf_schedule :: "'w \<Rightarrow> nat list"
  cf_emitter_first :: "'w \<Rightarrow> bool"
  cf_late :: "'w \<Rightarrow> nat list"
  cf_task_panic :: "'w \<Rightarrow> string option"
  cf_emitter_panic :: "'w \<Rightarrow> string option"
  cf_stream_fn :: "(stream_request \<Rightarrow> ('w, model_stream) op) option"
  cf_stream_close :: "'w \<Rightarrow> 'w"
  cf_fp :: fp_ops
  cf_pretty :: "json \<Rightarrow> string"
  cf_system_prompt :: string
  cf_tools :: "'w agent_tool list"
  cf_model :: model
  cf_api_key :: "string option"
  cf_max_tokens :: "nat option"
  cf_reasoning :: thinking_level
  cf_session_id :: "string option"
  cf_service_tier :: "service_tier option"
  cf_convert_to_llm :: "agent_message list \<Rightarrow> ('w, message list) op"
  cf_transform_context :: "(agent_message list \<Rightarrow> ('w, agent_message list) op) option"
  cf_get_system_prompt :: "('w \<Rightarrow> string) option"
  cf_get_api_key :: "(string \<Rightarrow> ('w, string option) op) option"
  cf_should_stop_after_turn :: "(stop_context \<Rightarrow> ('w, bool) op) option"
  cf_should_stop_before_turn :: "('w \<Rightarrow> bool \<times> 'w) option"
  cf_get_steering_messages :: "('w, agent_message list) op option"
  cf_get_follow_up_messages :: "('w, agent_message list) op option"
  cf_get_continuation_messages :: "(stop_context \<Rightarrow> ('w, agent_message list) op) option"
  cf_tool_execution :: tool_execution_mode
  cf_before_tool_call :: "(before_context \<Rightarrow> ('w, before_result option) op) option"
  cf_after_tool_call :: "(after_context \<Rightarrow> ('w, after_result option) op) option"

record 'w run_state =
  st_messages :: "agent_message list"   \<comment> \<open>\<open>current_context.messages\<close>\<close>
  st_new :: "agent_message list"        \<comment> \<open>\<open>new_messages\<close>\<close>
  st_trace :: "agent_event list"        \<comment> \<open>the events the run has emitted so far\<close>
  st_late :: "agent_event list list"
    \<comment> \<open>what each detached update emitter has still to send\<close>
  st_heard :: "(bool \<times> agent_event) list"
    \<comment> \<open>every event the sink was given, marked when a detached emitter gave it\<close>
  st_cut :: "string list"               \<comment> \<open>the calls whose emitter was detached\<close>
  st_partial :: "assistant_message option"
    \<comment> \<open>\<open>partial_event\<close>, the local that \<open>stream_assistant_response\<close> lends to its inner body\<close>
  st_added :: bool                      \<comment> \<open>\<open>added_partial\<close>, its other such local\<close>
  st_world :: 'w

type_synonym ('w, 'a) agent = "('w run_state, agent_error, 'a) prog"

section \<open>Effects\<close>

text \<open>
  The emitter of a tool call is a task of its own: when the call stops waiting for it, it is
  detached and goes on sending. \<open>send_late_one\<close> is one send of the \<open>i\<close>-th detached emitter
  (its \<open>?\<close> ends it when the sink fails), \<open>late_updates\<close> those sends that happen before the
  await at hand goes on.
\<close>

definition send_late_one :: "'w loop_config \<Rightarrow> nat \<Rightarrow> 'w run_state \<Rightarrow> 'w run_state" where
  "send_late_one cf i s =
     (if i < length (st_late s) then
        case st_late s ! i of
          [] \<Rightarrow> s
        | ev # evs \<Rightarrow>
            (case cf_sink cf ev (st_world s) of (r, w) \<Rightarrow>
               s\<lparr>st_world := w, st_heard := st_heard s @ [(True, ev)],
                 st_late := (st_late s)[i := (case r of Inr _ \<Rightarrow> evs | Inl _ \<Rightarrow> [])]\<rparr>)
      else s)"

definition late_updates :: "'w loop_config \<Rightarrow> 'w run_state \<Rightarrow> 'w run_state" where
  "late_updates cf s = fold (send_late_one cf) (cf_late cf (st_world s)) s"

text \<open>
  A synchronous hook runs at once (\<open>sync_world\<close>); before an awaited one the detached emitters
  may be polled (\<open>in_world\<close>), and before an event of the run reaches the sink too.
\<close>

definition sync_world :: "('w, 'a) op \<Rightarrow> ('w, 'a) agent" where
  "sync_world f = (\<lambda>s. let (r, w) = f (st_world s) in (r, s\<lparr>st_world := w\<rparr>))"

definition in_world :: "'w loop_config \<Rightarrow> ('w, 'a) op \<Rightarrow> ('w, 'a) agent" where
  "in_world cf f = (\<lambda>s. sync_world f (late_updates cf s))"

definition send :: "'w loop_config \<Rightarrow> agent_event \<Rightarrow> ('w, unit) agent" where
  "send cf ev = (\<lambda>s. let (r, w) = cf_sink cf ev (st_world s)
                     in (r, s\<lparr>st_trace := st_trace s @ [ev], st_heard := st_heard s @ [(False, ev)],
                              st_world := w\<rparr>))"

definition emit :: "'w loop_config \<Rightarrow> agent_event \<Rightarrow> ('w, unit) agent" where
  "emit cf ev = (\<lambda>s. send cf ev (late_updates cf s))"

definition push_message :: "agent_message \<Rightarrow> ('w, unit) agent" where
  "push_message m = upd (\<lambda>s. s\<lparr>st_messages := st_messages s @ [m]\<rparr>)"

text \<open>\<open>*context.messages.last_mut().unwrap() = m\<close>\<close>

definition replace_last_message :: "agent_message \<Rightarrow> ('w, unit) agent" where
  "replace_last_message m = upd (\<lambda>s. s\<lparr>st_messages := butlast (st_messages s) @ [m]\<rparr>)"

definition push_new :: "agent_message \<Rightarrow> ('w, unit) agent" where
  "push_new m = upd (\<lambda>s. s\<lparr>st_new := st_new s @ [m]\<rparr>)"

text \<open>\<open>signal.is_some_and(AbortSignal::is_aborted)\<close>\<close>

definition aborted :: "'w loop_config \<Rightarrow> 'w run_state \<Rightarrow> bool" where
  "aborted cf s \<longleftrightarrow> cf_has_signal cf \<and> cf_signal cf (st_world s)"

definition throw_if_aborted :: "'w loop_config \<Rightarrow> ('w, unit) agent" where
  "throw_if_aborted cf = (\<lambda>s. if aborted cf s then (Inl AbortedError, s) else (Inr (), s))"

text \<open>
  \<open>race_with_abort\<close>: a signal that has fired drops the operation unpolled; otherwise the
  operation runs, and if the signal fired meanwhile either branch of the select may be taken.
\<close>

definition race :: "'w loop_config \<Rightarrow> ('w, 'a) agent \<Rightarrow> ('w, 'a) agent" where
  "race cf m =
     (\<lambda>s. if aborted cf s then (Inl AbortedError, s)
          else case m s of (r, s') \<Rightarrow>
            if aborted cf s' \<and> cf_abort_wins cf (st_world s') then (Inl AbortedError, s') else (r, s'))"

datatype 'a post_turn = Completed 'a | Aborted

definition settle_post_turn :: "'w loop_config \<Rightarrow> ('w, 'a) agent \<Rightarrow> ('w, 'a post_turn) agent" where
  "settle_post_turn cf m =
     match_result m (\<lambda>x. ret (Completed x))
       (\<lambda>e s. if aborted cf s \<and> is_abort_error e then (Inr Aborted, s) else (Inl e, s))"

definition poll_messages_unless_aborted ::
    "'w loop_config \<Rightarrow> ('w, agent_message list) op option \<Rightarrow> ('w, agent_message list) agent" where
  "poll_messages_unless_aborted cf poll =
     (case poll of
        None \<Rightarrow> ret []
      | Some p \<Rightarrow> (\<lambda>s. if aborted cf s then (Inr [], s) else race cf (in_world cf p) s))"

text \<open>\<open>create_aborted_assistant_message\<close>\<close>

definition aborted_message :: "'w loop_config \<Rightarrow> int \<Rightarrow> assistant_message option \<Rightarrow> assistant_message" where
  "aborted_message cf now partial =
     \<lparr>am_content = (case partial of
          None \<Rightarrow> [AText \<lparr>tc_text = '''', tc_signature = None\<rparr>]
        | Some p \<Rightarrow> am_content p),
      am_api = (case partial of None \<Rightarrow> md_api (cf_model cf) | Some p \<Rightarrow> am_api p),
      am_provider = (case partial of None \<Rightarrow> md_provider (cf_model cf) | Some p \<Rightarrow> am_provider p),
      am_model = (case partial of None \<Rightarrow> md_id (cf_model cf) | Some p \<Rightarrow> am_model p),
      am_response_model = None,
      am_response_id = None,
      am_diagnostics = None,
      am_usage = (case partial of None \<Rightarrow> usage_zero | Some p \<Rightarrow> am_usage p),
      am_stop_reason = StopAborted,
      am_stop_reason_raw = None,
      am_error_message = Some abort_error_message,
      am_timestamp = now\<rparr>"

section \<open>Streaming one assistant response\<close>

text \<open>
  One read of the stream raced with the signal; losing the race closes the stream.
\<close>

definition next_event :: "'w loop_config \<Rightarrow> ('w, unit) agent" where
  "next_event cf =
     match_result (race cf (in_world cf (\<lambda>w. (Inr (), cf_wait cf w)))) ret
       (\<lambda>e. thn (upd (\<lambda>s. s\<lparr>st_world := cf_stream_close cf (st_world s)\<rparr>)) (fail e))"

definition stream_result :: "'w loop_config \<Rightarrow> agent_error + assistant_message \<Rightarrow> ('w, assistant_message) agent" where
  "stream_result cf r = race cf (in_world cf (\<lambda>w. (r, cf_wait cf w)))"

text \<open>
  The final message takes the partial's place in the context, or is appended with a
  \<open>MessageStart\<close> when no partial was added. The three places where the code ends a
  response (terminal event, end of the stream, abort) all do this.
\<close>

definition deliver_final :: "'w loop_config \<Rightarrow> assistant_message \<Rightarrow> ('w, assistant_message) agent" where
  "deliver_final cf m =
     bnd (gets st_added) (\<lambda>added.
       thn (if added then replace_last_message (from_assistant m)
            else thn (push_message (from_assistant m)) (emit cf (MessageStart (from_assistant m))))
           (thn (emit cf (MessageEnd (from_assistant m))) (ret m)))"

definition set_partial :: "assistant_message \<Rightarrow> ('w, unit) agent" where
  "set_partial m = upd (\<lambda>s. s\<lparr>st_partial := Some m\<rparr>)"

text \<open>The message of a terminal event, or the one \<open>result()\<close> resolves to.\<close>

definition resolve_final ::
    "'w loop_config \<Rightarrow> assistant_message \<Rightarrow> agent_error + assistant_message \<Rightarrow> ('w, assistant_message) agent" where
  "resolve_final cf m r =
     match_result (stream_result cf r) ret
       (\<lambda>e s. if aborted cf s \<and> is_abort_error e then (Inr m, s) else (Inl e, s))"

fun read_stream ::
    "'w loop_config \<Rightarrow> stream_event list \<Rightarrow> agent_error + assistant_message \<Rightarrow> ('w, assistant_message) agent" where
  "read_stream cf [] r =
     thn (next_event cf) (bnd (stream_result cf r) (deliver_final cf))"
| "read_stream cf (ev # evs) r =
     thn (next_event cf)
       (case ev of
          EvStart partial \<Rightarrow>
            thn (upd (\<lambda>s. s\<lparr>st_added := True\<rparr>))
              (thn (push_message (from_assistant partial))
                (thn (set_partial partial)
                  (thn (emit cf (MessageStart (from_assistant partial)))
                    (read_stream cf evs r))))
        | _ \<Rightarrow>
            (case terminal_message ev of
               Some m \<Rightarrow> bnd (resolve_final cf m r) (deliver_final cf)
             | None \<Rightarrow>
                 (case event_partial ev of
                    Some partial \<Rightarrow>
                      thn (set_partial partial)
                        (thn (emit cf (MessageUpdate (from_assistant partial) ev))
                          (read_stream cf evs r))
                  | None \<Rightarrow> read_stream cf evs r)))"

definition tool_definitions :: "'w loop_config \<Rightarrow> tool_definition list" where
  "tool_definitions cf =
     map (\<lambda>t. \<lparr>td_name = tool_name t, td_description = tool_description t,
               td_parameters = tool_parameters t\<rparr>) (cf_tools cf)"

definition transformed_messages :: "'w loop_config \<Rightarrow> ('w, agent_message list) agent" where
  "transformed_messages cf =
     bnd (gets st_messages) (\<lambda>messages.
       case cf_transform_context cf of
         None \<Rightarrow> ret messages
       | Some transform \<Rightarrow> race cf (in_world cf (transform messages)))"

definition resolved_api_key :: "'w loop_config \<Rightarrow> ('w, string option) agent" where
  "resolved_api_key cf =
     (case cf_get_api_key cf of
        None \<Rightarrow> ret (cf_api_key cf)
      | Some get_key \<Rightarrow>
          bnd (race cf (in_world cf (get_key (md_provider (cf_model cf))))) (\<lambda>key.
            ret (case key of Some k \<Rightarrow> Some k | None \<Rightarrow> cf_api_key cf)))"

definition stream_request_of ::
    "'w loop_config \<Rightarrow> string \<Rightarrow> message list \<Rightarrow> string option \<Rightarrow> stream_request" where
  "stream_request_of cf system_prompt llm_messages api_key =
     \<lparr>rq_model = cf_model cf, rq_system_prompt = system_prompt, rq_messages = llm_messages,
      rq_tools = tool_definitions cf, rq_max_tokens = cf_max_tokens cf,
      rq_reasoning = cf_reasoning cf, rq_session_id = cf_session_id cf,
      rq_service_tier = cf_service_tier cf, rq_api_key = api_key\<rparr>"

definition no_stream_function :: string where
  "no_stream_function =
     ''No stream function provided; the agent loop requires a model stream function (pa-ai integration supplies the default)''"

definition stream_assistant_response_inner :: "'w loop_config \<Rightarrow> ('w, assistant_message) agent" where
  "stream_assistant_response_inner cf =
     thn (throw_if_aborted cf)
     (bnd (transformed_messages cf) (\<lambda>messages.
      bnd (race cf (in_world cf (cf_convert_to_llm cf messages))) (\<lambda>llm_messages.
      case cf_stream_fn cf of
        None \<Rightarrow> fail (OtherError no_stream_function)
      | Some stream_fn \<Rightarrow>
          bnd (resolved_api_key cf) (\<lambda>api_key.
          bnd (gets (\<lambda>s. case cf_get_system_prompt cf of
                          None \<Rightarrow> cf_system_prompt cf
                        | Some hook \<Rightarrow> hook (st_world s))) (\<lambda>system_prompt.
          bnd (race cf (in_world cf (stream_fn (stream_request_of cf system_prompt llm_messages api_key))))
            (\<lambda>response. read_stream cf (sm_events response) (sm_result response)))))))"

text \<open>\<open>finish_aborted_message!\<close>: the aborted message keeps what the partial had.\<close>

definition finish_aborted_message :: "'w loop_config \<Rightarrow> ('w, assistant_message) agent" where
  "finish_aborted_message cf =
     (\<lambda>s. deliver_final cf (aborted_message cf (cf_now_ms cf (st_world s)) (st_partial s)) s)"

definition stream_assistant_response :: "'w loop_config \<Rightarrow> ('w, assistant_message) agent" where
  "stream_assistant_response cf =
     thn (upd (\<lambda>s. s\<lparr>st_partial := None, st_added := False\<rparr>))
       (match_result (stream_assistant_response_inner cf) ret
          (\<lambda>e s. if aborted cf s \<and> is_abort_error e then finish_aborted_message cf s else (Inl e, s)))"

section \<open>One tool call\<close>

record finalized_call =
  fc_call :: tool_call
  fc_result :: agent_tool_result
  fc_is_error :: bool

text \<open>
  A tool call being executed, the task of \<open>execute_prepared_tool_call\<close> and its emitter. The
  stage says where the call is: not polled yet, polling the tool (with the polls still
  pending), the race against the signal decided, waiting for the emitter, or done with it.
  \<open>rn_pending\<close> is the channel of updates, \<open>rn_emitter\<close> the error that ended the emitter.
\<close>

datatype stage =
    Unpolled
  | Polling nat
  | Returned "agent_error + agent_tool_result"
  | Draining "agent_error + agent_tool_result"
  | Settled "agent_error + agent_tool_result"

record 'w running_call =
  rn_call :: tool_call
  rn_tool :: "'w agent_tool"
  rn_args :: json
  rn_stage :: stage
  rn_pending :: "agent_tool_result list"
  rn_emitter :: "agent_error option"

datatype 'w preparation =
    Prepared tool_call "'w agent_tool" json
  | Immediate agent_tool_result bool

definition find_tool :: "'w loop_config \<Rightarrow> string \<Rightarrow> 'w agent_tool option" where
  "find_tool cf name = List.find (\<lambda>t. tool_name t = name) (cf_tools cf)"

definition prepare_tool_call_inner ::
    "'w loop_config \<Rightarrow> 'w agent_tool \<Rightarrow> assistant_message \<Rightarrow> tool_call \<Rightarrow> ('w, 'w preparation) agent" where
  "prepare_tool_call_inner cf tool asst call =
     (let arguments = (case tool_prepare tool (call_arguments call) of
                         Some prepared \<Rightarrow> prepared | None \<Rightarrow> call_arguments call)
      in case validate_tool_arguments (cf_fp cf) (cf_pretty cf) (call_name call)
                (tool_parameters tool) arguments of
           Inl msg \<Rightarrow> fail (OtherError msg)
         | Inr args \<Rightarrow>
             (case cf_before_tool_call cf of
                None \<Rightarrow> ret (Prepared call tool args)
              | Some hook \<Rightarrow>
                  bnd (gets st_messages) (\<lambda>messages.
                  bnd (race cf (in_world cf (hook \<lparr>bc_assistant = asst, bc_call = call, bc_args = args,
                                               bc_messages = messages\<rparr>)))
                    (\<lambda>before. case before of
                        Some b \<Rightarrow>
                          if br_block b then
                            ret (Immediate (error_result (case br_reason b of
                                   Some reason \<Rightarrow> reason
                                 | None \<Rightarrow> ''Tool execution was blocked'')) True)
                          else ret (Prepared call tool args)
                      | None \<Rightarrow> ret (Prepared call tool args)))))"

text \<open>\<open>prepare_tool_call\<close> never fails: every error becomes an error result.\<close>

definition prepare_tool_call ::
    "'w loop_config \<Rightarrow> assistant_message \<Rightarrow> tool_call \<Rightarrow> ('w, 'w preparation) agent" where
  "prepare_tool_call cf asst call =
     (case find_tool cf (call_name call) of
        None \<Rightarrow> ret (Immediate (error_result (''Tool '' @ call_name call @ '' not found'')) True)
      | Some tool \<Rightarrow>
          match_result (prepare_tool_call_inner cf tool asst call) ret
            (\<lambda>e. ret (Immediate (error_result (err_text e)) True)))"

definition error_tool_result :: "bool \<Rightarrow> agent_error \<Rightarrow> agent_tool_result" where
  "error_tool_result is_ab e =
     error_result (if is_ab then ''Tool execution aborted'' else err_text e)"

definition start_tool :: "tool_call \<Rightarrow> 'w agent_tool \<Rightarrow> json \<Rightarrow> 'w running_call" where
  "start_tool call tool args =
     \<lparr>rn_call = call, rn_tool = tool, rn_args = args, rn_stage = Unpolled, rn_pending = [],
      rn_emitter = None\<rparr>"

definition update_event :: "'w running_call \<Rightarrow> agent_tool_result \<Rightarrow> agent_event" where
  "update_event r u =
     ToolExecutionUpdate (call_id (rn_call r)) (call_name (rn_call r)) (call_arguments (rn_call r)) u"

text \<open>The callback: an update goes to the emitter, and nowhere once that has ended.\<close>

definition push_updates :: "agent_tool_result list \<Rightarrow> 'w running_call \<Rightarrow> 'w running_call" where
  "push_updates us r = (if rn_emitter r = None then r\<lparr>rn_pending := rn_pending r @ us\<rparr> else r)"

definition end_emitter :: "agent_error \<Rightarrow> 'w running_call \<Rightarrow> 'w running_call" where
  "end_emitter e r = r\<lparr>rn_pending := [], rn_emitter := Some e\<rparr>"

text \<open>
  One pass of the emitter's loop. It does not look at the signal; a sink that fails ends it,
  and so does a panic.
\<close>

definition emitter_step :: "'w loop_config \<Rightarrow> 'w running_call \<Rightarrow> 'w run_state \<Rightarrow> 'w running_call \<times> 'w run_state" where
  "emitter_step cf r s =
     (case rn_pending r of
        [] \<Rightarrow> (r, s)
      | u # us \<Rightarrow>
          (case cf_emitter_panic cf (st_world s) of
             Some t \<Rightarrow> (end_emitter (OtherError (''Tool update emitter task failed: '' @ t)) r, s)
           | None \<Rightarrow>
               (case send cf (update_event r u) s of
                  (Inr _, s') \<Rightarrow> (r\<lparr>rn_pending := us\<rparr>, s')
                | (Inl e, s') \<Rightarrow> (end_emitter e r, s'))))"

text \<open>
  The call stops waiting for its emitter: the dropped join handle detaches the task, which goes
  on with what is in the channel; what became of it is not asked any more.
\<close>

definition detach_emitter :: "'w running_call \<Rightarrow> 'w run_state \<Rightarrow> 'w running_call \<times> 'w run_state" where
  "detach_emitter r s =
     (r\<lparr>rn_pending := [], rn_emitter := None\<rparr>,
      s\<lparr>st_late := st_late s @ [map (update_event r) (rn_pending r)],
        st_cut := st_cut s @ [call_id (rn_call r)]\<rparr>)"

text \<open>
  One poll of the call itself. A call aborted before its first poll does not run the tool;
  later the tool and the signal race, in either order when both are ready. With the tool's
  result in hand the call waits for the emitter, unless the signal has fired or fires.
\<close>

definition main_step :: "'w loop_config \<Rightarrow> 'w running_call \<Rightarrow> 'w run_state \<Rightarrow> 'w running_call \<times> 'w run_state" where
  "main_step cf r s =
     (let w = st_world s; i = call_id (rn_call r); tool = rn_tool r; args = rn_args r
      in case rn_stage r of
        Unpolled \<Rightarrow>
          (r\<lparr>rn_stage := (if aborted cf s then Returned (Inl AbortedError)
                          else Polling (tool_polls tool i args w))\<rparr>, s)
      | Polling n \<Rightarrow>
          if aborted cf s \<and> cf_abort_wins cf w then (r\<lparr>rn_stage := Returned (Inl AbortedError)\<rparr>, s)
          else (case n of
             0 \<Rightarrow> (case tool_execute tool i args w of ((us, v), w') \<Rightarrow>
                    (push_updates us (r\<lparr>rn_stage := Returned v\<rparr>), s\<lparr>st_world := w'\<rparr>))
           | Suc k \<Rightarrow> (case tool_poll tool i args w of (us, w') \<Rightarrow>
                    (push_updates us (r\<lparr>rn_stage := (if aborted cf (s\<lparr>st_world := w'\<rparr>)
                       then Returned (Inl AbortedError) else Polling k)\<rparr>), s\<lparr>st_world := w'\<rparr>)))
      | Returned v \<Rightarrow>
          if aborted cf s then detach_emitter (r\<lparr>rn_stage := Settled v\<rparr>) s
          else (r\<lparr>rn_stage := Draining v\<rparr>, s)
      | Draining v \<Rightarrow>
          if aborted cf s \<and> (rn_pending r \<noteq> [] \<or> cf_abort_wins cf w)
          then detach_emitter (r\<lparr>rn_stage := Settled v\<rparr>) s
          else if rn_pending r = [] then (r\<lparr>rn_stage := Settled v\<rparr>, s)
          else emitter_step cf r s
      | Settled v \<Rightarrow> (r, s))"

definition call_step :: "'w loop_config \<Rightarrow> 'w running_call \<Rightarrow> 'w run_state \<Rightarrow> 'w running_call \<times> 'w run_state" where
  "call_step cf r s =
     (let s1 = late_updates cf s
      in if rn_pending r \<noteq> [] \<and> cf_emitter_first cf (st_world s1) then emitter_step cf r s1
         else main_step cf r s1)"

text \<open>
  Every step of a call that is not settled brings it nearer to that: the stage moves on, a
  poll is used up or an update leaves the channel.
\<close>

fun stage_rank :: "stage \<Rightarrow> nat" where
  "stage_rank Unpolled = 4"
| "stage_rank (Polling n) = 3"
| "stage_rank (Returned v) = 2"
| "stage_rank (Draining v) = 1"
| "stage_rank (Settled v) = 0"

fun stage_polls :: "stage \<Rightarrow> nat" where
  "stage_polls (Polling n) = n"
| "stage_polls v = 0"

definition call_less :: "('w running_call \<times> 'w running_call) set" where
  "call_less = measures [\<lambda>r. stage_rank (rn_stage r), \<lambda>r. stage_polls (rn_stage r), \<lambda>r. length (rn_pending r)]"

lemma wf_call_less: "wf call_less"
  unfolding call_less_def by (rule wf_measures)

lemma emitter_step_less: "rn_pending r \<noteq> [] \<Longrightarrow> (fst (emitter_step cf r s), r) \<in> call_less"
  by (cases "rn_pending r")
     (auto simp: emitter_step_def end_emitter_def call_less_def split: option.split prod.split sum.split)

lemma push_updates_stage [simp]: "rn_stage (push_updates us r) = rn_stage r"
  by (simp add: push_updates_def)

lemma main_step_less:
  assumes "stage_rank (rn_stage r) \<noteq> 0"
  shows "(fst (main_step cf r s), r) \<in> call_less"
proof (cases "rn_stage r")
  case (Polling n)
  then show ?thesis
    by (cases n) (auto simp: main_step_def Let_def call_less_def split: prod.split)
next
  case (Draining v)
  then show ?thesis
    using emitter_step_less[of r cf s]
    by (auto simp: main_step_def Let_def call_less_def detach_emitter_def)
qed (use assms in \<open>auto simp: main_step_def Let_def call_less_def detach_emitter_def\<close>)

lemma call_step_less: "stage_rank (rn_stage r) \<noteq> 0 \<Longrightarrow> (fst (call_step cf r s), r) \<in> call_less"
  by (simp add: call_step_def Let_def emitter_step_less main_step_less)

text \<open>A call awaited on its own, as a sequential batch does.\<close>

function run_call :: "'w loop_config \<Rightarrow> 'w running_call \<Rightarrow> 'w run_state \<Rightarrow> 'w running_call \<times> 'w run_state" where
  "run_call cf r s =
     (if stage_rank (rn_stage r) = 0 then (r, s)
      else case call_step cf r s of (r', s') \<Rightarrow> run_call cf r' s')"
  by pat_completeness auto
termination
  by (relation "inv_image call_less (\<lambda>(cf, r, s). r)") (simp_all add: wf_call_less call_step_less split_beta)

declare run_call.simps [simp del]

text \<open>
  The outcome of the execution: the tool's result, or the error as a tool result; an emitter
  that failed turns a result into its error, and is ignored when the tool failed itself.
\<close>

fun stage_result :: "stage \<Rightarrow> agent_error + agent_tool_result" where
  "stage_result (Returned v) = v"
| "stage_result (Draining v) = v"
| "stage_result (Settled v) = v"
| "stage_result _ = Inl AbortedError"

definition executed_outcome :: "bool \<Rightarrow> 'w running_call \<Rightarrow> agent_tool_result \<times> bool" where
  "executed_outcome is_ab r =
     (case stage_result (rn_stage r) of
        Inl e \<Rightarrow> (error_tool_result is_ab e, True)
      | Inr res \<Rightarrow>
          (case rn_emitter r of
             None \<Rightarrow> (res, False)
           | Some e \<Rightarrow> (error_tool_result is_ab e, True)))"

text \<open>\<open>finalize_executed_tool_call\<close>: the field-by-field overrides of \<open>afterToolCall\<close>.\<close>

definition apply_overrides :: "after_result \<Rightarrow> agent_tool_result \<times> bool \<Rightarrow> agent_tool_result \<times> bool" where
  "apply_overrides o1 p =
     (let res = fst p in
      (res\<lparr>res_content := (case ar_content o1 of Some c \<Rightarrow> c | None \<Rightarrow> res_content res),
          res_details := (case ar_details o1 of Some d \<Rightarrow> d | None \<Rightarrow> res_details res),
          res_terminate := (case ar_terminate o1 of Some t \<Rightarrow> Some t | None \<Rightarrow> res_terminate res)\<rparr>,
       case ar_is_error o1 of Some e \<Rightarrow> e | None \<Rightarrow> snd p))"

definition finalize_call ::
    "'w loop_config \<Rightarrow> assistant_message \<Rightarrow> 'w running_call \<Rightarrow> agent_tool_result \<times> bool \<Rightarrow> ('w, finalized_call) agent" where
  "finalize_call cf asst r executed =
     (case cf_after_tool_call cf of
        None \<Rightarrow> ret \<lparr>fc_call = rn_call r, fc_result = fst executed, fc_is_error = snd executed\<rparr>
      | Some hook \<Rightarrow>
          bnd (gets st_messages) (\<lambda>messages.
          match_result
            (race cf (in_world cf (hook \<lparr>ac_assistant = asst, ac_call = rn_call r, ac_args = rn_args r,
                ac_result = fst executed, ac_is_error = snd executed, ac_messages = messages\<rparr>)))
            (\<lambda>after. case after of
                Some overrides \<Rightarrow>
                  (case apply_overrides overrides executed of (res, err) \<Rightarrow>
                     ret \<lparr>fc_call = rn_call r, fc_result = res, fc_is_error = err\<rparr>)
              | None \<Rightarrow> ret \<lparr>fc_call = rn_call r, fc_result = fst executed, fc_is_error = snd executed\<rparr>)
            (\<lambda>e. ret \<lparr>fc_call = rn_call r, fc_result = error_result (err_text e), fc_is_error = True\<rparr>)))"

definition emit_tool_execution_end :: "'w loop_config \<Rightarrow> finalized_call \<Rightarrow> ('w, unit) agent" where
  "emit_tool_execution_end cf f =
     emit cf (ToolExecutionEnd (call_id (fc_call f)) (call_name (fc_call f)) (fc_result f) (fc_is_error f))"

definition emit_tool_execution_start :: "'w loop_config \<Rightarrow> tool_call \<Rightarrow> ('w, unit) agent" where
  "emit_tool_execution_start cf call =
     emit cf (ToolExecutionStart (call_id call) (call_name call) (call_arguments call))"

definition create_tool_result_message :: "int \<Rightarrow> finalized_call \<Rightarrow> tool_result_message" where
  "create_tool_result_message now f =
     \<lparr>tr_call_id = call_id (fc_call f), tr_tool_name = call_name (fc_call f),
      tr_content = res_content (fc_result f),
      tr_details = (if res_details (fc_result f) = JNull then None else Some (res_details (fc_result f))),
      tr_is_error = fc_is_error f, tr_timestamp = now\<rparr>"

definition emit_tool_result_message :: "'w loop_config \<Rightarrow> tool_result_message \<Rightarrow> ('w, unit) agent" where
  "emit_tool_result_message cf m =
     thn (emit cf (MessageStart (from_tool_result m))) (emit cf (MessageEnd (from_tool_result m)))"

text \<open>The tail of a tool call after its updates: finalize it and say that it ended.\<close>

definition complete_call :: "'w loop_config \<Rightarrow> assistant_message \<Rightarrow> 'w running_call \<Rightarrow> ('w, finalized_call) agent" where
  "complete_call cf asst r =
     (\<lambda>s. bnd (finalize_call cf asst r (executed_outcome (aborted cf s) r))
            (\<lambda>f. thn (emit_tool_execution_end cf f) (ret f)) s)"

definition should_terminate_tool_batch :: "finalized_call list \<Rightarrow> bool" where
  "should_terminate_tool_batch fs \<longleftrightarrow>
     fs \<noteq> [] \<and> (\<forall>f \<in> set fs. res_terminate (fc_result f) = Some True)"

section \<open>Tool batches\<close>

record executed_batch =
  eb_messages :: "tool_result_message list"
  eb_terminate :: bool

definition awaited :: "('w run_state \<Rightarrow> 'a \<times> 'w run_state) \<Rightarrow> ('w, 'a) agent" where
  "awaited f = (\<lambda>s. case f s of (x, s') \<Rightarrow> (Inr x, s'))"

text \<open>One call of a sequential batch, up to its \<open>tool_execution_end\<close>.\<close>

definition sequential_call ::
    "'w loop_config \<Rightarrow> assistant_message \<Rightarrow> tool_call \<Rightarrow> ('w, finalized_call) agent" where
  "sequential_call cf asst call =
     thn (emit_tool_execution_start cf call)
       (bnd (prepare_tool_call cf asst call) (\<lambda>p.
          case p of
            Immediate res err \<Rightarrow>
              (let f = \<lparr>fc_call = call, fc_result = res, fc_is_error = err\<rparr>
               in thn (emit_tool_execution_end cf f) (ret f))
          | Prepared call' tool args \<Rightarrow>
              bnd (awaited (run_call cf (start_tool call' tool args))) (complete_call cf asst)))"

definition report_result :: "'w loop_config \<Rightarrow> finalized_call \<Rightarrow> ('w, tool_result_message) agent" where
  "report_result cf f =
     bnd (gets (\<lambda>s. create_tool_result_message (cf_now_ms cf (st_world s)) f)) (\<lambda>m.
       thn (emit_tool_result_message cf m) (ret m))"

text \<open>The sequential loop stops before or after a call once the signal has fired.\<close>

fun sequential_loop ::
    "'w loop_config \<Rightarrow> assistant_message \<Rightarrow> tool_call list \<Rightarrow> ('w, (tool_result_message \<times> finalized_call) list) agent" where
  "sequential_loop cf asst [] = ret []"
| "sequential_loop cf asst (call # calls) =
     (\<lambda>s. if aborted cf s then (Inr [], s)
          else bnd (sequential_call cf asst call) (\<lambda>f.
               bnd (report_result cf f) (\<lambda>m s'.
                 if aborted cf s' then (Inr [(m, f)], s')
                 else bnd (sequential_loop cf asst calls) (\<lambda>rest. ret ((m, f) # rest)) s')) s)"

definition execute_tool_calls_sequential ::
    "'w loop_config \<Rightarrow> assistant_message \<Rightarrow> tool_call list \<Rightarrow> ('w, executed_batch) agent" where
  "execute_tool_calls_sequential cf asst calls =
     bnd (sequential_loop cf asst calls) (\<lambda>rs.
       ret \<lparr>eb_messages = map fst rs, eb_terminate = should_terminate_tool_batch (map snd rs)\<rparr>)"

text \<open>
  A parallel batch: a slot per call, an outcome or a spawned task. At every await of the batch
  the runtime polls the tasks that the world's schedule names, in that order. A task that fails
  or panics keeps its error until it is joined; the emitter of one that panics is detached.
\<close>

datatype 'w slot = Outcome finalized_call | Task "'w running_call" | Failed agent_error

definition join_error :: "string \<Rightarrow> agent_error" where
  "join_error t = OtherError (''Parallel tool execution task failed: '' @ t)"

definition slot_step ::
    "'w loop_config \<Rightarrow> assistant_message \<Rightarrow> 'w slot \<Rightarrow> 'w run_state \<Rightarrow> 'w slot \<times> 'w run_state" where
  "slot_step cf asst sl s =
     (case sl of
        Task r \<Rightarrow>
          (case cf_task_panic cf (st_world s) of
             Some t \<Rightarrow> (Failed (join_error t), snd (detach_emitter r s))
           | None \<Rightarrow>
               if stage_rank (rn_stage r) = 0
               then (case complete_call cf asst r s of
                       (Inr f, s') \<Rightarrow> (Outcome f, s')
                     | (Inl e, s') \<Rightarrow> (Failed e, s'))
               else (case call_step cf r s of (r', s') \<Rightarrow> (Task r', s')))
      | _ \<Rightarrow> (sl, s))"

definition step_at ::
    "'w loop_config \<Rightarrow> assistant_message \<Rightarrow> nat \<Rightarrow> 'w slot list \<Rightarrow> 'w run_state \<Rightarrow> 'w slot list \<times> 'w run_state" where
  "step_at cf asst i sls s =
     (if i < length sls then case slot_step cf asst (sls ! i) s of (sl, s') \<Rightarrow> (sls[i := sl], s')
      else (sls, s))"

fun run_schedule ::
    "'w loop_config \<Rightarrow> assistant_message \<Rightarrow> nat list \<Rightarrow> 'w slot list \<Rightarrow> 'w run_state \<Rightarrow> 'w slot list \<times> 'w run_state" where
  "run_schedule cf asst [] sls s = (sls, s)"
| "run_schedule cf asst (i # is) sls s =
     (case step_at cf asst i sls s of (sls', s') \<Rightarrow> run_schedule cf asst is sls' s')"

definition yield_tasks ::
    "'w loop_config \<Rightarrow> assistant_message \<Rightarrow> 'w slot list \<Rightarrow> 'w run_state \<Rightarrow> 'w slot list \<times> 'w run_state" where
  "yield_tasks cf asst sls s = run_schedule cf asst (cf_schedule cf (st_world s)) sls s"

text \<open>
  The first loop of \<open>execute_tool_calls_parallel\<close> announces, prepares and spawns every call in
  source order, while the tasks already spawned run.
\<close>

fun parallel_spawn ::
    "'w loop_config \<Rightarrow> assistant_message \<Rightarrow> tool_call list \<Rightarrow> 'w slot list \<Rightarrow> ('w, 'w slot list) agent" where
  "parallel_spawn cf asst [] sls = ret sls"
| "parallel_spawn cf asst (call # calls) sls =
     thn (emit_tool_execution_start cf call)
     (bnd (awaited (yield_tasks cf asst sls)) (\<lambda>sls1.
      bnd (prepare_tool_call cf asst call) (\<lambda>p.
      bnd (awaited (yield_tasks cf asst sls1)) (\<lambda>sls2.
      case p of
        Immediate res err \<Rightarrow>
          (let f = \<lparr>fc_call = call, fc_result = res, fc_is_error = err\<rparr>
           in thn (emit_tool_execution_end cf f) (parallel_spawn cf asst calls (sls2 @ [Outcome f])))
      | Prepared call' tool args \<Rightarrow>
          parallel_spawn cf asst calls (sls2 @ [Task (start_tool call' tool args)])))))"

text \<open>
  Awaiting slot \<open>i\<close>: the runtime polls what its schedule names, then the awaited task, until
  that one is done. The rank of its call is what ends the wait.
\<close>

fun is_task :: "'w slot \<Rightarrow> bool" where
  "is_task (Task r) = True"
| "is_task _ = False"

fun slot_rank :: "'w slot \<Rightarrow> nat" where
  "slot_rank (Task r) = Suc (stage_rank (rn_stage r))"
| "slot_rank _ = 0"

fun slot_polls :: "'w slot \<Rightarrow> nat" where
  "slot_polls (Task r) = stage_polls (rn_stage r)"
| "slot_polls _ = 0"

fun slot_queue :: "'w slot \<Rightarrow> nat" where
  "slot_queue (Task r) = length (rn_pending r)"
| "slot_queue _ = 0"

definition slot_less :: "('w slot \<times> 'w slot) set" where
  "slot_less = measures [slot_rank, slot_polls, slot_queue]"

lemma wf_slot_less: "wf slot_less"
  unfolding slot_less_def by (rule wf_measures)

lemma slot_less_trans: "(a, b) \<in> slot_less \<Longrightarrow> (b, c) \<in> slot_less \<Longrightarrow> (a, c) \<in> slot_less"
  by (auto simp: slot_less_def)

lemma slot_step_less:
  assumes "is_task sl"
  shows "(fst (slot_step cf asst sl s), sl) \<in> slot_less"
proof (cases sl)
  case (Task r)
  have "(Task (fst (call_step cf r s)), Task r) \<in> slot_less" if "stage_rank (rn_stage r) \<noteq> 0"
    using call_step_less[OF that, of cf s] by (auto simp: call_less_def slot_less_def)
  with Task show ?thesis
    by (auto simp: slot_step_def slot_less_def split: option.split prod.split sum.split)
qed (use assms in simp_all)

lemma slot_step_done: "\<not> is_task sl \<Longrightarrow> slot_step cf asst sl s = (sl, s)"
  by (cases sl) (simp_all add: slot_step_def)

text \<open>
  \<open>advances sls sls'\<close>: after some steps of the tasks no slot is further from its end.
\<close>

definition advances :: "'w slot list \<Rightarrow> 'w slot list \<Rightarrow> bool" where
  "advances sls sls' \<longleftrightarrow>
     length sls' = length sls \<and> (\<forall>i < length sls. sls' ! i = sls ! i \<or> (sls' ! i, sls ! i) \<in> slot_less)"

lemma advances_refl [simp]: "advances sls sls"
  by (simp add: advances_def)

lemma advances_trans: "advances xs ys \<Longrightarrow> advances ys zs \<Longrightarrow> advances xs zs"
  unfolding advances_def by (metis slot_less_trans)

lemma step_at_advances: "advances sls (fst (step_at cf asst i sls s))"
proof (cases "i < length sls \<and> is_task (sls ! i)")
  case True
  then show ?thesis
    using slot_step_less[of "sls ! i" cf asst s]
    by (auto simp: step_at_def advances_def nth_list_update split: prod.split)
next
  case False
  then show ?thesis
    by (auto simp: step_at_def slot_step_done)
qed

lemma run_schedule_advances: "advances sls (fst (run_schedule cf asst is sls s))"
proof (induction "is" arbitrary: sls s)
  case (Cons i "is")
  show ?case
    using step_at_advances[of sls cf asst i s] Cons by (auto split: prod.split intro: advances_trans)
qed simp

lemma yield_advances: "advances sls (fst (yield_tasks cf asst sls s))"
  unfolding yield_tasks_def by (rule run_schedule_advances)

lemma round_less:
  assumes "i < length sls" and "is_task (sls ! i)" and "y = yield_tasks cf asst sls s"
  shows "(fst (step_at cf asst i (fst y) (snd y)) ! i, sls ! i) \<in> slot_less"
proof -
  let ?sls1 = "fst y" and ?s1 = "snd y"
  have 1: "length ?sls1 = length sls" "?sls1 ! i = sls ! i \<or> (?sls1 ! i, sls ! i) \<in> slot_less"
    using yield_advances[of sls cf asst s] assms(1,3) by (auto simp: advances_def)
  show ?thesis
  proof (cases "is_task (?sls1 ! i)")
    case True
    then have "(fst (step_at cf asst i ?sls1 ?s1) ! i, ?sls1 ! i) \<in> slot_less"
      using slot_step_less[OF True, of cf asst ?s1] assms(1) 1(1) by (simp add: step_at_def split_beta)
    with 1(2) show ?thesis by (auto intro: slot_less_trans)
  next
    case False
    with assms(2) 1(2) have "(?sls1 ! i, sls ! i) \<in> slot_less" by auto
    with False show ?thesis by (simp add: step_at_def slot_step_done)
  qed
qed

lemma round_less_pair:
  "i < length sls \<and> is_task (sls ! i) \<Longrightarrow> (sls1, s1) = yield_tasks cf asst sls s \<Longrightarrow>
   (fst (step_at cf asst i sls1 s1) ! i, sls ! i) \<in> slot_less"
  by (drule round_less[of i sls "(sls1, s1)" cf asst s, rotated 2]) simp_all

function await_slot ::
    "'w loop_config \<Rightarrow> assistant_message \<Rightarrow> nat \<Rightarrow> 'w slot list \<Rightarrow> 'w run_state \<Rightarrow> 'w slot list \<times> 'w run_state" where
  "await_slot cf asst i sls s =
     (if i < length sls \<and> is_task (sls ! i) then
        case yield_tasks cf asst sls s of (sls1, s1) \<Rightarrow>
        case step_at cf asst i sls1 s1 of (sls2, s2) \<Rightarrow> await_slot cf asst i sls2 s2
      else (sls, s))"
  by pat_completeness auto
termination
  by (relation "inv_image slot_less (\<lambda>(cf, asst, i, sls, s). sls ! i)") (simp_all add: wf_slot_less round_less_pair split_beta)

declare await_slot.simps [simp del]

text \<open>
  The second loop joins the slots in source order; the error of a task, its panic included,
  is the error of the batch.
\<close>

fun slot_value :: "'w slot \<Rightarrow> agent_error + finalized_call" where
  "slot_value (Outcome f) = Inr f"
| "slot_value (Failed e) = Inl e"
| "slot_value (Task r) = Inl (join_error ''not finished'')"  \<comment> \<open>not after \<open>await_slot\<close>\<close>

fun parallel_join ::
    "'w loop_config \<Rightarrow> assistant_message \<Rightarrow> nat list \<Rightarrow> 'w slot list \<Rightarrow> ('w, finalized_call list) agent" where
  "parallel_join cf asst [] sls = ret []"
| "parallel_join cf asst (i # is) sls =
     bnd (awaited (await_slot cf asst i sls)) (\<lambda>sls'.
       case slot_value (sls' ! i) of
         Inl e \<Rightarrow> fail e
       | Inr f \<Rightarrow> bnd (parallel_join cf asst is sls') (\<lambda>fs. ret (f # fs)))"

fun report_results :: "'w loop_config \<Rightarrow> finalized_call list \<Rightarrow> ('w, tool_result_message list) agent" where
  "report_results cf [] = ret []"
| "report_results cf (f # fs) =
     bnd (report_result cf f) (\<lambda>m. bnd (report_results cf fs) (\<lambda>ms. ret (m # ms)))"

definition execute_tool_calls_parallel ::
    "'w loop_config \<Rightarrow> assistant_message \<Rightarrow> tool_call list \<Rightarrow> ('w, executed_batch) agent" where
  "execute_tool_calls_parallel cf asst calls =
     bnd (parallel_spawn cf asst calls []) (\<lambda>sls.
     bnd (parallel_join cf asst [0..<length sls] sls) (\<lambda>fs.
     bnd (report_results cf fs) (\<lambda>ms.
       ret \<lparr>eb_messages = ms, eb_terminate = should_terminate_tool_batch fs\<rparr>)))"

definition has_sequential_tool_call :: "'w loop_config \<Rightarrow> tool_call list \<Rightarrow> bool" where
  "has_sequential_tool_call cf calls \<longleftrightarrow>
     (\<exists>call \<in> set calls. Option.bind (find_tool cf (call_name call)) tool_mode = Some Sequential)"

definition execute_tool_calls :: "'w loop_config \<Rightarrow> assistant_message \<Rightarrow> ('w, executed_batch) agent" where
  "execute_tool_calls cf asst =
     (let calls = tool_calls asst
      in if cf_tool_execution cf = Sequential \<or> has_sequential_tool_call cf calls
         then execute_tool_calls_sequential cf asst calls
         else execute_tool_calls_parallel cf asst calls)"

section \<open>The turn loop\<close>

text \<open>The variables that \<open>run_loop\<close> carries between its turns.\<close>

record loop_vars =
  lv_first_turn :: bool
  lv_last_turn :: "stop_context option"
  lv_pending :: "agent_message list"
  lv_more :: bool                    \<comment> \<open>\<open>has_more_tool_calls\<close>\<close>

datatype flow = Go loop_vars | Finish

text \<open>\<open>should_stop_before_turn!\<close>: never before the first turn.\<close>

definition should_stop_before_turn :: "'w loop_config \<Rightarrow> bool \<Rightarrow> ('w, bool) agent" where
  "should_stop_before_turn cf first =
     (if first then ret False
      else case cf_should_stop_before_turn cf of
             None \<Rightarrow> ret False
           | Some hook \<Rightarrow> sync_world (\<lambda>w. let (b, w') = hook w in (Inr b, w')))"

definition emit_agent_end :: "'w loop_config \<Rightarrow> ('w, unit) agent" where
  "emit_agent_end cf = bnd (gets st_new) (\<lambda>ms. emit cf (AgentEnd ms))"

definition finish_run :: "'w loop_config \<Rightarrow> ('w, flow) agent" where
  "finish_run cf = thn (emit_agent_end cf) (ret Finish)"

definition inject_message :: "'w loop_config \<Rightarrow> agent_message \<Rightarrow> ('w, unit) agent" where
  "inject_message cf m =
     thn (emit cf (MessageStart m))
       (thn (emit cf (MessageEnd m)) (thn (push_message m) (push_new m)))"

definition push_tool_result :: "tool_result_message \<Rightarrow> ('w, unit) agent" where
  "push_tool_result m = thn (push_message (from_tool_result m)) (push_new (from_tool_result m))"

text \<open>The tool batch of a turn: no calls, no batch; a terminating batch asks for no more turns.\<close>

definition turn_tools ::
    "'w loop_config \<Rightarrow> assistant_message \<Rightarrow> ('w, tool_result_message list \<times> bool) agent" where
  "turn_tools cf asst =
     (if tool_calls asst = [] then ret ([], False)
      else bnd (execute_tool_calls cf asst) (\<lambda>batch.
             thn (for_each (eb_messages batch) push_tool_result)
               (ret (eb_messages batch, \<not> eb_terminate batch))))"

text \<open>After \<open>turn_end\<close>: the stop hooks, then the steering poll, which owns the turn boundary.\<close>

definition after_turn :: "'w loop_config \<Rightarrow> stop_context \<Rightarrow> bool \<Rightarrow> ('w, flow) agent" where
  "after_turn cf ctx again =
     bnd (settle_post_turn cf (race cf (case cf_should_stop_after_turn cf of
            Some hook \<Rightarrow> in_world cf (hook ctx) | None \<Rightarrow> ret False))) (\<lambda>stop.
     case stop of
       Aborted \<Rightarrow> finish_run cf
     | Completed True \<Rightarrow> finish_run cf
     | Completed False \<Rightarrow>
         bnd (should_stop_before_turn cf False) (\<lambda>stop_before.
         if stop_before then finish_run cf
         else bnd (settle_post_turn cf (poll_messages_unless_aborted cf (cf_get_steering_messages cf)))
           (\<lambda>steering. case steering of
              Aborted \<Rightarrow> finish_run cf
            | Completed messages \<Rightarrow>
                (if messages = [] then
                   bnd (should_stop_before_turn cf False) (\<lambda>stop_before.
                     if stop_before then finish_run cf
                     else ret (Go \<lparr>lv_first_turn = False, lv_last_turn = Some ctx,
                                   lv_pending = [], lv_more = again\<rparr>))
                 else ret (Go \<lparr>lv_first_turn = False, lv_last_turn = Some ctx,
                               lv_pending = messages, lv_more = again\<rparr>)))))"

text \<open>One pass through the inner \<open>while\<close> loop: an assistant turn.\<close>

definition turn :: "'w loop_config \<Rightarrow> loop_vars \<Rightarrow> ('w, flow) agent" where
  "turn cf lv =
     thn (throw_if_aborted cf)
     (thn (if lv_first_turn lv then ret () else emit cf TurnStart)
     (thn (for_each (lv_pending lv) (inject_message cf))
     (bnd (stream_assistant_response cf) (\<lambda>message.
      thn (push_new (from_assistant message))
      (if am_stop_reason message = StopError \<or> am_stop_reason message = StopAborted then
         thn (emit cf (TurnEnd (from_assistant message) [])) (finish_run cf)
       else
         bnd (turn_tools cf message) (\<lambda>(results, again).
         thn (emit cf (TurnEnd (from_assistant message) results))
           (\<lambda>s. if aborted cf s then finish_run cf s
                else after_turn cf \<lparr>sc_message = message, sc_tool_results = results,
                       sc_messages = st_messages s, sc_new_messages = st_new s\<rparr> again s)))))))"

text \<open>
  Where the inner loop has ended: follow-ups, then the continuation hook, restart it with the
  polled messages; otherwise the run ends.
\<close>

definition restart :: "loop_vars \<Rightarrow> agent_message list \<Rightarrow> flow" where
  "restart lv messages = Go (lv\<lparr>lv_pending := messages, lv_more := True\<rparr>)"

definition poll_continuation :: "'w loop_config \<Rightarrow> loop_vars \<Rightarrow> ('w, agent_message list post_turn) agent" where
  "poll_continuation cf lv =
     (case lv_last_turn lv of
        None \<Rightarrow> ret (Completed [])
      | Some ctx \<Rightarrow> settle_post_turn cf (race cf (case cf_get_continuation_messages cf of
            Some hook \<Rightarrow> in_world cf (hook ctx) | None \<Rightarrow> ret [])))"

definition boundary :: "'w loop_config \<Rightarrow> loop_vars \<Rightarrow> ('w, flow) agent" where
  "boundary cf lv =
     bnd (should_stop_before_turn cf (lv_first_turn lv)) (\<lambda>stop1.
     if stop1 then finish_run cf
     else bnd (settle_post_turn cf (poll_messages_unless_aborted cf (cf_get_follow_up_messages cf)))
       (\<lambda>follow_ups. case follow_ups of
          Aborted \<Rightarrow> finish_run cf
        | Completed messages \<Rightarrow>
            if messages \<noteq> [] then thn (throw_if_aborted cf) (ret (restart lv messages))
            else bnd (should_stop_before_turn cf (lv_first_turn lv)) (\<lambda>stop2.
              if stop2 then finish_run cf
              else bnd (poll_continuation cf lv) (\<lambda>continuation. case continuation of
                     Aborted \<Rightarrow> finish_run cf
                   | Completed messages' \<Rightarrow>
                       if messages' \<noteq> [] then thn (throw_if_aborted cf) (ret (restart lv messages'))
                       else finish_run cf))))"

definition loop_step :: "'w loop_config \<Rightarrow> loop_vars \<Rightarrow> ('w, flow) agent" where
  "loop_step cf lv = (if lv_more lv \<or> lv_pending lv \<noteq> [] then turn cf lv else boundary cf lv)"

text \<open>
  The loop may run for ever (an agent that always calls tools), so its iteration is a partial
  function: \<open>None\<close> is a run that does not return.
\<close>

partial_function (option) iterate ::
    "'w loop_config \<Rightarrow> loop_vars \<Rightarrow> 'w run_state \<Rightarrow> ((agent_error + unit) \<times> 'w run_state) option" where
  "iterate cf lv s =
     (case loop_step cf lv s of
        (Inl e, s') \<Rightarrow> Some (Inl e, s')
      | (Inr Finish, s') \<Rightarrow> Some (Inr (), s')
      | (Inr (Go lv'), s') \<Rightarrow> iterate cf lv' s')"

definition start_vars :: "'w loop_config \<Rightarrow> ('w, loop_vars) agent" where
  "start_vars cf =
     bnd (poll_messages_unless_aborted cf (cf_get_steering_messages cf)) (\<lambda>pending.
       thn (throw_if_aborted cf)
         (ret \<lparr>lv_first_turn = True, lv_last_turn = None, lv_pending = pending, lv_more = True\<rparr>))"

definition run_loop :: "'w loop_config \<Rightarrow> 'w run_state \<Rightarrow> ((agent_error + unit) \<times> 'w run_state) option" where
  "run_loop cf s =
     (case start_vars cf s of
        (Inl e, s') \<Rightarrow> Some (Inl e, s')
      | (Inr lv, s') \<Rightarrow> iterate cf lv s')"

section \<open>Entry points\<close>

definition initial_state :: "agent_message list \<Rightarrow> agent_message list \<Rightarrow> 'w \<Rightarrow> 'w run_state" where
  "initial_state messages new w =
     \<lparr>st_messages = messages, st_new = new, st_trace = [], st_late = [], st_heard = [],
      st_cut = [], st_partial = None, st_added = False, st_world = w\<rparr>"

definition announce :: "'w loop_config \<Rightarrow> agent_message \<Rightarrow> ('w, unit) agent" where
  "announce cf m = thn (emit cf (MessageStart m)) (emit cf (MessageEnd m))"

definition announce_run :: "'w loop_config \<Rightarrow> agent_message list \<Rightarrow> ('w, unit) agent" where
  "announce_run cf prompts =
     thn (emit cf AgentStart) (thn (emit cf TurnStart) (for_each prompts (announce cf)))"

text \<open>\<open>run_agent_loop\<close>: the result is the run's messages, \<open>st_new\<close> of the final state.\<close>

definition run_agent_loop ::
    "'w loop_config \<Rightarrow> agent_message list \<Rightarrow> agent_message list \<Rightarrow> 'w
      \<Rightarrow> ((agent_error + unit) \<times> 'w run_state) option" where
  "run_agent_loop cf prompts messages w =
     (case announce_run cf prompts (initial_state (messages @ prompts) prompts w) of
        (Inl e, s) \<Rightarrow> Some (Inl e, s)
      | (Inr _, s) \<Rightarrow> run_loop cf s)"

definition run_agent_loop_continue ::
    "'w loop_config \<Rightarrow> agent_message list \<Rightarrow> 'w \<Rightarrow> ((agent_error + unit) \<times> 'w run_state) option" where
  "run_agent_loop_continue cf messages w =
     (let s0 = initial_state messages [] w
      in if messages = [] then Some (Inl (OtherError ''Cannot continue: no messages in context''), s0)
         else if role (last messages) = ''assistant''
         then Some (Inl (OtherError ''Cannot continue from message role: assistant''), s0)
         else case announce_run cf [] s0 of
                (Inl e, s) \<Rightarrow> Some (Inl e, s)
              | (Inr _, s) \<Rightarrow> run_loop cf s)"

end
