(* ===== verification/ToolBatch.thy ===== *)
theory ToolBatch
  imports AgentLoop
begin

text \<open>
  Tool batches of the agent loop (\<open>tools.rs\<close>): the result messages answer the assistant's
  calls in source order whatever the runtime's schedule; awaiting a call ends with its outcome;
  and what the steps of a batch keep of any invariant of the run (\<open>tool_kept\<close>).
\<close>

section \<open>The steps of a task\<close>

text \<open>
  An error that the event sink gave, and the errors of a parallel batch: those, and the panic
  of a spawned task as its join reports it.
\<close>

definition sink_error :: "'w loop_config \<Rightarrow> agent_error \<Rightarrow> bool" where
  "sink_error cf e \<longleftrightarrow> (\<exists>ev w w'. cf_sink cf ev w = (Inl e, w'))"

definition batch_error :: "'w loop_config \<Rightarrow> agent_error \<Rightarrow> bool" where
  "batch_error cf e \<longleftrightarrow>
     sink_error cf e \<or> (\<exists>w t. cf_task_panic cf w = Some t \<and> e = join_error t)"

lemma batch_error_without_panics:
  "(\<And>w. cf_task_panic cf w = None) \<Longrightarrow> batch_error cf e \<longleftrightarrow> sink_error cf e"
  by (simp add: batch_error_def)

lemma sink_batch_error: "sink_error cf e \<Longrightarrow> batch_error cf e"
  by (simp add: batch_error_def)

text \<open>A slot belongs to a call; a task that failed did so in the sink or by a panic.\<close>

fun slot_for :: "'w loop_config \<Rightarrow> tool_call \<Rightarrow> 'w slot \<Rightarrow> bool" where
  "slot_for cf call (Outcome f) = (fc_call f = call)"
| "slot_for cf call (Task r) = (rn_call r = call)"
| "slot_for cf call (Failed e) = batch_error cf e"

text \<open>A step of a call changes neither whose call it is nor its tool.\<close>

lemma call_frame [simp]:
  "rn_call (push_updates us r) = rn_call r" "rn_tool (push_updates us r) = rn_tool r"
  "rn_call (end_emitter e r) = rn_call r" "rn_tool (end_emitter e r) = rn_tool r"
  "rn_call (fst (detach_emitter r s)) = rn_call r" "rn_tool (fst (detach_emitter r s)) = rn_tool r"
  by (simp_all add: push_updates_def end_emitter_def detach_emitter_def)

lemma emitter_step_frame [simp]:
  "rn_call (fst (emitter_step cf r s)) = rn_call r" "rn_tool (fst (emitter_step cf r s)) = rn_tool r"
  by (simp_all add: emitter_step_def split: list.split option.split prod.split sum.split)

lemma main_step_frame [simp]:
  "rn_call (fst (main_step cf r s)) = rn_call r" "rn_tool (fst (main_step cf r s)) = rn_tool r"
  by (simp_all add: main_step_def Let_def split: stage.split nat.split prod.split)

lemma call_step_frame [simp]:
  "rn_call (fst (call_step cf r s)) = rn_call r" "rn_tool (fst (call_step cf r s)) = rn_tool r"
  by (simp_all add: call_step_def Let_def)

lemma call_step_result: "call_step cf r s = (r', s') \<Longrightarrow> rn_call r' = rn_call r \<and> rn_tool r' = rn_tool r"
  using call_step_frame[of cf r s] by simp

lemma run_call_frame: "rn_call (fst (run_call cf r s)) = rn_call r"
proof (induction cf r s rule: run_call.induct)
  case (1 cf r s)
  obtain r' s' where step: "call_step cf r s = (r', s')" by fastforce
  from call_step_result[OF this] 1 step show ?case by (subst run_call.simps) simp
qed

text \<open>A call that is awaited on its own is settled in the end, whatever the world does.\<close>

lemma run_call_settles: "stage_rank (rn_stage (fst (run_call cf r s))) = 0"
proof (induction cf r s rule: run_call.induct)
  case (1 cf r s)
  obtain r' s' where step: "call_step cf r s = (r', s')" by fastforce
  with 1 show ?case by (subst run_call.simps) simp
qed

lemma finalize_call_spec:
  assumes "finalize_call cf asst r ex s = (v, s')"
  obtains f where "v = Inr f" "fc_call f = rn_call r"
proof -
  have "\<exists>f. v = Inr f \<and> fc_call f = rn_call r"
    using assms
    by (cases "cf_after_tool_call cf")
       (auto simp: finalize_call_def mon_simps split: prod.splits sum.splits option.splits)
  with that show ?thesis by blast
qed

lemma emit_error: "emit cf ev s = (Inl e, s') \<Longrightarrow> sink_error cf e"
  by (auto simp: emit_def send_def sink_error_def split: prod.splits)

lemma complete_call_spec:
  "complete_call cf asst r s = (Inr f, s') \<Longrightarrow> fc_call f = rn_call r"
  by (auto simp: complete_call_def mon_simps split: prod.splits sum.splits elim!: finalize_call_spec)

lemma complete_call_error:
  "complete_call cf asst r s = (Inl e, s') \<Longrightarrow> sink_error cf e"
  by (auto simp: complete_call_def emit_tool_execution_end_def mon_simps
      split: prod.splits sum.splits elim!: finalize_call_spec dest: emit_error)

lemma slot_step_for: "slot_for cf call sl \<Longrightarrow> slot_for cf call (fst (slot_step cf asst sl s))"
proof (cases sl)
  case (Task r)
  assume "slot_for cf call sl"
  with Task show ?thesis
    by (auto simp: slot_step_def batch_error_def split: option.split prod.split sum.split
        dest: complete_call_spec complete_call_error call_step_result)
qed (simp_all add: slot_step_def)

text \<open>After some steps of the tasks every slot still belongs to its call.\<close>

abbreviation slots_for :: "'w loop_config \<Rightarrow> tool_call list \<Rightarrow> 'w slot list \<Rightarrow> bool" where
  "slots_for cf \<equiv> list_all2 (slot_for cf)"

lemma step_at_for: "slots_for cf calls sls \<Longrightarrow> slots_for cf calls (fst (step_at cf asst i sls s))"
  by (auto simp: step_at_def list_all2_conv_all_nth nth_list_update split_beta intro!: slot_step_for)

lemma run_schedule_for: "slots_for cf calls sls \<Longrightarrow> slots_for cf calls (fst (run_schedule cf asst is sls s))"
proof (induction "is" arbitrary: sls s)
  case (Cons i "is")
  from step_at_for[OF Cons.prems] Cons.IH show ?case by (simp add: split_beta)
qed simp

lemma yield_tasks_for: "slots_for cf calls sls \<Longrightarrow> slots_for cf calls (fst (yield_tasks cf asst sls s))"
  unfolding yield_tasks_def by (rule run_schedule_for)

lemma await_slot_for:
  "slots_for cf calls sls \<Longrightarrow> slots_for cf calls (fst (await_slot cf asst i sls s))"
proof (induction cf asst i sls s rule: await_slot.induct)
  case (1 cf asst i sls s)
  show ?case
  proof (cases "i < length sls \<and> is_task (sls ! i)")
    case True
    have "slots_for cf calls (fst (step_at cf asst i (fst (yield_tasks cf asst sls s)) (snd (yield_tasks cf asst sls s))))"
      using "1.prems" by (intro step_at_for yield_tasks_for)
    with "1.IH"[OF True prod.collapse prod.collapse] True show ?thesis
      by (subst await_slot.simps) (simp add: split_beta)
  qed (use "1.prems" in \<open>subst await_slot.simps, auto\<close>)
qed

lemma await_slot_ready:
  assumes "\<not> (i < length sls \<and> is_task (sls ! i))"
  shows "await_slot cf asst i sls s = (sls, s)"
  by (subst await_slot.simps) (simp only: assms if_False)

text \<open>
  Awaiting a slot comes to an end, and leaves an outcome or an error in it, never a task; this
  is the termination of \<open>await_slot\<close>, and holds for every schedule of the other tasks.
\<close>

lemma await_slot_done: "i < length sls \<Longrightarrow> \<not> is_task (fst (await_slot cf asst i sls s) ! i)"
proof (induction cf asst i sls s rule: await_slot.induct)
  case (1 cf asst i sls s)
  show ?case
  proof (cases "is_task (sls ! i)")
    case True
    let ?y = "yield_tasks cf asst sls s"
    have "i < length (fst (step_at cf asst i (fst ?y) (snd ?y)))"
      using "1.prems" yield_advances[of sls cf asst s] step_at_advances[of "fst ?y" cf asst i "snd ?y"]
      by (simp add: advances_def)
    with "1.IH"[OF _ prod.collapse prod.collapse] True "1.prems" show ?thesis
      by (subst await_slot.simps) (simp add: split_beta)
  qed (use "1.prems" in \<open>subst await_slot.simps, auto\<close>)
qed

section \<open>Batches\<close>

text \<open>
  \<open>yields E m Q\<close>: the program fails only with an error of \<open>E\<close>, and returns a value of \<open>Q\<close>.
  What runs on its own fails only in the sink (\<open>spec\<close>), a parallel batch also by a panic.
\<close>

abbreviation yields :: "(agent_error \<Rightarrow> bool) \<Rightarrow> ('w, 'a) agent \<Rightarrow> ('a \<Rightarrow> bool) \<Rightarrow> bool" where
  "yields E m Q \<equiv> hoare (\<lambda>_. True) m (\<lambda>x _. Q x) (\<lambda>e _. E e)"

abbreviation spec :: "'w loop_config \<Rightarrow> ('w, 'a) agent \<Rightarrow> ('a \<Rightarrow> bool) \<Rightarrow> bool" where
  "spec cf \<equiv> yields (sink_error cf)"

abbreviation batch_spec :: "'w loop_config \<Rightarrow> ('w, 'a) agent \<Rightarrow> ('a \<Rightarrow> bool) \<Rightarrow> bool" where
  "batch_spec cf \<equiv> yields (batch_error cf)"

lemma yields_I:
  assumes "\<And>s x s'. m s = (Inr x, s') \<Longrightarrow> Q x" and "\<And>s e s'. m s = (Inl e, s') \<Longrightarrow> E e"
  shows "yields E m Q"
  using assms by (blast intro: hoareI)

lemma yields_ret: "Q x \<Longrightarrow> yields E (ret x) Q"
  by (simp add: hoare_ret)

lemma yields_bnd:
  assumes "yields E m R" and "\<And>x. R x \<Longrightarrow> yields E (f x) Q"
  shows "yields E (bnd m f) Q"
proof (rule hoare_bnd[OF assms(1)])
  show "hoare (\<lambda>_. R x) (f x) (\<lambda>x _. Q x) (\<lambda>e _. E e)" for x
    using assms(2)[of x] by (cases "R x") (auto simp: hoare_def)
qed

lemma yields_thn: "yields E m (\<lambda>_. True) \<Longrightarrow> yields E k Q \<Longrightarrow> yields E (thn m k) Q"
  unfolding thn_def by (rule yields_bnd)

lemma yields_conseq: "yields E m R \<Longrightarrow> (\<And>x. R x \<Longrightarrow> Q x) \<Longrightarrow> yields E m Q"
  by (erule hoare_conseq) auto

lemma yields_gets: "yields E (gets f) (\<lambda>_. True)"
  by (simp add: hoare_gets)

lemma yields_awaited: "(\<And>s. Q (fst (f s))) \<Longrightarrow> yields E (awaited f) Q"
  by (simp add: hoare_def awaited_def split_beta)

lemma batch_spec_of: "spec cf m Q \<Longrightarrow> batch_spec cf m Q"
  by (erule hoare_conseq) (auto intro: sink_batch_error)

lemma spec_emit: "spec cf (emit cf ev) (\<lambda>_. True)"
  by (rule yields_I) (auto dest: emit_error)

lemma spec_end: "spec cf (emit_tool_execution_end cf f) (\<lambda>_. True)"
  unfolding emit_tool_execution_end_def by (rule spec_emit)

lemma prepare_tool_call_spec:
  assumes "prepare_tool_call cf asst call s = (v, s')"
  obtains p where "v = Inr p" "\<And>call' tool args. p = Prepared call' tool args \<Longrightarrow> call' = call"
proof -
  have "\<exists>p. v = Inr p \<and> (\<forall>call' tool args. p = Prepared call' tool args \<longrightarrow> call' = call)"
    using assms
    by (auto simp: prepare_tool_call_def prepare_tool_call_inner_def mon_simps Let_def
        split: option.splits sum.splits prod.splits if_splits)
  with that show ?thesis by blast
qed

lemma spec_prepare:
  "spec cf (prepare_tool_call cf asst call)
     (\<lambda>p. \<forall>call' tool args. p = Prepared call' tool args \<longrightarrow> call' = call)"
  by (rule yields_I) (auto elim!: prepare_tool_call_spec)

lemma start_tool_call [simp]: "rn_call (start_tool call tool args) = call"
  by (simp add: start_tool_def)

lemma spec_spawn:
  "slots_for cf spawned sls \<Longrightarrow>
   batch_spec cf (parallel_spawn cf asst calls sls) (slots_for cf (spawned @ calls))"
proof (induction calls arbitrary: spawned sls)
  case Nil
  then show ?case by (simp add: yields_ret)
next
  case (Cons call calls)
  have more: "batch_spec cf (parallel_spawn cf asst calls (sls' @ [sl])) (slots_for cf (spawned @ call # calls))"
    if "slots_for cf spawned sls'" and "slot_for cf call sl" for sls' sl
    using Cons.IH[of "spawned @ [call]" "sls' @ [sl]"] that by (simp add: list_all2_appendI)
  have yield: "batch_spec cf (awaited (yield_tasks cf asst sls')) (slots_for cf spawned)"
    if "slots_for cf spawned sls'" for sls'
    using that by (intro yields_awaited yield_tasks_for)
  show ?case
    unfolding parallel_spawn.simps emit_tool_execution_start_def
    by (rule yields_thn[OF batch_spec_of[OF spec_emit]], rule yields_bnd[OF yield[OF Cons.prems]],
        rule yields_bnd[OF batch_spec_of[OF spec_prepare]], rule yields_bnd[OF yield], assumption)
       (auto split: preparation.split simp: Let_def intro!: yields_thn[OF batch_spec_of[OF spec_end]] more)
qed

lemma spec_join:
  "slots_for cf calls sls \<Longrightarrow> set is \<subseteq> {..<length sls} \<Longrightarrow>
   batch_spec cf (parallel_join cf asst is sls) (\<lambda>fs. map fc_call fs = map (\<lambda>i. calls ! i) is)"
proof (induction "is" arbitrary: sls)
  case Nil
  then show ?case by (simp add: yields_ret)
next
  case (Cons i "is")
  then have i: "i < length sls" by simp
  have await: "batch_spec cf (awaited (await_slot cf asst i sls))
      (\<lambda>sls'. slots_for cf calls sls' \<and> \<not> is_task (sls' ! i))"
    using Cons.prems(1) i by (intro yields_awaited conjI await_slot_for await_slot_done)
  have "batch_spec cf (case slot_value (sls' ! i) of Inl e \<Rightarrow> fail e
       | Inr f \<Rightarrow> bnd (parallel_join cf asst is sls') (\<lambda>fs. ret (f # fs)))
     (\<lambda>fs. map fc_call fs = map (\<lambda>i. calls ! i) (i # is))"
    if "slots_for cf calls sls' \<and> \<not> is_task (sls' ! i)" for sls'
  proof -
    have len: "length sls' = length sls"
      using Cons.prems(1) that by (auto dest!: list_all2_lengthD)
    then have at: "slot_for cf (calls ! i) (sls' ! i)" using i that by (simp add: list_all2_nthD2)
    have IH: "batch_spec cf (parallel_join cf asst is sls') (\<lambda>fs. map fc_call fs = map (\<lambda>i. calls ! i) is)"
      using Cons.IH Cons.prems(2) len that by simp
    show ?thesis
    proof (cases "sls' ! i")
      case (Outcome f)
      with at show ?thesis by (auto intro!: yields_bnd[OF IH] yields_ret)
    next
      case (Failed e)
      with at show ?thesis by (auto intro: hoare_fail)
    qed (use that in simp)
  qed
  then show ?case
    unfolding parallel_join.simps by (rule yields_bnd[OF await])
qed

lemma spec_report: "spec cf (report_result cf f) (\<lambda>m. tr_call_id m = call_id (fc_call f))"
  by (rule yields_I)
     (auto simp: report_result_def emit_tool_result_message_def create_tool_result_message_def mon_simps
        split: prod.splits sum.splits dest: emit_error)

lemma spec_reports:
  "spec cf (report_results cf fs) (\<lambda>ms. map tr_call_id ms = map (call_id \<circ> fc_call) fs)"
  by (induction fs) (auto intro!: yields_ret yields_bnd[OF spec_report] elim: yields_bnd)

lemma spec_parallel:
  "batch_spec cf (execute_tool_calls_parallel cf asst calls)
     (\<lambda>b. map tr_call_id (eb_messages b) = map call_id calls)"
  unfolding execute_tool_calls_parallel_def
proof (rule yields_bnd[OF spec_spawn[of cf "[]" "[]"]])
  show "batch_spec cf (bnd (parallel_join cf asst [0..<length sls] sls) (\<lambda>fs. bnd (report_results cf fs) (\<lambda>ms.
      ret \<lparr>eb_messages = ms, eb_terminate = should_terminate_tool_batch fs\<rparr>)))
     (\<lambda>b. map tr_call_id (eb_messages b) = map call_id calls)"
    if slots: "list_all2 (slot_for cf) ([] @ calls) sls" for sls
  proof (rule yields_bnd[OF spec_join])
    show "list_all2 (slot_for cf) calls sls" using slots by simp
    then have len: "length sls = length calls" by (simp add: list_all2_lengthD)
    show "batch_spec cf (bnd (report_results cf fs) (\<lambda>ms.
        ret \<lparr>eb_messages = ms, eb_terminate = should_terminate_tool_batch fs\<rparr>))
      (\<lambda>b. map tr_call_id (eb_messages b) = map call_id calls)"
      if "map fc_call fs = map (\<lambda>i. calls ! i) [0..<length sls]" for fs
    proof (rule yields_bnd[OF batch_spec_of[OF spec_reports]], rule yields_ret)
      fix ms :: "tool_result_message list" assume "map tr_call_id ms = map (call_id \<circ> fc_call) fs"
      moreover have "map fc_call fs = calls" using that len by (simp add: map_nth)
      ultimately show "map tr_call_id
        (eb_messages \<lparr>eb_messages = ms, eb_terminate = should_terminate_tool_batch fs\<rparr>) = map call_id calls"
        by (auto simp flip: map_map)
    qed
  qed auto
qed simp

section \<open>What a batch promises\<close>

lemma spec_complete: "spec cf (complete_call cf asst r) (\<lambda>f. fc_call f = rn_call r)"
  by (rule yields_I) (auto dest: complete_call_spec complete_call_error)

lemma spec_sequential_call: "spec cf (sequential_call cf asst call) (\<lambda>f. fc_call f = call)"
proof -
  have run: "spec cf (bnd (awaited (run_call cf (start_tool call tool args))) (complete_call cf asst))
      (\<lambda>f. fc_call f = call)" for tool args
    by (rule yields_bnd[where R = "\<lambda>r. rn_call r = call"], rule yields_awaited)
       (auto simp: run_call_frame intro: yields_conseq[OF spec_complete])
  show ?thesis
    unfolding sequential_call_def emit_tool_execution_start_def
    by (rule yields_thn[OF spec_emit], rule yields_bnd[OF spec_prepare])
       (auto split: preparation.split simp: Let_def intro!: yields_thn[OF spec_end] yields_ret run)
qed

text \<open>
  The sequential loop answers a first part of the calls, all of them unless the signal fired.
\<close>

lemma sequential_loop_spec:
  "case sequential_loop cf asst calls s of
     (Inl e, s') \<Rightarrow> sink_error cf e
   | (Inr rs, s') \<Rightarrow> (\<exists>n. map (tr_call_id \<circ> fst) rs = map call_id (take n calls))
       \<and> (length rs = length calls \<or> aborted cf s')"
proof (induction calls arbitrary: s)
  case (Cons call calls)
  show ?case
  proof (cases "aborted cf s")
    case True
    then show ?thesis by (auto intro!: exI[of _ 0])
  next
    case False
    obtain x s1 where c: "sequential_call cf asst call s = (x, s1)" by fastforce
    show ?thesis
    proof (cases x)
      case (Inl e)
      with c False hoare_error[OF spec_sequential_call _ c[unfolded Inl]] show ?thesis by (simp add: mon_simps)
    next
      case (Inr f)
      have f: "fc_call f = call" using hoare_value[OF spec_sequential_call _ c[unfolded Inr]] by simp
      obtain y s2 where r: "report_result cf f s1 = (y, s2)" by fastforce
      show ?thesis
      proof (cases y)
        case (Inl e)
        with c Inr False r hoare_error[OF spec_report _ r[unfolded Inl]] show ?thesis by (simp add: mon_simps)
      next
        case m: (Inr m)
        have id: "tr_call_id m = call_id call" using hoare_value[OF spec_report _ r[unfolded m]] f by simp
        show ?thesis
        proof (cases "aborted cf s2")
          case True
          with False c Inr r m id show ?thesis by (auto simp: mon_simps intro!: exI[of _ 1])
        next
          case go: False
          obtain z s3 where l: "sequential_loop cf asst calls s2 = (z, s3)" by fastforce
          show ?thesis
          proof (cases z)
            case (Inl e)
            with Cons[of s2] l False c Inr r m go show ?thesis by (simp add: mon_simps)
          next
            case rs: (Inr rs)
            with Cons[of s2] l obtain n where n: "map (tr_call_id \<circ> fst) rs = map call_id (take n calls)"
              and len: "length rs = length calls \<or> aborted cf s3" by auto
            then have "map (tr_call_id \<circ> fst) ((m, f) # rs) = map call_id (take (Suc n) (call # calls))"
              using id by simp
            with len l rs False c Inr r m go show ?thesis by (auto simp: mon_simps simp del: take_Suc_Cons)
          qed
        qed
      qed
    qed
  qed
qed (simp add: mon_simps)

text \<open>C2. A parallel batch that succeeds has one tool result for every call of the assistant
message, in the order of the calls, whatever tasks the runtime polls at its scheduling points:
a tool may start late, be polled many times with the other tasks between, and end in any
order. The batch fails only with an error that the event sink gave or with the join error of a
task that panicked, so every failure of a tool, of its validation or of a hook has become a
tool result, and no task is left unjoined by a batch that succeeds.\<close>

theorem parallel_results_in_order:
  "case execute_tool_calls_parallel cf asst calls s of
     (Inr b, s') \<Rightarrow> map tr_call_id (eb_messages b) = map call_id calls
   | (Inl e, s') \<Rightarrow> batch_error cf e"
  using spec_parallel[where cf = cf and asst = asst and calls = calls] by (auto simp: hoare_def split: prod.splits sum.splits)

text \<open>C23. Whatever the execution mode, the tool results of a batch answer a first part of the
calls in their order, and a call is left without an answer only when the abort signal has
fired; the only errors of a sequential batch are those of the event sink, and of a parallel
one those and the join error of a task that panicked.\<close>

theorem batch_answers_calls:
  "case execute_tool_calls cf asst s of
     (Inr b, s') \<Rightarrow> (\<exists>n. map tr_call_id (eb_messages b) = map call_id (take n (tool_calls asst)))
        \<and> (length (eb_messages b) = length (tool_calls asst) \<or> aborted cf s')
   | (Inl e, s') \<Rightarrow>
       if cf_tool_execution cf = Sequential \<or> has_sequential_tool_call cf (tool_calls asst)
       then sink_error cf e else batch_error cf e"
proof -
  have par: "case execute_tool_calls_parallel cf asst (tool_calls asst) s of
     (Inr b, s') \<Rightarrow> (\<exists>n. map tr_call_id (eb_messages b) = map call_id (take n (tool_calls asst)))
        \<and> (length (eb_messages b) = length (tool_calls asst) \<or> aborted cf s')
   | (Inl e, s') \<Rightarrow> batch_error cf e"
  proof (cases "execute_tool_calls_parallel cf asst (tool_calls asst) s")
    case (Pair v s')
    with spec_parallel[where cf = cf and asst = asst and calls = "tool_calls asst"] show ?thesis
      by (cases v) (auto dest: hoare_value hoare_error map_eq_imp_length_eq
        intro!: exI[of _ "length (tool_calls asst)"])
  qed
  have seq: "case execute_tool_calls_sequential cf asst (tool_calls asst) s of
     (Inr b, s') \<Rightarrow> (\<exists>n. map tr_call_id (eb_messages b) = map call_id (take n (tool_calls asst)))
        \<and> (length (eb_messages b) = length (tool_calls asst) \<or> aborted cf s')
   | (Inl e, s') \<Rightarrow> sink_error cf e"
  proof (cases "sequential_loop cf asst (tool_calls asst) s")
    case (Pair v s')
    with sequential_loop_spec[where cf = cf and asst = asst and calls = "tool_calls asst" and s = s] show ?thesis
      by (cases v) (auto simp: execute_tool_calls_sequential_def mon_simps comp_def)
  qed
  show ?thesis
  proof (cases "cf_tool_execution cf = Sequential \<or> has_sequential_tool_call cf (tool_calls asst)")
    case True
    show ?thesis unfolding execute_tool_calls_def Let_def if_P[OF True] by (rule seq)
  next
    case False
    show ?thesis unfolding execute_tool_calls_def Let_def if_not_P[OF False] by (rule par)
  qed
qed

section \<open>What the steps of a batch keep\<close>

lemma hoare_race:
  assumes "hoare P m Q E" and "\<And>s. P s \<Longrightarrow> E AbortedError s"
    and "\<And>x s. Q x s \<Longrightarrow> E AbortedError s" and "\<And>e s. E e s \<Longrightarrow> E AbortedError s"
  shows "hoare P (race cf m) Q E"
proof (rule hoareI)
  fix s x s' assume "P s" and "race cf m s = (Inr x, s')"
  then have "m s = (Inr x, s')" by (cases "m s") (simp add: race_def split: if_splits)
  with assms(1) \<open>P s\<close> show "Q x s'" by (blast dest: hoare_value)
next
  fix s e s' assume P: "P s" and "race cf m s = (Inl e, s')"
  then consider "e = AbortedError" "s' = s" | r where "m s = (r, s')" "e = AbortedError"
    | "m s = (Inl e, s')"
    by (cases "m s") (simp add: race_def split: if_splits)
  then show "E e s'"
  proof cases
    case 1
    with P assms(2) show ?thesis by simp
  next
    case 2
    with P assms show ?thesis by (cases r) (auto dest: hoare_value hoare_error)
  next
    case 3
    with P assms(1) show ?thesis by (blast dest: hoare_error)
  qed
qed

lemma hoare_race_same: "hoare P m (\<lambda>_. P) (\<lambda>_. P) \<Longrightarrow> hoare P (race cf m) (\<lambda>_. P) (\<lambda>_. P)"
  by (erule hoare_race) auto

lemma hoare_throw_if_aborted: "hoare P (throw_if_aborted cf) (\<lambda>_. P) (\<lambda>_. P)"
  by (simp add: hoare_def throw_if_aborted_def)

lemma hoare_settle:
  "hoare P m (\<lambda>_. P) (\<lambda>_. P) \<Longrightarrow> hoare P (settle_post_turn cf m) (\<lambda>_. P) (\<lambda>_. P)"
  by (fastforce simp: hoare_def settle_post_turn_def match_result_def ret_def split: prod.splits sum.splits)

text \<open>
  The interface between a batch and an invariant of the run: the invariant survives the events
  of tools, the updates that detached emitters send, the detaching itself, and what the tools
  and their hooks do to the world. Then every program of a batch, up to the reporting of its
  results, keeps it, under every schedule.
\<close>

fun tool_event :: "agent_event \<Rightarrow> bool" where
  "tool_event (ToolExecutionStart _ _ _) = True"
| "tool_event (ToolExecutionUpdate _ _ _ _) = True"
| "tool_event (ToolExecutionEnd _ _ _ _) = True"
| "tool_event _ = False"

definition known_tools :: "'w loop_config \<Rightarrow> 'w slot list \<Rightarrow> bool" where
  "known_tools cf sls \<longleftrightarrow> (\<forall>r. Task r \<in> set sls \<longrightarrow> rn_tool r \<in> set (cf_tools cf))"

lemma known_tools_simps [simp]:
  "known_tools cf []" "known_tools cf [Outcome f]"
  "known_tools cf [Task (start_tool call t args)] \<longleftrightarrow> t \<in> set (cf_tools cf)"
  by (simp_all add: known_tools_def start_tool_def)

locale tool_kept =
  fixes cf :: "'w loop_config" and P :: "'w run_state \<Rightarrow> bool"
  assumes late_kept: "P s \<Longrightarrow> P (late_updates cf s)"
    and event_kept: "tool_event ev \<Longrightarrow> P s \<Longrightarrow> P (snd (send cf ev s))"
    and before_kept: "cf_before_tool_call cf = Some bt \<Longrightarrow> P s \<Longrightarrow> P (snd (sync_world (bt bctx) s))"
    and after_kept: "cf_after_tool_call cf = Some af \<Longrightarrow> P s \<Longrightarrow> P (snd (sync_world (af actx) s))"
    and poll_kept: "t \<in> set (cf_tools cf) \<Longrightarrow> P s \<Longrightarrow> P (s\<lparr>st_world := snd (tool_poll t i args (st_world s))\<rparr>)"
    and ready_kept: "t \<in> set (cf_tools cf) \<Longrightarrow> P s \<Longrightarrow> P (s\<lparr>st_world := snd (tool_execute t i args (st_world s))\<rparr>)"
    and detach_kept: "P s \<Longrightarrow>
      P (s\<lparr>st_late := st_late s @ [map (ToolExecutionUpdate i n args) us], st_cut := st_cut s @ [i]\<rparr>)"
begin

abbreviation keeps :: "('w, 'a) agent \<Rightarrow> bool" where
  "keeps m \<equiv> hoare P m (\<lambda>_. P) (\<lambda>_. P)"

lemma keeps_all: "(\<And>s. P s \<Longrightarrow> P (snd (m s))) \<Longrightarrow> keeps m"
  by (rule hoareI) (metis snd_conv)+

lemma keeps_snd: "keeps m \<Longrightarrow> P s \<Longrightarrow> P (snd (m s))"
  by (cases "m s"; cases "fst (m s)") (auto dest: hoare_value hoare_error)

lemma keeps_emit: "tool_event ev \<Longrightarrow> keeps (emit cf ev)"
  unfolding emit_def by (rule keeps_all) (simp add: event_kept late_kept)

lemma keeps_bnd: "keeps m \<Longrightarrow> (\<And>x. keeps (f x)) \<Longrightarrow> keeps (bnd m f)"
  by (rule hoare_bnd)

lemma keeps_thn: "keeps m \<Longrightarrow> keeps k \<Longrightarrow> keeps (thn m k)"
  by (rule hoare_thn)

lemma keeps_thn_then: "keeps m \<Longrightarrow> hoare P k Q (\<lambda>_. P) \<Longrightarrow> hoare P (thn m k) Q (\<lambda>_. P)"
  by (rule hoare_thn)

lemma keeps_ret: "keeps (ret x)"
  by (rule hoare_ret)

lemma keeps_gets: "keeps (gets f)"
  by (rule hoare_gets)

lemma keeps_match: "keeps m \<Longrightarrow> (\<And>x. keeps (f x)) \<Longrightarrow> (\<And>e. keeps (h e)) \<Longrightarrow> keeps (match_result m f h)"
  by (rule hoare_match_result)

lemma keeps_hooks:
  "cf_before_tool_call cf = Some bt \<Longrightarrow> keeps (race cf (in_world cf (bt bctx)))"
  "cf_after_tool_call cf = Some af \<Longrightarrow> keeps (race cf (in_world cf (af actx)))"
  unfolding in_world_def by (intro hoare_race_same keeps_all; simp add: late_kept before_kept after_kept)+

lemma keeps_end: "keeps (emit_tool_execution_end cf f)"
  by (simp add: emit_tool_execution_end_def keeps_emit)

lemma keeps_prepare: "keeps (prepare_tool_call cf asst call)"
  unfolding prepare_tool_call_def prepare_tool_call_inner_def Let_def
  by (auto intro!: keeps_match keeps_ret keeps_bnd keeps_gets keeps_hooks hoare_fail
      split: option.split sum.split)

lemma prepared_tool:
  "prepare_tool_call cf asst call s = (Inr (Prepared call' t args), s') \<Longrightarrow> t \<in> set (cf_tools cf)"
  by (auto simp: prepare_tool_call_def prepare_tool_call_inner_def find_tool_def find_Some_iff mon_simps Let_def
      split: option.splits sum.splits prod.splits if_splits)

lemma hoare_prepare:
  "hoare P (prepare_tool_call cf asst call)
     (\<lambda>p s. P s \<and> (\<forall>call' t args. p = Prepared call' t args \<longrightarrow> t \<in> set (cf_tools cf))) (\<lambda>_. P)"
proof (rule hoareI)
  fix s p s' assume "P s" and p: "prepare_tool_call cf asst call s = (Inr p, s')"
  then have "P s'" using hoare_value[OF keeps_prepare] by blast
  with p show "P s' \<and> (\<forall>call' t args. p = Prepared call' t args \<longrightarrow> t \<in> set (cf_tools cf))"
    by (auto dest: prepared_tool)
next
  fix s e s' assume "P s" and "prepare_tool_call cf asst call s = (Inl e, s')"
  then show "P s'" using hoare_error[OF keeps_prepare] by blast
qed

lemma kept_detach: "P s \<Longrightarrow> P (snd (detach_emitter r s))"
  using detach_kept by (simp add: detach_emitter_def update_event_def[abs_def])

lemma kept_emitter_step: "P s \<Longrightarrow> P (snd (emitter_step cf r s))"
proof (cases "rn_pending r")
  case (Cons u us)
  assume "P s"
  then have "P (snd (send cf (update_event r u) s))" by (intro event_kept) (simp_all add: update_event_def)
  with \<open>P s\<close> Cons show ?thesis
    by (auto simp: emitter_step_def split: option.split prod.split sum.split)
qed (simp add: emitter_step_def)

lemma kept_main_step:
  assumes tool: "rn_tool r \<in> set (cf_tools cf)" and s: "P s"
  shows "P (snd (main_step cf r s))"
  using poll_kept[OF tool s, of "call_id (rn_call r)" "rn_args r"]
    ready_kept[OF tool s, of "call_id (rn_call r)" "rn_args r"] s
  by (auto simp: main_step_def Let_def kept_detach kept_emitter_step split: stage.split nat.split prod.splits)

lemma kept_call_step: "rn_tool r \<in> set (cf_tools cf) \<Longrightarrow> P s \<Longrightarrow> P (snd (call_step cf r s))"
  by (simp add: call_step_def Let_def kept_main_step kept_emitter_step late_kept)

lemma kept_run_call: "rn_tool r \<in> set (cf_tools cf) \<Longrightarrow> P s \<Longrightarrow> P (snd (run_call cf r s))"
proof (induction r arbitrary: s rule: wf_induct_rule[OF wf_call_less])
  case (1 r)
  show ?case
  proof (cases "stage_rank (rn_stage r) = 0")
    case False
    have "P (snd (run_call cf (fst (call_step cf r s)) (snd (call_step cf r s))))"
      using "1.prems" False by (intro "1.IH") (simp_all add: call_step_less kept_call_step)
    with False show ?thesis by (subst run_call.simps) (simp add: split_beta)
  qed (use "1.prems" in \<open>subst run_call.simps, simp\<close>)
qed

lemma keeps_complete: "keeps (complete_call cf asst r)"
proof -
  have finalize: "keeps (finalize_call cf asst r ex)" for ex
    unfolding finalize_call_def
    by (auto intro!: keeps_ret keeps_bnd keeps_gets keeps_match keeps_hooks split: option.split prod.split)
  show ?thesis
    unfolding complete_call_def
    by (rule hoare_state) (intro keeps_bnd finalize keeps_thn keeps_end keeps_ret)
qed

lemma hoare_awaited: "(\<And>s. P s \<Longrightarrow> P (snd (f s)) \<and> R (fst (f s))) \<Longrightarrow> hoare P (awaited f) (\<lambda>x s. P s \<and> R x) (\<lambda>_. P)"
  by (simp add: hoare_def awaited_def split_beta)

lemma running_prepared:
  assumes "\<And>res err. hoare P (f res err) Q (\<lambda>_. P)"
    and "\<And>call' t args. t \<in> set (cf_tools cf) \<Longrightarrow> hoare P (g call' t args) Q (\<lambda>_. P)"
  shows "hoare (\<lambda>s. P s \<and> (\<forall>call' t args. p = Prepared call' t args \<longrightarrow> t \<in> set (cf_tools cf)))
     (case p of Immediate res err \<Rightarrow> f res err | Prepared call' t args \<Rightarrow> g call' t args) Q (\<lambda>_. P)"
proof (cases p)
  case (Prepared call' t args)
  with assms show ?thesis by (cases "t \<in> set (cf_tools cf)") (simp_all add: hoare_def)
qed (use assms in \<open>simp add: hoare_def\<close>)

lemma keeps_sequential_call: "keeps (sequential_call cf asst call)"
proof -
  have run: "keeps (bnd (awaited (run_call cf (start_tool call' t args))) (complete_call cf asst))"
    if "t \<in> set (cf_tools cf)" for call' t args
    by (intro keeps_bnd keeps_all keeps_complete)
       (use that in \<open>simp add: awaited_def split_beta kept_run_call start_tool_def\<close>)
  show ?thesis
    unfolding sequential_call_def emit_tool_execution_start_def Let_def
    by (rule keeps_thn[OF keeps_emit], simp, rule hoare_bnd[OF hoare_prepare], rule running_prepared)
       (auto intro!: run keeps_thn keeps_end keeps_ret)
qed

lemma kept_slot_step:
  assumes "known_tools cf [sl]" and "P s"
  shows "P (snd (slot_step cf asst sl s)) \<and> known_tools cf [fst (slot_step cf asst sl s)]"
proof (cases sl)
  case (Task r)
  then have tool: "rn_tool r \<in> set (cf_tools cf)" using assms(1) by (simp add: known_tools_def)
  have "P (snd (complete_call cf asst r s))" using keeps_complete assms(2) by (rule keeps_snd)
  moreover have "P (snd (call_step cf r s))" "rn_tool (fst (call_step cf r s)) \<in> set (cf_tools cf)"
    using tool assms(2) by (simp_all add: kept_call_step)
  ultimately show ?thesis
    using Task assms(2) kept_detach
    by (auto simp: slot_step_def known_tools_def split: option.splits prod.splits sum.splits
        dest: call_step_result)
qed (use assms in \<open>simp_all add: slot_step_def\<close>)

lemma kept_step_at:
  "known_tools cf sls \<Longrightarrow> P s \<Longrightarrow>
   P (snd (step_at cf asst i sls s)) \<and> known_tools cf (fst (step_at cf asst i sls s))"
  using kept_slot_step[of "sls ! i" s asst]
  by (auto simp: step_at_def known_tools_def split_beta dest!: set_update_subset_insert[THEN subsetD])

lemma kept_schedule:
  "known_tools cf sls \<Longrightarrow> P s \<Longrightarrow>
   P (snd (run_schedule cf asst is sls s)) \<and> known_tools cf (fst (run_schedule cf asst is sls s))"
proof (induction "is" arbitrary: sls s)
  case (Cons i "is")
  from kept_step_at[OF Cons.prems] Cons.IH show ?case by (simp add: split_beta)
qed simp

lemma kept_yield:
  "known_tools cf sls \<Longrightarrow> P s \<Longrightarrow>
   P (snd (yield_tasks cf asst sls s)) \<and> known_tools cf (fst (yield_tasks cf asst sls s))"
  unfolding yield_tasks_def by (rule kept_schedule)

lemma kept_await:
  "known_tools cf sls \<Longrightarrow> P s \<Longrightarrow>
   P (snd (await_slot cf asst i sls s)) \<and> known_tools cf (fst (await_slot cf asst i sls s))"
proof (induction "sls ! i" arbitrary: sls s rule: wf_induct_rule[OF wf_slot_less])
  case 1
  show ?case
  proof (cases "i < length sls \<and> is_task (sls ! i)")
    case True
    let ?y = "yield_tasks cf asst sls s"
    let ?z = "step_at cf asst i (fst ?y) (snd ?y)"
    have z: "P (snd ?z) \<and> known_tools cf (fst ?z)"
      using kept_yield[OF "1.prems", of asst] by (intro kept_step_at) simp_all
    have "(fst ?z ! i, sls ! i) \<in> slot_less" using True by (intro round_less) simp_all
    from "1.hyps"[OF this] z True show ?thesis by (subst (1 2) await_slot.simps) (simp add: split_beta)
  qed (use "1.prems" in \<open>simp add: await_slot_ready\<close>)
qed

lemma keeps_spawn:
  "known_tools cf sls \<Longrightarrow>
   hoare P (parallel_spawn cf asst calls sls) (\<lambda>sls' s. P s \<and> known_tools cf sls') (\<lambda>_. P)"
proof (induction calls arbitrary: sls)
  case (Cons call calls)
  have yield: "hoare P (awaited (yield_tasks cf asst sls')) (\<lambda>x s. P s \<and> known_tools cf x) (\<lambda>_. P)"
    if "known_tools cf sls'" for sls'
    using that by (intro hoare_awaited kept_yield)
  have on: "hoare (\<lambda>s. P s \<and> known_tools cf x) m Q (\<lambda>_. P)" if "known_tools cf x \<Longrightarrow> hoare P m Q (\<lambda>_. P)"
    for x :: "'w slot list" and m :: "('w, 'w slot list) agent" and Q
    using that by (cases "known_tools cf x") (simp_all add: hoare_def)
  have more: "hoare P (parallel_spawn cf asst calls (sls' @ [sl])) (\<lambda>sls' s. P s \<and> known_tools cf sls') (\<lambda>_. P)"
    if "known_tools cf sls'" "known_tools cf [sl]" for sls' sl
    using that by (intro Cons.IH) (auto simp: known_tools_def)
  have spawn: "hoare P (bnd (awaited (yield_tasks cf asst sls1)) (\<lambda>sls2. case p of
        Immediate res err \<Rightarrow>
          (let f = \<lparr>fc_call = call, fc_result = res, fc_is_error = err\<rparr>
           in thn (emit_tool_execution_end cf f) (parallel_spawn cf asst calls (sls2 @ [Outcome f])))
      | Prepared call' tool args \<Rightarrow>
          parallel_spawn cf asst calls (sls2 @ [Task (start_tool call' tool args)])))
      (\<lambda>sls' s. P s \<and> known_tools cf sls') (\<lambda>_. P)"
    if "known_tools cf sls1" and "\<forall>call' t args. p = Prepared call' t args \<longrightarrow> t \<in> set (cf_tools cf)" for sls1 p
    by (rule hoare_bnd[OF yield[OF that(1)]], rule on)
       (use that(2) in \<open>auto split: preparation.split simp: Let_def
          intro!: more hoare_thn[OF keeps_end]\<close>)
  have prepared: "hoare P (bnd (prepare_tool_call cf asst call) (\<lambda>p. bnd (awaited (yield_tasks cf asst sls1)) (\<lambda>sls2. case p of
        Immediate res err \<Rightarrow>
          (let f = \<lparr>fc_call = call, fc_result = res, fc_is_error = err\<rparr>
           in thn (emit_tool_execution_end cf f) (parallel_spawn cf asst calls (sls2 @ [Outcome f])))
      | Prepared call' tool args \<Rightarrow>
          parallel_spawn cf asst calls (sls2 @ [Task (start_tool call' tool args)]))))
      (\<lambda>sls' s. P s \<and> known_tools cf sls') (\<lambda>_. P)" if "known_tools cf sls1" for sls1
  proof (rule hoare_bnd[OF hoare_prepare])
    fix p
    let ?ok = "\<forall>call' t args. p = Prepared call' t args \<longrightarrow> t \<in> set (cf_tools cf)"
    show "hoare (\<lambda>s. P s \<and> ?ok) (bnd (awaited (yield_tasks cf asst sls1)) (\<lambda>sls2. case p of
        Immediate res err \<Rightarrow>
          (let f = \<lparr>fc_call = call, fc_result = res, fc_is_error = err\<rparr>
           in thn (emit_tool_execution_end cf f) (parallel_spawn cf asst calls (sls2 @ [Outcome f])))
      | Prepared call' tool args \<Rightarrow>
          parallel_spawn cf asst calls (sls2 @ [Task (start_tool call' tool args)])))
      (\<lambda>sls' s. P s \<and> known_tools cf sls') (\<lambda>_. P)"
      by (cases ?ok) (use spawn[OF that] in \<open>simp_all add: hoare_def\<close>)
  qed
  show ?case
    unfolding parallel_spawn.simps emit_tool_execution_start_def
    by (rule keeps_thn_then, rule keeps_emit, simp, rule hoare_bnd[OF yield[OF Cons.prems]], rule on, rule prepared)
qed (simp add: hoare_ret)

lemma keeps_join: "known_tools cf sls \<Longrightarrow> keeps (parallel_join cf asst is sls)"
proof (induction "is" arbitrary: sls)
  case (Cons i "is")
  have "hoare (\<lambda>s. P s \<and> known_tools cf sls') (case slot_value (sls' ! i) of
         Inl e \<Rightarrow> fail e
       | Inr f \<Rightarrow> bnd (parallel_join cf asst is sls') (\<lambda>fs. ret (f # fs))) (\<lambda>_. P) (\<lambda>_. P)" for sls'
  proof (cases "known_tools cf sls'")
    case True
    then show ?thesis
      using keeps_bnd[OF Cons.IH[OF True] keeps_ret] by (auto split: sum.split intro: hoare_fail)
  qed (simp add: hoare_def)
  then show ?case
    unfolding parallel_join.simps
    by (rule hoare_bnd[OF hoare_awaited[where R = "known_tools cf"], rotated]) (rule kept_await[OF Cons.prems])
qed (simp add: keeps_ret)

end

end
