(* ===== verification/AgentRun.thy ===== *)
theory AgentRun
  imports AgentLoop ToolBatch
begin

text \<open>
  What a run of the agent loop guarantees. An automaton over the emitted events says what an
  event sequence of a run looks like; the run invariant relates the events, the context and
  the messages of the run. The locale \<open>loop_env\<close> names what the loop relies on of its event
  sink and of its model stream.
\<close>

section \<open>The protocol of the events\<close>

datatype phase = PBefore | PGap | PTurn | POpen | PAfter

text \<open>
  \<open>PGap\<close> lies between turns, \<open>PTurn\<close> inside a turn, \<open>POpen\<close> inside a message.
\<close>

fun advance :: "phase \<Rightarrow> agent_event \<Rightarrow> phase option" where
  "advance PBefore AgentStart = Some PGap"
| "advance PGap TurnStart = Some PTurn"
| "advance PTurn (MessageStart _) = Some POpen"
| "advance POpen (MessageUpdate _ _) = Some POpen"
| "advance POpen (MessageEnd _) = Some PTurn"
| "advance PTurn (ToolExecutionStart _ _ _) = Some PTurn"
| "advance PTurn (ToolExecutionUpdate _ _ _ _) = Some PTurn"
| "advance PTurn (ToolExecutionEnd _ _ _ _) = Some PTurn"
| "advance PTurn (TurnEnd _ _) = Some PGap"
| "advance PGap (AgentEnd _) = Some PAfter"
| "advance _ _ = None"

fun accepts :: "phase \<Rightarrow> agent_event list \<Rightarrow> phase option" where
  "accepts p [] = Some p"
| "accepts p (ev # evs) = (case advance p ev of None \<Rightarrow> None | Some q \<Rightarrow> accepts q evs)"

fun message_of :: "agent_event \<Rightarrow> agent_message list" where
  "message_of (MessageEnd m) = [m]"
| "message_of _ = []"

text \<open>The messages the listeners have seen end, in order.\<close>

definition transcript :: "agent_event list \<Rightarrow> agent_message list" where
  "transcript tr = concat (map message_of tr)"

lemma accepts_snoc: "accepts p (tr @ [ev]) = Option.bind (accepts p tr) (\<lambda>q. advance q ev)"
  by (induction p tr rule: accepts.induct) (auto split: option.splits)

lemma transcript_snoc [simp]: "transcript (tr @ [ev]) = transcript tr @ message_of ev"
  by (simp add: transcript_def)

lemma accepts_append: "accepts p (xs @ ys) = Option.bind (accepts p xs) (\<lambda>q. accepts q ys)"
  by (induction p xs rule: accepts.induct) (auto split: option.splits)

lemma transcript_append: "transcript (xs @ ys) = transcript xs @ transcript ys"
  by (simp add: transcript_def)

lemma transcript_Cons [simp]: "transcript (ev # evs) = message_of ev @ transcript evs"
  by (simp add: transcript_def)

lemma transcript_Nil [simp]: "transcript [] = []"
  by (simp add: transcript_def)

text \<open>The protocol of a model stream: one start first, deltas only after it.\<close>

fun stream_ok :: "bool \<Rightarrow> stream_event list \<Rightarrow> bool" where
  "stream_ok started [] = True"
| "stream_ok started (EvStart _ # evs) = (\<not> started \<and> stream_ok True evs)"
| "stream_ok started (EvDone _ _ # evs) = True"
| "stream_ok started (EvError _ _ # evs) = True"
| "stream_ok started (ev # evs) = (started \<and> stream_ok started evs)"

section \<open>The run invariant\<close>

text \<open>
  \<open>run_inv base p t1 t2\<close>: the events so far form a run in phase \<open>p\<close>; the listeners have
  seen the messages of the run followed by \<open>t1\<close>, and the context holds \<open>base\<close>, the
  messages of the run and \<open>t2\<close>.
\<close>

definition run_inv ::
    "agent_message list \<Rightarrow> phase \<Rightarrow> agent_message list \<Rightarrow> agent_message list \<Rightarrow> 'w run_state \<Rightarrow> bool" where
  "run_inv base p t1 t2 s \<longleftrightarrow>
     accepts PBefore (st_trace s) = Some p
     \<and> transcript (st_trace s) = st_new s @ t1
     \<and> st_messages s = base @ st_new s @ t2"

text \<open>Predicates that do not look at the world or at the locals of the response.\<close>

definition world_free :: "('w run_state \<Rightarrow> bool) \<Rightarrow> bool" where
  "world_free P \<longleftrightarrow> (\<forall>s w h l. P (s\<lparr>st_world := w, st_heard := h, st_late := l\<rparr>) = P s)"

lemma late_updates_world:
  obtains w h l where "late_updates cf s = s\<lparr>st_world := w, st_heard := h, st_late := l\<rparr>"
proof -
  have one: "\<exists>w h l. send_late_one cf i s = s\<lparr>st_world := w, st_heard := h, st_late := l\<rparr>" for i s
    by (cases s) (auto simp: send_late_one_def split: list.split prod.split)
  have "\<exists>w h l. fold (send_late_one cf) is s = s\<lparr>st_world := w, st_heard := h, st_late := l\<rparr>" for "is"
  proof (induction "is" arbitrary: s)
    case (Cons i "is")
    obtain w h l where 1: "send_late_one cf i s = s\<lparr>st_world := w, st_heard := h, st_late := l\<rparr>"
      using one by blast
    with Cons[of "send_late_one cf i s"] show ?case by auto
  next
    case Nil
    show ?case by (cases s) auto
  qed
  with that show ?thesis unfolding late_updates_def by blast
qed

lemma late_updates_free: "world_free P \<Longrightarrow> P (late_updates cf s) = P s"
  by (rule late_updates_world[of cf s]) (simp add: world_free_def)

lemma run_inv_updates [simp]:
  "run_inv base p t1 t2 (s\<lparr>st_world := w\<rparr>) = run_inv base p t1 t2 s"
  "run_inv base p t1 t2 (s\<lparr>st_added := b\<rparr>) = run_inv base p t1 t2 s"
  "run_inv base p t1 t2 (s\<lparr>st_partial := m\<rparr>) = run_inv base p t1 t2 s"
  "run_inv base p t1 t2 (s\<lparr>st_heard := h\<rparr>) = run_inv base p t1 t2 s"
  "run_inv base p t1 t2 (s\<lparr>st_late := l\<rparr>) = run_inv base p t1 t2 s"
  "run_inv base p t1 t2 (s\<lparr>st_cut := c\<rparr>) = run_inv base p t1 t2 s"
  by (simp_all add: run_inv_def)

lemma world_free_run_inv [simp]: "world_free (run_inv base p t1 t2)"
  by (simp add: world_free_def)

lemma run_inv_late [simp]: "run_inv base p t1 t2 (late_updates cf s) = run_inv base p t1 t2 s"
  by (rule late_updates_free) simp

lemma world_freeD: "world_free P \<Longrightarrow> P s \<Longrightarrow> P (s\<lparr>st_world := w\<rparr>)"
proof -
  assume "world_free P" and "P s"
  then have "P (s\<lparr>st_world := w, st_heard := st_heard s, st_late := st_late s\<rparr>)" unfolding world_free_def by blast
  then show ?thesis by (cases s) simp
qed

lemma hoare_sync_world: "world_free P \<Longrightarrow> hoare P (sync_world f) (\<lambda>_. P) (\<lambda>_. P)"
  by (rule hoareI) (auto simp: sync_world_def split: prod.splits intro: world_freeD)

lemma hoare_in_world: "world_free P \<Longrightarrow> hoare P (in_world cf f) (\<lambda>_. P) (\<lambda>_. P)"
  using hoare_sync_world[of P f] by (simp add: in_world_def hoare_def late_updates_free)

lemma hoare_poll:
  "world_free P \<Longrightarrow> hoare P (poll_messages_unless_aborted cf poll) (\<lambda>_. P) (\<lambda>_. P)"
proof (cases poll)
  case (Some p)
  assume "world_free P"
  then have "hoare P (race cf (in_world cf p)) (\<lambda>_. P) (\<lambda>_. P)"
    by (intro hoare_race_same hoare_in_world)
  with Some show ?thesis by (simp add: poll_messages_unless_aborted_def hoare_def)
qed (simp add: poll_messages_unless_aborted_def hoare_ret)

lemma hoare_should_stop:
  "world_free P \<Longrightarrow> hoare P (should_stop_before_turn cf b) (\<lambda>_. P) (\<lambda>_. P)"
  by (auto simp: should_stop_before_turn_def intro!: hoare_if hoare_ret hoare_sync_world hoare_case_option)

lemma hoare_any: "(\<And>x s. Q x s) \<Longrightarrow> (\<And>e s. E e s) \<Longrightarrow> hoare P m Q E"
  by (rule hoareI) auto

section \<open>What the loop relies on\<close>

text \<open>
  The sink never fails with the abort marker (a listener's failure is an error of the run,
  not an abort of it), and the streams follow the protocol of \<open>stream.rs\<close>.
\<close>

locale loop_env =
  fixes cf :: "'w loop_config"
  assumes sink_not_abort: "cf_sink cf ev w = (Inl e, w') \<Longrightarrow> e \<noteq> AbortedError"
    and stream_protocol:
      "cf_stream_fn cf = Some f \<Longrightarrow> f req w = (Inr ms, w') \<Longrightarrow> stream_ok False (sm_events ms)"
begin

lemma hoare_emit:
  assumes "advance p ev = Some q"
  shows "hoare (run_inv base p t1 t2) (emit cf ev)
           (\<lambda>_. run_inv base q (t1 @ message_of ev) t2) (\<lambda>e s. e \<noteq> AbortedError)"
proof -
  have "hoare (run_inv base p t1 t2) (send cf ev)
      (\<lambda>_. run_inv base q (t1 @ message_of ev) t2) (\<lambda>e s. e \<noteq> AbortedError)"
    using assms sink_not_abort
    by (intro hoareI) (auto simp: send_def run_inv_def accepts_snoc split: prod.splits)
  then show ?thesis by (simp add: emit_def hoare_def)
qed

lemma hoare_emit_any:
  assumes "advance p ev = Some q"
  shows "hoare (run_inv base p t1 t2) (emit cf ev)
           (\<lambda>_. run_inv base q (t1 @ message_of ev) t2) (\<lambda>_ _. True)"
  using hoare_emit[OF assms] by (rule hoare_conseq) auto

lemma emit_error_not_abort: "emit cf ev s = (Inl e, s') \<Longrightarrow> e \<noteq> AbortedError"
  by (auto simp: emit_def send_def dest: sink_not_abort split: prod.splits)

lemma emit_trace: "emit cf ev s = (r, s') \<Longrightarrow> st_trace s' = st_trace s @ [ev]"
  by (rule late_updates_world[of cf s]) (auto simp: emit_def send_def split: prod.splits)

lemma emit_frame [simp]:
  "emit cf ev s = (r, s') \<Longrightarrow> st_new s' = st_new s \<and> st_messages s' = st_messages s
     \<and> st_added s' = st_added s \<and> st_partial s' = st_partial s"
  by (rule late_updates_world[of cf s]) (auto simp: emit_def send_def split: prod.splits)

text \<open>The state while a response is streamed: a partial is open in the context, or nothing is.\<close>

definition stream_inv :: "agent_message list \<Rightarrow> 'w run_state \<Rightarrow> bool" where
  "stream_inv base s \<longleftrightarrow>
     (if st_added s then \<exists>m. run_inv base POpen [] [m] s else run_inv base PTurn [] [] s)"

lemma world_free_stream_inv [simp]: "world_free (stream_inv base)"
  by (simp add: world_free_def stream_inv_def)

lemma hoare_deliver_final:
  "hoare (stream_inv base) (deliver_final cf m)
     (\<lambda>m'. run_inv base PTurn [from_assistant m'] [from_assistant m'])
     (\<lambda>e s. e \<noteq> AbortedError)"
proof -
  have replace: "hoare (\<lambda>s. stream_inv base s \<and> st_added s) (replace_last_message (from_assistant m))
      (\<lambda>_. run_inv base POpen [] [from_assistant m]) (\<lambda>e s. e \<noteq> AbortedError)"
    by (auto simp: replace_last_message_def stream_inv_def run_inv_def butlast_append intro!: hoare_upd)
  have push: "hoare (\<lambda>s. stream_inv base s \<and> \<not> st_added s) (push_message (from_assistant m))
      (\<lambda>_. run_inv base PTurn [] [from_assistant m]) (\<lambda>e s. e \<noteq> AbortedError)"
    by (auto simp: push_message_def stream_inv_def run_inv_def intro!: hoare_upd)
  have start: "hoare (run_inv base PTurn [] [from_assistant m]) (emit cf (MessageStart (from_assistant m)))
      (\<lambda>_. run_inv base POpen [] [from_assistant m]) (\<lambda>e s. e \<noteq> AbortedError)"
    using hoare_emit[of PTurn "MessageStart (from_assistant m)" POpen base "[]"] by simp
  have finish: "hoare (run_inv base POpen [] [from_assistant m])
      (thn (emit cf (MessageEnd (from_assistant m))) (ret m))
      (\<lambda>m'. run_inv base PTurn [from_assistant m'] [from_assistant m']) (\<lambda>e s. e \<noteq> AbortedError)"
    using hoare_emit[of POpen "MessageEnd (from_assistant m)" PTurn base "[]" "[from_assistant m]"]
    by (auto intro!: hoare_thn hoare_ret)
  have "hoare (\<lambda>s. stream_inv base s \<and> st_added s = added)
      (thn (if added then replace_last_message (from_assistant m)
            else thn (push_message (from_assistant m)) (emit cf (MessageStart (from_assistant m))))
           (thn (emit cf (MessageEnd (from_assistant m))) (ret m)))
      (\<lambda>m'. run_inv base PTurn [from_assistant m'] [from_assistant m']) (\<lambda>e s. e \<noteq> AbortedError)" for added
    using replace hoare_thn[OF push start] finish by (cases added) (auto intro: hoare_thn)
  then show ?thesis
    unfolding deliver_final_def by (rule hoare_bnd[rotated]) (auto intro: hoare_gets)
qed

text \<open>Reading the stream: the invariant of an open response holds whenever the abort marker is raised.\<close>

lemma hoare_next_event:
  assumes "world_free P"
  shows "hoare P (next_event cf) (\<lambda>_. P) (\<lambda>_. P)"
  unfolding next_event_def
proof (rule hoare_match_result[where R = "\<lambda>_. P" and F = "\<lambda>_. P"])
  show "hoare P (race cf (in_world cf (\<lambda>w. (Inr (), cf_wait cf w)))) (\<lambda>_. P) (\<lambda>_. P)"
    using assms by (intro hoare_race_same hoare_in_world)
  show "hoare P (thn (upd (\<lambda>s. s\<lparr>st_world := cf_stream_close cf (st_world s)\<rparr>)) (fail e)) (\<lambda>_. P) (\<lambda>_. P)"
    for e
    by (rule hoare_thn[where R = P]) (use assms in \<open>auto intro: hoare_upd hoare_fail world_freeD\<close>)
qed (rule hoare_ret)

lemma hoare_stream_result:
  "world_free P \<Longrightarrow> hoare P (stream_result cf r) (\<lambda>_. P) (\<lambda>_. P)"
  unfolding stream_result_def by (intro hoare_race_same hoare_in_world)

lemma hoare_resolve_final:
  "world_free P \<Longrightarrow> hoare P (resolve_final cf m r) (\<lambda>_. P) (\<lambda>_. P)"
  unfolding resolve_final_def
  by (rule hoare_match_result[where R = "\<lambda>_. P" and F = "\<lambda>_. P"],
      erule hoare_stream_result, rule hoare_ret, assumption, simp add: hoare_def)

abbreviation abort_keeps :: "agent_message list \<Rightarrow> agent_error \<Rightarrow> 'w run_state \<Rightarrow> bool" where
  "abort_keeps base e s \<equiv> (e = AbortedError \<longrightarrow> stream_inv base s)"

abbreviation delivered :: "agent_message list \<Rightarrow> assistant_message \<Rightarrow> 'w run_state \<Rightarrow> bool" where
  "delivered base m \<equiv> run_inv base PTurn [from_assistant m] [from_assistant m]"

lemma hoare_deliver: "hoare (stream_inv base) (deliver_final cf m) (delivered base) (abort_keeps base)"
  using hoare_deliver_final by (rule hoare_conseq) auto

definition reading :: "agent_message list \<Rightarrow> bool \<Rightarrow> 'w run_state \<Rightarrow> bool" where
  "reading base started s \<longleftrightarrow> stream_inv base s \<and> st_added s = started"

lemma world_free_reading [simp]: "world_free (reading base started)"
  using world_free_stream_inv by (simp add: world_free_def reading_def)

lemma reading_abort_keeps: "reading base started s \<Longrightarrow> abort_keeps base e s"
  by (simp add: reading_def)

lemma hoare_read_start:
  assumes "hoare (reading base True) k (delivered base) (abort_keeps base)"
  shows "hoare (reading base False)
    (thn (upd (\<lambda>s. s\<lparr>st_added := True\<rparr>))
      (thn (push_message (from_assistant m))
        (thn (set_partial m) (thn (emit cf (MessageStart (from_assistant m))) k))))
    (delivered base) (abort_keeps base)"
proof -
  let ?mid = "\<lambda>s. run_inv base PTurn [] [from_assistant m] s \<and> st_added s"
  have "hoare (reading base False) (upd (\<lambda>s. s\<lparr>st_added := True\<rparr>))
      (\<lambda>_ s. run_inv base PTurn [] [] s \<and> st_added s) (abort_keeps base)"
    by (auto simp: reading_def stream_inv_def intro: hoare_upd)
  moreover have "hoare (\<lambda>s. run_inv base PTurn [] [] s \<and> st_added s) (push_message (from_assistant m))
      (\<lambda>_. ?mid) (abort_keeps base)"
    by (auto simp: push_message_def run_inv_def intro!: hoare_upd)
  moreover have "hoare ?mid (set_partial m) (\<lambda>_. ?mid) (abort_keeps base)"
    by (auto simp: set_partial_def intro!: hoare_upd)
  moreover have "hoare ?mid (emit cf (MessageStart (from_assistant m))) (\<lambda>_. reading base True) (abort_keeps base)"
  proof (rule hoareI)
    fix s x s' assume mid: "?mid s" and run: "emit cf (MessageStart (from_assistant m)) s = (Inr x, s')"
    then have "run_inv base POpen [] [from_assistant m] s'"
      using hoare_value[OF hoare_emit[of PTurn "MessageStart (from_assistant m)" POpen base "[]" "[from_assistant m]"]]
      by fastforce
    with mid run show "reading base True s'" by (auto simp: reading_def stream_inv_def)
  next
    fix s e s' assume "?mid s" and "emit cf (MessageStart (from_assistant m)) s = (Inl e, s')"
    then show "abort_keeps base e s'"
      using hoare_error[OF hoare_emit[of PTurn "MessageStart (from_assistant m)" POpen base "[]" "[from_assistant m]"]]
      by fastforce
  qed
  ultimately show ?thesis using assms by (blast intro: hoare_thn)
qed

lemma hoare_read_delta:
  assumes "hoare (reading base True) k (delivered base) (abort_keeps base)"
  shows "hoare (reading base True)
    (thn (set_partial m) (thn (emit cf (MessageUpdate (from_assistant m) ev)) k))
    (delivered base) (abort_keeps base)"
proof -
  have "hoare (reading base True) (set_partial m) (\<lambda>_. reading base True) (abort_keeps base)"
    by (auto simp: set_partial_def reading_def stream_inv_def intro!: hoare_upd)
  moreover have "hoare (reading base True) (emit cf (MessageUpdate (from_assistant m) ev))
      (\<lambda>_. reading base True) (abort_keeps base)"
  proof (rule hoareI)
    fix s x s' assume r: "reading base True s" and run: "emit cf (MessageUpdate (from_assistant m) ev) s = (Inr x, s')"
    then obtain m0 where "run_inv base POpen [] [m0] s" by (auto simp: reading_def stream_inv_def)
    then have "run_inv base POpen ([] @ message_of (MessageUpdate (from_assistant m) ev)) [m0] s'"
      using run by (intro hoare_value[OF hoare_emit]) (simp_all del: append_Nil)
    with r emit_frame[OF run] show "reading base True s'" by (auto simp: reading_def stream_inv_def)
  next
    fix s e s' assume "reading base True s" and run: "emit cf (MessageUpdate (from_assistant m) ev) s = (Inl e, s')"
    then show "abort_keeps base e s'"
      using emit_error_not_abort[OF run] by simp
  qed
  ultimately show ?thesis using assms by (blast intro: hoare_thn)
qed

lemma hoare_read_terminal:
  "hoare (reading base started) (bnd (resolve_final cf m r) (deliver_final cf)) (delivered base) (abort_keeps base)"
proof (rule hoare_bnd)
  show "hoare (reading base started) (resolve_final cf m r) (\<lambda>_. reading base started) (abort_keeps base)"
    using hoare_resolve_final[OF world_free_reading] by (rule hoare_conseq) (auto simp: reading_def)
  show "hoare (reading base started) (deliver_final cf m') (delivered base) (abort_keeps base)" for m'
    using hoare_deliver by (rule hoare_pre) (auto simp: reading_def)
qed

lemma hoare_next_reading:
  "hoare (reading base started) (next_event cf) (\<lambda>_. reading base started) (abort_keeps base)"
  using hoare_next_event[OF world_free_reading] by (rule hoare_conseq) (auto simp: reading_def)

lemma hoare_read_stream:
  "stream_ok started evs \<Longrightarrow>
   hoare (reading base started) (read_stream cf evs r) (delivered base) (abort_keeps base)"
proof (induction started evs rule: stream_ok.induct)
  case (1 started)
  have "hoare (reading base started) (bnd (stream_result cf r) (deliver_final cf)) (delivered base) (abort_keeps base)"
  proof (rule hoare_bnd)
    show "hoare (reading base started) (stream_result cf r) (\<lambda>_. reading base started) (abort_keeps base)"
      using hoare_stream_result[OF world_free_reading] by (rule hoare_conseq) (auto simp: reading_def)
    show "hoare (reading base started) (deliver_final cf m') (delivered base) (abort_keeps base)" for m'
      using hoare_deliver by (rule hoare_pre) (auto simp: reading_def)
  qed
  then show ?case by (auto intro: hoare_thn hoare_next_reading)
next
  case (2 started m evs)
  then have False: "started = False" and ok: "stream_ok True evs" by simp_all
  show ?case unfolding False read_stream.simps stream_event.case
    by (rule hoare_thn, rule hoare_next_reading, rule hoare_read_start, rule "2.IH"[OF ok])
qed (auto intro!: hoare_thn[OF hoare_next_reading] intro: hoare_read_terminal hoare_read_delta)

text \<open>Everything before the first read leaves the response untouched.\<close>

lemma hoare_quiet:
  assumes "hoare (reading base started) m (\<lambda>_. reading base started) (\<lambda>_. reading base started)"
  shows "hoare (reading base started) m (\<lambda>_. reading base started) (abort_keeps base)"
  using assms by (rule hoare_conseq) (auto simp: reading_def)

lemma hoare_quiet_race:
  "hoare (reading base started) (race cf (in_world cf f)) (\<lambda>_. reading base started) (abort_keeps base)"
  by (intro hoare_quiet hoare_race_same hoare_in_world world_free_reading)

lemma hoare_transformed_messages:
  "hoare (reading base started) (transformed_messages cf) (\<lambda>_. reading base started) (abort_keeps base)"
  unfolding transformed_messages_def
  by (rule hoare_bnd[where R = "\<lambda>_. reading base started"])
     (auto intro!: hoare_gets hoare_case_option hoare_ret hoare_quiet_race)

lemma hoare_resolved_api_key:
  "hoare (reading base started) (resolved_api_key cf) (\<lambda>_. reading base started) (abort_keeps base)"
  unfolding resolved_api_key_def
  by (auto intro!: hoare_case_option hoare_ret hoare_bnd[OF hoare_quiet_race])

lemma hoare_open_stream:
  assumes "cf_stream_fn cf = Some f"
  shows "hoare (reading base started) (race cf (in_world cf (f req)))
    (\<lambda>ms s. reading base started s \<and> stream_ok False (sm_events ms)) (abort_keeps base)"
proof (rule hoareI)
  fix s ms s' assume r: "reading base started s" and run: "race cf (in_world cf (f req)) s = (Inr ms, s')"
  obtain v w' where f: "f req (st_world (late_updates cf s)) = (v, w')" by fastforce
  with run have v: "v = Inr ms" by (simp add: race_def in_world_def sync_world_def split: if_splits)
  from r run have "reading base started s'" by (rule hoare_value[OF hoare_quiet_race])
  with stream_protocol[OF assms f[unfolded v]]
  show "reading base started s' \<and> stream_ok False (sm_events ms)" by simp
next
  fix s e s' assume "reading base started s" and "race cf (in_world cf (f req)) s = (Inl e, s')"
  then show "abort_keeps base e s'" using hoare_error[OF hoare_quiet_race] by blast
qed

lemma hoare_stream_inner:
  "hoare (reading base False) (stream_assistant_response_inner cf) (delivered base) (abort_keeps base)"
proof -
  let ?R = "\<lambda>_. reading base False"
  have read: "hoare (\<lambda>s. reading base False s \<and> stream_ok False (sm_events ms))
      (read_stream cf (sm_events ms) (sm_result ms)) (delivered base) (abort_keeps base)" for ms
    by (cases "stream_ok False (sm_events ms)") (use hoare_read_stream in \<open>auto simp: hoare_def\<close>)
  have throw: "hoare (reading base False) (throw_if_aborted cf) ?R (abort_keeps base)"
    by (intro hoare_quiet hoare_throw_if_aborted)
  show ?thesis
    unfolding stream_assistant_response_inner_def
    by (rule hoare_thn[OF throw], rule hoare_bnd[OF hoare_transformed_messages],
        rule hoare_bnd[OF hoare_quiet_race], rule hoare_case_option)
       (auto intro!: hoare_fail hoare_bnd[OF hoare_resolved_api_key]
          hoare_bnd[where m = "gets _" and R = ?R] hoare_gets hoare_bnd[OF hoare_open_stream read])
qed

lemma hoare_stream_assistant_response:
  "hoare (run_inv base PTurn [] []) (stream_assistant_response cf) (delivered base) (\<lambda>_ _. True)"
proof -
  have "hoare (run_inv base PTurn [] []) (upd (\<lambda>s. s\<lparr>st_partial := None, st_added := False\<rparr>))
      (\<lambda>_. reading base False) (\<lambda>_ _. True)"
    by (rule hoare_upd) (simp add: reading_def stream_inv_def run_inv_def)
  moreover have "hoare (reading base False)
     (match_result (stream_assistant_response_inner cf) ret
       (\<lambda>e s. if aborted cf s \<and> is_abort_error e then finish_aborted_message cf s else (Inl e, s)))
     (delivered base) (\<lambda>_ _. True)"
  proof (rule hoare_match_result[OF hoare_stream_inner])
    show "hoare (abort_keeps base e)
      (\<lambda>s. if aborted cf s \<and> is_abort_error e then finish_aborted_message cf s else (Inl e, s))
      (delivered base) (\<lambda>_ _. True)" for e
    proof (rule hoareI)
      fix s m s' assume pre: "abort_keeps base e s"
        and run: "(if aborted cf s \<and> is_abort_error e then finish_aborted_message cf s else (Inl e, s)) = (Inr m, s')"
      then have "is_abort_error e" and fin: "finish_aborted_message cf s = (Inr m, s')"
        by (auto split: if_splits)
      with pre have "stream_inv base s" by (simp add: is_abort_error_def)
      with fin show "delivered base m s'"
        using hoare_value[OF hoare_deliver] unfolding finish_aborted_message_def by blast
    qed auto
  qed (auto intro: hoare_ret)
  ultimately show ?thesis unfolding stream_assistant_response_def by (rule hoare_thn)
qed

end

subsection \<open>Tool calls\<close>

text \<open>
  A batch, up to the reporting of its results, changes nothing that the run invariant speaks of.
\<close>

lemma run_inv_sync: "run_inv base p t1 t2 s \<Longrightarrow> run_inv base p t1 t2 (snd (sync_world f s))"
  by (simp add: sync_world_def split: prod.split)

lemma run_inv_tool_event:
  "tool_event ev \<Longrightarrow> run_inv base PTurn t1 t2 s \<Longrightarrow> run_inv base PTurn t1 t2 (snd (send cf ev s))"
  by (cases ev) (simp_all add: send_def run_inv_def accepts_snoc split: prod.split)

sublocale loop_env \<subseteq> tools: tool_kept cf "run_inv base PTurn t1 t2" for base t1 t2
  by unfold_locales (auto simp: run_inv_sync run_inv_tool_event)

context loop_env
begin

subsection \<open>Batches\<close>

lemma settles:
  "hoare (run_inv base PTurn t1 []) m Q (\<lambda>_. run_inv base PTurn t1 []) \<Longrightarrow>
   hoare (run_inv base PTurn t1 []) m Q (\<lambda>_ _. True)"
  by (erule hoare_conseq) auto

text \<open>Reporting a result adds its message to what the listeners have seen.\<close>

lemma hoare_report_result:
  "hoare (run_inv base PTurn t1 []) (report_result cf f)
     (\<lambda>m. run_inv base PTurn (t1 @ [from_tool_result m]) []) (\<lambda>_ _. True)"
proof -
  have start: "hoare (run_inv base PTurn t1 []) (emit cf (MessageStart (from_tool_result m)))
      (\<lambda>_. run_inv base POpen t1 []) (\<lambda>_ _. True)" for m
    using hoare_emit_any[of PTurn "MessageStart (from_tool_result m)" POpen base t1 "[]"] by simp
  have finish: "hoare (run_inv base POpen t1 []) (emit cf (MessageEnd (from_tool_result m)))
      (\<lambda>_. run_inv base PTurn (t1 @ [from_tool_result m]) []) (\<lambda>_ _. True)" for m
    using hoare_emit_any[of POpen "MessageEnd (from_tool_result m)" PTurn base t1 "[]"] by simp
  show ?thesis
    unfolding report_result_def emit_tool_result_message_def
    by (rule hoare_bnd[where R = "\<lambda>_. run_inv base PTurn t1 []"])
       (auto intro!: hoare_gets hoare_ret hoare_thn[OF hoare_thn[OF start finish]])
qed

lemma hoare_report_results:
  "hoare (run_inv base PTurn t1 []) (report_results cf fs)
     (\<lambda>ms. run_inv base PTurn (t1 @ map from_tool_result ms) []) (\<lambda>_ _. True)"
proof (induction fs arbitrary: t1)
  case (Cons f fs)
  have "hoare (run_inv base PTurn (t1 @ [from_tool_result m]) []) (bnd (report_results cf fs) (\<lambda>ms. ret (m # ms)))
      (\<lambda>ms. run_inv base PTurn (t1 @ map from_tool_result ms) []) (\<lambda>_ _. True)" for m
    using Cons[of "t1 @ [from_tool_result m]"] by (rule hoare_bnd) (auto intro: hoare_ret)
  then show ?case unfolding report_results.simps by (rule hoare_bnd[OF hoare_report_result])
qed (simp add: hoare_ret)

abbreviation reported :: "agent_message list \<Rightarrow> agent_message list \<Rightarrow> executed_batch \<Rightarrow> 'w run_state \<Rightarrow> bool" where
  "reported base t1 b \<equiv> run_inv base PTurn (t1 @ map from_tool_result (eb_messages b)) []"

lemma hoare_parallel:
  "hoare (run_inv base PTurn t1 []) (execute_tool_calls_parallel cf asst calls) (reported base t1) (\<lambda>_ _. True)"
proof -
  have report: "hoare (run_inv base PTurn t1 []) (bnd (report_results cf fs) (\<lambda>ms.
       ret \<lparr>eb_messages = ms, eb_terminate = should_terminate_tool_batch fs\<rparr>)) (reported base t1) (\<lambda>_ _. True)" for fs
    by (rule hoare_bnd[OF hoare_report_results]) (auto intro: hoare_ret)
  have join: "hoare (\<lambda>s. run_inv base PTurn t1 [] s \<and> known_tools cf sls)
      (bnd (parallel_join cf asst is sls) (\<lambda>fs. bnd (report_results cf fs) (\<lambda>ms.
        ret \<lparr>eb_messages = ms, eb_terminate = should_terminate_tool_batch fs\<rparr>)))
      (reported base t1) (\<lambda>_ _. True)" for "is" sls
  proof (cases "known_tools cf sls")
    case True
    then show ?thesis using hoare_bnd[OF settles[OF tools.keeps_join[OF True]] report] by simp
  qed (simp add: hoare_def)
  show ?thesis
    unfolding execute_tool_calls_parallel_def
    by (rule hoare_bnd[OF settles[OF tools.keeps_spawn] join]) simp
qed

lemma hoare_sequential_loop:
  "hoare (run_inv base PTurn t1 []) (sequential_loop cf asst calls)
     (\<lambda>rs. run_inv base PTurn (t1 @ map (from_tool_result \<circ> fst) rs) []) (\<lambda>_ _. True)"
proof (induction calls arbitrary: t1)
  case (Cons call calls)
  let ?Q = "\<lambda>rs. run_inv base PTurn (t1 @ map (from_tool_result \<circ> fst) rs) []"
  have rest: "hoare (run_inv base PTurn (t1 @ [from_tool_result m]) [])
      (bnd (sequential_loop cf asst calls) (\<lambda>rest. ret ((m, f) # rest))) ?Q (\<lambda>_ _. True)" for m f
    using Cons[of "t1 @ [from_tool_result m]"] by (rule hoare_bnd) (auto intro!: hoare_ret simp: comp_def)
  have tail: "hoare (run_inv base PTurn (t1 @ [from_tool_result m]) [])
      (\<lambda>s'. if aborted cf s' then (Inr [(m, f)], s')
            else bnd (sequential_loop cf asst calls) (\<lambda>rest. ret ((m, f) # rest)) s') ?Q (\<lambda>_ _. True)" for m f
    by (intro hoare_state_if hoare_pure rest) simp
  have go: "hoare (run_inv base PTurn t1 []) (bnd (sequential_call cf asst call) (\<lambda>f.
      bnd (report_result cf f) (\<lambda>m s'. if aborted cf s' then (Inr [(m, f)], s')
            else bnd (sequential_loop cf asst calls) (\<lambda>rest. ret ((m, f) # rest)) s'))) ?Q (\<lambda>_ _. True)"
    by (intro hoare_bnd[OF settles[OF tools.keeps_sequential_call]] hoare_bnd[OF hoare_report_result] tail)
  show ?case unfolding sequential_loop.simps
    by (rule hoare_state_if, rule hoare_pure, simp, rule go)
qed (simp add: hoare_ret)

lemma hoare_execute_tool_calls:
  "hoare (run_inv base PTurn t1 []) (execute_tool_calls cf asst) (reported base t1) (\<lambda>_ _. True)"
proof -
  have "hoare (run_inv base PTurn t1 []) (execute_tool_calls_sequential cf asst calls) (reported base t1) (\<lambda>_ _. True)" for calls
    unfolding execute_tool_calls_sequential_def
    by (rule hoare_bnd[OF hoare_sequential_loop]) (auto intro!: hoare_ret)
  then show ?thesis
    by (auto simp: execute_tool_calls_def Let_def hoare_parallel)
qed

subsection \<open>Turns\<close>

lemma hoare_push_tool_results:
  "hoare (run_inv base PTurn (map from_tool_result ms) []) (for_each ms push_tool_result)
     (\<lambda>_. run_inv base PTurn [] []) (\<lambda>_ _. True)"
proof (induction ms)
  case (Cons m ms)
  have "hoare (run_inv base PTurn (map from_tool_result (m # ms)) []) (push_tool_result m)
      (\<lambda>_. run_inv base PTurn (map from_tool_result ms) []) (\<lambda>_ _. True)"
    by (rule hoareI) (auto simp: push_tool_result_def push_message_def push_new_def run_inv_def mon_simps)
  then show ?case unfolding for_each.simps using Cons by (rule hoare_thn)
qed (simp add: hoare_ret)

lemma hoare_turn_tools:
  "hoare (run_inv base PTurn [] []) (turn_tools cf asst) (\<lambda>_. run_inv base PTurn [] []) (\<lambda>_ _. True)"
proof -
  have "hoare (run_inv base PTurn [] []) (bnd (execute_tool_calls cf asst) (\<lambda>batch.
      thn (for_each (eb_messages batch) push_tool_result) (ret (eb_messages batch, \<not> eb_terminate batch))))
      (\<lambda>_. run_inv base PTurn [] []) (\<lambda>_ _. True)"
    using hoare_execute_tool_calls[of base "[]"]
    by (rule hoare_bnd) (auto intro!: hoare_thn[OF hoare_push_tool_results] hoare_ret)
  then show ?thesis unfolding turn_tools_def by (auto intro: hoare_ret)
qed

lemma hoare_inject:
  "hoare (run_inv base PTurn [] []) (inject_message cf m) (\<lambda>_. run_inv base PTurn [] []) (\<lambda>_ _. True)"
proof -
  have start: "hoare (run_inv base PTurn [] []) (emit cf (MessageStart m)) (\<lambda>_. run_inv base POpen [] []) (\<lambda>_ _. True)"
    using hoare_emit_any[of PTurn "MessageStart m" POpen base "[]" "[]"] by simp
  have finish: "hoare (run_inv base POpen [] []) (emit cf (MessageEnd m)) (\<lambda>_. run_inv base PTurn [m] []) (\<lambda>_ _. True)"
    using hoare_emit_any[of POpen "MessageEnd m" PTurn base "[]" "[]"] by simp
  have push: "hoare (run_inv base PTurn [m] []) (thn (push_message m) (push_new m))
      (\<lambda>_. run_inv base PTurn [] []) (\<lambda>_ _. True)"
    by (rule hoareI) (auto simp: push_message_def push_new_def run_inv_def mon_simps)
  show ?thesis unfolding inject_message_def by (rule hoare_thn[OF start hoare_thn[OF finish push]])
qed

text \<open>A finished run: its last event lists its messages, which the listeners have seen.\<close>

definition finished :: "agent_message list \<Rightarrow> 'w run_state \<Rightarrow> bool" where
  "finished base s \<longleftrightarrow> run_inv base PAfter [] [] s \<and> last (st_trace s) = AgentEnd (st_new s)"

definition vars_ok :: "agent_message list \<Rightarrow> loop_vars \<Rightarrow> 'w run_state \<Rightarrow> bool" where
  "vars_ok base lv s \<longleftrightarrow>
     run_inv base (if lv_first_turn lv then PTurn else PGap) [] [] s \<and> (lv_first_turn lv \<longrightarrow> lv_more lv)"

definition flow_ok :: "agent_message list \<Rightarrow> flow \<Rightarrow> 'w run_state \<Rightarrow> bool" where
  "flow_ok base fl s = (case fl of Go lv \<Rightarrow> vars_ok base lv s | Finish \<Rightarrow> finished base s)"

abbreviation flows :: "agent_message list \<Rightarrow> ('w, flow) agent \<Rightarrow> bool" where
  "flows base m \<equiv> hoare (run_inv base PGap [] []) m (flow_ok base) (\<lambda>_ _. True)"

lemma flows_finish: "flows base (finish_run cf)"
proof (rule hoareI)
  fix s fl s' assume I: "run_inv base PGap [] [] s" and run: "finish_run cf s = (Inr fl, s')"
  obtain x s1 where e1: "emit cf (AgentEnd (st_new s)) s = (x, s1)" by fastforce
  with run have e: "emit cf (AgentEnd (st_new s)) s = (Inr (), s')" and fl: "fl = Finish"
    by (cases x; simp add: finish_run_def emit_agent_end_def mon_simps)+
  have "run_inv base PAfter ([] @ message_of (AgentEnd (st_new s))) [] s'"
    using I e by (intro hoare_value[OF hoare_emit]) simp_all
  moreover have "last (st_trace s') = AgentEnd (st_new s)"
    using emit_trace[OF e] by simp
  ultimately show "flow_ok base fl s'" using fl emit_frame[OF e] by (simp add: flow_ok_def finished_def)
qed simp

text \<open>The quiet steps between turns.\<close>

lemma between_settle:
  "world_free P \<Longrightarrow> hoare P (settle_post_turn cf (race cf (in_world cf f))) (\<lambda>_. P) (\<lambda>_ _. True)"
  using hoare_settle[OF hoare_race_same[OF hoare_in_world]] by (rule hoare_conseq) auto

lemma between_settle_ret:
  "world_free P \<Longrightarrow> hoare P (settle_post_turn cf (race cf (ret x))) (\<lambda>_. P) (\<lambda>_ _. True)"
  by (rule hoare_conseq[OF hoare_settle[OF hoare_race_same[OF hoare_ret]]]) auto

lemma between_poll:
  "world_free P \<Longrightarrow> hoare P (settle_post_turn cf (poll_messages_unless_aborted cf p)) (\<lambda>_. P) (\<lambda>_ _. True)"
  using hoare_settle[OF hoare_poll] by (rule hoare_conseq) auto

lemma between_stop:
  "world_free P \<Longrightarrow> hoare P (should_stop_before_turn cf b) (\<lambda>_. P) (\<lambda>_ _. True)"
  using hoare_should_stop by (rule hoare_conseq) auto

lemma flows_go:
  "(\<And>s. run_inv base PGap [] [] s \<Longrightarrow> vars_ok base lv s) \<Longrightarrow> flows base (ret (Go lv))"
  by (rule hoare_ret) (simp add: flow_ok_def)

lemma flows_after_turn: "flows base (after_turn cf ctx again)"
proof -
  have go: "flows base (ret (Go \<lparr>lv_first_turn = False, lv_last_turn = Some ctx, lv_pending = p, lv_more = again\<rparr>))" for p
    by (rule flows_go) (simp add: vars_ok_def)
  have steering: "flows base (case steering of
              Aborted \<Rightarrow> finish_run cf
            | Completed messages \<Rightarrow>
                (if messages = [] then
                   bnd (should_stop_before_turn cf False) (\<lambda>stop_before.
                     if stop_before then finish_run cf
                     else ret (Go \<lparr>lv_first_turn = False, lv_last_turn = Some ctx,
                                   lv_pending = [], lv_more = again\<rparr>))
                 else ret (Go \<lparr>lv_first_turn = False, lv_last_turn = Some ctx,
                               lv_pending = messages, lv_more = again\<rparr>)))" for steering
    by (cases steering)
       (auto intro!: flows_finish go hoare_bnd[OF between_stop[OF world_free_run_inv]])
  have hook: "hoare (run_inv base PGap [] []) (settle_post_turn cf (race cf (case cf_should_stop_after_turn cf of
            Some hook \<Rightarrow> in_world cf (hook ctx) | None \<Rightarrow> ret False))) (\<lambda>_. run_inv base PGap [] []) (\<lambda>_ _. True)"
    by (cases "cf_should_stop_after_turn cf") (auto intro: between_settle between_settle_ret)
  have "flows base (case stop of
       Aborted \<Rightarrow> finish_run cf
     | Completed True \<Rightarrow> finish_run cf
     | Completed False \<Rightarrow>
         bnd (should_stop_before_turn cf False) (\<lambda>stop_before.
         if stop_before then finish_run cf
         else bnd (settle_post_turn cf (poll_messages_unless_aborted cf (cf_get_steering_messages cf)))
           (\<lambda>steering. case steering of
              Aborted \<Rightarrow> finish_run cf
            | Completed messages \<Rightarrow>
                (if messages = [] then
                   bnd (should_stop_before_turn cf False) (\<lambda>stop_before.
                     if stop_before then finish_run cf
                     else ret (Go \<lparr>lv_first_turn = False, lv_last_turn = Some ctx,
                                   lv_pending = [], lv_more = again\<rparr>))
                 else ret (Go \<lparr>lv_first_turn = False, lv_last_turn = Some ctx,
                               lv_pending = messages, lv_more = again\<rparr>)))))" for stop
    by (auto split: post_turn.split bool.split intro!: flows_finish hoare_if steering
        hoare_bnd[OF between_stop[OF world_free_run_inv]] hoare_bnd[OF between_poll[OF world_free_run_inv]])
  then show ?thesis unfolding after_turn_def by (rule hoare_bnd[OF hook])
qed

lemma flows_boundary:
  assumes "\<not> lv_first_turn lv"
  shows "flows base (boundary cf lv)"
proof -
  have restart: "flows base (thn (throw_if_aborted cf) (ret (restart lv messages)))" for messages
    using assms unfolding restart_def
    by (intro hoare_thn[where R = "run_inv base PGap [] []"] flows_go)
       (auto simp: vars_ok_def throw_if_aborted_def hoare_def)
  have continuation: "hoare (run_inv base PGap [] []) (poll_continuation cf lv)
      (\<lambda>_. run_inv base PGap [] []) (\<lambda>_ _. True)"
    unfolding poll_continuation_def
    by (auto split: option.split intro!: hoare_ret between_settle between_settle_ret)
  have "flows base (case c of Aborted \<Rightarrow> finish_run cf
        | Completed messages' \<Rightarrow> if messages' \<noteq> [] then thn (throw_if_aborted cf) (ret (restart lv messages'))
            else finish_run cf)" for c
    by (cases c) (auto intro: flows_finish restart)
  then have "flows base (case follow_ups of
          Aborted \<Rightarrow> finish_run cf
        | Completed messages \<Rightarrow>
            if messages \<noteq> [] then thn (throw_if_aborted cf) (ret (restart lv messages))
            else bnd (should_stop_before_turn cf (lv_first_turn lv)) (\<lambda>stop2.
              if stop2 then finish_run cf
              else bnd (poll_continuation cf lv) (\<lambda>continuation. case continuation of
                     Aborted \<Rightarrow> finish_run cf
                   | Completed messages' \<Rightarrow>
                       if messages' \<noteq> [] then thn (throw_if_aborted cf) (ret (restart lv messages'))
                       else finish_run cf)))" for follow_ups
    by (auto split: post_turn.split intro!: flows_finish restart hoare_bnd[OF between_stop[OF world_free_run_inv]]
        hoare_bnd[OF continuation])
  then show ?thesis
    unfolding boundary_def
    by (intro hoare_bnd[OF between_stop[OF world_free_run_inv]] hoare_bnd[OF between_poll[OF world_free_run_inv]]
        hoare_if flows_finish)
qed

lemma hoare_turn: "hoare (vars_ok base lv) (turn cf lv) (flow_ok base) (\<lambda>_ _. True)"
proof -
  have throw: "hoare (vars_ok base lv) (throw_if_aborted cf) (\<lambda>_. vars_ok base lv) (\<lambda>_ _. True)"
    by (rule hoare_conseq[OF hoare_throw_if_aborted]) auto
  have turn_start: "hoare (run_inv base PGap [] []) (emit cf TurnStart) (\<lambda>_. run_inv base PTurn [] []) (\<lambda>_ _. True)"
    using hoare_emit_any[of PGap TurnStart PTurn base "[]" "[]"] by simp
  have start: "hoare (vars_ok base lv) (if lv_first_turn lv then ret () else emit cf TurnStart)
      (\<lambda>_. run_inv base PTurn [] []) (\<lambda>_ _. True)"
  proof (cases "lv_first_turn lv")
    case True
    then show ?thesis by (auto simp: vars_ok_def intro: hoare_ret)
  next
    case False
    with hoare_pre[OF turn_start, of "vars_ok base lv"] show ?thesis by (simp add: vars_ok_def)
  qed
  have inject: "hoare (run_inv base PTurn [] []) (for_each ms (inject_message cf))
      (\<lambda>_. run_inv base PTurn [] []) (\<lambda>_ _. True)" for ms
    by (rule hoare_for_each) (rule hoare_inject)
  have push: "hoare (delivered base m) (push_new (from_assistant m)) (\<lambda>_. run_inv base PTurn [] []) (\<lambda>_ _. True)" for m
    unfolding push_new_def by (rule hoare_upd) (simp add: run_inv_def)
  have turn_end: "hoare (run_inv base PTurn [] []) (emit cf (TurnEnd m rs)) (\<lambda>_. run_inv base PGap [] []) (\<lambda>_ _. True)" for m rs
    using hoare_emit_any[of PTurn "TurnEnd m rs" PGap base "[]" "[]"] by simp
  have after: "flows base (\<lambda>s. if aborted cf s then finish_run cf s else after_turn cf (ctx s) again s)" for ctx again
    by (rule hoare_state_if, rule flows_finish, rule hoare_state, rule flows_after_turn)
  have tools: "hoare (run_inv base PTurn [] []) (bnd (turn_tools cf message) (\<lambda>(results, again).
         thn (emit cf (TurnEnd (from_assistant message) results))
           (\<lambda>s. if aborted cf s then finish_run cf s
                else after_turn cf \<lparr>sc_message = message, sc_tool_results = results,
                       sc_messages = st_messages s, sc_new_messages = st_new s\<rparr> again s)))
      (flow_ok base) (\<lambda>_ _. True)" for message
    by (rule hoare_bnd[OF hoare_turn_tools]) (auto intro!: hoare_thn[OF turn_end] after)
  have message: "hoare (delivered base message) (thn (push_new (from_assistant message))
      (if am_stop_reason message = StopError \<or> am_stop_reason message = StopAborted then
         thn (emit cf (TurnEnd (from_assistant message) [])) (finish_run cf)
       else bnd (turn_tools cf message) (\<lambda>(results, again).
         thn (emit cf (TurnEnd (from_assistant message) results))
           (\<lambda>s. if aborted cf s then finish_run cf s
                else after_turn cf \<lparr>sc_message = message, sc_tool_results = results,
                       sc_messages = st_messages s, sc_new_messages = st_new s\<rparr> again s))))
      (flow_ok base) (\<lambda>_ _. True)" for message
    by (intro hoare_thn[OF push] hoare_if tools hoare_thn[OF turn_end] flows_finish)
  show ?thesis
    unfolding turn_def
    by (intro hoare_thn[OF throw] hoare_thn[OF start] hoare_thn[OF inject]
        hoare_bnd[OF hoare_stream_assistant_response] message)
qed

lemma hoare_loop_step: "hoare (vars_ok base lv) (loop_step cf lv) (flow_ok base) (\<lambda>_ _. True)"
proof (cases "lv_more lv \<or> lv_pending lv \<noteq> []")
  case False
  have "hoare (vars_ok base lv) (boundary cf lv) (flow_ok base) (\<lambda>_ _. True)"
  proof (cases "lv_first_turn lv")
    case True
    with False show ?thesis by (simp add: vars_ok_def hoare_def)
  next
    case False
    have "run_inv base PGap [] [] s" if "vars_ok base lv s" for s using that False by (simp add: vars_ok_def)
    with flows_boundary[OF False] show ?thesis by (rule hoare_pre)
  qed
  with False show ?thesis by (auto simp: loop_step_def)
qed (auto simp: loop_step_def hoare_turn)

lemma iterate_finished:
  assumes "iterate cf lv s = Some (r, s')" and "r = Inr ()" and "vars_ok base lv s"
  shows "finished base s'"
proof -
  have "iterate cf' lv s = Some y \<Longrightarrow>
      cf' = cf \<longrightarrow> fst y = Inr () \<longrightarrow> vars_ok base lv s \<longrightarrow> finished base (snd y)" for cf' lv s y
  proof (induction cf' lv s y rule: iterate.raw_induct[rotated, consumes 1, case_names step])
    case (step it cf' lv s y)
    show ?case
    proof (intro impI)
      assume cf: "cf' = cf" and ok: "fst y = Inr ()" and pre: "vars_ok base lv s"
      obtain v s1 where run: "loop_step cf lv s = (v, s1)" by fastforce
      show "finished base (snd y)"
      proof (cases v)
        case (Inl e)
        with step(2) ok run cf show ?thesis by auto
      next
        case (Inr fl)
        have flow: "flow_ok base fl s1" using hoare_value[OF hoare_loop_step pre run[unfolded Inr]] .
        show ?thesis
        proof (cases fl)
          case (Go lv')
          then have "it cf lv' s1 = Some y" using step(2) run cf Inr by simp
          with step(1) ok flow cf Go show ?thesis by (simp add: flow_ok_def)
        next
          case Finish
          with step(2) run cf Inr flow show ?thesis by (auto simp: flow_ok_def)
        qed
      qed
    qed
  qed
  from this[OF assms(1)] assms(2,3) show ?thesis by simp
qed

lemma run_loop_finished:
  assumes run: "run_loop cf s = Some (Inr (), s')" and inv: "run_inv base PTurn [] [] s"
  shows "finished base s'"
proof -
  have start: "hoare (run_inv base PTurn [] []) (start_vars cf) (vars_ok base) (\<lambda>_ _. True)"
    unfolding start_vars_def
    by (rule hoare_bnd[OF hoare_conseq[OF hoare_poll[OF world_free_run_inv]]],
        (assumption | rule TrueI)+)
       (auto intro!: hoare_thn[OF hoare_conseq[OF hoare_throw_if_aborted]] hoare_ret simp: vars_ok_def)
  show ?thesis
  proof (cases "start_vars cf s")
    case (Pair v s1)
    with run hoare_value[OF start inv] show ?thesis
      by (cases v) (auto simp: run_loop_def intro: iterate_finished)
  qed
qed

text \<open>The prompts are seen by the listeners one after the other, before the first turn.\<close>

lemma hoare_announce:
  "accepts PBefore (st_trace s) = Some PTurn \<and> transcript (st_trace s) = t \<and> st_new s = ns \<and> st_messages s = ms \<Longrightarrow>
   announce cf m s = (Inr x, s') \<Longrightarrow>
   accepts PBefore (st_trace s') = Some PTurn \<and> transcript (st_trace s') = t @ [m] \<and> st_new s' = ns \<and> st_messages s' = ms"
  by (auto simp: announce_def mon_simps accepts_append transcript_append
      split: prod.splits sum.splits dest!: emit_trace)

lemma announce_prompts:
  "accepts PBefore (st_trace s) = Some PTurn \<and> transcript (st_trace s) = t \<and> st_new s = ns \<and> st_messages s = ms \<Longrightarrow>
   for_each prompts (announce cf) s = (Inr x, s') \<Longrightarrow>
   accepts PBefore (st_trace s') = Some PTurn \<and> transcript (st_trace s') = t @ prompts \<and> st_new s' = ns \<and> st_messages s' = ms"
proof (induction prompts arbitrary: s t)
  case (Cons p prompts)
  then obtain y s1 where "announce cf p s = (Inr y, s1)" and "for_each prompts (announce cf) s1 = (Inr x, s')"
    by (auto simp: mon_simps split: prod.splits sum.splits)
  with Cons.IH[OF hoare_announce[OF Cons.prems(1)]] show ?case by simp
qed (simp add: mon_simps)

lemma announce_run_inv:
  assumes "announce_run cf prompts (initial_state (messages @ prompts) prompts w) = (Inr x, s)"
  shows "run_inv messages PTurn [] [] s \<and> st_new s = prompts"
proof -
  let ?s0 = "initial_state (messages @ prompts) prompts w"
  obtain u1 s1 u2 s2 where s1: "emit cf AgentStart ?s0 = (Inr u1, s1)" and s2: "emit cf TurnStart s1 = (Inr u2, s2)"
    and rest: "for_each prompts (announce cf) s2 = (Inr x, s)"
    using assms by (auto simp: announce_run_def mon_simps split: prod.splits sum.splits)
  have "accepts PBefore (st_trace s2) = Some PTurn \<and> transcript (st_trace s2) = []
      \<and> st_new s2 = prompts \<and> st_messages s2 = messages @ prompts"
    using emit_trace[OF s1] emit_trace[OF s2] emit_frame[OF s1] emit_frame[OF s2]
    by (simp add: initial_state_def)
  from announce_prompts[OF this rest] show ?thesis by (simp add: run_inv_def)
qed

lemma run_agent_loop_finished:
  assumes "run_agent_loop cf prompts messages w = Some (Inr (), s)"
  shows "finished messages s"
proof -
  obtain v s1 where a: "announce_run cf prompts (initial_state (messages @ prompts) prompts w) = (v, s1)" by fastforce
  with assms obtain x where "v = Inr x" and "run_loop cf s1 = Some (Inr (), s)"
    by (cases v) (auto simp: run_agent_loop_def)
  with announce_run_inv a show ?thesis by (blast intro: run_loop_finished)
qed

lemma run_agent_loop_continue_finished:
  assumes "run_agent_loop_continue cf messages w = Some (Inr (), s)"
  shows "finished messages s"
proof -
  obtain v s1 where a: "announce_run cf [] (initial_state messages [] w) = (v, s1)" by fastforce
  with assms obtain x where "v = Inr x" and "run_loop cf s1 = Some (Inr (), s)"
    by (cases v) (auto simp: run_agent_loop_continue_def Let_def split: if_splits)
  with announce_run_inv[of "[]" messages] a show ?thesis by (auto intro: run_loop_finished)
qed

end

end
