(* ===== verification/MessageQueue.thy ===== *)
theory MessageQueue
  imports AgentTypes "HOL-Library.Multiset" "HOL-Library.Sublist"
begin

text \<open>
  \<open>PendingMessageQueue\<close> of \<open>crates/pa-agent/src/agent.rs\<close>: the steering and the follow-up
  queue of an agent. A queue holds batches; a poll takes one batch or all of them. The locale
  \<open>message_queue\<close> names what a poller relies on, whatever the mode of the queue.
\<close>

section \<open>The queue\<close>

datatype queue_mode = QAll | QOneAtATime

record pending_queue =
  pq_mode :: queue_mode
  pq_batches :: "agent_message list list"

datatype message_batch = Single agent_message | Batch "agent_message list"

definition queue_new :: "queue_mode \<Rightarrow> pending_queue" where
  "queue_new mode = \<lparr>pq_mode = mode, pq_batches = []\<rparr>"

definition enqueue :: "message_batch \<Rightarrow> pending_queue \<Rightarrow> pending_queue" where
  "enqueue batch q =
     (case batch of
        Single m \<Rightarrow> q\<lparr>pq_batches := pq_batches q @ [[m]]\<rparr>
      | Batch ms \<Rightarrow> if ms \<noteq> [] then q\<lparr>pq_batches := pq_batches q @ [ms]\<rparr> else q)"

definition has_items :: "pending_queue \<Rightarrow> bool" where
  "has_items q \<longleftrightarrow> pq_batches q \<noteq> []"

definition drain :: "pending_queue \<Rightarrow> agent_message list \<times> pending_queue" where
  "drain q =
     (if pq_mode q = QAll then (concat (pq_batches q), q\<lparr>pq_batches := []\<rparr>)
      else case pq_batches q of
             [] \<Rightarrow> ([], q)
           | first # rest \<Rightarrow> (first, q\<lparr>pq_batches := rest\<rparr>))"

definition queue_clear :: "pending_queue \<Rightarrow> pending_queue" where
  "queue_clear q = q\<lparr>pq_batches := []\<rparr>"

fun split_batches :: "(agent_message \<Rightarrow> bool) \<Rightarrow> agent_message list list \<Rightarrow> agent_message list \<times> agent_message list list" where
  "split_batches p [] = ([], [])"
| "split_batches p (b # bs) =
     (case split_batches p bs of (removed, retained) \<Rightarrow>
        if list_ex p b then (b @ removed, retained) else (removed, b # retained))"

definition remove_where :: "(agent_message \<Rightarrow> bool) \<Rightarrow> pending_queue \<Rightarrow> agent_message list \<times> pending_queue" where
  "remove_where p q =
     (case split_batches p (pq_batches q) of (removed, retained) \<Rightarrow> (removed, q\<lparr>pq_batches := retained\<rparr>))"

section \<open>Previews\<close>

text \<open>\<open>join(" ")\<close>\<close>

fun join_space :: "string list \<Rightarrow> string" where
  "join_space [] = ''''"
| "join_space [x] = x"
| "join_space (x # xs) = x @ '' '' @ join_space xs"

fun part_text :: "user_part \<Rightarrow> string option" where
  "part_text (UPText t) = Some (tc_text t)"
| "part_text (UPImage _) = None"

fun message_preview :: "agent_message \<Rightarrow> string option" where
  "message_preview (Standard (User u)) =
     (case um_content u of
        UText t \<Rightarrow> Some t
      | UParts parts \<Rightarrow>
          (let texts = List.map_filter part_text parts
           in if texts \<noteq> [] then Some (join_space texts) else None))"
| "message_preview _ = None"

definition batch_preview :: "agent_message list \<Rightarrow> string" where
  "batch_preview batch = join_space (List.map_filter message_preview batch)"

section \<open>The invariant\<close>

text \<open>No batch is empty: a poll that finds a batch brings a message.\<close>

definition queue_ok :: "pending_queue \<Rightarrow> bool" where
  "queue_ok q \<longleftrightarrow> [] \<notin> set (pq_batches q)"

lemma queue_ok_new [simp]: "queue_ok (queue_new mode)"
  by (simp add: queue_ok_def queue_new_def)

lemma queue_ok_enqueue [simp]: "queue_ok q \<Longrightarrow> queue_ok (enqueue b q)"
  by (auto simp: queue_ok_def enqueue_def split: message_batch.split)

lemma queue_ok_drain: "queue_ok q \<Longrightarrow> queue_ok (snd (drain q))"
  by (auto simp: queue_ok_def drain_def split: list.split)

lemma queue_ok_clear [simp]: "queue_ok (queue_clear q)"
  by (simp add: queue_ok_def queue_clear_def)

lemma split_batches_eq:
  "split_batches p bs = (concat (filter (list_ex p) bs), filter (\<lambda>b. \<not> list_ex p b) bs)"
  by (induction bs) auto

lemma remove_where_eq:
  "remove_where p q = (concat (filter (list_ex p) (pq_batches q)),
     q\<lparr>pq_batches := filter (\<lambda>b. \<not> list_ex p b) (pq_batches q)\<rparr>)"
  by (simp add: remove_where_def split_batches_eq)

lemma queue_ok_remove: "queue_ok q \<Longrightarrow> queue_ok (snd (remove_where p q))"
  by (auto simp: queue_ok_def remove_where_eq)

section \<open>What a poller relies on\<close>

definition queued :: "pending_queue \<Rightarrow> agent_message list" where
  "queued q = concat (pq_batches q)"

definition batch_messages :: "message_batch \<Rightarrow> agent_message list" where
  "batch_messages b = (case b of Single m \<Rightarrow> [m] | Batch ms \<Rightarrow> ms)"

locale message_queue =
  fixes good :: "'q \<Rightarrow> bool"
    and messages :: "'q \<Rightarrow> 'm list"
    and put :: "'b \<Rightarrow> 'q \<Rightarrow> 'q"
    and content :: "'b \<Rightarrow> 'm list"
    and poll :: "'q \<Rightarrow> 'm list \<times> 'q"
  assumes put_messages: "good q \<Longrightarrow> messages (put b q) = messages q @ content b"
    and put_good: "good q \<Longrightarrow> good (put b q)"
    and poll_messages: "good q \<Longrightarrow> poll q = (ms, q') \<Longrightarrow> messages q = ms @ messages q'"
    and poll_good: "good q \<Longrightarrow> poll q = (ms, q') \<Longrightarrow> good q'"
    and poll_progress: "good q \<Longrightarrow> messages q \<noteq> [] \<Longrightarrow> poll q = (ms, q') \<Longrightarrow> ms \<noteq> []"
begin

definition put_all :: "'b list \<Rightarrow> 'q \<Rightarrow> 'q" where
  "put_all bs q = fold put bs q"

primrec poll_times :: "nat \<Rightarrow> 'q \<Rightarrow> 'm list \<times> 'q" where
  "poll_times 0 q = ([], q)"
| "poll_times (Suc n) q = (let (ms, q1) = poll q; (rest, q2) = poll_times n q1 in (ms @ rest, q2))"

lemma put_all_messages: "good q \<Longrightarrow> messages (put_all bs q) = messages q @ concat (map content bs)"
  by (induction bs arbitrary: q) (auto simp: put_all_def put_messages put_good)

lemma put_all_good: "good q \<Longrightarrow> good (put_all bs q)"
  by (induction bs arbitrary: q) (auto simp: put_all_def put_good)

text \<open>Polling is first in, first out, and as many polls as there are messages bring them all.\<close>

lemma poll_times_messages:
  "good q \<Longrightarrow> poll_times n q = (ms, q') \<Longrightarrow> messages q = ms @ messages q' \<and> good q'"
proof (induction n arbitrary: q ms)
  case (Suc n)
  obtain ms1 q1 rest q2 where p: "poll q = (ms1, q1)" "poll_times n q1 = (rest, q2)" by fastforce
  then have "ms = ms1 @ rest" "q2 = q'" using Suc.prems(2) by simp_all
  with p Suc.IH[of q1 rest] poll_messages[OF Suc.prems(1) p(1)] poll_good[OF Suc.prems(1) p(1)]
  show ?case by simp
qed simp

lemma poll_empty: "good q \<Longrightarrow> messages q = [] \<Longrightarrow> fst (poll q) = []"
  using poll_messages[of q] by (cases "poll q") auto

lemma poll_times_all:
  "good q \<Longrightarrow> length (messages q) \<le> n \<Longrightarrow> fst (poll_times n q) = messages q"
proof (induction n arbitrary: q)
  case (Suc n)
  obtain ms q1 where p: "poll q = (ms, q1)" by fastforce
  have split: "messages q = ms @ messages q1" and good: "good q1"
    using Suc.prems p by (auto dest: poll_messages poll_good)
  have "length (messages q1) \<le> n"
  proof (cases "messages q = []")
    case False
    then have "ms \<noteq> []" using Suc.prems p by (auto dest: poll_progress)
    then show ?thesis using Suc.prems(2) split by (cases ms) auto
  qed (use split in simp)
  then have "fst (poll_times n q1) = messages q1" using Suc.IH good by simp
  then show ?case using p split by (simp add: Let_def split: prod.split) (metis fst_conv)
qed simp

end

interpretation pending: message_queue queue_ok queued enqueue batch_messages drain
proof
  show "queue_ok q \<Longrightarrow> queued (enqueue b q) = queued q @ batch_messages b" for q b
    by (auto simp: queued_def enqueue_def batch_messages_def split: message_batch.split)
  show "queue_ok q \<Longrightarrow> drain q = (ms, q') \<Longrightarrow> queued q = ms @ queued q'" for q ms q'
    by (auto simp: queued_def drain_def split: if_splits list.splits)
  show "queue_ok q \<Longrightarrow> drain q = (ms, q') \<Longrightarrow> queue_ok q'" for q ms q'
    using queue_ok_drain[of q] by simp
  show "queue_ok q \<Longrightarrow> queued q \<noteq> [] \<Longrightarrow> drain q = (ms, q') \<Longrightarrow> ms \<noteq> []" for q ms q'
    by (cases "pq_batches q") (auto simp: queue_ok_def queued_def drain_def split: if_splits)
qed simp

section \<open>Properties\<close>

text \<open>Enqueue the batches in order, then poll \<open>n\<close> times.\<close>

definition enqueue_all :: "message_batch list \<Rightarrow> pending_queue \<Rightarrow> pending_queue" where
  "enqueue_all bs q = fold enqueue bs q"

primrec drain_times :: "nat \<Rightarrow> pending_queue \<Rightarrow> agent_message list \<times> pending_queue" where
  "drain_times 0 q = ([], q)"
| "drain_times (Suc n) q = (let (ms, q1) = drain q; (rest, q2) = drain_times n q1 in (ms @ rest, q2))"

lemma drain_times_pending: "drain_times n q = pending.poll_times n q"
  by (induction n arbitrary: q) (simp_all)

text \<open>C37. Whatever the mode of the queue, polling it as often as it holds messages delivers
every enqueued message exactly once and in the order in which the batches were enqueued.\<close>

theorem queue_delivers_in_order:
  "fst (drain_times (length (concat (map batch_messages bs)) + n) (enqueue_all bs (queue_new mode)))
     = concat (map batch_messages bs)"
proof -
  have msgs: "queued (enqueue_all bs (queue_new mode)) = concat (map batch_messages bs)"
    using pending.put_all_messages[OF queue_ok_new, of bs mode]
    by (simp add: pending.put_all_def enqueue_all_def queued_def queue_new_def)
  have "queue_ok (enqueue_all bs (queue_new mode))"
    using pending.put_all_good[of "queue_new mode" bs] by (simp add: pending.put_all_def enqueue_all_def)
  from pending.poll_times_all[OF this] show ?thesis by (simp add: drain_times_pending msgs)
qed

text \<open>Removing the queued messages that match loses none: every message is either removed or
still queued, none that matches is still queued, and what is still queued keeps its order.\<close>

lemma remove_where_partitions:
  "mset (fst (remove_where p q)) + mset (queued (snd (remove_where p q))) = mset (queued q)
   \<and> filter p (queued (snd (remove_where p q))) = []
   \<and> subseq (queued (snd (remove_where p q))) (queued q)"
proof -
  have "mset (concat (filter (list_ex p) bs)) + mset (concat (filter (\<lambda>b. \<not> list_ex p b) bs)) = mset (concat bs)"
    for bs by (induction bs) auto
  moreover have "filter p (concat (filter (\<lambda>b. \<not> list_ex p b) bs)) = []" for bs
    by (induction bs) (auto simp: list_ex_iff filter_empty_conv)
  moreover have "subseq (concat (filter (\<lambda>b. \<not> list_ex p b) bs)) (concat bs)" for bs
    by (induction bs) (auto intro: list_emb_append_mono)
  ultimately show ?thesis by (simp add: remove_where_eq queued_def)
qed

end
