(* ===== verification/AgentState.thy ===== *)
theory AgentState
  imports AgentRun MessageQueue
begin

text \<open>
  The agent of \<open>crates/pa-agent/src/agent.rs\<close>: its state, the queues, the reduction of the
  loop's events into the state, and the lifecycle of a run. The \<open>shared\<close> mutex is held while
  the listeners run, so a listener reaches only what lies outside it (\<open>outer\<close>: the queues,
  the run slot, the override). The hooks and tools of an agent are functions on that part as
  well; what they would do to the transcript through the setters during a run is not modelled.
\<close>

section \<open>State\<close>

record model_override =
  mo_model :: model
  mo_thinking_level :: thinking_level

record agent_state =
  as_system_prompt :: string
  as_model :: model
  as_thinking_level :: thinking_level
  as_messages :: "agent_message list"
  as_is_streaming :: bool
  as_streaming_message :: "agent_message option"
  as_pending_tool_calls :: "string set"
  as_error_message :: "string option"

record active_run =
  run_aborted :: bool       \<comment> \<open>what the run's \<open>AbortController\<close> has signalled\<close>
  run_model :: model

record 'e outer =
  ou_steering :: pending_queue
  ou_follow_up :: pending_queue
  ou_run :: "active_run option"
  ou_override :: "model_override option"
  ou_env :: 'e

type_synonym 'e listener = "agent_event \<Rightarrow> 'e outer \<Rightarrow> string option \<times> 'e outer"
  \<comment> \<open>the error of a listener is its text; it never carries the loop's abort marker\<close>

record 'e agent_world =
  aw_state :: agent_state
  aw_listeners :: "(nat \<times> 'e listener) list"
  aw_next_listener_id :: nat
  aw_skip_poll :: bool      \<comment> \<open>the cell that \<open>loop_config\<close> shares with the steering closure\<close>
  aw_outer :: "'e outer"

text \<open>The options of an agent, and the runtime that the loop reads through it.\<close>

record 'e agent_options =
  ao_tools :: "'e outer agent_tool list"
  ao_convert_to_llm :: "agent_message list \<Rightarrow> ('e outer, message list) op"
  ao_transform_context :: "(agent_message list \<Rightarrow> ('e outer, agent_message list) op) option"
  ao_stream_fn :: "(stream_request \<Rightarrow> ('e outer, model_stream) op) option"
  ao_get_api_key :: "(string \<Rightarrow> ('e outer, string option) op) option"
  ao_before_tool_call :: "(before_context \<Rightarrow> ('e outer, before_result option) op) option"
  ao_after_tool_call :: "(after_context \<Rightarrow> ('e outer, after_result option) op) option"
  ao_should_stop_after_turn :: "(stop_context \<Rightarrow> ('e outer, bool) op) option"
  ao_should_stop_before_turn :: "('e outer \<Rightarrow> bool \<times> 'e outer) option"
  ao_get_continuation_messages :: "(stop_context \<Rightarrow> ('e outer, agent_message list) op) option"
  ao_session_id :: "string option"
  ao_tool_execution :: tool_execution_mode

record 'e runtime =
  rt_now_ms :: "'e outer \<Rightarrow> int"
  rt_wait :: "'e outer \<Rightarrow> 'e outer"
  rt_schedule :: "'e outer \<Rightarrow> nat list"
  rt_emitter_first :: "'e outer \<Rightarrow> bool"
  rt_late :: "'e outer \<Rightarrow> nat list"
  rt_task_panic :: "'e outer \<Rightarrow> string option"
  rt_emitter_panic :: "'e outer \<Rightarrow> string option"
  rt_abort_wins :: "'e outer \<Rightarrow> bool"
  rt_stream_close :: "'e outer \<Rightarrow> 'e outer"
  rt_fp :: fp_ops
  rt_pretty :: "json \<Rightarrow> string"

definition model_unknown :: model where
  "model_unknown = \<lparr>md_id = ''unknown'', md_name = ''unknown'', md_api = ''unknown'',
     md_provider = ''unknown'', md_base_url = '''', md_reasoning = False,
     md_context_window = 0, md_max_tokens = 0\<rparr>"

record initial_agent =
  in_system_prompt :: "string option"
  in_model :: "model option"
  in_thinking_level :: "thinking_level option"
  in_messages :: "agent_message list option"
  in_steering_mode :: "queue_mode option"
  in_follow_up_mode :: "queue_mode option"

definition unwrap_or :: "'a \<Rightarrow> 'a option \<Rightarrow> 'a" where
  "unwrap_or d x = (case x of None \<Rightarrow> d | Some y \<Rightarrow> y)"

definition agent_new :: "initial_agent \<Rightarrow> 'e \<Rightarrow> 'e agent_world" where
  "agent_new i env =
     \<lparr>aw_state = \<lparr>as_system_prompt = unwrap_or '''' (in_system_prompt i),
        as_model = unwrap_or model_unknown (in_model i),
        as_thinking_level = unwrap_or ThOff (in_thinking_level i),
        as_messages = unwrap_or [] (in_messages i), as_is_streaming = False,
        as_streaming_message = None, as_pending_tool_calls = {}, as_error_message = None\<rparr>,
      aw_listeners = [], aw_next_listener_id = 0, aw_skip_poll = False,
      aw_outer = \<lparr>ou_steering = queue_new (unwrap_or QOneAtATime (in_steering_mode i)),
        ou_follow_up = queue_new (unwrap_or QOneAtATime (in_follow_up_mode i)),
        ou_run = None, ou_override = None, ou_env = env\<rparr>\<rparr>"

text \<open>\<open>default_convert_to_llm\<close>: the standard messages, in order.\<close>

fun standard_message :: "agent_message \<Rightarrow> message option" where
  "standard_message (Standard m) = Some m"
| "standard_message (Custom c) = None"

definition default_convert_to_llm :: "agent_message list \<Rightarrow> ('e outer, message list) op" where
  "default_convert_to_llm ms w = (Inr (List.map_filter standard_message ms), w)"

section \<open>Listeners\<close>

definition subscribe :: "'e listener \<Rightarrow> 'e agent_world \<Rightarrow> nat \<times> 'e agent_world" where
  "subscribe l w =
     (aw_next_listener_id w,
      w\<lparr>aw_next_listener_id := Suc (aw_next_listener_id w),
        aw_listeners := aw_listeners w @ [(aw_next_listener_id w, l)]\<rparr>)"

definition unsubscribe :: "nat \<Rightarrow> 'e agent_world \<Rightarrow> 'e agent_world" where
  "unsubscribe i w = w\<lparr>aw_listeners := filter (\<lambda>(j, _). j \<noteq> i) (aw_listeners w)\<rparr>"

section \<open>Reducing the events\<close>

fun reduce :: "agent_event \<Rightarrow> agent_state \<Rightarrow> agent_state" where
  "reduce (MessageStart m) st = st\<lparr>as_streaming_message := Some m\<rparr>"
| "reduce (MessageUpdate m _) st = st\<lparr>as_streaming_message := Some m\<rparr>"
| "reduce (MessageEnd m) st = st\<lparr>as_streaming_message := None, as_messages := as_messages st @ [m]\<rparr>"
| "reduce (ToolExecutionStart i _ _) st = st\<lparr>as_pending_tool_calls := insert i (as_pending_tool_calls st)\<rparr>"
| "reduce (ToolExecutionEnd i _ _ _) st = st\<lparr>as_pending_tool_calls := as_pending_tool_calls st - {i}\<rparr>"
| "reduce (TurnEnd (Standard (Assistant a)) _) st =
     (case am_error_message a of None \<Rightarrow> st | Some e \<Rightarrow> st\<lparr>as_error_message := Some e\<rparr>)"
| "reduce (AgentEnd _) st = st\<lparr>as_streaming_message := None\<rparr>"
| "reduce _ st = st"

fun notify :: "'e listener list \<Rightarrow> agent_event \<Rightarrow> 'e outer \<Rightarrow> (agent_error + unit) \<times> 'e outer" where
  "notify [] ev ou = (Inr (), ou)"
| "notify (l # ls) ev ou =
     (case l ev ou of
        (Some e, ou') \<Rightarrow> (Inl (OtherError e), ou')
      | (None, ou') \<Rightarrow> notify ls ev ou')"

definition process_events :: "agent_event \<Rightarrow> ('e agent_world, unit) op" where
  "process_events ev w =
     (let w1 = w\<lparr>aw_state := reduce ev (aw_state w)\<rparr>
      in case ou_run (aw_outer w) of
           None \<Rightarrow> (Inl (OtherError ''Agent listener invoked outside active run''), w1)
         | Some _ \<Rightarrow>
             (case notify (map snd (aw_listeners w)) ev (aw_outer w) of
                (r, ou) \<Rightarrow> (r, w1\<lparr>aw_outer := ou\<rparr>)))"

section \<open>The loop configuration of a run\<close>

definition on_outer :: "('e outer \<Rightarrow> 'r \<times> 'e outer) \<Rightarrow> 'e agent_world \<Rightarrow> 'r \<times> 'e agent_world" where
  "on_outer f w = (case f (aw_outer w) of (r, ou) \<Rightarrow> (r, w\<lparr>aw_outer := ou\<rparr>))"

definition on_outer_tool :: "'e outer agent_tool \<Rightarrow> 'e agent_world agent_tool" where
  "on_outer_tool t =
     \<lparr>tool_name = tool_name t, tool_description = tool_description t,
      tool_parameters = tool_parameters t, tool_prepare = tool_prepare t, tool_mode = tool_mode t,
      tool_polls = (\<lambda>i args w. tool_polls t i args (aw_outer w)),
      tool_poll = (\<lambda>i args. on_outer (tool_poll t i args)),
      tool_execute = (\<lambda>i args. on_outer (tool_execute t i args))\<rparr>"

definition drain_steering :: "('e outer, agent_message list) op" where
  "drain_steering ou =
     (case drain (ou_steering ou) of (ms, q) \<Rightarrow> (Inr ms, ou\<lparr>ou_steering := q\<rparr>))"

definition drain_follow_up :: "('e outer, agent_message list) op" where
  "drain_follow_up ou =
     (case drain (ou_follow_up ou) of (ms, q) \<Rightarrow> (Inr ms, ou\<lparr>ou_follow_up := q\<rparr>))"

definition poll_steering :: "('e agent_world, agent_message list) op" where
  "poll_steering w =
     (if aw_skip_poll w then (Inr [], w\<lparr>aw_skip_poll := False\<rparr>) else on_outer drain_steering w)"

definition run_signal :: "'e outer \<Rightarrow> bool" where
  "run_signal ou = (case ou_run ou of None \<Rightarrow> False | Some r \<Rightarrow> run_aborted r)"

definition loop_config_of ::
    "'e runtime \<Rightarrow> 'e agent_options \<Rightarrow> model_override option \<Rightarrow> agent_state \<Rightarrow> 'e agent_world loop_config" where
  "loop_config_of rt ao routed st =
     \<lparr>cf_sink = process_events,
      cf_has_signal = True,
      cf_signal = (\<lambda>w. run_signal (aw_outer w)),
      cf_abort_wins = (\<lambda>w. rt_abort_wins rt (aw_outer w)),
      cf_now_ms = (\<lambda>w. rt_now_ms rt (aw_outer w)),
      cf_wait = (\<lambda>w. w\<lparr>aw_outer := rt_wait rt (aw_outer w)\<rparr>),
      cf_schedule = (\<lambda>w. rt_schedule rt (aw_outer w)),
      cf_emitter_first = (\<lambda>w. rt_emitter_first rt (aw_outer w)),
      cf_late = (\<lambda>w. rt_late rt (aw_outer w)),
      cf_task_panic = (\<lambda>w. rt_task_panic rt (aw_outer w)),
      cf_emitter_panic = (\<lambda>w. rt_emitter_panic rt (aw_outer w)),
      cf_stream_fn = map_option (\<lambda>f req. on_outer (f req)) (ao_stream_fn ao),
      cf_stream_close = (\<lambda>w. w\<lparr>aw_outer := rt_stream_close rt (aw_outer w)\<rparr>),
      cf_fp = rt_fp rt,
      cf_pretty = rt_pretty rt,
      cf_system_prompt = as_system_prompt st,
      cf_tools = map on_outer_tool (ao_tools ao),
      cf_model = (case routed of Some r \<Rightarrow> mo_model r | None \<Rightarrow> as_model st),
      cf_api_key = None,
      cf_max_tokens = None,
      cf_reasoning = (case routed of Some r \<Rightarrow> mo_thinking_level r | None \<Rightarrow> as_thinking_level st),
      cf_session_id = ao_session_id ao,
      cf_service_tier = None,
      cf_convert_to_llm = (\<lambda>ms. on_outer (ao_convert_to_llm ao ms)),
      cf_transform_context = map_option (\<lambda>f ms. on_outer (f ms)) (ao_transform_context ao),
      cf_get_system_prompt = None,
      cf_get_api_key = map_option (\<lambda>f p. on_outer (f p)) (ao_get_api_key ao),
      cf_should_stop_after_turn = map_option (\<lambda>f ctx. on_outer (f ctx)) (ao_should_stop_after_turn ao),
      cf_should_stop_before_turn = map_option on_outer (ao_should_stop_before_turn ao),
      cf_get_steering_messages = Some poll_steering,
      cf_get_follow_up_messages = Some (on_outer drain_follow_up),
      cf_get_continuation_messages = map_option (\<lambda>f ctx. on_outer (f ctx)) (ao_get_continuation_messages ao),
      cf_tool_execution = ao_tool_execution ao,
      cf_before_tool_call = map_option (\<lambda>f ctx. on_outer (f ctx)) (ao_before_tool_call ao),
      cf_after_tool_call = map_option (\<lambda>f ctx. on_outer (f ctx)) (ao_after_tool_call ao)\<rparr>"

section \<open>The lifecycle of a run\<close>

definition failure_message :: "int \<Rightarrow> model \<Rightarrow> agent_error \<Rightarrow> bool \<Rightarrow> assistant_message" where
  "failure_message now m e is_ab =
     \<lparr>am_content = [AText \<lparr>tc_text = '''', tc_signature = None\<rparr>],
      am_api = md_api m, am_provider = md_provider m, am_model = md_id m,
      am_response_model = None, am_response_id = None,
      am_diagnostics = (if is_ab then None
        else Some [\<lparr>dg_kind = ''agent_lifecycle_failure'', dg_timestamp = now,
                    dg_error = Some (JStr (err_text e)),
                    dg_details = Some (JObj [(''source'', JStr ''run_with_lifecycle'')])\<rparr>]),
      am_usage = usage_zero,
      am_stop_reason = (if is_ab then StopAborted else StopError),
      am_stop_reason_raw = None,
      am_error_message = Some (err_text e),
      am_timestamp = now\<rparr>"

text \<open>The model that a failure is attributed to: the run's, else the override's, else the session's.\<close>

definition failure_model :: "'e agent_world \<Rightarrow> model" where
  "failure_model w =
     (case ou_run (aw_outer w) of
        Some r \<Rightarrow> run_model r
      | None \<Rightarrow> (case ou_override (aw_outer w) of Some r \<Rightarrow> mo_model r | None \<Rightarrow> as_model (aw_state w)))"

definition handle_run_failure :: "'e runtime \<Rightarrow> agent_error \<Rightarrow> bool \<Rightarrow> 'e agent_world \<Rightarrow> 'e agent_world" where
  "handle_run_failure rt e is_ab w =
     (let m = failure_message (rt_now_ms rt (aw_outer w)) (failure_model w) e is_ab;
          w1 = w\<lparr>aw_state := (aw_state w)\<lparr>as_error_message := am_error_message m\<rparr>\<rparr>;
          w2 = snd (process_events (MessageStart (from_assistant m)) w1);
          w3 = snd (process_events (MessageEnd (from_assistant m)) w2)
      in snd (process_events (AgentEnd [from_assistant m]) w3))"

definition finish_lifecycle :: "'e agent_world \<Rightarrow> 'e agent_world" where
  "finish_lifecycle w =
     w\<lparr>aw_state := (aw_state w)\<lparr>as_is_streaming := False, as_streaming_message := None,
                                as_pending_tool_calls := {}\<rparr>,
       aw_outer := (aw_outer w)\<lparr>ou_run := None\<rparr>\<rparr>"

definition begin_lifecycle :: "'e agent_world \<Rightarrow> 'e agent_world" where
  "begin_lifecycle w =
     w\<lparr>aw_state := (aw_state w)\<lparr>as_is_streaming := True, as_streaming_message := None,
                                as_error_message := None\<rparr>,
       aw_outer := (aw_outer w)\<lparr>ou_run := Some \<lparr>run_aborted = False,
          run_model = (case ou_override (aw_outer w) of
             Some r \<Rightarrow> mo_model r | None \<Rightarrow> as_model (aw_state w))\<rparr>\<rparr>\<rparr>"

text \<open>\<open>None\<close> is a run that does not return: then the agent stays busy.\<close>

definition run_with_lifecycle ::
    "'e runtime \<Rightarrow> (model_override option \<Rightarrow> 'e agent_world \<Rightarrow> ((agent_error + unit) \<times> 'e agent_world) option)
      \<Rightarrow> 'e agent_world \<Rightarrow> ((agent_error + unit) \<times> 'e agent_world) option" where
  "run_with_lifecycle rt executor w =
     (if ou_run (aw_outer w) \<noteq> None then Some (Inl (OtherError ''Agent is already processing.''), w)
      else case executor (ou_override (aw_outer w)) (begin_lifecycle w) of
             None \<Rightarrow> None
           | Some (Inr u, w') \<Rightarrow> Some (Inr u, finish_lifecycle w')
           | Some (Inl e, w') \<Rightarrow>
               Some (Inl e, finish_lifecycle (handle_run_failure rt e (run_signal (aw_outer w')) w')))"

definition run_prompt_messages ::
    "'e runtime \<Rightarrow> 'e agent_options \<Rightarrow> agent_message list \<Rightarrow> bool \<Rightarrow> 'e agent_world
      \<Rightarrow> ((agent_error + unit) \<times> 'e agent_world) option" where
  "run_prompt_messages rt ao messages skip =
     run_with_lifecycle rt (\<lambda>routed w.
       map_option (\<lambda>(r, s). (r, st_world s))
         (run_agent_loop (loop_config_of rt ao routed (aw_state w)) messages
            (as_messages (aw_state w)) (w\<lparr>aw_skip_poll := skip\<rparr>)))"

definition run_continuation ::
    "'e runtime \<Rightarrow> 'e agent_options \<Rightarrow> 'e agent_world \<Rightarrow> ((agent_error + unit) \<times> 'e agent_world) option" where
  "run_continuation rt ao =
     run_with_lifecycle rt (\<lambda>routed w.
       map_option (\<lambda>(r, s). (r, st_world s))
         (run_agent_loop_continue (loop_config_of rt ao routed (aw_state w))
            (as_messages (aw_state w)) (w\<lparr>aw_skip_poll := False\<rparr>)))"

definition run_queued_messages ::
    "'e runtime \<Rightarrow> 'e agent_options \<Rightarrow> 'e agent_world \<Rightarrow> ((agent_error + bool) \<times> 'e agent_world) option" where
  "run_queued_messages rt ao w =
     (let (steering, q) = drain (ou_steering (aw_outer w));
          w1 = w\<lparr>aw_outer := (aw_outer w)\<lparr>ou_steering := q\<rparr>\<rparr>
      in if steering \<noteq> [] then
           map_option (map_prod (map_sum id (\<lambda>_. True)) id) (run_prompt_messages rt ao steering True w1)
         else
           let (follow_ups, q') = drain (ou_follow_up (aw_outer w1));
               w2 = w1\<lparr>aw_outer := (aw_outer w1)\<lparr>ou_follow_up := q'\<rparr>\<rparr>
           in if follow_ups \<noteq> [] then
                map_option (map_prod (map_sum id (\<lambda>_. True)) id) (run_prompt_messages rt ao follow_ups False w2)
              else Some (Inr False, w2))"

section \<open>The public operations\<close>

datatype prompt_input = PromptMessages "agent_message list" | PromptText string "image_content list"

definition normalize_prompt_input :: "int \<Rightarrow> prompt_input \<Rightarrow> agent_message list" where
  "normalize_prompt_input now input =
     (case input of
        PromptMessages ms \<Rightarrow> ms
      | PromptText text images \<Rightarrow>
          [Standard (User \<lparr>um_content = UParts (UPText \<lparr>tc_text = text, tc_signature = None\<rparr> # map UPImage images),
                           um_timestamp = now\<rparr>)])"

definition prompt_busy :: string where
  "prompt_busy = ''Agent is already processing a prompt. Use steer() or followUp() to queue messages, or wait for completion.''"

definition prompt ::
    "'e runtime \<Rightarrow> 'e agent_options \<Rightarrow> prompt_input \<Rightarrow> 'e agent_world \<Rightarrow> ((agent_error + unit) \<times> 'e agent_world) option" where
  "prompt rt ao input w =
     (if ou_run (aw_outer w) \<noteq> None then Some (Inl (OtherError prompt_busy), w)
      else run_prompt_messages rt ao (normalize_prompt_input (rt_now_ms rt (aw_outer w)) input) False w)"

datatype continue_code = Busy | NothingToContinue

datatype continue_error = ContinueError continue_code string | RunError agent_error

definition from_run :: "((agent_error + 'a) \<times> 'e agent_world) option \<Rightarrow> ((continue_error + unit) \<times> 'e agent_world) option" where
  "from_run = map_option (map_prod (map_sum RunError (\<lambda>_. ())) id)"

text \<open>\<open>if self.run_queued_messages().await? { return Ok(()) }\<close>, then the given continuation.\<close>

definition queued_or_else ::
    "'e runtime \<Rightarrow> 'e agent_options \<Rightarrow> ('e agent_world \<Rightarrow> ((continue_error + unit) \<times> 'e agent_world) option)
      \<Rightarrow> 'e agent_world \<Rightarrow> ((continue_error + unit) \<times> 'e agent_world) option" where
  "queued_or_else rt ao k w =
     (case run_queued_messages rt ao w of
        None \<Rightarrow> None
      | Some (Inl e, w') \<Rightarrow> Some (Inl (RunError e), w')
      | Some (Inr True, w') \<Rightarrow> Some (Inr (), w')
      | Some (Inr False, w') \<Rightarrow> k w')"

definition continue_run ::
    "'e runtime \<Rightarrow> 'e agent_options \<Rightarrow> 'e agent_world \<Rightarrow> ((continue_error + unit) \<times> 'e agent_world) option" where
  "continue_run rt ao w =
     (if ou_run (aw_outer w) \<noteq> None then
        Some (Inl (ContinueError Busy ''Agent is already processing. Wait for completion before continuing.''), w)
      else if as_messages (aw_state w) = [] then
        queued_or_else rt ao (\<lambda>w'. Some (Inl (ContinueError NothingToContinue ''No messages to continue from''), w')) w
      else
        let r = role (last (as_messages (aw_state w)))
        in if r = ''assistant'' then
             queued_or_else rt ao (\<lambda>w'. Some (Inl (ContinueError NothingToContinue
               ''Cannot continue from message role: assistant''), w')) w
           else if r = ''custom'' then queued_or_else rt ao (\<lambda>w'. from_run (run_continuation rt ao w')) w
           else from_run (run_continuation rt ao w))"

definition abort_run :: "'e outer \<Rightarrow> 'e outer" where
  "abort_run ou = ou\<lparr>ou_run := map_option (\<lambda>r. r\<lparr>run_aborted := True\<rparr>) (ou_run ou)\<rparr>"

definition steer :: "message_batch \<Rightarrow> 'e outer \<Rightarrow> 'e outer" where
  "steer b ou = ou\<lparr>ou_steering := enqueue b (ou_steering ou)\<rparr>"

definition follow_up :: "message_batch \<Rightarrow> 'e outer \<Rightarrow> 'e outer" where
  "follow_up b ou = ou\<lparr>ou_follow_up := enqueue b (ou_follow_up ou)\<rparr>"

definition clear_all_queues :: "'e outer \<Rightarrow> 'e outer" where
  "clear_all_queues ou = ou\<lparr>ou_steering := queue_clear (ou_steering ou), ou_follow_up := queue_clear (ou_follow_up ou)\<rparr>"

definition remove_queued_messages :: "(agent_message \<Rightarrow> bool) \<Rightarrow> 'e outer \<Rightarrow> agent_message list \<times> 'e outer" where
  "remove_queued_messages p ou =
     (case remove_where p (ou_steering ou) of (r1, q1) \<Rightarrow>
      case remove_where p (ou_follow_up ou) of (r2, q2) \<Rightarrow>
        (r1 @ r2, ou\<lparr>ou_steering := q1, ou_follow_up := q2\<rparr>))"

definition has_queued_messages :: "'e outer \<Rightarrow> bool" where
  "has_queued_messages ou \<longleftrightarrow> has_items (ou_steering ou) \<or> has_items (ou_follow_up ou)"

definition reset_agent :: "'e agent_world \<Rightarrow> 'e agent_world" where
  "reset_agent w =
     w\<lparr>aw_state := (aw_state w)\<lparr>as_messages := [], as_is_streaming := False, as_streaming_message := None,
                                as_pending_tool_calls := {}, as_error_message := None\<rparr>,
       aw_outer := clear_all_queues (aw_outer w)\<rparr>"

definition append_messages :: "agent_message list \<Rightarrow> 'e agent_world \<Rightarrow> 'e agent_world" where
  "append_messages ms w = w\<lparr>aw_state := (aw_state w)\<lparr>as_messages := as_messages (aw_state w) @ ms\<rparr>\<rparr>"

end
