(* ===== verification/AgentView.thy ===== *)
theory AgentView
  imports ToolBatch
begin

text \<open>
  A view of the world that only the event sink changes. The locale \<open>event_sourced\<close> names
  what the loop relies on for that: the sink steps the view by the event it is given, and the
  hooks, the tools and the stream leave the view alone, and so does an update of a tool call.
  Then after every program of the loop, failing ones included, the view is the fold of the
  events the run has emitted so far, and the sink has been given those events and, between
  them, only updates of calls whose emitter was detached (\<open>heard_ok\<close>).
\<close>

section \<open>What the sink was given\<close>

fun update_of :: "string list \<Rightarrow> agent_event \<Rightarrow> bool" where
  "update_of ids (ToolExecutionUpdate i _ _ _) = (i \<in> set ids)"
| "update_of ids _ = False"

text \<open>The events of the run itself, among all that the sink was given.\<close>

definition own_events :: "(bool \<times> agent_event) list \<Rightarrow> agent_event list" where
  "own_events heard = [ev. (late, ev) \<leftarrow> heard, \<not> late]"

definition heard_ok :: "'w run_state \<Rightarrow> bool" where
  "heard_ok s \<longleftrightarrow>
     own_events (st_heard s) = st_trace s
     \<and> (\<forall>ev. (True, ev) \<in> set (st_heard s) \<longrightarrow> update_of (st_cut s) ev)
     \<and> (\<forall>q \<in> set (st_late s). \<forall>ev \<in> set q. update_of (st_cut s) ev)"

lemma own_events_snoc [simp]: "own_events (h @ [(late, ev)]) = own_events h @ (if late then [] else [ev])"
  by (simp add: own_events_def)

lemma update_of_more: "update_of ids ev \<Longrightarrow> update_of (ids @ js) ev"
  by (cases ev) simp_all

lemma heard_send: "heard_ok s \<Longrightarrow> heard_ok (snd (send cf ev s))"
  by (auto simp: send_def heard_ok_def split: prod.split)

lemma heard_late_one: "heard_ok s \<Longrightarrow> heard_ok (send_late_one cf i s)"
proof (cases "i < length (st_late s)")
  case True
  assume s: "heard_ok s"
  show ?thesis
  proof (cases "st_late s ! i")
    case (Cons ev evs)
    then have "ev # evs \<in> set (st_late s)" using True by (metis nth_mem)
    with s have upd: "update_of (st_cut s) ev" "\<forall>e \<in> set evs. update_of (st_cut s) e"
      by (auto simp: heard_ok_def)
    have "heard_ok (s\<lparr>st_world := w, st_heard := st_heard s @ [(True, ev)], st_late := (st_late s)[i := q]\<rparr>)"
      if "q = [] \<or> q = evs" for w q
      using s upd that unfolding heard_ok_def by (auto dest!: set_update_subset_insert[THEN subsetD])
    with Cons True show ?thesis by (auto simp: send_late_one_def split: prod.split sum.split)
  qed (simp add: send_late_one_def s)
qed (simp add: send_late_one_def)

lemma heard_detach:
  "heard_ok s \<Longrightarrow>
   heard_ok (s\<lparr>st_late := st_late s @ [map (ToolExecutionUpdate i n args) us], st_cut := st_cut s @ [i]\<rparr>)"
  by (auto simp: heard_ok_def update_of_more)

lemma heard_world [simp]: "heard_ok (s\<lparr>st_world := w\<rparr>) = heard_ok s"
  by (simp add: heard_ok_def)

section \<open>A view that the events determine\<close>

locale event_sourced =
  fixes cf :: "'w loop_config" and view :: "'w \<Rightarrow> 'v" and step :: "agent_event \<Rightarrow> 'v \<Rightarrow> 'v"
  assumes sink_view: "view (snd (cf_sink cf ev w)) = step ev (view w)"
    and wait_view: "view (cf_wait cf w) = view w"
    and close_view: "view (cf_stream_close cf w) = view w"
    and stream_view: "cf_stream_fn cf = Some f \<Longrightarrow> view (snd (f req w)) = view w"
    and convert_view: "view (snd (cf_convert_to_llm cf ms w)) = view w"
    and transform_view: "cf_transform_context cf = Some tf \<Longrightarrow> view (snd (tf ms w)) = view w"
    and api_key_view: "cf_get_api_key cf = Some kf \<Longrightarrow> view (snd (kf p w)) = view w"
    and after_turn_view: "cf_should_stop_after_turn cf = Some sf \<Longrightarrow> view (snd (sf ctx w)) = view w"
    and before_turn_view: "cf_should_stop_before_turn cf = Some bf \<Longrightarrow> view (snd (bf w)) = view w"
    and steering_view: "cf_get_steering_messages cf = Some pf \<Longrightarrow> view (snd (pf w)) = view w"
    and follow_up_view: "cf_get_follow_up_messages cf = Some pf \<Longrightarrow> view (snd (pf w)) = view w"
    and continuation_view: "cf_get_continuation_messages cf = Some cg \<Longrightarrow> view (snd (cg ctx w)) = view w"
    and before_tool_view: "cf_before_tool_call cf = Some bt \<Longrightarrow> view (snd (bt bctx w)) = view w"
    and after_tool_view: "cf_after_tool_call cf = Some af \<Longrightarrow> view (snd (af actx w)) = view w"
    and tool_view: "t \<in> set (cf_tools cf) \<Longrightarrow> view (snd (tool_execute t i args w)) = view w"
    and poll_view: "t \<in> set (cf_tools cf) \<Longrightarrow> view (snd (tool_poll t i args w)) = view w"
    and update_view: "step (ToolExecutionUpdate i n args u) v = v"
begin

text \<open>From a view \<open>fst v\<close> and a trace \<open>snd v\<close> on.\<close>

definition tracks :: "'v \<times> agent_event list \<Rightarrow> 'w run_state \<Rightarrow> bool" where
  "tracks v s \<longleftrightarrow>
     heard_ok s \<and> (\<exists>evs. st_trace s = snd v @ evs \<and> view (st_world s) = fold step evs (fst v))"

abbreviation tracking :: "'v \<times> agent_event list \<Rightarrow> ('w, 'a) agent \<Rightarrow> bool" where
  "tracking v m \<equiv> hoare (tracks v) m (\<lambda>_. tracks v) (\<lambda>_. tracks v)"

lemma tr_ret: "tracking v (ret x)" by (rule hoare_ret)
lemma tr_fail: "tracking v (fail e)" by (rule hoare_fail)
lemma tr_gets: "tracking v (gets f)" by (rule hoare_gets)
lemma tr_bnd: "tracking v m \<Longrightarrow> (\<And>x. tracking v (f x)) \<Longrightarrow> tracking v (bnd m f)" by (rule hoare_bnd)
lemma tr_thn: "tracking v m \<Longrightarrow> tracking v k \<Longrightarrow> tracking v (thn m k)" by (rule hoare_thn)
lemma tr_match: "tracking v m \<Longrightarrow> (\<And>x. tracking v (f x)) \<Longrightarrow> (\<And>e. tracking v (h e)) \<Longrightarrow> tracking v (match_result m f h)"
  by (rule hoare_match_result)
lemma tr_if: "tracking v m \<Longrightarrow> tracking v k \<Longrightarrow> tracking v (if b then m else k)" by simp
lemma tr_state_if: "tracking v m \<Longrightarrow> tracking v k \<Longrightarrow> tracking v (\<lambda>s. if b s then m s else k s)"
  by (rule hoare_state_if)
lemma tr_pure: "tracking v (\<lambda>s. (Inr (f s), s))" by (rule hoare_pure)
lemma tr_pure_error: "tracking v (\<lambda>s. (Inl (f s), s))" by (simp add: hoare_def)
lemma tr_for_each: "(\<And>x. tracking v (f x)) \<Longrightarrow> tracking v (for_each xs f)" by (rule hoare_for_each)
lemma tr_upd:
  "(\<And>s. st_trace (f s) = st_trace s \<and> st_heard (f s) = st_heard s \<and> st_late (f s) = st_late s \<and> st_cut (f s) = st_cut s) \<Longrightarrow>
   (\<And>s. view (st_world (f s)) = view (st_world s)) \<Longrightarrow> tracking v (upd f)"
  by (rule hoare_upd) (simp add: tracks_def heard_ok_def)

lemma tracks_late: "tracks v s \<Longrightarrow> tracks v (late_updates cf s)"
proof -
  have one: "tracks v (send_late_one cf i s)" if "tracks v s" for i s
  proof -
    have "heard_ok (send_late_one cf i s)" using that by (simp add: tracks_def heard_late_one)
    moreover have "st_trace (send_late_one cf i s) = st_trace s"
      by (simp add: send_late_one_def split: list.split prod.split)
    moreover have "view (st_world (send_late_one cf i s)) = view (st_world s)"
    proof (cases "i < length (st_late s) \<and> st_late s ! i \<noteq> []")
      case True
      then obtain ev evs where q: "st_late s ! i = ev # evs" by (cases "st_late s ! i") auto
      then have "ev # evs \<in> set (st_late s)" using True by (metis nth_mem)
      with that have "update_of (st_cut s) ev" by (auto simp: tracks_def heard_ok_def)
      then have "view (snd (cf_sink cf ev (st_world s))) = view (st_world s)"
        by (cases ev) (simp_all add: sink_view update_view)
      with True q show ?thesis by (auto simp: send_late_one_def split: prod.split)
    qed (auto simp: send_late_one_def)
    ultimately show ?thesis using that by (simp add: tracks_def)
  qed
  have "tracks v s \<Longrightarrow> tracks v (fold (send_late_one cf) is s)" for "is"
    by (induction "is" arbitrary: s) (simp_all add: one)
  then show "tracks v s \<Longrightarrow> tracks v (late_updates cf s)" by (simp add: late_updates_def)
qed

lemma tracks_world: "tracks v s \<Longrightarrow> view w = view (st_world s) \<Longrightarrow> tracks v (s\<lparr>st_world := w\<rparr>)"
  by (simp add: tracks_def)

lemma tracks_sync: "(\<And>w. view (snd (f w)) = view w) \<Longrightarrow> tracks v s \<Longrightarrow> tracks v (snd (sync_world f s))"
  using tracks_world[of v s "snd (f (st_world s))"] by (simp add: sync_world_def split_beta)

lemma tr_all: "(\<And>s. tracks v s \<Longrightarrow> tracks v (snd (m s))) \<Longrightarrow> tracking v m"
  by (rule hoareI) (metis snd_conv)+

lemma tr_sync_world: "(\<And>w. view (snd (f w)) = view w) \<Longrightarrow> tracking v (sync_world f)"
  by (intro tr_all tracks_sync)

lemma tr_in_world: "(\<And>w. view (snd (f w)) = view w) \<Longrightarrow> tracking v (in_world cf f)"
  unfolding in_world_def by (intro tr_all tracks_sync tracks_late)

lemma tracks_send:
  assumes "tracks v s"
  shows "tracks v (snd (send cf ev s))"
proof -
  obtain evs where evs: "st_trace s = snd v @ evs" "view (st_world s) = fold step evs (fst v)"
    using assms by (auto simp: tracks_def)
  have "st_trace (snd (send cf ev s)) = snd v @ evs @ [ev]
      \<and> view (st_world (snd (send cf ev s))) = fold step (evs @ [ev]) (fst v)"
    using evs sink_view[of ev "st_world s"] by (simp add: send_def split_beta)
  then show ?thesis using assms heard_send[of s cf ev] unfolding tracks_def by blast
qed

lemma tr_emit: "tracking v (emit cf ev)"
  unfolding emit_def by (intro tr_all tracks_send tracks_late)

lemma tr_race: "tracking v m \<Longrightarrow> tracking v (race cf m)"
proof (rule hoareI)
  fix s x s' assume m: "tracking v m" and s: "tracks v s" and "race cf m s = (Inr x, s')"
  then have "m s = (Inr x, s')" by (cases "m s") (simp add: race_def split: if_splits)
  with m s show "tracks v s'" by (rule hoare_value)
next
  fix s e s' assume m: "tracking v m" and s: "tracks v s" and "race cf m s = (Inl e, s')"
  then consider "s' = s" | r where "m s = (r, s')" by (cases "m s") (simp add: race_def split: if_splits)
  then show "tracks v s'"
  proof cases
    case (2 r)
    with m s show ?thesis by (cases r) (auto dest: hoare_value hoare_error)
  qed (use s in simp)
qed

lemma tr_throw: "tracking v (throw_if_aborted cf)"
  by (simp add: throw_if_aborted_def hoare_def)

lemma tr_settle: "tracking v m \<Longrightarrow> tracking v (settle_post_turn cf m)"
  unfolding settle_post_turn_def by (intro tr_match tr_ret tr_state_if tr_pure tr_pure_error)

lemma tr_poll: "(\<And>p w. poll = Some p \<Longrightarrow> view (snd (p w)) = view w) \<Longrightarrow> tracking v (poll_messages_unless_aborted cf poll)"
  unfolding poll_messages_unless_aborted_def
  by (cases poll) (auto intro!: tr_ret tr_state_if tr_pure tr_race tr_in_world)

lemma tr_push_message: "tracking v (push_message m)"
  unfolding push_message_def by (rule tr_upd) simp_all

lemma tr_push_new: "tracking v (push_new m)"
  unfolding push_new_def by (rule tr_upd) simp_all

lemma tr_replace: "tracking v (replace_last_message m)"
  unfolding replace_last_message_def by (rule tr_upd) simp_all

lemma tr_set_partial: "tracking v (set_partial m)"
  unfolding set_partial_def by (rule tr_upd) simp_all

lemmas tr_basic = tr_ret tr_fail tr_gets tr_bnd tr_thn tr_match tr_if tr_pure tr_for_each tr_emit tr_race
  tr_throw tr_settle tr_push_message tr_push_new tr_replace tr_set_partial

section \<open>The streaming of a response\<close>

lemma tr_next_event: "tracking v (next_event cf)"
  unfolding next_event_def by (intro tr_basic tr_in_world tr_upd) (simp_all add: wait_view close_view)

lemma tr_stream_result: "tracking v (stream_result cf r)"
  unfolding stream_result_def by (intro tr_basic tr_in_world) (simp add: wait_view)

lemma tr_deliver: "tracking v (deliver_final cf m)"
  unfolding deliver_final_def by (intro tr_basic)

lemma tr_resolve: "tracking v (resolve_final cf m r)"
  unfolding resolve_final_def by (intro tr_match tr_stream_result tr_ret tr_state_if tr_pure tr_pure_error)

lemma tr_read_stream: "tracking v (read_stream cf evs r)"
proof (induction evs)
  case Nil
  show ?case by (simp, intro tr_thn tr_bnd tr_next_event tr_stream_result tr_deliver)
next
  case (Cons ev evs)
  have start: "tracking v (upd (\<lambda>s. s\<lparr>st_added := True\<rparr>))" by (rule tr_upd) simp_all
  show ?case
    by (cases ev)
       (auto intro!: tr_thn tr_bnd tr_next_event tr_resolve tr_deliver tr_push_message tr_set_partial
          tr_emit Cons.IH start)
qed

lemma tr_transformed: "tracking v (transformed_messages cf)"
  unfolding transformed_messages_def
  by (auto intro!: tr_bnd tr_gets tr_ret tr_race tr_in_world split: option.split simp: transform_view)

lemma tr_api_key: "tracking v (resolved_api_key cf)"
  unfolding resolved_api_key_def
  by (auto intro!: tr_bnd tr_ret tr_race tr_in_world split: option.split simp: api_key_view)

lemma tr_stream_inner: "tracking v (stream_assistant_response_inner cf)"
  unfolding stream_assistant_response_inner_def
  by (auto intro!: tr_thn tr_bnd tr_throw tr_transformed tr_race tr_in_world tr_fail tr_api_key tr_gets
      tr_read_stream split: option.split simp: convert_view stream_view)

lemma tr_stream: "tracking v (stream_assistant_response cf)"
proof -
  have reset: "tracking v (upd (\<lambda>s. s\<lparr>st_partial := None, st_added := False\<rparr>))" by (rule tr_upd) simp_all
  have "tracking v (finish_aborted_message cf)"
    unfolding finish_aborted_message_def by (rule hoare_state) (rule tr_deliver)
  then show ?thesis
    unfolding stream_assistant_response_def
    by (intro tr_thn reset tr_match tr_stream_inner tr_ret tr_state_if tr_pure_error)
qed

end

section \<open>Tools\<close>

sublocale event_sourced \<subseteq> tools: tool_kept cf "tracks v" for v
proof
  show "tracks v s \<Longrightarrow> tracks v (late_updates cf s)" for s by (rule tracks_late)
  show "tracks v s \<Longrightarrow> tracks v (snd (send cf ev s))" for ev s by (rule tracks_send)
  show "tracks v s \<Longrightarrow>
      tracks v (s\<lparr>st_late := st_late s @ [map (ToolExecutionUpdate i n args) us], st_cut := st_cut s @ [i]\<rparr>)"
    for s i n args us
    by (simp add: tracks_def heard_detach)
qed (simp_all add: tracks_sync tracks_world before_tool_view after_tool_view tool_view poll_view)

context event_sourced
begin

lemma tr_report: "tracking v (report_result cf f)"
  unfolding report_result_def emit_tool_result_message_def by (intro tr_bnd tr_gets tr_thn tr_emit tr_ret)

lemma tr_reports: "tracking v (report_results cf fs)"
  by (induction fs) (auto intro!: tr_ret tr_bnd tr_report)

lemma tr_sequential_loop: "tracking v (sequential_loop cf asst calls)"
proof (induction calls)
  case (Cons call calls)
  have "tracking v (bnd (sequential_call cf asst call) (\<lambda>f. bnd (report_result cf f) (\<lambda>m s'.
      if aborted cf s' then (Inr [(m, f)], s')
      else bnd (sequential_loop cf asst calls) (\<lambda>rest. ret ((m, f) # rest)) s')))"
    by (intro tr_bnd tools.keeps_sequential_call tr_report tr_state_if tr_pure Cons.IH tr_ret)
  then show ?case unfolding sequential_loop.simps by (rule tr_state_if[OF tr_pure])
qed (simp add: tr_ret)

lemma tr_parallel: "tracking v (execute_tool_calls_parallel cf asst calls)"
proof -
  have join: "hoare (\<lambda>s. tracks v s \<and> known_tools cf sls)
      (bnd (parallel_join cf asst is sls) (\<lambda>fs. bnd (report_results cf fs) (\<lambda>ms.
        ret \<lparr>eb_messages = ms, eb_terminate = should_terminate_tool_batch fs\<rparr>)))
      (\<lambda>_. tracks v) (\<lambda>_. tracks v)" for "is" sls
  proof (cases "known_tools cf sls")
    case True
    then show ?thesis by (simp add: tr_bnd tools.keeps_join tr_reports tr_ret)
  qed (simp add: hoare_def)
  show ?thesis
    unfolding execute_tool_calls_parallel_def by (rule hoare_bnd[OF tools.keeps_spawn join]) simp
qed

lemma tr_tools: "tracking v (turn_tools cf asst)"
proof -
  have "tracking v (execute_tool_calls cf asst)"
    unfolding execute_tool_calls_def execute_tool_calls_sequential_def Let_def
    by (intro tr_if tr_bnd tr_ret tr_sequential_loop tr_parallel)
  then show ?thesis
    unfolding turn_tools_def push_tool_result_def
    by (intro tr_if tr_bnd tr_thn tr_ret tr_for_each tr_push_message tr_push_new)
qed

section \<open>The loop\<close>

lemma tr_stop: "tracking v (should_stop_before_turn cf b)"
proof -
  have "view (snd (let (b, w') = f w in (Inr b, w'))) = view w" if "cf_should_stop_before_turn cf = Some f" for f w
    using before_turn_view[OF that, of w] by (cases "f w") simp
  then show ?thesis
    unfolding should_stop_before_turn_def by (auto intro!: tr_ret tr_sync_world split: option.split)
qed

lemma tr_finish: "tracking v (finish_run cf)"
  unfolding finish_run_def emit_agent_end_def by (intro tr_thn tr_bnd tr_gets tr_emit tr_ret)

lemma tr_after_turn: "tracking v (after_turn cf ctx again)"
  unfolding after_turn_def
  by (auto intro!: tr_bnd tr_settle tr_race tr_in_world tr_ret tr_finish tr_stop tr_poll
      split: option.split post_turn.split bool.split simp: after_turn_view steering_view)

lemma tr_turn: "tracking v (turn cf lv)"
proof -
  have after: "tracking v (\<lambda>s. if aborted cf s then finish_run cf s else after_turn cf (ctx s) again s)" for ctx again
    by (rule tr_state_if, rule tr_finish, rule hoare_state, rule tr_after_turn)
  show ?thesis
    unfolding turn_def inject_message_def
    by (auto intro!: tr_thn tr_bnd tr_throw tr_if tr_ret tr_emit tr_for_each tr_push_message tr_push_new
        tr_stream tr_finish tr_tools after)
qed

lemma tr_boundary: "tracking v (boundary cf lv)"
  unfolding boundary_def poll_continuation_def
  by (auto intro!: tr_bnd tr_thn tr_settle tr_race tr_in_world tr_ret tr_finish tr_stop tr_poll tr_throw
      split: option.split post_turn.split simp: follow_up_view continuation_view)

lemma tr_loop_step: "tracking v (loop_step cf lv)"
  unfolding loop_step_def by (intro tr_if tr_turn tr_boundary)

lemma tr_iterate:
  assumes "iterate cf lv s = Some (r, s')" and "tracks v s"
  shows "tracks v s'"
proof -
  have "iterate cf' lv s = Some y \<Longrightarrow> cf' = cf \<longrightarrow> tracks v s \<longrightarrow> tracks v (snd y)" for cf' lv s y
  proof (induction cf' lv s y rule: iterate.raw_induct[rotated, consumes 1, case_names step])
    case (step it cf' lv s y)
    show ?case
    proof (intro impI)
      assume cf: "cf' = cf" and s: "tracks v s"
      obtain x s1 where run: "loop_step cf lv s = (x, s1)" by fastforce
      have s1: "tracks v s1"
        using run s hoare_value[OF tr_loop_step] hoare_error[OF tr_loop_step] by (cases x) blast+
      show "tracks v (snd y)"
      proof (cases x)
        case (Inl e)
        with step(2) run cf s1 show ?thesis by auto
      next
        case (Inr fl)
        with step run cf s1 show ?thesis by (cases fl) auto
      qed
    qed
  qed
  from this[OF assms(1)] assms(2) show ?thesis by simp
qed

lemma tr_run_loop:
  assumes "run_loop cf s = Some (r, s')" and "tracks v s"
  shows "tracks v s'"
proof -
  have start: "tracking v (start_vars cf)"
    unfolding start_vars_def by (intro tr_bnd tr_poll tr_thn tr_throw tr_ret) (simp add: steering_view)
  obtain x s1 where run: "start_vars cf s = (x, s1)" by fastforce
  have "tracks v s1" using run assms(2) hoare_value[OF start] hoare_error[OF start] by (cases x) blast+
  with assms(1) run show ?thesis by (cases x) (auto simp: run_loop_def intro: tr_iterate)
qed

lemma tr_announce_run: "tracking v (announce_run cf prompts)"
  unfolding announce_run_def announce_def by (intro tr_thn tr_emit tr_for_each)

lemma initial_tracks: "tracks (view w, []) (initial_state ms ns w)"
  by (simp add: tracks_def initial_state_def heard_ok_def own_events_def)

text \<open>
  After a run, whether it succeeds or fails, the view is the fold of its events; and the
  events of a run extend those that announced it.
\<close>

lemma announced_tracks:
  assumes "announce_run cf prompts (initial_state ms ns w) = (x, s)"
  shows "tracks (view w, []) s"
  using assms hoare_value[OF tr_announce_run initial_tracks] hoare_error[OF tr_announce_run initial_tracks]
  by (cases x) blast+

lemma run_agent_loop_tracks:
  assumes "run_agent_loop cf prompts messages w = Some (r, s)"
  shows "tracks (view w, []) s"
proof -
  obtain x s1 where a: "announce_run cf prompts (initial_state (messages @ prompts) prompts w) = (x, s1)" by fastforce
  with assms announced_tracks[OF a] show ?thesis
    by (cases x) (auto simp: run_agent_loop_def intro: tr_run_loop)
qed

lemma run_agent_loop_continue_tracks:
  assumes "run_agent_loop_continue cf messages w = Some (r, s)"
  shows "tracks (view w, []) s"
proof -
  obtain x s1 where a: "announce_run cf [] (initial_state messages [] w) = (x, s1)" by fastforce
  with assms announced_tracks[OF a] initial_tracks[of w messages "[]"] show ?thesis
    by (cases x) (auto simp: run_agent_loop_continue_def Let_def intro: tr_run_loop split: if_splits)
qed

lemma run_agent_loop_view:
  "run_agent_loop cf prompts messages w = Some (r, s) \<Longrightarrow>
   view (st_world s) = fold step (st_trace s) (view w)"
  by (drule run_agent_loop_tracks) (auto simp: tracks_def)

lemma run_agent_loop_heard: "run_agent_loop cf prompts messages w = Some (r, s) \<Longrightarrow> heard_ok s"
  by (drule run_agent_loop_tracks) (simp add: tracks_def)

lemma run_agent_loop_continue_view:
  "run_agent_loop_continue cf messages w = Some (r, s) \<Longrightarrow>
   view (st_world s) = fold step (st_trace s) (view w)"
  by (drule run_agent_loop_continue_tracks) (auto simp: tracks_def)

lemma run_agent_loop_continue_heard: "run_agent_loop_continue cf messages w = Some (r, s) \<Longrightarrow> heard_ok s"
  by (drule run_agent_loop_continue_tracks) (simp add: tracks_def)

lemma run_loop_extends:
  assumes "run_loop cf s = Some (r, s')" and "heard_ok s"
  obtains evs where "st_trace s' = st_trace s @ evs"
proof -
  have "tracks (view (st_world s), st_trace s) s" using assms(2) by (simp add: tracks_def)
  then have "tracks (view (st_world s), st_trace s) s'" by (rule tr_run_loop[OF assms(1)])
  with that show ?thesis by (auto simp: tracks_def)
qed

end

end
