(* ===== verification/Scripted.thy ===== *)
theory Scripted
  imports AgentRun Rust_Text
begin

text \<open>
  The scripted provider of \<open>crates/pa-agent/src/scripted.rs\<close>: the script builders, the stream
  that plays a script, and the stream function that serves the queued turns. A turn is queued
  here through the builder that makes it; a stalled turn never ends its reads by itself and a
  step that sleeps does nothing the loop sees, so neither is modelled. The last section is the
  producer side of \<open>stream.rs\<close>.
\<close>

section \<open>Chunks\<close>

fun chunks :: "nat \<Rightarrow> 'a list \<Rightarrow> 'a list list" where
  "chunks n xs = (if xs = [] \<or> n = 0 then [] else take n xs # chunks n (drop n xs))"

declare chunks.simps [simp del]

lemma concat_chunks: "0 < n \<Longrightarrow> concat (chunks n xs) = xs"
proof (induction n xs rule: chunks.induct)
  case (1 n xs)
  then show ?case by (cases "xs = []") (subst chunks.simps; simp)+
qed

section \<open>The builders\<close>

definition empty_partial :: "int \<Rightarrow> model \<Rightarrow> assistant_message" where
  "empty_partial now m =
     \<lparr>am_content = [], am_api = md_api m, am_provider = md_provider m, am_model = md_id m,
      am_response_model = None, am_response_id = None, am_diagnostics = None,
      am_usage = usage_zero, am_stop_reason = StopStop, am_stop_reason_raw = None,
      am_error_message = None, am_timestamp = now\<rparr>"

definition text_of :: "string \<Rightarrow> assistant_content" where
  "text_of t = AText \<lparr>tc_text = t, tc_signature = None\<rparr>"

text \<open>\<open>if let Some(Text(t)) = content.get_mut(i) { t.text = f(t.text) }\<close>\<close>

definition map_text_at :: "nat \<Rightarrow> (string \<Rightarrow> string) \<Rightarrow> assistant_message \<Rightarrow> assistant_message" where
  "map_text_at i f m =
     (if i < length (am_content m) then
        (case am_content m ! i of
           AText t \<Rightarrow> m\<lparr>am_content := (am_content m)[i := AText (t\<lparr>tc_text := f (tc_text t)\<rparr>)]\<rparr>
         | _ \<Rightarrow> m)
      else m)"

definition text_at :: "nat \<Rightarrow> assistant_message \<Rightarrow> string" where
  "text_at i m =
     (if i < length (am_content m) then
        (case am_content m ! i of AText t \<Rightarrow> tc_text t | _ \<Rightarrow> '''') else '''')"

fun delta_steps :: "nat \<Rightarrow> string list \<Rightarrow> assistant_message \<Rightarrow> stream_event list \<times> assistant_message" where
  "delta_steps i [] partial = ([], partial)"
| "delta_steps i (chunk # cs) partial =
     (let delta = from_utf8_lossy chunk;
          partial' = map_text_at i (\<lambda>t. t @ delta) partial;
          (evs, last) = delta_steps i cs partial'
      in (EvTextDelta i delta partial' # evs, last))"

definition text_delta_steps :: "assistant_message \<Rightarrow> nat \<Rightarrow> string \<Rightarrow> stream_event list" where
  "text_delta_steps base i text =
     (let partial = base\<lparr>am_content := am_content base @ [text_of '''']\<rparr>;
          (evs, last) = delta_steps i (chunks 8 text) partial
      in EvTextStart i partial # evs @ [EvTextEnd i (text_at i last) last])"

fun text_end_partial :: "stream_event \<Rightarrow> assistant_message option" where
  "text_end_partial (EvTextEnd _ _ p) = Some p"
| "text_end_partial _ = None"

definition text_turn_steps :: "int \<Rightarrow> model \<Rightarrow> string \<Rightarrow> stream_event list" where
  "text_turn_steps now m text =
     (let base = empty_partial now m;
          steps = EvStart base # text_delta_steps base 0 text;
          final = (case List.map_filter text_end_partial (rev steps) of
                     p # _ \<Rightarrow> p
                   | [] \<Rightarrow> base\<lparr>am_content := am_content base @ [text_of text]\<rparr>)
      in steps @ [EvDone StopStop final])"

text \<open>
  The final partial of a tool-call turn: \<open>partial.content.get_mut(0)\<close> looks for a text part in
  the base partial, not in the one that the text steps have built.
\<close>

fun tool_call_steps ::
    "(json \<Rightarrow> string) \<Rightarrow> nat \<Rightarrow> (string \<times> string \<times> json) list \<Rightarrow> assistant_message
      \<Rightarrow> stream_event list \<times> assistant_message" where
  "tool_call_steps to_str i [] partial = ([], partial)"
| "tool_call_steps to_str i ((ident, name, args) # calls) partial =
     (let call = \<lparr>call_id = ident, call_name = name, call_arguments = args, call_thought_signature = None\<rparr>;
          partial' = partial\<lparr>am_content := am_content partial @ [AToolCall call]\<rparr>;
          (evs, last) = tool_call_steps to_str (Suc i) calls partial'
      in ([EvToolCallStart i partial, EvToolCallDelta i (to_str args) partial,
           EvToolCallEnd i call partial'] @ evs, last))"

definition tool_call_turn_steps ::
    "(json \<Rightarrow> string) \<Rightarrow> int \<Rightarrow> model \<Rightarrow> string option \<Rightarrow> (string \<times> string \<times> json) list \<Rightarrow> stream_event list" where
  "tool_call_turn_steps to_str now m text calls =
     (let base = empty_partial now m;
          text_steps = (case text of None \<Rightarrow> [] | Some t \<Rightarrow> text_delta_steps base 0 t);
          partial = (case text of None \<Rightarrow> base | Some t \<Rightarrow> map_text_at 0 (\<lambda>_. t) base);
          (call_steps, last) = tool_call_steps to_str (case text of None \<Rightarrow> 0 | Some _ \<Rightarrow> 1) calls partial
      in [EvStart base] @ text_steps @ call_steps @ [EvDone StopToolUse last])"

definition stream_failure_steps :: "int \<Rightarrow> model \<Rightarrow> string \<Rightarrow> string \<Rightarrow> stream_event list" where
  "stream_failure_steps now m partial_text error_message =
     (let base = empty_partial now m
      in [EvStart base] @ text_delta_steps base 0 partial_text
         @ [EvError StopError
              (base\<lparr>am_content := am_content base @ [text_of partial_text],
                    am_stop_reason := StopError, am_error_message := Some error_message\<rparr>)])"

section \<open>The provider\<close>

datatype scripted_turn =
    TextTurn string
  | ToolCallTurn "string option" "(string \<times> string \<times> json) list"
  | StreamFailureTurn string string
  | FailStart string

record scripted_provider =
  sp_model :: model
  sp_turns :: "scripted_turn list"
  sp_calls :: "stream_request list"

fun turn_steps :: "(json \<Rightarrow> string) \<Rightarrow> int \<Rightarrow> model \<Rightarrow> scripted_turn \<Rightarrow> stream_event list" where
  "turn_steps to_str now m (TextTurn t) = text_turn_steps now m t"
| "turn_steps to_str now m (ToolCallTurn t calls) = tool_call_turn_steps to_str now m t calls"
| "turn_steps to_str now m (StreamFailureTurn t e) = stream_failure_steps now m t e"
| "turn_steps to_str now m (FailStart _) = []"

text \<open>
  \<open>ScriptedStream::next_event\<close> yields the events up to the first terminal one, whose message
  is what \<open>result()\<close> resolves to; every built turn has one.
\<close>

fun until_terminal :: "stream_event list \<Rightarrow> stream_event list" where
  "until_terminal [] = []"
| "until_terminal (ev # evs) = (if terminal_message ev \<noteq> None then [ev] else ev # until_terminal evs)"

fun first_terminal :: "stream_event list \<Rightarrow> assistant_message option" where
  "first_terminal [] = None"
| "first_terminal (ev # evs) = (case terminal_message ev of Some m \<Rightarrow> Some m | None \<Rightarrow> first_terminal evs)"

definition scripted_stream :: "stream_event list \<Rightarrow> model_stream" where
  "scripted_stream steps =
     \<lparr>sm_events = until_terminal steps,
      sm_result = (case first_terminal steps of
         Some m \<Rightarrow> Inr m | None \<Rightarrow> Inl (OtherError ''pending''))\<rparr>"

definition scripted_stream_fn ::
    "(json \<Rightarrow> string) \<Rightarrow> int \<Rightarrow> stream_request \<Rightarrow> (scripted_provider, model_stream) op" where
  "scripted_stream_fn to_str now req p =
     (let p1 = p\<lparr>sp_calls := sp_calls p @ [req]\<rparr>
      in case sp_turns p1 of
           [] \<Rightarrow> (Inl (OtherError ''ScriptedProvider exhausted: no scripted turn available''), p1)
         | t # ts \<Rightarrow>
             (let p2 = p1\<lparr>sp_turns := ts\<rparr>
              in case t of
                   FailStart msg \<Rightarrow> (Inl (OtherError msg), p2)
                 | _ \<Rightarrow> (Inr (scripted_stream (turn_steps to_str now (sp_model p) t)), p2)))"

section \<open>The scripts follow the protocol\<close>

lemma stream_ok_deltas: "list_all is_delta xs \<Longrightarrow> stream_ok True (xs @ ys) = stream_ok True ys"
proof (induction xs)
  case (Cons x xs)
  then show ?case by (cases x) auto
qed simp

lemma delta_steps_deltas: "list_all is_delta (fst (delta_steps i cs p))"
  by (induction i cs p rule: delta_steps.induct) (auto simp: Let_def split: prod.splits)

lemma text_delta_steps_deltas: "list_all is_delta (text_delta_steps base i body)"
  using delta_steps_deltas[of i "chunks 8 body"]
  by (auto simp: text_delta_steps_def Let_def split: prod.splits) (metis fst_conv)

lemma tool_call_steps_deltas: "list_all is_delta (fst (tool_call_steps to_str i calls p))"
  by (induction to_str i calls p rule: tool_call_steps.induct) (auto simp: Let_def split: prod.splits)

lemma turn_steps_shape:
  obtains (fails) msg where "t = FailStart msg"
  | (plays) base ds final where "turn_steps to_str now m t = [EvStart base] @ ds @ [final]"
      "list_all is_delta ds" "terminal_message final \<noteq> None"
proof (cases t)
  case (TextTurn body)
  show ?thesis
    by (rule plays[of "empty_partial now m" "text_delta_steps (empty_partial now m) 0 body"])
       (simp add: TextTurn text_turn_steps_def Let_def, simp_all add: text_delta_steps_deltas)
next
  case (ToolCallTurn body calls)
  let ?partial = "case body of None \<Rightarrow> empty_partial now m | Some t \<Rightarrow> map_text_at 0 (\<lambda>_. t) (empty_partial now m)"
  let ?steps = "tool_call_steps to_str (case body of None \<Rightarrow> 0 | Some _ \<Rightarrow> 1) calls ?partial"
  show ?thesis
    by (rule plays[of "empty_partial now m"
          "(case body of None \<Rightarrow> [] | Some t \<Rightarrow> text_delta_steps (empty_partial now m) 0 t) @ fst ?steps"
          "EvDone StopToolUse (snd ?steps)"])
       (simp_all add: ToolCallTurn tool_call_turn_steps_def Let_def text_delta_steps_deltas
          tool_call_steps_deltas split: prod.split option.split)
next
  case (StreamFailureTurn body e)
  show ?thesis
    by (rule plays[of "empty_partial now m" "text_delta_steps (empty_partial now m) 0 body"])
       (simp add: StreamFailureTurn stream_failure_steps_def Let_def, simp_all add: text_delta_steps_deltas)
qed (rule fails)

lemma until_terminal_shape:
  "list_all is_delta ds \<Longrightarrow> terminal_message final \<noteq> None \<Longrightarrow>
   until_terminal (ds @ [final]) = ds @ [final] \<and> first_terminal (ds @ [final]) = terminal_message final"
proof (induction ds)
  case (Cons d ds)
  then have "terminal_message d = None" by (cases d) auto
  with Cons show ?case by simp
qed auto

lemma scripted_protocol:
  assumes "scripted_stream_fn to_str now req p = (Inr ms, p')"
  shows "stream_ok False (sm_events ms)"
proof -
  obtain t ts where t: "sp_turns p = t # ts" and ms: "ms = scripted_stream (turn_steps to_str now (sp_model p) t)"
    and "\<nexists>msg. t = FailStart msg"
    using assms by (auto simp: scripted_stream_fn_def Let_def split: list.splits scripted_turn.splits)
  then obtain base ds final where steps: "turn_steps to_str now (sp_model p) t = [EvStart base] @ ds @ [final]"
    and ds: "list_all is_delta ds" and final: "terminal_message final \<noteq> None"
    by (metis turn_steps_shape)
  have "stream_ok True [final]" using final by (cases final) auto
  then show ?thesis
    using stream_ok_deltas[of ds "[final]"] ds final
    by (simp add: ms scripted_stream_def steps until_terminal_shape)
qed

section \<open>What the builders build\<close>

lemma delta_steps_text:
  "snd (delta_steps 0 cs ((p :: assistant_message)\<lparr>am_content := [text_of t]\<rparr>))
     = p\<lparr>am_content := [text_of (t @ concat (map from_utf8_lossy cs))]\<rparr>"
proof (induction cs arbitrary: t)
  case (Cons c cs)
  have "map_text_at 0 (\<lambda>t. t @ from_utf8_lossy c) (p\<lparr>am_content := [text_of t]\<rparr>)
      = p\<lparr>am_content := [text_of (t @ from_utf8_lossy c)]\<rparr>"
    by (simp add: map_text_at_def text_of_def)
  with Cons[of "t @ from_utf8_lossy c"] show ?case by (auto simp: Let_def split: prod.splits)
qed simp

lemma text_turn_final:
  "last (text_turn_steps now m body) =
     EvDone StopStop ((empty_partial now m)\<lparr>am_content :=
       [text_of (concat (map from_utf8_lossy (chunks 8 body)))]\<rparr>)"
proof -
  have "text_delta_steps (empty_partial now m) 0 body =
      (let (evs, l) = delta_steps 0 (chunks 8 body) ((empty_partial now m)\<lparr>am_content := [text_of '''']\<rparr>)
       in EvTextStart 0 ((empty_partial now m)\<lparr>am_content := [text_of '''']\<rparr>) # evs @ [EvTextEnd 0 (text_at 0 l) l])"
    by (simp add: text_delta_steps_def empty_partial_def Let_def)
  then show ?thesis
    using delta_steps_text[of "chunks 8 body" "''''" "empty_partial now m"]
    by (auto simp: text_turn_steps_def Let_def List.map_filter_def split: prod.splits)
qed

text \<open>The scripted text turn ends with a message that holds exactly the text that was
scripted, when the text is ASCII.\<close>

lemma text_turn_final_text:
  assumes "list_all (\<lambda>c. byte c < (128 :: nat)) body"
  shows "last (text_turn_steps now m body) =
    EvDone StopStop ((empty_partial now m)\<lparr>am_content := [text_of body]\<rparr>)"
proof -
  have "list_all (\<lambda>c. byte c < (128 :: nat)) chunk" if "chunk \<in> set (chunks 8 body)" for chunk
    using that assms concat_chunks[of 8 body] by (auto simp: list_all_iff) (metis UN_I set_concat zero_less_numeral)
  then have "map from_utf8_lossy (chunks 8 body) = chunks 8 body"
    by (auto simp: list_all_iff intro!: map_idI lossy_ascii)
  then show ?thesis by (simp add: text_turn_final concat_chunks)
qed

theorem text_turn_final_text_witness:
  "last (text_turn_steps 0 \<lparr>md_id = ''m'', md_name = ''m'', md_api = ''a'', md_provider = ''p'',
       md_base_url = '''', md_reasoning = False, md_context_window = 0, md_max_tokens = 0\<rparr> ''hello world'')
     = EvDone StopStop ((empty_partial 0 \<lparr>md_id = ''m'', md_name = ''m'', md_api = ''a'', md_provider = ''p'',
       md_base_url = '''', md_reasoning = False, md_context_window = 0, md_max_tokens = 0\<rparr>)
         \<lparr>am_content := [text_of ''hello world'']\<rparr>)"
  by (rule text_turn_final_text) simp

text \<open>A text whose character straddles an eight-byte boundary does not come through: the two
halves of the character become replacement characters.\<close>

lemma text_turn_splits_characters:
  "last (text_turn_steps now m (''1234567'' @ [char_of (195::nat), char_of (169::nat)])) =
    EvDone StopStop ((empty_partial now m)\<lparr>am_content := [text_of (''1234567'' @ replacement @ replacement)]\<rparr>)"
proof -
  have "chunks 8 (''1234567'' @ [char_of (195::nat), char_of (169::nat)])
      = [''1234567'' @ [char_of (195::nat)], [char_of (169::nat)]]"
    by (subst chunks.simps, simp, subst chunks.simps, simp, subst chunks.simps, simp)
  moreover have "from_utf8_lossy (''1234567'' @ [char_of (195::nat)]) = ''1234567'' @ replacement"
    by (simp add: from_utf8_lossy.simps char_width_def Let_def)
  moreover have "from_utf8_lossy [char_of (169::nat)] = replacement"
    by (simp add: from_utf8_lossy.simps char_width_def Let_def)
  ultimately show ?thesis by (simp add: text_turn_final)
qed

lemma tool_call_steps_final:
  "snd (tool_call_steps to_str i calls p) = p\<lparr>am_content := am_content p @
     map (\<lambda>(ident, name, args). AToolCall \<lparr>call_id = ident, call_name = name, call_arguments = args,
       call_thought_signature = None\<rparr>) calls\<rparr>"
  by (induction to_str i calls p rule: tool_call_steps.induct) (auto simp: Let_def split: prod.splits)

text \<open>A tool-call turn scripted with a text ends with a message that holds the tool calls
and not the text, although the text was streamed before them.\<close>

lemma tool_call_turn_drops_text:
  "last (tool_call_turn_steps to_str now m (Some body) calls) =
     EvDone StopToolUse ((empty_partial now m)\<lparr>am_content :=
       map (\<lambda>(ident, name, args). AToolCall \<lparr>call_id = ident, call_name = name, call_arguments = args,
         call_thought_signature = None\<rparr>) calls\<rparr>)"
  using tool_call_steps_final[of to_str 1 calls "empty_partial now m"]
  by (auto simp: tool_call_turn_steps_def Let_def map_text_at_def empty_partial_def split: prod.splits)

end
