(* ===== verification/AgentRuns.thy ===== *)
theory AgentRuns
  imports AgentState AgentView Scripted
begin

text \<open>
  The loop run by an agent: the agent's own event sink and hooks meet what the loop relies on
  (\<open>loop_env\<close>, \<open>event_sourced\<close>), so the facts of those locales hold of the prompts and
  continuations of \<open>agent.rs\<close>. The scripted provider gives an agent whose streams follow the
  protocol.
\<close>

section \<open>An agent's sink and hooks\<close>

lemma on_outer_state [simp]: "aw_state (snd (on_outer f w)) = aw_state w"
  by (simp add: on_outer_def split: prod.split)

lemma poll_steering_state [simp]: "aw_state (snd (poll_steering w)) = aw_state w"
  by (simp add: poll_steering_def)

lemma process_events_state [simp]: "aw_state (snd (process_events ev w)) = reduce ev (aw_state w)"
  by (simp add: process_events_def Let_def split: option.split prod.split)

text \<open>The agent's state is the fold of the events its sink has seen.\<close>

interpretation agent_view: event_sourced "loop_config_of rt ao routed st" aw_state reduce
  for rt :: "'e runtime" and ao routed st
  by unfold_locales (auto simp: loop_config_of_def on_outer_tool_def)

lemma notify_error: "notify ls ev ou = (Inl e, ou') \<Longrightarrow> e \<noteq> AbortedError"
  by (induction ls ev ou rule: notify.induct) (auto split: prod.splits option.splits)

lemma process_events_error: "process_events ev w = (Inl e, w') \<Longrightarrow> e \<noteq> AbortedError"
  by (auto simp: process_events_def Let_def split: option.splits prod.splits dest: notify_error)

text \<open>\<open>stream.rs\<close>: a stream emits \<open>start\<close> once and first, then deltas, then ends.\<close>

definition streams_ok :: "'e agent_options \<Rightarrow> bool" where
  "streams_ok ao \<longleftrightarrow>
     (\<forall>f req ou ms ou'. ao_stream_fn ao = Some f \<longrightarrow> f req ou = (Inr ms, ou') \<longrightarrow> stream_ok False (sm_events ms))"

locale agent_env =
  fixes ao :: "'e agent_options"
  assumes streams: "streams_ok ao"

sublocale agent_env \<subseteq> run: loop_env "loop_config_of rt ao routed st" for rt routed st
proof
  show "cf_sink (loop_config_of rt ao routed st) ev w = (Inl e, w') \<Longrightarrow> e \<noteq> AbortedError" for ev w e w'
    by (auto simp: loop_config_of_def dest: process_events_error)
  show "cf_stream_fn (loop_config_of rt ao routed st) = Some f \<Longrightarrow> f req w = (Inr ms, w') \<Longrightarrow> stream_ok False (sm_events ms)"
    for f req w ms w'
    using streams by (fastforce simp: loop_config_of_def streams_ok_def on_outer_def split: prod.splits)
qed

context agent_env
begin

lemma announced:
  assumes "announce_run (loop_config_of rt ao routed st) prompts (initial_state (messages @ prompts) prompts w) = (Inr x, s)"
  shows "transcript (st_trace s) = prompts"
  using run.announce_run_inv[OF assms] by (simp add: run_inv_def)

lemma prompt_run:
  assumes "run_agent_loop (loop_config_of rt ao routed st) prompts messages w = Some (Inr (), s)"
  shows "run_inv messages PAfter [] [] s \<and> last (st_trace s) = AgentEnd (st_new s)"
  using run.run_agent_loop_finished[OF assms] by (simp add: run.finished_def)

lemma continued_run:
  assumes "run_agent_loop_continue (loop_config_of rt ao routed st) messages w = Some (Inr (), s)"
  shows "run_inv messages PAfter [] [] s \<and> last (st_trace s) = AgentEnd (st_new s)"
  using run.run_agent_loop_continue_finished[OF assms] by (simp add: run.finished_def)

end

section \<open>The scripted agent\<close>

definition scripted_options ::
    "(json \<Rightarrow> string) \<Rightarrow> int \<Rightarrow> scripted_provider outer agent_tool list \<Rightarrow> scripted_provider agent_options" where
  "scripted_options to_str now tools =
     \<lparr>ao_tools = tools, ao_convert_to_llm = default_convert_to_llm, ao_transform_context = None,
      ao_stream_fn = Some (\<lambda>req ou. case scripted_stream_fn to_str now req (ou_env ou) of
         (r, p) \<Rightarrow> (r, ou\<lparr>ou_env := p\<rparr>)),
      ao_get_api_key = None, ao_before_tool_call = None, ao_after_tool_call = None,
      ao_should_stop_after_turn = None, ao_should_stop_before_turn = None,
      ao_get_continuation_messages = None, ao_session_id = None, ao_tool_execution = Parallel\<rparr>"

lemma scripted_streams_ok: "streams_ok (scripted_options to_str now tools)"
  by (auto simp: streams_ok_def scripted_options_def dest: scripted_protocol split: prod.splits)

interpretation scripted_agent: agent_env "scripted_options to_str now tools" for to_str now tools
  by unfold_locales (rule scripted_streams_ok)

section \<open>The agent's transcript\<close>

lemma reduce_messages: "as_messages (reduce ev st) = as_messages st @ message_of ev"
  by (induction ev st rule: reduce.induct) (auto split: option.split)

lemma fold_reduce_messages: "as_messages (fold reduce tr st) = as_messages st @ transcript tr"
  by (induction tr arbitrary: st) (auto simp: reduce_messages)

text \<open>The prompts open the transcript of a run.\<close>

lemma run_prompts_first:
  assumes "streams_ok ao"
    and run: "run_agent_loop (loop_config_of rt ao routed st) prompts messages w = Some (Inr (), s)"
  obtains new where "transcript (st_trace s) = prompts @ new"
proof -
  let ?cf = "loop_config_of rt ao routed st"
  have env: "agent_env ao" using assms(1) by (rule agent_env.intro)
  obtain v s1 where a: "announce_run ?cf prompts (initial_state (messages @ prompts) prompts w) = (v, s1)" by fastforce
  with run obtain x where v: "v = Inr x" and loop: "run_loop ?cf s1 = Some (Inr (), s)"
    by (cases v) (auto simp: run_agent_loop_def)
  have "heard_ok s1" using agent_view.announced_tracks[OF a] by (simp add: agent_view.tracks_def)
  with loop obtain evs where "st_trace s = st_trace s1 @ evs" by (blast elim: agent_view.run_loop_extends)
  moreover have "transcript (st_trace s1) = prompts"
    using agent_env.announced[OF env a[unfolded v]] .
  ultimately show ?thesis using that by (simp add: transcript_append)
qed

section \<open>Runs\<close>

text \<open>C1. A run of the loop that returns without an error has emitted a well-formed sequence of
events: the run starts once and ends once, turns do not nest, every message that starts ends
before the next one starts, tool events lie inside turns; the run's last event lists exactly
the messages that the listeners saw end, in order, and the context is the old one followed by
them. What the sink was given is this sequence and, between its events, only updates of calls
whose emitter was detached (the signal fired while the call waited for it, or its task
panicked): these may come at any later time, and those that are still queued when the run
returns come after its end.\<close>

theorem run_events_well_formed:
  assumes "streams_ok ao"
    and "run_agent_loop (loop_config_of rt ao routed st) prompts messages w = Some (Inr (), s)"
  shows "accepts PBefore (st_trace s) = Some PAfter
    \<and> last (st_trace s) = AgentEnd (st_new s)
    \<and> transcript (st_trace s) = st_new s
    \<and> st_messages s = messages @ st_new s
    \<and> own_events (st_heard s) = st_trace s
    \<and> (\<forall>ev. (True, ev) \<in> set (st_heard s) \<longrightarrow> update_of (st_cut s) ev)
    \<and> (\<forall>q \<in> set (st_late s). \<forall>ev \<in> set q. update_of (st_cut s) ev)"
  using agent_env.prompt_run[OF agent_env.intro[OF assms(1)] assms(2)]
    agent_view.run_agent_loop_heard[OF assms(2)]
  by (simp add: run_inv_def heard_ok_def)

text \<open>An agent for concrete runs: a scripted provider, one steering message in the queue.\<close>

definition demo_runtime :: "scripted_provider runtime" where
  "demo_runtime = \<lparr>rt_now_ms = (\<lambda>_. 0), rt_wait = (\<lambda>ou. ou), rt_schedule = (\<lambda>_. []),
     rt_emitter_first = (\<lambda>_. False), rt_late = (\<lambda>_. []), rt_task_panic = (\<lambda>_. None),
     rt_emitter_panic = (\<lambda>_. None),
     rt_abort_wins = (\<lambda>_. False), rt_stream_close = (\<lambda>ou. ou), rt_fp = demo_fp, rt_pretty = (\<lambda>_. '''')\<rparr>"

definition demo_options :: "scripted_provider agent_options" where
  "demo_options = scripted_options (\<lambda>_. '''') 0 []"

definition demo_user :: "string \<Rightarrow> agent_message" where
  "demo_user t = Standard (User \<lparr>um_content = UText t, um_timestamp = 0\<rparr>)"

definition demo_world :: "scripted_provider agent_world" where
  "demo_world =
     (let w = agent_new \<lparr>in_system_prompt = None, in_model = None, in_thinking_level = None,
                in_messages = None, in_steering_mode = None, in_follow_up_mode = None\<rparr>
              \<lparr>sp_model = model_unknown, sp_turns = [TextTurn ''hello''], sp_calls = []\<rparr>
      in w\<lparr>aw_outer := steer (Single (demo_user ''go on'')) (aw_outer w)\<rparr>)"

definition demo_run where
  "demo_run = run_agent_loop (loop_config_of demo_runtime demo_options None (aw_state demo_world))
     [demo_user ''hi''] [] (begin_lifecycle demo_world)"

declare iterate.simps [code]

lemma demo_returns:
  obtains s where "demo_run = Some (Inr (), s)"
proof -
  have "case demo_run of Some (Inr u, s) \<Rightarrow> True | _ \<Rightarrow> False" by code_simp
  with that show ?thesis by (auto split: option.splits sum.splits)
qed

lemma demo_streams_ok: "streams_ok demo_options"
  unfolding demo_options_def by (rule scripted_streams_ok)

theorem run_events_well_formed_witness:
  "\<exists>s. demo_run = Some (Inr (), s) \<and> accepts PBefore (st_trace s) = Some PAfter
     \<and> transcript (st_trace s) = st_new s \<and> st_messages s = st_new s
     \<and> own_events (st_heard s) = st_trace s"
proof -
  obtain s where s: "demo_run = Some (Inr (), s)" by (rule demo_returns)
  from run_events_well_formed[OF demo_streams_ok this[unfolded demo_run_def]] s show ?thesis by auto
qed

text \<open>
  A run whose one tool aborts it while an update is in the channel: the run returns after its
  \<open>AgentEnd\<close> with the update still queued in the detached emitter, and the next poll of that
  emitter gives it to the sink, so \<open>AgentEnd\<close> is not the last event that the listeners get
  (the doc of \<open>AgentEvent::AgentEnd\<close> says it is).
\<close>

definition aborting_tool :: "scripted_provider outer agent_tool" where
  "aborting_tool =
     \<lparr>tool_name = ''t'', tool_description = '''', tool_parameters = JObj [], tool_prepare = (\<lambda>_. None),
      tool_mode = None, tool_polls = (\<lambda>_ _ _. 0), tool_poll = (\<lambda>_ _ ou. ([], ou)),
      tool_execute = (\<lambda>_ _ ou. (([error_result ''half''], Inr (error_result ''done'')), abort_run ou))\<rparr>"

definition aborting_run where
  "aborting_run =
     run_agent_loop
       (loop_config_of demo_runtime (scripted_options (\<lambda>_. '''') 0 [aborting_tool]) None (aw_state demo_world))
       [demo_user ''hi''] []
       (begin_lifecycle (demo_world\<lparr>aw_outer := (aw_outer demo_world)\<lparr>ou_env :=
          \<lparr>sp_model = model_unknown, sp_turns = [ToolCallTurn None [(''1'', ''t'', JObj [])]], sp_calls = []\<rparr>\<rparr>\<rparr>))"

lemma late_update_follows_the_end:
  "case aborting_run of
     Some (Inr _, s) \<Rightarrow>
       (case last (st_trace s) of AgentEnd _ \<Rightarrow> True | _ \<Rightarrow> False)
       \<and> st_late s = [[ToolExecutionUpdate ''1'' ''t'' (JObj []) (error_result ''half'')]]
       \<and> st_heard (send_late_one (loop_config_of demo_runtime (scripted_options (\<lambda>_. '''') 0 [aborting_tool])
             None (aw_state demo_world)) 0 s)
         = st_heard s @ [(True, ToolExecutionUpdate ''1'' ''t'' (JObj []) (error_result ''half''))]
   | _ \<Rightarrow> False"
  by code_simp

section \<open>The lifecycle\<close>

definition agent_idle :: "'e agent_world \<Rightarrow> bool" where
  "agent_idle w \<longleftrightarrow> ou_run (aw_outer w) = None \<and> \<not> as_is_streaming (aw_state w)
     \<and> as_streaming_message (aw_state w) = None \<and> as_pending_tool_calls (aw_state w) = {}"

definition ends_with_failure :: "agent_error \<Rightarrow> agent_state \<Rightarrow> bool" where
  "ends_with_failure e st \<longleftrightarrow>
     as_error_message st = Some (err_text e)
     \<and> (case last (as_messages st) of
          Standard (Assistant m) \<Rightarrow> am_error_message m = Some (err_text e)
            \<and> (am_stop_reason m = StopError \<or> am_stop_reason m = StopAborted)
        | _ \<Rightarrow> False)"

lemma finish_idle [simp]: "agent_idle (finish_lifecycle w)"
  by (simp add: agent_idle_def finish_lifecycle_def)

lemma finish_messages [simp]:
  "as_messages (aw_state (finish_lifecycle w)) = as_messages (aw_state w)"
  "as_error_message (aw_state (finish_lifecycle w)) = as_error_message (aw_state w)"
  by (simp_all add: finish_lifecycle_def)

lemma begin_messages [simp]: "as_messages (aw_state (begin_lifecycle w)) = as_messages (aw_state w)"
  by (simp add: begin_lifecycle_def)

lemma failure_state:
  "aw_state (handle_run_failure rt e b w) =
     (let m = failure_message (rt_now_ms rt (aw_outer w)) (failure_model w) e b
      in (aw_state w)\<lparr>as_error_message := Some (err_text e), as_streaming_message := None,
           as_messages := as_messages (aw_state w) @ [from_assistant m]\<rparr>)"
  by (simp add: handle_run_failure_def Let_def failure_message_def)

text \<open>C25. After a prompt that returns, whatever its outcome, the agent is idle again: no run, no
streaming message, no pending tool call. A prompt given while a run is active is refused and
changes nothing. A prompt that fails leaves the error in the agent's state and as an error or
aborted message at the end of its transcript.\<close>

theorem run_leaves_agent_idle:
  "case run_prompt_messages rt ao prompts skip w of
     None \<Rightarrow> ou_run (aw_outer w) = None
   | Some (r, w') \<Rightarrow>
       if ou_run (aw_outer w) \<noteq> None then r = Inl (OtherError ''Agent is already processing.'') \<and> w' = w
       else agent_idle w' \<and> (case r of Inr _ \<Rightarrow> True | Inl e \<Rightarrow> ends_with_failure e (aw_state w'))"
  by (auto simp: run_prompt_messages_def run_with_lifecycle_def ends_with_failure_def failure_state
      Let_def failure_message_def split: option.split sum.split)



text \<open>
  A failed run does not lose what the listeners saw either: the transcript is the old one, the
  messages that ended before the failure, and the failure.
\<close>

lemma failed_prompt_transcript:
  assumes "ou_run (aw_outer w) = None" and "run_prompt_messages rt ao prompts skip w = Some (Inl e, w')"
  obtains tr m where "as_messages (aw_state w') = as_messages (aw_state w) @ transcript tr @ [from_assistant m]"
    and "am_error_message m = Some (err_text e)"
proof -
  let ?w1 = "begin_lifecycle w"
  let ?cf = "loop_config_of rt ao (ou_override (aw_outer w)) (aw_state ?w1)"
  obtain s where run: "run_agent_loop ?cf prompts (as_messages (aw_state ?w1)) (?w1\<lparr>aw_skip_poll := skip\<rparr>) = Some (Inl e, s)"
    and w': "w' = finish_lifecycle (handle_run_failure rt e (run_signal (aw_outer (st_world s))) (st_world s))"
    using assms
    by (auto simp: run_prompt_messages_def run_with_lifecycle_def split: if_splits option.splits sum.splits)
  have "aw_state (st_world s) = fold reduce (st_trace s) (aw_state ?w1)"
    using agent_view.run_agent_loop_view[OF run] by simp
  then show ?thesis
    using that[of "st_trace s" "failure_message (rt_now_ms rt (aw_outer (st_world s))) (failure_model (st_world s)) e
        (run_signal (aw_outer (st_world s)))"] w'
    by (simp add: failure_state Let_def fold_reduce_messages failure_message_def)
qed

section \<open>Aborting a run\<close>

lemma finish_run_stops:
  "finish_run cf s = (v, s') \<Longrightarrow> v \<noteq> Inr (Go lv) \<and> st_trace s' = st_trace s @ [AgentEnd (st_new s)]"
  by (rule late_updates_world[of cf s])
     (auto simp: finish_run_def emit_agent_end_def mon_simps emit_def send_def split: prod.splits sum.splits)

lemma aborted_poll: "aborted cf s \<Longrightarrow> settle_post_turn cf (poll_messages_unless_aborted cf p) s = (Inr (Completed []), s)"
  by (cases p) (simp_all add: settle_post_turn_def poll_messages_unless_aborted_def mon_simps)

lemma aborted_race: "aborted cf s \<Longrightarrow> settle_post_turn cf (race cf m) s = (Inr Aborted, s)"
  by (simp add: settle_post_turn_def race_def mon_simps is_abort_error_def)

lemma aborted_continuation:
  "aborted cf s \<Longrightarrow> poll_continuation cf lv s = (Inr Aborted, s) \<or> poll_continuation cf lv s = (Inr (Completed []), s)"
  by (auto simp: poll_continuation_def aborted_race mon_simps split: option.split)

definition stop_hook_keeps_signal :: "'e agent_options \<Rightarrow> bool" where
  "stop_hook_keeps_signal ao \<longleftrightarrow>
     (\<forall>f ou. ao_should_stop_before_turn ao = Some f \<longrightarrow> run_signal ou \<longrightarrow> run_signal (snd (f ou)))"

lemma config_selectors:
  "cf_should_stop_before_turn (loop_config_of rt ao routed st) = map_option on_outer (ao_should_stop_before_turn ao)"
  "aborted (loop_config_of rt ao routed st) s = run_signal (aw_outer (st_world s))"
  by (simp_all add: loop_config_of_def aborted_def)

lemma aborted_stop:
  assumes "stop_hook_keeps_signal ao" and "aborted (loop_config_of rt ao routed st) s"
  obtains b s' where "should_stop_before_turn (loop_config_of rt ao routed st) first s = (Inr b, s')"
    and "aborted (loop_config_of rt ao routed st) s'" and "st_trace s' = st_trace s" and "st_new s' = st_new s"
proof -
  let ?cf = "loop_config_of rt ao routed st"
  obtain v s' where v: "should_stop_before_turn ?cf first s = (v, s')" by fastforce
  have "(\<exists>b. v = Inr b) \<and> aborted ?cf s' \<and> st_trace s' = st_trace s \<and> st_new s' = st_new s"
  proof (cases "first \<or> ao_should_stop_before_turn ao = None")
    case True
    with v assms(2) show ?thesis
      by (cases first) (auto simp: should_stop_before_turn_def mon_simps config_selectors)
  next
    case False
    then obtain f where f: "ao_should_stop_before_turn ao = Some f" by auto
    obtain b ou where "f (aw_outer (st_world s)) = (b, ou)" by fastforce
    with f False v assms show ?thesis
      by (auto simp: should_stop_before_turn_def sync_world_def config_selectors on_outer_def
          stop_hook_keeps_signal_def)
  qed
  with that v show ?thesis by blast
qed

lemma aborted_boundary_stops:
  assumes "stop_hook_keeps_signal ao" and "aborted (loop_config_of rt ao routed st) s"
    and run: "boundary (loop_config_of rt ao routed st) lv s = (v, s')"
  shows "v \<noteq> Inr (Go lv') \<and> st_trace s' = st_trace s @ [AgentEnd (st_new s)]"
proof -
  let ?cf = "loop_config_of rt ao routed st"
  obtain b1 s1 where 1: "should_stop_before_turn ?cf (lv_first_turn lv) s = (Inr b1, s1)" "aborted ?cf s1"
    "st_trace s1 = st_trace s" "st_new s1 = st_new s"
    by (rule aborted_stop[OF assms(1,2)])
  obtain b2 s2 where 2: "should_stop_before_turn ?cf (lv_first_turn lv) s1 = (Inr b2, s2)" "aborted ?cf s2"
    "st_trace s2 = st_trace s1" "st_new s2 = st_new s1"
    by (rule aborted_stop[OF assms(1) 1(2)])
  show ?thesis
  proof (cases b1)
    case True
    with 1 run show ?thesis by (auto simp: boundary_def mon_simps dest: finish_run_stops)
  next
    case False
    have "finish_run ?cf s2 = (v, s')"
      using run 1 2 False aborted_poll[OF 1(2)] aborted_continuation[OF 2(2), of lv]
      by (auto simp: boundary_def mon_simps split: if_splits)
    with 1 2 show ?thesis by (auto dest: finish_run_stops)
  qed
qed

text \<open>C26. Aborting a run ends it: from any state of the loop in which the signal has fired the
loop returns within one step, and the only event it may still emit is the end of the run;
provided the synchronous stop hook does not take the signal back (an \<open>AbortController\<close>
cannot).\<close>

theorem aborted_run_returns:
  assumes "stop_hook_keeps_signal ao" and "aborted (loop_config_of rt ao routed st) s"
  shows "\<exists>r s'. iterate (loop_config_of rt ao routed st) lv s = Some (r, s')
    \<and> (st_trace s' = st_trace s \<or> st_trace s' = st_trace s @ [AgentEnd (st_new s)])"
proof -
  let ?cf = "loop_config_of rt ao routed st"
  obtain v s' where step: "loop_step ?cf lv s = (v, s')" by fastforce
  have "(\<forall>lv'. v \<noteq> Inr (Go lv')) \<and> (st_trace s' = st_trace s \<or> st_trace s' = st_trace s @ [AgentEnd (st_new s)])"
  proof (cases "lv_more lv \<or> lv_pending lv \<noteq> []")
    case True
    with step assms(2) have "v = Inl AbortedError" and "s' = s"
      by (auto simp: loop_step_def turn_def mon_simps throw_if_aborted_def)
    then show ?thesis by simp
  next
    case False
    with step have "boundary ?cf lv s = (v, s')" by (auto simp: loop_step_def)
    then show ?thesis using aborted_boundary_stops[OF assms] by blast
  qed
  with step show ?thesis
    by (subst iterate.simps) (auto split: sum.split flow.split)
qed

theorem aborted_run_returns_witness:
  "\<exists>r s'. iterate (loop_config_of demo_runtime demo_options None (aw_state demo_world))
        \<lparr>lv_first_turn = True, lv_last_turn = None, lv_pending = [], lv_more = True\<rparr>
        (initial_state [] [] (demo_world\<lparr>aw_outer := abort_run (aw_outer (begin_lifecycle demo_world))\<rparr>)) = Some (r, s')
     \<and> (st_trace s' = [] \<or> st_trace s' = [AgentEnd []])"
proof -
  have "stop_hook_keeps_signal demo_options"
    by (simp add: stop_hook_keeps_signal_def demo_options_def scripted_options_def)
  moreover have "aborted (loop_config_of demo_runtime demo_options None (aw_state demo_world))
      (initial_state [] [] (demo_world\<lparr>aw_outer := abort_run (aw_outer (begin_lifecycle demo_world))\<rparr>))"
    by (simp add: aborted_def loop_config_of_def initial_state_def abort_run_def begin_lifecycle_def run_signal_def)
  ultimately show ?thesis
    using aborted_run_returns[of demo_options demo_runtime None "aw_state demo_world"
      "initial_state [] [] (demo_world\<lparr>aw_outer := abort_run (aw_outer (begin_lifecycle demo_world))\<rparr>)"
      "\<lparr>lv_first_turn = True, lv_last_turn = None, lv_pending = [], lv_more = True\<rparr>"]
    by (simp add: initial_state_def)
qed

end
