(* ===== verification/SessionTypes.thy ===== *)
theory SessionTypes
  imports AgentTypes Rust_Text
begin

text \<open>
  The entries of a session file (\<open>crates/pa-types/src/session.rs\<close>) and the conversation messages
  they hold (\<open>crates/pa-types/src/ai/mod.rs\<close>). Structs are records whose field names carry a
  prefix; the payload and the shared \<open>EntryBase\<close> of an entry are the arguments of its constructor,
  as in the enum. \<open>Usage\<close>, \<open>StopReason\<close> and \<open>ServiceTier\<close> have the shape of the agent
  crate's types of the same name, which are used for them.
\<close>

type_synonym json_map = "(string \<times> json) list"

section \<open>Messages\<close>

record ai_text_content =
  ait_text :: string
  ait_text_signature :: "string option"
  ait_rest :: json_map

record ai_thinking_content =
  aith_thinking :: string
  aith_thinking_signature :: "string option"
  aith_redacted :: "bool option"
  aith_rest :: json_map

record ai_image_content =
  aii_data :: string
  aii_mime_type :: string
  aii_rest :: json_map

record ai_tool_call =
  aitc_id :: string
  aitc_name :: string
  aitc_arguments :: json_map
  aitc_thought_signature :: "string option"
  aitc_rest :: json_map

datatype user_content_block =
    UbText ai_text_content
  | UbImage ai_image_content
  | UbRaw json

datatype assistant_content_block =
    AbText ai_text_content
  | AbThinking ai_thinking_content
  | AbToolCall ai_tool_call

datatype ai_user_content = UcText string | UcBlocks "user_content_block list"

text \<open>\<open>UserContent::text\<close>: the texts of the tagged text blocks, joined by spaces.\<close>

fun block_text :: "user_content_block \<Rightarrow> string option" where
  "block_text (UbText t) = Some (ait_text t)"
| "block_text (UbImage _) = None"
| "block_text (UbRaw _) = None"

fun user_content_text :: "ai_user_content \<Rightarrow> string" where
  "user_content_text (UcText t) = t"
| "user_content_text (UcBlocks bs) = join_with '' '' (List.map_filter block_text bs)"

record ai_user_message =
  aiu_content :: ai_user_content
  aiu_timestamp :: nat
  aiu_rest :: json_map

text \<open>
  \<open>JsNumber\<close> is a finite double; the flattened unknown members of \<open>DiagnosticErrorInfo\<close> are
  \<open>adi_rest\<close>.
\<close>

datatype diagnostic_code = DcStr string | DcNum rat

record diagnostic_error_info =
  adi_name :: "string option"
  adi_message :: string
  adi_stack :: "string option"
  adi_code :: "diagnostic_code option"
  adi_rest :: json_map

record ai_diagnostic =
  adg_type :: string
  adg_timestamp :: nat
  adg_error :: "diagnostic_error_info option"
  adg_details :: "json_map option"

record ai_assistant_message =
  aia_content :: "assistant_content_block list"
  aia_api :: string
  aia_provider :: string
  aia_model :: string
  aia_response_model :: "string option"
  aia_response_id :: "string option"
  aia_diagnostics :: "ai_diagnostic list option"
  aia_usage :: usage
  aia_stop_reason :: stop_reason
  aia_stop_reason_raw :: "string option"
  aia_error_message :: "string option"
  aia_timestamp :: nat
  aia_rest :: json_map

record ai_tool_result_message =
  air_tool_call_id :: string
  air_tool_name :: string
  air_content :: "user_content_block list"
  air_details :: "json option"
  air_is_error :: bool
  air_timestamp :: nat
  air_rest :: json_map

record bash_execution_message =
  be_command :: string
  be_output :: string
  be_exit_code :: "int option"
  be_cancelled :: bool
  be_truncated :: bool
  be_full_output_path :: "string option"
  be_timestamp :: nat
  be_exclude_from_context :: "bool option"

record custom_message =
  cu_custom_type :: string
  cu_content :: ai_user_content
  cu_display :: bool
  cu_details :: "json option"
  cu_timestamp :: nat
  cu_rest :: json_map

record branch_summary_message =
  bs_summary :: string
  bs_from_id :: string
  bs_timestamp :: nat

record compaction_summary_message =
  cs_summary :: string
  cs_tokens_before :: nat
  cs_retained_message_count :: "nat option"
  cs_custom_instructions :: "string option"
  cs_harness_digest :: "string option"
  cs_harness_state_fingerprint :: "string option"
  cs_timestamp :: nat

datatype session_message =
    SmUser ai_user_message
  | SmAssistant ai_assistant_message
  | SmToolResult ai_tool_result_message
  | SmBashExecution bash_execution_message
  | SmCustom custom_message
  | SmBranchSummary branch_summary_message
  | SmCompactionSummary compaction_summary_message

section \<open>Payloads\<close>

record git_context =
  gc_repo_url :: "string option"
  gc_commit :: "string option"
  gc_branch :: "string option"

record session_header =
  hd_version :: "nat option"
  hd_id :: string
  hd_timestamp :: string
  hd_cwd :: string
  hd_parent_session :: "string option"
  hd_rlm_depth :: "nat option"
  hd_git :: "git_context option"
  hd_rest :: json_map

record entry_base =
  eb_id :: "string option"
  eb_parent_id :: "string option"
  eb_timestamp :: "string option"
  eb_rest :: json_map

record model_change_entry =
  mc_provider :: string
  mc_model_id :: string

record compaction_entry =
  co_summary :: string
  co_first_kept_entry_id :: string
  co_tokens_before :: nat
  co_details :: "json option"
  co_from_hook :: "bool option"
  co_custom_instructions :: "string option"
  co_usage :: "usage option"
  co_harness_digest :: "string option"
  co_harness_state_fingerprint :: "string option"

record branch_summary_entry =
  bse_from_id :: string
  bse_summary :: string
  bse_details :: "json option"
  bse_from_hook :: "bool option"
  bse_usage :: "usage option"

record custom_entry =
  ce_custom_type :: string
  ce_data :: "json option"
  ce_rest :: json_map

datatype child_usage_origin = SpawnTask | AgentMessageOrigin | DirectUser

record child_usage_entry =
  cua_target_id :: string
  cua_child_usage :: usage
  cua_aggregate_usage :: usage
  cua_origin :: "child_usage_origin option"

record label_entry =
  le_target_id :: string
  le_label :: "string option"

datatype session_status = StActive | StArchived | StCrash

record custom_message_entry =
  cme_custom_type :: string
  cme_content :: ai_user_content
  cme_details :: "json option"
  cme_display :: bool
  cme_rest :: json_map

section \<open>Entries\<close>

text \<open>
  A payload struct with one field (\<open>ThinkingLevelChangeEntry\<close>, \<open>ServiceTierChangeEntry\<close>,
  \<open>SessionInfoEntry\<close>, \<open>SessionStateEntry\<close>, \<open>GitStateEntry\<close>) is that field.
\<close>

datatype file_entry =
    FeHeader session_header
  | FeMessage session_message entry_base
  | FeThinkingLevelChange string entry_base
  | FeServiceTierChange "service_tier option" entry_base
  | FeModelChange model_change_entry entry_base
  | FeCompaction compaction_entry entry_base
  | FeBranchSummary branch_summary_entry entry_base
  | FeCustom custom_entry entry_base
  | FeChildUsageAttributed child_usage_entry entry_base
  | FeLabel label_entry entry_base
  | FeSessionInfo "string option" entry_base
  | FeSessionState session_status entry_base
  | FeGitState git_context entry_base
  | FeCustomMessage custom_message_entry entry_base
  | FeUnknown json_map

fun entry_base_of :: "file_entry \<Rightarrow> entry_base option" where
  "entry_base_of (FeHeader _) = None"
| "entry_base_of (FeUnknown _) = None"
| "entry_base_of (FeMessage _ b) = Some b"
| "entry_base_of (FeThinkingLevelChange _ b) = Some b"
| "entry_base_of (FeServiceTierChange _ b) = Some b"
| "entry_base_of (FeModelChange _ b) = Some b"
| "entry_base_of (FeCompaction _ b) = Some b"
| "entry_base_of (FeBranchSummary _ b) = Some b"
| "entry_base_of (FeCustom _ b) = Some b"
| "entry_base_of (FeChildUsageAttributed _ b) = Some b"
| "entry_base_of (FeLabel _ b) = Some b"
| "entry_base_of (FeSessionInfo _ b) = Some b"
| "entry_base_of (FeSessionState _ b) = Some b"
| "entry_base_of (FeGitState _ b) = Some b"
| "entry_base_of (FeCustomMessage _ b) = Some b"

text \<open>\<open>rest.get(k).and_then(as_str)\<close>\<close>

definition rest_str :: "string \<Rightarrow> json_map \<Rightarrow> string option" where
  "rest_str k r = (case map_of r k of None \<Rightarrow> None | Some v \<Rightarrow> json_as_str v)"

definition entry_id :: "file_entry \<Rightarrow> string option" where
  "entry_id e =
     (case e of
        FeHeader h \<Rightarrow> Some (hd_id h)
      | FeUnknown r \<Rightarrow> rest_str ''id'' r
      | _ \<Rightarrow> (case entry_base_of e of None \<Rightarrow> None | Some b \<Rightarrow> eb_id b))"

definition entry_parent_id :: "file_entry \<Rightarrow> string option" where
  "entry_parent_id e =
     (case e of
        FeHeader h \<Rightarrow> None
      | FeUnknown r \<Rightarrow> rest_str ''parentId'' r
      | _ \<Rightarrow> (case entry_base_of e of None \<Rightarrow> None | Some b \<Rightarrow> eb_parent_id b))"

definition entry_timestamp :: "file_entry \<Rightarrow> string" where
  "entry_timestamp e =
     (case e of
        FeHeader h \<Rightarrow> hd_timestamp h
      | FeUnknown r \<Rightarrow> (case rest_str ''timestamp'' r of None \<Rightarrow> [] | Some t \<Rightarrow> t)
      | _ \<Rightarrow> (case entry_base_of e of
               None \<Rightarrow> [] | Some b \<Rightarrow> (case eb_timestamp b of None \<Rightarrow> [] | Some t \<Rightarrow> t)))"

fun is_header :: "file_entry \<Rightarrow> bool" where
  "is_header (FeHeader _) = True"
| "is_header _ = False"

fun is_assistant_entry :: "file_entry \<Rightarrow> bool" where
  "is_assistant_entry (FeMessage (SmAssistant _) _) = True"
| "is_assistant_entry _ = False"

fun is_git_state :: "file_entry \<Rightarrow> bool" where
  "is_git_state (FeGitState _ _) = True"
| "is_git_state _ = False"

lemma entry_id_based: "entry_base_of e = Some b \<Longrightarrow> entry_id e = eb_id b"
  by (cases e) (auto simp: entry_id_def)

lemma entry_parent_based: "entry_base_of e = Some b \<Longrightarrow> entry_parent_id e = eb_parent_id b"
  by (cases e) (auto simp: entry_parent_id_def)

lemma entry_timestamp_based:
  "entry_base_of e = Some b \<Longrightarrow>
   entry_timestamp e = (case eb_timestamp b of None \<Rightarrow> [] | Some t \<Rightarrow> t)"
  by (cases e) (auto simp: entry_timestamp_def)

end
