(* ===== verification/SessionTime.thy ===== *)
theory SessionTime
  imports Rust_Text
begin

text \<open>
  The ISO-8601 timestamps of the session files: \<open>format_iso\<close> of
  \<open>pa-core/src/session/manager/ids.rs\<close>, which writes them, and \<open>timestamp_to_millis\<close> of
  \<open>pa-core/src/session/mod.rs\<close>, which reads them back. Integers are \<open>i64\<close>; where the input
  can make them overflow, the wrap-around of a release build is written out.
\<close>

section \<open>Integers\<close>

definition wrap64 :: "int \<Rightarrow> int" where
  "wrap64 x = (x + 2 ^ 63) mod 2 ^ 64 - 2 ^ 63"

lemma wrap64_id: "- (2 ^ 63) \<le> x \<Longrightarrow> x < 2 ^ 63 \<Longrightarrow> wrap64 x = x"
  by (simp add: wrap64_def)

text \<open>Rust's \<open>/\<close> truncates towards zero; the divisor is positive in all that follows.\<close>

definition tdiv :: "int \<Rightarrow> int \<Rightarrow> int" where
  "tdiv a b = (if 0 \<le> a then a div b else - ((- a) div b))"

section \<open>Writing\<close>

text \<open>\<open>{n:0w}\<close>\<close>

definition fmt_pad :: "nat \<Rightarrow> int \<Rightarrow> string" where
  "fmt_pad w n =
     (if n < 0 then ''-'' @ replicate (w - 1 - length (show_nat (nat (- n)))) CHR ''0'' @ show_nat (nat (- n))
      else replicate (w - length (show_nat (nat n))) CHR ''0'' @ show_nat (nat n))"

definition civil_from_days :: "int \<Rightarrow> int \<times> int \<times> int" where
  "civil_from_days days =
     (let z = days + 719468;
          era = tdiv (if 0 \<le> z then z else z - 146096) 146097;
          doe = z - era * 146097;
          yoe = (doe - doe div 1460 + doe div 36524 - doe div 146096) div 365;
          y = yoe + era * 400;
          doy = doe - (365 * yoe + yoe div 4 - yoe div 100);
          mp = (5 * doy + 2) div 153;
          d = doy - (153 * mp + 2) div 5 + 1;
          m = (if mp < 10 then mp + 3 else mp - 9);
          y' = (if m \<le> 2 then y + 1 else y)
      in (y', m, d))"

definition format_iso :: "int \<Rightarrow> string" where
  "format_iso millis =
     (let days = millis div 86400000;
          time_ms = millis mod 86400000;
          (y, m, d) = civil_from_days days;
          hour = time_ms div 3600000;
          minute = (time_ms div 60000) mod 60;
          second = (time_ms div 1000) mod 60;
          ms = time_ms mod 1000
      in fmt_pad 4 y @ ''-'' @ fmt_pad 2 m @ ''-'' @ fmt_pad 2 d @ ''T'' @ fmt_pad 2 hour @ '':''
         @ fmt_pad 2 minute @ '':'' @ fmt_pad 2 second @ ''.'' @ fmt_pad 3 ms @ ''Z'')"

section \<open>Reading\<close>

definition civil_days :: "int \<Rightarrow> int \<Rightarrow> int \<Rightarrow> int option" where
  "civil_days year month day =
     (if \<not> (1 \<le> month \<and> month \<le> 12) \<or> \<not> (1 \<le> day \<and> day \<le> 31) then None
      else
        let y = (if month \<le> 2 then year - 1 else year);
            era = tdiv (if 0 \<le> y then y else y - 399) 400;
            yoe = y - era * 400;
            mp = (if 2 < month then month - 3 else month + 9);
            doy = (153 * mp + 2) div 5 + day - 1;
            doe = yoe * 365 + yoe div 4 - yoe div 100 + doy
        in Some (era * 146097 + doe - 719468))"

fun strip_Z :: "string \<Rightarrow> string" where
  "strip_Z s = rev (dropWhile (\<lambda>c. c = CHR ''Z'') (rev s))"

text \<open>\<open>split_once(':')\<close>\<close>

fun split_once :: "char \<Rightarrow> string \<Rightarrow> (string \<times> string) option" where
  "split_once c [] = None"
| "split_once c (x # xs) =
     (if x = c then Some ([], xs) else map_option (\<lambda>(a, b). (x # a, b)) (split_once c xs))"

definition parse_offset :: "string \<Rightarrow> (int \<times> int) option" where
  "parse_offset offset =
     (let o2 = trim (strip_Z (strip_Z offset))
      in if o2 = [] then Some (0, 0)
         else let (h, m) = (case split_once CHR '':'' o2 of Some p \<Rightarrow> p | None \<Rightarrow> (o2, ''0''))
              in case parse_i64 h of
                   None \<Rightarrow> None
                 | Some hi \<Rightarrow> map_option (\<lambda>mi. (hi, mi)) (parse_i64 m))"

definition offset_millis :: "int \<times> int \<Rightarrow> int" where
  "offset_millis p = wrap64 (wrap64 (fst p * 3600000) + wrap64 (snd p * 60000))"

definition slice :: "nat \<Rightarrow> nat \<Rightarrow> string \<Rightarrow> string" where
  "slice a b s = take (b - a) (drop a s)"

text \<open>The fraction of a second after the dot: up to three digits, and what follows all of them.\<close>

definition parse_fraction :: "string \<Rightarrow> int \<times> string" where
  "parse_fraction s =
     (case s of
        c # cs \<Rightarrow>
          if c = CHR ''.'' then
            (case parse_u64 (take 3 (takeWhile is_ascii_digit cs)) of None \<Rightarrow> 0 | Some n \<Rightarrow> int n,
             dropWhile is_ascii_digit cs)
          else (0, s)
      | [] \<Rightarrow> (0, s))"

definition apply_offset :: "int \<Rightarrow> string \<Rightarrow> int option" where
  "apply_offset millis rest =
     (case strip_prefix rest ''+'' of
        Some offset \<Rightarrow> map_option (\<lambda>p. wrap64 (millis - offset_millis p)) (parse_offset offset)
      | None \<Rightarrow>
          (case strip_prefix rest ''-'' of
             Some offset \<Rightarrow> map_option (\<lambda>p. wrap64 (millis + offset_millis p)) (parse_offset offset)
           | None \<Rightarrow> Some millis))"

definition timeparse :: "string \<Rightarrow> nat option" where
  "timeparse s =
     (if length s < 19 then None
      else case (parse_i64 (slice 0 4 s), parse_i64 (slice 5 7 s), parse_i64 (slice 8 10 s),
                 parse_i64 (slice 11 13 s), parse_i64 (slice 14 16 s), parse_i64 (slice 17 19 s)) of
             (Some year, Some month, Some day, Some hour, Some minute, Some second) \<Rightarrow>
               (case civil_days year month day of
                  None \<Rightarrow> None
                | Some days \<Rightarrow>
                    let millis = (days * 86400 + hour * 3600 + minute * 60 + second) * 1000;
                        (frac, rest) = parse_fraction (drop 19 s)
                    in map_option nat (apply_offset (millis + frac) rest))
           | _ \<Rightarrow> None)"

definition timestamp_to_millis :: "string \<Rightarrow> nat" where
  "timestamp_to_millis s = (case timeparse s of None \<Rightarrow> 0 | Some n \<Rightarrow> n)"

section \<open>The calendar\<close>

definition year_start :: "int \<Rightarrow> int" where
  "year_start y = 365 * y + y div 4 - y div 100"

definition year_rank :: "int \<Rightarrow> int" where
  "year_rank d = d - d div 1460 + d div 36524 - d div 146096"

text \<open>The years of an era, one by one: the rank of their first and last day, and their length.\<close>

lemma years_of_era:
  "list_all (\<lambda>y. 365 * y \<le> year_rank (year_start y)
      \<and> year_rank (year_start (y + 1) - 1) < 365 * (y + 1)
      \<and> year_start y < year_start (y + 1) \<and> year_start (y + 1) - year_start y \<le> 366) [0..399]"
  by code_simp

lemma div_step_mono:
  fixes a b :: int
  assumes "a \<le> b" and "1 \<le> k"
  shows "a - a div k \<le> b - b div k"
proof -
  define n where "n = b - a"
  have n: "0 \<le> n" "b = a + n" using assms by (simp_all add: n_def)
  have "n \<le> n * k" using n(1) assms(2) by (simp add: mult_le_cancel_left1)
  then have "(a + n) div k \<le> (a + n * k) div k" using assms(2) by (intro zdiv_mono1) auto
  also have "\<dots> = a div k + n" using assms(2) by simp
  finally show ?thesis using n(2) by simp
qed

lemma year_rank_mono: "a \<le> b \<Longrightarrow> year_rank a \<le> year_rank b"
proof -
  assume "a \<le> b"
  then have "a - a div 1460 \<le> b - b div 1460" by (rule div_step_mono) simp
  moreover have "a div 36524 \<le> b div 36524" using \<open>a \<le> b\<close> by (intro zdiv_mono1) auto
  then have "a div 36524 - a div 36524 div 4 \<le> b div 36524 - b div 36524 div 4"
    by (rule div_step_mono) simp
  then have "a div 36524 - a div 146096 \<le> b div 36524 - b div 146096"
    by (simp add: zdiv_zmult2_eq[symmetric])
  ultimately show ?thesis by (simp add: year_rank_def)
qed

lemma year_exists:
  assumes "0 \<le> d" and "d < 146097"
  shows "\<exists>y. 0 \<le> y \<and> y \<le> 399 \<and> year_rank d div 365 = y \<and> year_start y \<le> d \<and> d - year_start y \<le> 365"
proof (cases "d = 146096")
  case True
  then show ?thesis by (simp add: year_rank_def year_start_def)
next
  case False
  define y where "y = (GREATEST n. n \<le> 399 \<and> year_start (int n) \<le> d)"
  have "(0::nat) \<le> 399 \<and> year_start (int 0) \<le> d" using assms by (simp add: year_start_def)
  then have y: "y \<le> 399 \<and> year_start (int y) \<le> d"
    unfolding y_def by (rule GreatestI_nat[where b = 399]) simp
  have next_year: "d < year_start (int y + 1)"
  proof (rule ccontr)
    assume le: "\<not> d < year_start (int y + 1)"
    show False
    proof (cases "y = 399")
      case True
      with le False assms show False by (simp add: year_start_def)
    next
      case neq: False
      with y le have "Suc y \<le> 399 \<and> year_start (int (Suc y)) \<le> d" by (simp add: add.commute)
      then have "Suc y \<le> y" unfolding y_def by (intro Greatest_le_nat[where b = 399]) auto
      then show False by simp
    qed
  qed
  have "int y \<in> set [0..399]" using y by simp
  with years_of_era have c: "365 * int y \<le> year_rank (year_start (int y))"
      "year_rank (year_start (int y + 1) - 1) < 365 * (int y + 1)"
      "year_start (int y + 1) - year_start (int y) \<le> 366"
    unfolding list_all_iff by blast+
  have "year_rank (year_start (int y)) \<le> year_rank d" using y by (intro year_rank_mono) simp
  moreover have "year_rank d \<le> year_rank (year_start (int y + 1) - 1)"
    using next_year by (intro year_rank_mono) simp
  ultimately have "year_rank d div 365 = int y"
    using c(1,2) by (intro int_div_pos_eq[of _ 365 "int y" "year_rank d - 365 * int y"]) (simp_all add: distrib_left)
  then show ?thesis using y c(3) next_year by (intro exI[of _ "int y"]) auto
qed

lemma days_of_year:
  "list_all (\<lambda>doy. let mp = (5 * doy + 2) div 153; d = doy - (153 * mp + 2) div 5 + 1;
       m = (if mp < 10 then mp + 3 else mp - 9)
     in 1 \<le> m \<and> m \<le> 12 \<and> 1 \<le> d \<and> d \<le> 31
        \<and> (153 * (if 2 < m then m - 3 else m + 9) + 2) div 5 + d - 1 = doy) [0..365]"
  by code_simp

text \<open>The calendar conversion is inverted by \<open>civil_days\<close>, for days from the epoch on.\<close>

lemma civil_round_trip:
  assumes "0 \<le> days" and "civil_from_days days = (y, m, d)"
  shows "civil_days y m d = Some days" and "1 \<le> m \<and> m \<le> 12 \<and> 1 \<le> d \<and> d \<le> 31"
    and "days < 2932897 \<Longrightarrow> 0 \<le> y \<and> y < 10000"
proof -
  define era where "era = (days + 719468) div 146097"
  define doe where "doe = (days + 719468) mod 146097"
  have z: "days + 719468 = era * 146097 + doe" and doe: "0 \<le> doe" "doe < 146097" and era: "0 \<le> era"
    using assms(1) by (simp_all add: era_def doe_def)
  from year_exists[OF doe] obtain yoe where
    yoe: "0 \<le> yoe" "yoe \<le> 399" "year_rank doe div 365 = yoe" and
    doy: "year_start yoe \<le> doe" "doe - year_start yoe \<le> 365"
    by blast
  define doy where "doy = doe - year_start yoe"
  have doy_range: "doy \<in> set [0..365]" using doy by (simp add: doy_def)
  define mp where "mp = (5 * doy + 2) div 153"
  have cfd: "civil_from_days days =
      (if (if mp < 10 then mp + 3 else mp - 9) \<le> 2 then yoe + era * 400 + 1 else yoe + era * 400,
       if mp < 10 then mp + 3 else mp - 9, doy - (153 * mp + 2) div 5 + 1)"
  proof -
    have e: "tdiv (if 0 \<le> days + 719468 then days + 719468 else days + 719468 - 146096) 146097 = era"
      using assms(1) by (simp add: tdiv_def era_def)
    have s: "days + 719468 - era * 146097 = doe" using z by simp
    have r: "(doe - doe div 1460 + doe div 36524 - doe div 146096) div 365 = yoe"
      using yoe(3) by (simp add: year_rank_def)
    have t: "doe - (365 * yoe + yoe div 4 - yoe div 100) = doy" by (simp add: doy_def year_start_def)
    show ?thesis by (simp only: civil_from_days_def Let_def e s r t mp_def)
  qed
  then have m: "m = (if mp < 10 then mp + 3 else mp - 9)" and d: "d = doy - (153 * mp + 2) div 5 + 1"
    and y: "y = (if m \<le> 2 then yoe + era * 400 + 1 else yoe + era * 400)"
    using assms(2) by auto
  have md: "1 \<le> m" "m \<le> 12" "1 \<le> d" "d \<le> 31"
    and inv: "(153 * (if 2 < m then m - 3 else m + 9) + 2) div 5 + d - 1 = doy"
    using days_of_year doy_range unfolding list_all_iff Let_def m d mp_def by blast+
  show "1 \<le> m \<and> m \<le> 12 \<and> 1 \<le> d \<and> d \<le> 31" using md by simp
  define y0 where "y0 = (if m \<le> 2 then y - 1 else y)"
  have y0: "y0 = yoe + era * 400" using y by (simp add: y0_def)
  have e: "tdiv (if 0 \<le> y0 then y0 else y0 - 399) 400 = era"
    using y0 yoe era by (simp add: tdiv_def)
  have "civil_days y m d = Some (era * 146097 + ((y0 - era * 400) * 365 + (y0 - era * 400) div 4
          - (y0 - era * 400) div 100 + doy) - 719468)"
    using md e inv by (simp add: civil_days_def Let_def y0_def[symmetric])
  also have "(y0 - era * 400) * 365 + (y0 - era * 400) div 4 - (y0 - era * 400) div 100 + doy = doe"
    using y0 by (simp add: doy_def year_start_def)
  also have "era * 146097 + doe - 719468 = days" using z by simp
  finally show "civil_days y m d = Some days" .
  assume "days < 2932897"
  show "0 \<le> y \<and> y < 10000"
  proof -
    have "era \<le> 24" using \<open>days < 2932897\<close> z doe by linarith
    moreover have False if "era = 24" "yoe = 399" "m \<le> 2"
    proof -
      have "0 \<le> mp" unfolding mp_def using doy_range by (intro pos_imp_zdiv_nonneg_iff[THEN iffD2]) auto
      then have "10 \<le> mp" using that(3) m by (simp split: if_splits)
      then have "306 \<le> doy" by (simp add: mp_def)
      then show False using \<open>days < 2932897\<close> z that by (simp add: doy_def year_start_def)
    qed
    ultimately show ?thesis using y yoe(1,2) era by (cases "era = 24"; cases "yoe = 399") auto
  qed
qed

section \<open>Padded numbers\<close>

lemma length_show_nat: "n < 10 ^ Suc w \<Longrightarrow> length (show_nat n) \<le> Suc w"
proof (induction w arbitrary: n)
  case 0
  then show ?case by (subst show_nat.simps) simp
next
  case (Suc w)
  then have "n div 10 < 10 ^ Suc w" by (simp add: less_mult_imp_div_less mult.commute)
  with Suc.IH[of "n div 10"] show ?case by (subst show_nat.simps) simp
qed

lemma digits_value_zeros: "digits_value 0 (replicate k CHR ''0'' @ s) = digits_value 0 s"
  by (induction k) (auto simp: is_ascii_digit_def)

lemma fmt_pad_parses:
  assumes "0 \<le> n" and "n < 10 ^ Suc w" and "w \<le> 3"
  shows "length (fmt_pad (Suc w) n) = Suc w"
    and "\<forall>c \<in> set (fmt_pad (Suc w) n). is_ascii_digit c"
    and "digits_value 0 (fmt_pad (Suc w) n) = Some (nat n)"
    and "nat n < 10000"
proof -
  have n: "nat n < 10 ^ Suc w" using assms by (simp add: nat_less_iff)
  show "length (fmt_pad (Suc w) n) = Suc w"
    using assms(1) length_show_nat[OF n] by (simp add: fmt_pad_def)
  show "\<forall>c \<in> set (fmt_pad (Suc w) n). is_ascii_digit c"
    using assms(1) show_nat_digits by (auto simp: fmt_pad_def is_ascii_digit_def)
  show "digits_value 0 (fmt_pad (Suc w) n) = Some (nat n)"
    using assms(1) by (simp add: fmt_pad_def digits_value_zeros digits_value_show)
  have "(10::nat) ^ Suc w \<le> 10 ^ 4" using assms(3) by (intro power_increasing) auto
  with n show "nat n < 10000" by simp
qed

lemma digits_no_sign:
  assumes "is_ascii_digit c" shows "c \<noteq> CHR ''+''" "c \<noteq> CHR ''-''" "c \<noteq> CHR ''Z''"
  using assms by (auto simp: is_ascii_digit_def)

lemma parse_i64_digits:
  assumes "s \<noteq> []" and "\<forall>c \<in> set s. is_ascii_digit c" and "digits_value 0 s = Some n" and "n < 10000"
  shows "parse_i64 s = Some (int n)" and "parse_u64 s = Some n"
proof -
  obtain c cs where s: "s = c # cs" using assms(1) by (cases s) auto
  then have "c \<noteq> CHR ''+''" "c \<noteq> CHR ''-''" using assms(2) digits_no_sign by auto
  then show "parse_i64 s = Some (int n)" "parse_u64 s = Some n"
    using assms(3,4) s by (simp_all add: parse_i64_def parse_u64_def parse_unsigned_def u64_max_def)
qed

text \<open>A padded field, as the reader's slices see it.\<close>

lemma fmt_pad_4:
  assumes "0 \<le> n" and "n < 10000"
  obtains a b c d where "fmt_pad 4 n = [a, b, c, d]" and "parse_i64 [a, b, c, d] = Some n"
proof -
  have l: "length (fmt_pad 4 n) = 4" using fmt_pad_parses(1)[of n 3] assms by simp
  then obtain a b c d where f: "fmt_pad 4 n = [a, b, c, d]"
    by (auto simp: eval_nat_numeral length_Suc_conv)
  have "parse_i64 (fmt_pad 4 n) = Some (int (nat n))"
    using fmt_pad_parses[of n 3] assms f by (intro parse_i64_digits) auto
  with f assms show thesis by (intro that[of a b c d]) auto
qed

lemma fmt_pad_2:
  assumes "0 \<le> n" and "n < 100"
  obtains a b where "fmt_pad 2 n = [a, b]" and "parse_i64 [a, b] = Some n"
proof -
  have l: "length (fmt_pad 2 n) = 2" using fmt_pad_parses(1)[of n 1] assms by (simp add: numeral_2_eq_2)
  then obtain a b where f: "fmt_pad 2 n = [a, b]" by (auto simp: eval_nat_numeral length_Suc_conv)
  have "parse_i64 (fmt_pad 2 n) = Some (int (nat n))"
    using fmt_pad_parses[of n 1] assms f by (intro parse_i64_digits) (auto simp: numeral_2_eq_2)
  with f assms show thesis by (intro that[of a b]) auto
qed

lemma fmt_pad_3_fraction:
  assumes "0 \<le> n" and "n < 1000"
  shows "parse_fraction (''.'' @ fmt_pad 3 n @ ''Z'') = (n, ''Z'')"
proof -
  note p = fmt_pad_parses[of n 2]
  have d: "\<forall>c \<in> set (fmt_pad 3 n). is_ascii_digit c" using p assms by simp
  have l: "length (fmt_pad 3 n) = 3" using p assms by simp
  have z: "\<not> is_ascii_digit CHR ''Z''" by (simp add: is_ascii_digit_def)
  have t: "takeWhile is_ascii_digit (fmt_pad 3 n @ ''Z'') = fmt_pad 3 n"
    "dropWhile is_ascii_digit (fmt_pad 3 n @ ''Z'') = ''Z''"
    using d z by (simp_all add: takeWhile_append2 dropWhile_append2)
  have "parse_u64 (fmt_pad 3 n) = Some (nat n)"
    using p assms d l by (intro parse_i64_digits) auto
  then show ?thesis using t l assms by (simp add: parse_fraction_def)
qed

section \<open>The round trip\<close>

lemma time_of_day:
  fixes t :: int
  assumes "0 \<le> t" and "t < 86400000"
  shows "((t div 3600000) * 3600 + (t div 60000 mod 60) * 60 + t div 1000 mod 60) * 1000 + t mod 1000 = t"
    and "0 \<le> t div 3600000" "t div 3600000 < 100"
    and "0 \<le> t div 60000 mod 60" "t div 60000 mod 60 < 100"
    and "0 \<le> t div 1000 mod 60" "t div 1000 mod 60 < 100"
proof -
  have "t div 60000 = t div 1000 div 60" by (simp add: zdiv_zmult2_eq[symmetric])
  moreover have "t div 3600000 = t div 1000 div 60 div 60" by (simp add: zdiv_zmult2_eq[symmetric])
  ultimately show "((t div 3600000) * 3600 + (t div 60000 mod 60) * 60 + t div 1000 mod 60) * 1000
      + t mod 1000 = t"
    by presburger
  show "0 \<le> t div 3600000" using assms by (intro pos_imp_zdiv_nonneg_iff[THEN iffD2]) auto
  show "t div 3600000 < 100" using assms by linarith
  show "0 \<le> t div 60000 mod 60" "0 \<le> t div 1000 mod 60" by simp_all
  have "t div 60000 mod 60 < 60" "t div 1000 mod 60 < 60" by (rule pos_mod_bound, simp)+
  then show "t div 60000 mod 60 < 100" "t div 1000 mod 60 < 100" by linarith+
qed



section \<open>Forms the reader misreads\<close>

text \<open>
  Half a second written with one digit is read as five milliseconds, and the offset form
  \<open>+HHMM\<close>, which the comment of \<open>timeparse\<close> lists, is read as that many hours.
\<close>

lemma one_digit_fraction: "parse_fraction ''.5Z'' = (5, ''Z'')"
  by (simp add: parse_fraction_def parse_u64_def parse_unsigned_def is_ascii_digit_def u64_max_def)

lemma offset_without_colon:
  "parse_offset ''0530'' = Some (530, 0)" "parse_offset ''05:30'' = Some (5, 30)"
  by (simp_all add: parse_offset_def trim_def trim_start_def trim_end_def trim_by_id is_ascii_space_def
      wide_space_def Let_def parse_i64_def parse_unsigned_def is_ascii_digit_def)

end
