(* ===== verification/SessionContext.thy ===== *)
theory SessionContext
  imports SessionTypes SessionTime
begin

text \<open>
  \<open>pa-core/src/session/mod.rs\<close>: reading the entries of a session file, the attribution of child
  usage, the migrations from older versions, and the reconstruction of the conversation at a leaf.
  The JSON reader of one line (\<open>serde_json::from_str::<FileEntry>\<close>) is the parameter \<open>deser\<close>; the
  random ids of the \<open>uuid\<close> crate are the parameter \<open>uuid\<close>, with the number of ids drawn so far.
\<close>

section \<open>Child usage\<close>

definition set_usage :: "usage \<Rightarrow> file_entry \<Rightarrow> file_entry" where
  "set_usage u e =
     (case e of FeMessage (SmAssistant a) b \<Rightarrow> FeMessage (SmAssistant (a\<lparr>aia_usage := u\<rparr>)) b | _ \<Rightarrow> e)"

text \<open>\<open>HashMap::insert\<close> in file order: the last assistant message of an id wins.\<close>

fun assistant_index :: "nat \<Rightarrow> file_entry list \<Rightarrow> (string \<rightharpoonup> nat) \<Rightarrow> (string \<rightharpoonup> nat)" where
  "assistant_index i [] m = m"
| "assistant_index i (e # es) m =
     assistant_index (Suc i) es
       (if is_assistant_entry e then (case entry_id e of None \<Rightarrow> m | Some x \<Rightarrow> m(x \<mapsto> i)) else m)"

fun usage_updates :: "(string \<rightharpoonup> nat) \<Rightarrow> file_entry list \<Rightarrow> (nat \<times> usage) list" where
  "usage_updates m [] = []"
| "usage_updates m (FeChildUsageAttributed p b # es) =
     (case m (cua_target_id p) of
        None \<Rightarrow> usage_updates m es
      | Some i \<Rightarrow> (i, cua_aggregate_usage p) # usage_updates m es)"
| "usage_updates m (_ # es) = usage_updates m es"

definition apply_updates :: "(nat \<times> usage) list \<Rightarrow> file_entry list \<Rightarrow> file_entry list" where
  "apply_updates us es = foldl (\<lambda>es (i, u). es[i := set_usage u (es ! i)]) es us"

definition apply_child_usage_attributions :: "file_entry list \<Rightarrow> file_entry list" where
  "apply_child_usage_attributions es =
     apply_updates (usage_updates (assistant_index 0 es Map.empty) es) es"

definition parse_session_entries :: "(string \<Rightarrow> file_entry option) \<Rightarrow> string \<Rightarrow> file_entry list" where
  "parse_session_entries deser content =
     apply_child_usage_attributions
       (List.map_filter deser (filter (\<lambda>l. trim l \<noteq> []) (str_lines (trim content))))"

section \<open>Fresh ids\<close>

text \<open>
  \<open>generate_id\<close> of \<open>session/mod.rs\<close> and of \<open>session/manager/ids.rs\<close>: up to a hundred draws of the
  first eight digits of a version 4 UUID, then a whole one.
\<close>

fun generate_id_loop :: "(nat \<Rightarrow> string) \<Rightarrow> (string \<Rightarrow> bool) \<Rightarrow> nat \<Rightarrow> nat \<Rightarrow> string \<times> nat" where
  "generate_id_loop uuid taken n 0 = (uuid n, Suc n)"
| "generate_id_loop uuid taken n (Suc k) =
     (let i = take 8 (filter (\<lambda>c. c \<noteq> CHR ''-'') (uuid n))
      in if taken i then generate_id_loop uuid taken (Suc n) k else (i, Suc n))"

definition generate_id :: "(nat \<Rightarrow> string) \<Rightarrow> (string \<Rightarrow> bool) \<Rightarrow> nat \<Rightarrow> string \<times> nat" where
  "generate_id uuid taken n = generate_id_loop uuid taken n 100"

lemma generate_id_loop_fresh:
  assumes "\<And>k. \<not> taken (uuid k)"
  shows "\<not> taken (fst (generate_id_loop uuid taken n k))"
  using assms by (induction k arbitrary: n) (auto simp: Let_def)

lemma generate_id_fresh: "(\<And>k. \<not> taken (uuid k)) \<Longrightarrow> \<not> taken (fst (generate_id uuid taken n))"
  unfolding generate_id_def by (rule generate_id_loop_fresh)

section \<open>Migrations\<close>

fun map_entry_base :: "(entry_base \<Rightarrow> entry_base) \<Rightarrow> file_entry \<Rightarrow> file_entry" where
  "map_entry_base f (FeMessage m b) = FeMessage m (f b)"
| "map_entry_base f (FeThinkingLevelChange p b) = FeThinkingLevelChange p (f b)"
| "map_entry_base f (FeServiceTierChange p b) = FeServiceTierChange p (f b)"
| "map_entry_base f (FeModelChange p b) = FeModelChange p (f b)"
| "map_entry_base f (FeCompaction p b) = FeCompaction p (f b)"
| "map_entry_base f (FeBranchSummary p b) = FeBranchSummary p (f b)"
| "map_entry_base f (FeCustom p b) = FeCustom p (f b)"
| "map_entry_base f (FeChildUsageAttributed p b) = FeChildUsageAttributed p (f b)"
| "map_entry_base f (FeLabel p b) = FeLabel p (f b)"
| "map_entry_base f (FeSessionInfo p b) = FeSessionInfo p (f b)"
| "map_entry_base f (FeSessionState p b) = FeSessionState p (f b)"
| "map_entry_base f (FeGitState p b) = FeGitState p (f b)"
| "map_entry_base f (FeCustomMessage p b) = FeCustomMessage p (f b)"
| "map_entry_base f e = e"

definition first_kept_index :: "file_entry \<Rightarrow> nat option" where
  "first_kept_index e =
     (case e of
        FeCompaction p b \<Rightarrow>
          (case co_details p of
             None \<Rightarrow> None
           | Some d \<Rightarrow> (case json_get ''firstKeptEntryIndex'' d of None \<Rightarrow> None | Some v \<Rightarrow> json_as_u64 v))
      | _ \<Rightarrow> None)"

fun set_version :: "nat \<Rightarrow> file_entry \<Rightarrow> file_entry" where
  "set_version v (FeHeader h) = FeHeader (h\<lparr>hd_version := Some v\<rparr>)"
| "set_version v e = e"

text \<open>The loop of \<open>migrate_v1_to_v2\<close>: the entries with their new ids, and the compaction fixes.\<close>

fun assign_ids ::
    "(nat \<Rightarrow> string) \<Rightarrow> nat \<Rightarrow> string list \<Rightarrow> string option \<Rightarrow> nat \<Rightarrow> file_entry list
     \<Rightarrow> file_entry list \<times> (nat \<times> nat) list"
  where
  "assign_ids uuid n ids prev position [] = ([], [])"
| "assign_ids uuid n ids prev position (e # es) =
     (if is_header e then
        let (es', fixes) = assign_ids uuid n ids prev (Suc position) es
        in (set_version 2 e # es', fixes)
      else
        let (i, n') = generate_id uuid (\<lambda>x. x \<in> set ids) n;
            e' = map_entry_base (\<lambda>b. b\<lparr>eb_id := Some i, eb_parent_id := prev\<rparr>) e;
            (es', fixes) = assign_ids uuid n' (i # ids) (Some i) (Suc position) es
        in (e' # es', (case first_kept_index e of None \<Rightarrow> fixes | Some t \<Rightarrow> (position, t) # fixes)))"

definition set_first_kept :: "string \<Rightarrow> file_entry \<Rightarrow> file_entry" where
  "set_first_kept i e =
     (case e of FeCompaction p b \<Rightarrow> FeCompaction (p\<lparr>co_first_kept_entry_id := i\<rparr>) b | _ \<Rightarrow> e)"

definition fix_compaction :: "file_entry list \<Rightarrow> nat \<times> nat \<Rightarrow> file_entry list" where
  "fix_compaction es f =
     (case f of (position, target) \<Rightarrow>
        if target < length es then
          (case entry_id (es ! target) of
             None \<Rightarrow> es
           | Some i \<Rightarrow> es[position := set_first_kept i (es ! position)])
        else es)"

definition migrate_v1_to_v2 :: "(nat \<Rightarrow> string) \<Rightarrow> nat \<Rightarrow> file_entry list \<Rightarrow> file_entry list" where
  "migrate_v1_to_v2 uuid n es =
     (let (es', fixes) = assign_ids uuid n [] None 0 es in foldl fix_compaction es' fixes)"

definition migrate_v2_to_v3 :: "file_entry list \<Rightarrow> file_entry list" where
  "migrate_v2_to_v3 es = map (set_version 3) es"

definition current_session_version :: nat where
  "current_session_version = 3"

fun header_version :: "file_entry list \<Rightarrow> nat" where
  "header_version [] = 1"
| "header_version (FeHeader h # es) = (case hd_version h of None \<Rightarrow> 1 | Some v \<Rightarrow> v)"
| "header_version (_ # es) = header_version es"

definition migrate_to_current_version ::
    "(nat \<Rightarrow> string) \<Rightarrow> nat \<Rightarrow> file_entry list \<Rightarrow> bool \<times> file_entry list" where
  "migrate_to_current_version uuid n es =
     (let version = header_version es
      in if current_session_version \<le> version then (False, es)
         else let es = (if version < 2 then migrate_v1_to_v2 uuid n es else es);
                  es = (if version < 3 then migrate_v2_to_v3 es else es)
              in (True, es))"

fun get_latest_compaction_entry :: "file_entry list \<Rightarrow> compaction_entry option" where
  "get_latest_compaction_entry [] = None"
| "get_latest_compaction_entry (e # es) =
     (case get_latest_compaction_entry es of
        Some p \<Rightarrow> Some p
      | None \<Rightarrow> (case e of FeCompaction p b \<Rightarrow> Some p | _ \<Rightarrow> None))"

end
