(* ===== verification/SessionPath.thy ===== *)
theory SessionPath
  imports SessionContext
begin

text \<open>
  The tree a session file is: the index from entry ids to positions, and the walk from an entry
  to the root along the parent links, which stops at a missing parent and at the first position
  met twice. The walk of \<open>build_session_context\<close> (\<open>session/mod.rs\<close>) and the one of
  \<open>active_branch_entries\<close> (\<open>session/manager/queries.rs\<close>) are both this loop.
\<close>

section \<open>The index\<close>

text \<open>\<open>HashMap::insert\<close> for every entry with an id, in file order: the last entry of an id wins.\<close>

fun index_entries :: "nat \<Rightarrow> file_entry list \<Rightarrow> (string \<rightharpoonup> nat) \<Rightarrow> (string \<rightharpoonup> nat)" where
  "index_entries i [] m = m"
| "index_entries i (e # es) m =
     index_entries (Suc i) es (case entry_id e of None \<Rightarrow> m | Some x \<Rightarrow> m(x \<mapsto> i))"

definition ids_by_position :: "file_entry list \<Rightarrow> (string \<rightharpoonup> nat)" where
  "ids_by_position es = index_entries 0 es Map.empty"

text \<open>An index is sound when it leads each id to an entry that carries it.\<close>

definition index_sound :: "file_entry list \<Rightarrow> (string \<rightharpoonup> nat) \<Rightarrow> bool" where
  "index_sound es m \<longleftrightarrow> (\<forall>x i. m x = Some i \<longrightarrow> i < length es \<and> entry_id (es ! i) = Some x)"

lemma index_soundD: "index_sound es m \<Longrightarrow> m x = Some i \<Longrightarrow> i < length es \<and> entry_id (es ! i) = Some x"
  by (simp add: index_sound_def)

lemma index_sound_empty [simp]: "index_sound es Map.empty"
  by (simp add: index_sound_def)

lemma index_entries_sound:
  assumes "index_sound pre m" and "i = length pre"
  shows "index_sound (pre @ es) (index_entries i es m)"
  using assms
proof (induction es arbitrary: pre m i)
  case Nil
  then show ?case by simp
next
  case (Cons e es)
  have "index_sound (pre @ [e]) (case entry_id e of None \<Rightarrow> m | Some x \<Rightarrow> m(x \<mapsto> i))"
    using Cons.prems by (auto simp: index_sound_def nth_append split: option.splits if_splits)
  from Cons.IH[OF this, of "Suc i"] Cons.prems(2) show ?case
    by (simp only: index_entries.simps append_Cons append_Nil append_assoc length_append_singleton)
qed

lemma ids_by_position_sound: "index_sound es (ids_by_position es)"
  using index_entries_sound[of "[]" Map.empty 0 es] by (simp add: ids_by_position_def)

lemma index_entries_append:
  "index_entries i (xs @ ys) m = index_entries (i + length xs) ys (index_entries i xs m)"
  by (induction xs arbitrary: i m) auto

lemma ids_by_position_snoc:
  "ids_by_position (es @ [e]) =
     (case entry_id e of None \<Rightarrow> ids_by_position es | Some x \<Rightarrow> (ids_by_position es)(x \<mapsto> length es))"
  by (cases "entry_id e") (simp_all add: ids_by_position_def index_entries_append)

lemma ids_by_position_dom: "dom (ids_by_position es) = {x. \<exists>e \<in> set es. entry_id e = Some x}"
proof (induction es rule: rev_induct)
  case Nil
  then show ?case by (simp add: ids_by_position_def)
next
  case (snoc e es)
  then show ?case by (auto simp: ids_by_position_snoc split: option.splits)
qed

text \<open>With distinct ids, every entry that has an id is found under it.\<close>

definition distinct_ids :: "file_entry list \<Rightarrow> bool" where
  "distinct_ids es \<longleftrightarrow> distinct (List.map_filter entry_id es)"

lemma distinct_ids_snoc:
  "distinct_ids (es @ [e]) \<longleftrightarrow>
     distinct_ids es \<and> (\<forall>x. entry_id e = Some x \<longrightarrow> ids_by_position es x = None)"
proof -
  have "x \<in> set (List.map_filter entry_id es) \<longleftrightarrow> x \<in> dom (ids_by_position es)" for x
    by (auto simp: ids_by_position_dom map_filter_def image_iff)
  then show ?thesis
    by (cases "entry_id e") (auto simp: distinct_ids_def map_filter_def dom_def)
qed

lemma distinct_ids_index:
  "distinct_ids es \<Longrightarrow> i < length es \<Longrightarrow> entry_id (es ! i) = Some x \<Longrightarrow> ids_by_position es x = Some i"
proof (induction es arbitrary: i rule: rev_induct)
  case Nil
  then show ?case by simp
next
  case (snoc e es)
  show ?case
  proof (cases "i = length es")
    case True
    with snoc.prems show ?thesis by (simp add: ids_by_position_snoc)
  next
    case False
    then have i: "i < length es" using snoc.prems by simp
    with snoc have "ids_by_position es x = Some i" by (simp add: distinct_ids_snoc nth_append)
    with snoc.prems show ?thesis by (auto simp: ids_by_position_snoc distinct_ids_snoc split: option.splits)
  qed
qed

section \<open>The walk to the root\<close>

text \<open>\<open>parent_index\<close> is the step of the walk: the position of the entry's parent.\<close>

definition parent_index :: "file_entry list \<Rightarrow> (string \<rightharpoonup> nat) \<Rightarrow> nat \<Rightarrow> nat option" where
  "parent_index es by_id i =
     (case entry_parent_id (es ! i) of None \<Rightarrow> None | Some p \<Rightarrow> by_id p)"

text \<open>
  The loop, leaf first; \<open>seen\<close> is the set of visited positions. A position past the end of the
  file (an index panic in Rust) is not met: an index that is sound never leads there.
\<close>

function walk :: "(nat \<Rightarrow> nat option) \<Rightarrow> nat \<Rightarrow> nat list \<Rightarrow> nat option \<Rightarrow> nat list" where
  "walk nxt n seen None = []"
| "walk nxt n seen (Some i) =
     (if i \<in> set seen \<or> n \<le> i then [] else i # walk nxt n (i # seen) (nxt i))"
  by pat_completeness auto
termination
proof (relation "measure (\<lambda>(nxt, n, seen, c). card ({..<n} - set seen))", goal_cases)
  case 1
  then show ?case by simp
next
  case (2 nxt n seen i)
  then have i: "i \<in> {..<n} - set seen" by simp
  have "{..<n} - set (i # seen) = ({..<n} - set seen) - {i}" by auto
  with i have "card ({..<n} - set (i # seen)) < card ({..<n} - set seen)"
    by (simp only:) (intro card_Diff1_less, simp_all)
  then show ?case by simp
qed

declare walk.simps(2) [simp del]

lemma walk_props:
  "distinct (walk nxt n seen c) \<and> set (walk nxt n seen c) \<inter> set seen = {} \<and> set (walk nxt n seen c) \<subseteq> {..<n}"
  by (induction nxt n seen c rule: walk.induct) (auto simp: walk.simps(2))

text \<open>Each position of the walk is followed by its successor.\<close>

lemma walk_linked:
  "Suc k < length (walk nxt n seen c) \<Longrightarrow> nxt (walk nxt n seen c ! k) = Some (walk nxt n seen c ! Suc k)"
proof (induction nxt n seen c arbitrary: k rule: walk.induct)
  case (1 nxt n seen)
  then show ?case by simp
next
  case (2 nxt n seen i)
  then have i: "\<not> (i \<in> set seen \<or> n \<le> i)" by (auto simp: walk.simps(2) split: if_splits)
  show ?case
  proof (cases k)
    case 0
    with 2 i show ?thesis by (cases "nxt i") (auto simp: walk.simps(2) split: if_splits)
  next
    case (Suc k')
    with 2 i show ?thesis by (simp add: walk.simps(2))
  qed
qed

lemma walk_start: "i \<notin> set seen \<Longrightarrow> i < n \<Longrightarrow> walk nxt n seen (Some i) \<noteq> [] \<and> hd (walk nxt n seen (Some i)) = i"
  by (simp add: walk.simps(2))

text \<open>The walk ends at a root, or at the first position met twice.\<close>

lemma walk_end:
  assumes "walk nxt n seen c \<noteq> []" and "\<And>i j. i < n \<Longrightarrow> nxt i = Some j \<Longrightarrow> j < n"
  shows "case nxt (last (walk nxt n seen c)) of None \<Rightarrow> True
         | Some j \<Rightarrow> j \<in> set seen \<union> set (walk nxt n seen c)"
  using assms
proof (induction nxt n seen c rule: walk.induct)
  case (1 nxt n seen)
  then show ?case by simp
next
  case (2 nxt n seen i)
  then have i: "\<not> (i \<in> set seen \<or> n \<le> i)" by (auto simp: walk.simps(2) split: if_splits)
  show ?case
  proof (cases "walk nxt n (i # seen) (nxt i) = []")
    case True
    have "case nxt i of None \<Rightarrow> True | Some j \<Rightarrow> j \<in> set (i # seen)"
    proof (cases "nxt i")
      case (Some j)
      with i have "j < n" using "2.prems"(2)[of i j] by simp
      with True Some show ?thesis by (auto simp: walk.simps(2) split: if_splits)
    qed simp
    with True i show ?thesis by (auto simp: walk.simps(2) split: option.splits)
  next
    case False
    with 2 i show ?thesis by (auto simp: walk.simps(2) split: option.splits)
  qed
qed

text \<open>When positions decrease along the walk, no position is met twice and \<open>seen\<close> plays no role.\<close>

lemma walk_seen:
  assumes "\<And>i j. i < n \<Longrightarrow> nxt i = Some j \<Longrightarrow> j < i"
    and "\<forall>s \<in> set seen. case c of None \<Rightarrow> True | Some i \<Rightarrow> i < s"
  shows "walk nxt n seen c = walk nxt n [] c"
proof -
  have "walk nxt n seen c = walk nxt n seen' c"
    if "\<forall>s \<in> set seen. case c of None \<Rightarrow> True | Some i \<Rightarrow> i < s"
      and "\<forall>s \<in> set seen'. case c of None \<Rightarrow> True | Some i \<Rightarrow> i < s" for seen seen'
    using that
  proof (induction "case c of None \<Rightarrow> 0 | Some i \<Rightarrow> Suc i" arbitrary: c seen seen' rule: less_induct)
    case less
    show ?case
    proof (cases c)
      case None
      then show ?thesis by simp
    next
      case (Some i)
      have notin: "i \<notin> set seen" "i \<notin> set seen'" using less.prems Some by auto
      show ?thesis
      proof (cases "i < n")
        case True
        have "walk nxt n (i # seen) (nxt i) = walk nxt n (i # seen') (nxt i)"
        proof (rule less.hyps)
          show "(case nxt i of None \<Rightarrow> 0 | Some i \<Rightarrow> Suc i) < (case c of None \<Rightarrow> 0 | Some i \<Rightarrow> Suc i)"
            using Some assms(1)[OF True] by (cases "nxt i") auto
          have "j < i \<and> (\<forall>s \<in> set seen \<union> set seen'. j < s)" if "nxt i = Some j" for j
            using less.prems Some assms(1)[OF True that] by fastforce
          then show "\<forall>s \<in> set (i # seen). case nxt i of None \<Rightarrow> True | Some i \<Rightarrow> i < s"
            "\<forall>s \<in> set (i # seen'). case nxt i of None \<Rightarrow> True | Some i \<Rightarrow> i < s"
            by (cases "nxt i"; simp)+
        qed
        with True notin Some show ?thesis by (simp add: walk.simps(2))
      next
        case False
        with Some show ?thesis by (simp add: walk.simps(2))
      qed
    qed
  qed
  from this[OF assms(2), of "[]"] show ?thesis by simp
qed

lemma walk_unfold_decreasing:
  assumes "\<And>i j. i < n \<Longrightarrow> nxt i = Some j \<Longrightarrow> j < i" and "i < n"
  shows "walk nxt n [] (Some i) = i # walk nxt n [] (nxt i)"
proof -
  have "walk nxt n [i] (nxt i) = walk nxt n [] (nxt i)"
    using assms(1)[OF assms(2)] by (intro walk_seen[OF assms(1)]) (auto split: option.splits)
  with assms(2) show ?thesis by (simp add: walk.simps(2))
qed

lemma walk_decreasing:
  assumes "\<And>i j. i < n \<Longrightarrow> nxt i = Some j \<Longrightarrow> j < i"
  shows "sorted_wrt (>) (walk nxt n [] c)"
proof (induction "case c of None \<Rightarrow> 0 | Some i \<Rightarrow> Suc i" arbitrary: c rule: less_induct)
  case less
  show ?case
  proof (cases c)
    case None
    then show ?thesis by simp
  next
    case (Some i)
    show ?thesis
    proof (cases "i < n")
      case True
      have step: "(case nxt i of None \<Rightarrow> 0 | Some i \<Rightarrow> Suc i) < (case c of None \<Rightarrow> 0 | Some i \<Rightarrow> Suc i)"
        using Some assms[OF True] by (cases "nxt i") auto
      from less[OF this] have s: "sorted_wrt (>) (walk nxt n [] (nxt i))" .
      have "\<forall>j \<in> set (walk nxt n [] (nxt i)). j < i"
      proof (cases "nxt i")
        case (Some j)
        have "j < i" using assms[OF True Some] .
        moreover have "walk nxt n [] (Some j) = j # walk nxt n [] (nxt j)"
          using \<open>j < i\<close> True by (intro walk_unfold_decreasing[OF assms]) simp_all
        ultimately show ?thesis using Some s by auto
      qed simp
      with s True Some show ?thesis by (simp add: walk_unfold_decreasing[of n nxt i, OF assms True])
    next
      case False
      with Some show ?thesis by (simp add: walk.simps(2))
    qed
  qed
qed

end
