(* ===== verification/SessionBuild.thy ===== *)
theory SessionBuild
  imports SessionPath
begin

text \<open>
  \<open>build_session_context\<close> of \<open>pa-core/src/session/mod.rs\<close>: the conversation a model sees at a leaf
  of the session tree, and \<open>pa-core/src/session/tree.rs\<close>, the tree view of the same entries.
\<close>

section \<open>The reconstructed context\<close>

record session_context =
  sc_messages :: "session_message list"
  sc_thinking_level :: string
  sc_service_tier :: "service_tier option"
  sc_model :: "(string \<times> string) option"

definition empty_context :: session_context where
  "empty_context =
     \<lparr>sc_messages = [], sc_thinking_level = ''off'', sc_service_tier = None, sc_model = None\<rparr>"

definition harness_digest_custom_type :: string where
  "harness_digest_custom_type = ''harness_digest''"

definition context_leaf :: "file_entry list \<Rightarrow> string option \<Rightarrow> nat option" where
  "context_leaf es leaf_id =
     (if leaf_id = None \<or> leaf_id = Some [] then (if es = [] then None else Some (length es - 1))
      else ids_by_position es (the leaf_id))"

text \<open>The path of positions from the root to the leaf.\<close>

definition context_path :: "file_entry list \<Rightarrow> nat \<Rightarrow> nat list" where
  "context_path es leaf =
     rev (walk (parent_index es (ids_by_position es)) (length es) [] (Some leaf))"

text \<open>One step of the settings loop; the last component is the newest compaction on the path.\<close>

type_synonym path_settings =
  "string \<times> service_tier option \<times> (string \<times> string) option \<times> nat option"

definition settings_step :: "file_entry list \<Rightarrow> path_settings \<Rightarrow> nat \<Rightarrow> path_settings" where
  "settings_step es st i =
     (case st of (thinking, tier, md, compaction) \<Rightarrow>
        (case es ! i of
           FeThinkingLevelChange l b \<Rightarrow> (l, tier, md, compaction)
         | FeServiceTierChange t b \<Rightarrow> (thinking, t, md, compaction)
         | FeModelChange p b \<Rightarrow> (thinking, tier, Some (mc_provider p, mc_model_id p), compaction)
         | FeMessage (SmAssistant a) b \<Rightarrow> (thinking, tier, Some (aia_provider a, aia_model a), compaction)
         | FeCompaction p b \<Rightarrow> (thinking, tier, md, Some i)
         | _ \<Rightarrow> st))"

definition path_settings :: "file_entry list \<Rightarrow> nat list \<Rightarrow> path_settings" where
  "path_settings es path = foldl (settings_step es) (''off'', None, None, None) path"

fun is_digest_entry :: "file_entry \<Rightarrow> bool" where
  "is_digest_entry (FeCustomMessage p b) = (cme_custom_type p = harness_digest_custom_type)"
| "is_digest_entry _ = False"

text \<open>The reversed search for the newest digest row of the path.\<close>

definition newest_digest :: "file_entry list \<Rightarrow> nat list \<Rightarrow> nat option" where
  "newest_digest es path = find (\<lambda>k. is_digest_entry (es ! (path ! k))) (rev [0..<length path])"

definition digest_id :: "file_entry list \<Rightarrow> nat list \<Rightarrow> string option" where
  "digest_id es path =
     (case newest_digest es path of None \<Rightarrow> None | Some k \<Rightarrow> entry_id (es ! (path ! k)))"

definition path_position :: "nat list \<Rightarrow> nat \<Rightarrow> nat option" where
  "path_position path i = find (\<lambda>k. path ! k = i) [0..<length path]"

definition has_snapshot :: "file_entry \<Rightarrow> bool" where
  "has_snapshot e = (case e of FeCompaction p b \<Rightarrow> co_harness_digest p \<noteq> None | _ \<Rightarrow> False)"

definition snapshot_outranks_digest :: "file_entry list \<Rightarrow> nat list \<Rightarrow> nat option \<Rightarrow> bool" where
  "snapshot_outranks_digest es path compaction =
     (case compaction of
        None \<Rightarrow> False
      | Some c \<Rightarrow>
          has_snapshot (es ! c) \<and>
          (case newest_digest es path of
             None \<Rightarrow> True
           | Some d \<Rightarrow> (case path_position path c of None \<Rightarrow> False | Some k \<Rightarrow> d < k)))"

definition keep_digest :: "file_entry list \<Rightarrow> nat list \<Rightarrow> nat option \<Rightarrow> string option" where
  "keep_digest es path compaction =
     (if snapshot_outranks_digest es path compaction then None else digest_id es path)"

definition summary_yields_snapshot :: "file_entry list \<Rightarrow> nat list \<Rightarrow> nat option \<Rightarrow> bool" where
  "summary_yields_snapshot es path compaction =
     (case (newest_digest es path, compaction) of
        (Some d, Some c) \<Rightarrow> (case path_position path c of None \<Rightarrow> False | Some k \<Rightarrow> k < d)
      | _ \<Rightarrow> False)"

definition create_custom_message :: "custom_message_entry \<Rightarrow> file_entry \<Rightarrow> custom_message" where
  "create_custom_message p e =
     \<lparr>cu_custom_type = cme_custom_type p, cu_content = cme_content p, cu_display = cme_display p,
      cu_details = cme_details p, cu_timestamp = timestamp_to_millis (entry_timestamp e), cu_rest = []\<rparr>"

text \<open>\<open>append_message\<close>: the message an entry contributes, if it contributes one.\<close>

definition context_message :: "string option \<Rightarrow> file_entry \<Rightarrow> session_message list" where
  "context_message keep e =
     (case e of
        FeMessage m b \<Rightarrow> [m]
      | FeCustomMessage p b \<Rightarrow>
          if cme_custom_type p = harness_digest_custom_type \<and> entry_id e \<noteq> keep then []
          else [SmCustom (create_custom_message p e)]
      | FeBranchSummary p b \<Rightarrow>
          if bse_summary p \<noteq> [] then
            [SmBranchSummary \<lparr>bs_summary = bse_summary p, bs_from_id = bse_from_id p,
                              bs_timestamp = timestamp_to_millis (entry_timestamp e)\<rparr>]
          else []
      | _ \<Rightarrow> [])"

definition append_message :: "file_entry list \<Rightarrow> string option \<Rightarrow> session_message list \<Rightarrow> nat \<Rightarrow> session_message list" where
  "append_message es keep target i = target @ context_message keep (es ! i)"

text \<open>The rows before the compaction, from the first kept one on.\<close>

definition retained_step ::
    "file_entry list \<Rightarrow> string \<Rightarrow> string option \<Rightarrow> bool \<times> session_message list \<Rightarrow> nat \<Rightarrow> bool \<times> session_message list" where
  "retained_step es first_kept keep st i =
     (case st of (found, retained) \<Rightarrow>
        let found = (found \<or> (case entry_id (es ! i) of None \<Rightarrow> [] | Some x \<Rightarrow> x) = first_kept)
        in (found, if found then append_message es keep retained i else retained))"

definition compaction_summary ::
    "compaction_entry \<Rightarrow> file_entry \<Rightarrow> bool \<Rightarrow> nat \<Rightarrow> compaction_summary_message" where
  "compaction_summary p e yields retained =
     (let digest = (if yields then None else co_harness_digest p) in
      \<lparr>cs_summary = co_summary p, cs_tokens_before = co_tokens_before p,
       cs_retained_message_count = Some retained,
       cs_custom_instructions = co_custom_instructions p, cs_harness_digest = digest,
       cs_harness_state_fingerprint = (if digest = None then None else co_harness_state_fingerprint p),
       cs_timestamp = timestamp_to_millis (entry_timestamp e)\<rparr>)"

definition context_messages :: "file_entry list \<Rightarrow> nat list \<Rightarrow> nat option \<Rightarrow> session_message list" where
  "context_messages es path compaction =
     (let keep = keep_digest es path compaction in
      case compaction of
        Some c \<Rightarrow>
          (case es ! c of
             FeCompaction p b \<Rightarrow>
               let retained =
                     snd (foldl (retained_step es (co_first_kept_entry_id p) keep) (False, [])
                            (take (partition_point (\<lambda>i. i < c) path) path));
                   summary = SmCompactionSummary
                     (compaction_summary p (es ! c) (summary_yields_snapshot es path compaction) (length retained))
               in foldl (append_message es keep) ([summary] @ retained)
                    (drop (partition_point (\<lambda>i. i \<le> c) path) path)
           | _ \<Rightarrow> [])
      | None \<Rightarrow> foldl (append_message es keep) [] path)"

definition build_session_context :: "file_entry list \<Rightarrow> string option \<Rightarrow> session_context" where
  "build_session_context es leaf_id =
     (case context_leaf es leaf_id of
        None \<Rightarrow> empty_context
      | Some leaf \<Rightarrow>
          let path = context_path es leaf;
              (thinking, tier, md, compaction) = path_settings es path
          in \<lparr>sc_messages = context_messages es path compaction, sc_thinking_level = thinking,
              sc_service_tier = tier, sc_model = md\<rparr>)"

section \<open>The tree view\<close>

record session_tree =
  st_children :: "string option \<Rightarrow> nat list"
  st_header :: "nat option"
  st_labels :: "string \<rightharpoonup> string option"
  st_label_timestamps :: "string \<rightharpoonup> string"

definition empty_tree :: session_tree where
  "empty_tree = \<lparr>st_children = (\<lambda>_. []), st_header = None, st_labels = Map.empty,
                 st_label_timestamps = Map.empty\<rparr>"

definition tree_step :: "session_tree \<Rightarrow> nat \<times> file_entry \<Rightarrow> session_tree" where
  "tree_step t ie =
     (case ie of (i, e) \<Rightarrow>
        if is_header e then t\<lparr>st_header := Some i\<rparr>
        else if entry_id e = None then t
        else
          (case e of
             FeLabel p b \<Rightarrow>
               let t = t\<lparr>st_labels := (st_labels t)(le_target_id p \<mapsto> le_label p)\<rparr>
               in if entry_timestamp e \<noteq> [] then
                    t\<lparr>st_label_timestamps := (st_label_timestamps t)(le_target_id p \<mapsto> entry_timestamp e)\<rparr>
                  else t
           | _ \<Rightarrow>
               t\<lparr>st_children := (st_children t)
                   (entry_parent_id e := st_children t (entry_parent_id e) @ [i])\<rparr>))"

definition build_tree :: "file_entry list \<Rightarrow> session_tree" where
  "build_tree es = foldl tree_step empty_tree (enumerate 0 es)"

text \<open>\<open>path_to\<close> walks to the root with no check for a cycle: the loop may not end.\<close>

partial_function (option) climb :: "(nat \<Rightarrow> nat option) \<Rightarrow> nat option \<Rightarrow> nat list option" where
  "climb nxt c =
     (case c of
        None \<Rightarrow> Some []
      | Some i \<Rightarrow> Option.bind (climb nxt (nxt i)) (\<lambda>p. Some (p @ [i])))"

definition path_to :: "file_entry list \<Rightarrow> string \<Rightarrow> nat list option" where
  "path_to es leaf_id =
     climb (parent_index es (ids_by_position es)) (ids_by_position es leaf_id)"

definition default_leaf :: "file_entry list \<Rightarrow> string option" where
  "default_leaf es = (if es = [] then None else entry_id (last es))"

definition tree_label :: "session_tree \<Rightarrow> string \<Rightarrow> string option option" where
  "tree_label t target = st_labels t target"

section \<open>The path\<close>

text \<open>In a file written by the program every parent precedes its children.\<close>

definition parents_precede :: "file_entry list \<Rightarrow> bool" where
  "parents_precede es \<longleftrightarrow>
     (\<forall>i < length es. case parent_index es (ids_by_position es) i of None \<Rightarrow> True | Some j \<Rightarrow> j < i)"

lemma parents_precedeD:
  "parents_precede es \<Longrightarrow> i < length es \<Longrightarrow> parent_index es (ids_by_position es) i = Some j \<Longrightarrow> j < i"
  by (fastforce simp: parents_precede_def)

lemma parent_index_bound: "parent_index es (ids_by_position es) i = Some j \<Longrightarrow> j < length es"
  using index_soundD[OF ids_by_position_sound] by (auto simp: parent_index_def split: option.splits)

lemma context_leaf_bound: "context_leaf es l = Some leaf \<Longrightarrow> leaf < length es"
  using index_soundD[OF ids_by_position_sound]
  by (auto simp: context_leaf_def split: if_splits)

lemma context_path_nonempty: "leaf < length es \<Longrightarrow> context_path es leaf \<noteq> []"
  using walk_start[of leaf "[]" "length es"] by (simp add: context_path_def)

lemma context_path_last: "leaf < length es \<Longrightarrow> last (context_path es leaf) = leaf"
  using walk_start[of leaf "[]" "length es"] by (simp add: context_path_def last_rev)

lemma context_path_distinct: "distinct (context_path es leaf)"
  using walk_props by (simp add: context_path_def)

lemma context_path_bound: "i \<in> set (context_path es leaf) \<Longrightarrow> i < length es"
  using walk_props[of "parent_index es (ids_by_position es)" "length es" "[]" "Some leaf"]
  by (auto simp: context_path_def)

lemma context_path_linked:
  assumes "Suc k < length (context_path es leaf)"
  shows "parent_index es (ids_by_position es) (context_path es leaf ! Suc k) = Some (context_path es leaf ! k)"
proof -
  define w where "w = walk (parent_index es (ids_by_position es)) (length es) [] (Some leaf)"
  have p: "context_path es leaf = rev w" by (simp add: context_path_def w_def)
  have k: "Suc k < length w" using assms p by simp
  have "parent_index es (ids_by_position es) (w ! (length w - Suc (Suc k)))
      = Some (w ! Suc (length w - Suc (Suc k)))"
    using walk_linked[of "length w - Suc (Suc k)" "parent_index es (ids_by_position es)" "length es" "[]" "Some leaf"] k
    by (simp add: w_def[symmetric])
  moreover have "Suc (length w - Suc (Suc k)) = length w - Suc k" using k by simp
  ultimately show ?thesis using k p by (simp add: rev_nth)
qed

lemma context_path_root:
  assumes "leaf < length es"
  shows "case parent_index es (ids_by_position es) (hd (context_path es leaf)) of
           None \<Rightarrow> True | Some j \<Rightarrow> j \<in> set (context_path es leaf)"
proof -
  define w where "w = walk (parent_index es (ids_by_position es)) (length es) [] (Some leaf)"
  have ne: "w \<noteq> []" using walk_start[of leaf "[]" "length es"] assms by (simp add: w_def)
  have "case parent_index es (ids_by_position es) (last w) of None \<Rightarrow> True | Some j \<Rightarrow> j \<in> set [] \<union> set w"
    using ne unfolding w_def by (intro walk_end) (auto intro: parent_index_bound)
  then show ?thesis using ne by (simp add: context_path_def w_def[symmetric] hd_rev split: option.splits)
qed

lemma context_path_sorted:
  "parents_precede es \<Longrightarrow> sorted_wrt (<) (context_path es leaf)"
  using walk_decreasing[of "length es" "parent_index es (ids_by_position es)" "Some leaf"] parents_precedeD[of es]
  by (auto simp: context_path_def sorted_wrt_rev)

lemma last_entry_indexed:
  "es \<noteq> [] \<Longrightarrow> entry_id (last es) = Some x \<Longrightarrow> ids_by_position es x = Some (length es - 1)"
  by (cases es rule: rev_cases) (simp_all add: ids_by_position_snoc)

text \<open>Every entry of the path is the one its id leads to; only the leaf may be without an id.\<close>

lemma context_path_ids:
  assumes leaf: "context_leaf es l = Some leaf" and i: "i \<in> set (context_path es leaf)"
  shows "case entry_id (es ! i) of None \<Rightarrow> i = leaf | Some x \<Rightarrow> ids_by_position es x = Some i"
proof (cases "i = leaf")
  case True
  show ?thesis
  proof (cases "l = None \<or> l = Some []")
    case True
    with leaf have "es \<noteq> []" "leaf = length es - 1" by (auto simp: context_leaf_def split: if_splits)
    with \<open>i = leaf\<close> show ?thesis
      using last_entry_indexed[of es] by (auto simp: last_conv_nth split: option.splits)
  next
    case False
    with leaf have "ids_by_position es (the l) = Some leaf" by (simp add: context_leaf_def)
    with index_soundD[OF ids_by_position_sound this] \<open>i = leaf\<close> show ?thesis by simp
  qed
next
  case False
  obtain k where k: "k < length (context_path es leaf)" "context_path es leaf ! k = i"
    using i by (auto simp: in_set_conv_nth)
  have "Suc k < length (context_path es leaf)"
  proof (rule ccontr)
    assume "\<not> ?thesis"
    with k have "i = last (context_path es leaf)"
      using last_conv_nth[of "context_path es leaf"] by (cases "context_path es leaf") (auto simp: less_Suc_eq)
    with context_path_last[OF context_leaf_bound[OF leaf]] False show False by simp
  qed
  from context_path_linked[OF this] k obtain p where "ids_by_position es p = Some i"
    by (auto simp: parent_index_def split: option.splits)
  with index_soundD[OF ids_by_position_sound this] show ?thesis by simp
qed

text \<open>
  The conversation is rebuilt from the right rows: for every file, well formed or corrupt, the
  walk ends, and its path leads from a root (or from the row where a parent cycle closes) to the
  requested leaf, each row being the parent of the next one, with no row twice.
\<close>

lemma context_path_is_parent_chain:
  assumes "context_leaf es leaf_id = Some leaf"
  shows "distinct (context_path es leaf) \<and> last (context_path es leaf) = leaf
     \<and> (\<forall>k. Suc k < length (context_path es leaf) \<longrightarrow>
          (\<exists>p. entry_parent_id (es ! (context_path es leaf ! Suc k)) = Some p
             \<and> entry_id (es ! (context_path es leaf ! k)) = Some p))
     \<and> (case parent_index es (ids_by_position es) (hd (context_path es leaf)) of
          None \<Rightarrow> True | Some j \<Rightarrow> j \<in> set (context_path es leaf))"
proof (intro conjI allI impI)
  note bound = context_leaf_bound[OF assms]
  show "distinct (context_path es leaf)" by (rule context_path_distinct)
  show "last (context_path es leaf) = leaf" by (rule context_path_last[OF bound])
  show "case parent_index es (ids_by_position es) (hd (context_path es leaf)) of
          None \<Rightarrow> True | Some j \<Rightarrow> j \<in> set (context_path es leaf)"
    by (rule context_path_root[OF bound])
  fix k assume "Suc k < length (context_path es leaf)"
  from context_path_linked[OF this] obtain p where
    "entry_parent_id (es ! (context_path es leaf ! Suc k)) = Some p"
    "ids_by_position es p = Some (context_path es leaf ! k)"
    by (auto simp: parent_index_def split: option.splits)
  with index_soundD[OF ids_by_position_sound this(2)] show
    "\<exists>p. entry_parent_id (es ! (context_path es leaf ! Suc k)) = Some p
       \<and> entry_id (es ! (context_path es leaf ! k)) = Some p"
    by blast
qed

section \<open>The climb of the tree view\<close>

lemma climb_decreasing:
  assumes "\<And>i j. i < n \<Longrightarrow> nxt i = Some j \<Longrightarrow> j < i"
    and "case c of None \<Rightarrow> True | Some i \<Rightarrow> i < n"
  shows "climb nxt c = Some (rev (walk nxt n [] c))"
  using assms(2)
proof (induction "case c of None \<Rightarrow> 0 | Some i \<Rightarrow> Suc i" arbitrary: c rule: less_induct)
  case less
  show ?case
  proof (cases c)
    case None
    then show ?thesis by (simp add: climb.simps)
  next
    case (Some i)
    with less.prems have i: "i < n" by simp
    have "climb nxt (nxt i) = Some (rev (walk nxt n [] (nxt i)))"
      using Some assms(1)[OF i] i by (intro less.hyps) (auto split: option.splits dest: less_trans)
    then show ?thesis using Some
      by (subst climb.simps) (simp add: walk_unfold_decreasing[of n nxt i, OF assms(1) i])
  qed
qed

lemma climb_endless:
  assumes "\<And>i. i \<in> S \<Longrightarrow> \<exists>j \<in> S. nxt i = Some j"
  shows "i \<in> S \<Longrightarrow> climb nxt (Some i) = None"
proof -
  have "i \<in> S \<Longrightarrow> climb nxt (Some i) \<noteq> Some p" for i p
  proof (induction p arbitrary: i rule: rev_induct)
    case Nil
    show ?case by (subst climb.simps) (simp split: bind_split)
  next
    case (snoc x p)
    from assms[OF snoc.prems] obtain j where j: "j \<in> S" "nxt i = Some j" by blast
    show ?case using snoc.IH[OF j(1)] j(2) by (subst climb.simps) (auto split: bind_split)
  qed
  then show "i \<in> S \<Longrightarrow> climb nxt (Some i) = None" by (cases "climb nxt (Some i)") auto
qed

text \<open>
  In a file whose parents precede their children the tree's \<open>path_to\<close>, which has no guard
  against cycles, returns, and it returns the very path the conversation is rebuilt from.
\<close>

lemma path_to_is_context_path:
  assumes "parents_precede es" and "ids_by_position es leaf_id = Some leaf"
  shows "path_to es leaf_id = Some (context_path es leaf)"
proof -
  have "leaf < length es" using index_soundD[OF ids_by_position_sound assms(2)] by simp
  then show ?thesis
    using climb_decreasing[of "length es" "parent_index es (ids_by_position es)" "Some leaf"]
      parents_precedeD[OF assms(1)] assms(2)
    by (simp add: path_to_def context_path_def)
qed

text \<open>
  On a corrupt file with a parent cycle \<open>path_to\<close> never returns: from any row all of whose
  ancestors are rows of the file, the walk goes on for ever, where \<open>build_session_context\<close> and
  \<open>active_branch_entries\<close> stop at the first row met twice.
\<close>

lemma path_to_diverges_on_cycle:
  assumes "ids_by_position es leaf_id = Some leaf" and "leaf \<in> cycle"
    and "\<And>i. i \<in> cycle \<Longrightarrow> \<exists>j \<in> cycle. parent_index es (ids_by_position es) i = Some j"
  shows "path_to es leaf_id = None"
  using climb_endless[of cycle "parent_index es (ids_by_position es)" leaf] assms
  by (simp add: path_to_def)

section \<open>The messages of the context\<close>

fun is_compaction :: "file_entry \<Rightarrow> bool" where
  "is_compaction (FeCompaction _ _) = True"
| "is_compaction _ = False"

lemma foldl_append_message:
  "foldl (append_message es keep) t p = t @ concat (map (\<lambda>i. context_message keep (es ! i)) p)"
  by (induction p arbitrary: t) (simp_all add: append_message_def)

definition before_first_kept :: "file_entry list \<Rightarrow> string \<Rightarrow> nat \<Rightarrow> bool" where
  "before_first_kept es first_kept i \<longleftrightarrow>
     (case entry_id (es ! i) of None \<Rightarrow> [] | Some x \<Rightarrow> x) \<noteq> first_kept"

lemma foldl_retained_found:
  "foldl (retained_step es fk keep) (True, t) p = (True, t @ concat (map (\<lambda>i. context_message keep (es ! i)) p))"
  by (induction p arbitrary: t) (simp_all add: retained_step_def append_message_def)

lemma foldl_retained:
  "snd (foldl (retained_step es fk keep) (False, t) p) =
     t @ concat (map (\<lambda>i. context_message keep (es ! i)) (dropWhile (before_first_kept es fk) p))"
proof (induction p arbitrary: t)
  case Nil
  then show ?case by simp
next
  case (Cons i p)
  show ?case
  proof (cases "before_first_kept es fk i")
    case True
    then have "retained_step es fk keep (False, t) i = (False, t)"
      by (simp add: retained_step_def before_first_kept_def Let_def)
    with Cons True show ?thesis by simp
  next
    case False
    then have "retained_step es fk keep (False, t) i = (True, append_message es keep t i)"
      by (simp add: retained_step_def before_first_kept_def Let_def)
    with False show ?thesis by (simp add: foldl_retained_found append_message_def)
  qed
qed

text \<open>The compaction found by the settings loop is the last one of the path.\<close>

lemma settings_step_compaction:
  "snd (snd (snd (settings_step es st i))) =
     (if is_compaction (es ! i) then Some i else snd (snd (snd st)))"
  by (cases st; cases "es ! i")
     (auto simp: settings_step_def split: session_message.splits)

lemma path_settings_compaction:
  "snd (snd (snd (path_settings es path))) = find (\<lambda>i. is_compaction (es ! i)) (rev path)"
  by (induction path rule: rev_induct) (simp_all add: path_settings_def settings_step_compaction)

lemma find_last:
  assumes "P c" and "\<forall>i \<in> set post. \<not> P i"
  shows "find P (rev (pre @ c # post)) = Some c"
proof -
  have "find P (rev post) = None" using assms(2) by (simp add: find_None_iff)
  moreover have "find P (xs @ ys) = (case find P xs of None \<Rightarrow> find P ys | Some x \<Rightarrow> Some x)" for xs ys
    by (induction xs) auto
  ultimately show ?thesis using assms(1) by simp
qed

lemma split_around:
  fixes c :: nat
  assumes "sorted_wrt (<) (pre @ c # post)"
  shows "take (partition_point (\<lambda>i. i < c) (pre @ c # post)) (pre @ c # post) = pre"
    and "drop (partition_point (\<lambda>i. i \<le> c) (pre @ c # post)) (pre @ c # post) = post"
proof -
  have pre: "\<forall>i \<in> set pre. i < c" and post: "\<forall>i \<in> set post. c < i"
    using assms by (auto simp: sorted_wrt_append)
  have "takeWhile (\<lambda>i. i < c) (pre @ c # post) = pre" using pre by (simp add: takeWhile_append2)
  then show "take (partition_point (\<lambda>i. i < c) (pre @ c # post)) (pre @ c # post) = pre"
    by (simp add: partition_point_less[OF assms])
  have "takeWhile (\<lambda>i. i \<le> c) (pre @ c # post) = pre @ [c]"
    using pre post by (cases post) (auto simp: takeWhile_append2 less_imp_le)
  then show "drop (partition_point (\<lambda>i. i \<le> c) (pre @ c # post)) (pre @ c # post) = post"
    by (simp add: partition_point_le[OF assms])
qed

lemma context_messages_compacted:
  assumes "sorted_wrt (<) (pre @ c # post)" and "es ! c = FeCompaction p b"
  shows "context_messages es (pre @ c # post) (Some c) =
     (let keep = keep_digest es (pre @ c # post) (Some c);
          kept = concat (map (\<lambda>i. context_message keep (es ! i))
                   (dropWhile (before_first_kept es (co_first_kept_entry_id p)) pre))
      in SmCompactionSummary (compaction_summary p (es ! c)
             (summary_yields_snapshot es (pre @ c # post) (Some c)) (length kept))
         # kept @ concat (map (\<lambda>i. context_message keep (es ! i)) post))"
  using assms(2)
  by (simp add: context_messages_def Let_def split_around[OF assms(1)] foldl_retained foldl_append_message
      del: take_append drop_append)

text \<open>
  After a compaction the model sees the summary first, then the rows from the first kept one up
  to the compaction, then every row after it, and nothing older: the binary search the code cuts the
  path with finds exactly the place of the compaction, and the summary carries the number of the
  messages retained.
\<close>

lemma compacted_context:
  assumes "parents_precede es" and "context_leaf es leaf_id = Some leaf"
    and "context_path es leaf = pre @ c # post" and "es ! c = FeCompaction p b"
    and "\<forall>i \<in> set post. \<not> is_compaction (es ! i)"
  shows "\<exists>summary kept. sc_messages (build_session_context es leaf_id) =
       SmCompactionSummary summary # kept
         @ concat (map (\<lambda>i. context_message (keep_digest es (context_path es leaf) (Some c)) (es ! i)) post)
     \<and> kept = concat (map (\<lambda>i. context_message (keep_digest es (context_path es leaf) (Some c)) (es ! i))
                (dropWhile (before_first_kept es (co_first_kept_entry_id p)) pre))
     \<and> cs_summary summary = co_summary p
     \<and> cs_tokens_before summary = co_tokens_before p
     \<and> cs_retained_message_count summary = Some (length kept)"
proof -
  have sorted: "sorted_wrt (<) (pre @ c # post)" using context_path_sorted[OF assms(1)] assms(3) by metis
  have "snd (snd (snd (path_settings es (pre @ c # post)))) = Some c"
    using assms(4,5) by (simp only: path_settings_compaction) (rule find_last, simp_all)
  then have "sc_messages (build_session_context es leaf_id) = context_messages es (pre @ c # post) (Some c)"
    using assms(2,3) by (cases "path_settings es (pre @ c # post)") (simp add: build_session_context_def)
  then show ?thesis
    using context_messages_compacted[OF sorted assms(4)] assms(3)
    by (simp add: Let_def compaction_summary_def)
qed

section \<open>At most one harness digest\<close>

fun carries_digest :: "session_message \<Rightarrow> bool" where
  "carries_digest (SmCustom m) = (cu_custom_type m = harness_digest_custom_type)"
| "carries_digest (SmCompactionSummary s) = (cs_harness_digest s \<noteq> None)"
| "carries_digest _ = False"

fun embeds_digest :: "file_entry \<Rightarrow> bool" where
  "embeds_digest (FeMessage m _) = carries_digest m"
| "embeds_digest _ = False"

definition digest_count :: "session_message list \<Rightarrow> nat" where
  "digest_count ms = length (filter carries_digest ms)"

lemma digest_count_simps [simp]:
  "digest_count [] = 0"
  "digest_count (m # ms) = (if carries_digest m then Suc (digest_count ms) else digest_count ms)"
  "digest_count (ms @ ns) = digest_count ms + digest_count ns"
  by (simp_all add: digest_count_def)

definition kept_digest :: "file_entry list \<Rightarrow> string option \<Rightarrow> nat \<Rightarrow> bool" where
  "kept_digest es keep i \<longleftrightarrow> is_digest_entry (es ! i) \<and> entry_id (es ! i) = keep"

lemma digest_count_context_message:
  "\<not> embeds_digest (es ! i) \<Longrightarrow>
   digest_count (context_message keep (es ! i)) = (if kept_digest es keep i then 1 else 0)"
  by (cases "es ! i") (auto simp: context_message_def kept_digest_def create_custom_message_def)

lemma digest_count_rows:
  assumes "\<forall>e \<in> set es. \<not> embeds_digest e" and "\<forall>i \<in> set p. i < length es"
  shows "digest_count (concat (map (\<lambda>i. context_message keep (es ! i)) p)) = length (filter (kept_digest es keep) p)"
  using assms(2)
proof (induction p)
  case Nil
  then show ?case by simp
next
  case (Cons i p)
  then have "\<not> embeds_digest (es ! i)" using assms(1) by simp
  with Cons show ?case by (simp add: digest_count_context_message)
qed

text \<open>All rows with the kept id are one row.\<close>

lemma kept_digest_unique:
  assumes "context_leaf es l = Some leaf"
    and "i \<in> set (context_path es leaf)" and "j \<in> set (context_path es leaf)"
    and "kept_digest es keep i" and "kept_digest es keep j"
  shows "i = j"
  using context_path_ids[OF assms(1,2)] context_path_ids[OF assms(1,3)] assms(4,5)
  by (auto simp: kept_digest_def split: option.splits)

lemma length_filter_unique:
  assumes "distinct xs" and "\<And>i j. i \<in> set xs \<Longrightarrow> j \<in> set xs \<Longrightarrow> P i \<Longrightarrow> P j \<Longrightarrow> i = j"
  shows "length (filter P xs) \<le> 1"
  using assms
proof (induction xs)
  case Nil
  then show ?case by simp
next
  case (Cons x xs)
  show ?case
  proof (cases "P x")
    case True
    have "filter P xs = []"
      using Cons.prems True by (auto simp: filter_empty_conv)
    with True show ?thesis by simp
  next
    case False
    have "length (filter P xs) \<le> 1" using Cons.prems by (intro Cons.IH) auto
    with False show ?thesis by simp
  qed
qed

lemma newest_digest_Some:
  assumes "newest_digest es path = Some d"
  shows "d < length path \<and> is_digest_entry (es ! (path ! d))
     \<and> (\<forall>k < length path. is_digest_entry (es ! (path ! k)) \<longrightarrow> k \<le> d)"
proof -
  have "rev [0..<length path] ! i = length path - Suc i" if "i < length path" for i
    using that by (simp add: rev_nth)
  then obtain i where i: "i < length path" "d = length path - Suc i"
      "is_digest_entry (es ! (path ! d))"
      "\<forall>j < i. \<not> is_digest_entry (es ! (path ! (length path - Suc j)))"
    using assms unfolding newest_digest_def find_Some_iff by fastforce
  have "k \<le> d" if k: "k < length path" "is_digest_entry (es ! (path ! k))" for k
  proof (rule ccontr)
    assume "\<not> k \<le> d"
    then have "length path - Suc k < i" and "length path - Suc (length path - Suc k) = k"
      using i(2) k(1) by linarith+
    with i(4) k(2) show False by fastforce
  qed
  with i show ?thesis by auto
qed

lemma newest_digest_None:
  "newest_digest es path = None \<Longrightarrow> i \<in> set path \<Longrightarrow> \<not> is_digest_entry (es ! i)"
  by (fastforce simp: newest_digest_def find_None_iff in_set_conv_nth)

lemma path_position_split:
  assumes "distinct (pre @ c # post)"
  shows "path_position (pre @ c # post) c = Some (length pre)"
proof -
  have "\<forall>k < length pre. (pre @ c # post) ! k \<noteq> c"
    using assms by (auto simp: nth_append dest: nth_mem)
  then show ?thesis
    unfolding path_position_def find_Some_iff
    by (intro exI[of _ "length pre"]) (auto simp: nth_append)
qed

text \<open>When the summary shows its snapshot, no digest row is kept.\<close>

lemma snapshot_excludes_rows:
  assumes leaf: "context_leaf es l = Some leaf" and path: "context_path es leaf = pre @ c # post"
    and c: "es ! c = FeCompaction p b" "co_harness_digest p \<noteq> None"
    and yields: "\<not> summary_yields_snapshot es (context_path es leaf) (Some c)"
    and i: "i \<in> set (context_path es leaf)"
  shows "\<not> kept_digest es (keep_digest es (context_path es leaf) (Some c)) i"
proof (cases "newest_digest es (context_path es leaf)")
  case None
  with newest_digest_None[OF None i] show ?thesis by (simp add: kept_digest_def)
next
  case (Some d)
  have position: "path_position (context_path es leaf) c = Some (length pre)"
    using context_path_distinct[of es leaf] path by (simp add: path_position_split)
  note nd = newest_digest_Some[OF Some]
  have "d \<noteq> length pre" using nd c(1) path by (auto simp: nth_append)
  then have d: "d < length pre"
    using yields Some position by (simp add: summary_yields_snapshot_def)
  then have "snapshot_outranks_digest es (context_path es leaf) (Some c)"
    using Some position c by (simp add: snapshot_outranks_digest_def has_snapshot_def)
  then have keep: "keep_digest es (context_path es leaf) (Some c) = None"
    by (simp add: keep_digest_def)
  show ?thesis
  proof
    assume kept: "kept_digest es (keep_digest es (context_path es leaf) (Some c)) i"
    with context_path_ids[OF leaf i] keep have "i = leaf" by (simp add: kept_digest_def)
    then have "i = last (context_path es leaf)"
      using context_path_last[OF context_leaf_bound[OF leaf]] by simp
    then have "is_digest_entry (es ! (context_path es leaf ! (length (context_path es leaf) - 1)))"
      using kept path by (simp add: kept_digest_def last_conv_nth)
    with nd path have "length (context_path es leaf) - 1 \<le> d" by simp
    with d path show False by simp
  qed
qed

lemma find_rev_split:
  assumes "find P (rev xs) = Some c"
  shows "\<exists>pre post. xs = pre @ c # post \<and> P c \<and> (\<forall>i \<in> set post. \<not> P i)"
  using assms
proof (induction xs rule: rev_induct)
  case Nil
  then show ?case by simp
next
  case (snoc x xs)
  show ?case
  proof (cases "P x")
    case True
    with snoc.prems show ?thesis by (intro exI[of _ xs] exI[of _ "[]"]) simp
  next
    case False
    with snoc obtain pre post where "xs = pre @ c # post" "P c" "\<forall>i \<in> set post. \<not> P i" by auto
    with False show ?thesis by (intro exI[of _ pre] exI[of _ "post @ [x]"]) auto
  qed
qed

lemma is_compactionE: "is_compaction e \<Longrightarrow> (\<And>p b. e = FeCompaction p b \<Longrightarrow> thesis) \<Longrightarrow> thesis"
  by (cases e) auto

lemma rows_of_path_le_1:
  assumes "context_leaf es l = Some leaf"
  shows "length (filter (kept_digest es keep) (context_path es leaf)) \<le> 1"
  using assms by (intro length_filter_unique context_path_distinct) (rule kept_digest_unique)

lemma length_filter_dropWhile: "length (filter P (dropWhile Q xs)) \<le> length (filter P xs)"
  by (induction xs) auto

text \<open>
  The conversation holds at most one harness digest, whatever digest rows and compaction
  snapshots the session has accumulated: the newest row and the snapshot of the newest compaction
  are never both delivered, and no older one survives. The rows whose message is itself a digest
  (the code copies messages unread) are the only ones excluded, and the ids of the file need not be
  distinct.
\<close>

lemma at_most_one_digest:
  assumes "parents_precede es" and "\<forall>e \<in> set es. \<not> embeds_digest e"
  shows "digest_count (sc_messages (build_session_context es leaf_id)) \<le> 1"
proof (cases "context_leaf es leaf_id")
  case None
  then show ?thesis by (simp add: build_session_context_def empty_context_def)
next
  case (Some leaf)
  define path where "path = context_path es leaf"
  define compaction where "compaction = snd (snd (snd (path_settings es path)))"
  define keep where "keep = keep_digest es path compaction"
  have messages: "sc_messages (build_session_context es leaf_id) = context_messages es path compaction"
    using Some by (cases "path_settings es path")
      (simp add: build_session_context_def path_def[symmetric] compaction_def)
  have bound: "\<forall>i \<in> set path. i < length es" using context_path_bound by (simp add: path_def)
  have one: "length (filter (kept_digest es keep) path) \<le> 1"
    using rows_of_path_le_1[OF Some] by (simp add: path_def)
  show ?thesis
  proof (cases compaction)
    case None
    then have "context_messages es path compaction = concat (map (\<lambda>i. context_message keep (es ! i)) path)"
      by (simp add: context_messages_def foldl_append_message keep_def)
    with messages one digest_count_rows[OF assms(2) bound] show ?thesis by simp
  next
    case c: (Some c)
    then obtain pre post where split: "path = pre @ c # post" and "is_compaction (es ! c)"
      using find_rev_split[of "\<lambda>i. is_compaction (es ! i)" path c]
      by (auto simp: compaction_def path_settings_compaction)
    then obtain p b where p: "es ! c = FeCompaction p b" by (rule_tac is_compactionE)
    have sorted: "sorted_wrt (<) (pre @ c # post)"
      using context_path_sorted[OF assms(1), of leaf] split by (simp add: path_def)
    define kept where "kept = dropWhile (before_first_kept es (co_first_kept_entry_id p)) pre"
    have sub: "\<forall>i \<in> set kept. i < length es" "\<forall>i \<in> set post. i < length es"
      using bound split set_dropWhileD unfolding kept_def by fastforce+
    have rows: "length (filter (kept_digest es keep) kept) + length (filter (kept_digest es keep) post)
        \<le> length (filter (kept_digest es keep) path)"
      using length_filter_dropWhile[of "kept_digest es keep" "before_first_kept es (co_first_kept_entry_id p)" pre] split
      by (simp add: kept_def le_SucI)
    define yields where "yields = summary_yields_snapshot es path (Some c)"
    have count: "digest_count (context_messages es path compaction) =
        (if yields \<or> co_harness_digest p = None then 0 else 1)
        + length (filter (kept_digest es keep) kept) + length (filter (kept_digest es keep) post)"
      using context_messages_compacted[OF sorted p] digest_count_rows[OF assms(2) sub(1), of keep]
        digest_count_rows[OF assms(2) sub(2), of keep] split c
      by (simp add: Let_def keep_def kept_def yields_def compaction_summary_def)
    show ?thesis
    proof (cases "yields \<or> co_harness_digest p = None")
      case True
      with count rows one messages show ?thesis by simp
    next
      case False
      then have "\<forall>i \<in> set path. \<not> kept_digest es keep i"
        using snapshot_excludes_rows[OF Some split[unfolded path_def] p] c
        by (simp add: yields_def keep_def path_def)
      then have "filter (kept_digest es keep) path = []" by (simp add: filter_empty_conv)
      with rows count messages False show ?thesis by simp
    qed
  qed
qed

section \<open>The settings of the context\<close>

fun entry_model :: "file_entry \<Rightarrow> (string \<times> string) option" where
  "entry_model (FeModelChange p _) = Some (mc_provider p, mc_model_id p)"
| "entry_model (FeMessage (SmAssistant a) _) = Some (aia_provider a, aia_model a)"
| "entry_model _ = None"

fun entry_thinking :: "file_entry \<Rightarrow> string option" where
  "entry_thinking (FeThinkingLevelChange l _) = Some l"
| "entry_thinking _ = None"

fun entry_tier :: "file_entry \<Rightarrow> service_tier option option" where
  "entry_tier (FeServiceTierChange t _) = Some t"
| "entry_tier _ = None"

text \<open>The last value a list of rows sets, or the default.\<close>

definition last_set :: "('a \<Rightarrow> 'b option) \<Rightarrow> 'b \<Rightarrow> 'a list \<Rightarrow> 'b" where
  "last_set f d xs = (if List.map_filter f xs = [] then d else last (List.map_filter f xs))"

lemma last_set_snoc: "last_set f d (xs @ [x]) = (case f x of None \<Rightarrow> last_set f d xs | Some y \<Rightarrow> y)"
  by (auto simp: last_set_def map_filter_def split: option.splits)

lemma last_set_Nil [simp]: "last_set f d [] = d"
  by (simp add: last_set_def map_filter_def)

lemma settings_step_eq:
  "settings_step es (thinking, tier, md, c) i =
     (case entry_thinking (es ! i) of None \<Rightarrow> thinking | Some l \<Rightarrow> l,
      case entry_tier (es ! i) of None \<Rightarrow> tier | Some t \<Rightarrow> t,
      case entry_model (es ! i) of None \<Rightarrow> md | Some m \<Rightarrow> Some m,
      if is_compaction (es ! i) then Some i else c)"
  by (cases "es ! i") (auto simp: settings_step_def split: session_message.splits)

text \<open>
  The thinking level, the service tier and the model of the rebuilt context are the ones last
  set on the path to the leaf, a message of the assistant counting as a choice of its model; a row
  of another branch has no effect.
\<close>

lemma context_settings_are_newest:
  assumes "context_leaf es leaf_id = Some leaf"
  defines "rows \<equiv> map (\<lambda>i. es ! i) (context_path es leaf)"
  shows "sc_thinking_level (build_session_context es leaf_id) = last_set entry_thinking ''off'' rows
     \<and> sc_service_tier (build_session_context es leaf_id) = last_set entry_tier None rows
     \<and> sc_model (build_session_context es leaf_id) = last_set (\<lambda>e. map_option Some (entry_model e)) None rows"
proof -
  have "\<exists>c. path_settings es path = (last_set entry_thinking ''off'' (map (\<lambda>i. es ! i) path),
      last_set entry_tier None (map (\<lambda>i. es ! i) path),
      last_set (\<lambda>e. map_option Some (entry_model e)) None (map (\<lambda>i. es ! i) path), c)" for path
    by (induction path rule: rev_induct)
       (auto simp: path_settings_def settings_step_eq last_set_snoc split: option.splits)
  from this[of "context_path es leaf"] obtain c where
    "path_settings es (context_path es leaf) = (last_set entry_thinking ''off'' rows,
      last_set entry_tier None rows, last_set (\<lambda>e. map_option Some (entry_model e)) None rows, c)"
    unfolding rows_def by blast
  then show ?thesis using assms(1) by (simp add: build_session_context_def)
qed

section \<open>The tree\<close>

fun label_for :: "string \<Rightarrow> file_entry \<Rightarrow> string option option option" where
  "label_for t (FeLabel p b) =
     (if entry_id (FeLabel p b) \<noteq> None \<and> le_target_id p = t then Some (Some (le_label p)) else None)"
| "label_for t _ = None"

fun is_label :: "file_entry \<Rightarrow> bool" where
  "is_label (FeLabel _ _) = True"
| "is_label _ = False"

definition is_child_of :: "string option \<Rightarrow> file_entry \<Rightarrow> bool" where
  "is_child_of p e \<longleftrightarrow> \<not> is_header e \<and> \<not> is_label e \<and> entry_id e \<noteq> None \<and> entry_parent_id e = p"

lemma build_tree_snoc: "build_tree (es @ [e]) = tree_step (build_tree es) (length es, e)"
  by (simp add: build_tree_def enumerate_append_eq)

lemma tree_step_children:
  "st_children (tree_step t (i, e)) p = st_children t p @ (if is_child_of p e then [i] else [])"
  by (cases e) (auto simp: tree_step_def is_child_of_def Let_def entry_id_def)

lemma tree_step_labels:
  "st_labels (tree_step t (i, e)) x = (case label_for x e of None \<Rightarrow> st_labels t x | Some l \<Rightarrow> l)"
  by (cases e) (auto simp: tree_step_def Let_def)

text \<open>
  The tree view is faithful to the file: the children of an id are exactly the rows that name it
  as their parent, in file order, headers, labels and rows without an id left out; and the label of
  an entry is the one of the last label row that names it, whether that row sets or clears it.
\<close>

lemma tree_reflects_file:
  "st_children (build_tree es) p = filter (\<lambda>i. is_child_of p (es ! i)) [0..<length es]
   \<and> tree_label (build_tree es) target = last_set (label_for target) None es"
proof (induction es rule: rev_induct)
  case Nil
  then show ?case by (simp add: build_tree_def empty_tree_def tree_label_def)
next
  case (snoc e es)
  have "filter (\<lambda>i. is_child_of p ((es @ [e]) ! i)) [0..<length es]
      = filter (\<lambda>i. is_child_of p (es ! i)) [0..<length es]"
    by (intro filter_cong) (simp_all add: nth_append)
  with snoc show ?case
    by (cases "label_for target e") (simp_all add: build_tree_snoc tree_step_children tree_step_labels tree_label_def last_set_snoc)
qed

section \<open>A session\<close>

text \<open>Rows for the concrete instances: a base and a few kinds of row.\<close>

definition demo_base :: "string \<Rightarrow> string option \<Rightarrow> entry_base" where
  "demo_base i p = \<lparr>eb_id = Some i, eb_parent_id = p, eb_timestamp = Some ''2024-02-29T10:00:00.000Z'', eb_rest = []\<rparr>"

definition demo_user :: "string \<Rightarrow> string option \<Rightarrow> string \<Rightarrow> file_entry" where
  "demo_user i p t =
     FeMessage (SmUser \<lparr>aiu_content = UcText t, aiu_timestamp = 0, aiu_rest = []\<rparr>) (demo_base i p)"

definition demo_assistant_message :: ai_assistant_message where
  "demo_assistant_message =
     \<lparr>aia_content = [], aia_api = ''openai-completions'', aia_provider = ''openai'', aia_model = ''m'',
      aia_response_model = None, aia_response_id = None, aia_diagnostics = None, aia_usage = usage_zero,
      aia_stop_reason = StopStop, aia_stop_reason_raw = None, aia_error_message = None,
      aia_timestamp = 0, aia_rest = []\<rparr>"

definition demo_assistant :: "string \<Rightarrow> string option \<Rightarrow> file_entry" where
  "demo_assistant i p = FeMessage (SmAssistant demo_assistant_message) (demo_base i p)"

definition demo_digest :: "string \<Rightarrow> string option \<Rightarrow> file_entry" where
  "demo_digest i p =
     FeCustomMessage \<lparr>cme_custom_type = harness_digest_custom_type, cme_content = UcText ''d'',
                      cme_details = None, cme_display = False, cme_rest = []\<rparr> (demo_base i p)"

definition demo_compaction :: "string \<Rightarrow> string option \<Rightarrow> string \<Rightarrow> string option \<Rightarrow> file_entry" where
  "demo_compaction i p first digest =
     FeCompaction \<lparr>co_summary = ''sum'', co_first_kept_entry_id = first, co_tokens_before = 9,
                   co_details = None, co_from_hook = None, co_custom_instructions = None, co_usage = None,
                   co_harness_digest = digest, co_harness_state_fingerprint = None\<rparr> (demo_base i p)"

definition demo_header :: file_entry where
  "demo_header =
     FeHeader \<lparr>hd_version = Some 3, hd_id = ''s1'', hd_timestamp = ''2024-02-29T10:00:00.000Z'', hd_cwd = ''/w'',
               hd_parent_session = None, hd_rlm_depth = Some 0, hd_git = None, hd_rest = []\<rparr>"

text \<open>A session with two digests, a compaction that keeps the row \<open>b\<close>, and a row after it.\<close>

definition demo_entries :: "file_entry list" where
  "demo_entries =
     [demo_header, demo_user ''a'' None ''x'', demo_digest ''b'' (Some ''a''),
      demo_digest ''c'' (Some ''b''), demo_compaction ''d'' (Some ''c'') ''b'' (Some ''snap''),
      demo_assistant ''e'' (Some ''d'')]"

lemmas demo_entry_defs = demo_entries_def demo_header_def demo_user_def demo_digest_def demo_compaction_def
  demo_assistant_def demo_base_def

lemma demo_ids: "map entry_id demo_entries = [Some ''s1'', Some ''a'', Some ''b'', Some ''c'', Some ''d'', Some ''e'']"
  by code_simp

lemma demo_parents_precede: "parents_precede demo_entries"
  unfolding parents_precede_def by code_simp

lemma demo_path: "context_leaf demo_entries None = Some 5" "context_path demo_entries 5 = [1, 2, 3] @ 4 # [5]"
  by code_simp+

lemma path_to_is_context_path_witness:
  "path_to demo_entries ''e'' = Some [1, 2, 3, 4, 5]"
  using path_to_is_context_path[OF demo_parents_precede, of "''e''" 5] demo_path(2)
  by (simp add: ids_by_position_def demo_entry_defs entry_id_def)

lemma context_path_is_parent_chain_witness: "distinct (context_path demo_entries 5)"
  using context_path_is_parent_chain[OF demo_path(1)] by simp

lemma context_settings_are_newest_witness:
  "sc_model (build_session_context demo_entries None) = Some (''openai'', ''m'')"
  using context_settings_are_newest[OF demo_path(1)] unfolding demo_path(2) 
  by (simp add: last_set_def map_filter_def demo_entry_defs demo_assistant_message_def)

lemma at_most_one_digest_witness: "digest_count (sc_messages (build_session_context demo_entries None)) \<le> 1"
  by (rule at_most_one_digest[OF demo_parents_precede]) (simp add: demo_entry_defs harness_digest_custom_type_def)

lemma compacted_context_witness:
  "\<exists>summary kept. sc_messages (build_session_context demo_entries None) = SmCompactionSummary summary # kept
     \<and> cs_summary summary = ''sum''"
  using compacted_context[OF demo_parents_precede demo_path, of _ "demo_base ''d'' (Some ''c'')", OF _]
  by (simp add: demo_entry_defs) blast

text \<open>Two rows that are each other's parent.\<close>

definition demo_cycle :: "file_entry list" where
  "demo_cycle = [demo_user ''a'' (Some ''b'') ''x'', demo_user ''b'' (Some ''a'') ''y'']"

lemma path_to_diverges_on_cycle_witness: "path_to demo_cycle ''b'' = None"
proof (rule path_to_diverges_on_cycle[of _ _ 1 "{0, 1}"])
  show "ids_by_position demo_cycle ''b'' = Some 1" by code_simp
  have "parent_index demo_cycle (ids_by_position demo_cycle) 0 = Some 1"
    "parent_index demo_cycle (ids_by_position demo_cycle) 1 = Some 0" by code_simp+
  then show "\<exists>j \<in> {0, 1}. parent_index demo_cycle (ids_by_position demo_cycle) i = Some j"
    if "i \<in> {0, 1}" for i using that by auto
qed simp

end
