(* ===== verification/SessionMigrate.thy ===== *)
theory SessionMigrate
  imports SessionBuild
begin

text \<open>
  What the readers of \<open>session/mod.rs\<close> do to the entries of a file before the tree is used: the
  attribution of child usage to assistant rows, and the migration of version 1 files, which gives
  ids and parents to rows that had none.
\<close>

section \<open>Child usage\<close>

lemma set_usage_id [simp]: "entry_id (set_usage u e) = entry_id e"
  by (cases e) (auto simp: set_usage_def entry_id_def split: session_message.splits)

lemma set_usage_assistant [simp]: "is_assistant_entry (set_usage u e) = is_assistant_entry e"
  by (cases e rule: is_assistant_entry.cases) (auto simp: set_usage_def)

lemma set_usage_twice [simp]: "set_usage u (set_usage v e) = set_usage u e"
  by (cases e rule: is_assistant_entry.cases) (auto simp: set_usage_def)

lemma set_usage_keeps_attributions [simp]:
  "(set_usage u e = FeChildUsageAttributed p b) = (e = FeChildUsageAttributed p b)"
  by (cases e rule: is_assistant_entry.cases) (auto simp: set_usage_def)

text \<open>The update a row contributes for the position \<open>i\<close>.\<close>

fun attributed_to :: "(string \<rightharpoonup> nat) \<Rightarrow> nat \<Rightarrow> file_entry \<Rightarrow> usage option" where
  "attributed_to m i (FeChildUsageAttributed p b) =
     (if m (cua_target_id p) = Some i then Some (cua_aggregate_usage p) else None)"
| "attributed_to m i _ = None"

lemma apply_updates_length [simp]: "length (apply_updates us es) = length es"
proof -
  have "length (foldl (\<lambda>es (i, u). es[i := set_usage u (es ! i)]) es us) = length es"
    by (induction us arbitrary: es) (simp_all split: prod.splits)
  then show ?thesis by (simp add: apply_updates_def)
qed

lemma apply_updates_simps [simp]:
  "apply_updates [] es = es"
  "apply_updates ((i, u) # us) es = apply_updates us (es[i := set_usage u (es ! i)])"
  by (simp_all add: apply_updates_def)

fun last_update :: "nat \<Rightarrow> (nat \<times> usage) list \<Rightarrow> usage option" where
  "last_update i [] = None"
| "last_update i ((j, u) # us) =
     (case last_update i us of Some v \<Rightarrow> Some v | None \<Rightarrow> if j = i then Some u else None)"

text \<open>The newest usage attributed to the position \<open>i\<close>.\<close>

fun last_attribution :: "(string \<rightharpoonup> nat) \<Rightarrow> nat \<Rightarrow> file_entry list \<Rightarrow> usage option" where
  "last_attribution m i [] = None"
| "last_attribution m i (e # es) =
     (case last_attribution m i es of Some v \<Rightarrow> Some v | None \<Rightarrow> attributed_to m i e)"

lemma last_update_usage_updates: "last_update i (usage_updates m es) = last_attribution m i es"
  by (induction m es rule: usage_updates.induct) (auto split: option.splits)

lemma apply_updates_nth:
  assumes "i < length es"
  shows "apply_updates us es ! i =
    (case last_update i us of None \<Rightarrow> es ! i | Some u \<Rightarrow> set_usage u (es ! i))"
  using assms
proof (induction us arbitrary: es)
  case Nil
  then show ?case by simp
next
  case (Cons ju us)
  obtain j u where ju: "ju = (j, u)" by (cases ju)
  have "apply_updates us (es[j := set_usage u (es ! j)]) ! i =
      (case last_update i us of None \<Rightarrow> es[j := set_usage u (es ! j)] ! i
       | Some v \<Rightarrow> set_usage v (es[j := set_usage u (es ! j)] ! i))"
    using Cons.prems by (intro Cons.IH) simp
  then show ?case using Cons.prems ju
    by (cases "last_update i us"; cases "j = i") (simp_all add: nth_list_update)
qed

lemma assistant_index_cong:
  assumes "length es = length es'"
    and "\<And>i. i < length es \<Longrightarrow> is_assistant_entry (es ! i) = is_assistant_entry (es' ! i)"
    and "\<And>i. i < length es \<Longrightarrow> entry_id (es ! i) = entry_id (es' ! i)"
  shows "assistant_index n es m = assistant_index n es' m"
proof -
  have "list_all2 (\<lambda>e e'. is_assistant_entry e = is_assistant_entry e' \<and> entry_id e = entry_id e') es es'"
    using assms by (simp add: list_all2_conv_all_nth)
  then show ?thesis
    by (induction arbitrary: n m rule: list_all2_induct) (auto split: option.splits)
qed

lemma last_attribution_cong:
  assumes "length es = length es'" and "\<And>i. i < length es \<Longrightarrow> attributed_to m k (es ! i) = attributed_to m k (es' ! i)"
  shows "last_attribution m k es = last_attribution m k es'"
proof -
  have "list_all2 (\<lambda>e e'. attributed_to m k e = attributed_to m k e') es es'"
    using assms by (simp add: list_all2_conv_all_nth)
  then show ?thesis by (induction rule: list_all2_induct) (auto split: option.splits)
qed

lemma attributed_to_set_usage [simp]: "attributed_to m i (set_usage u e) = attributed_to m i e"
  by (cases e rule: is_assistant_entry.cases) (auto simp: set_usage_def)

text \<open>The position a row's usage is attributed to.\<close>

definition attribution :: "file_entry list \<Rightarrow> nat \<Rightarrow> usage option" where
  "attribution es i = last_attribution (assistant_index 0 es Map.empty) i es"

lemma attributions_length: "length (apply_child_usage_attributions es) = length es"
  by (simp add: apply_child_usage_attributions_def)

lemma attributions_nth:
  "i < length es \<Longrightarrow> apply_child_usage_attributions es ! i =
     (case attribution es i of None \<Rightarrow> es ! i | Some u \<Rightarrow> set_usage u (es ! i))"
  by (simp add: apply_child_usage_attributions_def apply_updates_nth last_update_usage_updates attribution_def)

lemma attributed_row:
  assumes "k < length es"
  shows "\<exists>u. apply_child_usage_attributions es ! k = es ! k \<or> apply_child_usage_attributions es ! k = set_usage u (es ! k)"
  using assms by (auto simp: attributions_nth split: option.splits)

lemma assistant_index_attributed:
  "assistant_index 0 (apply_child_usage_attributions es) Map.empty = assistant_index 0 es Map.empty"
proof (rule assistant_index_cong)
  fix k assume "k < length (apply_child_usage_attributions es)"
  then obtain u where "apply_child_usage_attributions es ! k = es ! k
      \<or> apply_child_usage_attributions es ! k = set_usage u (es ! k)"
    using attributed_row[of k] by (auto simp: attributions_length)
  then show "is_assistant_entry (apply_child_usage_attributions es ! k) = is_assistant_entry (es ! k)"
    "entry_id (apply_child_usage_attributions es ! k) = entry_id (es ! k)" by auto
qed (simp add: attributions_length)

lemma attributions_keep_attribution:
  "attribution (apply_child_usage_attributions es) i = attribution es i"
proof -
  have "last_attribution m i (apply_child_usage_attributions es) = last_attribution m i es" for m
  proof (rule last_attribution_cong)
    fix k assume "k < length (apply_child_usage_attributions es)"
    then show "attributed_to m i (apply_child_usage_attributions es ! k) = attributed_to m i (es ! k)"
      using attributed_row[of k es] by (auto simp: attributions_length)
  qed (simp add: attributions_length)
  then show ?thesis by (simp add: attribution_def assistant_index_attributed)
qed

lemma attributions_twice:
  "apply_child_usage_attributions (apply_child_usage_attributions es) = apply_child_usage_attributions es"
proof (rule nth_equalityI)
  fix i assume "i < length (apply_child_usage_attributions (apply_child_usage_attributions es))"
  then have "i < length es" by (simp add: attributions_length)
  then show "apply_child_usage_attributions (apply_child_usage_attributions es) ! i
      = apply_child_usage_attributions es ! i"
    by (cases "attribution es i") (simp_all add: attributions_nth attributions_length attributions_keep_attribution)
qed (simp add: attributions_length)

text \<open>
  Child usage is attributed row by row: an assistant row ends with the aggregate of the last
  attribution that names it, every other row and every other field stays as it was read; doing it
  again changes nothing, so a file whose rows were rewritten after the attribution reads the same.
\<close>

lemma attributions_fold_once:
  "length (apply_child_usage_attributions es) = length es
   \<and> (\<forall>i < length es. apply_child_usage_attributions es ! i =
        (case attribution es i of None \<Rightarrow> es ! i | Some u \<Rightarrow> set_usage u (es ! i)))
   \<and> apply_child_usage_attributions (apply_child_usage_attributions es) = apply_child_usage_attributions es"
  by (simp add: attributions_length attributions_nth attributions_twice)

section \<open>Version 1 files\<close>

text \<open>
  What the \<open>uuid\<close> crate promises of its version 4 ids: no two draws are equal, and a whole id is
  longer than the eight digits the code shortens it to.
\<close>

definition uuid_ok :: "(nat \<Rightarrow> string) \<Rightarrow> bool" where
  "uuid_ok uuid \<longleftrightarrow> inj uuid \<and> (\<forall>n. 8 < length (uuid n))"

text \<open>The ids drawn so far are short ones or whole draws of the past.\<close>

definition drawn :: "(nat \<Rightarrow> string) \<Rightarrow> nat \<Rightarrow> string \<Rightarrow> bool" where
  "drawn uuid n x \<longleftrightarrow> length x \<le> 8 \<or> (\<exists>m < n. x = uuid m)"

lemma drawn_mono:
  assumes "drawn uuid n x" and "n \<le> m"
  shows "drawn uuid m x"
proof (cases "length x \<le> 8")
  case False
  with assms(1) obtain k where "k < n" "x = uuid k" by (auto simp: drawn_def)
  with assms(2) have "k < m" "x = uuid k" by simp_all
  then show ?thesis unfolding drawn_def by blast
qed (simp add: drawn_def)

lemma generate_id_loop_drawn:
  assumes "uuid_ok uuid" and "\<And>x. taken x \<Longrightarrow> drawn uuid n x"
    and "generate_id_loop uuid taken n k = (i, n')"
  shows "\<not> taken i \<and> drawn uuid n' i \<and> n < n'"
  using assms(2,3)
proof (induction k arbitrary: n)
  case 0
  then have "i = uuid n" "n' = Suc n" by auto
  moreover have "\<not> drawn uuid n (uuid n)"
    using assms(1) by (auto simp: drawn_def uuid_ok_def inj_eq not_le)
  ultimately show ?case using 0 by (auto simp: drawn_def)
next
  case (Suc k)
  define short where "short = take 8 (filter (\<lambda>c. c \<noteq> CHR ''-'') (uuid n))"
  show ?case
  proof (cases "taken short")
    case True
    have "drawn uuid (Suc n) x" if "taken x" for x
      using Suc.prems(1)[OF that] drawn_mono by (metis le_SucI order_refl)
    with Suc.IH[of "Suc n"] Suc.prems(2) True show ?thesis by (simp add: Let_def short_def)
  next
    case False
    with Suc.prems(2) have "i = short" "n' = Suc n" by (auto simp: Let_def short_def)
    with False show ?thesis by (simp add: drawn_def short_def)
  qed
qed

lemma generate_id_drawn:
  "uuid_ok uuid \<Longrightarrow> (\<And>x. taken x \<Longrightarrow> drawn uuid n x) \<Longrightarrow> generate_id uuid taken n = (i, n')
   \<Longrightarrow> \<not> taken i \<and> drawn uuid n' i \<and> n < n'"
  unfolding generate_id_def by (rule generate_id_loop_drawn)

lemma map_entry_base_of: "entry_base_of (map_entry_base f e) = map_option f (entry_base_of e)"
  by (cases e) auto

lemma map_entry_base_id:
  assumes "entry_base_of e \<noteq> None"
  shows "entry_id (map_entry_base (\<lambda>b. b\<lparr>eb_id := x, eb_parent_id := p\<rparr>) e) = x"
    and "entry_parent_id (map_entry_base (\<lambda>b. b\<lparr>eb_id := x, eb_parent_id := p\<rparr>) e) = p"
  using assms by (cases e; simp add: entry_id_def entry_parent_id_def)+

text \<open>A thread: each row is the child of the one before, the first one a child of \<open>prev\<close>.\<close>

fun thread :: "string option \<Rightarrow> string list \<Rightarrow> file_entry list \<Rightarrow> bool" where
  "thread prev [] [] = True"
| "thread prev (x # xs) (e # es) =
     (entry_id e = Some x \<and> entry_parent_id e = prev \<and> \<not> is_header e \<and> thread (Some x) xs es)"
| "thread prev _ _ = False"

lemma thread_length: "thread prev xs es \<Longrightarrow> length xs = length es"
  by (induction prev xs es rule: thread.induct) auto

lemma assign_ids_thread:
  assumes "uuid_ok uuid" and "\<forall>e \<in> set es. entry_base_of e \<noteq> None" and "\<forall>x \<in> set ids. drawn uuid n x"
    and "assign_ids uuid n ids prev position es = (es', fxs)"
  shows "\<exists>xs. thread prev xs es' \<and> distinct xs \<and> set xs \<inter> set ids = {}"
  using assms(2-)
proof (induction es arbitrary: n ids prev position es' fxs)
  case Nil
  then show ?case by (auto intro: exI[of _ "[]"])
next
  case (Cons e es)
  obtain i n' where g: "generate_id uuid (\<lambda>x. x \<in> set ids) n = (i, n')" by fastforce
  obtain es2 fxs2 where r: "assign_ids uuid n' (i # ids) (Some i) (Suc position) es = (es2, fxs2)"
    by fastforce
  have base: "entry_base_of e \<noteq> None" using Cons.prems(1) by simp
  then have nh: "\<not> is_header e" by (cases e) auto
  define e' where "e' = map_entry_base (\<lambda>b. b\<lparr>eb_id := Some i, eb_parent_id := prev\<rparr>) e"
  have es': "es' = e' # es2" using Cons.prems(3) nh g r by (simp add: Let_def e'_def)
  have new: "i \<notin> set ids \<and> drawn uuid n' i \<and> n < n'"
    using Cons.prems(2) by (intro generate_id_drawn[OF assms(1) _ g]) blast
  have "\<forall>x \<in> set (i # ids). drawn uuid n' x"
    using new Cons.prems(2) drawn_mono[of uuid n _ n'] by auto
  from Cons.IH[OF _ this r] Cons.prems(1) obtain xs where
    xs: "thread (Some i) xs es2" "distinct xs" "set xs \<inter> set (i # ids) = {}" by auto
  have "\<not> is_header e'" using nh by (cases e) (auto simp: e'_def)
  then have "thread prev (i # xs) es'"
    using xs(1) map_entry_base_id[OF base, where x = "Some i" and p = prev] by (simp add: es' e'_def)
  with xs new show ?case by (intro exI[of _ "i # xs"]) auto
qed

text \<open>The later passes of the migration keep ids, parents and the kind of a row.\<close>

lemma set_first_kept_simps [simp]:
  "entry_id (set_first_kept x e) = entry_id e" "entry_parent_id (set_first_kept x e) = entry_parent_id e"
  "is_header (set_first_kept x e) = is_header e"
  by (cases e; simp add: set_first_kept_def entry_id_def entry_parent_id_def)+

lemma set_version_simps [simp]:
  "entry_id (set_version v e) = entry_id e" "entry_parent_id (set_version v e) = entry_parent_id e"
  "is_header (set_version v e) = is_header e"
  by (cases e; simp add: entry_id_def entry_parent_id_def)+

definition same_links :: "file_entry list \<Rightarrow> file_entry list \<Rightarrow> bool" where
  "same_links es es' \<longleftrightarrow> map entry_id es = map entry_id es' \<and> map entry_parent_id es = map entry_parent_id es'
     \<and> map is_header es = map is_header es'"

lemma fix_compaction_links: "same_links (fix_compaction es f) es"
proof (cases f)
  case (Pair position target)
  show ?thesis
  proof (cases "position < length es")
    case True
    then show ?thesis
      by (auto simp: Pair same_links_def fix_compaction_def map_update split: option.splits
          intro!: list_update_same_conv[THEN iffD2])
  next
    case False
    then show ?thesis
      by (auto simp: Pair same_links_def fix_compaction_def list_update_beyond split: option.splits)
  qed
qed

lemma same_links_trans: "same_links a b \<Longrightarrow> same_links b c \<Longrightarrow> same_links a c"
  by (simp add: same_links_def)

lemma foldl_fix_compaction_links: "same_links (foldl fix_compaction es fxs) es"
  by (induction fxs arbitrary: es)
     (simp add: same_links_def, metis foldl.simps(2) same_links_trans fix_compaction_links)

lemma map_set_version_links: "same_links (map (set_version v) es) es"
  by (simp add: same_links_def comp_def)

lemma same_links_Cons:
  "same_links (e # es) es' \<longleftrightarrow>
     (\<exists>e2 es2. es' = e2 # es2 \<and> entry_id e = entry_id e2 \<and> entry_parent_id e = entry_parent_id e2
        \<and> is_header e = is_header e2 \<and> same_links es es2)"
  by (cases es') (auto simp: same_links_def)

lemma same_links_Nil: "same_links [] es' \<longleftrightarrow> es' = []"
  by (auto simp: same_links_def)

lemma thread_same_links: "thread prev xs es \<Longrightarrow> same_links es es' \<Longrightarrow> thread prev xs es'"
  by (induction prev xs es arbitrary: es' rule: thread.induct) (auto simp: same_links_Cons same_links_Nil)

lemma thread_nth:
  "thread prev xs es \<Longrightarrow> k < length es \<Longrightarrow>
   entry_id (es ! k) = Some (xs ! k)
   \<and> entry_parent_id (es ! k) = (if k = 0 then prev else Some (xs ! (k - 1)))"
proof (induction prev xs es arbitrary: k rule: thread.induct)
  case (2 prev x xs e es)
  show ?case
  proof (cases k)
    case 0
    with 2 show ?thesis by simp
  next
    case (Suc k')
    with "2.IH"[of k'] "2.prems" show ?thesis by (cases k') simp_all
  qed
qed simp_all

lemma thread_index_other:
  "thread prev xs es \<Longrightarrow> x \<notin> set xs \<Longrightarrow> index_entries i es m x = m x"
  by (induction prev xs es arbitrary: i m rule: thread.induct) auto

lemma thread_index_nth:
  "thread prev xs es \<Longrightarrow> distinct xs \<Longrightarrow> k < length xs \<Longrightarrow> index_entries i es m (xs ! k) = Some (i + k)"
proof (induction prev xs es arbitrary: i m k rule: thread.induct)
  case (2 prev x xs e es)
  show ?case
  proof (cases k)
    case 0
    with 2 show ?thesis using thread_index_other[of "Some x" xs es x] by simp
  next
    case (Suc k')
    with 2 show ?thesis by simp
  qed
qed auto

text \<open>The path through a thread at the end of a file, whose first parent is not in the file.\<close>

lemma thread_path:
  assumes thread: "thread prev xs post" and "distinct xs" and "post \<noteq> []"
    and root: "case prev of None \<Rightarrow> True | Some p \<Rightarrow> ids_by_position (pre @ post) p = None"
  shows "context_path (pre @ post) (length pre + length post - 1) = [length pre..<length pre + length post]"
proof -
  define nxt where "nxt = parent_index (pre @ post) (ids_by_position (pre @ post))"
  have index: "ids_by_position (pre @ post) = index_entries (length pre) post (ids_by_position pre)"
    by (simp add: ids_by_position_def index_entries_append)
  have zero: "nxt (length pre) = None"
    using thread_nth[OF thread, of 0] \<open>post \<noteq> []\<close> root
    by (auto simp: nxt_def parent_index_def nth_append split: option.splits)
  have suc: "nxt (length pre + Suc k) = Some (length pre + k)" if "Suc k < length post" for k
    using thread_nth[OF thread that] that thread_length[OF thread]
      thread_index_nth[OF thread \<open>distinct xs\<close>, of k "length pre" "ids_by_position pre"]
    by (simp add: nxt_def parent_index_def nth_append index)
  have walk: "walk nxt (length (pre @ post)) seen (Some (length pre + k)) = rev [length pre..<length pre + Suc k]"
    if "k < length post" and "\<forall>s \<in> set seen. length pre + k < s" for k seen
    using that
  proof (induction k arbitrary: seen)
    case 0
    then show ?case using zero by (auto simp: walk.simps(2))
  next
    case (Suc k)
    have "walk nxt (length (pre @ post)) ((length pre + Suc k) # seen) (Some (length pre + k))
        = rev [length pre..<length pre + Suc k]"
      using Suc.prems by (intro Suc.IH) auto
    with Suc.prems suc[of k] show ?case by (auto simp: walk.simps(2))
  qed
  have "length pre + length post - 1 = length pre + (length post - 1)" using \<open>post \<noteq> []\<close> by (cases post) simp_all
  with walk[of "length post - 1" "[]"] \<open>post \<noteq> []\<close> show ?thesis
    by (simp add: context_path_def nxt_def)
qed

lemma assign_ids_unknown:
  assumes "uuid_ok uuid" and "\<forall>e \<in> set before. entry_base_of e \<noteq> None"
    and "\<forall>e \<in> set after. entry_base_of e \<noteq> None" and "\<forall>x \<in> set ids. drawn uuid n x"
    and "assign_ids uuid n ids prev position (before @ FeUnknown r # after) = (es', fxs)"
  shows "\<exists>xs es1 u ys es2. es' = es1 @ FeUnknown r # es2 \<and> thread prev xs es1 \<and> thread (Some u) ys es2
    \<and> length es1 = length before \<and> u \<notin> set xs \<and> u \<notin> set ids \<and> (\<exists>m. drawn uuid m u) \<and> distinct ys \<and> u \<notin> set ys"
  using assms(2,4-)
proof (induction before arbitrary: n ids prev position es' fxs)
  case Nil
  obtain u n' where g: "generate_id uuid (\<lambda>x. x \<in> set ids) n = (u, n')" by fastforce
  obtain es2 fxs2 where r: "assign_ids uuid n' (u # ids) (Some u) (Suc position) after = (es2, fxs2)"
    by fastforce
  have new: "u \<notin> set ids \<and> drawn uuid n' u \<and> n < n'"
    using Nil.prems(2) by (intro generate_id_drawn[OF assms(1) _ g]) blast
  have "\<forall>x \<in> set (u # ids). drawn uuid n' x"
    using new Nil.prems(2) drawn_mono[of uuid n _ n'] by auto
  from assign_ids_thread[OF assms(1,3) this r] obtain ys where
    "thread (Some u) ys es2" "distinct ys" "set ys \<inter> set (u # ids) = {}" by auto
  moreover have "es' = [] @ FeUnknown r # es2" using Nil.prems(3) g r by (simp add: Let_def)
  ultimately show ?case using new
    by (intro exI[of _ "[]"] exI[of _ u] exI[of _ ys] exI[of _ es2]) auto
next
  case (Cons e before)
  obtain i n' where g: "generate_id uuid (\<lambda>x. x \<in> set ids) n = (i, n')" by fastforce
  obtain es2 fxs2 where
    r: "assign_ids uuid n' (i # ids) (Some i) (Suc position) (before @ FeUnknown r # after) = (es2, fxs2)"
    by fastforce
  have base: "entry_base_of e \<noteq> None" using Cons.prems(1) by simp
  then have nh: "\<not> is_header e" by (cases e) auto
  define e' where "e' = map_entry_base (\<lambda>b. b\<lparr>eb_id := Some i, eb_parent_id := prev\<rparr>) e"
  have es': "es' = e' # es2" using Cons.prems(3) nh g r by (simp add: Let_def e'_def)
  have new: "i \<notin> set ids \<and> drawn uuid n' i \<and> n < n'"
    using Cons.prems(2) by (intro generate_id_drawn[OF assms(1) _ g]) blast
  have "\<forall>x \<in> set (i # ids). drawn uuid n' x"
    using new Cons.prems(2) drawn_mono[of uuid n _ n'] by auto
  moreover have "\<forall>e \<in> set before. entry_base_of e \<noteq> None" using Cons.prems(1) by simp
  ultimately obtain xs es1 u ys es3 where
    h: "es2 = es1 @ FeUnknown r # es3" "thread (Some i) xs es1" "thread (Some u) ys es3"
      "length es1 = length before" "u \<notin> set xs" "u \<notin> set (i # ids)" "\<exists>m. drawn uuid m u"
      "distinct ys" "u \<notin> set ys"
    using Cons.IH[OF _ _ r] by blast
  have "\<not> is_header e'" using nh by (cases e) (auto simp: e'_def)
  then have "thread prev (i # xs) (e' # es1)"
    using h(2) map_entry_base_id[OF base, where x = "Some i" and p = prev] by (simp add: e'_def)
  with h es' show ?case
    by (intro exI[of _ "i # xs"] exI[of _ "e' # es1"] exI[of _ u] exI[of _ ys] exI[of _ es3]) auto
qed

text \<open>A migrated file is its header, then its rows with the links the migration gave them.\<close>

lemma migrated_rows:
  assumes "header_version (FeHeader h # rows) < 2"
    and "assign_ids uuid n [] None 1 rows = (rows', fxs)"
  shows "\<exists>es. migrate_to_current_version uuid n (FeHeader h # rows) = (True, es)
     \<and> same_links (FeHeader h # rows') es"
proof -
  have a: "assign_ids uuid n [] None 0 (FeHeader h # rows) = (set_version 2 (FeHeader h) # rows', fxs)"
    using assms(2) by (simp add: Let_def)
  define es where "es = map (set_version 3) (foldl fix_compaction (set_version 2 (FeHeader h) # rows') fxs)"
  have "migrate_to_current_version uuid n (FeHeader h # rows) = (True, es)"
    using assms(1) a
    by (simp add: migrate_to_current_version_def current_session_version_def migrate_v1_to_v2_def
        migrate_v2_to_v3_def es_def Let_def split: option.splits)
  moreover have "same_links es (FeHeader h # rows')"
    unfolding es_def
    by (rule same_links_trans[OF map_set_version_links], rule same_links_trans[OF foldl_fix_compaction_links])
       (simp add: same_links_def entry_id_def entry_parent_id_def)
  ultimately show ?thesis by (auto simp: same_links_def)
qed

lemma assign_ids_length:
  "assign_ids uuid n ids prev position rows = (rows', fxs) \<Longrightarrow> length rows' = length rows"
  by (induction rows arbitrary: n ids prev position rows' fxs)
     (auto simp: Let_def split: if_splits prod.splits)

lemma same_links_append:
  "same_links (xs @ ys) es \<Longrightarrow> \<exists>xs' ys'. es = xs' @ ys' \<and> same_links xs xs' \<and> same_links ys ys'"
proof (induction xs arbitrary: es)
  case Nil
  then show ?case by (intro exI[of _ "[]"] exI[of _ es]) (simp add: same_links_Nil)
next
  case (Cons x xs)
  then obtain e2 es2 where es: "es = e2 # es2" and x: "same_links [x] [e2]" and "same_links (xs @ ys) es2"
    by (auto simp: same_links_Cons same_links_Nil)
  from Cons.IH[OF this(3)] obtain xs' ys' where "es2 = xs' @ ys'" "same_links xs xs'" "same_links ys ys'"
    by blast
  with es x show ?case
    by (intro exI[of _ "e2 # xs'"] exI[of _ ys']) (simp add: same_links_Cons same_links_Nil)
qed

lemma thread_ids: "thread prev xs es \<Longrightarrow> map entry_id es = map Some xs"
  by (induction prev xs es rule: thread.induct) auto

text \<open>
  Migrating a version 1 file makes its rows one thread: the conversation at the end of the
  migrated file runs through every row after the header, in file order. The ids the migration draws
  are distinct even when short ids collide, because a draw that repeats an id is thrown away and the
  last resort is a whole UUID.
\<close>

lemma v1_migration_threads_rows:
  assumes "uuid_ok uuid" and "header_version (FeHeader h # rows) < 2"
    and "\<forall>e \<in> set rows. entry_base_of e \<noteq> None" and "rows \<noteq> []"
  shows "\<exists>es. migrate_to_current_version uuid n (FeHeader h # rows) = (True, es)
     \<and> context_leaf es None = Some (length rows)
     \<and> context_path es (length rows) = [1..<Suc (length rows)]"
proof -
  obtain rows' fxs where a: "assign_ids uuid n [] None 1 rows = (rows', fxs)" by fastforce
  obtain es where m: "migrate_to_current_version uuid n (FeHeader h # rows) = (True, es)"
    and links: "same_links (FeHeader h # rows') es"
    using migrated_rows[OF assms(2) a] by blast
  from assign_ids_thread[OF assms(1,3) _ a] obtain xs where "thread None xs rows'" "distinct xs" by auto
  moreover obtain e0 rows2 where es: "es = e0 # rows2" "same_links rows' rows2"
    using links by (auto simp: same_links_Cons)
  ultimately have t: "thread None xs rows2" by (blast intro: thread_same_links)
  have "length rows2 = length rows"
    using assign_ids_length[OF a] es(2) by (metis same_links_def length_map)
  moreover from this have "rows2 \<noteq> []" using assms(4) by auto
  ultimately show ?thesis using thread_path[OF t \<open>distinct xs\<close>, of "[e0]"] es(1) m
    by (intro exI[of _ es]) (simp add: context_leaf_def del: upt_Suc)
qed

text \<open>
  A row of a kind the program does not know breaks the thread of a version 1 file: the migration
  draws an id for it but cannot store it, and the next row names that id as its parent. In the
  migrated file the conversation at the end starts after the unknown row, and everything before it
  is lost to the model.
\<close>

lemma v1_unknown_row_cuts_thread:
  assumes "uuid_ok uuid" and "header_version (FeHeader h # before @ FeUnknown r # after) < 2"
    and "\<forall>e \<in> set (before @ after). entry_base_of e \<noteq> None" and "after \<noteq> []"
    and "rest_str ''id'' r = None" and "\<forall>m. \<not> drawn uuid m (hd_id h)"
  shows "\<exists>es. migrate_to_current_version uuid n (FeHeader h # before @ FeUnknown r # after) = (True, es)
     \<and> context_leaf es None = Some (length before + length after + 1)
     \<and> context_path es (length before + length after + 1)
         = [length before + 2..<length before + length after + 2]"
proof -
  obtain rows' fxs where a: "assign_ids uuid n [] None 1 (before @ FeUnknown r # after) = (rows', fxs)"
    by fastforce
  obtain es where m: "migrate_to_current_version uuid n (FeHeader h # before @ FeUnknown r # after) = (True, es)"
    and links: "same_links (FeHeader h # rows') es"
    using migrated_rows[OF assms(2) a] by blast
  have "\<forall>e \<in> set before. entry_base_of e \<noteq> None" "\<forall>e \<in> set after. entry_base_of e \<noteq> None"
    using assms(3) by auto
  moreover have "\<forall>x \<in> set []. drawn uuid n x" by simp
  ultimately obtain xs es1 u ys es2 where
    s: "rows' = es1 @ FeUnknown r # es2" "thread None xs es1" "thread (Some u) ys es2"
      "length es1 = length before" "u \<notin> set xs" "\<exists>m. drawn uuid m u" "distinct ys" "u \<notin> set ys"
    using assign_ids_unknown[OF assms(1) _ _ _ a] by blast
  obtain e0 es1' eu es2' where es: "es = (e0 # es1' @ [eu]) @ es2'" "same_links es1 es1'" "same_links es2 es2'"
    using links s(1) same_links_append[of es1 "FeUnknown r # es2"] by (fastforce simp: same_links_Cons)
  have ids: "map entry_id es = Some (hd_id h) # map Some xs @ [None] @ map Some ys"
    using links s(1) thread_ids[OF s(2)] thread_ids[OF s(3)] assms(5)
    by (simp add: same_links_def entry_id_def)
  have root: "ids_by_position es u = None"
  proof (rule ccontr)
    assume "ids_by_position es u \<noteq> None"
    then have "Some u \<in> set (map entry_id es)"
      using ids_by_position_dom[of es] by (force simp: domIff)
    with ids s(5,6,8) assms(6) show False by auto
  qed
  have len: "length es1' = length before" "length es2' = length after"
    using assign_ids_length[OF a] s(1,4) es(2,3) by (auto simp: same_links_def dest: map_eq_imp_length_eq)
  have "es2' \<noteq> []" using len(2) assms(4) by auto
  with thread_path[OF thread_same_links[OF s(3) es(3)] s(7), of "e0 # es1' @ [eu]"] root es(1) len m
  show ?thesis by (intro exI[of _ es]) (simp add: context_leaf_def del: upt_Suc)
qed

section \<open>Instances\<close>

definition demo_uuid :: "nat \<Rightarrow> string" where
  "demo_uuid n = show_nat n @ ''-0000-4000-8000''"

lemma demo_uuid_ok: "uuid_ok demo_uuid"
  by (auto simp: uuid_ok_def demo_uuid_def inj_def dest: show_nat_inj)

definition v1_row :: "string \<Rightarrow> file_entry" where
  "v1_row t =
     FeMessage (SmUser \<lparr>aiu_content = UcText t, aiu_timestamp = 0, aiu_rest = []\<rparr>)
       \<lparr>eb_id = None, eb_parent_id = None, eb_timestamp = None, eb_rest = []\<rparr>"

definition v1_header :: session_header where
  "v1_header = \<lparr>hd_version = None, hd_id = ''session-one'', hd_timestamp = [], hd_cwd = ''/w'',
                hd_parent_session = None, hd_rlm_depth = None, hd_git = None, hd_rest = []\<rparr>"

lemma v1_row_base:
  "entry_base_of (v1_row t) = Some \<lparr>eb_id = None, eb_parent_id = None, eb_timestamp = None, eb_rest = []\<rparr>"
  by (simp add: v1_row_def)

lemma v1_header_version: "header_version (FeHeader v1_header # rows) < 2"
  by (simp add: v1_header_def)

lemma v1_migration_threads_rows_witness:
  "\<exists>es. migrate_to_current_version demo_uuid 0 [FeHeader v1_header, v1_row ''a'', v1_row ''b''] = (True, es)
     \<and> context_path es 2 = [1..<3]"
  using v1_migration_threads_rows[OF demo_uuid_ok v1_header_version, of "[v1_row ''a'', v1_row ''b'']" 0]
  by (auto simp: v1_row_base eval_nat_numeral simp del: upt_Suc)

lemma v1_unknown_row_cuts_thread_witness:
  "\<exists>es. migrate_to_current_version demo_uuid 0
       [FeHeader v1_header, v1_row ''a'', FeUnknown [(''type'', JStr ''hook'')], v1_row ''b''] = (True, es)
     \<and> context_path es 3 = [3..<4]"
proof -
  have "\<not> drawn demo_uuid m (hd_id v1_header)" for m
  proof
    assume "drawn demo_uuid m (hd_id v1_header)"
    then obtain k where "''session-one'' = show_nat k @ ''-0000-4000-8000''"
      by (auto simp: drawn_def v1_header_def demo_uuid_def)
    then have "length ''session-one'' = length (show_nat k) + 15" by simp
    then show False by simp
  qed
  then show ?thesis
    using v1_unknown_row_cuts_thread[OF demo_uuid_ok v1_header_version, of "[v1_row ''a'']" "[v1_row ''b'']"
        "[(''type'', JStr ''hook'')]" 0]
    by (auto simp: v1_row_base rest_str_def eval_nat_numeral simp del: upt_Suc)
qed

definition demo_usage :: usage where
  "demo_usage = \<lparr>us_input = 7, us_output = 3, us_cache_read = 0, us_cache_write = 0, us_total_tokens = 10\<rparr>"

definition demo_attributed :: "file_entry list" where
  "demo_attributed =
     [demo_header, demo_assistant ''a'' None,
      FeChildUsageAttributed \<lparr>cua_target_id = ''a'', cua_child_usage = usage_zero,
        cua_aggregate_usage = demo_usage, cua_origin = None\<rparr> (demo_base ''b'' (Some ''a''))]"

lemma attributions_fold_once_witness:
  "apply_child_usage_attributions demo_attributed ! 1
     = FeMessage (SmAssistant (demo_assistant_message\<lparr>aia_usage := demo_usage\<rparr>)) (demo_base ''a'' None)"
proof -
  have "attribution demo_attributed 1 = Some demo_usage" "1 < length demo_attributed"
    by code_simp+
  with attributions_fold_once[of demo_attributed]
  have "apply_child_usage_attributions demo_attributed ! 1 = set_usage demo_usage (demo_attributed ! 1)" by auto
  then show ?thesis by (simp add: demo_attributed_def demo_assistant_def set_usage_def)
qed

end
