(* ===== verification/SessionRepair.thy ===== *)
theory SessionRepair
  imports SessionMigrate
begin

text \<open>
  \<open>pa-core/src/session/manager/repair.rs\<close>: the repair of crash damage at the end of a session file,
  and the load of the file. The parameter \<open>is_json\<close> is \<open>serde_json::from_slice::<Value>\<close> on a line.
\<close>

definition nul :: char where
  "nul = CHR 0x00"

definition repair_suspicion_window_bytes :: nat where
  "repair_suspicion_window_bytes = 1024 * 1024"

section \<open>The bounded look at the tail\<close>

text \<open>
  \<open>previous_newline\<close> and what follows it: the last line of the window without its line feed, or
  nothing when no line feed precedes it.
\<close>

definition last_window_line :: "string \<Rightarrow> string option" where
  "last_window_line window =
     (let front = butlast window
      in if line_feed \<in> set front then Some (rev (takeWhile (\<lambda>c. c \<noteq> line_feed) (rev front))) else None)"

definition tail_looks_damaged :: "(string \<Rightarrow> bool) \<Rightarrow> string \<Rightarrow> bool" where
  "tail_looks_damaged is_json content =
     (let size = length content;
          window_bytes = min size repair_suspicion_window_bytes;
          window = drop (size - window_bytes) content
      in if size = 0 then False
         else if nul \<in> set window then True
         else if last window \<noteq> line_feed then True
         else case last_window_line window of
                None \<Rightarrow> window_bytes < size
              | Some last_line \<Rightarrow> last_line \<noteq> [] \<and> \<not> is_json last_line)"

section \<open>The full scan\<close>

text \<open>
  The loop over the lines, on the bytes from \<open>start\<close> on: the kept lines and whether anything was
  wrong.
\<close>

function repair_loop :: "(string \<Rightarrow> bool) \<Rightarrow> string \<Rightarrow> string list \<Rightarrow> bool \<Rightarrow> string list \<times> bool" where
  "repair_loop is_json buffer kept dirty =
     (if buffer = [] then (kept, dirty)
      else
        let raw = takeWhile (\<lambda>c. c \<noteq> line_feed) buffer;
            terminated = length raw < length buffer;
            line = dropWhile (\<lambda>c. c = nul) raw;
            after = drop (Suc (length raw)) buffer;
            sound = (line \<noteq> [] \<and> is_json line)
        in if length line < length raw then
             repair_loop is_json after (if sound then kept @ [line] else kept) True
           else if \<not> terminated then
             repair_loop is_json after (if sound then kept @ [line] else kept) True
           else if after = [] \<and> line \<noteq> [] \<and> \<not> is_json line then
             repair_loop is_json after kept True
           else repair_loop is_json after (kept @ [line]) dirty)"
  by pat_completeness auto
termination
  by (relation "measure (\<lambda>(is_json, buffer, kept, dirty). length buffer)") auto

declare repair_loop.simps [simp del]

definition repaired_content :: "string list \<Rightarrow> string" where
  "repaired_content kept =
     (let content = join_with [line_feed] (map from_utf8_lossy kept)
      in if content \<noteq> [] then content @ [line_feed] else content)"

text \<open>\<open>repair_jsonl_damage\<close>: the bytes it writes, if it writes any.\<close>

definition repair_jsonl_damage :: "(string \<Rightarrow> bool) \<Rightarrow> string \<Rightarrow> string option" where
  "repair_jsonl_damage is_json buffer =
     (if \<not> tail_looks_damaged is_json buffer \<or> buffer = [] then None
      else case repair_loop is_json buffer [] False of
             (kept, dirty) \<Rightarrow> if dirty then Some (repaired_content kept) else None)"

section \<open>The load\<close>

definition finalize_loaded_entries :: "file_entry list \<Rightarrow> file_entry list" where
  "finalize_loaded_entries es =
     (case es of [] \<Rightarrow> [] | e # _ \<Rightarrow> if is_header e then es else [])"

text \<open>\<open>read_to_string\<close> fails on bytes that are not UTF-8.\<close>

definition read_entries :: "(string \<Rightarrow> file_entry option) \<Rightarrow> string \<Rightarrow> file_entry list" where
  "read_entries deser content =
     (if valid_utf8 content then finalize_loaded_entries (parse_session_entries deser content) else [])"

section \<open>Sound lines pass the scan\<close>

text \<open>
  What the code relies on of the JSON library: the writer makes one object per line, in UTF-8,
  without a NUL byte; the reader gives the value back; no proper prefix of an object is JSON.
\<close>

definition codec_line :: "(string \<Rightarrow> bool) \<Rightarrow> string \<Rightarrow> bool" where
  "codec_line is_json l \<longleftrightarrow>
     object_line l \<and> nul \<notin> set l \<and> valid_utf8 l \<and> is_json l \<and> (\<forall>k < length l. 0 < k \<longrightarrow> \<not> is_json (take k l))"

lemma dropWhile_no_nul: "nul \<notin> set l \<Longrightarrow> dropWhile (\<lambda>c. c = nul) l = l"
  by (cases l) auto

lemma repair_loop_line:
  assumes "line_feed \<notin> set l" and "nul \<notin> set l" and "is_json l \<or> rest \<noteq> []"
  shows "repair_loop is_json (l @ line_feed # rest) kept dirty = repair_loop is_json rest (kept @ [l]) dirty"
proof -
  have "takeWhile (\<lambda>c. c \<noteq> line_feed) (l @ line_feed # rest) = l"
    using assms(1) by (induction l) auto
  moreover have "drop (Suc (length l)) (l @ line_feed # rest) = rest" by simp
  ultimately show ?thesis
    using assms(3) by (subst repair_loop.simps) (auto simp: Let_def dropWhile_no_nul[OF assms(2)])
qed

lemma repair_loop_lines:
  assumes "\<forall>l \<in> set ls. line_feed \<notin> set l \<and> nul \<notin> set l \<and> is_json l"
  shows "repair_loop is_json (unlines ls @ rest) kept dirty = repair_loop is_json rest (kept @ ls) dirty"
  using assms by (induction ls arbitrary: kept) (simp_all add: repair_loop_line)

lemma repair_loop_tail:
  assumes "line_feed \<notin> set t" and "t \<noteq> []"
  shows "repair_loop is_json t kept dirty =
     (let line = dropWhile (\<lambda>c. c = nul) t in (if line \<noteq> [] \<and> is_json line then kept @ [line] else kept, True))"
proof -
  have all: "takeWhile (\<lambda>c. c \<noteq> line_feed) t = t" using assms(1) by (auto simp: takeWhile_eq_all_conv)
  have stop: "repair_loop is_json [] k d = (k, d)" for k d
    by (simp add: repair_loop.simps[of _ "[]"])
  show ?thesis
    using assms(2) by (subst repair_loop.simps) (simp add: Let_def all stop)
qed

section \<open>Reading what the writer wrote\<close>

lemma valid_utf8_object_lines:
  assumes "\<forall>l \<in> set ls. valid_utf8 l"
  shows "map from_utf8_lossy ls = ls"
  using assms by (auto simp: valid_utf8_def intro: map_idI)

lemma object_line_edges:
  assumes "object_line l"
  obtains m where "l = CHR 0x7B # m @ [CHR 0x7D]"
proof -
  obtain c s where l: "l = c # s" "s \<noteq> []" using assms by (cases l; cases "tl l") (auto simp: object_line_def)
  then obtain m d where "s = m @ [d]" by (cases s rule: rev_cases) auto
  with l assms show thesis by (intro that[of m]) (auto simp: object_line_def)
qed

lemma trim_unlines:
  assumes "\<forall>l \<in> set ls. object_line l" and "ls \<noteq> []"
  shows "trim (unlines ls) = butlast (unlines ls)"
proof -
  obtain l0 ls0 where ls0: "ls = l0 # ls0" using assms(2) by (cases ls) auto
  obtain ls1 l1 where ls1: "ls = ls1 @ [l1]" using assms(2) by (cases ls rule: rev_cases) auto
  obtain m0 where m0: "l0 = CHR 0x7B # m0 @ [CHR 0x7D]" using assms(1) ls0 by (auto elim: object_line_edges)
  obtain m1 where m1: "l1 = CHR 0x7B # m1 @ [CHR 0x7D]" using assms(1) ls1 by (auto elim: object_line_edges)
  have "space_prefix (unlines ls) = 0"
    by (simp add: ls0 m0 is_ascii_space_def wide_space_def split: list.splits)
  then have start: "trim_start (unlines ls) = unlines ls" by (simp add: trim_start_def trim_by_id)
  define body where "body = rev (unlines ls1) @ []"
  have rev_eq: "rev (unlines ls) = line_feed # CHR 0x7D # rev (CHR 0x7B # m1) @ rev (unlines ls1)"
    by (simp add: ls1 m1)
  have suffix: "space_suffix (CHR 0x7D # xs) = 0" for xs
    by (simp add: is_ascii_space_def wide_space_def split: list.splits)
  have "trim_by space_suffix (rev (unlines ls)) = CHR 0x7D # rev (CHR 0x7B # m1) @ rev (unlines ls1)"
    unfolding rev_eq
    by (subst trim_by.simps) (simp add: is_ascii_space_def trim_by_id suffix del: space_suffix.simps(2) add: space_suffix.simps(2)[of line_feed])
  then have "trim_end (unlines ls) = unlines ls1 @ l1" by (simp add: trim_end_def m1)
  with start show ?thesis by (simp add: trim_def ls1 butlast_append)
qed

lemma str_lines_butlast:
  assumes "\<forall>l \<in> set ls. object_line l" and "ls \<noteq> []"
  shows "str_lines (butlast (unlines ls)) = ls"
proof -
  obtain ls1 l1 where ls1: "ls = ls1 @ [l1]" using assms(2) by (cases ls rule: rev_cases) auto
  have l1: "line_feed \<notin> set l1" "l1 \<noteq> []" using assms(1) ls1 by (auto simp: object_line_def)
  have "split_lines [] (unlines ls1 @ l1) = ls1 @ [l1]"
    using assms(1) l1 ls1 by (induction ls1 arbitrary: ls) (auto simp: split_lines_last split_lines_object)
  then show ?thesis by (simp add: str_lines_def ls1 butlast_append)
qed

text \<open>The rows of a file are the entries \<open>es\<close> when each line is an entry's and reads back as it.\<close>

definition reads_back :: "(file_entry \<Rightarrow> string) \<Rightarrow> (string \<Rightarrow> file_entry option) \<Rightarrow> file_entry \<Rightarrow> bool" where
  "reads_back ser deser e \<longleftrightarrow> object_line (ser e) \<and> valid_utf8 (ser e) \<and> deser (ser e) = Some e"

lemma trim_object_line: "object_line l \<Longrightarrow> trim l \<noteq> []"
proof -
  assume "object_line l"
  then obtain m where l: "l = CHR 0x7B # m @ [CHR 0x7D]" by (rule object_line_edges)
  have "space_prefix l = 0" by (simp add: l is_ascii_space_def wide_space_def split: list.splits)
  moreover have "space_suffix (rev l) = 0"
    by (simp add: l is_ascii_space_def wide_space_def split: list.splits)
  ultimately have "trim l = l" by (simp add: trim_def trim_start_def trim_end_def trim_by_id)
  with l show "trim l \<noteq> []" by simp
qed

lemma parse_object_lines:
  assumes "\<forall>l \<in> set ls. object_line l"
  shows "parse_session_entries deser (unlines ls) = apply_child_usage_attributions (List.map_filter deser ls)"
proof (cases "ls = []")
  case True
  then show ?thesis
    by (simp add: parse_session_entries_def trim_def trim_start_def trim_end_def trim_by_id str_lines_def map_filter_def)
next
  case False
  have "str_lines (trim (unlines ls)) = ls"
    using assms False by (simp add: trim_unlines str_lines_butlast)
  moreover have "filter (\<lambda>l. trim l \<noteq> []) ls = ls"
    using assms trim_object_line by (auto simp: filter_id_conv)
  ultimately show ?thesis by (simp add: parse_session_entries_def)
qed

lemma parse_unlines:
  assumes "\<forall>e \<in> set es. reads_back ser deser e"
  shows "parse_session_entries deser (unlines (map ser es)) = apply_child_usage_attributions es"
proof -
  have "\<forall>l \<in> set (map ser es). object_line l" using assms by (auto simp: reads_back_def)
  moreover have "List.map_filter deser (map ser es) = es"
    using assms by (induction es) (auto simp: reads_back_def map_filter_def)
  ultimately show ?thesis by (simp add: parse_object_lines)
qed

section \<open>Recovery from a crash\<close>

lemma repaired_content_unlines:
  "\<forall>l \<in> set ls. object_line l \<and> valid_utf8 l \<Longrightarrow> repaired_content ls = unlines ls"
proof (cases "ls = []")
  case False
  assume ls: "\<forall>l \<in> set ls. object_line l \<and> valid_utf8 l"
  then have "map from_utf8_lossy ls = ls" by (intro valid_utf8_object_lines) simp
  moreover have "join_with [line_feed] ls \<noteq> []"
    using False ls by (cases ls; cases "tl ls") (auto simp: object_line_def)
  ultimately show ?thesis using False by (simp add: repaired_content_def Let_def join_with_unlines)
qed (simp add: repaired_content_def)

lemma damaged_if_last:
  assumes "content \<noteq> []" and "last content \<noteq> line_feed"
  shows "tail_looks_damaged is_json content"
proof -
  have "length content - min (length content) repair_suspicion_window_bytes < length content"
    using assms(1) by (auto simp: repair_suspicion_window_bytes_def)
  then have "last (drop (length content - min (length content) repair_suspicion_window_bytes) content) = last content"
    by simp
  with assms show ?thesis by (simp add: tail_looks_damaged_def Let_def)
qed

definition repaired :: "(string \<Rightarrow> bool) \<Rightarrow> string \<Rightarrow> string" where
  "repaired is_json content = (case repair_jsonl_damage is_json content of None \<Rightarrow> content | Some c \<Rightarrow> c)"

text \<open>
  C3. Opening a session after a crash recovers exactly what was durable. Whatever part of the last
  append reached the disk, after any number of zero bytes the file system left before it, the
  repaired file consists of the complete rows, with the last one among them precisely when all its
  bytes arrived, each on a line of its own; and reading it gives those rows.
\<close>

theorem crash_recovery:
  assumes "\<forall>e \<in> set (rows @ [e]). reads_back ser deser e \<and> codec_line is_json (ser e)"
    and "k \<le> length (ser e)"
  defines "survivors \<equiv> (if k = length (ser e) then rows @ [e] else rows)"
  shows "repaired is_json (unlines (map ser rows) @ replicate zeros nul @ take k (ser e))
       = unlines (map ser survivors)
     \<and> parse_session_entries deser
         (repaired is_json (unlines (map ser rows) @ replicate zeros nul @ take k (ser e)))
       = apply_child_usage_attributions survivors"
proof -
  define t where "t = replicate zeros nul @ take k (ser e)"
  have lines: "\<forall>l \<in> set (map ser rows). line_feed \<notin> set l \<and> nul \<notin> set l \<and> is_json l"
    using assms(1) by (auto simp: codec_line_def object_line_def)
  have e: "line_feed \<notin> set (ser e)" "nul \<notin> set (ser e)" "ser e \<noteq> []" "is_json (ser e)"
      "\<And>j. j < length (ser e) \<Longrightarrow> 0 < j \<Longrightarrow> \<not> is_json (take j (ser e))"
    using assms(1) by (auto simp: codec_line_def object_line_def)
  have loop: "repair_loop is_json (unlines (map ser rows) @ t) [] False = repair_loop is_json t (map ser rows) False"
    using repair_loop_lines[OF lines, of t "[]" False] by simp
  have repaired: "repaired is_json (unlines (map ser rows) @ t) = unlines (map ser survivors)"
  proof (cases "t = []")
    case True
    then have "survivors = rows" using e(3) by (auto simp: t_def survivors_def)
    moreover have "repair_loop is_json (unlines (map ser rows)) [] False = (map ser rows, False)"
      using loop True by (simp add: repair_loop.simps[of _ "[]"])
    ultimately show ?thesis using True by (simp add: repaired_def repair_jsonl_damage_def)
  next
    case False
    have no_lf: "line_feed \<notin> set t" using e(1) by (auto simp: t_def nul_def dest: in_set_takeD)
    have last: "last (unlines (map ser rows) @ t) \<noteq> line_feed"
      using False no_lf by (metis last_appendR last_in_set)
    have strip: "dropWhile (\<lambda>c. c = nul) t = take k (ser e)"
      using e(2) dropWhile_no_nul[of "take k (ser e)"]
      by (auto simp: t_def dropWhile_append dest: in_set_takeD)
    have kept: "take k (ser e) \<noteq> [] \<and> is_json (take k (ser e)) \<longleftrightarrow> k = length (ser e)"
      using assms(2) e(3,4) e(5)[of k] by (cases "k = length (ser e)") auto
    have "repair_loop is_json (unlines (map ser rows) @ t) [] False = (map ser survivors, True)"
      unfolding loop repair_loop_tail[OF no_lf False] strip Let_def
      using kept by (auto simp: survivors_def)
    moreover have "\<forall>l \<in> set (map ser survivors). object_line l \<and> valid_utf8 l"
      using assms(1) by (auto simp: survivors_def codec_line_def)
    ultimately show ?thesis
      using damaged_if_last[OF _ last] False
      by (simp add: repaired_def repair_jsonl_damage_def repaired_content_unlines del: map_append)
  qed
  moreover have "\<forall>e \<in> set survivors. reads_back ser deser e" using assms(1) by (auto simp: survivors_def)
  ultimately show ?thesis by (simp add: t_def parse_unlines)
qed

section \<open>Instances\<close>

text \<open>A toy codec of the rows of \<open>demo_entries\<close>: the id in braces.\<close>

definition demo_ser :: "file_entry \<Rightarrow> string" where
  "demo_ser e = ''{'' @ (case entry_id e of None \<Rightarrow> [] | Some x \<Rightarrow> x) @ ''}''"

definition demo_deser :: "string \<Rightarrow> file_entry option" where
  "demo_deser l = find (\<lambda>e. demo_ser e = l) demo_entries"

definition demo_is_json :: "string \<Rightarrow> bool" where
  "demo_is_json l \<longleftrightarrow> l \<noteq> [] \<and> last l = CHR 0x7D"

lemma demo_codec:
  "\<forall>e \<in> set demo_entries. reads_back demo_ser demo_deser e \<and> codec_line demo_is_json (demo_ser e)"
proof -
  have "\<forall>e \<in> set demo_entries. object_line (demo_ser e) \<and> demo_deser (demo_ser e) = Some e
      \<and> nul \<notin> set (demo_ser e) \<and> demo_is_json (demo_ser e)
      \<and> (\<forall>k < length (demo_ser e). 0 < k \<longrightarrow> \<not> demo_is_json (take k (demo_ser e)))
      \<and> (\<forall>c \<in> set (demo_ser e). byte c < (128 :: nat))"
    by code_simp
  then show ?thesis unfolding reads_back_def codec_line_def using valid_utf8_ascii by blast
qed

text \<open>One row is on disk, and of the next one three bytes after two zero bytes.\<close>

lemma crash_recovery_witness:
  "repaired demo_is_json (unlines (map demo_ser [demo_header]) @ replicate 2 nul
       @ take 2 (demo_ser (demo_user ''a'' None ''x''))) = unlines (map demo_ser [demo_header])
   \<and> parse_session_entries demo_deser (repaired demo_is_json
       (unlines (map demo_ser [demo_header]) @ replicate 2 nul @ take 2 (demo_ser (demo_user ''a'' None ''x''))))
     = [demo_header]"
proof -
  have "\<forall>e \<in> set ([demo_header] @ [demo_user ''a'' None ''x'']).
      reads_back demo_ser demo_deser e \<and> codec_line demo_is_json (demo_ser e)"
    using demo_codec by (simp add: demo_entries_def)
  moreover have "length (demo_ser (demo_user ''a'' None ''x'')) = 3"
    "apply_child_usage_attributions [demo_header] = [demo_header]" by code_simp+
  ultimately show ?thesis
    using crash_recovery[of "[demo_header]" "demo_user ''a'' None ''x''" demo_ser demo_deser demo_is_json 2 2]
    by (auto simp del: unlines_simps)
qed

end
