(* ===== verification/SessionStore.thy ===== *)
theory SessionStore
  imports SessionRepair
begin

text \<open>
  The stateful session writer: \<open>SessionManager\<close> of \<open>pa-core/src/session/manager.rs\<close> with its
  persist, append and lifecycle parts (\<open>manager/persist.rs\<close>, \<open>manager/append.rs\<close>,
  \<open>manager/lifecycle.rs\<close>), its queries (\<open>manager/queries.rs\<close>) and \<open>manager_ext.rs\<close>. The manager
  has no windowed store attached, so the assertions that there is none hold.

  The record holds the manager's fields and the world it acts on: the files as bytes, the outcome of
  each disk write still to come, how many ids and clock readings have been drawn, and the log of the
  calls to the persist listeners. What the writes, the clock, the id crate, git and the JSON codec
  answer is in \<open>session_env\<close>.
\<close>

section \<open>State\<close>

text \<open>
  A write either succeeds or fails with an error. A failed append may have put some of its bytes on
  the disk; a failed rewrite leaves the file, because the new content is renamed over it at the end.
\<close>

datatype io_outcome = IoDone | IoFail nat string

datatype store_error = IoError string | InvalidInput string | Panic string

record session_env =
  ev_uuid :: "nat \<Rightarrow> string"
  ev_uuid7 :: "nat \<Rightarrow> string"
  ev_now :: "nat \<Rightarrow> int"
  ev_git :: "nat \<Rightarrow> string \<Rightarrow> git_context option"
  ev_rlm_depth_var :: "string option"
  ev_ser :: "file_entry \<Rightarrow> string"
  ev_deser :: "string \<Rightarrow> file_entry option"
  ev_is_json :: "string \<Rightarrow> bool"

record session_manager =
  sm_session_id :: string
  sm_session_file :: "string option"
  sm_session_dir :: string
  sm_cwd :: string
  sm_persist :: bool
  sm_session_dir_backed :: bool
  sm_flushed :: bool
  sm_has_assistant_entry :: bool
  sm_file_entries :: "file_entry list"
  sm_by_id :: "string \<rightharpoonup> nat"
  sm_labels_by_id :: "string \<rightharpoonup> string"
  sm_label_timestamps_by_id :: "string \<rightharpoonup> string"
  sm_leaf_id :: "string option"
  sm_persist_listeners :: nat
  sm_files :: "string \<rightharpoonup> string"
  sm_io :: "io_outcome list"
  sm_draws :: nat
  sm_draws7 :: nat
  sm_ticks :: nat
  sm_notified :: "string list"

type_synonym 'a store = "(session_manager, store_error, 'a) prog"

section \<open>Persistence\<close>

definition serialize_entry :: "session_env \<Rightarrow> file_entry \<Rightarrow> string" where
  "serialize_entry env e = ev_ser env e"

definition refresh_has_assistant_entry :: "file_entry list \<Rightarrow> session_manager \<Rightarrow> session_manager" where
  "refresh_has_assistant_entry es s = s\<lparr>sm_has_assistant_entry := list_ex is_assistant_entry es\<rparr>"

text \<open>\<open>apply_label_entry\<close>, which \<open>build_index\<close> also does in line.\<close>

definition apply_label_entry :: "string \<Rightarrow> string option \<Rightarrow> string \<Rightarrow> session_manager \<Rightarrow> session_manager" where
  "apply_label_entry target label timestamp s =
     (case label of
        Some l \<Rightarrow> s\<lparr>sm_labels_by_id := (sm_labels_by_id s)(target \<mapsto> l),
                     sm_label_timestamps_by_id := (sm_label_timestamps_by_id s)(target \<mapsto> timestamp)\<rparr>
      | None \<Rightarrow> s\<lparr>sm_labels_by_id := (sm_labels_by_id s)(target := None),
                   sm_label_timestamps_by_id := (sm_label_timestamps_by_id s)(target := None)\<rparr>)"

definition index_row :: "session_manager \<Rightarrow> nat \<times> file_entry \<Rightarrow> session_manager" where
  "index_row s ie =
     (case ie of (i, e) \<Rightarrow>
        if is_header e then s
        else
          let s = (case entry_id e of
                     None \<Rightarrow> s
                   | Some x \<Rightarrow> s\<lparr>sm_by_id := (sm_by_id s)(x \<mapsto> i), sm_leaf_id := Some x\<rparr>)
          in (case e of
                FeLabel p b \<Rightarrow> apply_label_entry (le_target_id p) (le_label p) (entry_timestamp e) s
              | _ \<Rightarrow> s))"

definition build_index :: "session_manager \<Rightarrow> session_manager" where
  "build_index s =
     foldl index_row
       (s\<lparr>sm_by_id := Map.empty, sm_labels_by_id := Map.empty, sm_label_timestamps_by_id := Map.empty,
          sm_leaf_id := None\<rparr>)
       (enumerate 0 (sm_file_entries s))"

definition next_outcome :: "session_manager \<Rightarrow> io_outcome" where
  "next_outcome s = (case sm_io s of [] \<Rightarrow> IoDone | o1 # _ \<Rightarrow> o1)"

definition spend_outcome :: "session_manager \<Rightarrow> session_manager" where
  "spend_outcome s = s\<lparr>sm_io := drop 1 (sm_io s)\<rparr>"

definition notify_persist_listeners :: "session_manager \<Rightarrow> session_manager" where
  "notify_persist_listeners s =
     (case sm_session_file s of
        None \<Rightarrow> s
      | Some f \<Rightarrow> s\<lparr>sm_notified := sm_notified s @ replicate (sm_persist_listeners s) f\<rparr>)"

text \<open>The content of a rewrite: the rows joined by line feeds, and a last one.\<close>

definition file_content :: "session_env \<Rightarrow> file_entry list \<Rightarrow> string" where
  "file_content env es = join_with [line_feed] (map (serialize_entry env) es) @ [line_feed]"

definition try_rewrite_file :: "session_env \<Rightarrow> unit store" where
  "try_rewrite_file env s =
     (case sm_session_file s of
        None \<Rightarrow> (Inr (), s)
      | Some f \<Rightarrow>
          if \<not> sm_persist s then (Inr (), s)
          else (case next_outcome s of
                  IoFail _ e \<Rightarrow> (Inl (IoError e), spend_outcome s)
                | IoDone \<Rightarrow>
                    (Inr (), notify_persist_listeners
                       ((spend_outcome s)\<lparr>sm_files := (sm_files s)(f \<mapsto> file_content env (sm_file_entries s))\<rparr>))))"

text \<open>\<open>rewrite_file\<close> logs the error of a failed rewrite and goes on.\<close>

definition rewrite_file :: "session_env \<Rightarrow> session_manager \<Rightarrow> session_manager" where
  "rewrite_file env s = snd (try_rewrite_file env s)"

text \<open>\<open>append_cached\<close> of \<open>session/window_cache.rs\<close>: open for append, write, sync.\<close>

definition append_cached :: "string \<Rightarrow> string \<Rightarrow> unit store" where
  "append_cached f line s =
     (case sm_files s f of
        None \<Rightarrow> (Inl (IoError ''not found''), s)
      | Some c \<Rightarrow>
          (case next_outcome s of
             IoDone \<Rightarrow> (Inr (), (spend_outcome s)\<lparr>sm_files := (sm_files s)(f \<mapsto> c @ line)\<rparr>)
           | IoFail k e \<Rightarrow>
               (Inl (IoError e), (spend_outcome s)\<lparr>sm_files := (sm_files s)(f \<mapsto> c @ take k line)\<rparr>)))"

definition file_exists :: "session_manager \<Rightarrow> bool" where
  "file_exists s = (case sm_session_file s of None \<Rightarrow> False | Some f \<Rightarrow> sm_files s f \<noteq> None)"

fun is_state_or_info :: "file_entry \<Rightarrow> bool" where
  "is_state_or_info (FeSessionState _ _) = True"
| "is_state_or_info (FeSessionInfo _ _) = True"
| "is_state_or_info _ = False"

definition persist_entry :: "session_env \<Rightarrow> nat \<Rightarrow> unit store" where
  "persist_entry env i s =
     (case sm_session_file s of
        None \<Rightarrow> (Inr (), s)
      | Some f \<Rightarrow>
          if \<not> sm_persist s then (Inr (), s)
          else if \<not> sm_has_assistant_entry s \<and> \<not> is_state_or_info (sm_file_entries s ! i) then
            (Inr (), s\<lparr>sm_flushed := False\<rparr>)
          else if \<not> sm_flushed s \<or> \<not> file_exists s then
            thn (try_rewrite_file env) (upd (\<lambda>s. s\<lparr>sm_flushed := True\<rparr>)) s
          else
            thn (append_cached f (serialize_entry env (sm_file_entries s ! i) @ [line_feed]))
              (upd notify_persist_listeners) s)"

definition flush_now :: "session_env \<Rightarrow> unit store" where
  "flush_now env s =
     (if \<not> sm_persist s \<or> sm_session_file s = None then (Inr (), s)
      else if sm_flushed s \<and> file_exists s then (Inr (), s)
      else thn (try_rewrite_file env) (upd (\<lambda>s. s\<lparr>sm_flushed := True\<rparr>)) s)"

section \<open>Appending\<close>

text \<open>The end of every append: the id of the new row enters the index and becomes the leaf.\<close>

definition index_new_row :: "file_entry \<Rightarrow> nat \<Rightarrow> session_manager \<Rightarrow> session_manager" where
  "index_new_row e i s =
     (case entry_id e of
        None \<Rightarrow> s
      | Some x \<Rightarrow> s\<lparr>sm_by_id := (sm_by_id s)(x \<mapsto> i), sm_leaf_id := Some x\<rparr>)"

definition append_entry :: "session_env \<Rightarrow> file_entry \<Rightarrow> unit store" where
  "append_entry env e s =
     (let was_assistant = sm_has_assistant_entry s;
          was_flushed = sm_flushed s;
          s1 = (if is_assistant_entry e then s\<lparr>sm_has_assistant_entry := True\<rparr> else s);
          s2 = s1\<lparr>sm_file_entries := sm_file_entries s1 @ [e]\<rparr>;
          i = length (sm_file_entries s2) - 1
      in case persist_entry env i s2 of
           (Inl err, s3) \<Rightarrow>
             (Inl err, s3\<lparr>sm_file_entries := butlast (sm_file_entries s3),
                          sm_has_assistant_entry := was_assistant, sm_flushed := was_flushed\<rparr>)
         | (Inr _, s3) \<Rightarrow> (Inr (), index_new_row (sm_file_entries s3 ! i) i s3))"

text \<open>The retained appends keep the row when the write fails, and report the error.\<close>

definition push_retained :: "session_env \<Rightarrow> file_entry \<Rightarrow> session_manager \<Rightarrow> store_error option \<times> session_manager" where
  "push_retained env e s =
     (let s2 = s\<lparr>sm_file_entries := sm_file_entries s @ [e]\<rparr>;
          i = length (sm_file_entries s2) - 1;
          (r, s3) = persist_entry env i s2
      in (case r of Inl err \<Rightarrow> Some err | Inr _ \<Rightarrow> None, index_new_row (sm_file_entries s3 ! i) i s3))"

definition next_base :: "session_env \<Rightarrow> session_manager \<Rightarrow> entry_base \<times> session_manager" where
  "next_base env s =
     (let (i, draws) = generate_id (ev_uuid env) (\<lambda>x. sm_by_id s x \<noteq> None) (sm_draws s)
      in (\<lparr>eb_id = Some i, eb_parent_id = sm_leaf_id s,
           eb_timestamp = Some (format_iso (ev_now env (sm_ticks s))), eb_rest = []\<rparr>,
          s\<lparr>sm_draws := draws, sm_ticks := Suc (sm_ticks s)\<rparr>))"

definition base_id :: "entry_base \<Rightarrow> string" where
  "base_id b = (case eb_id b of None \<Rightarrow> [] | Some x \<Rightarrow> x)"

text \<open>The strict appends: a base, the row, the id of the row.\<close>

definition append_row :: "session_env \<Rightarrow> (entry_base \<Rightarrow> file_entry) \<Rightarrow> string store" where
  "append_row env mk s =
     (let (b, s1) = next_base env s in thn (append_entry env (mk b)) (ret (base_id b)) s1)"

definition append_message :: "session_env \<Rightarrow> session_message \<Rightarrow> string store" where
  "append_message env m = append_row env (FeMessage m)"

definition append_message_retained ::
    "session_env \<Rightarrow> session_message \<Rightarrow> session_manager \<Rightarrow> (string \<times> store_error option) \<times> session_manager" where
  "append_message_retained env m s =
     (let s0 = (case m of SmAssistant _ \<Rightarrow> s\<lparr>sm_has_assistant_entry := True\<rparr> | _ \<Rightarrow> s);
          (b, s1) = next_base env s0;
          (err, s2) = push_retained env (FeMessage m b) s1
      in ((base_id b, err), s2))"

definition append_thinking_level_change :: "session_env \<Rightarrow> string \<Rightarrow> string store" where
  "append_thinking_level_change env level = append_row env (FeThinkingLevelChange level)"

definition append_service_tier_change :: "session_env \<Rightarrow> service_tier option \<Rightarrow> string store" where
  "append_service_tier_change env tier = append_row env (FeServiceTierChange tier)"

definition append_model_change :: "session_env \<Rightarrow> string \<Rightarrow> string \<Rightarrow> string store" where
  "append_model_change env provider model_id =
     append_row env (FeModelChange \<lparr>mc_provider = provider, mc_model_id = model_id\<rparr>)"

definition append_compaction :: "session_env \<Rightarrow> compaction_entry \<Rightarrow> string store" where
  "append_compaction env p = append_row env (FeCompaction p)"

definition append_custom_entry :: "session_env \<Rightarrow> string \<Rightarrow> json option \<Rightarrow> string store" where
  "append_custom_entry env custom_type data =
     append_row env (FeCustom \<lparr>ce_custom_type = custom_type, ce_data = data, ce_rest = []\<rparr>)"

definition append_custom_entry_retained ::
    "session_env \<Rightarrow> string \<Rightarrow> json option \<Rightarrow> session_manager \<Rightarrow> (string \<times> store_error option) \<times> session_manager" where
  "append_custom_entry_retained env custom_type data s =
     (let (b, s1) = next_base env s;
          (err, s2) = push_retained env (FeCustom \<lparr>ce_custom_type = custom_type, ce_data = data, ce_rest = []\<rparr> b) s1
      in ((base_id b, err), s2))"

definition custom_message_row ::
    "string \<Rightarrow> ai_user_content \<Rightarrow> bool \<Rightarrow> json option \<Rightarrow> entry_base \<Rightarrow> file_entry" where
  "custom_message_row custom_type content display details =
     FeCustomMessage \<lparr>cme_custom_type = custom_type, cme_content = content, cme_details = details,
                      cme_display = display, cme_rest = []\<rparr>"

definition append_custom_message ::
    "session_env \<Rightarrow> string \<Rightarrow> ai_user_content \<Rightarrow> bool \<Rightarrow> json option \<Rightarrow> string store" where
  "append_custom_message env custom_type content display details =
     append_row env (custom_message_row custom_type content display details)"

definition append_custom_message_retained ::
    "session_env \<Rightarrow> string \<Rightarrow> ai_user_content \<Rightarrow> bool \<Rightarrow> json option \<Rightarrow> session_manager
     \<Rightarrow> (string \<times> store_error option) \<times> session_manager" where
  "append_custom_message_retained env custom_type content display details s =
     (let (b, s1) = next_base env s;
          (err, s2) = push_retained env (custom_message_row custom_type content display details b) s1
      in ((base_id b, err), s2))"

definition attribution_target :: "session_manager \<Rightarrow> string \<Rightarrow> nat option" where
  "attribution_target s target =
     (case sm_by_id s target of
        None \<Rightarrow> None
      | Some i \<Rightarrow> if is_assistant_entry (sm_file_entries s ! i) then Some i else None)"

definition append_child_usage_attribution ::
    "session_env \<Rightarrow> string \<Rightarrow> usage \<Rightarrow> usage \<Rightarrow> child_usage_origin option \<Rightarrow> string store" where
  "append_child_usage_attribution env target child aggregate origin s =
     (case attribution_target s target of
        None \<Rightarrow> (Inl (InvalidInput (''Assistant message entry '' @ target @ '' not found'')), s)
      | Some i \<Rightarrow>
          bnd (append_row env (FeChildUsageAttributed
                 \<lparr>cua_target_id = target, cua_child_usage = child, cua_aggregate_usage = aggregate,
                  cua_origin = origin\<rparr>))
            (\<lambda>x. thn (upd (\<lambda>s. s\<lparr>sm_file_entries :=
                       (sm_file_entries s)[i := set_usage aggregate (sm_file_entries s ! i)]\<rparr>))
                   (ret x)) s)"

definition append_session_info :: "session_env \<Rightarrow> string \<Rightarrow> string store" where
  "append_session_info env name = append_row env (FeSessionInfo (Some (trim name)))"

definition append_session_state :: "session_env \<Rightarrow> session_status \<Rightarrow> string store" where
  "append_session_state env status = append_row env (FeSessionState status)"

definition append_git_state :: "session_env \<Rightarrow> git_context \<Rightarrow> string store" where
  "append_git_state env git = append_row env (FeGitState git)"

definition set_leaf_id :: "string option \<Rightarrow> session_manager \<Rightarrow> session_manager" where
  "set_leaf_id leaf s = s\<lparr>sm_leaf_id := leaf\<rparr>"

section \<open>Branches and labels\<close>

text \<open>\<open>get_entry_by_id\<close>: the index leads into the list, out of its range Rust panics.\<close>

definition get_entry_by_id :: "session_manager \<Rightarrow> string \<Rightarrow> file_entry option" where
  "get_entry_by_id s x = (case sm_by_id s x of None \<Rightarrow> None | Some i \<Rightarrow> Some (sm_file_entries s ! i))"

definition append_label_change :: "session_env \<Rightarrow> string \<Rightarrow> string option \<Rightarrow> string store" where
  "append_label_change env target label s =
     (if get_entry_by_id s target = None then (Inl (Panic (''Entry '' @ target @ '' not found'')), s)
      else
        let (b, s1) = next_base env s;
            timestamp = (case eb_timestamp b of None \<Rightarrow> [] | Some t \<Rightarrow> t)
        in thn (append_entry env (FeLabel \<lparr>le_target_id = target, le_label = label\<rparr> b))
             (thn (upd (apply_label_entry target label timestamp)) (ret (base_id b))) s1)"

definition branch :: "string \<Rightarrow> unit store" where
  "branch from_id s =
     (if get_entry_by_id s from_id = None then (Inl (Panic (''Entry '' @ from_id @ '' not found'')), s)
      else (Inr (), set_leaf_id (Some from_id) s))"

definition reset_leaf :: "session_manager \<Rightarrow> session_manager" where
  "reset_leaf s = set_leaf_id None s"

definition branch_with_summary ::
    "session_env \<Rightarrow> string option \<Rightarrow> string \<Rightarrow> json option \<Rightarrow> bool option \<Rightarrow> usage option \<Rightarrow> string store" where
  "branch_with_summary env from_id summary details from_hook use s =
     (let previous_leaf = sm_leaf_id s in
      if from_id \<noteq> None \<and> get_entry_by_id s (the from_id) = None
      then (Inl (Panic (''Entry '' @ the from_id @ '' not found'')), s)
      else
        let s1 = set_leaf_id from_id s;
            (b, s2) = next_base env s1;
            row = FeBranchSummary
              \<lparr>bse_from_id = (case from_id of None \<Rightarrow> ''root'' | Some x \<Rightarrow> x), bse_summary = summary,
               bse_details = details, bse_from_hook = from_hook, bse_usage = use\<rparr> b
        in case append_entry env row s2 of
             (Inl err, s3) \<Rightarrow> (Inl err, set_leaf_id previous_leaf s3)
           | (Inr _, s3) \<Rightarrow> (Inr (base_id b), s3))"

end
