(* ===== verification/SessionInv.thy ===== *)
theory SessionInv
  imports SessionStore
begin

text \<open>
  The invariant of the session writer and the effect of its appends: whatever the disk does, the
  rows, their index and the leaf stay consistent, a strict append that fails leaves them as they
  were, and one that succeeds extends the active branch by its row.
\<close>

section \<open>The invariant\<close>

definition row_id :: "file_entry \<Rightarrow> string option" where
  "row_id e = (if is_header e then None else entry_id e)"

text \<open>The index leads every row id to its one row.\<close>

definition index_ok :: "file_entry list \<Rightarrow> (string \<rightharpoonup> nat) \<Rightarrow> bool" where
  "index_ok es m \<longleftrightarrow> (\<forall>x i. m x = Some i \<longleftrightarrow> i < length es \<and> row_id (es ! i) = Some x)"

text \<open>The parent of a row is an earlier row.\<close>

definition links_ok :: "file_entry list \<Rightarrow> (string \<rightharpoonup> nat) \<Rightarrow> bool" where
  "links_ok es m \<longleftrightarrow>
     (\<forall>i < length es. case entry_parent_id (es ! i) of
        None \<Rightarrow> True | Some p \<Rightarrow> (\<exists>j < i. m p = Some j))"

definition leaf_ok :: "session_manager \<Rightarrow> bool" where
  "leaf_ok s \<longleftrightarrow> (\<forall>x. sm_leaf_id s = Some x \<longrightarrow> sm_by_id s x \<noteq> None)"

definition ids_fresh :: "session_env \<Rightarrow> session_manager \<Rightarrow> bool" where
  "ids_fresh env s \<longleftrightarrow> (\<forall>k \<ge> sm_draws s. sm_by_id s (ev_uuid env k) = None)"

definition header_front :: "file_entry list \<Rightarrow> bool" where
  "header_front es \<longleftrightarrow> (\<forall>i < length es. is_header (es ! i) \<longrightarrow> i = 0)"

definition manager_ok :: "session_env \<Rightarrow> session_manager \<Rightarrow> bool" where
  "manager_ok env s \<longleftrightarrow>
     uuid_ok (ev_uuid env) \<and> header_front (sm_file_entries s) \<and> index_ok (sm_file_entries s) (sm_by_id s)
     \<and> links_ok (sm_file_entries s) (sm_by_id s) \<and> leaf_ok s \<and> ids_fresh env s"

text \<open>What a disk write leaves alone.\<close>

definition same_rows :: "session_manager \<Rightarrow> session_manager \<Rightarrow> bool" where
  "same_rows s s' \<longleftrightarrow>
     sm_file_entries s' = sm_file_entries s \<and> sm_by_id s' = sm_by_id s \<and> sm_leaf_id s' = sm_leaf_id s
     \<and> sm_labels_by_id s' = sm_labels_by_id s
     \<and> sm_label_timestamps_by_id s' = sm_label_timestamps_by_id s
     \<and> sm_session_file s' = sm_session_file s \<and> sm_persist s' = sm_persist s
     \<and> sm_session_id s' = sm_session_id s \<and> sm_draws s' = sm_draws s"

named_theorems store_defs \<open>the definitions a disk write unfolds to\<close>

declare try_rewrite_file_def [store_defs] append_cached_def [store_defs] persist_entry_def [store_defs]
  flush_now_def [store_defs] notify_persist_listeners_def [store_defs] spend_outcome_def [store_defs]

lemma same_rows_refl [simp]: "same_rows s s"
  by (simp add: same_rows_def)

lemma same_rows_trans: "same_rows a b \<Longrightarrow> same_rows b c \<Longrightarrow> same_rows a c"
  by (simp add: same_rows_def)

lemma try_rewrite_same_rows: "try_rewrite_file env s = (r, s') \<Longrightarrow> same_rows s s'"
  by (auto simp: store_defs same_rows_def split: option.splits if_splits io_outcome.splits)

lemma append_cached_same_rows: "append_cached f l s = (r, s') \<Longrightarrow> same_rows s s'"
  by (auto simp: store_defs same_rows_def split: option.splits if_splits io_outcome.splits)

lemma notify_same_rows: "same_rows s (notify_persist_listeners s)"
  by (auto simp: store_defs same_rows_def split: option.splits)

lemma persist_entry_same_rows:
  assumes "persist_entry env i s = (r, s')"
  shows "same_rows s s'"
proof -
  have rewrite: "same_rows s s'" if "thn (try_rewrite_file env) (upd (\<lambda>s. s\<lparr>sm_flushed := True\<rparr>)) s = (r, s')"
  proof (cases "try_rewrite_file env s")
    case (Pair r1 s1)
    with try_rewrite_same_rows[OF this] that show ?thesis
      by (auto simp: mon_simps same_rows_def split: sum.splits)
  qed
  have append: "same_rows s s'"
    if "thn (append_cached f l) (upd notify_persist_listeners) s = (r, s')" for f l
  proof (cases "append_cached f l s")
    case (Pair r1 s1)
    with append_cached_same_rows[OF this] that notify_same_rows[of s1] show ?thesis
      by (auto simp: mon_simps split: sum.splits dest: same_rows_trans)
  qed
  from assms rewrite append show ?thesis
    unfolding persist_entry_def by (auto simp: same_rows_def split: option.splits if_splits)
qed

lemma flush_now_same_rows: "flush_now env s = (r, s') \<Longrightarrow> same_rows s s'"
proof (cases "try_rewrite_file env s")
  case (Pair r1 s1)
  moreover assume "flush_now env s = (r, s')"
  ultimately show ?thesis using try_rewrite_same_rows[OF Pair]
    by (auto simp: flush_now_def mon_simps same_rows_def split: sum.splits if_splits)
qed

section \<open>What an append does to the rows\<close>

lemma append_entry_ok:
  assumes "append_entry env e s = (Inr x, s')" and "entry_id e = Some i"
  shows "sm_file_entries s' = sm_file_entries s @ [e]"
    and "sm_by_id s' = (sm_by_id s)(i \<mapsto> length (sm_file_entries s))"
    and "sm_leaf_id s' = Some i" and "sm_draws s' = sm_draws s"
    and "sm_session_file s' = sm_session_file s" and "sm_persist s' = sm_persist s"
    and "sm_labels_by_id s' = sm_labels_by_id s"
    and "sm_label_timestamps_by_id s' = sm_label_timestamps_by_id s"
proof -
  define s2 where "s2 = (if is_assistant_entry e then s\<lparr>sm_has_assistant_entry := True\<rparr> else s)
    \<lparr>sm_file_entries := sm_file_entries s @ [e]\<rparr>"
  obtain r s3 where p: "persist_entry env (length (sm_file_entries s)) s2 = (r, s3)" by fastforce
  from persist_entry_same_rows[OF p] have same: "same_rows s2 s3" .
  from assms(1) p have "r = Inr ()" and s': "s' = index_new_row (sm_file_entries s3 ! length (sm_file_entries s)) (length (sm_file_entries s)) s3"
    by (auto simp: append_entry_def Let_def s2_def split: sum.splits if_splits)
  have "sm_file_entries s3 ! length (sm_file_entries s) = e" using same by (simp add: same_rows_def s2_def)
  then have "s' = s3\<lparr>sm_by_id := (sm_by_id s3)(i \<mapsto> length (sm_file_entries s)), sm_leaf_id := Some i\<rparr>"
    using s' assms(2) by (simp add: index_new_row_def)
  with same show "sm_file_entries s' = sm_file_entries s @ [e]"
    and "sm_by_id s' = (sm_by_id s)(i \<mapsto> length (sm_file_entries s))"
    and "sm_leaf_id s' = Some i" and "sm_draws s' = sm_draws s"
    and "sm_session_file s' = sm_session_file s" and "sm_persist s' = sm_persist s"
    and "sm_labels_by_id s' = sm_labels_by_id s"
    and "sm_label_timestamps_by_id s' = sm_label_timestamps_by_id s"
    by (simp_all add: same_rows_def s2_def)
qed

text \<open>A strict append that fails is rolled back.\<close>

lemma append_entry_error:
  assumes "append_entry env e s = (Inl err, s')"
  shows "same_rows s s'" and "sm_has_assistant_entry s' = sm_has_assistant_entry s"
    and "sm_flushed s' = sm_flushed s"
proof -
  define s2 where "s2 = (if is_assistant_entry e then s\<lparr>sm_has_assistant_entry := True\<rparr> else s)
    \<lparr>sm_file_entries := sm_file_entries s @ [e]\<rparr>"
  obtain r s3 where p: "persist_entry env (length (sm_file_entries s)) s2 = (r, s3)" by fastforce
  from persist_entry_same_rows[OF p] have same: "same_rows s2 s3" .
  from assms p have "s' = s3\<lparr>sm_file_entries := butlast (sm_file_entries s3),
      sm_has_assistant_entry := sm_has_assistant_entry s, sm_flushed := sm_flushed s\<rparr>"
    by (auto simp: append_entry_def Let_def s2_def split: sum.splits if_splits)
  with same show "same_rows s s'" and "sm_has_assistant_entry s' = sm_has_assistant_entry s"
    and "sm_flushed s' = sm_flushed s"
    by (simp_all add: same_rows_def s2_def)
qed

lemma push_retained_effect:
  assumes "push_retained env e s = (err, s')" and "entry_id e = Some i"
  shows "sm_file_entries s' = sm_file_entries s @ [e]"
    and "sm_by_id s' = (sm_by_id s)(i \<mapsto> length (sm_file_entries s))"
    and "sm_leaf_id s' = Some i" and "sm_draws s' = sm_draws s"
proof -
  define s2 where "s2 = s\<lparr>sm_file_entries := sm_file_entries s @ [e]\<rparr>"
  obtain r s3 where p: "persist_entry env (length (sm_file_entries s)) s2 = (r, s3)" by fastforce
  from persist_entry_same_rows[OF p] have same: "same_rows s2 s3" .
  have "sm_file_entries s3 ! length (sm_file_entries s) = e" using same by (simp add: same_rows_def s2_def)
  with assms p have "s' = s3\<lparr>sm_by_id := (sm_by_id s3)(i \<mapsto> length (sm_file_entries s)), sm_leaf_id := Some i\<rparr>"
    by (auto simp: push_retained_def Let_def s2_def index_new_row_def)
  with same show "sm_file_entries s' = sm_file_entries s @ [e]"
    and "sm_by_id s' = (sm_by_id s)(i \<mapsto> length (sm_file_entries s))"
    and "sm_leaf_id s' = Some i" and "sm_draws s' = sm_draws s"
    by (simp_all add: same_rows_def s2_def)
qed

section \<open>Appends keep the invariant\<close>

text \<open>The base of a row that fits the manager: a fresh id, the leaf as its parent.\<close>

definition fits :: "session_env \<Rightarrow> entry_base \<Rightarrow> session_manager \<Rightarrow> bool" where
  "fits env b s \<longleftrightarrow>
     (\<exists>i. eb_id b = Some i \<and> sm_by_id s i = None \<and> (\<forall>k \<ge> sm_draws s. ev_uuid env k \<noteq> i))
     \<and> eb_parent_id b = sm_leaf_id s"

lemma manager_ok_same_rows: "same_rows s s' \<Longrightarrow> manager_ok env s \<Longrightarrow> manager_ok env s'"
  by (simp add: same_rows_def manager_ok_def leaf_ok_def ids_fresh_def)

lemma next_base_fits:
  assumes "manager_ok env s" and "next_base env s = (b, s')"
  shows "fits env b s'" and "manager_ok env s'"
    and "s' = s\<lparr>sm_draws := sm_draws s', sm_ticks := Suc (sm_ticks s)\<rparr>"
proof -
  obtain i d where g: "generate_id (ev_uuid env) (\<lambda>x. sm_by_id s x \<noteq> None) (sm_draws s) = (i, d)" by fastforce
  have u: "uuid_ok (ev_uuid env)" and fresh: "\<forall>k \<ge> sm_draws s. sm_by_id s (ev_uuid env k) = None"
    using assms(1) by (auto simp: manager_ok_def ids_fresh_def)
  have loop: "sm_by_id s i = None \<and> sm_draws s \<le> d \<and> (\<forall>k \<ge> d. ev_uuid env k \<noteq> i)"
    if "generate_id_loop (ev_uuid env) (\<lambda>x. sm_by_id s x \<noteq> None) n tries = (i, d)" and "sm_draws s \<le> n" for n tries
    using that
  proof (induction tries arbitrary: n)
    case 0
    then have "i = ev_uuid env n" "d = Suc n" by auto
    moreover have "\<forall>k \<ge> Suc n. ev_uuid env k \<noteq> ev_uuid env n"
      using u by (auto simp: uuid_ok_def inj_eq)
    ultimately show ?case using fresh 0 by auto
  next
    case (Suc tries)
    define short where "short = take 8 (filter (\<lambda>c. c \<noteq> CHR ''-'') (ev_uuid env n))"
    show ?case
    proof (cases "sm_by_id s short = None")
      case True
      with Suc.prems have "i = short" "d = Suc n" by (auto simp: Let_def short_def)
      moreover have "length short \<le> 8" by (simp add: short_def)
      then have "ev_uuid env k \<noteq> short" for k using u by (auto simp: uuid_ok_def dest!: spec[of _ k])
      ultimately show ?thesis using True Suc.prems by auto
    next
      case False
      then have "\<exists>y. sm_by_id s short = Some y" by auto
      with Suc.prems have "generate_id_loop (ev_uuid env) (\<lambda>x. sm_by_id s x \<noteq> None) (Suc n) tries = (i, d)"
        by (auto simp: Let_def short_def)
      with Suc.IH[of "Suc n"] Suc.prems show ?thesis by simp
    qed
  qed
  from loop[of "sm_draws s" 100] g have i: "sm_by_id s i = None" "sm_draws s \<le> d" "\<forall>k \<ge> d. ev_uuid env k \<noteq> i"
    by (auto simp: generate_id_def)
  have s': "s' = s\<lparr>sm_draws := d, sm_ticks := Suc (sm_ticks s)\<rparr>" and b: "eb_id b = Some i" "eb_parent_id b = sm_leaf_id s"
    using assms(2) g by (auto simp: next_base_def)
  show "fits env b s'" using i b by (simp add: fits_def s')
  show "manager_ok env s'" using assms(1) i(2) by (auto simp: manager_ok_def s' leaf_ok_def ids_fresh_def)
  show "s' = s\<lparr>sm_draws := sm_draws s', sm_ticks := Suc (sm_ticks s)\<rparr>" by (simp add: s')
qed

text \<open>Adding a fitting row to the rows, the index and the leaf keeps the invariant.\<close>

lemma manager_ok_row:
  assumes "manager_ok env s" and "fits env b s" and "entry_base_of e = Some b"
    and "eb_id b = Some i" and "sm_file_entries s' = sm_file_entries s @ [e]"
    and "sm_by_id s' = (sm_by_id s)(i \<mapsto> length (sm_file_entries s))"
    and "sm_leaf_id s' = Some i" and "sm_draws s' = sm_draws s"
  shows "manager_ok env s'"
proof -
  have e: "entry_id e = Some i" "entry_parent_id e = sm_leaf_id s" "\<not> is_header e"
    using assms(2-4) by (auto simp: entry_id_based entry_parent_based fits_def) (cases e; simp)
  have new: "sm_by_id s i = None" "\<forall>k \<ge> sm_draws s. ev_uuid env k \<noteq> i" using assms(2,4) by (auto simp: fits_def)
  have ok: "index_ok (sm_file_entries s) (sm_by_id s)" "links_ok (sm_file_entries s) (sm_by_id s)" "leaf_ok s"
    "ids_fresh env s" "uuid_ok (ev_uuid env)"
    using assms(1) by (auto simp: manager_ok_def)
  have front: "header_front (sm_file_entries s')"
    using assms(1) e(3) by (auto simp: manager_ok_def header_front_def assms(5) nth_append)
  have no_i: "row_id (sm_file_entries s ! j) \<noteq> Some i" if "j < length (sm_file_entries s)" for j
    using ok(1) new(1) that unfolding index_ok_def by (metis option.distinct(1))
  have "index_ok (sm_file_entries s') (sm_by_id s')"
    unfolding index_ok_def
  proof (intro allI)
    fix x j
    show "sm_by_id s' x = Some j \<longleftrightarrow> j < length (sm_file_entries s') \<and> row_id (sm_file_entries s' ! j) = Some x"
    proof (cases "j = length (sm_file_entries s)")
      case True
      have "sm_by_id s x \<noteq> Some (length (sm_file_entries s))" using ok(1) by (auto simp: index_ok_def)
      with True e show ?thesis by (auto simp: assms(5,6) row_id_def)
    next
      case False
      then show ?thesis using ok(1) no_i by (auto simp: assms(5,6) index_ok_def nth_append)
    qed
  qed
  moreover have "links_ok (sm_file_entries s') (sm_by_id s')"
    unfolding links_ok_def
  proof (intro allI impI)
    fix j assume "j < length (sm_file_entries s')"
    then consider "j < length (sm_file_entries s)" | "j = length (sm_file_entries s)"
      by (auto simp: assms(5) less_Suc_eq)
    then show "case entry_parent_id (sm_file_entries s' ! j) of None \<Rightarrow> True | Some p \<Rightarrow> \<exists>k < j. sm_by_id s' p = Some k"
    proof cases
      case 1
      with ok(2) new(1) show ?thesis
        by (fastforce simp: links_ok_def assms(5,6) nth_append split: option.splits)
    next
      case 2
      show ?thesis
      proof (cases "sm_leaf_id s")
        case (Some p)
        with ok(3) obtain k where k: "sm_by_id s p = Some k" by (auto simp: leaf_ok_def)
        then have "k < length (sm_file_entries s)" using ok(1) by (auto simp: index_ok_def)
        with 2 k new(1) Some e(2) show ?thesis by (auto simp: assms(5,6))
      qed (use 2 e in \<open>simp add: assms(5)\<close>)
    qed
  qed
  ultimately show ?thesis
    using ok new front by (simp add: manager_ok_def leaf_ok_def ids_fresh_def assms(6,7,8))
qed

text \<open>The rows a strict append makes carry the base they are given.\<close>

definition makes_row :: "(entry_base \<Rightarrow> file_entry) \<Rightarrow> bool" where
  "makes_row mk \<longleftrightarrow> (\<forall>b. entry_base_of (mk b) = Some b)"

lemma makes_row_simps [simp]:
  "makes_row (FeMessage m)" "makes_row (FeThinkingLevelChange l)" "makes_row (FeServiceTierChange t)"
  "makes_row (FeModelChange p)" "makes_row (FeCompaction c)" "makes_row (FeCustom u)"
  "makes_row (FeChildUsageAttributed a)" "makes_row (FeSessionInfo n)" "makes_row (FeSessionState st)"
  "makes_row (FeGitState g)" "makes_row (FeLabel la)" "makes_row (FeBranchSummary bs)"
  "makes_row (custom_message_row ct co di de)"
  by (simp_all add: makes_row_def custom_message_row_def)

lemma append_entry_keeps:
  assumes "manager_ok env s" and "fits env b s" and "entry_base_of e = Some b"
    and "append_entry env e s = (r, s')"
  shows "manager_ok env s'"
proof (cases r)
  case (Inl err)
  with append_entry_error(1)[of env e s err s'] assms(1,4) show ?thesis by (blast intro: manager_ok_same_rows)
next
  case (Inr u)
  obtain i where i: "eb_id b = Some i" using assms(2) by (auto simp: fits_def)
  then have "entry_id e = Some i" using assms(3) by (simp add: entry_id_based)
  from append_entry_ok[OF assms(4)[unfolded Inr] this] show ?thesis
    by (intro manager_ok_row[OF assms(1-3) i])
qed

lemma append_row_keeps:
  assumes "manager_ok env s" and "makes_row mk" and "append_row env mk s = (r, s')"
  shows "manager_ok env s'"
proof -
  obtain b s1 where nb: "next_base env s = (b, s1)" by fastforce
  obtain r1 s2 where ae: "append_entry env (mk b) s1 = (r1, s2)" by fastforce
  have "manager_ok env s2"
    using append_entry_keeps[OF next_base_fits(2,1)[OF assms(1) nb] _ ae] assms(2) by (simp add: makes_row_def)
  moreover have "s' = s2" using assms(3) nb ae by (auto simp: append_row_def mon_simps split: sum.splits)
  ultimately show ?thesis by simp
qed

lemma push_retained_keeps:
  assumes "manager_ok env s" and "next_base env s = (b, s1)" and "entry_base_of e = Some b"
    and "push_retained env e s1 = (err, s')"
  shows "manager_ok env s'"
proof -
  note fit = next_base_fits[OF assms(1,2)]
  obtain i where i: "eb_id b = Some i" using fit(1) by (auto simp: fits_def)
  then have "entry_id e = Some i" using assms(3) by (simp add: entry_id_based)
  from push_retained_effect[OF assms(4) this] show ?thesis
    by (intro manager_ok_row[OF fit(2,1) assms(3) i])
qed

lemma manager_ok_flag: "manager_ok env s \<Longrightarrow> manager_ok env (s\<lparr>sm_has_assistant_entry := v\<rparr>)"
  by (simp add: manager_ok_def leaf_ok_def ids_fresh_def)

lemma set_usage_links [simp]:
  "row_id (set_usage u e) = row_id e" "entry_parent_id (set_usage u e) = entry_parent_id e"
  "is_header (set_usage u e) = is_header e"
  by (cases e rule: is_assistant_entry.cases; simp add: set_usage_def row_id_def entry_id_def entry_parent_id_def)+

lemma manager_ok_usage:
  assumes "manager_ok env s"
  shows "manager_ok env (s\<lparr>sm_file_entries := (sm_file_entries s)[i := set_usage u (sm_file_entries s ! i)]\<rparr>)"
proof -
  have "row_id ((sm_file_entries s)[i := set_usage u (sm_file_entries s ! i)] ! j) = row_id (sm_file_entries s ! j)"
    "entry_parent_id ((sm_file_entries s)[i := set_usage u (sm_file_entries s ! i)] ! j)
      = entry_parent_id (sm_file_entries s ! j)"
    "is_header ((sm_file_entries s)[i := set_usage u (sm_file_entries s ! i)] ! j) = is_header (sm_file_entries s ! j)"
    if "j < length (sm_file_entries s)" for j
    using that by (cases "i = j"; simp)+
  with assms show ?thesis
    by (simp add: manager_ok_def leaf_ok_def ids_fresh_def index_ok_def links_ok_def header_front_def cong: conj_cong)
qed

section \<open>Operations\<close>

text \<open>
  The operations a client can ask for; \<open>perform\<close> runs one and drops its result. An assertion that
  fails leaves the manager as it was.
\<close>

datatype session_op =
    OpMessage session_message
  | OpMessageRetained session_message
  | OpThinkingLevel string
  | OpServiceTier "service_tier option"
  | OpModel string string
  | OpCompaction compaction_entry
  | OpCustom string "json option"
  | OpCustomRetained string "json option"
  | OpCustomMessage string ai_user_content bool "json option"
  | OpCustomMessageRetained string ai_user_content bool "json option"
  | OpChildUsage string usage usage "child_usage_origin option"
  | OpInfo string
  | OpState session_status
  | OpGit git_context
  | OpLabel string "string option"
  | OpBranch string
  | OpResetLeaf
  | OpBranchSummary "string option" string "json option" "bool option" "usage option"
  | OpFlush

fun perform :: "session_env \<Rightarrow> session_op \<Rightarrow> session_manager \<Rightarrow> session_manager" where
  "perform env (OpMessage m) s = snd (append_message env m s)"
| "perform env (OpMessageRetained m) s = snd (append_message_retained env m s)"
| "perform env (OpThinkingLevel l) s = snd (append_thinking_level_change env l s)"
| "perform env (OpServiceTier t) s = snd (append_service_tier_change env t s)"
| "perform env (OpModel p m) s = snd (append_model_change env p m s)"
| "perform env (OpCompaction c) s = snd (append_compaction env c s)"
| "perform env (OpCustom t d) s = snd (append_custom_entry env t d s)"
| "perform env (OpCustomRetained t d) s = snd (append_custom_entry_retained env t d s)"
| "perform env (OpCustomMessage t c di de) s = snd (append_custom_message env t c di de s)"
| "perform env (OpCustomMessageRetained t c di de) s = snd (append_custom_message_retained env t c di de s)"
| "perform env (OpChildUsage x c a og) s = snd (append_child_usage_attribution env x c a og s)"
| "perform env (OpInfo n) s = snd (append_session_info env n s)"
| "perform env (OpState st) s = snd (append_session_state env st s)"
| "perform env (OpGit g) s = snd (append_git_state env g s)"
| "perform env (OpLabel x l) s = snd (append_label_change env x l s)"
| "perform env (OpBranch x) s = snd (branch x s)"
| "perform env OpResetLeaf s = reset_leaf s"
| "perform env (OpBranchSummary f t d h u) s = snd (branch_with_summary env f t d h u s)"
| "perform env OpFlush s = snd (flush_now env s)"

section \<open>The invariant of every operation\<close>

lemma append_retained_keeps:
  assumes "manager_ok env s" and "makes_row mk"
  shows "manager_ok env (snd (let (b, s1) = next_base env s; (err, s2) = push_retained env (mk b) s1
                              in ((base_id b, err), s2)))"
proof -
  obtain b s1 where nb: "next_base env s = (b, s1)" by fastforce
  obtain err s2 where pr: "push_retained env (mk b) s1 = (err, s2)" by fastforce
  from push_retained_keeps[OF assms(1) nb _ pr] assms(2) nb pr show ?thesis by (simp add: makes_row_def)
qed

lemma child_usage_keeps:
  assumes "manager_ok env s"
  shows "manager_ok env (snd (append_child_usage_attribution env x c a og s))"
proof (cases "attribution_target s x")
  case (Some i)
  define mk where "mk = FeChildUsageAttributed
    \<lparr>cua_target_id = x, cua_child_usage = c, cua_aggregate_usage = a, cua_origin = og\<rparr>"
  obtain r s1 where ar: "append_row env mk s = (r, s1)" by fastforce
  have "manager_ok env s1" using append_row_keeps[OF assms _ ar] by (simp add: mk_def)
  with Some ar manager_ok_usage[of env s1 i a] show ?thesis
    by (cases r) (simp_all add: append_child_usage_attribution_def mon_simps mk_def)
qed (use assms in \<open>simp add: append_child_usage_attribution_def\<close>)

lemma manager_ok_labels:
  "manager_ok env (apply_label_entry x l t s) = manager_ok env s"
  by (cases l) (simp_all add: apply_label_entry_def manager_ok_def leaf_ok_def ids_fresh_def)

lemma label_keeps:
  assumes "manager_ok env s"
  shows "manager_ok env (snd (append_label_change env x l s))"
proof (cases "get_entry_by_id s x = None")
  case False
  obtain b s1 where nb: "next_base env s = (b, s1)" by fastforce
  obtain r s2 where ae: "append_entry env (FeLabel \<lparr>le_target_id = x, le_label = l\<rparr> b) s1 = (r, s2)" by fastforce
  have "manager_ok env s2"
    using append_entry_keeps[OF next_base_fits(2,1)[OF assms nb] _ ae] by simp
  with False nb ae show ?thesis
    by (cases r) (auto simp: append_label_change_def mon_simps manager_ok_labels Let_def)
qed (use assms in \<open>simp add: append_label_change_def\<close>)

lemma set_leaf_keeps:
  "manager_ok env s \<Longrightarrow> (\<And>x. leaf = Some x \<Longrightarrow> sm_by_id s x \<noteq> None) \<Longrightarrow> manager_ok env (set_leaf_id leaf s)"
  by (simp add: manager_ok_def leaf_ok_def ids_fresh_def set_leaf_id_def)

lemma get_entry_known: "get_entry_by_id s x \<noteq> None \<Longrightarrow> sm_by_id s x \<noteq> None"
  by (auto simp: get_entry_by_id_def split: option.splits)

lemma branch_summary_keeps:
  assumes "manager_ok env s"
  shows "manager_ok env (snd (branch_with_summary env f t d h u s))"
proof (cases "f \<noteq> None \<and> get_entry_by_id s (the f) = None")
  case True
  with assms show ?thesis by (auto simp: branch_with_summary_def Let_def)
next
  case False
  then have ok1: "manager_ok env (set_leaf_id f s)"
    using assms get_entry_known[of s "the f"] by (intro set_leaf_keeps) auto
  obtain b s2 where nb: "next_base env (set_leaf_id f s) = (b, s2)" by fastforce
  define row where "row = FeBranchSummary
    \<lparr>bse_from_id = (case f of None \<Rightarrow> ''root'' | Some x \<Rightarrow> x), bse_summary = t,
     bse_details = d, bse_from_hook = h, bse_usage = u\<rparr> b"
  obtain r s3 where ae: "append_entry env row s2 = (r, s3)" by fastforce
  note fit = next_base_fits[OF ok1 nb]
  have ok3: "manager_ok env s3" using append_entry_keeps[OF fit(2,1) _ ae] by (simp add: row_def)
  have leaf: "sm_by_id s3 x \<noteq> None" if "r = Inl e" and "sm_leaf_id s = Some x" for e x
  proof -
    have "sm_by_id s2 = sm_by_id s" using arg_cong[OF fit(3), of sm_by_id] by (simp add: set_leaf_id_def)
    moreover have "sm_by_id s3 = sm_by_id s2"
      using append_entry_error(1)[OF ae[unfolded that(1)]] by (simp add: same_rows_def)
    ultimately have "sm_by_id s3 = sm_by_id s" by simp
    with assms that(2) show ?thesis by (simp add: manager_ok_def leaf_ok_def)
  qed
  show ?thesis
  proof (cases r)
    case (Inl e)
    with False nb ae have "snd (branch_with_summary env f t d h u s) = set_leaf_id (sm_leaf_id s) s3"
      by (auto simp: branch_with_summary_def Let_def row_def)
    with set_leaf_keeps[OF ok3 leaf[OF Inl]] show ?thesis by simp
  next
    case (Inr v)
    with False nb ae ok3 show ?thesis by (auto simp: branch_with_summary_def Let_def row_def)
  qed
qed

lemma message_retained_keeps:
  assumes "manager_ok env s"
  shows "manager_ok env (snd (append_message_retained env m s))"
proof -
  define s0 where "s0 = (case m of SmAssistant _ \<Rightarrow> s\<lparr>sm_has_assistant_entry := True\<rparr> | _ \<Rightarrow> s)"
  have "manager_ok env s0" using assms by (cases m) (simp_all add: s0_def manager_ok_flag)
  from append_retained_keeps[OF this, of "FeMessage m"] show ?thesis
    by (simp add: append_message_retained_def s0_def)
qed

lemmas strict_append_defs =
  append_message_def append_thinking_level_change_def append_service_tier_change_def
  append_model_change_def append_compaction_def append_custom_entry_def append_custom_message_def
  append_session_info_def append_session_state_def append_git_state_def

lemma strict_append_keeps:
  "manager_ok env s \<Longrightarrow> makes_row mk \<Longrightarrow> manager_ok env (snd (append_row env mk s))"
  by (cases "append_row env mk s") (auto dest: append_row_keeps)

text \<open>
  Every operation keeps the invariant, whatever the disk answers: the index leads each row id to its
  one row, every parent is an earlier row, the leaf is a row of the file or none, and the ids still
  to be drawn are not in use.
\<close>

lemma perform_keeps:
  assumes "manager_ok env s"
  shows "manager_ok env (perform env operation s)"
proof (cases operation)
  case (OpBranch x)
  with assms get_entry_known[of s x] show ?thesis
    by (auto simp: branch_def intro!: set_leaf_keeps)
next
  case OpResetLeaf
  with set_leaf_keeps[OF assms, of None] show ?thesis by (simp add: reset_leaf_def)
next
  case OpFlush
  obtain r s' where "flush_now env s = (r, s')" by fastforce
  with flush_now_same_rows[OF this] assms OpFlush show ?thesis by (auto intro: manager_ok_same_rows)
next
  case (OpCustomRetained t d)
  with append_retained_keeps[OF assms, of "FeCustom \<lparr>ce_custom_type = t, ce_data = d, ce_rest = []\<rparr>"]
  show ?thesis by (simp add: append_custom_entry_retained_def)
next
  case (OpCustomMessageRetained t c di de)
  with append_retained_keeps[OF assms, of "custom_message_row t c di de"]
  show ?thesis by (simp add: append_custom_message_retained_def)
qed (use assms in \<open>simp_all add: strict_append_defs strict_append_keeps message_retained_keeps
      child_usage_keeps label_keeps branch_summary_keeps\<close>)

end
