(* ===== verification/SessionQueries.thy ===== *)
theory SessionQueries
  imports SessionInv
begin

text \<open>
  The reads of the session manager (\<open>manager/queries.rs\<close> and the read half of \<open>manager_ext.rs\<close>),
  for a manager without a windowed store: the active branch and what is looked up on it, the context
  handed to the model, labels, names and the views of the tree.
\<close>

section \<open>The active branch\<close>

definition active_branch :: "session_manager \<Rightarrow> nat list" where
  "active_branch s =
     rev (walk (parent_index (sm_file_entries s) (sm_by_id s)) (length (sm_file_entries s)) []
            (case sm_leaf_id s of None \<Rightarrow> None | Some x \<Rightarrow> sm_by_id s x))"

definition active_branch_entries :: "session_manager \<Rightarrow> file_entry list" where
  "active_branch_entries s = map (\<lambda>i. sm_file_entries s ! i) (active_branch s)"

definition active_context :: "session_manager \<Rightarrow> session_context" where
  "active_context s = build_session_context (sm_file_entries s) (sm_leaf_id s)"

fun is_thinking_level :: "file_entry \<Rightarrow> bool" where
  "is_thinking_level (FeThinkingLevelChange _ _) = True"
| "is_thinking_level _ = False"

fun is_service_tier :: "file_entry \<Rightarrow> bool" where
  "is_service_tier (FeServiceTierChange _ _) = True"
| "is_service_tier _ = False"

definition has_thinking_level :: "session_manager \<Rightarrow> bool" where
  "has_thinking_level s = list_ex is_thinking_level (active_branch_entries s)"

definition has_service_tier :: "session_manager \<Rightarrow> bool" where
  "has_service_tier s = list_ex is_service_tier (active_branch_entries s)"

text \<open>\<open>iter().rev().find_map(f)\<close>\<close>

definition find_map_rev :: "('a \<Rightarrow> 'b option) \<Rightarrow> 'a list \<Rightarrow> 'b option" where
  "find_map_rev f xs = (case List.map_filter f (rev xs) of [] \<Rightarrow> None | y # _ \<Rightarrow> Some y)"

fun git_of :: "file_entry \<Rightarrow> git_context option" where
  "git_of (FeGitState g _) = Some g"
| "git_of _ = None"

definition latest_git_context :: "session_manager \<Rightarrow> git_context option" where
  "latest_git_context s = find_map_rev git_of (active_branch_entries s)"

fun is_bootstrap :: "file_entry \<Rightarrow> bool" where
  "is_bootstrap (FeHeader _) = True"
| "is_bootstrap (FeModelChange _ _) = True"
| "is_bootstrap (FeThinkingLevelChange _ _) = True"
| "is_bootstrap (FeServiceTierChange _ _) = True"
| "is_bootstrap _ = False"

definition has_non_bootstrap_entries :: "session_manager \<Rightarrow> bool" where
  "has_non_bootstrap_entries s = list_ex (\<lambda>e. \<not> is_bootstrap e) (sm_file_entries s)"

section \<open>Lookups in the file\<close>

definition get_entries :: "session_manager \<Rightarrow> file_entry list" where
  "get_entries s = filter (\<lambda>e. \<not> is_header e) (sm_file_entries s)"

fun header_of :: "file_entry \<Rightarrow> session_header option" where
  "header_of (FeHeader h) = Some h"
| "header_of _ = None"

definition get_header :: "session_manager \<Rightarrow> session_header option" where
  "get_header s = (case List.map_filter header_of (sm_file_entries s) of [] \<Rightarrow> None | h # _ \<Rightarrow> Some h)"

fun info_name :: "file_entry \<Rightarrow> string option option" where
  "info_name (FeSessionInfo n _) = Some n"
| "info_name _ = None"

definition get_session_name :: "session_manager \<Rightarrow> string option" where
  "get_session_name s =
     (case find_map_rev info_name (sm_file_entries s) of None \<Rightarrow> None | Some n \<Rightarrow> n)"

fun state_of :: "file_entry \<Rightarrow> session_status option" where
  "state_of (FeSessionState st _) = Some st"
| "state_of _ = None"

definition get_session_state :: "session_manager \<Rightarrow> session_status option" where
  "get_session_state s = find_map_rev state_of (get_entries s)"

definition get_label :: "session_manager \<Rightarrow> string \<Rightarrow> string option" where
  "get_label s target = sm_labels_by_id s target"

definition get_label_timestamp :: "session_manager \<Rightarrow> string \<Rightarrow> string option" where
  "get_label_timestamp s target = sm_label_timestamps_by_id s target"

definition get_tree :: "session_manager \<Rightarrow> session_tree" where
  "get_tree s = build_tree (sm_file_entries s)"

text \<open>\<open>get_branch\<close> walks with no guard against a cycle.\<close>

definition get_branch :: "session_manager \<Rightarrow> string option \<Rightarrow> nat list option" where
  "get_branch s from_id =
     climb (parent_index (sm_file_entries s) (sm_by_id s))
       (case (case from_id of Some x \<Rightarrow> Some x | None \<Rightarrow> sm_leaf_id s) of
          None \<Rightarrow> None | Some x \<Rightarrow> sm_by_id s x)"

definition get_flat_tree :: "session_manager \<Rightarrow> (file_entry \<times> string option \<times> string option) list" where
  "get_flat_tree s =
     map (\<lambda>e. (e, case entry_id e of None \<Rightarrow> None | Some x \<Rightarrow> get_label s x,
               case entry_id e of None \<Rightarrow> None | Some x \<Rightarrow> get_label_timestamp s x)) (get_entries s)"

fun fork_message :: "file_entry \<Rightarrow> (string \<times> string) option" where
  "fork_message (FeMessage (SmUser u) b) =
     (case entry_id (FeMessage (SmUser u) b) of
        None \<Rightarrow> None
      | Some x \<Rightarrow> if user_content_text (aiu_content u) \<noteq> [] then Some (x, user_content_text (aiu_content u)) else None)"
| "fork_message _ = None"

definition get_user_messages_for_forking :: "session_manager \<Rightarrow> (string \<times> string) list" where
  "get_user_messages_for_forking s = List.map_filter fork_message (get_entries s)"

fun entry_type :: "file_entry \<Rightarrow> string" where
  "entry_type (FeHeader _) = ''session''"
| "entry_type (FeMessage _ _) = ''message''"
| "entry_type (FeThinkingLevelChange _ _) = ''thinking_level_change''"
| "entry_type (FeServiceTierChange _ _) = ''service_tier_change''"
| "entry_type (FeModelChange _ _) = ''model_change''"
| "entry_type (FeCompaction _ _) = ''compaction''"
| "entry_type (FeBranchSummary _ _) = ''branch_summary''"
| "entry_type (FeCustom _ _) = ''custom''"
| "entry_type (FeChildUsageAttributed _ _) = ''child_usage_attributed''"
| "entry_type (FeCustomMessage _ _) = ''custom_message''"
| "entry_type (FeLabel _ _) = ''label''"
| "entry_type (FeSessionInfo _ _) = ''session_info''"
| "entry_type (FeSessionState _ _) = ''session_state''"
| "entry_type (FeGitState _ _) = ''git_state''"
| "entry_type (FeUnknown _) = ''unknown''"

definition content_entry_types :: "string list" where
  "content_entry_types =
     [''message'', ''custom_message'', ''custom'', ''model_change'', ''thinking_level_change'',
      ''service_tier_change'', ''session_info'', ''label'', ''compaction'', ''branch_summary'']"

definition skip_if :: "string \<Rightarrow> string list \<Rightarrow> string list" where
  "skip_if t ts = (case ts of [] \<Rightarrow> [] | x # xs \<Rightarrow> if x = t then xs else ts)"

text \<open>The content rows less an optional prefix of one model, one thinking level and one tier change.\<close>

definition has_user_content :: "session_manager \<Rightarrow> bool" where
  "has_user_content s =
     (skip_if ''service_tier_change'' (skip_if ''thinking_level_change'' (skip_if ''model_change''
        (filter (\<lambda>t. t \<in> set content_entry_types) (map entry_type (get_entries s))))) \<noteq> [])"

section \<open>Git state\<close>

definition git_contexts_equal :: "git_context \<Rightarrow> git_context \<Rightarrow> bool" where
  "git_contexts_equal l r \<longleftrightarrow>
     gc_commit l = gc_commit r \<and> gc_branch l = gc_branch r \<and> gc_repo_url l = gc_repo_url r"

definition active_git_context :: "session_manager \<Rightarrow> git_context option" where
  "active_git_context s =
     (case latest_git_context s of
        Some g \<Rightarrow> Some g
      | None \<Rightarrow> (case get_header s of Some h \<Rightarrow> hd_git h | None \<Rightarrow> None))"

definition record_git_state_if_changed :: "session_env \<Rightarrow> session_manager \<Rightarrow> string option \<times> session_manager" where
  "record_git_state_if_changed env s =
     (if \<not> sm_persist s then (None, s)
      else case ev_git env (sm_ticks s) (sm_cwd s) of
             None \<Rightarrow> (None, s)
           | Some git \<Rightarrow>
               if (case active_git_context s of None \<Rightarrow> False | Some l \<Rightarrow> git_contexts_equal l git) then (None, s)
               else (case append_git_state env git s of
                       (Inl _, s') \<Rightarrow> (None, s')
                     | (Inr x, s') \<Rightarrow> (Some x, s')))"

section \<open>The branch and the context agree\<close>

lemma parent_index_decreasing:
  assumes "index_ok es m" and "links_ok es m" and "i < length es" and "parent_index es m i = Some j"
  shows "j < i"
proof -
  obtain p where p: "entry_parent_id (es ! i) = Some p" "m p = Some j"
    using assms(4) by (auto simp: parent_index_def split: option.splits)
  with assms(2,3) obtain k where "k < i" "m p = Some k" by (fastforce simp: links_ok_def)
  with p show ?thesis by simp
qed

text \<open>A row id has the same position in the index of the context.\<close>

lemma ids_by_position_greatest:
  "ids_by_position es x = Some i \<Longrightarrow> (\<forall>j. i < j \<longrightarrow> j < length es \<longrightarrow> entry_id (es ! j) \<noteq> Some x)"
proof (induction es rule: rev_induct)
  case Nil
  then show ?case by (simp add: ids_by_position_def)
next
  case (snoc e es)
  then show ?case
    by (auto simp: ids_by_position_snoc nth_append less_Suc_eq split: option.splits if_splits)
qed

lemma row_index_agrees:
  assumes "header_front es" and "index_ok es m" and "m x = Some i"
  shows "ids_by_position es x = Some i"
proof -
  have i: "i < length es" "row_id (es ! i) = Some x" using assms(2,3) by (auto simp: index_ok_def)
  then have "entry_id (es ! i) = Some x" "\<not> is_header (es ! i)" by (auto simp: row_id_def split: if_splits)
  then have "x \<in> dom (ids_by_position es)" using i(1) by (auto simp: ids_by_position_dom)
  then obtain j where j: "ids_by_position es x = Some j" by auto
  with index_soundD[OF ids_by_position_sound] have jj: "j < length es" "entry_id (es ! j) = Some x" by blast+
  have "i \<le> j"
    using ids_by_position_greatest[OF j] i(1) \<open>entry_id (es ! i) = Some x\<close> by (meson not_le_imp_less)
  moreover have "j \<le> i"
  proof (rule ccontr)
    assume "\<not> j \<le> i"
    then have "j \<noteq> 0" by simp
    then have "\<not> is_header (es ! j)" using assms(1) jj(1) by (auto simp: header_front_def)
    then have "m x = Some j" using assms(2) jj by (auto simp: index_ok_def row_id_def)
    with assms(3) \<open>\<not> j \<le> i\<close> show False by simp
  qed
  ultimately show ?thesis using j by simp
qed

lemma parent_index_agrees:
  assumes "header_front es" and "index_ok es m" and "links_ok es m" and "i < length es"
  shows "parent_index es (ids_by_position es) i = parent_index es m i"
proof (cases "entry_parent_id (es ! i)")
  case (Some p)
  with assms(3,4) obtain j where "m p = Some j" by (fastforce simp: links_ok_def)
  with row_index_agrees[OF assms(1,2)] Some show ?thesis by (simp add: parent_index_def)
qed (simp add: parent_index_def)

lemma walk_cong:
  assumes "\<And>i. i < n \<Longrightarrow> nxt i = nxt' i"
  shows "walk nxt n seen c = walk nxt' n seen c"
  using assms by (induction nxt n seen c rule: walk.induct) (auto simp: walk.simps(2))

lemma active_branch_path:
  assumes "manager_ok env s" and "sm_leaf_id s = Some x" and "sm_by_id s x = Some leaf"
  shows "active_branch s = context_path (sm_file_entries s) leaf"
proof -
  have ok: "header_front (sm_file_entries s)" "index_ok (sm_file_entries s) (sm_by_id s)"
      "links_ok (sm_file_entries s) (sm_by_id s)"
    using assms(1) by (simp_all add: manager_ok_def)
  show ?thesis
    using walk_cong[OF parent_index_agrees[OF ok]]
    by (simp add: active_branch_def context_path_def assms(2,3))
qed

text \<open>
  C28. The writer's active branch, the branch query without a guard and the conversation handed to the
  model are read off the same path: in every state the operations can reach, the three walks, which
  use two different indexes, visit the same rows, and the unguarded one returns.
\<close>

theorem branch_is_context_path:
  assumes "manager_ok env s" and "sm_leaf_id s = Some x"
  shows "\<exists>leaf. sm_by_id s x = Some leaf
     \<and> active_branch s = context_path (sm_file_entries s) leaf
     \<and> get_branch s None = Some (active_branch s)
     \<and> (x \<noteq> [] \<longrightarrow> context_leaf (sm_file_entries s) (sm_leaf_id s) = Some leaf)"
proof -
  have ok: "header_front (sm_file_entries s)" "index_ok (sm_file_entries s) (sm_by_id s)"
      "links_ok (sm_file_entries s) (sm_by_id s)"
    using assms(1) by (simp_all add: manager_ok_def)
  obtain leaf where leaf: "sm_by_id s x = Some leaf"
    using assms by (auto simp: manager_ok_def leaf_ok_def)
  have "active_branch s = context_path (sm_file_entries s) leaf"
    by (rule active_branch_path[OF assms leaf])
  moreover have "get_branch s None = Some (active_branch s)"
    unfolding get_branch_def active_branch_def option.case assms(2) leaf
    by (rule climb_decreasing) (use parent_index_decreasing[OF ok(2,3)] ok(2) leaf in \<open>auto simp: index_ok_def\<close>)
  moreover have "x \<noteq> [] \<longrightarrow> context_leaf (sm_file_entries s) (sm_leaf_id s) = Some leaf"
    using row_index_agrees[OF ok(1,2) leaf] by (simp add: context_leaf_def assms(2))
  ultimately show ?thesis using leaf by blast
qed

section \<open>An append extends the branch\<close>

lemma walk_bound:
  assumes "\<And>i j. i < n \<Longrightarrow> nxt i = Some j \<Longrightarrow> j < i" and "n \<le> n'"
    and "\<And>i. i < n \<Longrightarrow> nxt i = nxt' i" and "case c of None \<Rightarrow> True | Some i \<Rightarrow> i < n"
  shows "walk nxt n seen c = walk nxt' n' seen c"
  using assms
proof (induction nxt n seen c rule: walk.induct)
  case (2 nxt n seen i)
  show ?case
  proof (cases "i \<in> set seen")
    case False
    have i: "i < n" using "2.prems"(4) by simp
    have cond: "\<not> (i \<in> set seen \<or> n \<le> i)" using False i by simp
    have bound: "case nxt i of None \<Rightarrow> True | Some j \<Rightarrow> j < n"
    proof (cases "nxt i")
      case (Some j)
      with "2.prems"(1)[OF i Some] i show ?thesis by simp
    qed simp
    have "walk nxt n (i # seen) (nxt i) = walk nxt' n' (i # seen) (nxt i)"
      by (rule "2.IH"[OF cond "2.prems"(1,2,3) bound])
    with False i "2.prems"(2,3) show ?thesis by (simp add: walk.simps(2))
  qed (simp add: walk.simps(2))
qed simp

lemma active_branch_row:
  assumes ok: "manager_ok env s" and fit: "fits env b s" and base: "entry_base_of e = Some b"
    and i: "eb_id b = Some i" and es: "sm_file_entries s' = sm_file_entries s @ [e]"
    and by_id: "sm_by_id s' = (sm_by_id s)(i \<mapsto> length (sm_file_entries s))"
    and leaf: "sm_leaf_id s' = Some i" and draws: "sm_draws s' = sm_draws s"
  shows "active_branch s' = active_branch s @ [length (sm_file_entries s)]"
proof -
  define n where "n = length (sm_file_entries s)"
  define nxt where "nxt = parent_index (sm_file_entries s) (sm_by_id s)"
  define nxt' where "nxt' = parent_index (sm_file_entries s') (sm_by_id s')"
  have ok': "manager_ok env s'" by (rule manager_ok_row[OF ok fit base i es by_id leaf draws])
  have dec: "\<And>k j. k < n \<Longrightarrow> nxt k = Some j \<Longrightarrow> j < k"
    using ok parent_index_decreasing unfolding n_def nxt_def manager_ok_def by blast
  have dec': "\<And>k j. k < Suc n \<Longrightarrow> nxt' k = Some j \<Longrightarrow> j < k"
    using ok' parent_index_decreasing[of "sm_file_entries s'" "sm_by_id s'"]
    unfolding n_def nxt'_def manager_ok_def by (simp add: es)
  have new: "sm_by_id s i = None" using fit i by (auto simp: fits_def)
  have same: "nxt k = nxt' k" if "k < n" for k
  proof (cases "entry_parent_id (sm_file_entries s ! k)")
    case (Some p)
    have "links_ok (sm_file_entries s) (sm_by_id s)" using ok by (simp add: manager_ok_def)
    with Some that obtain j where "sm_by_id s p = Some j" by (fastforce simp: links_ok_def n_def)
    with new have "p \<noteq> i" by auto
    with Some that show ?thesis by (simp add: nxt_def nxt'_def parent_index_def es by_id nth_append n_def)
  qed (use that in \<open>simp add: nxt_def nxt'_def parent_index_def es nth_append n_def\<close>)
  define old where "old = (case sm_leaf_id s of None \<Rightarrow> None | Some x \<Rightarrow> sm_by_id s x)"
  have old_bound: "case old of None \<Rightarrow> True | Some k \<Rightarrow> k < n"
    using ok by (auto simp: old_def n_def manager_ok_def index_ok_def split: option.splits)
  have "nxt' n = old"
  proof (cases "sm_leaf_id s")
    case (Some p)
    with ok obtain k where "sm_by_id s p = Some k" by (auto simp: manager_ok_def leaf_ok_def)
    with new have "p \<noteq> i" by auto
    with Some fit base show ?thesis
      by (simp add: nxt'_def old_def parent_index_def es by_id n_def entry_parent_based fits_def)
  qed (use fit base in \<open>simp add: nxt'_def old_def parent_index_def es n_def entry_parent_based fits_def\<close>)
  then have "walk nxt' (Suc n) [] (Some n) = n # walk nxt' (Suc n) [] old"
    using walk_unfold_decreasing[of "Suc n" nxt' n, OF dec'] by simp
  also have "walk nxt' (Suc n) [] old = walk nxt n [] old"
    by (rule walk_bound[OF dec le_SucI[OF order_refl] same old_bound, symmetric])
  finally have walk: "walk nxt' (Suc n) [] (Some n) = n # walk nxt n [] old" .
  have "active_branch s' = rev (walk nxt' (Suc n) [] (Some n))"
    unfolding active_branch_def nxt'_def[symmetric] by (simp add: leaf by_id es n_def)
  moreover have "active_branch s = rev (walk nxt n [] old)"
    by (simp add: active_branch_def nxt_def n_def old_def)
  ultimately show ?thesis using walk by (simp add: n_def)
qed

lemma append_row_outcome:
  assumes "manager_ok env s" and "makes_row mk" and "append_row env mk s = (result, s')"
  shows "case result of
       Inl _ \<Rightarrow> sm_file_entries s' = sm_file_entries s \<and> sm_by_id s' = sm_by_id s
          \<and> sm_leaf_id s' = sm_leaf_id s \<and> sm_labels_by_id s' = sm_labels_by_id s
          \<and> active_branch s' = active_branch s
     | Inr x \<Rightarrow> \<exists>b. eb_id b = Some x \<and> eb_parent_id b = sm_leaf_id s \<and> sm_by_id s x = None
          \<and> sm_file_entries s' = sm_file_entries s @ [mk b] \<and> sm_leaf_id s' = Some x
          \<and> active_branch s' = active_branch s @ [length (sm_file_entries s)]"
proof -
  obtain b s1 where nb: "next_base env s = (b, s1)" by fastforce
  obtain r s2 where ae: "append_entry env (mk b) s1 = (r, s2)" by fastforce
  note fit = next_base_fits[OF assms(1) nb]
  have rows1: "sm_file_entries s1 = sm_file_entries s" "sm_by_id s1 = sm_by_id s" "sm_leaf_id s1 = sm_leaf_id s"
    "sm_labels_by_id s1 = sm_labels_by_id s"
    using arg_cong[OF fit(3), of sm_file_entries] arg_cong[OF fit(3), of sm_by_id]
      arg_cong[OF fit(3), of sm_leaf_id] arg_cong[OF fit(3), of sm_labels_by_id] by simp_all
  have branch1: "active_branch s1 = active_branch s"
    by (cases "sm_leaf_id s") (simp_all add: active_branch_def rows1)
  have base: "entry_base_of (mk b) = Some b" using assms(2) by (simp add: makes_row_def)
  show ?thesis
  proof (cases r)
    case (Inl err)
    then have "result = Inl err" "s' = s2" using assms(3) nb ae by (simp_all add: append_row_def mon_simps)
    with append_entry_error(1)[OF ae[unfolded Inl]] rows1 show ?thesis
      by (cases "sm_leaf_id s") (simp_all add: same_rows_def active_branch_def)
  next
    case (Inr u)
    obtain i where i: "eb_id b = Some i" using fit(1) by (auto simp: fits_def)
    have res: "result = Inr i" "s' = s2"
      using assms(3) nb ae Inr i by (simp_all add: append_row_def mon_simps base_id_def)
    have "entry_id (mk b) = Some i" using base i by (simp add: entry_id_based)
    note eff = append_entry_ok[OF ae[unfolded Inr] this]
    have "active_branch s2 = active_branch s1 @ [length (sm_file_entries s1)]"
      by (rule active_branch_row[OF fit(2,1) base i eff(1,2,3,4)])
    moreover have "eb_parent_id b = sm_leaf_id s" "sm_by_id s i = None"
      using fit(1) i rows1 by (auto simp: fits_def)
    ultimately show ?thesis using res eff(1,3) rows1 branch1 i by auto
  qed
qed

text \<open>
  C27. A strict append either does nothing or extends the active branch by its row: on success the new
  row is the last of the file and of the branch, carries the id it returned and the base it was given;
  on failure the rows, the index, the leaf and the labels are those from before the call.
\<close>

theorem append_extends_branch_or_rolls_back:
  assumes "manager_ok env s" and "makes_row mk" and "append_row env mk s = (result, s')"
  shows "case result of
       Inl _ \<Rightarrow> sm_file_entries s' = sm_file_entries s \<and> sm_by_id s' = sm_by_id s
          \<and> sm_leaf_id s' = sm_leaf_id s \<and> sm_labels_by_id s' = sm_labels_by_id s
          \<and> active_branch s' = active_branch s
     | Inr x \<Rightarrow> \<exists>b. eb_id b = Some x \<and> eb_parent_id b = sm_leaf_id s \<and> sm_by_id s x = None
          \<and> sm_file_entries s' = sm_file_entries s @ [mk b] \<and> sm_leaf_id s' = Some x
          \<and> active_branch s' = active_branch s @ [length (sm_file_entries s)]"
  using assms by (rule append_row_outcome)

end
