(* ===== verification/SessionDurable.thy ===== *)
theory SessionDurable
  imports SessionQueries
begin

text \<open>
  What the session file holds. The file of a flushed session is the lines of some rows from which the
  rows in memory are read back, child usage folded in; strict appends keep this through failing
  writes, as long as a failed write leaves no bytes behind.
\<close>

section \<open>One more row in the fold of child usage\<close>

lemma assistant_index_snoc:
  "assistant_index n (es @ [e]) m =
     (if is_assistant_entry e
      then (case entry_id e of None \<Rightarrow> assistant_index n es m | Some x \<Rightarrow> (assistant_index n es m)(x \<mapsto> n + length es))
      else assistant_index n es m)"
  by (induction es arbitrary: n m) (auto split: option.splits)

lemma last_attribution_snoc:
  "last_attribution m i (es @ [e]) =
     (case attributed_to m i e of Some v \<Rightarrow> Some v | None \<Rightarrow> last_attribution m i es)"
  by (induction es) (auto split: option.splits)

definition targets :: "file_entry list \<Rightarrow> string set" where
  "targets es = {cua_target_id p |p b. FeChildUsageAttributed p b \<in> set es}"

lemma targets_simps [simp]:
  "targets [] = {}" "targets (es @ es') = targets es \<union> targets es'"
  by (auto simp: targets_def)

lemma last_attribution_other:
  assumes "x \<notin> targets es"
  shows "last_attribution (m(x \<mapsto> n)) i es = last_attribution m i es"
  using assms
proof (induction es)
  case (Cons e es)
  then have x: "x \<notin> targets es" by (auto simp: targets_def)
  have "attributed_to (m(x \<mapsto> n)) i e = attributed_to m i e"
    using Cons.prems by (cases e) (auto simp: targets_def)
  with Cons.IH[OF x] show ?case by (simp only: last_attribution.simps)
qed simp

lemma assistant_index_props:
  "assistant_index 0 es Map.empty x = Some i \<Longrightarrow> i < length es \<and> is_assistant_entry (es ! i) \<and> entry_id (es ! i) = Some x"
  by (induction es rule: rev_induct)
     (fastforce simp: assistant_index_snoc nth_append split: if_splits option.splits)+

text \<open>The rows in memory after the row \<open>e\<close> is added to the rows \<open>es\<close>.\<close>

definition snoc_row :: "file_entry list \<Rightarrow> file_entry \<Rightarrow> file_entry list" where
  "snoc_row es e =
     (case e of
        FeChildUsageAttributed p b \<Rightarrow>
          (case assistant_index 0 es Map.empty (cua_target_id p) of
             None \<Rightarrow> es
           | Some i \<Rightarrow> es[i := set_usage (cua_aggregate_usage p) (es ! i)]) @ [e]
      | _ \<Rightarrow> es @ [e])"

lemma attributed_to_bound: "attributed_to (assistant_index 0 es Map.empty) i e = Some u \<Longrightarrow> i < length es"
  using assistant_index_props by (cases e) (auto split: if_splits)

lemma last_attribution_bound: "last_attribution (assistant_index 0 es Map.empty) i es' = Some u \<Longrightarrow> i < length es"
  using attributed_to_bound by (induction es') (auto split: option.splits)

lemma apply_snoc:
  assumes fold: "apply_child_usage_attributions raw = es"
    and new: "\<And>x. is_assistant_entry e \<Longrightarrow> entry_id e = Some x \<Longrightarrow> x \<notin> targets raw"
  shows "apply_child_usage_attributions (raw @ [e]) = snoc_row es e"
proof (rule nth_equalityI)
  have len: "length es = length raw" using attributions_length[of raw] fold by simp
  have index: "assistant_index 0 es Map.empty = assistant_index 0 raw Map.empty"
    using assistant_index_attributed[of raw] fold by simp
  have snoc_len: "length (snoc_row es e) = Suc (length es)"
    by (cases e) (auto simp: snoc_row_def split: option.splits)
  show "length (apply_child_usage_attributions (raw @ [e])) = length (snoc_row es e)"
    by (simp add: attributions_length snoc_len len)
  fix i assume "i < length (apply_child_usage_attributions (raw @ [e]))"
  then have i: "i < length (raw @ [e])" by (simp add: attributions_length)
  define m where "m = assistant_index 0 raw Map.empty"
  define m' where "m' = assistant_index 0 (raw @ [e]) Map.empty"
  have last: "last_attribution m' j raw = last_attribution m j raw" for j
    using new last_attribution_other
    by (auto simp: m_def m'_def assistant_index_snoc split: option.splits)
  have same: "attributed_to m' j e = attributed_to m j e" for j
    by (cases e) (simp_all add: m_def m'_def assistant_index_snoc)
  have att: "attribution (raw @ [e]) j = (case attributed_to m j e of Some v \<Rightarrow> Some v | None \<Rightarrow> attribution raw j)" for j
    by (simp add: attribution_def m_def[symmetric] m'_def[symmetric] last_attribution_snoc last same split: option.splits)
  show "apply_child_usage_attributions (raw @ [e]) ! i = snoc_row es e ! i"
  proof (cases "i = length raw")
    case True
    have "attributed_to m i e = None" "attribution raw i = None"
      using attributed_to_bound[of raw i e] last_attribution_bound[of raw i raw] True
      by (cases "attributed_to m i e"; cases "attribution raw i"; simp add: m_def attribution_def)+
    then have "apply_child_usage_attributions (raw @ [e]) ! i = e"
      using True by (simp add: attributions_nth att)
    moreover have "snoc_row es e ! i = e"
      using True len by (cases e) (auto simp: snoc_row_def nth_append split: option.splits)
    ultimately show ?thesis by simp
  next
    case False
    then have lt: "i < length raw" using i by simp
    have old: "es ! i = (case attribution raw i of None \<Rightarrow> raw ! i | Some u \<Rightarrow> set_usage u (raw ! i))"
      using attributions_nth[OF lt] fold by simp
    have row: "apply_child_usage_attributions (raw @ [e]) ! i =
        (case attributed_to m i e of Some v \<Rightarrow> set_usage v (es ! i) | None \<Rightarrow> es ! i)"
      using lt old by (cases "attributed_to m i e"; cases "attribution raw i") (simp_all add: attributions_nth att nth_append)
    show ?thesis
    proof (cases "\<exists>p b. e = FeChildUsageAttributed p b")
      case True
      then obtain p b where e: "e = FeChildUsageAttributed p b" by blast
      show ?thesis
      proof (cases "m (cua_target_id p)")
        case None
        with row lt len e index show ?thesis by (simp add: snoc_row_def m_def nth_append)
      next
        case (Some j)
        with row lt len e index show ?thesis
          by (cases "i = j") (simp_all add: snoc_row_def m_def nth_append)
      qed
    next
      case no: False
      then have "attributed_to m i e = None" "snoc_row es e = es @ [e]"
        by (cases e; simp add: snoc_row_def)+
      with row lt len show ?thesis by (simp add: nth_append)
    qed
  qed
qed

section \<open>The file of a flushed session\<close>

definition readable :: "session_env \<Rightarrow> file_entry list \<Rightarrow> bool" where
  "readable env es \<longleftrightarrow> (\<forall>e \<in> set es. reads_back (ev_ser env) (ev_deser env) e)"

definition rows_of_file :: "session_env \<Rightarrow> session_manager \<Rightarrow> file_entry list \<Rightarrow> bool" where
  "rows_of_file env s raw \<longleftrightarrow>
     (\<exists>f. sm_session_file s = Some f \<and> sm_files s f = Some (unlines (map (ev_ser env) raw)))
     \<and> readable env raw"

definition synced_with :: "session_env \<Rightarrow> session_manager \<Rightarrow> file_entry list \<Rightarrow> bool" where
  "synced_with env s es \<longleftrightarrow>
     (sm_persist s \<longrightarrow> sm_flushed s \<longrightarrow> file_exists s \<longrightarrow>
        (\<exists>raw. rows_of_file env s raw \<and> apply_child_usage_attributions raw = es))"

definition synced :: "session_env \<Rightarrow> session_manager \<Rightarrow> bool" where
  "synced env s \<longleftrightarrow> synced_with env s (sm_file_entries s)"

text \<open>The usage in memory is the attributed one, and attributions name rows of the file.\<close>

definition settled :: "session_manager \<Rightarrow> bool" where
  "settled s \<longleftrightarrow> apply_child_usage_attributions (sm_file_entries s) = sm_file_entries s
     \<and> (\<forall>x \<in> targets (sm_file_entries s). sm_by_id s x \<noteq> None)"

text \<open>Failed writes leave no bytes.\<close>

definition clean_io :: "session_manager \<Rightarrow> bool" where
  "clean_io s \<longleftrightarrow> (\<forall>k err. IoFail k err \<in> set (sm_io s) \<longrightarrow> k = 0)"

lemma file_content_unlines: "es \<noteq> [] \<Longrightarrow> file_content env es = unlines (map (ev_ser env) es)"
proof -
  have "serialize_entry env = ev_ser env" by (simp add: fun_eq_iff serialize_entry_def)
  then show "es \<noteq> [] \<Longrightarrow> ?thesis" by (simp add: file_content_def join_with_unlines)
qed

lemma file_exists_cong:
  "sm_session_file s' = sm_session_file s \<Longrightarrow> sm_files s' = sm_files s \<Longrightarrow> file_exists s' = file_exists s"
  by (cases "sm_session_file s") (simp_all add: file_exists_def)

lemma clean_io_spend: "clean_io s \<Longrightarrow> clean_io (spend_outcome s)"
  by (auto simp: clean_io_def spend_outcome_def dest: in_set_dropD)

lemma next_outcome_clean: "clean_io s \<Longrightarrow> next_outcome s = IoFail k err \<Longrightarrow> k = 0"
  by (cases "sm_io s") (auto simp: next_outcome_def clean_io_def)

text \<open>What a disk write does to the file and the flag.\<close>

lemma try_rewrite_cases:
  assumes "try_rewrite_file env s = (r, s')" and "sm_persist s" and "sm_session_file s = Some f"
  obtains (written) "r = Inr ()" "sm_files s' = (sm_files s)(f \<mapsto> file_content env (sm_file_entries s))"
      "sm_flushed s' = sm_flushed s" "sm_has_assistant_entry s' = sm_has_assistant_entry s"
      "sm_io s' = drop 1 (sm_io s)" "same_rows s s'"
  | (failed) err where "r = Inl (IoError err)" "sm_files s' = sm_files s" "sm_flushed s' = sm_flushed s"
      "sm_has_assistant_entry s' = sm_has_assistant_entry s"
      "sm_io s' = drop 1 (sm_io s)" "same_rows s s'"
proof (cases "next_outcome s")
  case IoDone
  with assms show thesis
    by (intro written) (auto simp: store_defs same_rows_def)
next
  case (IoFail k err)
  with assms show thesis
    by (intro failed[of err]) (auto simp: store_defs same_rows_def)
qed

lemma append_cached_cases:
  assumes "append_cached f l s = (r, s')" and "sm_files s f = Some c"
  obtains (written) "r = Inr ()" "sm_files s' = (sm_files s)(f \<mapsto> c @ l)"
      "sm_flushed s' = sm_flushed s" "sm_has_assistant_entry s' = sm_has_assistant_entry s"
      "sm_io s' = drop 1 (sm_io s)" "same_rows s s'"
  | (failed) k err where "next_outcome s = IoFail k err" "r = Inl (IoError err)"
      "sm_files s' = (sm_files s)(f \<mapsto> c @ take k l)"
      "sm_flushed s' = sm_flushed s" "sm_has_assistant_entry s' = sm_has_assistant_entry s"
      "sm_io s' = drop 1 (sm_io s)" "same_rows s s'"
proof (cases "next_outcome s")
  case IoDone
  with assms show thesis by (intro written) (auto simp: store_defs same_rows_def)
next
  case (IoFail k err)
  with assms show thesis by (intro failed[of k err]) (auto simp: store_defs same_rows_def)
qed

lemma notify_frame:
  "sm_files (notify_persist_listeners s) = sm_files s" "sm_flushed (notify_persist_listeners s) = sm_flushed s"
  "sm_has_assistant_entry (notify_persist_listeners s) = sm_has_assistant_entry s"
  "sm_io (notify_persist_listeners s) = sm_io s"
  by (auto simp: notify_persist_listeners_def split: option.splits)

text \<open>The five ways a row is persisted.\<close>

lemma persist_entry_cases:
  assumes "persist_entry env i s = (r, s')"
  obtains (unpersisted) "s' = s" "r = Inr ()" "\<not> sm_persist s \<or> sm_session_file s = None"
  | (deferred) "s' = s\<lparr>sm_flushed := False\<rparr>" "r = Inr ()" "sm_persist s" "sm_session_file s \<noteq> None"
      "\<not> sm_has_assistant_entry s" "\<not> is_state_or_info (sm_file_entries s ! i)"
  | (rewritten) f where "r = Inr ()" "sm_session_file s = Some f" "sm_flushed s'"
      "sm_files s' = (sm_files s)(f \<mapsto> file_content env (sm_file_entries s))"
      "sm_io s' = drop 1 (sm_io s)" "same_rows s s'"
  | (rewrite_failed) err where "r = Inl (IoError err)" "sm_files s' = sm_files s" "sm_flushed s' = sm_flushed s"
      "\<not> sm_flushed s \<or> \<not> file_exists s" "sm_io s' = drop 1 (sm_io s)" "same_rows s s'"
  | (appended) f c where "r = Inr ()" "sm_session_file s = Some f" "sm_files s f = Some c" "sm_persist s" "sm_flushed s"
      "sm_flushed s'" "sm_files s' = (sm_files s)(f \<mapsto> c @ serialize_entry env (sm_file_entries s ! i) @ [line_feed])"
      "sm_io s' = drop 1 (sm_io s)" "same_rows s s'"
  | (append_failed) f c k err where "r = Inl (IoError err)" "sm_session_file s = Some f" "sm_files s f = Some c"
      "sm_persist s" "sm_flushed s" "sm_flushed s'" "next_outcome s = IoFail k err"
      "sm_files s' = (sm_files s)(f \<mapsto> c @ take k (serialize_entry env (sm_file_entries s ! i) @ [line_feed]))"
      "sm_io s' = drop 1 (sm_io s)" "same_rows s s'"
proof (cases "sm_session_file s = None \<or> \<not> sm_persist s")
  case True
  with assms show thesis by (intro unpersisted) (auto simp: persist_entry_def split: option.splits)
next
  case False
  then obtain f where f: "sm_session_file s = Some f" "sm_persist s" by auto
  show thesis
  proof (cases "\<not> sm_has_assistant_entry s \<and> \<not> is_state_or_info (sm_file_entries s ! i)")
    case True
    with assms f show thesis by (intro deferred) (auto simp: persist_entry_def)
  next
    case no_defer: False
    show thesis
    proof (cases "\<not> sm_flushed s \<or> \<not> file_exists s")
      case True
      obtain r1 s1 where t: "try_rewrite_file env s = (r1, s1)" by fastforce
      have run: "(r, s') = (case r1 of Inl e \<Rightarrow> (Inl e, s1) | Inr _ \<Rightarrow> (Inr (), s1\<lparr>sm_flushed := True\<rparr>))"
        using assms f no_defer True t by (auto simp: persist_entry_def mon_simps split: sum.splits)
      from t f(2,1) show thesis
      proof (cases rule: try_rewrite_cases)
        case written
        with run f show thesis by (intro rewritten[of f]) (auto simp: same_rows_def)
      next
        case (failed err)
        with run True show thesis by (intro rewrite_failed[of err]) auto
      qed
    next
      case False
      then obtain c where c: "sm_files s f = Some c" using f by (auto simp: file_exists_def)
      define l where "l = serialize_entry env (sm_file_entries s ! i) @ [line_feed]"
      obtain r1 s1 where t: "append_cached f l s = (r1, s1)" by fastforce
      have run: "(r, s') = (case r1 of Inl e \<Rightarrow> (Inl e, s1) | Inr _ \<Rightarrow> (Inr (), notify_persist_listeners s1))"
        using assms f no_defer False t by (auto simp: persist_entry_def mon_simps l_def split: sum.splits)
      from t c show thesis
      proof (cases rule: append_cached_cases)
        case written
        with run f c False notify_same_rows[of s1] show thesis
          by (intro appended[of f c]) (auto simp: notify_frame l_def dest: same_rows_trans)
      next
        case (failed k err)
        with run f c False show thesis by (intro append_failed[of err f c k]) (auto simp: l_def)
      qed
    qed
  qed
qed

section \<open>A row reaches the file\<close>

text \<open>
  The row \<open>e\<close> has just been added to the rows \<open>es\<close> in memory: persisting it leaves a file from
  which the rows with it are read, or, when the write fails cleanly, one with the rows before it.
\<close>

lemma persist_entry_synced:
  assumes run: "persist_entry env (length es) s = (r, s')"
    and mem: "sm_file_entries s = es @ [e]"
    and pre: "synced_with env s es" and fold: "apply_child_usage_attributions es = es"
    and codec: "r = Inr () \<Longrightarrow> readable env (es @ [e])"
    and fresh: "\<And>raw x. apply_child_usage_attributions raw = es \<Longrightarrow> is_assistant_entry e \<Longrightarrow>
        entry_id e = Some x \<Longrightarrow> x \<notin> targets raw"
    and clean: "clean_io s"
  shows "clean_io s'" and "r = Inr () \<Longrightarrow> synced_with env s' (snoc_row es e)"
    and "r = Inl err \<Longrightarrow> synced_with env s' es"
    and "r = Inr () \<Longrightarrow> sm_persist s \<Longrightarrow> sm_session_file s = Some f \<Longrightarrow>
           sm_has_assistant_entry s \<or> is_state_or_info e \<Longrightarrow> sm_flushed s' \<and> file_exists s'"
proof -
  have drop_clean: "clean_io s'" if "sm_io s' = drop 1 (sm_io s)"
    using clean that by (auto simp: clean_io_def dest: in_set_dropD)
  have nth: "sm_file_entries s ! length es = e" by (simp add: mem)
  have snoc: "apply_child_usage_attributions (raw @ [e]) = snoc_row es e"
    if "apply_child_usage_attributions raw = es" for raw
    using that fresh by (intro apply_snoc) blast+
  show "clean_io s'" using run
  proof (cases rule: persist_entry_cases)
    case unpersisted then show ?thesis using clean by simp
  next
    case deferred then show ?thesis using clean by (simp add: clean_io_def)
  qed (use drop_clean in auto)
  show "synced_with env s' (snoc_row es e)" if r: "r = Inr ()" using run
  proof (cases rule: persist_entry_cases)
    case unpersisted then show ?thesis by (auto simp: synced_with_def file_exists_def)
  next
    case deferred then show ?thesis by (simp add: synced_with_def)
  next
    case (rewritten f)
    then have "rows_of_file env s' (es @ [e])"
      using codec[OF r] by (simp add: rows_of_file_def same_rows_def file_content_unlines mem)
    with snoc[OF fold] show ?thesis by (auto simp: synced_with_def)
  next
    case (appended f c)
    then obtain raw where raw: "rows_of_file env s raw" "apply_child_usage_attributions raw = es"
      using pre by (auto simp: synced_with_def file_exists_def)
    with appended have "rows_of_file env s' (raw @ [e])"
      using codec[OF r] by (auto simp: rows_of_file_def readable_def same_rows_def serialize_entry_def nth)
    with snoc[OF raw(2)] show ?thesis by (auto simp: synced_with_def)
  qed (use r in simp_all)
  show "synced_with env s' es" if r: "r = Inl err" using run
  proof (cases rule: persist_entry_cases)
    case (rewrite_failed err')
    then have "file_exists s' = file_exists s" by (intro file_exists_cong) (simp_all add: same_rows_def)
    with rewrite_failed pre show ?thesis by (simp add: synced_with_def)
  next
    case (append_failed f c k err')
    then have "k = 0" using next_outcome_clean[OF clean] by simp
    with append_failed have "sm_files s' = sm_files s" by auto
    with append_failed pre show ?thesis
      by (auto simp: synced_with_def rows_of_file_def same_rows_def file_exists_def)
  qed (use r in simp_all)
  assume r: "r = Inr ()" and p: "sm_persist s" "sm_session_file s = Some f"
    and a: "sm_has_assistant_entry s \<or> is_state_or_info e"
  show "sm_flushed s' \<and> file_exists s'" using run
  proof (cases rule: persist_entry_cases)
    case (rewritten f')
    then show ?thesis by (auto simp: file_exists_def same_rows_def)
  next
    case (appended f' c)
    then show ?thesis by (auto simp: file_exists_def same_rows_def)
  qed (use p r a nth in auto)
qed

end
