(* ===== verification/SessionStrict.thy ===== *)
theory SessionStrict
  imports SessionDurable
begin

section \<open>Durable states\<close>

text \<open>
  What the strict operations keep: the writer's invariant and a file in step with the rows.
\<close>

definition durable :: "session_env \<Rightarrow> session_manager \<Rightarrow> bool" where
  "durable env s \<longleftrightarrow>
     manager_ok env s \<and> synced env s \<and> settled s \<and> clean_io s \<and> sm_file_entries s \<noteq> []"

lemma targets_attributed: "targets raw \<subseteq> targets (apply_child_usage_attributions raw)"
proof
  fix x assume "x \<in> targets raw"
  then obtain p b where e: "FeChildUsageAttributed p b \<in> set raw" and x: "x = cua_target_id p"
    by (auto simp: targets_def)
  then obtain k where k: "k < length raw" "raw ! k = FeChildUsageAttributed p b" by (metis in_set_conv_nth)
  have "apply_child_usage_attributions raw ! k = FeChildUsageAttributed p b"
    using attributed_row[OF k(1)] k(2) by (auto simp: set_usage_def)
  with k(1) have "FeChildUsageAttributed p b \<in> set (apply_child_usage_attributions raw)"
    by (metis attributions_length nth_mem)
  with x show "x \<in> targets (apply_child_usage_attributions raw)" by (auto simp: targets_def)
qed

lemma synced_cong:
  assumes "synced_with env s es" and "sm_persist s' = sm_persist s" and "sm_flushed s' = sm_flushed s"
    and "sm_session_file s' = sm_session_file s" and "sm_files s' = sm_files s"
  shows "synced_with env s' es"
proof -
  have "file_exists s' = file_exists s" by (rule file_exists_cong) (simp_all add: assms)
  with assms show ?thesis by (simp add: synced_with_def rows_of_file_def)
qed

lemma append_entry_synced:
  assumes d: "durable env s" and b: "fits env b s" and base: "entry_base_of e = Some b"
    and run: "append_entry env e s = (r, s')"
    and codec: "r = Inr () \<Longrightarrow> readable env (sm_file_entries s @ [e])"
  shows "clean_io s'"
    and "r = Inr () \<Longrightarrow> synced_with env s' (snoc_row (sm_file_entries s) e)"
    and "r = Inl err \<Longrightarrow> synced env s'"
    and "r = Inr () \<Longrightarrow> sm_persist s \<Longrightarrow> sm_session_file s = Some f \<Longrightarrow>
           sm_has_assistant_entry s \<or> is_assistant_entry e \<or> is_state_or_info e \<Longrightarrow>
           sm_flushed s' \<and> file_exists s'"
proof -
  have sy: "synced_with env s (sm_file_entries s)" using d by (simp add: durable_def synced_def)
  have fold: "apply_child_usage_attributions (sm_file_entries s) = sm_file_entries s"
    and known: "\<And>x. x \<in> targets (sm_file_entries s) \<Longrightarrow> sm_by_id s x \<noteq> None"
    using d by (auto simp: durable_def settled_def)
  define s2 where "s2 = (if is_assistant_entry e then s\<lparr>sm_has_assistant_entry := True\<rparr> else s)
    \<lparr>sm_file_entries := sm_file_entries s @ [e]\<rparr>"
  have frame: "sm_flushed s2 = sm_flushed s" "sm_persist s2 = sm_persist s" "sm_session_file s2 = sm_session_file s"
    "sm_files s2 = sm_files s" "sm_io s2 = sm_io s"
    "sm_has_assistant_entry s2 \<longleftrightarrow> sm_has_assistant_entry s \<or> is_assistant_entry e"
    by (cases "is_assistant_entry e"; simp add: s2_def)+
  obtain r1 s3 where p: "persist_entry env (length (sm_file_entries s)) s2 = (r1, s3)" by fastforce
  have pre: "synced_with env s2 (sm_file_entries s)" by (rule synced_cong[OF sy]) (simp_all add: frame)
  have cl: "clean_io s2" using d by (simp add: durable_def clean_io_def frame)
  have mem: "sm_file_entries s2 = sm_file_entries s @ [e]" by (simp add: s2_def)
  have fresh: "x \<notin> targets raw"
    if "apply_child_usage_attributions raw = sm_file_entries s" "is_assistant_entry e" "entry_id e = Some x" for raw x
    using targets_attributed[of raw] known[of x] that b base by (auto simp: entry_id_based fits_def)
  have r: "r = r1" using run p by (auto simp: append_entry_def Let_def s2_def split: sum.splits if_splits)
  have codec': "r1 = Inr () \<Longrightarrow> readable env (sm_file_entries s @ [e])" using codec r by simp
  have ok: "s' = index_new_row (sm_file_entries s3 ! length (sm_file_entries s)) (length (sm_file_entries s)) s3"
    if "r1 = Inr ()"
    using run p that by (auto simp: append_entry_def Let_def s2_def split: if_splits)
  have bad: "s' = s3\<lparr>sm_file_entries := butlast (sm_file_entries s3),
      sm_has_assistant_entry := sm_has_assistant_entry s, sm_flushed := sm_flushed s\<rparr>" if "r1 = Inl er" for er
    using run p that by (auto simp: append_entry_def Let_def s2_def split: if_splits)
  have idx: "sm_files (index_new_row x i t) = sm_files t" "sm_flushed (index_new_row x i t) = sm_flushed t"
    "sm_session_file (index_new_row x i t) = sm_session_file t" "sm_persist (index_new_row x i t) = sm_persist t"
    "sm_io (index_new_row x i t) = sm_io t" for x i t
    by (cases "entry_id x"; simp add: index_new_row_def)+
  have "clean_io s3" by (rule persist_entry_synced(1)[OF p mem pre fold codec' fresh cl])
  then show "clean_io s'" by (cases r1) (simp_all add: ok bad clean_io_def idx)
  show "synced_with env s' (snoc_row (sm_file_entries s) e)" if "r = Inr ()"
  proof -
    have "synced_with env s3 (snoc_row (sm_file_entries s) e)"
      by (rule persist_entry_synced(2)[OF p mem pre fold codec' fresh cl]) (use that r in simp_all)
    then show ?thesis by (rule synced_cong) (use that r in \<open>simp_all add: ok idx\<close>)
  qed
  show "synced env s'" if "r = Inl err"
  proof -
    have "synced_with env s3 (sm_file_entries s)"
      by (rule persist_entry_synced(3)[OF p mem pre fold codec' fresh cl]) (use that r in simp_all)
    moreover have "sm_flushed s3 = sm_flushed s"
      using p that r by (cases rule: persist_entry_cases) (auto simp: frame)
    moreover have "sm_file_entries s' = sm_file_entries s"
      using append_entry_error(1)[OF run[unfolded that]] by (simp add: same_rows_def)
    ultimately show ?thesis
      unfolding synced_def by (auto intro!: synced_cong[of env s3] simp: bad[of err] that r[symmetric])
  qed
  assume "r = Inr ()" and a: "sm_persist s" "sm_session_file s = Some f"
    "sm_has_assistant_entry s \<or> is_assistant_entry e \<or> is_state_or_info e"
  then have r1: "r1 = Inr ()" using r by simp
  have "sm_flushed s3 \<and> file_exists s3"
    by (rule persist_entry_synced(4)[OF p mem pre fold codec' fresh cl r1]) (use a in \<open>auto simp: frame\<close>)
  then show "sm_flushed s' \<and> file_exists s'" using file_exists_cong[of s' s3] by (simp add: ok r1 idx)
qed


lemma snoc_row_settled:
  assumes d: "durable env s" and b: "fits env b s" and base: "entry_base_of e = Some b"
  shows "apply_child_usage_attributions (snoc_row (sm_file_entries s) e) = snoc_row (sm_file_entries s) e"
proof -
  have fold: "apply_child_usage_attributions (sm_file_entries s) = sm_file_entries s"
    and known: "\<And>x. sm_by_id s x = None \<Longrightarrow> x \<notin> targets (sm_file_entries s)"
    using d by (auto simp: durable_def settled_def)
  have "apply_child_usage_attributions (sm_file_entries s @ [e]) = snoc_row (sm_file_entries s) e"
    by (rule apply_snoc[OF fold]) (use known b base in \<open>auto simp: entry_id_based fits_def\<close>)
  then show ?thesis using attributions_twice by metis
qed

fun is_attribution :: "file_entry \<Rightarrow> bool" where
  "is_attribution (FeChildUsageAttributed _ _) = True"
| "is_attribution _ = False"

lemma snoc_row_plain: "\<not> is_attribution e \<Longrightarrow> snoc_row es e = es @ [e]"
  by (cases e) (simp_all add: snoc_row_def)

lemma custom_row_plain [simp]: "\<not> is_attribution (custom_message_row t c di de b)"
  by (simp add: custom_message_row_def)

lemma append_entry_durable:
  assumes d: "durable env s" and b: "fits env b s" and base: "entry_base_of e = Some b"
    and run: "append_entry env e s = (r, s')" and plain: "\<not> is_attribution e"
    and codec: "r = Inr () \<Longrightarrow> readable env (sm_file_entries s @ [e])"
  shows "durable env s'"
proof (cases r)
  case (Inl err)
  note same = append_entry_error(1)[OF run[unfolded Inl]]
  have "clean_io s'" by (rule append_entry_synced(1)[OF d b base run]) (rule codec)
  moreover have "synced env s'" by (rule append_entry_synced(3)[OF d b base run codec Inl])
  moreover have "settled s'" using d same by (simp add: durable_def settled_def same_rows_def)
  moreover have "manager_ok env s'" using d manager_ok_same_rows[OF same] by (simp add: durable_def)
  ultimately show ?thesis using d same by (simp add: durable_def same_rows_def)
next
  case (Inr u)
  obtain i where i: "eb_id b = Some i" using b by (auto simp: fits_def)
  then have id: "entry_id e = Some i" using base by (simp add: entry_id_based)
  note eff = append_entry_ok[OF run[unfolded Inr] id]
  have r: "r = Inr ()" using Inr by simp
  have "clean_io s'" by (rule append_entry_synced(1)[OF d b base run codec])
  moreover have "manager_ok env s'" using append_entry_keeps[OF _ b base run] d by (simp add: durable_def)
  moreover have "synced env s'" using append_entry_synced(2)[OF d b base run codec r] eff(1) plain by (simp add: synced_def snoc_row_plain)
  moreover have "settled s'"
    using snoc_row_settled[OF d b base] d plain
    by (cases e) (auto simp: settled_def eff(1,2) snoc_row_plain durable_def targets_def)
  ultimately show ?thesis using eff(1) by (simp add: durable_def)
qed

lemma durable_next_base:
  assumes "durable env s" and "next_base env s = (b, s1)"
  shows "durable env s1" and "fits env b s1" and "sm_file_entries s1 = sm_file_entries s"
    and "sm_by_id s1 = sm_by_id s" and "sm_leaf_id s1 = sm_leaf_id s"
    and "sm_persist s1 = sm_persist s" and "sm_session_file s1 = sm_session_file s"
    and "sm_has_assistant_entry s1 = sm_has_assistant_entry s"
proof -
  have ok: "manager_ok env s" using assms(1) by (simp add: durable_def)
  note nb = next_base_fits[OF ok assms(2)]
  have eqs: "sm_file_entries s1 = sm_file_entries s" "sm_by_id s1 = sm_by_id s" "sm_io s1 = sm_io s"
    "sm_persist s1 = sm_persist s" "sm_flushed s1 = sm_flushed s" "sm_files s1 = sm_files s"
    "sm_session_file s1 = sm_session_file s" "sm_leaf_id s1 = sm_leaf_id s"
    "sm_has_assistant_entry s1 = sm_has_assistant_entry s"
    by (subst nb(3), simp)+
  show "durable env s1" using assms(1) nb(2) synced_cong[of env s "sm_file_entries s" s1]
    by (simp add: durable_def synced_def settled_def clean_io_def eqs)
  show "fits env b s1" by (rule nb(1))
  show "sm_file_entries s1 = sm_file_entries s" "sm_by_id s1 = sm_by_id s" "sm_leaf_id s1 = sm_leaf_id s"
    "sm_persist s1 = sm_persist s" "sm_session_file s1 = sm_session_file s"
    "sm_has_assistant_entry s1 = sm_has_assistant_entry s"
    by (simp_all add: eqs)
qed

section \<open>Every strict operation\<close>

lemma append_row_durable:
  assumes "durable env s" and "makes_row mk" and "\<And>b. \<not> is_attribution (mk b)"
    and run: "append_row env mk s = (r, s')"
    and codec: "readable env (sm_file_entries s)" "readable env (sm_file_entries s')"
  shows "durable env s'"
proof -
  obtain b s1 where nb: "next_base env s = (b, s1)" by fastforce
  obtain r1 s2 where ae: "append_entry env (mk b) s1 = (r1, s2)" by fastforce
  note n = durable_next_base[OF assms(1) nb]
  have s': "s' = s2" using run nb ae by (auto simp: append_row_def mon_simps split: sum.splits)
  have base: "entry_base_of (mk b) = Some b" using assms(2) by (simp add: makes_row_def)
  obtain i where i: "eb_id b = Some i" using n(2) by (auto simp: fits_def)
  have "readable env (sm_file_entries s1 @ [mk b])" if "r1 = Inr ()"
    using append_entry_ok(1)[of env "mk b" s1 "()" s2 i] ae that base i codec(2) s' by (simp add: entry_id_based)
  from append_entry_durable[OF n(1,2) base ae assms(3) this] show ?thesis by (simp add: s')
qed

lemma strict_append_durable:
  "durable env s \<Longrightarrow> makes_row mk \<Longrightarrow> (\<And>b. \<not> is_attribution (mk b)) \<Longrightarrow> readable env (sm_file_entries s) \<Longrightarrow>
   readable env (sm_file_entries (snd (append_row env mk s))) \<Longrightarrow> durable env (snd (append_row env mk s))"
  using append_row_durable[of env s mk "fst (append_row env mk s)" "snd (append_row env mk s)"] by simp

lemma durable_leaf:
  assumes "durable env s" and "\<And>x. leaf = Some x \<Longrightarrow> sm_by_id s x \<noteq> None"
  shows "durable env (set_leaf_id leaf s)"
proof -
  have "manager_ok env (set_leaf_id leaf s)" using assms set_leaf_keeps by (simp add: durable_def)
  then show ?thesis
    using assms(1) synced_cong[of env s "sm_file_entries s" "set_leaf_id leaf s"]
    by (simp add: durable_def synced_def settled_def clean_io_def set_leaf_id_def)
qed

lemma durable_labels: "durable env s \<Longrightarrow> durable env (apply_label_entry x l t s)"
proof -
  assume d: "durable env s"
  have eqs: "sm_file_entries (apply_label_entry x l t s) = sm_file_entries s" "sm_io (apply_label_entry x l t s) = sm_io s"
    "sm_persist (apply_label_entry x l t s) = sm_persist s" "sm_flushed (apply_label_entry x l t s) = sm_flushed s"
    "sm_files (apply_label_entry x l t s) = sm_files s" "sm_by_id (apply_label_entry x l t s) = sm_by_id s"
    "sm_session_file (apply_label_entry x l t s) = sm_session_file s"
    by (cases l; simp add: apply_label_entry_def)+
  with d synced_cong[of env s "sm_file_entries s" "apply_label_entry x l t s"] manager_ok_labels
  show ?thesis by (simp add: durable_def synced_def settled_def clean_io_def)
qed

lemma label_durable:
  assumes d: "durable env s" and codec: "readable env (sm_file_entries s)"
    "readable env (sm_file_entries (snd (append_label_change env x l s)))"
  shows "durable env (snd (append_label_change env x l s))"
proof (cases "get_entry_by_id s x = None")
  case False
  obtain b s1 where nb: "next_base env s = (b, s1)" by fastforce
  define row where "row = FeLabel \<lparr>le_target_id = x, le_label = l\<rparr> b"
  obtain r s2 where ae: "append_entry env row s1 = (r, s2)" by fastforce
  note n = durable_next_base[OF d nb]
  obtain i where i: "eb_id b = Some i" using n(2) by (auto simp: fits_def)
  have labels: "sm_file_entries (apply_label_entry x l t s2) = sm_file_entries s2" for t
    by (cases l) (simp_all add: apply_label_entry_def)
  have run: "snd (append_label_change env x l s) =
      (case r of Inl _ \<Rightarrow> s2 | Inr _ \<Rightarrow> apply_label_entry x l (case eb_timestamp b of None \<Rightarrow> [] | Some t \<Rightarrow> t) s2)"
    using False nb ae by (auto simp: append_label_change_def mon_simps row_def Let_def split: sum.splits)
  have base: "entry_base_of row = Some b" "\<not> is_attribution row" "entry_id row = Some i"
    using i by (simp_all add: row_def entry_id_based)
  have "readable env (sm_file_entries s1 @ [row])" if "r = Inr ()"
    using append_entry_ok(1)[of env row s1 "()" s2 i] ae that base(3) codec(2) by (simp add: run labels)
  from append_entry_durable[OF n(1,2) base(1) ae base(2) this] show ?thesis
    by (cases r) (simp_all add: run durable_labels)
qed (use d in \<open>simp add: append_label_change_def\<close>)

lemma branch_summary_durable:
  assumes d: "durable env s" and codec: "readable env (sm_file_entries s)"
    "readable env (sm_file_entries (snd (branch_with_summary env f t de h u s)))"
  shows "durable env (snd (branch_with_summary env f t de h u s))"
proof (cases "f \<noteq> None \<and> get_entry_by_id s (the f) = None")
  case True
  with d show ?thesis by (auto simp: branch_with_summary_def Let_def)
next
  case False
  have d1: "durable env (set_leaf_id f s)"
    using False get_entry_known[of s "the f"] by (intro durable_leaf[OF d]) auto
  obtain b s2 where nb: "next_base env (set_leaf_id f s) = (b, s2)" by fastforce
  define row where "row = FeBranchSummary
    \<lparr>bse_from_id = (case f of None \<Rightarrow> ''root'' | Some x \<Rightarrow> x), bse_summary = t,
     bse_details = de, bse_from_hook = h, bse_usage = u\<rparr> b"
  obtain r s3 where ae: "append_entry env row s2 = (r, s3)" by fastforce
  note n = durable_next_base[OF d1 nb]
  obtain i where i: "eb_id b = Some i" using n(2) by (auto simp: fits_def)
  have run: "snd (branch_with_summary env f t de h u s) =
      (case r of Inl _ \<Rightarrow> set_leaf_id (sm_leaf_id s) s3 | Inr _ \<Rightarrow> s3)"
    using False nb ae by (auto simp: branch_with_summary_def Let_def row_def split: sum.splits)
  have base: "entry_base_of row = Some b" "\<not> is_attribution row" "entry_id row = Some i"
    using i by (simp_all add: row_def entry_id_based)
  have "readable env (sm_file_entries s2 @ [row])" if "r = Inr ()"
    using append_entry_ok(1)[of env row s2 "()" s3 i] ae that base(3) codec(2) by (simp add: run)
  from append_entry_durable[OF n(1,2) base(1) ae base(2) this] have d3: "durable env s3" .
  have "durable env (set_leaf_id (sm_leaf_id s) s3)" if "r = Inl err" for err
  proof (rule durable_leaf[OF d3])
    fix x assume "sm_leaf_id s = Some x"
    moreover have "sm_by_id s3 = sm_by_id s"
      using append_entry_error(1)[OF ae[unfolded that]] n(4) by (simp add: same_rows_def set_leaf_id_def)
    ultimately show "sm_by_id s3 x \<noteq> None" using d by (simp add: durable_def manager_ok_def leaf_ok_def)
  qed
  with d3 show ?thesis by (cases r) (simp_all add: run)
qed

lemma assistant_index_complete:
  "i < length es \<Longrightarrow> is_assistant_entry (es ! i) \<Longrightarrow> entry_id (es ! i) = Some x \<Longrightarrow>
   assistant_index 0 es Map.empty x \<noteq> None"
proof (induction es rule: rev_induct)
  case (snoc e es)
  show ?case
  proof (cases "i < length es")
    case True
    with snoc have "assistant_index 0 es Map.empty x \<noteq> None" by (simp add: nth_append)
    then show ?thesis by (auto simp: assistant_index_snoc split: option.splits)
  next
    case False
    with snoc.prems have "i = length es" by simp
    with snoc.prems show ?thesis by (simp add: assistant_index_snoc)
  qed
qed simp

lemma assistant_not_header: "is_assistant_entry e \<Longrightarrow> \<not> is_header e"
  by (cases e) auto

lemma attribution_target_index:
  assumes "manager_ok env s" and "attribution_target s x = Some i"
  shows "assistant_index 0 (sm_file_entries s) Map.empty x = Some i" and "i < length (sm_file_entries s)"
    and "sm_by_id s x = Some i"
proof -
  have ix: "index_ok (sm_file_entries s) (sm_by_id s)" using assms(1) by (simp add: manager_ok_def)
  have i: "sm_by_id s x = Some i" "is_assistant_entry (sm_file_entries s ! i)"
    using assms(2) by (auto simp: attribution_target_def split: option.splits if_splits)
  with ix have "i < length (sm_file_entries s)" "row_id (sm_file_entries s ! i) = Some x"
    by (auto simp: index_ok_def)
  then have len: "i < length (sm_file_entries s)" and id: "entry_id (sm_file_entries s ! i) = Some x"
    by (auto simp: row_id_def split: if_splits)
  from assistant_index_complete[OF len i(2) id] obtain j
    where j: "assistant_index 0 (sm_file_entries s) Map.empty x = Some j" by blast
  with assistant_index_props[OF j] ix have "sm_by_id s x = Some j"
    by (auto simp: index_ok_def row_id_def dest: assistant_not_header)
  with i(1) j show "assistant_index 0 (sm_file_entries s) Map.empty x = Some i" by simp
  show "i < length (sm_file_entries s)" "sm_by_id s x = Some i" by (rule len i(1))+
qed

lemma child_usage_durable:
  assumes d: "durable env s" and codec: "readable env (sm_file_entries s)"
    "readable env (sm_file_entries (snd (append_child_usage_attribution env x c a og s)))"
  shows "durable env (snd (append_child_usage_attribution env x c a og s))"
proof (cases "attribution_target s x")
  case (Some i)
  define p where "p = \<lparr>cua_target_id = x, cua_child_usage = c, cua_aggregate_usage = a, cua_origin = og\<rparr>"
  have ok: "manager_ok env s" using d by (simp add: durable_def)
  note target = attribution_target_index[OF ok Some]
  obtain b s1 where nb: "next_base env s = (b, s1)" by fastforce
  define row where "row = FeChildUsageAttributed p b"
  obtain r s2 where ae: "append_entry env row s1 = (r, s2)" by fastforce
  note n = durable_next_base[OF d nb]
  obtain j where j: "eb_id b = Some j" using n(2) by (auto simp: fits_def)
  have base: "entry_base_of row = Some b" "entry_id row = Some j"
    using j by (simp_all add: row_def entry_id_based)
  define s' where "s' = s2\<lparr>sm_file_entries := (sm_file_entries s2)[i := set_usage a (sm_file_entries s2 ! i)]\<rparr>"
  have run: "snd (append_child_usage_attribution env x c a og s) = (case r of Inl _ \<Rightarrow> s2 | Inr _ \<Rightarrow> s')"
    using Some nb ae
    by (auto simp: append_child_usage_attribution_def append_row_def mon_simps row_def p_def s'_def split: sum.splits)
  have keeps: "manager_ok env (snd (append_child_usage_attribution env x c a og s))" by (rule child_usage_keeps[OF ok])
  show ?thesis
  proof (cases r)
    case (Inl err)
    note same = append_entry_error(1)[OF ae[unfolded Inl]]
    have no: "r = Inr () \<Longrightarrow> readable env (sm_file_entries s1 @ [row])" using Inl by simp
    have "clean_io s2" by (rule append_entry_synced(1)[OF n(1,2) base(1) ae no])
    moreover have "synced env s2" by (rule append_entry_synced(3)[OF n(1,2) base(1) ae no Inl])
    moreover have "settled s2" using n(1) same by (simp add: durable_def settled_def same_rows_def)
    ultimately show ?thesis using keeps run Inl same n(1) by (simp add: durable_def same_rows_def)
  next
    case (Inr v)
    have r: "r = Inr ()" using Inr by simp
    note eff = append_entry_ok[OF ae[unfolded Inr] base(2)]
    have rows: "sm_file_entries s' = snoc_row (sm_file_entries s) row"
      using target(1,2) by (simp add: s'_def eff(1) n(3) snoc_row_def row_def p_def nth_append list_update_append)
    have "row \<in> set (sm_file_entries s')" by (simp add: rows snoc_row_def row_def p_def)
    with codec run Inr have "readable env (sm_file_entries s1 @ [row])" by (simp add: readable_def n(3))
    note codec' = this
    have "clean_io s2" by (rule append_entry_synced(1)[OF n(1,2) base(1) ae codec'])
    then have "clean_io s'" by (simp add: clean_io_def s'_def)
    moreover have "synced_with env s2 (snoc_row (sm_file_entries s1) row)"
      by (rule append_entry_synced(2)[OF n(1,2) base(1) ae codec' r])
    then have "synced env s'"
      unfolding synced_def rows n(3) by (rule synced_cong) (simp_all add: s'_def)
    moreover have "targets (sm_file_entries s') \<subseteq> insert x (targets (sm_file_entries s))"
    proof -
      have "FeChildUsageAttributed q b' \<noteq> set_usage a (sm_file_entries s ! i)" for q b'
        using Some by (cases "sm_file_entries s ! i" rule: is_assistant_entry.cases)
          (auto simp: attribution_target_def set_usage_def split: option.splits if_splits)
      then show ?thesis
        using target(1) unfolding rows targets_def
        by (auto simp: snoc_row_def row_def p_def dest!: set_update_subset_insert[THEN subsetD])
    qed
    moreover have "apply_child_usage_attributions (sm_file_entries s') = sm_file_entries s'"
      using snoc_row_settled[OF n(1,2) base(1)] by (simp add: rows n(3))
    moreover have "sm_by_id s' = (sm_by_id s)(j \<mapsto> length (sm_file_entries s))"
      by (simp add: s'_def eff(2) n(3,4))
    ultimately have "settled s'" "clean_io s'" "synced env s'"
      using d target(3) by (auto simp: settled_def durable_def)
    moreover have "sm_file_entries s' \<noteq> []" by (simp add: rows snoc_row_def row_def)
    ultimately show ?thesis using keeps run Inr by (simp add: durable_def)
  qed
qed (use d in \<open>simp add: append_child_usage_attribution_def\<close>)

lemma flush_durable:
  assumes d: "durable env s" and codec: "readable env (sm_file_entries s)"
  shows "durable env (snd (flush_now env s))"
proof (cases "\<not> sm_persist s \<or> sm_session_file s = None \<or> sm_flushed s \<and> file_exists s")
  case True
  with d show ?thesis by (auto simp: flush_now_def)
next
  case False
  then obtain f where f: "sm_persist s" "sm_session_file s = Some f" by auto
  obtain r s1 where t: "try_rewrite_file env s = (r, s1)" by fastforce
  have run: "snd (flush_now env s) = (case r of Inl _ \<Rightarrow> s1 | Inr _ \<Rightarrow> s1\<lparr>sm_flushed := True\<rparr>)"
    using False f t by (auto simp: flush_now_def mon_simps split: sum.splits)
  have keeps: "manager_ok env (snd (flush_now env s))"
    using flush_now_same_rows[of env s "fst (flush_now env s)" "snd (flush_now env s)"] d
    by (auto simp: durable_def intro: manager_ok_same_rows)
  from t f show ?thesis
  proof (cases rule: try_rewrite_cases)
    case written
    then have "rows_of_file env (s1\<lparr>sm_flushed := True\<rparr>) (sm_file_entries s)"
      using codec d f by (simp add: rows_of_file_def same_rows_def file_content_unlines durable_def)
    with d keeps run written show ?thesis
      by (auto simp: durable_def synced_def synced_with_def settled_def clean_io_def same_rows_def dest: in_set_dropD)
  next
    case (failed err)
    then have "synced_with env s1 (sm_file_entries s)"
      using d synced_cong[of env s "sm_file_entries s" s1] by (simp add: durable_def synced_def same_rows_def)
    with d keeps run failed show ?thesis
      by (auto simp: durable_def synced_def settled_def clean_io_def same_rows_def dest: in_set_dropD)
  qed
qed

text \<open>The retained appends keep a row the file did not take; every other operation is strict.\<close>

fun strict :: "session_op \<Rightarrow> bool" where
  "strict (OpMessageRetained _) = False"
| "strict (OpCustomRetained _ _) = False"
| "strict (OpCustomMessageRetained _ _ _ _) = False"
| "strict _ = True"


text \<open>
  An acknowledged row is on disk: when a strict append of a persisted session returns its id, and
  the session has an assistant row or the row is a state or info row, the session file read from
  disk gives the rows in memory, the new one last.
\<close>

lemma acknowledged_row_is_on_disk:
  assumes "durable env s" and "makes_row mk" and "\<forall>b. \<not> is_attribution (mk b)"
    and "append_row env mk s = (Inr x, s')" and "readable env (sm_file_entries s')"
    and "sm_persist s" and "sm_session_file s = Some f"
    and "sm_has_assistant_entry s \<or> (\<forall>b. is_assistant_entry (mk b) \<or> is_state_or_info (mk b))"
  shows "\<exists>b content. eb_id b = Some x \<and> sm_files s' f = Some content
     \<and> parse_session_entries (ev_deser env) content = sm_file_entries s @ [mk b]"
proof -
  obtain b s1 where nb: "next_base env s = (b, s1)" by fastforce
  note n = durable_next_base[OF assms(1) nb]
  obtain i where i: "eb_id b = Some i" using n(2) by (auto simp: fits_def)
  have base: "entry_base_of (mk b) = Some b" using assms(2) by (simp add: makes_row_def)
  obtain r s2 where ae: "append_entry env (mk b) s1 = (r, s2)" by fastforce
  have r: "r = Inr ()" "s' = s2" "x = i"
    using assms(4) nb ae i by (auto simp: append_row_def mon_simps base_id_def split: sum.splits)
  have id: "entry_id (mk b) = Some i" using base i by (simp add: entry_id_based)
  note eff = append_entry_ok[OF ae[unfolded r(1)] id]
  have codec: "readable env (sm_file_entries s1 @ [mk b])" using assms(5) eff(1) r(2) by simp
  have sy: "synced_with env s2 (snoc_row (sm_file_entries s1) (mk b))"
    by (rule append_entry_synced(2)[OF n(1,2) base ae codec r(1)])
  have "sm_flushed s2 \<and> file_exists s2"
    by (rule append_entry_synced(4)[OF n(1,2) base ae codec r(1)]) (use assms(6-8) n(6-8) in auto)
  with sy assms(3,6) n(3,6) eff(6) obtain raw where "rows_of_file env s2 raw"
      and fold: "apply_child_usage_attributions raw = sm_file_entries s @ [mk b]"
    by (auto simp: synced_with_def snoc_row_plain)
  moreover have "sm_session_file s2 = Some f" using eff(5) n(7) assms(7) by simp
  ultimately have "sm_files s2 f = Some (unlines (map (ev_ser env) raw))" "readable env raw"
    by (auto simp: rows_of_file_def)
  with parse_unlines[of raw "ev_ser env" "ev_deser env"] fold i r(2,3) show ?thesis
    by (auto simp: readable_def)
qed

end
