(* ===== verification/SessionFaults.thy ===== *)
theory SessionFaults
  imports SessionStrict
begin

text \<open>
  What a failed append that left bytes behind does to the rows after it, and instances of the
  theorems on the session writer.
\<close>

section \<open>A torn append\<close>

text \<open>A flushed session appends each row to its file, whatever becomes of the write.\<close>

definition streaming :: "session_manager \<Rightarrow> string \<Rightarrow> string \<Rightarrow> bool" where
  "streaming s f c \<longleftrightarrow>
     sm_persist s \<and> sm_flushed s \<and> sm_has_assistant_entry s \<and> sm_session_file s = Some f \<and> sm_files s f = Some c"

lemma append_entry_streaming:
  assumes "streaming s f c"
  shows "append_entry env e s =
    (let s1 = s\<lparr>sm_io := drop 1 (sm_io s)\<rparr> in
     case next_outcome s of
       IoFail k err \<Rightarrow>
         (Inl (IoError err), s1\<lparr>sm_files := (sm_files s)(f \<mapsto> c @ take k (ev_ser env e @ [line_feed]))\<rparr>)
     | IoDone \<Rightarrow>
         (Inr (), index_new_row e (length (sm_file_entries s))
            (s1\<lparr>sm_files := (sm_files s)(f \<mapsto> c @ ev_ser env e @ [line_feed]),
                sm_file_entries := sm_file_entries s @ [e],
                sm_notified := sm_notified s @ replicate (sm_persist_listeners s) f\<rparr>)))"
  using assms
  by (cases s; cases "next_outcome s")
     (auto simp: streaming_def append_entry_def persist_entry_def append_cached_def spend_outcome_def
        file_exists_def mon_simps next_outcome_def notify_persist_listeners_def serialize_entry_def Let_def
        split: list.splits io_outcome.splits)

lemma next_base_streaming:
  assumes "next_base env s = (b, s')"
  shows "streaming s' f c = streaming s f c" and "next_outcome s' = next_outcome s" and "sm_io s' = sm_io s"
    and "sm_files s' = sm_files s" and "sm_file_entries s' = sm_file_entries s"
  using assms by (auto simp: next_base_def streaming_def next_outcome_def split: prod.splits)

text \<open>
  An append that fails after some of its bytes reached the file takes the next row with it. The
  error is reported and the row dropped from memory, but the bytes stay: the next append succeeds,
  its row is the leaf of the session in memory, and on disk it is the rest of a line that does not
  parse, so reading the file back gives the rows from before both appends.
\<close>

lemma torn_append_loses_next_row:
  assumes "streaming s f (unlines (map (ev_ser env) raw))" and "readable env raw"
    and "manager_ok env s" and "makes_row mk1" and "makes_row mk2"
    and "sm_io s = [IoFail k err]" and "0 < k" and "k \<le> length (ev_ser env (mk1 (fst (next_base env s))))"
    and "append_row env mk1 s = (r1, s1)" and "append_row env mk2 s1 = (r2, s2)"
    and "object_line (ev_ser env (mk1 (fst (next_base env s))))"
    and "object_line (ev_ser env (mk2 (fst (next_base env s1))))"
    and "ev_deser env (take k (ev_ser env (mk1 (fst (next_base env s)))) @ ev_ser env (mk2 (fst (next_base env s1)))) = None"
  shows "r1 = Inl (IoError err)
     \<and> (\<exists>x b content. r2 = Inr x \<and> eb_id b = Some x \<and> sm_leaf_id s2 = Some x
          \<and> sm_file_entries s2 = sm_file_entries s @ [mk2 b] \<and> sm_files s2 f = Some content
          \<and> parse_session_entries (ev_deser env) content = apply_child_usage_attributions raw)"
proof -
  obtain b1 t1 where nb1: "next_base env s = (b1, t1)" by fastforce
  define l1 where "l1 = ev_ser env (mk1 b1)"
  have "streaming t1 f (unlines (map (ev_ser env) raw))" using assms(1) next_base_streaming(1)[OF nb1] by simp
  from append_entry_streaming[OF this, of env "mk1 b1"] next_base_streaming[OF nb1] assms(6,8)
  have "append_entry env (mk1 b1) t1 =
      (Inl (IoError err), t1\<lparr>sm_io := [], sm_files := (sm_files t1)(f \<mapsto> unlines (map (ev_ser env) raw) @ take k l1)\<rparr>)"
    by (simp add: next_outcome_def nb1 l1_def)
  with assms(9) nb1 have r1: "r1 = Inl (IoError err)"
    and s1: "s1 = t1\<lparr>sm_io := [], sm_files := (sm_files t1)(f \<mapsto> unlines (map (ev_ser env) raw) @ take k l1)\<rparr>"
    by (auto simp: append_row_def mon_simps)
  obtain b2 t2 where nb2: "next_base env s1 = (b2, t2)" by fastforce
  define l2 where "l2 = ev_ser env (mk2 b2)"
  have "streaming s1 f (unlines (map (ev_ser env) raw) @ take k l1)"
    using assms(1) next_base_streaming(1)[OF nb1, of f "unlines (map (ev_ser env) raw)"]
    by (simp add: streaming_def s1)
  then have "streaming t2 f (unlines (map (ev_ser env) raw) @ take k l1)"
    using next_base_streaming(1)[OF nb2] by simp
  note step = append_entry_streaming[OF this, of env "mk2 b2"]
  have ok1: "manager_ok env s1" using append_row_keeps[OF assms(3,4,9)] .
  obtain i where i: "eb_id b2 = Some i" using next_base_fits(1)[OF ok1 nb2] by (auto simp: fits_def)
  then have id: "entry_id (mk2 b2) = Some i" using assms(5) by (simp add: makes_row_def entry_id_based)
  have io: "sm_io t2 = []" "next_outcome t2 = IoDone"
    using next_base_streaming(3)[OF nb2] by (simp_all add: s1 next_outcome_def)
  have "append_row env mk2 s1 = (Inr i, index_new_row (mk2 b2) (length (sm_file_entries t2))
      (t2\<lparr>sm_io := [], sm_files := (sm_files t2)(f \<mapsto> (unlines (map (ev_ser env) raw) @ take k l1) @ l2 @ [line_feed]),
         sm_file_entries := sm_file_entries t2 @ [mk2 b2],
         sm_notified := sm_notified t2 @ replicate (sm_persist_listeners t2) f\<rparr>))"
    using step io by (simp add: append_row_def nb2 mon_simps i base_id_def l2_def)
  with assms(10) have r2: "r2 = Inr i"
    and s2: "sm_leaf_id s2 = Some i" "sm_file_entries s2 = sm_file_entries t2 @ [mk2 b2]"
      "sm_files s2 f = Some (unlines (map (ev_ser env) raw @ [take k l1 @ l2]))"
    by (auto simp: index_new_row_def id)
  have merged: "object_line (take k l1 @ l2)"
  proof -
    have o1: "object_line l1" and o2: "object_line l2" using assms(11,12) by (simp_all add: nb1 nb2 l1_def l2_def)
    from o1 obtain m where m: "l1 = CHR 0x7B # m @ [CHR 0x7D]" by (rule object_line_edges)
    from o1 have "line_feed \<notin> set (take k l1)" by (auto simp: object_line_def dest: in_set_takeD)
    moreover obtain m2 where "l2 = CHR 0x7B # m2 @ [CHR 0x7D]" using o2 by (rule object_line_edges)
    ultimately show ?thesis using o2 m assms(7) by (cases k) (auto simp: object_line_def)
  qed
  have lines: "\<forall>l \<in> set (map (ev_ser env) raw @ [take k l1 @ l2]). object_line l"
    using merged assms(2) by (auto simp: readable_def reads_back_def)
  have "List.map_filter (ev_deser env) (map (ev_ser env) raw) = raw"
    using assms(2) by (induction raw) (auto simp: readable_def reads_back_def map_filter_def)
  then have "parse_session_entries (ev_deser env) (unlines (map (ev_ser env) raw @ [take k l1 @ l2]))
      = apply_child_usage_attributions raw"
    using assms(13) unfolding parse_object_lines[OF lines] by (simp add: map_filter_def nb1 nb2 l1_def l2_def)
  moreover have "sm_file_entries t2 = sm_file_entries s"
    using next_base_streaming(5)[OF nb1] next_base_streaming(5)[OF nb2] by (simp add: s1)
  ultimately show ?thesis using r1 r2 s2 i by auto
qed

section \<open>Instances\<close>

text \<open>A persisted session of one user row, whose disk answers \<open>io\<close>, and a codec of its rows.\<close>

definition demo_drawn :: string where
  "demo_drawn = ''00000400''"

definition demo_info :: "entry_base \<Rightarrow> file_entry" where
  "demo_info = FeSessionInfo (Some ''n'')"

definition demo_codec_rows :: "file_entry list" where
  "demo_codec_rows =
     [demo_header, demo_user ''a'' None ''x'',
      demo_info \<lparr>eb_id = Some demo_drawn, eb_parent_id = Some ''a'', eb_timestamp = Some (format_iso 0), eb_rest = []\<rparr>]"

definition demo_env :: session_env where
  "demo_env =
     \<lparr>ev_uuid = demo_uuid, ev_uuid7 = demo_uuid, ev_now = (\<lambda>_. 0), ev_git = (\<lambda>_ _. None),
      ev_rlm_depth_var = None, ev_ser = demo_ser,
      ev_deser = (\<lambda>l. find (\<lambda>e. demo_ser e = l) demo_codec_rows), ev_is_json = demo_is_json\<rparr>"

definition demo_manager :: "bool \<Rightarrow> io_outcome list \<Rightarrow> session_manager" where
  "demo_manager assistant io =
     \<lparr>sm_session_id = ''s1'', sm_session_file = Some ''f'', sm_session_dir = ''d'', sm_cwd = ''/w'',
      sm_persist = True, sm_session_dir_backed = True, sm_flushed = True, sm_has_assistant_entry = assistant,
      sm_file_entries = [demo_header, demo_user ''a'' None ''x''], sm_by_id = [''a'' \<mapsto> 1],
      sm_labels_by_id = Map.empty, sm_label_timestamps_by_id = Map.empty, sm_leaf_id = Some ''a'',
      sm_persist_listeners = 1,
      sm_files = [''f'' \<mapsto> unlines (map demo_ser [demo_header, demo_user ''a'' None ''x''])],
      sm_io = io, sm_draws = 0, sm_draws7 = 0, sm_ticks = 0, sm_notified = []\<rparr>"

lemma demo_manager_sel [simp]:
  "sm_file_entries (demo_manager a io) = [demo_header, demo_user ''a'' None ''x'']"
  "sm_by_id (demo_manager a io) = [''a'' \<mapsto> 1]" "sm_leaf_id (demo_manager a io) = Some ''a''"
  "sm_io (demo_manager a io) = io" "sm_persist (demo_manager a io)" "sm_session_file (demo_manager a io) = Some ''f''"
  "sm_has_assistant_entry (demo_manager a io) = a"
  by (simp_all add: demo_manager_def)

lemma demo_codec_lines: "map demo_ser demo_codec_rows = [''{s1}'', ''{a}'', ''{00000400}'']"
  by (simp add: demo_codec_rows_def demo_ser_def demo_header_def demo_user_def demo_info_def demo_base_def
      demo_drawn_def entry_id_def)

lemma find_by_key: "distinct (map f xs) \<Longrightarrow> x \<in> set xs \<Longrightarrow> find (\<lambda>y. f y = f x) xs = Some x"
  by (induction xs) (auto simp: image_iff)

lemma demo_readable: "readable demo_env demo_codec_rows"
  unfolding readable_def
proof
  fix e assume e: "e \<in> set demo_codec_rows"
  then have "demo_ser e \<in> set (map demo_ser demo_codec_rows)" by simp
  moreover have "\<forall>l \<in> set [''{s1}'', ''{a}'', ''{00000400}'']. object_line l \<and> (\<forall>c \<in> set l. byte c < (128 :: nat))"
    by code_simp
  ultimately have "object_line (demo_ser e)" "valid_utf8 (demo_ser e)"
    unfolding demo_codec_lines by (auto simp del: list.set intro!: valid_utf8_ascii)
  moreover have "find (\<lambda>y. demo_ser y = demo_ser e) demo_codec_rows = Some e"
    by (rule find_by_key[OF _ e]) (simp add: demo_codec_lines)
  ultimately show "reads_back (ev_ser demo_env) (ev_deser demo_env) e"
    by (simp add: reads_back_def demo_env_def)
qed

lemma demo_manager_ok: "manager_ok demo_env (demo_manager a io)"
proof -
  have rows: "row_id demo_header = None" "row_id (demo_user ''a'' None ''x'') = Some ''a''"
      "entry_parent_id demo_header = None" "entry_parent_id (demo_user ''a'' None ''x'') = None"
      "is_header demo_header" "\<not> is_header (demo_user ''a'' None ''x'')"
    by code_simp+
  have "demo_uuid k \<noteq> ''a''" for k by (auto simp: demo_uuid_def dest: arg_cong[of _ _ "length"])
  with rows show ?thesis
    using demo_uuid_ok
    by (auto simp: manager_ok_def demo_manager_def demo_env_def header_front_def index_ok_def links_ok_def
        leaf_ok_def ids_fresh_def less_Suc_eq nth_Cons split: nat.splits if_splits)
qed

lemma demo_settled: "apply_child_usage_attributions [demo_header, demo_user ''a'' None ''x''] = [demo_header, demo_user ''a'' None ''x'']"
  by code_simp

lemma demo_durable: "durable demo_env (demo_manager a [])"
proof -
  have "readable demo_env [demo_header, demo_user ''a'' None ''x'']"
    using demo_readable by (simp add: readable_def demo_codec_rows_def)
  then have "rows_of_file demo_env (demo_manager a []) [demo_header, demo_user ''a'' None ''x'']"
    by (simp add: rows_of_file_def demo_manager_def demo_env_def)
  then have "synced demo_env (demo_manager a [])"
    using demo_settled by (auto simp: synced_def synced_with_def demo_manager_def)
  then show ?thesis
    using demo_manager_ok demo_settled
    by (simp add: durable_def settled_def clean_io_def demo_manager_def targets_def)
      (auto simp: demo_header_def demo_user_def)
qed

lemma demo_base_drawn:
  "next_base demo_env (demo_manager a io) =
     (\<lparr>eb_id = Some demo_drawn, eb_parent_id = Some ''a'', eb_timestamp = Some (format_iso 0), eb_rest = []\<rparr>,
      (demo_manager a io)\<lparr>sm_draws := 1, sm_ticks := 1\<rparr>)"
proof -
  have "generate_id demo_uuid (\<lambda>x. [''a'' \<mapsto> (1 :: nat)] x \<noteq> None) 0 = (demo_drawn, 1)" by code_simp
  then show ?thesis by (simp add: next_base_def demo_env_def demo_manager_def)
qed

lemma demo_streaming:
  "streaming (demo_manager True io) ''f'' (unlines (map (ev_ser demo_env) [demo_header, demo_user ''a'' None ''x'']))"
  by (simp add: streaming_def demo_manager_def demo_env_def)

lemma demo_append:
  "\<exists>s'. append_row demo_env demo_info (demo_manager True []) = (Inr demo_drawn, s')
      \<and> sm_file_entries s' = demo_codec_rows"
proof -
  have "streaming ((demo_manager True [])\<lparr>sm_draws := 1, sm_ticks := 1\<rparr>) ''f''
      (unlines (map (ev_ser demo_env) [demo_header, demo_user ''a'' None ''x'']))"
    using demo_streaming by (simp add: streaming_def)
  from append_entry_streaming[OF this] show ?thesis
    by (simp add: append_row_def demo_base_drawn mon_simps next_outcome_def base_id_def
        index_new_row_def demo_info_def entry_id_def demo_codec_rows_def)
qed

text \<open>A label on the one row, a branch to it, an append, and a torn append.\<close>

lemma branch_is_context_path_witness:
  "active_branch (demo_manager False []) = context_path [demo_header, demo_user ''a'' None ''x''] 1
   \<and> get_branch (demo_manager False []) None = Some (active_branch (demo_manager False []))"
  using branch_is_context_path[OF demo_manager_ok, of False "[]" "''a''"] by (simp add: demo_manager_def)

lemma append_extends_branch_or_rolls_back_witness:
  "\<exists>s'. append_row demo_env demo_info (demo_manager True []) = (Inr demo_drawn, s')
      \<and> active_branch s' = active_branch (demo_manager True []) @ [2] \<and> sm_leaf_id s' = Some demo_drawn"
proof -
  obtain s' where s': "append_row demo_env demo_info (demo_manager True []) = (Inr demo_drawn, s')"
    using demo_append by blast
  have "makes_row demo_info" by (simp add: demo_info_def)
  from append_extends_branch_or_rolls_back[OF demo_manager_ok this s'] s' show ?thesis
    by (auto simp: demo_manager_def)
qed


lemma acknowledged_row_is_on_disk_witness:
  "\<exists>s' b content. append_row demo_env demo_info (demo_manager True []) = (Inr demo_drawn, s')
      \<and> sm_files s' ''f'' = Some content \<and> eb_id b = Some demo_drawn
      \<and> parse_session_entries (ev_deser demo_env) content = [demo_header, demo_user ''a'' None ''x'', demo_info b]"
proof -
  obtain s' where s': "append_row demo_env demo_info (demo_manager True []) = (Inr demo_drawn, s')"
    "sm_file_entries s' = demo_codec_rows"
    using demo_append by blast
  have mk: "makes_row demo_info" "\<forall>b. \<not> is_attribution (demo_info b)"
    "\<forall>b. is_assistant_entry (demo_info b) \<or> is_state_or_info (demo_info b)"
    by (simp_all add: demo_info_def)
  have "\<exists>b content. eb_id b = Some demo_drawn \<and> sm_files s' ''f'' = Some content
     \<and> parse_session_entries (ev_deser demo_env) content = sm_file_entries (demo_manager True []) @ [demo_info b]"
    by (rule acknowledged_row_is_on_disk[OF demo_durable mk(1,2) s'(1)])
      (use s'(2) demo_readable mk(3) in simp_all)
  with s'(1) show ?thesis by auto
qed

lemma torn_append_loses_next_row_witness:
  "\<exists>s1 s2 x content. append_row demo_env demo_info (demo_manager True [IoFail 2 ''disk full'']) = (Inl (IoError ''disk full''), s1)
     \<and> append_row demo_env demo_info s1 = (Inr x, s2) \<and> sm_leaf_id s2 = Some x \<and> sm_files s2 ''f'' = Some content
     \<and> parse_session_entries (ev_deser demo_env) content = [demo_header, demo_user ''a'' None ''x'']"
proof -
  define s where "s = demo_manager True [IoFail 2 ''disk full'']"
  obtain r1 s1 where a1: "append_row demo_env demo_info s = (r1, s1)" by fastforce
  obtain r2 s2 where a2: "append_row demo_env demo_info s1 = (r2, s2)" by fastforce
  have ser: "ev_ser demo_env = demo_ser" by (simp add: demo_env_def)
  have l1: "ev_ser demo_env (demo_info (fst (next_base demo_env s))) = ''{00000400}''"
    by (simp add: s_def demo_base_drawn ser demo_ser_def demo_info_def entry_id_def demo_drawn_def)
  have sm: "streaming (s\<lparr>sm_draws := 1, sm_ticks := 1\<rparr>) ''f''
      (unlines (map (ev_ser demo_env) [demo_header, demo_user ''a'' None ''x'']))"
    using demo_streaming by (simp add: streaming_def s_def)
  have "sm_draws s1 = 1" "sm_by_id s1 = [''a'' \<mapsto> 1]"
    using a1 append_entry_streaming[OF sm]
    by (auto simp: s_def append_row_def demo_base_drawn mon_simps next_outcome_def)
  moreover have "generate_id demo_uuid (\<lambda>x. [''a'' \<mapsto> (1 :: nat)] x \<noteq> None) 1 = (''10000400'', 2)" by code_simp
  moreover have "ev_uuid demo_env = demo_uuid" by (simp add: demo_env_def)
  ultimately have "eb_id (fst (next_base demo_env s1)) = Some ''10000400''" by (simp add: next_base_def)
  then have l2: "ev_ser demo_env (demo_info (fst (next_base demo_env s1))) = ''{10000400}''"
    by (simp add: ser demo_ser_def demo_info_def entry_id_def)
  have row: "makes_row demo_info" by (simp add: demo_info_def)
  have codec: "readable demo_env [demo_header, demo_user ''a'' None ''x'']"
    using demo_readable by (simp add: readable_def demo_codec_rows_def)
  have "''{0{10000400}'' \<notin> set (map demo_ser demo_codec_rows)" by (simp add: demo_codec_lines)
  then have "find (\<lambda>e. demo_ser e = ''{0{10000400}'') demo_codec_rows = None"
    unfolding find_None_iff by (metis image_eqI list.set_map)
  then have torn: "ev_deser demo_env (take 2 ''{00000400}'' @ ''{10000400}'') = None"
    by (simp add: demo_env_def)
  have objects: "object_line ''{00000400}''" "object_line ''{10000400}''" by code_simp+
  have ok: "manager_ok demo_env s" "sm_io s = [IoFail 2 ''disk full'']"
    and st: "streaming s ''f'' (unlines (map (ev_ser demo_env) [demo_header, demo_user ''a'' None ''x'']))"
    using demo_streaming demo_manager_ok by (simp_all add: s_def)
  from torn_append_loses_next_row[OF st codec ok(1) row row ok(2) _ _ a1 a2] l1 l2 torn objects a1 a2 demo_settled
  show ?thesis unfolding s_def by auto
qed

end
