(* ===== verification/SessionLifecycle.thy ===== *)
theory SessionLifecycle
  imports SessionQueries
begin

text \<open>
  How a session manager comes to be: \<open>manager/lifecycle.rs\<close> with \<open>manager/header.rs\<close>,
  \<open>manager/ids.rs\<close> and the load of \<open>manager/repair.rs\<close>, without the windowed store. The state a
  constructor starts from supplies the world: the files, the answers of the disk, the draws.
  Directories are not modelled, creating one has no effect here.
\<close>

section \<open>Ids, paths and depths\<close>

definition create_session_id :: "session_env \<Rightarrow> session_manager \<Rightarrow> string \<times> session_manager" where
  "create_session_id env s = (ev_uuid7 env (sm_draws7 s), s\<lparr>sm_draws7 := Suc (sm_draws7 s)\<rparr>)"

text \<open>\<open>Path::join\<close> on Unix.\<close>

definition path_join :: "string \<Rightarrow> string \<Rightarrow> string" where
  "path_join base p =
     (if starts_with p ''/'' then p
      else if base = [] \<or> last base = CHR ''/'' then base @ p
      else base @ ''/'' @ p)"

definition get_session_file_path :: "string \<Rightarrow> string \<Rightarrow> string" where
  "get_session_file_path dir session_id = path_join dir (session_id @ ''.jsonl'')"

definition is_valid_rlm_depth :: "nat option \<Rightarrow> bool" where
  "is_valid_rlm_depth v = (case v of None \<Rightarrow> False | Some d \<Rightarrow> d < u64_max)"

text \<open>\<open>None\<close> is the panic on a value that is not a depth.\<close>

definition root_rlm_depth_from_env :: "session_env \<Rightarrow> nat option" where
  "root_rlm_depth_from_env env =
     (case ev_rlm_depth_var env of
        None \<Rightarrow> Some 0
      | Some v \<Rightarrow>
          if v = [] then Some 0
          else (case parse_u64 v of
                  None \<Rightarrow> None
                | Some d \<Rightarrow> if is_valid_rlm_depth (Some d) then Some d else None))"

definition resolve_session_rlm_depth :: "session_header \<Rightarrow> nat" where
  "resolve_session_rlm_depth h =
     (case hd_rlm_depth h of None \<Rightarrow> 0 | Some d \<Rightarrow> if is_valid_rlm_depth (Some d) then d else 0)"

section \<open>A new session\<close>

record new_session_options =
  no_id :: "string option"
  no_parent_session :: "string option"
  no_rlm_depth :: "nat option"

definition default_options :: new_session_options where
  "default_options = \<lparr>no_id = None, no_parent_session = None, no_rlm_depth = None\<rparr>"

text \<open>The loop that looks for an id whose file does not exist, at most a hundred times.\<close>

fun free_session_id :: "session_env \<Rightarrow> nat \<Rightarrow> string \<Rightarrow> session_manager \<Rightarrow> string \<times> session_manager" where
  "free_session_id env 0 i s = (i, s)"
| "free_session_id env (Suc tries) i s =
     (if sm_files s (get_session_file_path (sm_session_dir s) i) = None then (i, s)
      else let (i', s') = create_session_id env s in free_session_id env tries i' s')"

definition session_target :: "session_env \<Rightarrow> string option \<Rightarrow> (string \<times> string option) store" where
  "session_target env given s =
     (let (session_id, s1) = (case given of Some i \<Rightarrow> (i, s) | None \<Rightarrow> create_session_id env s) in
      if \<not> sm_persist s then (Inr (session_id, None), s1)
      else case given of
        Some i \<Rightarrow>
          (let candidate = get_session_file_path (sm_session_dir s) i in
           if sm_files s candidate \<noteq> None then
             (Inl (Panic (''Session file already exists for id '' @ [CHR 0x22] @ i @ [CHR 0x22] @ '': '' @ candidate)), s1)
           else (Inr (i, Some candidate), s1))
      | None \<Rightarrow>
          (let (i, s2) = create_session_id env s1;
               (i', s3) = free_session_id env 100 i s2
           in (Inr (i', Some (get_session_file_path (sm_session_dir s) i')), s3)))"

text \<open>The depth of the new header. The environment is read whenever no depth is given.\<close>

definition new_rlm_depth :: "session_env \<Rightarrow> new_session_options \<Rightarrow> nat option" where
  "new_rlm_depth env options =
     (case no_rlm_depth options of
        Some d \<Rightarrow> Some d
      | None \<Rightarrow>
          (case root_rlm_depth_from_env env of
             None \<Rightarrow> None
           | Some d \<Rightarrow> Some (case no_parent_session options of Some _ \<Rightarrow> 0 | None \<Rightarrow> d)))"

definition read_clock :: "session_env \<Rightarrow> session_manager \<Rightarrow> string \<times> session_manager" where
  "read_clock env s = (format_iso (ev_now env (sm_ticks s)), s\<lparr>sm_ticks := Suc (sm_ticks s)\<rparr>)"

definition new_session :: "session_env \<Rightarrow> new_session_options \<Rightarrow> string option store" where
  "new_session env options =
     bnd (session_target env (no_id options))
       (\<lambda>(session_id, session_file). \<lambda>s0.
          let s1 = s0\<lparr>sm_session_id := session_id\<rparr>;
              (timestamp, s2) = read_clock env s1;
              git = (if sm_persist s2 then ev_git env (sm_ticks s2) (sm_cwd s2) else None)
          in case new_rlm_depth env options of
               None \<Rightarrow> (Inl (Panic ''RLM_DEPTH must be a non-negative integer''), s2)
             | Some depth \<Rightarrow>
                 (Inr session_file,
                  s2\<lparr>sm_file_entries :=
                       [FeHeader \<lparr>hd_version = Some current_session_version, hd_id = session_id,
                                  hd_timestamp = timestamp, hd_cwd = sm_cwd s2,
                                  hd_parent_session = no_parent_session options,
                                  hd_rlm_depth = Some depth, hd_git = git, hd_rest = []\<rparr>],
                     sm_has_assistant_entry := False, sm_by_id := Map.empty,
                     sm_labels_by_id := Map.empty, sm_label_timestamps_by_id := Map.empty,
                     sm_leaf_id := None, sm_flushed := False,
                     sm_session_file := (if sm_persist s2 then session_file else sm_session_file s2)\<rparr>))"

section \<open>Loading a file\<close>

text \<open>The repair writes by rename: a failed write leaves the file, and its error is dropped.\<close>

definition repair_file :: "session_env \<Rightarrow> string \<Rightarrow> session_manager \<Rightarrow> session_manager" where
  "repair_file env f s =
     (case sm_files s f of
        None \<Rightarrow> s
      | Some content \<Rightarrow>
          (case repair_jsonl_damage (ev_is_json env) content of
             None \<Rightarrow> s
           | Some content' \<Rightarrow>
               (case next_outcome s of
                  IoFail _ _ \<Rightarrow> spend_outcome s
                | IoDone \<Rightarrow> (spend_outcome s)\<lparr>sm_files := (sm_files s)(f \<mapsto> content')\<rparr>)))"

definition load_entries_from_file ::
    "session_env \<Rightarrow> string \<Rightarrow> bool \<Rightarrow> session_manager \<Rightarrow> file_entry list \<times> session_manager" where
  "load_entries_from_file env f repair s =
     (case sm_files s f of
        None \<Rightarrow> ([], s)
      | Some _ \<Rightarrow>
          let s1 = (if repair then repair_file env f s else s)
          in (case sm_files s1 f of None \<Rightarrow> [] | Some content \<Rightarrow> read_entries (ev_deser env) content, s1))"

text \<open>How many ids the migration of version 1 draws.\<close>

fun assign_draws :: "(nat \<Rightarrow> string) \<Rightarrow> nat \<Rightarrow> string list \<Rightarrow> file_entry list \<Rightarrow> nat" where
  "assign_draws uuid n ids [] = n"
| "assign_draws uuid n ids (e # es) =
     (if is_header e then assign_draws uuid n ids es
      else let (i, n') = generate_id uuid (\<lambda>x. x \<in> set ids) n in assign_draws uuid n' (i # ids) es)"

definition migration_draws :: "(nat \<Rightarrow> string) \<Rightarrow> nat \<Rightarrow> file_entry list \<Rightarrow> nat" where
  "migration_draws uuid n es = (if header_version es < 2 then assign_draws uuid n [] es else n)"

text \<open>The header of a child session whose depth is missing or invalid is given one.\<close>

definition fix_rlm_depth :: "file_entry list \<Rightarrow> bool \<times> file_entry list" where
  "fix_rlm_depth es =
     (case es of
        FeHeader h # rest \<Rightarrow>
          if hd_parent_session h \<noteq> None \<and> \<not> is_valid_rlm_depth (hd_rlm_depth h)
          then (True, FeHeader (h\<lparr>hd_rlm_depth := Some (resolve_session_rlm_depth h)\<rparr>) # rest)
          else (False, es)
      | _ \<Rightarrow> (False, es))"

definition first_header :: "file_entry list \<Rightarrow> session_header option" where
  "first_header es = (case List.map_filter header_of es of [] \<Rightarrow> None | h # _ \<Rightarrow> Some h)"

definition adopt_loaded :: "session_env \<Rightarrow> file_entry list \<Rightarrow> session_manager \<Rightarrow> session_manager" where
  "adopt_loaded env entries s =
     (let (session_id, s1) = (case first_header entries of
              Some h \<Rightarrow> (hd_id h, s) | None \<Rightarrow> create_session_id env s);
          (migrated, es1) = migrate_to_current_version (ev_uuid env) (sm_draws s1) entries;
          s2 = s1\<lparr>sm_session_id := session_id,
                  sm_draws := (if migrated then migration_draws (ev_uuid env) (sm_draws s1) entries
                               else sm_draws s1)\<rparr>;
          (fixed, es2) = fix_rlm_depth es1;
          s3 = s2\<lparr>sm_file_entries := es2\<rparr>;
          s4 = (if migrated \<or> fixed then rewrite_file env s3 else s3)
      in (build_index s4)\<lparr>sm_flushed := True\<rparr>)"

definition set_session_file ::
    "session_env \<Rightarrow> string \<Rightarrow> file_entry list option \<Rightarrow> unit store" where
  "set_session_file env f preloaded s0 =
     (let s = s0\<lparr>sm_session_file := Some f\<rparr> in
      if sm_files s f = None then
        thn (new_session env default_options) (upd (\<lambda>s. s\<lparr>sm_session_file := Some f\<rparr>)) s
      else
        let (entries, s1) = (case preloaded of
                Some es \<Rightarrow> (es, s) | None \<Rightarrow> load_entries_from_file env f (sm_persist s) s);
            s2 = refresh_has_assistant_entry entries s1
        in if entries = [] then
             thn (new_session env default_options)
               (upd (\<lambda>s. (rewrite_file env (s\<lparr>sm_session_file := Some f\<rparr>))\<lparr>sm_flushed := True\<rparr>)) s2
           else (Inr (), adopt_loaded env entries s2))"

section \<open>Constructors\<close>

definition blank_manager :: "session_manager \<Rightarrow> string \<Rightarrow> string \<Rightarrow> bool \<Rightarrow> session_manager" where
  "blank_manager world cwd dir persist =
     world\<lparr>sm_session_id := [], sm_session_file := None, sm_session_dir := dir, sm_cwd := cwd,
           sm_persist := persist, sm_session_dir_backed := persist, sm_flushed := False,
           sm_has_assistant_entry := False, sm_file_entries := [], sm_by_id := Map.empty,
           sm_labels_by_id := Map.empty, sm_label_timestamps_by_id := Map.empty, sm_leaf_id := None,
           sm_persist_listeners := 0\<rparr>"

definition new_with ::
    "session_env \<Rightarrow> string \<Rightarrow> string \<Rightarrow> string option \<Rightarrow> bool \<Rightarrow> unit store" where
  "new_with env cwd dir session_file persist world =
     (let s = blank_manager world cwd dir persist in
      case session_file of
        Some f \<Rightarrow> set_session_file env f None s
      | None \<Rightarrow> thn (new_session env default_options) (ret ()) s)"

definition persisted_session :: "session_env \<Rightarrow> string \<Rightarrow> string \<Rightarrow> unit store" where
  "persisted_session env cwd dir = new_with env cwd dir None True"

definition in_memory :: "session_env \<Rightarrow> string \<Rightarrow> unit store" where
  "in_memory env cwd = new_with env cwd cwd None False"

definition in_memory_in_session_dir :: "session_env \<Rightarrow> string \<Rightarrow> string \<Rightarrow> unit store" where
  "in_memory_in_session_dir env cwd dir =
     thn (new_with env cwd dir None False) (upd (\<lambda>s. s\<lparr>sm_session_dir_backed := True\<rparr>))"

definition has_session_dir :: "session_manager \<Rightarrow> bool" where
  "has_session_dir s = sm_session_dir_backed s"

definition open_session :: "session_env \<Rightarrow> string \<Rightarrow> string \<Rightarrow> string \<Rightarrow> unit store" where
  "open_session env cwd dir f = new_with env cwd dir (Some f) True"

section \<open>Taking over entries\<close>

definition adopt_entries :: "file_entry list \<Rightarrow> session_manager \<Rightarrow> session_manager" where
  "adopt_entries entries s =
     build_index (s\<lparr>sm_file_entries :=
       (if list_ex is_header (sm_file_entries s)
        then takeWhile (\<lambda>e. \<not> is_header e) (sm_file_entries s)
             @ [hd (dropWhile (\<lambda>e. \<not> is_header e) (sm_file_entries s))] @ entries
        else entries)\<rparr>)"

text \<open>
  \<open>materialize_session_file\<close>: the new header goes before the rows the manager has, the old header
  among them, and the index is not rebuilt.
\<close>

definition materialize_session_file ::
    "session_env \<Rightarrow> string option \<Rightarrow> session_manager \<Rightarrow> string \<times> session_manager" where
  "materialize_session_file env session_dir s =
     (case sm_session_file s of
        Some f \<Rightarrow> (f, s)
      | None \<Rightarrow>
          let dir = (case session_dir of
                Some d \<Rightarrow> d
              | None \<Rightarrow> if sm_session_dir s \<noteq> [] then sm_session_dir s else path_join (sm_cwd s) ''sessions'');
              previous_header = get_header s;
              (session_id, s1) = create_session_id env s;
              target = get_session_file_path dir session_id;
              s2 = s1\<lparr>sm_session_dir := dir, sm_session_id := session_id, sm_session_file := Some target,
                      sm_persist := True, sm_session_dir_backed := True\<rparr>;
              (timestamp, s3) = read_clock env s2;
              git = ev_git env (sm_ticks s3) (sm_cwd s3);
              header = FeHeader
                \<lparr>hd_version = Some current_session_version, hd_id = session_id, hd_timestamp = timestamp,
                 hd_cwd = sm_cwd s3,
                 hd_parent_session = (case previous_header of None \<Rightarrow> None | Some h \<Rightarrow> hd_parent_session h),
                 hd_rlm_depth = Some (case previous_header of
                     None \<Rightarrow> 0 | Some h \<Rightarrow> (case hd_rlm_depth h of None \<Rightarrow> 0 | Some d \<Rightarrow> d)),
                 hd_git = git, hd_rest = []\<rparr>;
              s4 = s3\<lparr>sm_file_entries := header # sm_file_entries s3,
                      sm_has_assistant_entry := list_ex is_assistant_entry (sm_file_entries s3)\<rparr>
          in (target, (rewrite_file env s4)\<lparr>sm_flushed := True\<rparr>))"

end
