(* ===== verification/SessionOpen.thy ===== *)
theory SessionOpen
  imports SessionStrict SessionLifecycle
begin

text \<open>
  What a session manager is right after it was made: the writer's invariant of every session that
  can be reached, and the round trip of a session through its file.
\<close>

section \<open>The index of a list of rows\<close>

definition row_ids :: "file_entry list \<Rightarrow> string list" where
  "row_ids es = List.map_filter row_id es"

lemma row_ids_snoc: "row_ids (es @ [e]) = row_ids es @ (case row_id e of None \<Rightarrow> [] | Some x \<Rightarrow> [x])"
  by (auto simp: row_ids_def map_filter_def split: option.splits)

lemma row_ids_set: "x \<in> set (row_ids es) \<longleftrightarrow> (\<exists>i < length es. row_id (es ! i) = Some x)"
  by (induction es rule: rev_induct)
     (auto simp: row_ids_snoc nth_append less_Suc_eq split: option.splits, auto simp: row_ids_def map_filter_def)

lemma index_ok_snoc:
  assumes "index_ok es m" and "\<And>x. row_id e = Some x \<Longrightarrow> m x = None"
  shows "index_ok (es @ [e]) (case row_id e of None \<Rightarrow> m | Some x \<Rightarrow> m(x \<mapsto> length es))"
  unfolding index_ok_def
proof (intro allI)
  fix x j
  have old: "m x \<noteq> Some (length es)" using assms(1) by (auto simp: index_ok_def)
  show "(case row_id e of None \<Rightarrow> m | Some x \<Rightarrow> m(x \<mapsto> length es)) x = Some j \<longleftrightarrow>
      j < length (es @ [e]) \<and> row_id ((es @ [e]) ! j) = Some x"
  proof (cases "j = length es")
    case True
    with old show ?thesis by (cases "row_id e") auto
  next
    case False
    have none: "row_id (es ! j) \<noteq> Some y" if "row_id e = Some y" "j < length es" for y
      using assms(1) assms(2)[OF that(1)] that(2) unfolding index_ok_def by (metis option.distinct(1))
    with False assms(1) show ?thesis
      by (cases "row_id e") (auto simp: index_ok_def nth_append)
  qed
qed

definition cleared :: "session_manager \<Rightarrow> session_manager" where
  "cleared s = s\<lparr>sm_by_id := Map.empty, sm_labels_by_id := Map.empty, sm_label_timestamps_by_id := Map.empty,
                 sm_leaf_id := None\<rparr>"

definition indexed :: "session_manager \<Rightarrow> file_entry list \<Rightarrow> session_manager" where
  "indexed s es = foldl index_row (cleared s) (enumerate 0 es)"

lemma build_index_indexed: "build_index s = indexed s (sm_file_entries s)"
  by (simp add: build_index_def indexed_def cleared_def)

lemma indexed_Nil [simp]: "indexed s [] = cleared s"
  by (simp add: indexed_def)

lemma indexed_snoc: "indexed s (es @ [e]) = index_row (indexed s es) (length es, e)"
  by (simp add: indexed_def enumerate_append_eq)

lemma index_row_by_id:
  "sm_by_id (index_row s (i, e)) = (case row_id e of None \<Rightarrow> sm_by_id s | Some x \<Rightarrow> (sm_by_id s)(x \<mapsto> i))"
  "sm_leaf_id (index_row s (i, e)) = (case row_id e of None \<Rightarrow> sm_leaf_id s | Some x \<Rightarrow> Some x)"
  by (cases "entry_id e"; cases e; simp add: index_row_def row_id_def Let_def apply_label_entry_def split: option.splits)+

lemma index_row_frame:
  "sm_file_entries (index_row s ie) = sm_file_entries s" "sm_draws (index_row s ie) = sm_draws s"
  "sm_session_file (index_row s ie) = sm_session_file s" "sm_persist (index_row s ie) = sm_persist s"
  "sm_files (index_row s ie) = sm_files s" "sm_io (index_row s ie) = sm_io s"
  "sm_has_assistant_entry (index_row s ie) = sm_has_assistant_entry s"
  by (cases ie; cases "snd ie"; cases "entry_id (snd ie)";
      simp add: index_row_def Let_def apply_label_entry_def split: option.splits)+

lemma indexed_frame:
  "sm_file_entries (indexed s es) = sm_file_entries s" "sm_draws (indexed s es) = sm_draws s"
  "sm_session_file (indexed s es) = sm_session_file s" "sm_persist (indexed s es) = sm_persist s"
  "sm_files (indexed s es) = sm_files s" "sm_io (indexed s es) = sm_io s"
  "sm_has_assistant_entry (indexed s es) = sm_has_assistant_entry s"
  by (induction es rule: rev_induct) (simp_all add: indexed_snoc index_row_frame cleared_def)

lemma indexed_ok:
  assumes "distinct (row_ids es)"
  shows "index_ok es (sm_by_id (indexed s es))"
    and "sm_leaf_id (indexed s es) = (case row_ids es of [] \<Rightarrow> None | _ \<Rightarrow> Some (last (row_ids es)))"
  using assms
proof (induction es rule: rev_induct)
  case Nil
  { case 1 then show ?case by (simp add: index_ok_def cleared_def) }
  { case 2 then show ?case by (simp add: row_ids_def map_filter_def cleared_def) }
next
  case (snoc e es)
  { case 1
    then have d: "distinct (row_ids es)" by (simp add: row_ids_snoc)
    have "sm_by_id (indexed s es) x = None" if "row_id e = Some x" for x
    proof -
      have "x \<notin> set (row_ids es)" using 1 that by (auto simp: row_ids_snoc)
      with snoc.IH(1)[OF d] show ?thesis
        unfolding index_ok_def row_ids_set by (metis not_None_eq)
    qed
    from index_ok_snoc[OF snoc.IH(1)[OF d] this] show ?case by (simp add: indexed_snoc index_row_by_id) }
  { case 2
    then have d: "distinct (row_ids es)" by (simp add: row_ids_snoc)
    show ?case
      using snoc.IH(2)[OF d]
      by (cases "row_id e") (auto simp: indexed_snoc index_row_by_id row_ids_snoc split: list.splits) }
qed

section \<open>Well-formed rows\<close>

text \<open>One header at the front, distinct ids, every parent an earlier row.\<close>

definition rows_ok :: "file_entry list \<Rightarrow> bool" where
  "rows_ok es \<longleftrightarrow>
     header_front es \<and> distinct (row_ids es)
     \<and> (\<forall>i < length es. case entry_parent_id (es ! i) of
          None \<Rightarrow> True | Some p \<Rightarrow> (\<exists>j < i. row_id (es ! j) = Some p))"

lemma index_unique: "index_ok es m \<Longrightarrow> index_ok es m' \<Longrightarrow> m = m'"
  unfolding index_ok_def by (rule ext) (metis option.exhaust)

lemma build_index_ok:
  assumes "rows_ok (sm_file_entries s)" and "uuid_ok (ev_uuid env)"
    and "\<forall>k \<ge> sm_draws s. ev_uuid env k \<notin> set (row_ids (sm_file_entries s))"
  shows "manager_ok env (build_index s)"
proof -
  define t where "t = build_index s"
  have t: "t = indexed s (sm_file_entries s)" by (simp add: t_def build_index_indexed)
  have d: "distinct (row_ids (sm_file_entries s))" using assms(1) by (simp add: rows_ok_def)
  have ix: "index_ok (sm_file_entries s) (sm_by_id t)" unfolding t by (rule indexed_ok(1)[OF d])
  have known: "sm_by_id t x \<noteq> None \<longleftrightarrow> x \<in> set (row_ids (sm_file_entries s))" for x
    using ix unfolding index_ok_def row_ids_set by (metis not_None_eq)
  have links: "links_ok (sm_file_entries s) (sm_by_id t)"
    unfolding links_ok_def
  proof (intro allI impI)
    fix i assume i: "i < length (sm_file_entries s)"
    show "case entry_parent_id (sm_file_entries s ! i) of None \<Rightarrow> True | Some p \<Rightarrow> \<exists>j < i. sm_by_id t p = Some j"
    proof (cases "entry_parent_id (sm_file_entries s ! i)")
      case (Some p)
      with assms(1) i obtain j where "j < i" "row_id (sm_file_entries s ! j) = Some p"
        by (fastforce simp: rows_ok_def)
      with ix i have "sm_by_id t p = Some j" by (simp add: index_ok_def)
      with \<open>j < i\<close> Some show ?thesis by auto
    qed simp
  qed
  have "leaf_ok t"
    using indexed_ok(2)[OF d, of s] known
    by (auto simp: leaf_ok_def t split: list.splits if_splits)
  moreover have "ids_fresh env t"
    using assms(3) known[of "ev_uuid env _"] unfolding ids_fresh_def by (metis indexed_frame(2) t)
  ultimately show ?thesis
    using ix links assms(1,2) unfolding t_def[symmetric]
    by (simp add: manager_ok_def rows_ok_def t indexed_frame)
qed

section \<open>Sessions that can be reached\<close>

lemma new_session_ok:
  assumes "new_session env options s = (Inr f, s')" and "uuid_ok (ev_uuid env)"
  shows "manager_ok env s'" and "length (sm_file_entries s') = 1" and "header_front (sm_file_entries s')"
proof -
  obtain r s0 where t: "session_target env (no_id options) s = (r, s0)" by fastforce
  obtain i g where r: "r = Inr (i, g)"
    using assms(1) t by (cases r) (auto simp: new_session_def mon_simps)
  have d: "\<exists>d. new_rlm_depth env options = Some d"
    using assms(1) t r by (auto simp: new_session_def mon_simps Let_def read_clock_def split: option.splits)
  then obtain h where "sm_file_entries s' = [FeHeader h]" "sm_by_id s' = Map.empty" "sm_leaf_id s' = None"
    using assms(1) t r by (auto simp: new_session_def mon_simps Let_def read_clock_def)
  then show "manager_ok env s'" "length (sm_file_entries s') = 1" "header_front (sm_file_entries s')"
    using assms(2) by (auto simp: manager_ok_def header_front_def index_ok_def links_ok_def leaf_ok_def
        ids_fresh_def row_id_def entry_parent_id_def)
qed

text \<open>A file whose rows a switch to it can take over as they are.\<close>

definition sound_rows :: "session_env \<Rightarrow> session_manager \<Rightarrow> file_entry list \<Rightarrow> bool" where
  "sound_rows env s es \<longleftrightarrow>
     es \<noteq> [] \<and> rows_ok es \<and> current_session_version \<le> header_version es
     \<and> (\<forall>k \<ge> sm_draws s. ev_uuid env k \<notin> set (row_ids es))"

lemma fix_depth_rows:
  "row_ids (snd (fix_rlm_depth es)) = row_ids es" "header_front (snd (fix_rlm_depth es)) = header_front es"
  "rows_ok (snd (fix_rlm_depth es)) = rows_ok es"
proof -
  have eq: "snd (fix_rlm_depth es) = es \<or> (\<exists>h h' rest. es = FeHeader h # rest \<and> snd (fix_rlm_depth es) = FeHeader h' # rest)"
    by (cases es; cases "hd es"; simp add: fix_rlm_depth_def)
  have row: "row_id (FeHeader h) = None" "entry_parent_id (FeHeader h) = None" "is_header (FeHeader h)" for h
    by (simp_all add: row_id_def entry_parent_id_def)
  have ids: "row_ids (FeHeader h # rest) = row_ids rest" for h rest
    by (simp add: row_ids_def map_filter_def row)
  have front: "header_front (FeHeader h # rest) = header_front (FeHeader h' # rest)" for h h' rest
    by (simp add: header_front_def nth_Cons row split: nat.splits)
  have all: "rows_ok (FeHeader h # rest) = rows_ok (FeHeader h' # rest)" for h h' rest
  proof -
    have "row_id ((FeHeader h # rest) ! j) = row_id ((FeHeader h' # rest) ! j)"
      "entry_parent_id ((FeHeader h # rest) ! j) = entry_parent_id ((FeHeader h' # rest) ! j)" for j
      by (cases j; simp add: row)+
    then show ?thesis by (simp add: rows_ok_def ids front[of h rest h'] cong: option.case_cong)
  qed
  from eq show "row_ids (snd (fix_rlm_depth es)) = row_ids es"
    "header_front (snd (fix_rlm_depth es)) = header_front es" "rows_ok (snd (fix_rlm_depth es)) = rows_ok es"
    using ids front all by (elim disjE exE conjE; simp)+
qed

lemma rewrite_same_rows: "same_rows s (rewrite_file env s)"
  using try_rewrite_same_rows[of env s "fst (try_rewrite_file env s)"] by (simp add: rewrite_file_def)

lemma adopt_loaded_ok:
  assumes "sound_rows env s es" and "uuid_ok (ev_uuid env)"
  shows "manager_ok env (adopt_loaded env es s)"
    and "sm_file_entries (adopt_loaded env es s) = snd (fix_rlm_depth es)"
proof -
  define s1 where "s1 = snd (case first_header es of Some h \<Rightarrow> (hd_id h, s) | None \<Rightarrow> create_session_id env s)"
  define i where "i = fst (case first_header es of Some h \<Rightarrow> (hd_id h, s) | None \<Rightarrow> create_session_id env s)"
  have draws: "sm_draws s1 = sm_draws s"
    by (cases "first_header es") (simp_all add: s1_def create_session_id_def)
  have m: "migrate_to_current_version (ev_uuid env) n es = (False, es)" for n
    using assms(1) by (simp add: migrate_to_current_version_def sound_rows_def Let_def)
  define s3 where "s3 = s1\<lparr>sm_session_id := i, sm_draws := sm_draws s1, sm_file_entries := snd (fix_rlm_depth es)\<rparr>"
  define s4 where "s4 = (if fst (fix_rlm_depth es) then rewrite_file env s3 else s3)"
  have run: "adopt_loaded env es s = (build_index s4)\<lparr>sm_flushed := True\<rparr>"
    by (simp add: adopt_loaded_def Let_def case_prod_unfold m s1_def i_def s3_def s4_def)
  have same: "same_rows s3 s4" using rewrite_same_rows by (simp add: s4_def)
  then have rows: "sm_file_entries s4 = snd (fix_rlm_depth es)" "sm_draws s4 = sm_draws s"
    by (simp_all add: same_rows_def s3_def draws)
  have "manager_ok env (build_index s4)"
    using assms by (intro build_index_ok) (simp_all add: rows fix_depth_rows sound_rows_def)
  then show "manager_ok env (adopt_loaded env es s)"
    by (simp add: run manager_ok_def leaf_ok_def ids_fresh_def)
  show "sm_file_entries (adopt_loaded env es s) = snd (fix_rlm_depth es)"
    by (simp add: run build_index_indexed indexed_frame rows)
qed

text \<open>
  The states of a session manager: a fresh one, one opened on a sound file, and what the operations,
  a switch to a new session and a switch to a sound file make of them. Opening a damaged file repairs
  it first; the rows that count are the ones read after the repair.
\<close>

definition rows_on_disk :: "session_env \<Rightarrow> string \<Rightarrow> bool \<Rightarrow> session_manager \<Rightarrow> file_entry list" where
  "rows_on_disk env f repair s = fst (load_entries_from_file env f repair s)"

inductive reachable :: "session_env \<Rightarrow> session_manager \<Rightarrow> bool" for env where
  fresh: "new_with env cwd dir None persist world = (Inr (), s) \<Longrightarrow> reachable env s"
| operate: "reachable env s \<Longrightarrow> reachable env (perform env operation s)"
| renew: "reachable env s \<Longrightarrow> new_session env options s = (Inr g, s') \<Longrightarrow> reachable env s'"
| adopt: "reachable env s \<Longrightarrow> rows_ok (sm_file_entries (adopt_entries es s))
    \<Longrightarrow> \<forall>k \<ge> sm_draws s. ev_uuid env k \<notin> set (row_ids (sm_file_entries (adopt_entries es s)))
    \<Longrightarrow> reachable env (adopt_entries es s)"
| switch: "sm_files s f \<noteq> None \<Longrightarrow> sound_rows env s (rows_on_disk env f (sm_persist s) (s\<lparr>sm_session_file := Some f\<rparr>))
    \<Longrightarrow> set_session_file env f None s = (Inr (), s') \<Longrightarrow> reachable env s'"
| switch_missing: "sm_files s f = None \<Longrightarrow> set_session_file env f None s = (Inr (), s') \<Longrightarrow> reachable env s'"
| reset: "sm_files s f \<noteq> None \<Longrightarrow> rows_on_disk env f (sm_persist s) (s\<lparr>sm_session_file := Some f\<rparr>) = []
    \<Longrightarrow> set_session_file env f None s = (Inr (), s') \<Longrightarrow> reachable env s'"

lemma repair_file_draws: "sm_draws (repair_file env f s) = sm_draws s"
  by (simp add: repair_file_def spend_outcome_def split: option.splits io_outcome.splits)

lemma load_draws: "sm_draws (snd (load_entries_from_file env f b s)) = sm_draws s"
  by (simp add: load_entries_from_file_def Let_def repair_file_draws split: option.splits)

lemma set_session_file_sound:
  assumes "sm_files s f \<noteq> None" and "sound_rows env s (rows_on_disk env f (sm_persist s) (s\<lparr>sm_session_file := Some f\<rparr>))"
    and "set_session_file env f None s = (r, s')" and "uuid_ok (ev_uuid env)"
  shows "r = Inr ()" and "manager_ok env s'"
proof -
  define es where "es = rows_on_disk env f (sm_persist s) (s\<lparr>sm_session_file := Some f\<rparr>)"
  define s1 where "s1 = snd (load_entries_from_file env f (sm_persist s) (s\<lparr>sm_session_file := Some f\<rparr>))"
  have es: "es \<noteq> []" using assms(2) by (simp add: es_def sound_rows_def)
  have "load_entries_from_file env f (sm_persist s) (s\<lparr>sm_session_file := Some f\<rparr>) = (es, s1)"
    by (simp add: es_def s1_def rows_on_disk_def)
  then have run: "r = Inr () \<and> s' = adopt_loaded env es (refresh_has_assistant_entry es s1)"
    using assms(1,3) es by (auto simp: set_session_file_def Let_def)
  have "sound_rows env (refresh_has_assistant_entry es s1) es"
    using assms(2) load_draws[of env f "sm_persist s" "s\<lparr>sm_session_file := Some f\<rparr>"]
    by (simp add: sound_rows_def es_def[symmetric] refresh_has_assistant_entry_def s1_def)
  from adopt_loaded_ok(1)[OF this assms(4)] run show "r = Inr ()" "manager_ok env s'" by simp_all
qed

lemma new_session_then_ok:
  assumes "thn (new_session env options) (upd g) s = (Inr (), s')" and "uuid_ok (ev_uuid env)"
    and "\<And>t. manager_ok env t \<Longrightarrow> manager_ok env (g t)"
  shows "manager_ok env s'"
  using assms new_session_ok(1)[of env options s _ _] by (fastforce simp: mon_simps split: sum.splits prod.splits)


section \<open>A session comes back from its file\<close>

lemma repair_clean:
  assumes "\<forall>l \<in> set ls. codec_line is_json l"
  shows "repair_jsonl_damage is_json (unlines ls) = None"
proof -
  have "repair_loop is_json (unlines ls) [] False = (ls, False)"
    using repair_loop_lines[of ls is_json "[]" "[]" False] assms
    by (auto simp: codec_line_def object_line_def repair_loop.simps[of _ "[]"])
  then show ?thesis by (simp add: repair_jsonl_damage_def)
qed

lemma header_front_hd: "header_front es \<Longrightarrow> e \<in> set es \<Longrightarrow> is_header e \<Longrightarrow> hd es = e"
  by (auto simp: header_front_def in_set_conv_nth hd_conv_nth)

lemma distinct_row_ids:
  assumes "\<And>i j x. i < length es \<Longrightarrow> j < length es \<Longrightarrow> row_id (es ! i) = Some x \<Longrightarrow> row_id (es ! j) = Some x \<Longrightarrow> i = j"
  shows "distinct (row_ids es)"
  using assms
proof (induction es rule: rev_induct)
  case Nil
  then show ?case by (simp add: row_ids_def map_filter_def)
next
  case (snoc e es)
  have "distinct (row_ids es)"
  proof (rule snoc.IH)
    fix i j x assume "i < length es" "j < length es" "row_id (es ! i) = Some x" "row_id (es ! j) = Some x"
    then show "i = j" using snoc.prems[of i j x] by (simp add: nth_append)
  qed
  moreover have "x \<notin> set (row_ids es)" if "row_id e = Some x" for x
  proof
    assume "x \<in> set (row_ids es)"
    then obtain i where "i < length es" "row_id (es ! i) = Some x" by (auto simp: row_ids_set)
    with snoc.prems[of i "length es" x] that show False by (simp add: nth_append)
  qed
  ultimately show ?case by (cases "row_id e") (simp_all add: row_ids_snoc)
qed

lemma index_ok_distinct: "index_ok es m \<Longrightarrow> distinct (row_ids es)"
  by (rule distinct_row_ids) (metis index_ok_def option.inject)

lemma manager_rows_ok:
  assumes ok: "manager_ok env s"
  shows "rows_ok (sm_file_entries s)"
  unfolding rows_ok_def
proof (intro conjI allI impI)
  show "header_front (sm_file_entries s)" using ok by (simp add: manager_ok_def)
  have ix: "index_ok (sm_file_entries s) (sm_by_id s)" using ok by (simp add: manager_ok_def)
  show "distinct (row_ids (sm_file_entries s))" using ix by (rule index_ok_distinct)
  fix i assume "i < length (sm_file_entries s)"
  with ok ix show "case entry_parent_id (sm_file_entries s ! i) of
      None \<Rightarrow> True | Some p \<Rightarrow> \<exists>j < i. row_id (sm_file_entries s ! j) = Some p"
    by (fastforce simp: manager_ok_def links_ok_def index_ok_def split: option.splits)
qed

lemma adopt_loaded_plain:
  assumes "sound_rows env s es" and "fst (fix_rlm_depth es) = False"
  shows "\<exists>u. adopt_loaded env es s = (build_index u)\<lparr>sm_flushed := True\<rparr> \<and> sm_file_entries u = es
     \<and> sm_files u = sm_files s \<and> sm_session_file u = sm_session_file s"
proof -
  define s1 where "s1 = snd (case first_header es of Some h \<Rightarrow> (hd_id h, s) | None \<Rightarrow> create_session_id env s)"
  define i where "i = fst (case first_header es of Some h \<Rightarrow> (hd_id h, s) | None \<Rightarrow> create_session_id env s)"
  have frame: "sm_files s1 = sm_files s" "sm_session_file s1 = sm_session_file s"
    by (cases "first_header es"; simp add: s1_def create_session_id_def)+
  have m: "migrate_to_current_version (ev_uuid env) n es = (False, es)" for n
    using assms(1) by (simp add: migrate_to_current_version_def sound_rows_def Let_def)
  have "snd (fix_rlm_depth es) = es" using assms(2) by (auto simp: fix_rlm_depth_def split: list.splits file_entry.splits if_splits)
  then have "adopt_loaded env es s =
      (build_index (s1\<lparr>sm_session_id := i, sm_draws := sm_draws s1, sm_file_entries := es\<rparr>))\<lparr>sm_flushed := True\<rparr>"
    using assms(2) by (simp add: adopt_loaded_def Let_def case_prod_unfold m s1_def i_def)
  then show ?thesis
    by (intro exI[of _ "s1\<lparr>sm_session_id := i, sm_draws := sm_draws s1, sm_file_entries := es\<rparr>"]) (simp add: frame)
qed


section \<open>A materialized session\<close>

text \<open>
  Materializing an in-memory session breaks its lookups. The rows move down by one because the new
  header goes in front of them, the old header stays a row of the session, and the index is not
  rebuilt: asked for a row by its id, the manager answers with the row before it.
\<close>

lemma materialized_lookups_shift:
  assumes "manager_ok env s" and "sm_session_file s = None" and "is_header (hd (sm_file_entries s))"
    and "materialize_session_file env dir s = (target, s')"
  shows "\<exists>h. sm_file_entries s' = FeHeader h # sm_file_entries s \<and> hd_id h = sm_session_id s'
     \<and> (\<forall>x i. sm_by_id s x = Some i \<longrightarrow>
          get_entry_by_id s x = Some (sm_file_entries s ! i)
          \<and> get_entry_by_id s' x = Some (sm_file_entries s ! (i - 1)))"
proof -
  obtain s4 where s4: "s' = (rewrite_file env s4)\<lparr>sm_flushed := True\<rparr>" "sm_by_id s4 = sm_by_id s"
      "\<exists>h. sm_file_entries s4 = FeHeader h # sm_file_entries s \<and> hd_id h = sm_session_id s4"
    using assms(2,4)
    by (auto simp: materialize_session_file_def create_session_id_def read_clock_def Let_def)
  have rows: "sm_file_entries s' = sm_file_entries s4" "sm_by_id s' = sm_by_id s" "sm_session_id s' = sm_session_id s4"
    using rewrite_same_rows[of s4 env] s4(1,2) by (simp_all add: same_rows_def)
  obtain h where h: "sm_file_entries s4 = FeHeader h # sm_file_entries s" "hd_id h = sm_session_id s4"
    using s4(3) by blast
  have "i \<noteq> 0" if "sm_by_id s x = Some i" for x i
  proof
    assume "i = 0"
    with assms(1) that have "row_id (sm_file_entries s ! 0) = Some x" "sm_file_entries s \<noteq> []"
      by (auto simp: manager_ok_def index_ok_def)
    with assms(3) show False by (simp add: row_id_def hd_conv_nth)
  qed
  then show ?thesis using h rows
    by (intro exI[of _ h]) (auto simp: get_entry_by_id_def)
qed

end
