(* ===== verification/SessionFork.thy ===== *)
theory SessionFork
  imports SessionOpen
begin

text \<open>
  The fork of a session: the copy of a branch without its \<open>git_state\<close> rows, and \<open>fork_from\<close> of
  \<open>manager/lifecycle.rs\<close>. A re-parented row goes through its JSON and back; here the copy is the
  row with its parent set, as the codec of the entries gives it.
\<close>

section \<open>Dropped rows\<close>

text \<open>The map of dropped ids is built by insertions, so the newest pair of an id comes first.\<close>

type_synonym dropped = "(string \<times> string option) list"

fun dropped_parent :: "file_entry list \<Rightarrow> dropped \<Rightarrow> dropped" where
  "dropped_parent [] d = d"
| "dropped_parent (e # es) d =
     dropped_parent es
       (if is_git_state e then (case entry_id e of None \<Rightarrow> d | Some x \<Rightarrow> (x, entry_parent_id e) # d) else d)"

definition resolve_path :: "string list \<Rightarrow> 'a \<Rightarrow> (string \<rightharpoonup> 'a) \<Rightarrow> (string \<rightharpoonup> 'a)" where
  "resolve_path path answer resolved = foldl (\<lambda>m node. m(node \<mapsto> answer)) resolved path"

text \<open>The loop: the answer and the memo table. \<open>seen\<close> is the set of ids of this walk.\<close>

function resolve_loop ::
    "dropped \<Rightarrow> (string \<rightharpoonup> string option) \<Rightarrow> string list \<Rightarrow> string list \<Rightarrow> string option
     \<Rightarrow> string option \<times> (string \<rightharpoonup> string option)"
  where
  "resolve_loop d resolved path seen None = (None, resolve_path path None resolved)"
| "resolve_loop d resolved path seen (Some x) =
     (case resolved x of
        Some answer \<Rightarrow> (answer, resolve_path path answer resolved)
      | None \<Rightarrow>
          if x \<in> set seen then (Some x, resolved)
          else (case map_of d x of
                  Some nxt \<Rightarrow> resolve_loop d resolved (path @ [x]) (x # seen) nxt
                | None \<Rightarrow> (Some x, resolve_path path (Some x) resolved)))"
  by pat_completeness auto
termination
proof (relation "measure (\<lambda>(d, resolved, path, seen, c). card (set (map fst d) - set seen))", goal_cases)
  case 1
  then show ?case by simp
next
  case (2 d resolved path seen x nxt)
  then have x: "x \<in> set (map fst d) - set seen" by (auto dest: map_of_SomeD intro: image_eqI[where x = "(x, nxt)"])
  have "set (map fst d) - set (x # seen) = (set (map fst d) - set seen) - {x}" by auto
  with x have "card (set (map fst d) - set (x # seen)) < card (set (map fst d) - set seen)"
    by (simp only:) (intro card_Diff1_less, simp_all)
  then show ?case by simp
qed

declare resolve_loop.simps(2) [simp del]

definition resolve_dropped_ancestor ::
    "dropped \<Rightarrow> (string \<rightharpoonup> string option) \<Rightarrow> string \<Rightarrow> string option \<times> (string \<rightharpoonup> string option)" where
  "resolve_dropped_ancestor d resolved start = resolve_loop d resolved [] [] (Some start)"

section \<open>The copy\<close>

fun json_insert :: "string \<Rightarrow> json \<Rightarrow> json_map \<Rightarrow> json_map" where
  "json_insert k v [] = [(k, v)]"
| "json_insert k v ((k', v') # r) = (if k = k' then (k, v) # r else (k', v') # json_insert k v r)"

definition with_parent :: "string option \<Rightarrow> file_entry \<Rightarrow> file_entry" where
  "with_parent live e =
     (case e of
        FeUnknown r \<Rightarrow> FeUnknown (json_insert ''parentId'' (case live of None \<Rightarrow> JNull | Some x \<Rightarrow> JStr x) r)
      | _ \<Rightarrow> map_entry_base (\<lambda>b. b\<lparr>eb_parent_id := live\<rparr>) e)"

definition fork_row ::
    "dropped \<Rightarrow> (string \<rightharpoonup> string option) \<Rightarrow> file_entry \<Rightarrow> file_entry \<times> (string \<rightharpoonup> string option)" where
  "fork_row d resolved e =
     (let (live, resolved') =
        (case entry_parent_id e of
           None \<Rightarrow> (None, resolved)
         | Some p \<Rightarrow> if map_of d p \<noteq> None then resolve_dropped_ancestor d resolved p else (Some p, resolved))
      in (if entry_parent_id e = live then e else with_parent live e, resolved'))"

fun fork_rows ::
    "dropped \<Rightarrow> (string \<rightharpoonup> string option) \<Rightarrow> file_entry list \<Rightarrow> file_entry list" where
  "fork_rows d resolved [] = []"
| "fork_rows d resolved (e # es) =
     (let (e', resolved') = fork_row d resolved e in e' # fork_rows d resolved' es)"

definition forked_branch_entries :: "file_entry list \<Rightarrow> file_entry list" where
  "forked_branch_entries es =
     fork_rows (dropped_parent es []) Map.empty (filter (\<lambda>e. \<not> is_header e \<and> \<not> is_git_state e) es)"

text \<open>
  \<open>fork_from\<close>: the errors it returns are texts; a panic in the constructors stays a panic.
  \<open>regular\<close> is what the file system says of the source.
\<close>

definition fork_from :: "session_env \<Rightarrow> string \<Rightarrow> bool \<Rightarrow> string \<Rightarrow> string \<Rightarrow> unit store" where
  "fork_from env source regular cwd dir world =
     (if sm_files world source \<noteq> None \<and> \<not> regular then
        (Inl (InvalidInput (''Cannot fork: source session file is not a regular file: '' @ source)), world)
      else
        let (entries, w1) = load_entries_from_file env source False world in
        if entries = [] then
          (Inl (InvalidInput (''Cannot fork: source session file is empty or invalid: '' @ source)), w1)
        else case first_header entries of
          None \<Rightarrow> (Inl (InvalidInput (''Cannot fork: source session has no header: '' @ source)), w1)
        | Some source_header \<Rightarrow>
            let (migrated, es) = migrate_to_current_version (ev_uuid env) (sm_draws w1) entries;
                w2 = (if migrated then w1\<lparr>sm_draws := migration_draws (ev_uuid env) (sm_draws w1) entries\<rparr> else w1);
                depth = resolve_session_rlm_depth source_header;
                branch = forked_branch_entries es
            in bnd (persisted_session env cwd dir)
                 (\<lambda>_. bnd (new_session env \<lparr>no_id = None, no_parent_session = Some source, no_rlm_depth = Some depth\<rparr>)
                   (\<lambda>_. thn (upd (\<lambda>s. adopt_entries branch (refresh_has_assistant_entry branch s)))
                          (flush_now env))) w2)"

section \<open>The nearest kept ancestor\<close>

text \<open>\<open>nearest_kept d c k a\<close>: from \<open>c\<close>, over \<open>k\<close> dropped rows, one comes to \<open>a\<close>.\<close>

inductive nearest_kept :: "dropped \<Rightarrow> string option \<Rightarrow> nat \<Rightarrow> string option \<Rightarrow> bool" for d where
  root: "nearest_kept d None 0 None"
| kept: "map_of d x = None \<Longrightarrow> nearest_kept d (Some x) 0 (Some x)"
| dropped: "map_of d x = Some n \<Longrightarrow> nearest_kept d n k a \<Longrightarrow> nearest_kept d (Some x) (Suc k) a"

inductive_cases nearest_keptE: "nearest_kept d (Some x) k a"
inductive_simps nearest_kept_None [simp]: "nearest_kept d None k a"

lemma nearest_kept_unique: "nearest_kept d c k a \<Longrightarrow> nearest_kept d c k' a' \<Longrightarrow> k = k' \<and> a = a'"
proof (induction arbitrary: k' a' rule: nearest_kept.induct)
  case root
  then show ?case by simp
next
  case (kept x)
  then show ?case by (auto elim: nearest_keptE)
next
  case (dropped x n k a)
  from dropped.prems dropped.hyps(1) obtain k2 where "k' = Suc k2" "nearest_kept d n k2 a'"
    by (auto elim: nearest_keptE)
  with dropped.IH show ?case by simp
qed

text \<open>The memo table is right when each answer in it is the nearest kept ancestor.\<close>

definition memo_ok :: "dropped \<Rightarrow> (string \<rightharpoonup> string option) \<Rightarrow> bool" where
  "memo_ok d m \<longleftrightarrow> (\<forall>x a. m x = Some a \<longrightarrow> (\<exists>k. nearest_kept d (Some x) k a))"

lemma resolve_path_cases:
  "resolve_path path a m x = Some b \<Longrightarrow> m x = Some b \<or> x \<in> set path \<and> b = a"
  unfolding resolve_path_def by (induction path arbitrary: m) (fastforce split: if_splits)+

lemma memo_ok_path:
  "memo_ok d m \<Longrightarrow> \<forall>x \<in> set path. \<exists>k. nearest_kept d (Some x) k a \<Longrightarrow> memo_ok d (resolve_path path a m)"
  unfolding memo_ok_def using resolve_path_cases by metis

lemma resolve_loop_nearest:
  assumes "nearest_kept d c k a" and "memo_ok d m"
    and "\<forall>x \<in> set path. \<exists>j > k. nearest_kept d (Some x) j a"
    and "\<forall>x \<in> set seen. \<exists>j > k. nearest_kept d (Some x) j a"
  shows "fst (resolve_loop d m path seen c) = a \<and> memo_ok d (snd (resolve_loop d m path seen c))"
  using assms
proof (induction d m path seen c arbitrary: k rule: resolve_loop.induct)
  case (1 d m path seen)
  then show ?case using memo_ok_path[of d m path a] by auto
next
  case (2 d m path seen x)
  show ?case
  proof (cases "m x")
    case (Some b)
    with 2 have "b = a" using nearest_kept_unique by (fastforce simp: memo_ok_def)
    with Some 2 memo_ok_path[of d m path a] show ?thesis by (auto simp: resolve_loop.simps(2))
  next
    case None
    have notin: "x \<notin> set seen"
    proof
      assume "x \<in> set seen"
      with "2.prems"(4) obtain j where "k < j" "nearest_kept d (Some x) j a" by blast
      with nearest_kept_unique[OF "2.prems"(1)] show False by blast
    qed
    show ?thesis
    proof (cases "map_of d x")
      case no: None
      with "2.prems"(1) have "a = Some x" by (auto elim: nearest_keptE)
      with None no notin 2 memo_ok_path[of d m path a] show ?thesis
        by (auto simp: resolve_loop.simps(2))
    next
      case (Some n)
      with "2.prems"(1) obtain k' where k: "k = Suc k'" "nearest_kept d n k' a" by (auto elim: nearest_keptE)
      have x: "\<exists>j > k'. nearest_kept d (Some x) j a" using "2.prems"(1) k(1) by blast
      have up: "\<forall>y \<in> A. \<exists>j > k'. nearest_kept d (Some y) j a" if "\<forall>y \<in> A. \<exists>j > k. nearest_kept d (Some y) j a" for A
        using that k(1) by (meson Suc_lessD)
      have "fst (resolve_loop d m (path @ [x]) (x # seen) n) = a
          \<and> memo_ok d (snd (resolve_loop d m (path @ [x]) (x # seen) n))"
        using "2.IH"[OF None notin Some k(2) "2.prems"(2)] up[OF "2.prems"(3)] up[OF "2.prems"(4)] x by simp
      with None notin Some show ?thesis by (simp add: resolve_loop.simps(2))
    qed
  qed
qed

section \<open>The rows of the copy\<close>

lemma map_entry_base_parent:
  "entry_base_of e \<noteq> None \<Longrightarrow> entry_parent_id (map_entry_base (\<lambda>b. b\<lparr>eb_parent_id := p\<rparr>) e) = p
   \<and> entry_id (map_entry_base (\<lambda>b. b\<lparr>eb_parent_id := p\<rparr>) e) = entry_id e"
  by (cases e) (simp_all add: entry_parent_id_def entry_id_def)

lemma json_insert_get: "map_of (json_insert k v r) k' = (if k' = k then Some v else map_of r k')"
  by (induction k v r rule: json_insert.induct) auto

lemma with_parent_links:
  "\<not> is_header e \<Longrightarrow> entry_parent_id (with_parent p e) = p \<and> entry_id (with_parent p e) = entry_id e
     \<and> is_header (with_parent p e) = is_header e \<and> is_git_state (with_parent p e) = is_git_state e"
proof (cases e)
  case (FeUnknown r)
  then show ?thesis
    by (cases p) (simp_all add: with_parent_def entry_parent_id_def entry_id_def rest_str_def json_insert_get)
qed (simp_all add: with_parent_def entry_parent_id_def entry_id_def)

text \<open>What a row becomes: its parent is the nearest kept ancestor, everything else is as it was.\<close>

definition row_forked :: "dropped \<Rightarrow> file_entry \<Rightarrow> file_entry \<Rightarrow> bool" where
  "row_forked d e e' \<longleftrightarrow>
     entry_id e' = entry_id e \<and> (\<exists>k. nearest_kept d (entry_parent_id e) k (entry_parent_id e'))
     \<and> \<not> is_header e' \<and> is_git_state e' = is_git_state e
     \<and> e' = (if entry_parent_id e = entry_parent_id e' then e else with_parent (entry_parent_id e') e)"

lemma fork_row_nearest:
  assumes "fork_row d m e = (e', m')" and "memo_ok d m" and "\<not> is_header e"
    and "nearest_kept d (entry_parent_id e) k a"
  shows "entry_parent_id e' = a \<and> entry_id e' = entry_id e \<and> is_header e' = is_header e
     \<and> is_git_state e' = is_git_state e \<and> memo_ok d m' \<and> e' = (if entry_parent_id e = a then e else with_parent a e)"
proof (cases "entry_parent_id e")
  case None
  with assms show ?thesis by (auto simp: fork_row_def)
next
  case (Some p)
  show ?thesis
  proof (cases "map_of d p")
    case None
    with Some assms(4) have "a = Some p" by (auto elim: nearest_keptE)
    with None Some assms show ?thesis by (auto simp: fork_row_def)
  next
    case (Some n)
    obtain b m2 where r: "resolve_dropped_ancestor d m p = (b, m2)" by fastforce
    from resolve_loop_nearest[of d "Some p" k a m "[]" "[]"] assms(2,4) \<open>entry_parent_id e = Some p\<close> r
    have "b = a" "memo_ok d m2" by (auto simp: resolve_dropped_ancestor_def)
    with r Some \<open>entry_parent_id e = Some p\<close> assms(1,3) with_parent_links[of e a] show ?thesis
      by (cases "a = Some p") (auto simp: fork_row_def)
  qed
qed

lemma fork_rows_forked:
  assumes "memo_ok d m" and "\<forall>e \<in> set es. \<not> is_header e \<and> (\<exists>k a. nearest_kept d (entry_parent_id e) k a)"
  shows "list_all2 (row_forked d) es (fork_rows d m es)"
  using assms
proof (induction d m es rule: fork_rows.induct)
  case (2 d m e es)
  obtain e' m' where r: "fork_row d m e = (e', m')" by fastforce
  obtain k a where a: "nearest_kept d (entry_parent_id e) k a" and nh: "\<not> is_header e"
    using "2.prems"(2) by auto
  note row = fork_row_nearest[OF r "2.prems"(1) nh a]
  have "row_forked d e e'"
    unfolding row_forked_def using row a nh by blast
  moreover have "list_all2 (row_forked d) es (fork_rows d m' es)"
    using "2.IH"[OF r[symmetric] refl] row "2.prems"(2) by simp
  ultimately show ?case by (simp add: r)
qed simp

section \<open>The branches of the copy\<close>

lemma rows_ok_index:
  assumes "rows_ok es"
  obtains m where "index_ok es m" and "links_ok es m"
proof -
  define m where "m = sm_by_id (indexed undefined es)"
  have ix: "index_ok es m" unfolding m_def using assms by (intro indexed_ok(1)) (simp add: rows_ok_def)
  have "links_ok es m"
    unfolding links_ok_def
  proof (intro allI impI)
    fix i assume i: "i < length es"
    show "case entry_parent_id (es ! i) of None \<Rightarrow> True | Some p \<Rightarrow> \<exists>j < i. m p = Some j"
    proof (cases "entry_parent_id (es ! i)")
      case (Some p)
      with assms i obtain j where "j < i" "row_id (es ! j) = Some p" by (fastforce simp: rows_ok_def)
      with ix i Some show ?thesis by (auto simp: index_ok_def)
    qed simp
  qed
  with ix show thesis by (rule that)
qed

lemma rows_ok_unique:
  "rows_ok es \<Longrightarrow> i < length es \<Longrightarrow> j < length es \<Longrightarrow> row_id (es ! i) = Some x \<Longrightarrow> row_id (es ! j) = Some x \<Longrightarrow> i = j"
  by (erule rows_ok_index) (metis index_ok_def option.inject)

lemma context_path_unfold:
  assumes "rows_ok es" and "i < length es"
  shows "(case entry_parent_id (es ! i) of
            None \<Rightarrow> context_path es i = [i]
          | Some p \<Rightarrow> \<exists>j < i. row_id (es ! j) = Some p \<and> context_path es i = context_path es j @ [i])"
proof -
  obtain m where m: "index_ok es m" "links_ok es m" using rows_ok_index[OF assms(1)] by blast
  have front: "header_front es" using assms(1) by (simp add: rows_ok_def)
  define nxt where "nxt = parent_index es (ids_by_position es)"
  have agree: "nxt k = parent_index es m k" if "k < length es" for k
    unfolding nxt_def by (rule parent_index_agrees[OF front m that])
  have dec: "\<And>k j. k < length es \<Longrightarrow> nxt k = Some j \<Longrightarrow> j < k"
    using agree parent_index_decreasing[OF m] by simp
  have path: "context_path es i = rev (walk nxt (length es) [] (nxt i)) @ [i]"
    using walk_unfold_decreasing[of "length es" nxt i, OF dec assms(2)]
    by (simp add: context_path_def nxt_def)
  show ?thesis
  proof (cases "entry_parent_id (es ! i)")
    case None
    then show ?thesis using path by (simp add: nxt_def parent_index_def)
  next
    case (Some p)
    with m(2) assms(2) obtain j where j: "j < i" "m p = Some j" by (fastforce simp: links_ok_def)
    then have "row_id (es ! j) = Some p" using m(1) by (auto simp: index_ok_def)
    moreover have "nxt i = Some j" using agree[OF assms(2)] Some j by (simp add: parent_index_def)
    ultimately show ?thesis using path Some j(1) by (auto simp: context_path_def nxt_def)
  qed
qed

lemma dropped_parent_snoc:
  "dropped_parent (es @ [e]) d =
     (if is_git_state e then (case entry_id e of None \<Rightarrow> dropped_parent es d | Some x \<Rightarrow> (x, entry_parent_id e) # dropped_parent es d)
      else dropped_parent es d)"
  by (induction es arbitrary: d) (auto split: option.splits)

lemma git_not_header: "is_git_state e \<Longrightarrow> \<not> is_header e"
  by (cases e) auto

lemma dropped_parent_Some:
  "map_of (dropped_parent es []) x = Some p \<Longrightarrow>
   \<exists>i < length es. is_git_state (es ! i) \<and> row_id (es ! i) = Some x \<and> entry_parent_id (es ! i) = p"
proof (induction es rule: rev_induct)
  case (snoc e es)
  show ?case
  proof (cases "is_git_state e \<and> entry_id e = Some x")
    case True
    with snoc.prems have "p = entry_parent_id e" by (simp add: dropped_parent_snoc)
    with True git_not_header show ?thesis by (intro exI[of _ "length es"]) (simp add: row_id_def)
  next
    case False
    then have "map_of (dropped_parent es []) x = Some p"
      using snoc.prems by (auto simp: dropped_parent_snoc split: if_splits option.splits)
    from snoc.IH[OF this] show ?thesis by (auto simp: nth_append)
  qed
qed simp

lemma dropped_parent_None:
  "map_of (dropped_parent es []) x = None \<Longrightarrow> i < length es \<Longrightarrow> is_git_state (es ! i) \<Longrightarrow> row_id (es ! i) \<noteq> Some x"
proof (induction es rule: rev_induct)
  case (snoc e es)
  then have "map_of (dropped_parent es []) x = None"
    by (auto simp: dropped_parent_snoc split: if_splits option.splits)
  with snoc show ?case
    by (cases "i < length es")
       (auto simp: dropped_parent_snoc nth_append less_Suc_eq row_id_def dest: git_not_header split: if_splits option.splits)
qed simp

text \<open>In a sound source every row has a nearest kept ancestor, which comes before it.\<close>

lemma nearest_kept_exists:
  assumes "rows_ok es" and "i < length es"
  shows "\<exists>k a. nearest_kept (dropped_parent es []) (entry_parent_id (es ! i)) k a
     \<and> (case a of None \<Rightarrow> True | Some y \<Rightarrow> \<exists>j < i. row_id (es ! j) = Some y \<and> \<not> is_git_state (es ! j))"
  using assms(2)
proof (induction i rule: less_induct)
  case (less i)
  show ?case
  proof (cases "entry_parent_id (es ! i)")
    case None
    then show ?thesis by (intro exI[of _ 0] exI[of _ None]) simp
  next
    case (Some p)
    with assms(1) less.prems obtain j where j: "j < i" "row_id (es ! j) = Some p" by (fastforce simp: rows_ok_def)
    show ?thesis
    proof (cases "map_of (dropped_parent es []) p")
      case None
      with dropped_parent_None[OF None, of j] j less.prems have "\<not> is_git_state (es ! j)" by auto
      with None Some j show ?thesis
        by (intro exI[of _ 0] exI[of _ "Some p"]) (auto intro: nearest_kept.kept)
    next
      case (Some n)
      from dropped_parent_Some[OF Some] obtain i' where i': "i' < length es" "row_id (es ! i') = Some p" "entry_parent_id (es ! i') = n"
        by blast
      with rows_ok_unique[OF assms(1), of i' j p] j less.prems have n: "entry_parent_id (es ! j) = n" by simp
      from less.IH[OF j(1)] j(1) less.prems n obtain k a where "nearest_kept (dropped_parent es []) n k a"
        "case a of None \<Rightarrow> True | Some y \<Rightarrow> \<exists>l < j. row_id (es ! l) = Some y \<and> \<not> is_git_state (es ! l)" by auto
      moreover from this(2) j(1) have
        "case a of None \<Rightarrow> True | Some y \<Rightarrow> \<exists>l < i. row_id (es ! l) = Some y \<and> \<not> is_git_state (es ! l)"
        by (cases a) (auto intro: less_trans)
      ultimately show ?thesis
        using Some \<open>entry_parent_id (es ! i) = Some p\<close>
        by (intro exI[of _ "Suc k"] exI[of _ a]) (simp add: nearest_kept.dropped)
    qed
  qed
qed

definition survives :: "file_entry \<Rightarrow> bool" where
  "survives e \<longleftrightarrow> \<not> is_header e \<and> \<not> is_git_state e"

definition fork_position :: "file_entry list \<Rightarrow> nat \<Rightarrow> nat" where
  "fork_position es i = Suc (length (filter survives (take i es)))"

lemma filter_position:
  "i < length es \<Longrightarrow> P (es ! i) \<Longrightarrow>
     length (filter P (take i es)) < length (filter P es) \<and> filter P es ! length (filter P (take i es)) = es ! i"
proof -
  assume i: "i < length es" "P (es ! i)"
  then have "filter P es = filter P (take i es) @ es ! i # filter P (drop (Suc i) es)"
    by (metis filter.simps(2) filter_append id_take_nth_drop)
  then show ?thesis by (simp add: nth_append)
qed

lemma filter_position_mono:
  "j < i \<Longrightarrow> i \<le> length es \<Longrightarrow> P (es ! j) \<Longrightarrow> length (filter P (take j es)) < length (filter P (take i es))"
  using filter_position[of j "take i es" P] by (simp add: min_def)

lemma filter_position_ex:
  "q < length (filter P es) \<Longrightarrow> \<exists>i < length es. P (es ! i) \<and> q = length (filter P (take i es))"
proof (induction es rule: rev_induct)
  case (snoc e es)
  show ?case
  proof (cases "q < length (filter P es)")
    case True
    from snoc.IH[OF this] show ?thesis by (auto simp: nth_append)
  next
    case False
    with snoc.prems have "P e" "q = length (filter P es)" by (auto split: if_splits)
    then show ?thesis by (intro exI[of _ "length es"]) simp
  qed
qed simp

definition fork_of :: "session_header \<Rightarrow> file_entry list \<Rightarrow> file_entry list" where
  "fork_of h es = FeHeader h # forked_branch_entries es"

lemma forked_rows:
  assumes "rows_ok es"
  shows "list_all2 (row_forked (dropped_parent es [])) (filter survives es) (forked_branch_entries es)"
  unfolding forked_branch_entries_def survives_def[abs_def]
proof (rule fork_rows_forked)
  show "memo_ok (dropped_parent es []) Map.empty" by (simp add: memo_ok_def)
  show "\<forall>e \<in> set (filter (\<lambda>e. \<not> is_header e \<and> \<not> is_git_state e) es).
      \<not> is_header e \<and> (\<exists>k a. nearest_kept (dropped_parent es []) (entry_parent_id e) k a)"
    using nearest_kept_exists[OF assms] by (fastforce simp: in_set_conv_nth)
qed

lemma fork_row_at:
  assumes "rows_ok es" and "i < length es" and "survives (es ! i)"
  shows "fork_position es i < length (fork_of h es)"
    and "row_forked (dropped_parent es []) (es ! i) (fork_of h es ! fork_position es i)"
    and "row_id (fork_of h es ! fork_position es i) = row_id (es ! i)"
proof -
  note f = forked_rows[OF assms(1)]
  note p = filter_position[of i es survives, OF assms(2,3)]
  from f p show "fork_position es i < length (fork_of h es)"
    by (auto simp: fork_of_def fork_position_def dest: list_all2_lengthD)
  show r: "row_forked (dropped_parent es []) (es ! i) (fork_of h es ! fork_position es i)"
    using list_all2_nthD[OF f, of "length (filter survives (take i es))"] p
    by (simp add: fork_of_def fork_position_def)
  show "row_id (fork_of h es ! fork_position es i) = row_id (es ! i)"
    using r assms(3) by (simp add: row_forked_def row_id_def survives_def)
qed

lemma fork_row_from:
  assumes "rows_ok es" and "q < length (fork_of h es)" and "q \<noteq> 0"
  shows "\<exists>i < length es. survives (es ! i) \<and> q = fork_position es i"
proof -
  have "length (forked_branch_entries es) = length (filter survives es)"
    using list_all2_lengthD[OF forked_rows[OF assms(1)]] by simp
  with assms(2,3) have "q - 1 < length (filter survives es)" by (simp add: fork_of_def)
  from filter_position_ex[OF this] assms(3) show ?thesis by (auto simp: fork_position_def)
qed

lemma fork_position_mono:
  "j < i \<Longrightarrow> i < length es \<Longrightarrow> survives (es ! j) \<Longrightarrow> fork_position es j < fork_position es i"
  using filter_position_mono[of j i es survives] by (simp add: fork_position_def)

lemma fork_rows_ok:
  assumes "rows_ok es"
  shows "rows_ok (fork_of h es)"
  unfolding rows_ok_def
proof (intro conjI allI impI)
  let ?F = "fork_of h es"
  have row: "\<exists>i < length es. survives (es ! i) \<and> q = fork_position es i" if "q < length ?F" "q \<noteq> 0" for q
    using fork_row_from[OF assms that] .
  have q0: "row_id (?F ! 0) = None" "entry_parent_id (?F ! 0) = None"
    by (simp_all add: fork_of_def row_id_def entry_parent_id_def)
  show "header_front ?F"
    unfolding header_front_def
  proof (intro allI impI)
    fix q assume "q < length ?F" "is_header (?F ! q)"
    then show "q = 0" using row[of q] fork_row_at(2)[OF assms] by (auto simp: row_forked_def)
  qed
  show "distinct (row_ids ?F)"
  proof (rule distinct_row_ids)
    fix q q' x assume q: "q < length ?F" "q' < length ?F" "row_id (?F ! q) = Some x" "row_id (?F ! q') = Some x"
    then have nz: "q \<noteq> 0" "q' \<noteq> 0" using q0 by (metis option.distinct(1))+
    from row[OF q(1) nz(1)] row[OF q(2) nz(2)] obtain i i' where
      i: "i < length es" "survives (es ! i)" "q = fork_position es i"
      and i': "i' < length es" "survives (es ! i')" "q' = fork_position es i'" by blast
    with q fork_row_at(3)[OF assms] have "row_id (es ! i) = Some x" "row_id (es ! i') = Some x" by auto
    with rows_ok_unique[OF assms i(1) i'(1)] i i' show "q = q'" by simp
  qed
  fix q assume q: "q < length ?F"
  show "case entry_parent_id (?F ! q) of None \<Rightarrow> True | Some p \<Rightarrow> \<exists>j < q. row_id (?F ! j) = Some p"
  proof (cases "q = 0")
    case True
    then show ?thesis by (simp add: q0)
  next
    case False
    from row[OF q False] obtain i where i: "i < length es" "survives (es ! i)" "q = fork_position es i" by blast
    from nearest_kept_exists[OF assms i(1)] obtain k a where
      a: "nearest_kept (dropped_parent es []) (entry_parent_id (es ! i)) k a"
        "case a of None \<Rightarrow> True | Some y \<Rightarrow> \<exists>j < i. row_id (es ! j) = Some y \<and> \<not> is_git_state (es ! j)" by blast
    have "entry_parent_id (?F ! q) = a"
      using fork_row_at(2)[OF assms i(1,2), of h] nearest_kept_unique[OF a(1)] i(3) by (auto simp: row_forked_def)
    moreover have "\<exists>l < q. row_id (?F ! l) = Some y" if "a = Some y" for y
    proof -
      from a(2) that obtain j where j: "j < i" "row_id (es ! j) = Some y" "\<not> is_git_state (es ! j)" by auto
      then have "survives (es ! j)" by (auto simp: survives_def row_id_def split: if_splits)
      with j i fork_row_at(3)[OF assms, of j h] fork_position_mono[of j i es] show ?thesis
        by (intro exI[of _ "fork_position es j"]) auto
    qed
    ultimately show ?thesis by (cases a) simp_all
  qed
qed

text \<open>The surviving rows of a branch, at their positions in the copy.\<close>

definition surviving :: "file_entry list \<Rightarrow> nat list \<Rightarrow> nat list" where
  "surviving es path = map (fork_position es) (filter (\<lambda>j. survives (es ! j)) path)"

lemma surviving_append [simp]: "surviving es (xs @ ys) = surviving es xs @ surviving es ys"
  by (simp add: surviving_def)

lemma surviving_above:
  assumes "rows_ok es" and "i < length es"
    and "nearest_kept (dropped_parent es []) (entry_parent_id (es ! i)) k a"
  shows "case a of
      None \<Rightarrow> surviving es (butlast (context_path es i)) = []
    | Some y \<Rightarrow> \<exists>j < i. row_id (es ! j) = Some y \<and> survives (es ! j)
        \<and> surviving es (butlast (context_path es i)) = surviving es (context_path es j)"
  using assms(2,3)
proof (induction i arbitrary: k a rule: less_induct)
  case (less i)
  note unfold_i = context_path_unfold[OF assms(1) less.prems(1)]
  show ?case
  proof (cases "entry_parent_id (es ! i)")
    case None
    with less.prems(2) unfold_i show ?thesis by (auto simp: surviving_def)
  next
    case (Some p)
    with unfold_i obtain j where j: "j < i" "row_id (es ! j) = Some p" "context_path es i = context_path es j @ [i]" by auto
    have jl: "j < length es" using j(1) less.prems(1) by simp
    have nh: "\<not> is_header (es ! j)" using j(2) by (auto simp: row_id_def split: if_splits)
    show ?thesis
    proof (cases "map_of (dropped_parent es []) p")
      case None
      with less.prems(2) Some have "a = Some p" by (auto elim: nearest_keptE)
      moreover have "survives (es ! j)" using dropped_parent_None[OF None jl] j(2) nh by (auto simp: survives_def)
      ultimately show ?thesis using j by auto
    next
      case no: (Some n)
      from dropped_parent_Some[OF no] obtain j' where
        j': "j' < length es" "is_git_state (es ! j')" "row_id (es ! j') = Some p" "entry_parent_id (es ! j') = n" by blast
      have "j' = j" by (rule rows_ok_unique[OF assms(1) j'(1) jl j'(3) j(2)])
      with j' have git: "is_git_state (es ! j)" "entry_parent_id (es ! j) = n" by simp_all
      from less.prems(2) Some no obtain k' where "nearest_kept (dropped_parent es []) (entry_parent_id (es ! j)) k' a"
        by (auto elim: nearest_keptE simp: git(2))
      from less.IH[OF j(1) jl this] have IH: "case a of
          None \<Rightarrow> surviving es (butlast (context_path es j)) = []
        | Some y \<Rightarrow> \<exists>l < j. row_id (es ! l) = Some y \<and> survives (es ! l)
            \<and> surviving es (butlast (context_path es j)) = surviving es (context_path es l)" .
      have "context_path es j = butlast (context_path es j) @ [j]"
        using context_path_unfold[OF assms(1) jl] by (auto split: option.splits)
      then have "surviving es (context_path es j) = surviving es (butlast (context_path es j))"
        using git(1) by (metis append_Nil2 filter.simps survives_def surviving_append surviving_def list.map(1))
      then have same: "surviving es (butlast (context_path es i)) = surviving es (butlast (context_path es j))"
        by (simp add: j(3))
      show ?thesis
      proof (cases a)
        case None
        with IH same show ?thesis by simp
      next
        case (Some y)
        with IH same j(1) show ?thesis by (auto intro: less_trans)
      qed
    qed
  qed
qed

lemma fork_keeps:
  assumes "rows_ok es" and "i < length es" and "survives (es ! i)"
  shows "rows_ok (fork_of h es)" and "fork_position es i < length (fork_of h es)"
    and "row_forked (dropped_parent es []) (es ! i) (fork_of h es ! fork_position es i)"
    and "context_path (fork_of h es) (fork_position es i) = surviving es (context_path es i)"
proof -
  let ?F = "fork_of h es"
  show ok: "rows_ok ?F" by (rule fork_rows_ok[OF assms(1)])
  show "fork_position es i < length ?F" "row_forked (dropped_parent es []) (es ! i) (?F ! fork_position es i)"
    by (rule fork_row_at[OF assms])+
  show "context_path ?F (fork_position es i) = surviving es (context_path es i)"
    using assms(2,3)
  proof (induction i rule: less_induct)
    case (less i)
    note at = fork_row_at[OF assms(1) less.prems, of h]
    from nearest_kept_exists[OF assms(1) less.prems(1)] obtain k a where
      a: "nearest_kept (dropped_parent es []) (entry_parent_id (es ! i)) k a" by blast
    have parent: "entry_parent_id (?F ! fork_position es i) = a"
      using at(2) nearest_kept_unique[OF a] by (auto simp: row_forked_def)
    note unfold_F = context_path_unfold[OF ok at(1), unfolded parent]
    have "context_path es i = butlast (context_path es i) @ [i]"
      using context_path_unfold[OF assms(1) less.prems(1)] by (auto split: option.splits)
    then have last: "surviving es (context_path es i) = surviving es (butlast (context_path es i)) @ [fork_position es i]"
      using less.prems(2) by (metis filter.simps list.map surviving_append surviving_def)
    show ?case
    proof (cases a)
      case None
      with surviving_above[OF assms(1) less.prems(1) a] unfold_F last show ?thesis by simp
    next
      case (Some y)
      with surviving_above[OF assms(1) less.prems(1) a] obtain j where
        j: "j < i" "row_id (es ! j) = Some y" "survives (es ! j)"
          "surviving es (butlast (context_path es i)) = surviving es (context_path es j)" by auto
      have jl: "j < length es" using j(1) less.prems(1) by simp
      from unfold_F Some obtain q where q: "q < fork_position es i" "row_id (?F ! q) = Some y"
          "context_path ?F (fork_position es i) = context_path ?F q @ [fork_position es i]" by auto
      have "fork_position es j = q"
        by (rule rows_ok_unique[OF ok, of _ _ y])
           (use fork_row_at[OF assms(1) jl j(3), of h] q at(1) j(2) in auto)
      with less.IH[OF j(1) jl j(3)] q(3) j(4) last show ?thesis by simp
    qed
  qed
qed


text \<open>
  C32. A fork keeps every branch. Copying a sound session gives a sound session in which each row but
  the header and the \<open>git_state\<close> rows has its place, with its id and its content; and the conversation
  up to that row is the one of the source with exactly the dropped rows left out, however many of
  them were parents of one another. The memo table of the code makes no difference to this.
\<close>

theorem fork_keeps_branches:
  assumes "rows_ok es" and "i < length es" and "survives (es ! i)"
  shows "rows_ok (fork_of h es) \<and> fork_position es i < length (fork_of h es)
     \<and> row_forked (dropped_parent es []) (es ! i) (fork_of h es ! fork_position es i)
     \<and> context_path (fork_of h es) (fork_position es i) = surviving es (context_path es i)"
  using fork_keeps[OF assms] by simp

section \<open>The compaction of a copy\<close>

lemma context_path_sorted_rows:
  assumes "rows_ok es" and "i < length es"
  shows "sorted_wrt (<) (context_path es i) \<and> (\<forall>j \<in> set (context_path es i). j \<le> i)"
  using assms(2)
proof (induction i rule: less_induct)
  case (less i)
  show ?case
  proof (cases "entry_parent_id (es ! i)")
    case None
    with context_path_unfold[OF assms(1) less.prems] show ?thesis by simp
  next
    case (Some p)
    with context_path_unfold[OF assms(1) less.prems] obtain j where
      j: "j < i" "context_path es i = context_path es j @ [i]" by auto
    with less.IH[OF j(1)] less.prems show ?thesis by (fastforce simp: sorted_wrt_append)
  qed
qed

lemma context_path_rows:
  assumes "rows_ok es" and "i < length es" and "j \<in> set (context_path es i)"
  shows "j = i \<or> \<not> is_header (es ! j)"
  using assms(2,3)
proof (induction i rule: less_induct)
  case (less i)
  show ?case
  proof (cases "entry_parent_id (es ! i)")
    case None
    with context_path_unfold[OF assms(1) less.prems(1)] less.prems(2) show ?thesis by simp
  next
    case (Some p)
    with context_path_unfold[OF assms(1) less.prems(1)] obtain k where
      k: "k < i" "row_id (es ! k) = Some p" "context_path es i = context_path es k @ [i]" by auto
    from k(2) have "\<not> is_header (es ! k)" by (auto simp: row_id_def split: if_splits)
    with less.IH[OF k(1)] less.prems k(1,3) show ?thesis by auto
  qed
qed

lemma row_context_leaf:
  assumes "rows_ok es" and "i < length es" and "row_id (es ! i) = Some x" and "x \<noteq> []"
  shows "context_leaf es (Some x) = Some i"
proof -
  obtain m where m: "index_ok es m" using rows_ok_index[OF assms(1)] by blast
  then have "m x = Some i" using assms(2,3) by (simp add: index_ok_def)
  from row_index_agrees[OF _ m this] assms(1,4) show ?thesis by (simp add: context_leaf_def rows_ok_def)
qed

lemma compacted_messages:
  assumes "rows_ok es" and "i < length es" and "row_id (es ! i) = Some x" and "x \<noteq> []"
    and "context_path es i = pre @ c # post" and "es ! c = FeCompaction p b" and "\<forall>j \<in> set post. \<not> is_compaction (es ! j)"
  shows "sc_messages (build_session_context es (Some x)) =
     (let keep = keep_digest es (context_path es i) (Some c);
          kept = concat (map (\<lambda>j. context_message keep (es ! j))
                   (dropWhile (before_first_kept es (co_first_kept_entry_id p)) pre))
      in SmCompactionSummary (compaction_summary p (es ! c)
             (summary_yields_snapshot es (context_path es i) (Some c)) (length kept))
         # kept @ concat (map (\<lambda>j. context_message keep (es ! j)) post))"
proof -
  have sorted: "sorted_wrt (<) (pre @ c # post)" using context_path_sorted_rows[OF assms(1,2)] assms(5) by simp
  have "snd (snd (snd (path_settings es (pre @ c # post)))) = Some c"
    using assms(6,7) by (simp only: path_settings_compaction) (rule find_last, simp_all)
  then have "sc_messages (build_session_context es (Some x)) = context_messages es (pre @ c # post) (Some c)"
    using row_context_leaf[OF assms(1-4)] assms(5)
    by (cases "path_settings es (pre @ c # post)") (simp add: build_session_context_def)
  then show ?thesis using context_messages_compacted[OF sorted assms(6)] assms(5) by simp
qed

lemma with_parent_compaction: "with_parent a (FeCompaction p b) = FeCompaction p (b\<lparr>eb_parent_id := a\<rparr>)"
  by (simp add: with_parent_def)

lemma with_parent_is_compaction: "is_compaction (with_parent a e) = is_compaction e"
  by (cases e) (simp_all add: with_parent_def)

lemma is_compaction_forked: "row_forked d e e' \<Longrightarrow> is_compaction e' = is_compaction e"
  unfolding row_forked_def by (metis with_parent_is_compaction)

text \<open>
  A fork forgets the conversation a compaction kept. A cut point may fall on a \<open>git_state\<close> row; the
  fork drops that row and leaves the first kept id of the compaction as it is, so no row of the copy
  has it. In the source the model sees the summary, the rows from the cut on, and the rows after the
  compaction; in the fork the summary, which says that no message was retained, and the rows after.
\<close>

lemma fork_forgets_kept_rows:
  assumes "rows_ok es" and "i < length es" and "survives (es ! i)" and "row_id (es ! i) = Some x" and "x \<noteq> []"
    and "context_path es i = pre @ g # kept @ c # post"
    and "es ! c = FeCompaction p b" and "\<forall>j \<in> set post. \<not> is_compaction (es ! j)"
    and "is_git_state (es ! g)" and "entry_id (es ! g) = Some (co_first_kept_entry_id p)"
    and "co_first_kept_entry_id p \<noteq> []"
  shows "\<exists>summary keep summary' keep'.
       sc_messages (build_session_context es (Some x)) =
         SmCompactionSummary summary # concat (map (\<lambda>j. context_message keep (es ! j)) (kept @ post))
     \<and> sc_messages (build_session_context (fork_of h es) (Some x)) =
         SmCompactionSummary summary'
         # concat (map (\<lambda>q. context_message keep' (fork_of h es ! q)) (surviving es post))
     \<and> cs_retained_message_count summary' = Some 0"
proof -
  let ?F = "fork_of h es" and ?fk = "co_first_kept_entry_id p"
  have path: "context_path es i = (pre @ g # kept) @ c # post" using assms(6) by simp
  have inpath: "j < length es" if "j \<in> set (context_path es i)" for j
    using context_path_sorted_rows[OF assms(1,2)] that assms(2) by fastforce
  have g: "g < length es" "row_id (es ! g) = Some ?fk"
    using inpath[of g] assms(6,9,10) git_not_header by (auto simp: row_id_def)
  have only: "entry_id (es ! j) \<noteq> Some ?fk" if "j < length es" "j \<noteq> g" "\<not> is_header (es ! j)" for j
    using rows_ok_unique[OF assms(1) that(1) g(1)] g(2) that by (auto simp: row_id_def)
  have rows: "\<not> is_header (es ! j)" if "j \<in> set (context_path es i)" for j
    using context_path_rows[OF assms(1,2) that] assms(4) by (auto simp: row_id_def split: if_splits)
  have sorted: "sorted_wrt (<) (context_path es i)" using context_path_sorted_rows[OF assms(1,2)] by simp
  have before: "before_first_kept es ?fk j" if "j \<in> set (context_path es i)" "j \<noteq> g" for j
    using only[OF inpath[OF that(1)] that(2) rows[OF that(1)]] assms(11)
    by (auto simp: before_first_kept_def split: option.splits)
  have "before_first_kept es ?fk j" if "j \<in> set pre" for j
    using before[of j] that sorted assms(6) by (auto simp: sorted_wrt_append)
  then have "dropWhile (before_first_kept es ?fk) (pre @ g # kept) = g # kept"
    using assms(10) by (simp add: before_first_kept_def)
  moreover have "context_message keep (es ! g) = []" for keep
    using assms(9) by (cases "es ! g") (simp_all add: context_message_def)
  ultimately have source: "\<exists>summary keep. sc_messages (build_session_context es (Some x)) =
      SmCompactionSummary summary # concat (map (\<lambda>j. context_message keep (es ! j)) (kept @ post))"
    using compacted_messages[OF assms(1,2,4,5) path assms(7,8)] by (auto simp: Let_def)
  note fork = fork_keeps[OF assms(1-3), of h]
  have cl: "c < length es" and cs: "survives (es ! c)" using inpath[of c] assms(6,7) by (auto simp: survives_def)
  define front where "front = surviving es (pre @ g # kept)"
  have path': "context_path ?F (fork_position es i) = front @ fork_position es c # surviving es post"
    using fork(4) cs by (simp add: path surviving_def front_def)
  have at: "row_forked (dropped_parent es []) (es ! j) (?F ! fork_position es j)"
      "entry_id (?F ! fork_position es j) = entry_id (es ! j)" if "j < length es" "survives (es ! j)" for j
    using fork_row_at(2)[OF assms(1) that, of h] by (simp_all add: row_forked_def)
  obtain b' where c': "?F ! fork_position es c = FeCompaction p b'"
    using at(1)[OF cl cs] assms(7) by (auto simp: row_forked_def with_parent_compaction split: if_splits)
  have post': "\<forall>q \<in> set (surviving es post). \<not> is_compaction (?F ! q)"
  proof
    fix q assume "q \<in> set (surviving es post)"
    then obtain j where j: "j \<in> set post" "survives (es ! j)" "q = fork_position es j" by (auto simp: surviving_def)
    with inpath[of j] assms(6) have "j < length es" by simp
    from is_compaction_forked[OF at(1)[OF this j(2)]] assms(8) j show "\<not> is_compaction (?F ! q)" by simp
  qed
  have "before_first_kept ?F ?fk q" if "q \<in> set front" for q
  proof -
    from that have "q \<in> fork_position es ` {j \<in> set (pre @ g # kept). survives (es ! j)}"
      by (simp only: front_def surviving_def set_map set_filter)
    then obtain j where j: "j \<in> set (pre @ g # kept)" "survives (es ! j)" "q = fork_position es j" by blast
    have "j \<noteq> g" using j(2) assms(9) by (auto simp: survives_def)
    with before[of j] j(1) path have "before_first_kept es ?fk j" by auto
    moreover have "j < length es" using inpath[of j] j(1) path by auto
    ultimately show ?thesis using at(2)[of j] j(2,3) by (simp add: before_first_kept_def)
  qed
  then have none: "dropWhile (before_first_kept ?F ?fk) front = []" by simp
  have "row_id (?F ! fork_position es i) = Some x" using fork_row_at(3)[OF assms(1-3)] assms(4) by simp
  from compacted_messages[OF fork(1,2) this assms(5) path' c' post'] none
  have "\<exists>summary keep. sc_messages (build_session_context ?F (Some x)) =
      SmCompactionSummary summary # concat (map (\<lambda>q. context_message keep (?F ! q)) (surviving es post))
    \<and> cs_retained_message_count summary = Some 0"
    by (auto simp: Let_def compaction_summary_def)
  with source show ?thesis by blast
qed

end
