(* ===== verification/SessionInstances.thy ===== *)
theory SessionInstances
  imports SessionFaults SessionOpen SessionFork
begin

text \<open>
  Concrete sessions at which the theorems on constructors, reopening, materializing and forking apply.
\<close>

section \<open>Constructors and reopening\<close>

lemma demo_new_session:
  "\<exists>s. new_with demo_env ''/w'' ''d'' None False world = (Inr (), s)"
  by (simp add: new_with_def new_session_def mon_simps blank_manager_def session_target_def default_options_def
      create_session_id_def read_clock_def new_rlm_depth_def root_rlm_depth_from_env_def demo_env_def Let_def)


lemma demo_codec_law:
  "reads_back (ev_ser demo_env) (ev_deser demo_env) e \<Longrightarrow> codec_line (ev_is_json demo_env) (ev_ser demo_env e)"
proof -
  assume "reads_back (ev_ser demo_env) (ev_deser demo_env) e"
  then have "find (\<lambda>y. demo_ser y = demo_ser e) demo_codec_rows = Some e" and utf: "valid_utf8 (demo_ser e)"
    by (simp_all add: reads_back_def demo_env_def)
  then have "e \<in> set demo_codec_rows" by (auto simp: find_Some_iff)
  then have "demo_ser e \<in> set (map demo_ser demo_codec_rows)" by simp
  moreover have "\<forall>l \<in> set [''{s1}'', ''{a}'', ''{00000400}'']. object_line l \<and> nul \<notin> set l \<and> demo_is_json l
      \<and> (\<forall>k < length l. 0 < k \<longrightarrow> \<not> demo_is_json (take k l))"
    by code_simp
  ultimately show ?thesis unfolding demo_codec_lines using utf by (simp add: codec_line_def demo_env_def del: list.set)
qed


lemma materialized_lookups_shift_witness:
  "\<exists>target s'. materialize_session_file demo_env None ((demo_manager False [])\<lparr>sm_session_file := None\<rparr>) = (target, s')
     \<and> get_entry_by_id s' ''a'' = Some demo_header"
proof -
  let ?s = "(demo_manager False [])\<lparr>sm_session_file := None\<rparr>"
  obtain target s' where run: "materialize_session_file demo_env None ?s = (target, s')" by fastforce
  have "manager_ok demo_env ?s"
    using demo_manager_ok[of False "[]"] by (simp add: manager_ok_def leaf_ok_def ids_fresh_def)
  moreover have "is_header demo_header" by code_simp
  ultimately show ?thesis
    using materialized_lookups_shift[OF _ _ _ run] run by auto
qed

section \<open>Forks\<close>

text \<open>Two turns with a git state between them; the compaction keeps from the git state.\<close>

definition demo_git_rows :: "file_entry list" where
  "demo_git_rows =
     [demo_header, demo_user ''a'' None ''x'',
      FeGitState \<lparr>gc_repo_url = None, gc_commit = None, gc_branch = None\<rparr>
        (demo_base ''g'' (Some ''a'')),
      demo_user ''b'' (Some ''g'') ''y'', demo_compaction ''k'' (Some ''b'') ''g'' None,
      demo_user ''d'' (Some ''k'') ''z'']"

definition demo_fork_header :: session_header where
  "demo_fork_header =
     \<lparr>hd_version = Some 3, hd_id = ''s2'', hd_timestamp = ''2024-02-29T11:00:00.000Z'', hd_cwd = ''/w'',
      hd_parent_session = Some ''f'', hd_rlm_depth = Some 0, hd_git = None, hd_rest = []\<rparr>"

lemma demo_git_rows_ok: "rows_ok demo_git_rows" "length demo_git_rows = 6"
proof -
  show "length demo_git_rows = 6" by code_simp
  have "row_ids demo_git_rows = [''a'', ''g'', ''b'', ''k'', ''d'']" by code_simp
  moreover have "\<forall>i < length demo_git_rows. is_header (demo_git_rows ! i) \<longrightarrow> i = 0" by code_simp
  moreover have "\<forall>i < length demo_git_rows. case entry_parent_id (demo_git_rows ! i) of
      None \<Rightarrow> True | Some p \<Rightarrow> \<exists>j < i. row_id (demo_git_rows ! j) = Some p" by code_simp
  ultimately show "rows_ok demo_git_rows" by (simp add: rows_ok_def header_front_def)
qed

lemma fork_keeps_branches_witness:
  "context_path (fork_of demo_fork_header demo_git_rows) (fork_position demo_git_rows 5)
     = surviving demo_git_rows (context_path demo_git_rows 5)
   \<and> surviving demo_git_rows (context_path demo_git_rows 5) = [1, 2, 3, 4]"
proof -
  have "survives (demo_git_rows ! 5)" "surviving demo_git_rows (context_path demo_git_rows 5) = [1, 2, 3, 4]"
    by code_simp+
  then show ?thesis
    using fork_keeps_branches[OF demo_git_rows_ok(1), of 5 demo_fork_header] demo_git_rows_ok(2) by simp
qed

lemma fork_forgets_kept_rows_witness:
  "\<exists>summary keep summary' keep'.
       sc_messages (build_session_context demo_git_rows (Some ''d'')) =
         SmCompactionSummary summary # concat (map (\<lambda>j. context_message keep (demo_git_rows ! j)) ([3] @ [5]))
     \<and> sc_messages (build_session_context (fork_of demo_fork_header demo_git_rows) (Some ''d'')) =
         SmCompactionSummary summary' # concat (map (\<lambda>q. context_message keep'
           (fork_of demo_fork_header demo_git_rows ! q)) (surviving demo_git_rows [5]))
     \<and> cs_retained_message_count summary' = Some 0"
proof (rule fork_forgets_kept_rows[where i = 5 and pre = "[1]" and g = 2 and c = 4, OF demo_git_rows_ok(1)])
  show "5 < length demo_git_rows" "survives (demo_git_rows ! 5)" "row_id (demo_git_rows ! 5) = Some ''d''"
    "context_path demo_git_rows 5 = [1] @ 2 # [3] @ 4 # [5]" "\<forall>j \<in> set [5]. \<not> is_compaction (demo_git_rows ! j)"
    "is_git_state (demo_git_rows ! 2)"
    by code_simp+
  show "demo_git_rows ! 4 = FeCompaction
      \<lparr>co_summary = ''sum'', co_first_kept_entry_id = ''g'', co_tokens_before = 9,
       co_details = None, co_from_hook = None, co_custom_instructions = None, co_usage = None,
       co_harness_digest = None, co_harness_state_fingerprint = None\<rparr> (demo_base ''k'' (Some ''b''))"
    by (simp add: demo_git_rows_def demo_compaction_def)
  show "entry_id (demo_git_rows ! 2) = Some (co_first_kept_entry_id
      \<lparr>co_summary = ''sum'', co_first_kept_entry_id = ''g'', co_tokens_before = 9,
       co_details = None, co_from_hook = None, co_custom_instructions = None, co_usage = None,
       co_harness_digest = None, co_harness_state_fingerprint = None\<rparr>)" by code_simp
qed simp_all

end
