(* ===== verification/Rust_Float.thy ===== *)
theory Rust_Float
  imports Prelude
begin

text \<open>
  The arithmetic of \<open>f64\<close> on non-negative integers: rounding to 53 significant bits, ties to even. A
  product of a float and a constant is exact before it is rounded, so it is computed on the integers
  \<open>m * 2 ^ (- e)\<close> that the floats are.
\<close>

fun bit_length :: "nat \<Rightarrow> nat" where
  "bit_length n = (if n = 0 then 0 else Suc (bit_length (n div 2)))"

declare bit_length.simps [simp del]

lemma bit_length_bounds: "n < 2 ^ bit_length n \<and> (0 < n \<longrightarrow> 2 ^ (bit_length n - 1) \<le> n)"
proof (induction n rule: bit_length.induct)
  case (1 n)
  show ?case
  proof (cases "n = 0")
    case True
    then show ?thesis by (simp add: bit_length.simps)
  next
    case False
    then have len: "bit_length n = Suc (bit_length (n div 2))" by (subst bit_length.simps) simp
    from 1[OF False] have half: "n div 2 < 2 ^ bit_length (n div 2)"
      "0 < n div 2 \<longrightarrow> 2 ^ (bit_length (n div 2) - 1) \<le> n div 2" by simp_all
    have "2 ^ bit_length (n div 2) \<le> n"
    proof (cases "n div 2 = 0")
      case True
      then show ?thesis using False by (simp add: bit_length.simps)
    next
      case nz: False
      then have "bit_length (n div 2) \<noteq> 0" by (subst bit_length.simps) simp
      then have "(2 :: nat) ^ bit_length (n div 2) = 2 * 2 ^ (bit_length (n div 2) - 1)"
        by (cases "bit_length (n div 2)") simp_all
      with half(2) nz show ?thesis by linarith
    qed
    with half(1) show ?thesis by (simp add: len)
  qed
qed

definition f64_round :: "nat \<Rightarrow> nat" where
  "f64_round x =
     (let k = bit_length x - 53;
          q = x div 2 ^ k;
          r = x mod 2 ^ k
      in (if 2 * r < 2 ^ k \<or> 2 * r = 2 ^ k \<and> even q then q else Suc q) * 2 ^ k)"

lemma f64_round_exact: "x < 2 ^ 53 \<Longrightarrow> f64_round x = x"
proof -
  assume x: "x < 2 ^ 53"
  have "bit_length x - 53 = 0"
  proof (cases "x = 0")
    case True
    then show ?thesis by (simp add: bit_length.simps)
  next
    case False
    then have "2 ^ (bit_length x - 1) < (2 :: nat) ^ 53" using bit_length_bounds[of x] x by linarith
    then have "bit_length x - 1 < 53" by (simp only: power_strict_increasing_iff one_less_numeral_iff semiring_norm)
    then show ?thesis by simp
  qed
  then show ?thesis by (simp add: f64_round_def)
qed

text \<open>The result is the multiple of the last place next to the argument.\<close>

lemma f64_round_near:
  assumes "k = bit_length x - 53"
  shows "2 * f64_round x \<le> 2 * x + 2 ^ k" and "2 * x \<le> 2 * f64_round x + 2 ^ k"
    and "2 ^ k dvd t \<Longrightarrow> t \<le> x \<Longrightarrow> t \<le> f64_round x"
    and "2 ^ k dvd t \<Longrightarrow> x < t \<Longrightarrow> 2 * t < 2 * x + 2 ^ k \<Longrightarrow> f64_round x = t"
proof -
  define q r where "q = x div 2 ^ k" and "r = x mod 2 ^ k"
  have x: "x = q * 2 ^ k + r" and r: "r < 2 ^ k"
    using div_mult_mod_eq[of x "2 ^ k"] by (simp_all add: q_def r_def)
  have round: "f64_round x = (if 2 * r < 2 ^ k \<or> 2 * r = 2 ^ k \<and> even q then q else Suc q) * 2 ^ k"
    unfolding f64_round_def assms[symmetric] q_def r_def Let_def ..
  show "2 * f64_round x \<le> 2 * x + 2 ^ k" "2 * x \<le> 2 * f64_round x + 2 ^ k"
    using r x unfolding round by (auto split: if_splits)
  show "t \<le> f64_round x" if t: "2 ^ k dvd t" "t \<le> x"
  proof -
    obtain j where j: "t = j * 2 ^ k" using t(1) by (metis dvd_def mult.commute)
    have "j = t div 2 ^ k" by (simp add: j)
    also have "... \<le> q" unfolding q_def using t(2) by (rule div_le_mono)
    finally have "t \<le> q * 2 ^ k" unfolding j by (rule mult_le_mono1)
    also have "... \<le> f64_round x" by (simp add: round)
    finally show ?thesis .
  qed
  show "f64_round x = t" if t: "2 ^ k dvd t" "x < t" "2 * t < 2 * x + 2 ^ k"
  proof -
    obtain j where j: "t = j * 2 ^ k" using t(1) by (metis dvd_def mult.commute)
    have "q * 2 ^ k < j * 2 ^ k" using t(2) x j by linarith
    then have "Suc q \<le> j" by (metis Suc_leI mult_less_cancel2)
    moreover have "j \<le> Suc q"
    proof (rule ccontr)
      assume "\<not> j \<le> Suc q"
      then have "(q + 2) * 2 ^ k \<le> j * 2 ^ k" by (intro mult_le_mono1) simp
      then show False using t(3) x j r by (simp add: algebra_simps)
    qed
    ultimately have "t = Suc q * 2 ^ k" using j by simp
    moreover from this have "2 ^ k < 2 * r" using t(3) x by simp
    ultimately show ?thesis by (simp add: round)
  qed
qed

text \<open>
  The product of an integer below \<open>2 ^ 48\<close> with the float next to \<open>0.95\<close>, cut to an integer, is the
  floor of the exact product.
\<close>

definition ratio_095 :: nat where
  "ratio_095 = 8556839292003942"

definition f64_scale_095 :: "nat \<Rightarrow> nat" where
  "f64_scale_095 c = f64_round (f64_round c * ratio_095) div 2 ^ 53"

lemma f64_scale_095_floor:
  assumes "c < 2 ^ 48"
  shows "f64_scale_095 c = 19 * c div 20"
proof (cases "c = 0")
  case True
  then show ?thesis by (simp add: f64_scale_095_def f64_round_exact)
next
  case False
  define P K s where "P = c * ratio_095" and "K = 19 * c div 20" and "s = 19 * c mod 20"
  define k where "k = bit_length P - 53"
  have c: "19 * c = 20 * K + s" "s < 20" by (simp_all add: K_def s_def)
  have P: "20 * P + 8 * c = 19 * c * 2 ^ 53" by (simp add: P_def ratio_095_def)
  have exact: "f64_scale_095 c = f64_round P div 2 ^ 53"
    using f64_round_exact[of c] assms by (simp add: f64_scale_095_def P_def)
  have Pb: "2 ^ 52 \<le> P" "P < 2 ^ 101"
    using False assms by (simp_all add: P_def ratio_095_def)
  have len: "53 \<le> bit_length P" "bit_length P \<le> 101"
  proof -
    have pos: "0 < P" using Pb(1) by (simp add: less_le_trans[OF zero_less_power])
    have "(2 :: nat) ^ 52 < 2 ^ bit_length P" using Pb(1) bit_length_bounds[of P] by linarith
    then have "52 < bit_length P" by (simp only: power_strict_increasing_iff one_less_numeral_iff semiring_norm)
    then show "53 \<le> bit_length P" by simp
    have "(2 :: nat) ^ (bit_length P - 1) < 2 ^ 101" using Pb(2) bit_length_bounds[of P] pos by linarith
    then have "bit_length P - 1 < 101" by (simp only: power_strict_increasing_iff one_less_numeral_iff semiring_norm)
    then show "bit_length P \<le> 101" by simp
  qed
  then have k: "k \<le> 48" "bit_length P = k + 53" by (simp_all add: k_def)
  have small: "(2 :: nat) ^ k \<le> 2 ^ 48" using k(1) by (intro power_increasing) simp_all
  have large: "P < 2 ^ 53 * 2 ^ k" using bit_length_bounds[of P] k(2) by (simp add: power_add)
  have dvd: "2 ^ k dvd K * 2 ^ 53" using k(1) by (intro dvd_mult le_imp_power_dvd) simp
  note near = f64_round_near[OF k_def]
  have "K * 2 ^ 53 \<le> f64_round P \<and> f64_round P < Suc K * 2 ^ 53"
  proof (cases "s = 0")
    case True
    then have 20: "20 * P + 8 * c = 20 * (K * 2 ^ 53)" using P c(1) by simp
    then have less: "P < K * 2 ^ 53" using False by linarith
    have "2 * (K * 2 ^ 53) < 2 * P + 2 ^ k" using 20 large P False by simp
    from near(4)[OF dvd less this] show ?thesis by simp
  next
    case False
    then have 20: "20 * P + 8 * c = 20 * (K * 2 ^ 53) + s * 2 ^ 53" using P c(1) by (simp add: algebra_simps)
    then have "K * 2 ^ 53 \<le> P" using False assms by (cases s) simp_all
    from near(3)[OF dvd this] near(1) 20 c(2) small show ?thesis by simp
  qed
  then have "f64_round P div 2 ^ 53 = K"
    by (intro div_nat_eqI) (simp_all add: mult.commute)
  then show ?thesis by (simp add: exact K_def)
qed

section \<open>Rounding a rational\<close>

text \<open>
  The float next to a rational: 53 significant bits, ties to even. Overflow and subnormal results
  do not occur in the code that uses it.
\<close>

definition round_even :: "rat \<Rightarrow> int" where
  "round_even s =
     (let n = \<lfloor>s\<rfloor>; f = s - of_int n
      in if f < 1 / 2 \<or> f = 1 / 2 \<and> even n then n else n + 1)"

definition f64_exponent :: "rat \<Rightarrow> int" where
  "f64_exponent q =
     (let (a, b) = quotient_of q;
          e = int (bit_length (nat a)) - int (bit_length (nat b)) - 53
      in if 2 ^ 53 \<le> q / 2 powi e then e + 1 else e)"

definition f64_of :: "rat \<Rightarrow> rat" where
  "f64_of q =
     (if q = 0 then 0
      else let e = f64_exponent \<bar>q\<bar>
           in sgn q * (of_int (round_even (\<bar>q\<bar> / 2 powi e)) * 2 powi e))"

lemma round_even_near: "\<bar>of_int (round_even s) - s\<bar> \<le> 1 / 2"
  unfolding round_even_def Let_def by (auto simp: abs_if) linarith+

lemma f64_exponent_scale:
  assumes "0 < q"
  shows "2 ^ 52 \<le> q / 2 powi f64_exponent q"
proof -
  obtain a b where q: "quotient_of q = (a, b)" by (cases "quotient_of q")
  have b: "0 < b" using quotient_of_denom_pos [OF q] .
  have ab: "q = of_int a / of_int b" using quotient_of_div [OF q] .
  have a: "0 < a" using assms b unfolding ab by (simp add: zero_less_divide_iff)
  define la lb where "la = bit_length (nat a)" and "lb = bit_length (nat b)"
  have "2 ^ (la - 1) \<le> nat a" using bit_length_bounds [of "nat a"] a by (simp add: la_def)
  then have lower: "2 ^ (la - 1) \<le> (of_int a :: rat)" using a
    by (metis le_nat_iff less_imp_le of_int_le_iff of_int_numeral of_int_power of_nat_numeral of_nat_power)
  have "nat b < 2 ^ lb" using bit_length_bounds [of "nat b"] by (simp add: lb_def)
  then have upper: "(of_int b :: rat) \<le> 2 ^ lb" using b
    by (metis less_imp_le nat_less_iff of_int_le_iff of_int_numeral of_int_power of_nat_numeral of_nat_power)
  have la: "0 < la" using a bit_length_bounds [of "nat a"] by (cases la) (simp_all add: la_def)
  define e where "e = int la - int lb - 53"
  have "2 powi e * 2 ^ 52 = (2 :: rat) powi (e + 52)"
    using power_int_add [of "2 :: rat" e 52] by simp
  also have "\<dots> = 2 powi (int la - 1 - int lb)"
    by (rule arg_cong [where f = "\<lambda>x. 2 powi x"]) (simp add: e_def)
  also have "\<dots> = 2 ^ (la - 1) / 2 ^ lb"
  proof -
    have "int la - 1 = int (la - 1)" using la by simp
    then show ?thesis by (simp only: power_int_diff [of "2 :: rat", simplified] power_int_of_nat)
  qed
  also have "\<dots> \<le> of_int a / of_int b"
    using lower upper a b by (intro frac_le) simp_all
  finally have scaled: "2 powi e * 2 ^ 52 \<le> q" unfolding ab .
  have "0 < (2 :: rat) powi e" by simp
  from pos_le_divide_eq [OF this] scaled have "2 ^ 52 \<le> q / 2 powi e" by (simp only: mult.commute)
  moreover have "2 ^ 53 \<le> q / 2 powi e \<Longrightarrow> 2 ^ 52 \<le> q / 2 powi (e + 1)"
    by (simp add: power_int_add field_simps)
  ultimately show ?thesis by (simp add: f64_exponent_def q la_def [symmetric] lb_def [symmetric] e_def [symmetric] Let_def)
qed

text \<open>A rounding is off by at most half a unit in the last place.\<close>

lemma f64_of_near: "\<bar>q\<bar> \<le> B \<Longrightarrow> \<bar>f64_of q - q\<bar> \<le> B / 2 ^ 53"
proof (cases "q = 0")
  case False
  assume B: "\<bar>q\<bar> \<le> B"
  define e s where "e = f64_exponent \<bar>q\<bar>" and "s = \<bar>q\<bar> / 2 powi e"
  have s: "2 ^ 52 \<le> s" using f64_exponent_scale [of "\<bar>q\<bar>"] False by (simp add: e_def s_def)
  have q: "\<bar>q\<bar> = s * 2 powi e" by (simp add: s_def)
  have "f64_of q = sgn q * (of_int (round_even s) * 2 powi e)"
    using False by (simp add: f64_of_def e_def [symmetric] s_def [symmetric] Let_def)
  moreover have "q = sgn q * (s * 2 powi e)" using q by (metis sgn_mult_abs)
  ultimately have "f64_of q - q = sgn q * (of_int (round_even s) * 2 powi e) - sgn q * (s * 2 powi e)" by presburger
  then have "f64_of q - q = sgn q * ((of_int (round_even s) - s) * 2 powi e)"
    by (simp only: right_diff_distrib left_diff_distrib)
  then have "\<bar>f64_of q - q\<bar> = \<bar>of_int (round_even s) - s\<bar> * 2 powi e"
    using False by (simp add: abs_mult)
  also have "\<dots> \<le> 1 / 2 * 2 powi e" using round_even_near [of s] by (intro mult_right_mono) simp_all
  also have "\<dots> \<le> s * 2 powi e / 2 ^ 53" using s by (simp add: field_simps)
  finally show ?thesis using B q by (simp add: field_simps)
qed (simp add: f64_of_def)

end
