(* ===== verification/Compaction.thy ===== *)
theory Compaction
  imports SessionBuild Rust_Float
begin

text \<open>
  The decisions of context compaction: \<open>session_engine/compaction.rs\<close> (token estimates, the
  threshold, the cut point) and \<open>compact_session/prepare.rs\<close>. The parameter \<open>args_json\<close> is
  \<open>serde_json::to_string\<close> on the arguments of a tool call. Unsigned sums wrap, as in a release build.
\<close>

section \<open>Settings and usage\<close>

definition default_reserve_tokens :: nat where
  "default_reserve_tokens = 16384"

definition default_keep_recent_tokens :: nat where
  "default_keep_recent_tokens = 20000"

definition combined_limit_headroom_floor :: nat where
  "combined_limit_headroom_floor = 4096"

record compaction_settings =
  cst_enabled :: bool
  cst_reserve_tokens :: nat
  cst_keep_recent_tokens :: nat

definition default_compaction_settings :: compaction_settings where
  "default_compaction_settings =
     \<lparr>cst_enabled = True, cst_reserve_tokens = default_reserve_tokens,
      cst_keep_recent_tokens = default_keep_recent_tokens\<rparr>"

definition u64_add :: "nat \<Rightarrow> nat \<Rightarrow> nat" where
  "u64_add a b = (a + b) mod (u64_max + 1)"

definition u64_sum :: "nat list \<Rightarrow> nat" where
  "u64_sum xs = foldl u64_add 0 xs"

definition calculate_context_tokens :: "usage \<Rightarrow> nat" where
  "calculate_context_tokens u =
     (if us_total_tokens u > 0 then us_total_tokens u
      else u64_add (u64_add (u64_add (us_input u) (us_output u)) (us_cache_read u)) (us_cache_write u))"

fun assistant_usage :: "session_message \<Rightarrow> usage option" where
  "assistant_usage (SmAssistant a) =
     (if aia_stop_reason a = StopAborted \<or> aia_stop_reason a = StopError then None else Some (aia_usage a))"
| "assistant_usage _ = None"

fun entry_usage :: "file_entry \<Rightarrow> usage option" where
  "entry_usage (FeMessage m _) = assistant_usage m"
| "entry_usage _ = None"

definition get_last_assistant_usage :: "file_entry list \<Rightarrow> usage option" where
  "get_last_assistant_usage es =
     (case List.map_filter entry_usage (rev es) of [] \<Rightarrow> None | u # _ \<Rightarrow> Some u)"

section \<open>Token estimates\<close>

definition div4 :: "nat \<Rightarrow> nat" where
  "div4 chars = (chars + 3) div 4"

fun user_block_chars :: "user_content_block \<Rightarrow> nat" where
  "user_block_chars (UbText t) = chars_count (ait_text t)"
| "user_block_chars _ = 0"

fun sized_block_chars :: "user_content_block \<Rightarrow> nat" where
  "sized_block_chars (UbText t) = chars_count (ait_text t)"
| "sized_block_chars (UbImage _) = 4800"
| "sized_block_chars (UbRaw _) = 0"

fun assistant_block_chars :: "(json_map \<Rightarrow> string) \<Rightarrow> assistant_content_block \<Rightarrow> nat" where
  "assistant_block_chars args_json (AbText t) = chars_count (ait_text t)"
| "assistant_block_chars args_json (AbThinking t) = chars_count (aith_thinking t)"
| "assistant_block_chars args_json (AbToolCall c) =
     u64_add (chars_count (aitc_name c)) (chars_count (args_json (aitc_arguments c)))"

fun estimate_tokens :: "(json_map \<Rightarrow> string) \<Rightarrow> session_message \<Rightarrow> nat" where
  "estimate_tokens args_json (SmUser u) =
     (case aiu_content u of
        UcText t \<Rightarrow> div4 (chars_count t)
      | UcBlocks bs \<Rightarrow> div4 (u64_sum (map user_block_chars bs)))"
| "estimate_tokens args_json (SmAssistant a) = div4 (u64_sum (map (assistant_block_chars args_json) (aia_content a)))"
| "estimate_tokens args_json (SmCustom c) =
     (case cu_content c of
        UcText t \<Rightarrow> div4 (chars_count t)
      | UcBlocks bs \<Rightarrow> div4 (u64_sum (map sized_block_chars bs)))"
| "estimate_tokens args_json (SmToolResult r) = div4 (u64_sum (map sized_block_chars (air_content r)))"
| "estimate_tokens args_json (SmBashExecution b) = div4 (u64_add (chars_count (be_command b)) (chars_count (be_output b)))"
| "estimate_tokens args_json (SmBranchSummary s) = div4 (chars_count (bs_summary s))"
| "estimate_tokens args_json (SmCompactionSummary s) = div4 (chars_count (cs_summary s))"

record context_tokens_estimate =
  cte_tokens :: nat
  cte_last_usage_index :: "nat option"

text \<open>\<open>rposition\<close>\<close>

definition rposition :: "('a \<Rightarrow> bool) \<Rightarrow> 'a list \<Rightarrow> nat option" where
  "rposition P xs = find (\<lambda>i. P (xs ! i)) (rev [0..<length xs])"

definition estimate_context_tokens :: "(json_map \<Rightarrow> string) \<Rightarrow> session_message list \<Rightarrow> context_tokens_estimate" where
  "estimate_context_tokens args_json ms =
     (case rposition (\<lambda>m. assistant_usage m \<noteq> None) ms of
        Some i \<Rightarrow>
          \<lparr>cte_tokens = u64_add (calculate_context_tokens (the (assistant_usage (ms ! i))))
                          (u64_sum (map (estimate_tokens args_json) (drop (Suc i) ms))),
           cte_last_usage_index = Some i\<rparr>
      | None \<Rightarrow>
          \<lparr>cte_tokens = u64_sum (map (estimate_tokens args_json) ms), cte_last_usage_index = None\<rparr>)"

section \<open>The threshold\<close>

definition compaction_threshold :: "nat \<Rightarrow> nat \<Rightarrow> compaction_settings \<Rightarrow> nat" where
  "compaction_threshold context_window max_output_tokens settings =
     min (f64_scale_095 context_window)
       (saturating_sub (saturating_sub context_window max_output_tokens)
          (max (cst_reserve_tokens settings) combined_limit_headroom_floor))"

definition should_compact :: "nat \<Rightarrow> nat \<Rightarrow> nat \<Rightarrow> compaction_settings \<Rightarrow> bool" where
  "should_compact context_tokens context_window max_output_tokens settings =
     (if \<not> cst_enabled settings then False
      else if context_window = 0 then False
      else 0 < compaction_threshold context_window max_output_tokens settings
         \<and> compaction_threshold context_window max_output_tokens settings < context_tokens)"

fun message_timestamp :: "session_message \<Rightarrow> nat" where
  "message_timestamp (SmUser u) = aiu_timestamp u"
| "message_timestamp (SmAssistant a) = aia_timestamp a"
| "message_timestamp (SmCustom c) = cu_timestamp c"
| "message_timestamp (SmToolResult r) = air_timestamp r"
| "message_timestamp (SmBashExecution b) = be_timestamp b"
| "message_timestamp (SmBranchSummary s) = bs_timestamp s"
| "message_timestamp (SmCompactionSummary s) = cs_timestamp s"

fun summary_timestamp :: "session_message \<Rightarrow> nat option" where
  "summary_timestamp (SmCompactionSummary s) = Some (cs_timestamp s)"
| "summary_timestamp _ = None"

fun assistant_of :: "session_message \<Rightarrow> ai_assistant_message option" where
  "assistant_of (SmAssistant a) = Some a"
| "assistant_of _ = None"

definition newest :: "('a \<Rightarrow> 'b option) \<Rightarrow> 'a list \<Rightarrow> 'b option" where
  "newest f xs = (case List.map_filter f (rev xs) of [] \<Rightarrow> None | y # _ \<Rightarrow> Some y)"

text \<open>\<open>threshold_compaction_due\<close>: the tokens to compare, or none when the anchor is stale.\<close>

definition threshold_context_tokens :: "(json_map \<Rightarrow> string) \<Rightarrow> session_message list \<Rightarrow> nat option" where
  "threshold_context_tokens args_json ms =
     (let compaction_timestamp = newest summary_timestamp ms;
          stale = (\<lambda>t. case compaction_timestamp of None \<Rightarrow> False | Some c \<Rightarrow> t \<le> c);
          estimate = estimate_context_tokens args_json ms
      in case cte_last_usage_index estimate of
           Some i \<Rightarrow> if stale (message_timestamp (ms ! i)) then None else Some (cte_tokens estimate)
         | None \<Rightarrow>
             (case newest assistant_of ms of
                None \<Rightarrow> None
              | Some a \<Rightarrow>
                  if aia_stop_reason a = StopError then None
                  else if stale (aia_timestamp a) then None
                  else Some (calculate_context_tokens (aia_usage a))))"

definition threshold_compaction_due ::
    "(json_map \<Rightarrow> string) \<Rightarrow> session_message list \<Rightarrow> nat \<Rightarrow> nat \<Rightarrow> compaction_settings \<Rightarrow> bool" where
  "threshold_compaction_due args_json ms context_window max_output_tokens settings =
     (if \<not> cst_enabled settings \<or> context_window = 0 then False
      else case threshold_context_tokens args_json ms of
             None \<Rightarrow> False
           | Some t \<Rightarrow> should_compact t context_window max_output_tokens settings)"


section \<open>The cut point\<close>

fun is_tool_result :: "session_message \<Rightarrow> bool" where
  "is_tool_result (SmToolResult _) = True"
| "is_tool_result _ = False"

fun is_cut_point :: "file_entry \<Rightarrow> bool" where
  "is_cut_point (FeMessage m _) = (\<not> is_tool_result m)"
| "is_cut_point (FeBranchSummary _ _) = True"
| "is_cut_point (FeCustomMessage _ _) = True"
| "is_cut_point _ = False"

definition find_valid_cut_points :: "file_entry list \<Rightarrow> nat \<Rightarrow> nat \<Rightarrow> nat list" where
  "find_valid_cut_points es start_index end_index =
     filter (\<lambda>i. is_cut_point (es ! i)) [start_index..<min end_index (length es)]"

fun starts_turn :: "file_entry \<Rightarrow> bool" where
  "starts_turn (FeBranchSummary _ _) = True"
| "starts_turn (FeCustomMessage _ _) = True"
| "starts_turn (FeMessage (SmUser _) _) = True"
| "starts_turn (FeMessage (SmBashExecution _) _) = True"
| "starts_turn _ = False"

definition find_turn_start_index :: "file_entry list \<Rightarrow> nat \<Rightarrow> nat \<Rightarrow> nat option" where
  "find_turn_start_index es entry_index start_index =
     find (\<lambda>i. starts_turn (es ! i)) (rev [start_index..<Suc entry_index])"

record cut_point_result =
  cp_first_kept_entry_index :: nat
  cp_turn_start_index :: "nat option"
  cp_is_split_turn :: bool

text \<open>The scan from the end: the row at which the budget is used up.\<close>

fun cut_scan :: "(json_map \<Rightarrow> string) \<Rightarrow> file_entry list \<Rightarrow> nat \<Rightarrow> nat \<Rightarrow> nat list \<Rightarrow> nat option" where
  "cut_scan args_json es keep acc [] = None"
| "cut_scan args_json es keep acc (i # is) =
     (case es ! i of
        FeMessage m _ \<Rightarrow>
          let acc' = saturating_add acc (estimate_tokens args_json m)
          in if keep \<le> acc' then Some i else cut_scan args_json es keep acc' is
      | _ \<Rightarrow> cut_scan args_json es keep acc is)"

fun cut_boundary :: "file_entry \<Rightarrow> bool" where
  "cut_boundary (FeCompaction _ _) = True"
| "cut_boundary (FeMessage _ _) = True"
| "cut_boundary _ = False"

fun walk_back :: "file_entry list \<Rightarrow> nat \<Rightarrow> nat \<Rightarrow> nat" where
  "walk_back es start_index 0 = 0"
| "walk_back es start_index (Suc c) =
     (if start_index < Suc c \<and> \<not> cut_boundary (es ! c) then walk_back es start_index c else Suc c)"

fun is_user_row :: "file_entry \<Rightarrow> bool" where
  "is_user_row (FeMessage (SmUser _) _) = True"
| "is_user_row _ = False"

definition find_cut_point ::
    "(json_map \<Rightarrow> string) \<Rightarrow> file_entry list \<Rightarrow> nat \<Rightarrow> nat \<Rightarrow> nat \<Rightarrow> cut_point_result" where
  "find_cut_point args_json es start_index end_index keep_recent_tokens =
     (let points = find_valid_cut_points es start_index end_index in
      if points = [] then
        \<lparr>cp_first_kept_entry_index = start_index, cp_turn_start_index = None, cp_is_split_turn = False\<rparr>
      else
        let cut = (case cut_scan args_json es keep_recent_tokens 0 (rev [start_index..<min end_index (length es)]) of
                     None \<Rightarrow> hd points
                   | Some i \<Rightarrow> (case find (\<lambda>p. i \<le> p) points of Some p \<Rightarrow> p | None \<Rightarrow> last points));
            cut = walk_back es start_index cut;
            is_user = is_user_row (es ! cut);
            turn_start = (if is_user then None else find_turn_start_index es cut start_index)
        in \<lparr>cp_first_kept_entry_index = cut, cp_turn_start_index = turn_start,
            cp_is_split_turn = (\<not> is_user \<and> turn_start \<noteq> None)\<rparr>)"

section \<open>What the cut keeps\<close>

fun row_tokens :: "(json_map \<Rightarrow> string) \<Rightarrow> file_entry \<Rightarrow> nat" where
  "row_tokens args_json (FeMessage m _) = estimate_tokens args_json m"
| "row_tokens args_json _ = 0"

definition tail_tokens :: "(json_map \<Rightarrow> string) \<Rightarrow> file_entry list \<Rightarrow> nat list \<Rightarrow> nat" where
  "tail_tokens args_json es is = sum_list (map (\<lambda>i. row_tokens args_json (es ! i)) is)"

lemma tail_tokens_simps [simp]:
  "tail_tokens aj es [] = 0" "tail_tokens aj es (i # is) = row_tokens aj (es ! i) + tail_tokens aj es is"
  "tail_tokens aj es (is @ js) = tail_tokens aj es is + tail_tokens aj es js"
  "tail_tokens aj es (rev is) = tail_tokens aj es is"
  by (simp_all add: tail_tokens_def rev_map[symmetric] sum_list_rev)

lemma cut_scan_step:
  assumes "acc < keep" and "keep \<le> u64_max"
  shows "cut_scan aj es keep acc (i # is) =
     (if keep \<le> acc + row_tokens aj (es ! i) then Some i else cut_scan aj es keep (acc + row_tokens aj (es ! i)) is)"
  using assms by (cases "es ! i") (auto simp: saturating_add_def Let_def min_def)

lemma cut_scan_spec:
  assumes "acc < keep" and "keep \<le> u64_max"
  shows "case cut_scan aj es keep acc is of
      None \<Rightarrow> acc + tail_tokens aj es is < keep
    | Some i \<Rightarrow> \<exists>xs ys. is = xs @ i # ys \<and> acc + tail_tokens aj es xs < keep
        \<and> keep \<le> acc + tail_tokens aj es (xs @ [i])"
  using assms
proof (induction "is" arbitrary: acc)
  case (Cons j js)
  show ?case
  proof (cases "keep \<le> acc + row_tokens aj (es ! j)")
    case True
    then have "cut_scan aj es keep acc (j # js) = Some j" by (simp only: cut_scan_step[OF Cons.prems] if_True)
    moreover have "\<exists>xs ys. j # js = xs @ j # ys \<and> acc + tail_tokens aj es xs < keep
        \<and> keep \<le> acc + tail_tokens aj es (xs @ [j])"
      using True Cons.prems by - (rule exI[of _ "[]"], rule exI[of _ js], simp)
    ultimately show ?thesis by simp
  next
    case False
    then have less: "acc + row_tokens aj (es ! j) < keep" by simp
    have step: "cut_scan aj es keep acc (j # js) = cut_scan aj es keep (acc + row_tokens aj (es ! j)) js"
      using False by (simp only: cut_scan_step[OF Cons.prems] if_False)
    show ?thesis
    proof (cases "cut_scan aj es keep (acc + row_tokens aj (es ! j)) js")
      case None
      with Cons.IH[OF less Cons.prems(2)] step show ?thesis by simp
    next
      case (Some i)
      with Cons.IH[OF less Cons.prems(2)] obtain xs ys where
        "js = xs @ i # ys" "acc + row_tokens aj (es ! j) + tail_tokens aj es xs < keep"
        "keep \<le> acc + row_tokens aj (es ! j) + tail_tokens aj es (xs @ [i])" by auto
      then have "\<exists>xs ys. j # js = xs @ i # ys \<and> acc + tail_tokens aj es xs < keep
          \<and> keep \<le> acc + tail_tokens aj es (xs @ [i])"
        by - (rule exI[of _ "j # xs"], rule exI[of _ ys], simp)
      with Some step show ?thesis by simp
    qed
  qed
qed simp

lemma rev_upt_split:
  assumes "rev [a..<n] = xs @ i # ys"
  shows "a \<le> i" and "i < n" and "rev xs = [Suc i..<n]"
proof -
  have eq: "[a..<n] = rev ys @ i # rev xs" using arg_cong[OF assms, of rev] by simp
  then have "length [a..<n] = length ys + Suc (length xs)" by simp
  then have len: "length ys < n - a" by simp
  have "[a..<n] ! length ys = i" unfolding eq by (simp add: nth_append)
  with len have i: "i = a + length ys" by simp
  then show "a \<le> i" "i < n" using len by simp_all
  have "drop (Suc (length ys)) [a..<n] = rev xs" unfolding eq by simp
  then show "rev xs = [Suc i..<n]" by (simp add: i)
qed

lemma walk_back_spec:
  assumes "start_index \<le> c"
  shows "start_index \<le> walk_back es start_index c \<and> walk_back es start_index c \<le> c
     \<and> (\<forall>j. walk_back es start_index c \<le> j \<longrightarrow> j < c \<longrightarrow> \<not> cut_boundary (es ! j))
     \<and> (walk_back es start_index c = start_index \<or> cut_boundary (es ! (walk_back es start_index c - 1)))"
  using assms
proof (induction c)
  case (Suc c)
  then show ?case by (auto simp: less_Suc_eq)
qed simp

text \<open>The cut point chosen for a budget, before the walk back.\<close>

definition budget_point :: "(json_map \<Rightarrow> string) \<Rightarrow> file_entry list \<Rightarrow> nat \<Rightarrow> nat \<Rightarrow> nat \<Rightarrow> nat list \<Rightarrow> nat \<Rightarrow> bool" where
  "budget_point aj es start_index n keep points p \<longleftrightarrow>
     tail_tokens aj es [start_index..<n] < keep \<and> p = hd points
     \<or> (\<exists>i. start_index \<le> i \<and> i < n \<and> keep \<le> tail_tokens aj es [i..<n] \<and> tail_tokens aj es [Suc i..<n] < keep
          \<and> (i \<le> p \<and> (\<forall>q \<in> set points. i \<le> q \<longrightarrow> p \<le> q) \<or> (\<forall>q \<in> set points. q < i) \<and> p = last points))"

lemma find_first_sorted:
  "sorted xs \<Longrightarrow> find P xs = Some p \<Longrightarrow> P p \<and> p \<in> set xs \<and> (\<forall>q \<in> set xs. P q \<longrightarrow> p \<le> (q :: nat))"
  by (induction xs) (auto split: if_splits)

lemma chosen_point:
  assumes "0 < keep" and "keep \<le> u64_max" and "points \<noteq> []" and "points = find_valid_cut_points es start_index end_index"
    and "n = min end_index (length es)"
    and p_def: "p = (case cut_scan aj es keep 0 (rev [start_index..<n]) of
                     None \<Rightarrow> hd points
                   | Some i \<Rightarrow> (case find (\<lambda>p. i \<le> p) points of Some p \<Rightarrow> p | None \<Rightarrow> last points))"
  shows "p \<in> set points" and "budget_point aj es start_index n keep points p"
proof -
  have sorted: "sorted points" unfolding assms(4) find_valid_cut_points_def by (simp add: sorted_wrt_filter)
  note scan = cut_scan_spec[OF assms(1,2), of aj es "rev [start_index..<n]"]
  have "p \<in> set points \<and> budget_point aj es start_index n keep points p"
  proof (cases "cut_scan aj es keep 0 (rev [start_index..<n])")
    case None
    with scan assms(3) show ?thesis by (simp add: p_def budget_point_def)
  next
    case (Some i)
    with scan obtain xs ys where x: "rev [start_index..<n] = xs @ i # ys" "tail_tokens aj es xs < keep"
      "keep \<le> tail_tokens aj es (xs @ [i])" by auto
    note i = rev_upt_split[OF x(1)]
    have "tail_tokens aj es [Suc i..<n] = tail_tokens aj es xs" using i(3) by (metis tail_tokens_simps(4))
    moreover have "[i..<n] = i # [Suc i..<n]" using i(2) by (simp add: upt_conv_Cons)
    ultimately have t: "tail_tokens aj es [Suc i..<n] < keep" "keep \<le> tail_tokens aj es [i..<n]" using x by simp_all
    show ?thesis
    proof (cases "find (\<lambda>p. i \<le> p) points")
      case None
      then have "\<forall>q \<in> set points. q < i" by (auto simp: find_None_iff)
      moreover have "p = last points" using Some None by (simp add: p_def)
      ultimately show ?thesis using i(1,2) t assms(3) unfolding budget_point_def by auto
    next
      case (Some q)
      with find_first_sorted[OF sorted Some] have "p = q" "q \<in> set points" "i \<le> q" "\<forall>r \<in> set points. i \<le> r \<longrightarrow> q \<le> r"
        using \<open>cut_scan aj es keep 0 (rev [start_index..<n]) = Some i\<close> by (simp_all add: p_def)
      then show ?thesis using i(1,2) t unfolding budget_point_def by auto
    qed
  qed
  then show "p \<in> set points" "budget_point aj es start_index n keep points p" by simp_all
qed


end
