(* ===== verification/CompactionText.thy ===== *)
theory CompactionText
  imports SessionBuild "HOL-Library.List_Lexorder" "HOL-Library.Char_ord"
begin

text \<open>
  The texts around a compaction (\<open>session_engine/compaction_utils.rs\<close>): the file lists a summary
  carries, the removal of stale lists, the truncation of tool results and the serialized
  conversation. A \<open>BTreeSet<String>\<close> is the sorted list of its elements; \<open>show_json\<close> is the printer of
  \<open>serde_json\<close>.
\<close>

section \<open>File operations\<close>

record file_operations =
  fo_read :: "string list"
  fo_written :: "string list"
  fo_edited :: "string list"

definition no_file_operations :: file_operations where
  "no_file_operations = \<lparr>fo_read = [], fo_written = [], fo_edited = []\<rparr>"

definition file_list_max_entries :: nat where
  "file_list_max_entries = 200"

definition file_list_max_combined_chars :: nat where
  "file_list_max_combined_chars = 6000"

definition file_list_chars :: "string list \<Rightarrow> string list \<Rightarrow> nat" where
  "file_list_chars read_files modified_files =
     sum_list (map (\<lambda>f. chars_count f + 1) (read_files @ modified_files))"

definition edit_path :: "string \<Rightarrow> file_operations \<Rightarrow> file_operations" where
  "edit_path path ops = ops\<lparr>fo_edited := insort_insert path (fo_edited ops)\<rparr>"

fun diff_path :: "json \<Rightarrow> string option" where
  "diff_path diff = (case json_get ''path'' diff of None \<Rightarrow> None | Some v \<Rightarrow> json_as_str v)"

fun result_diffs :: "json option \<Rightarrow> json list" where
  "result_diffs (Some (JObj ms)) = (case map_of ms ''diffs'' of Some (JArr ds) \<Rightarrow> ds | _ \<Rightarrow> [])"
| "result_diffs _ = []"

fun call_edit_path :: "assistant_content_block \<Rightarrow> string option" where
  "call_edit_path (AbToolCall c) =
     (case map_of (aitc_arguments c) ''path'' of
        Some (JStr path) \<Rightarrow> if aitc_name c = ''edit'' then Some path else None
      | _ \<Rightarrow> None)"
| "call_edit_path _ = None"

fun extract_file_ops_from_message :: "session_message \<Rightarrow> file_operations \<Rightarrow> file_operations" where
  "extract_file_ops_from_message (SmToolResult r) ops =
     (if air_tool_name r \<noteq> ''ipython'' then ops
      else foldl (\<lambda>ops d. case diff_path d of
              None \<Rightarrow> ops | Some path \<Rightarrow> if path \<noteq> [] then edit_path path ops else ops)
             ops (result_diffs (air_details r)))"
| "extract_file_ops_from_message (SmAssistant a) ops =
     foldl (\<lambda>ops b. case call_edit_path b of None \<Rightarrow> ops | Some path \<Rightarrow> edit_path path ops) ops (aia_content a)"
| "extract_file_ops_from_message _ ops = ops"

text \<open>\<open>while !xs.is_empty() && over(xs) { xs.pop(); }\<close>\<close>

function pop_while :: "('a list \<Rightarrow> bool) \<Rightarrow> 'a list \<Rightarrow> 'a list" where
  "pop_while over xs = (if xs \<noteq> [] \<and> over xs then pop_while over (butlast xs) else xs)"
  by pat_completeness auto
termination
  by (relation "measure (length \<circ> snd)") auto

declare pop_while.simps [simp del]

definition compute_file_lists :: "file_operations \<Rightarrow> string list \<times> string list" where
  "compute_file_lists ops =
     (let modified = foldl (\<lambda>m f. insort_insert f m) (fo_edited ops) (fo_written ops);
          read_only = take file_list_max_entries (filter (\<lambda>f. f \<notin> set modified) (fo_read ops));
          modified_files = take file_list_max_entries modified;
          read_files = pop_while (\<lambda>r. file_list_max_combined_chars < file_list_chars r modified_files) read_only;
          modified_files = pop_while (\<lambda>m. read_files = [] \<and> file_list_max_combined_chars < file_list_chars read_files m)
                             modified_files
      in (read_files, modified_files))"

definition file_section :: "string \<Rightarrow> string list \<Rightarrow> string" where
  "file_section tag files =
     ''<'' @ tag @ ''>'' @ [line_feed] @ join_with [line_feed] files @ [line_feed] @ ''</'' @ tag @ ''>''"

definition format_file_operations :: "string list \<Rightarrow> string list \<Rightarrow> string" where
  "format_file_operations read_files modified_files =
     (let sections = (if read_files \<noteq> [] then [file_section ''read-files'' read_files] else [])
                   @ (if modified_files \<noteq> [] then [file_section ''modified-files'' modified_files] else [])
      in if sections = [] then [] else [line_feed, line_feed] @ join_with [line_feed, line_feed] sections)"

section \<open>Removing stale lists\<close>

text \<open>\<open>str::find\<close> of a text.\<close>

fun find_str :: "string \<Rightarrow> string \<Rightarrow> nat option" where
  "find_str p [] = (if p = [] then Some 0 else None)"
| "find_str p (c # s) = (if starts_with (c # s) p then Some 0 else map_option Suc (find_str p s))"

definition open_tag :: "string \<Rightarrow> string" where
  "open_tag tag = ''<'' @ tag @ ''>''"

definition close_tag :: "string \<Rightarrow> string" where
  "close_tag tag = ''</'' @ tag @ ''>''"

definition next_tag :: "string \<Rightarrow> (nat \<times> string) option" where
  "next_tag rest =
     (case find_str (open_tag ''read-files'') rest of
        None \<Rightarrow> (case find_str (open_tag ''modified-files'') rest of
                   None \<Rightarrow> None | Some q \<Rightarrow> Some (q, ''modified-files''))
      | Some p \<Rightarrow> (case find_str (open_tag ''modified-files'') rest of
                   None \<Rightarrow> Some (p, ''read-files'')
                 | Some q \<Rightarrow> if p \<le> q then Some (p, ''read-files'') else Some (q, ''modified-files'')))"

definition trim_end_newlines :: "string \<Rightarrow> string" where
  "trim_end_newlines s = rev (dropWhile (\<lambda>c. c = line_feed) (rev s))"

lemma find_str_bound: "find_str p s = Some i \<Longrightarrow> i + length p \<le> length s"
proof (induction s arbitrary: i)
  case (Cons c s)
  show ?case
  proof (cases "starts_with (c # s) p")
    case True
    with Cons.prems show ?thesis by (auto simp: starts_with_iff dest: arg_cong[of _ _ length])
  next
    case False
    with Cons show ?thesis by (cases "find_str p s") auto
  qed
qed (simp split: if_splits)

lemma next_tag_bound: "next_tag rest = Some (pos, tag) \<Longrightarrow> pos + length tag + 2 \<le> length rest"
  by (auto simp: next_tag_def open_tag_def dest!: find_str_bound split: option.splits if_splits)

function strip_loop :: "string \<Rightarrow> string \<Rightarrow> string" where
  "strip_loop rest result =
     (case next_tag rest of
        None \<Rightarrow> result @ rest
      | Some (pos, tag) \<Rightarrow>
          let after_open = pos + length tag + 2 in
          case find_str (close_tag tag) (drop after_open rest) of
            None \<Rightarrow> strip_loop (drop after_open rest) (result @ take after_open rest)
          | Some close_offset \<Rightarrow>
              strip_loop (drop (after_open + close_offset + length (close_tag tag)) rest)
                (result @ trim_end_newlines (take pos rest)))"
  by pat_completeness auto
termination
  by (relation "measure (length \<circ> fst)") (auto dest!: next_tag_bound)

declare strip_loop.simps [simp del]

definition strip_file_list_blocks :: "string \<Rightarrow> string" where
  "strip_file_list_blocks summary = trim_end (strip_loop summary [])"

section \<open>Truncated tool results\<close>

definition tool_result_max_chars :: nat where
  "tool_result_max_chars = 2000"

definition tool_result_tail_chars :: nat where
  "tool_result_tail_chars = 500"

definition elision_marker :: "nat \<Rightarrow> nat \<Rightarrow> string" where
  "elision_marker elided first =
     ''[... '' @ show_nat elided @ '' characters truncated; first '' @ show_nat first @ '' and last ''
     @ show_nat tool_result_tail_chars @ '' kept ...]''"

definition truncate_for_summary :: "string \<Rightarrow> nat \<Rightarrow> string" where
  "truncate_for_summary t max_chars =
     (let chars = split_chars t;
          char_count = length chars
      in if char_count \<le> max_chars then t
         else
           let marker_max = chars_count (elision_marker char_count max_chars);
               head_chars = saturating_sub max_chars (tool_result_tail_chars + marker_max + 4);
               elided = char_count - head_chars - tool_result_tail_chars;
               front = concat (take head_chars chars);
               back = concat (drop (char_count - tool_result_tail_chars) chars)
           in front @ [line_feed, line_feed] @ elision_marker elided head_chars @ [line_feed, line_feed] @ back)"

section \<open>The serialized conversation\<close>

definition user_text :: "ai_user_content \<Rightarrow> string" where
  "user_text content =
     (case content of UcText t \<Rightarrow> t | UcBlocks bs \<Rightarrow> concat (List.map_filter block_text bs))"

record serializer =
  sz_parts :: "string list"
  sz_indices :: "string \<rightharpoonup> nat"
  sz_index :: nat
  sz_texts :: "string list"
  sz_thinkings :: "string list"
  sz_calls :: "string list"

definition serialize_block :: "(json \<Rightarrow> string) \<Rightarrow> serializer \<Rightarrow> assistant_content_block \<Rightarrow> serializer" where
  "serialize_block show_json z b =
     (case b of
        AbText t \<Rightarrow> z\<lparr>sz_texts := sz_texts z @ [ait_text t]\<rparr>
      | AbThinking t \<Rightarrow> z\<lparr>sz_thinkings := sz_thinkings z @ [aith_thinking t]\<rparr>
      | AbToolCall c \<Rightarrow>
          let args = join_with '', '' (map (\<lambda>(k, v). k @ ''='' @ show_json v) (aitc_arguments c));
              i = sz_index z + 1
          in z\<lparr>sz_index := i, sz_indices := (sz_indices z)(aitc_id c \<mapsto> i),
               sz_calls := sz_calls z @ [''#'' @ show_nat i @ '' '' @ aitc_name c @ ''('' @ args @ '')'']\<rparr>)"

definition part_if :: "bool \<Rightarrow> string \<Rightarrow> string list" where
  "part_if c p = (if c then [p] else [])"

definition serialize_message :: "(json \<Rightarrow> string) \<Rightarrow> serializer \<Rightarrow> session_message \<Rightarrow> serializer" where
  "serialize_message show_json z m =
     (case m of
        SmUser u \<Rightarrow>
          let content = user_text (aiu_content u)
          in z\<lparr>sz_parts := sz_parts z @ part_if (content \<noteq> []) (''[User]: '' @ content)\<rparr>
      | SmAssistant a \<Rightarrow>
          let z1 = foldl (serialize_block show_json) (z\<lparr>sz_texts := [], sz_thinkings := [], sz_calls := []\<rparr>) (aia_content a)
          in z1\<lparr>sz_parts := sz_parts z1
               @ part_if (sz_thinkings z1 \<noteq> []) (''[Assistant thinking]: '' @ join_with [line_feed] (sz_thinkings z1))
               @ part_if (sz_texts z1 \<noteq> []) (''[Assistant]: '' @ join_with [line_feed] (sz_texts z1))
               @ part_if (sz_calls z1 \<noteq> []) (''[Assistant tool calls]: '' @ join_with ''; '' (sz_calls z1))\<rparr>
      | SmToolResult r \<Rightarrow>
          let content = concat (List.map_filter block_text (air_content r));
              suffix = (case sz_indices z (air_tool_call_id r) of None \<Rightarrow> [] | Some i \<Rightarrow> '' #'' @ show_nat i);
              label = (if air_is_error r then ''[Tool result ('' @ air_tool_name r @ '', error)'' @ suffix @ '']''
                       else ''[Tool result ('' @ air_tool_name r @ '')'' @ suffix @ '']'')
          in z\<lparr>sz_parts := sz_parts z
               @ part_if (content \<noteq> []) (label @ '': '' @ truncate_for_summary content tool_result_max_chars)\<rparr>
      | SmCustom c \<Rightarrow>
          let content = user_text (cu_content c)
          in z\<lparr>sz_parts := sz_parts z @ part_if (content \<noteq> []) (''[Custom]: '' @ content)\<rparr>
      | SmBashExecution b \<Rightarrow> z\<lparr>sz_parts := sz_parts z @ [''[Bash execution]: '' @ be_command b]\<rparr>
      | SmBranchSummary s \<Rightarrow> z\<lparr>sz_parts := sz_parts z @ [''[Branch summary]: '' @ bs_summary s]\<rparr>
      | SmCompactionSummary s \<Rightarrow> z\<lparr>sz_parts := sz_parts z @ [''[Compaction summary]: '' @ cs_summary s]\<rparr>)"

definition empty_serializer :: serializer where
  "empty_serializer = \<lparr>sz_parts = [], sz_indices = Map.empty, sz_index = 0, sz_texts = [], sz_thinkings = [], sz_calls = []\<rparr>"

definition serialize_conversation :: "(json \<Rightarrow> string) \<Rightarrow> session_message list \<Rightarrow> string" where
  "serialize_conversation show_json ms =
     join_with [line_feed, line_feed] (sz_parts (foldl (serialize_message show_json) empty_serializer ms))"

section \<open>The lists fit\<close>

lemma pop_while_prefix:
  "\<exists>k. pop_while over xs = take k xs \<and> (pop_while over xs = [] \<or> \<not> over (pop_while over xs))
     \<and> (\<forall>j. k < j \<longrightarrow> j \<le> length xs \<longrightarrow> over (take j xs)) \<and> k \<le> length xs"
proof (induction xs rule: length_induct)
  case (1 xs)
  show ?case
  proof (cases "xs \<noteq> [] \<and> over xs")
    case True
    then have "length (butlast xs) < length xs" by simp
    with 1 obtain k where k: "pop_while over (butlast xs) = take k (butlast xs)" "k \<le> length (butlast xs)"
        "pop_while over (butlast xs) = [] \<or> \<not> over (pop_while over (butlast xs))"
        "\<forall>j. k < j \<longrightarrow> j \<le> length (butlast xs) \<longrightarrow> over (take j (butlast xs))" by blast
    have step: "pop_while over xs = pop_while over (butlast xs)" using True by (simp add: pop_while.simps[of _ xs])
    have "take k (butlast xs) = take k xs" using k(2) True by (simp add: butlast_conv_take)
    moreover have "over (take j xs)" if "k < j" "j \<le> length xs" for j
    proof (cases "j = length xs")
      case False
      with that have "j \<le> length (butlast xs)" by simp
      with k(4) that(1) have "over (take j (butlast xs))" by blast
      moreover have "take j (butlast xs) = take j xs" using \<open>j \<le> length (butlast xs)\<close> by (simp add: butlast_conv_take)
      ultimately show ?thesis by simp
    qed (use True in simp)
    ultimately show ?thesis using step k by (intro exI[of _ k]) auto
  next
    case False
    then have "pop_while over xs = xs" by (subst pop_while.simps) auto
    with False show ?thesis by (intro exI[of _ "length xs"]) auto
  qed
qed

lemma file_list_chars_Nil [simp]: "file_list_chars [] [] = 0"
  by (simp add: file_list_chars_def)

text \<open>The files modified: the edited ones and the written ones.\<close>

definition all_modified :: "file_operations \<Rightarrow> string list" where
  "all_modified ops = foldl (\<lambda>m f. insort_insert f m) (fo_edited ops) (fo_written ops)"

text \<open>
  The file lists of a summary are bounded, whatever the session has touched: each holds at most
  200 files and both together at most 6000 characters. They are cut at the end only, a file is never
  in both lists, modified files are given up only when no read file is left, and no list is cut more
  than the bound asks for.
\<close>

lemma file_lists_bounded:
  assumes "compute_file_lists ops = (r, m)"
  shows "length r \<le> 200 \<and> length m \<le> 200 \<and> file_list_chars r m \<le> 6000
     \<and> (\<exists>i j. r = take i (filter (\<lambda>f. f \<notin> set (all_modified ops)) (fo_read ops)) \<and> m = take j (all_modified ops)
          \<and> (m \<noteq> take 200 (all_modified ops) \<longrightarrow> r = [])
          \<and> (\<forall>k. i < k \<longrightarrow> k \<le> length (take 200 (filter (\<lambda>f. f \<notin> set (all_modified ops)) (fo_read ops))) \<longrightarrow>
               6000 < file_list_chars (take k (filter (\<lambda>f. f \<notin> set (all_modified ops)) (fo_read ops)))
                        (take 200 (all_modified ops)))
          \<and> (\<forall>k. j < k \<longrightarrow> k \<le> length (take 200 (all_modified ops)) \<longrightarrow> 6000 < file_list_chars [] (take k (all_modified ops))))
     \<and> set r \<inter> set m = {}"
proof -
  define ro where "ro = take 200 (filter (\<lambda>f. f \<notin> set (all_modified ops)) (fo_read ops))"
  define mo where "mo = take 200 (all_modified ops)"
  have r: "r = pop_while (\<lambda>r. 6000 < file_list_chars r mo) ro"
    and m: "m = pop_while (\<lambda>m. r = [] \<and> 6000 < file_list_chars r m) mo"
    using assms by (auto simp: compute_file_lists_def Let_def file_list_max_entries_def
        file_list_max_combined_chars_def ro_def mo_def all_modified_def)
  obtain i where i: "r = take i ro" "r = [] \<or> \<not> 6000 < file_list_chars r mo" "i \<le> length ro"
      "\<forall>j. i < j \<longrightarrow> j \<le> length ro \<longrightarrow> 6000 < file_list_chars (take j ro) mo"
    using pop_while_prefix[of "\<lambda>r. 6000 < file_list_chars r mo" ro] unfolding r[symmetric] by blast
  obtain j where j: "m = take j mo" "m = [] \<or> \<not> (r = [] \<and> 6000 < file_list_chars r m)" "j \<le> length mo"
      "\<forall>k. j < k \<longrightarrow> k \<le> length mo \<longrightarrow> r = [] \<and> 6000 < file_list_chars r (take k mo)"
    using pop_while_prefix[of "\<lambda>m. r = [] \<and> 6000 < file_list_chars r m" mo] unfolding m[symmetric] by blast
  have keep: "m = mo" if "r \<noteq> []"
    using that by (simp add: m pop_while.simps[of _ mo])
  have "file_list_chars r m \<le> 6000"
    using i(2) j(2) keep by (cases "r = []"; cases "m = []") auto
  moreover have lens: "i \<le> 200" "j \<le> 200" using i(3) j(3) by (auto simp: ro_def mo_def)
  moreover have "set r \<inter> set m = {}"
    using i(1) j(1) by (auto simp: ro_def mo_def dest!: in_set_takeD)
  moreover have "r = take i (filter (\<lambda>f. f \<notin> set (all_modified ops)) (fo_read ops))" "m = take j (all_modified ops)"
    using i(1) j(1) lens by (simp_all add: ro_def mo_def min_def)
  moreover have "\<forall>k. i < k \<longrightarrow> k \<le> length ro \<longrightarrow>
      6000 < file_list_chars (take k (filter (\<lambda>f. f \<notin> set (all_modified ops)) (fo_read ops))) mo"
    using i(4) by (auto simp: ro_def min_def)
  moreover have "\<forall>k. j < k \<longrightarrow> k \<le> length mo \<longrightarrow> 6000 < file_list_chars [] (take k (all_modified ops))"
    using j(4) by (auto simp: mo_def min_def)
  moreover have "m \<noteq> mo \<longrightarrow> r = []" using keep by blast
  ultimately show ?thesis
    unfolding ro_def[symmetric] mo_def[symmetric] by (intro conjI exI[of _ i] exI[of _ j]) simp_all
qed

section \<open>A truncated result fits\<close>

lemma chars_count_append [simp]: "chars_count (a @ b) = chars_count a + chars_count b"
  by (simp add: chars_count_def)

lemma chars_count_show_nat: "chars_count (show_nat n) = length (show_nat n)"
proof -
  have "\<forall>c \<in> set (show_nat n). \<not> is_continuation c"
    using show_nat_digits by (fastforce simp: is_ascii_digit_def is_continuation_def)
  then show ?thesis by (simp add: chars_count_def)
qed

lemma show_nat_length_mono: "m \<le> n \<Longrightarrow> length (show_nat m) \<le> length (show_nat n)"
proof (induction n arbitrary: m rule: less_induct)
  case (less n)
  show ?case
  proof (cases "n < 10")
    case True
    with less.prems show ?thesis by (simp add: show_nat.simps[of m] show_nat.simps[of n])
  next
    case False
    show ?thesis
    proof (cases "m < 10")
      case True
      then have "length (show_nat m) = 1" by (simp add: show_nat.simps[of m])
      then show ?thesis by (metis Suc_leI length_greater_0_conv One_nat_def show_nat_nonempty)
    next
      case m: False
      have "m div 10 \<le> n div 10" "n div 10 < n" using less.prems False by (auto intro: div_le_mono)
      with less.IH show ?thesis using m False by (simp add: show_nat.simps[of m] show_nat.simps[of n])
    qed
  qed
qed

lemma chars_count_piece: "c \<in> set (split_chars s) \<Longrightarrow> chars_count c \<le> 1"
proof (induction s rule: split_chars.induct)
  case (2 c s)
  have "chars_count (c # takeWhile is_continuation s) \<le> 1"
  proof -
    have "filter (\<lambda>c. \<not> is_continuation c) (takeWhile is_continuation s) = []"
      by (auto simp: filter_empty_conv dest: set_takeWhileD)
    then show ?thesis by (simp add: chars_count_def)
  qed
  with 2 show ?case by auto
qed simp

lemma chars_count_pieces: "\<forall>c \<in> set cs. chars_count c \<le> 1 \<Longrightarrow> chars_count (concat cs) \<le> length cs"
  by (induction cs) (auto simp: chars_count_def)

lemma chars_count_split: "chars_count s \<le> length (split_chars s)"
  using chars_count_pieces[of "split_chars s"] chars_count_piece by (simp add: concat_split_chars)

lemma show_nat_u64: "n \<le> u64_max \<Longrightarrow> length (show_nat n) \<le> 20"
proof -
  assume "n \<le> u64_max"
  from show_nat_length_mono[OF this] show ?thesis
    by (simp add: u64_max_def show_nat.simps)
qed

lemma chars_count_marker:
  "chars_count (elision_marker e f) = 57 + length (show_nat e) + length (show_nat f)"
proof -
  have "chars_count ''[... '' = 5" "chars_count '' characters truncated; first '' = 29"
    "chars_count '' and last '' = 10" "chars_count '' kept ...]'' = 10"
    "length (show_nat tool_result_tail_chars) = 3"
    by code_simp+
  then show ?thesis unfolding elision_marker_def chars_count_append chars_count_show_nat by simp
qed

text \<open>
  A truncated tool result fits its budget. Whatever the text of a tool result, what the serialized
  conversation shows of it has at most 2000 characters, the marker included; a text that fits is
  left alone, and one that does not keeps its front and its last 500 characters.
\<close>

lemma truncated_result_fits:
  assumes "length (split_chars t) \<le> u64_max"
  shows "chars_count (truncate_for_summary t tool_result_max_chars) \<le> 2000
     \<and> (if length (split_chars t) \<le> 2000 then truncate_for_summary t tool_result_max_chars = t
        else \<exists>front mid. truncate_for_summary t tool_result_max_chars
               = concat (take front (split_chars t)) @ mid @ concat (drop (length (split_chars t) - 500) (split_chars t)))"
proof (cases "length (split_chars t) \<le> 2000")
  case True
  then show ?thesis
    using chars_count_split[of t] by (simp add: truncate_for_summary_def tool_result_max_chars_def Let_def)
next
  case False
  define cs where "cs = split_chars t"
  define n where "n = length cs"
  define mm where "mm = chars_count (elision_marker n 2000)"
  define front where "front = 2000 - (500 + mm + 4)"
  define el where "el = n - front - 500"
  have eq: "truncate_for_summary t tool_result_max_chars =
      concat (take front cs) @ ([line_feed, line_feed] @ elision_marker el front @ [line_feed, line_feed])
        @ concat (drop (n - 500) cs)"
    using False
    by (simp add: truncate_for_summary_def tool_result_max_chars_def tool_result_tail_chars_def Let_def
        cs_def n_def mm_def front_def el_def saturating_sub_def)
  have "length (show_nat n) \<le> 20" using assms show_nat_u64 by (simp add: n_def cs_def)
  moreover have "length (show_nat 2000) = 4" by (simp add: show_nat.simps)
  ultimately have mm: "mm \<le> 81" "mm = 61 + length (show_nat n)"
    unfolding mm_def chars_count_marker by simp_all
  have "chars_count (elision_marker el front) \<le> mm"
  proof -
    have "el \<le> n" "front \<le> 2000" by (simp_all add: el_def front_def)
    then show ?thesis
      using show_nat_length_mono[of el n] show_nat_length_mono[of front 2000]
      unfolding mm_def chars_count_marker by simp
  qed
  moreover have "chars_count (concat (take front cs)) \<le> front"
    using chars_count_pieces[of "take front cs"] chars_count_piece[of _ t]
    by (fastforce simp: cs_def dest: in_set_takeD)
  moreover have "chars_count (concat (drop (n - 500) cs)) \<le> 500"
    using chars_count_pieces[of "drop (n - 500) cs"] chars_count_piece[of _ t]
    by (fastforce simp: cs_def n_def dest: in_set_dropD)
  moreover have "chars_count [line_feed, line_feed] = 2" by code_simp
  ultimately have "chars_count (truncate_for_summary t tool_result_max_chars) \<le> 2000"
    using mm(1) unfolding eq chars_count_append by (simp add: front_def)
  with False eq show ?thesis by (auto simp: cs_def n_def)
qed

section \<open>Stale lists are removed\<close>

lemma starts_with_cut:
  "starts_with (u @ x # t) p \<Longrightarrow> x \<notin> set p \<Longrightarrow> starts_with u p"
  by (auto simp: starts_with_iff append_eq_append_conv2 Cons_eq_append_conv)

lemma find_str_sep:
  "find_str p s = None \<Longrightarrow> x \<notin> set p \<Longrightarrow> p \<noteq> [] \<Longrightarrow>
   find_str p (s @ x # t) = map_option (\<lambda>k. k + Suc (length s)) (find_str p t)"
proof (induction s)
  case Nil
  then have "\<not> starts_with (x # t) p" by (cases p) auto
  then show ?case by (cases "find_str p t") simp_all
next
  case (Cons c s)
  then have "\<not> starts_with (c # s) p" "find_str p s = None" by (auto split: if_splits)
  moreover from this(1) have "\<not> starts_with ((c # s) @ x # t) p" using starts_with_cut Cons.prems(2) by blast
  ultimately show ?case using Cons by (cases "find_str p t") simp_all
qed

lemma find_str_sep_front:
  "x \<notin> set p \<Longrightarrow> p \<noteq> [] \<Longrightarrow> find_str p (x # t) = map_option Suc (find_str p t)"
  using find_str_sep[of p "[]" x t] by (simp add: option.map_comp comp_def)

lemma find_str_front: "p \<noteq> [] \<Longrightarrow> find_str p (p @ s) = Some 0"
  by (cases p) (auto simp: starts_with_iff)

definition list_tag :: "string \<Rightarrow> bool" where
  "list_tag tag \<longleftrightarrow> tag = ''read-files'' \<or> tag = ''modified-files''"

definition untagged :: "string \<Rightarrow> bool" where
  "untagged s \<longleftrightarrow> (\<forall>tag. list_tag tag \<longrightarrow> find_str (open_tag tag) s = None)"

lemma tag_chars: "list_tag tag \<Longrightarrow> line_feed \<notin> set (open_tag tag) \<and> line_feed \<notin> set (close_tag tag)
    \<and> open_tag tag \<noteq> [] \<and> close_tag tag \<noteq> []"
  by (auto simp: list_tag_def open_tag_def close_tag_def)

lemma next_tag_block:
  assumes "list_tag tag" and "untagged before"
  shows "next_tag (before @ line_feed # line_feed # open_tag tag @ rest) = Some (length before + 2, tag)"
proof -
  have at: "find_str (open_tag t) (before @ line_feed # line_feed # open_tag tag @ rest) =
      map_option (\<lambda>k. k + (length before + 2)) (find_str (open_tag t) (open_tag tag @ rest))"
    if "list_tag t" for t
  proof -
    have t: "line_feed \<notin> set (open_tag t)" "open_tag t \<noteq> []" using tag_chars[OF that] by simp_all
    have "find_str (open_tag t) (before @ line_feed # (line_feed # open_tag tag @ rest)) =
        map_option (\<lambda>k. k + Suc (length before)) (find_str (open_tag t) (line_feed # open_tag tag @ rest))"
      by (rule find_str_sep) (use t assms(2) that in \<open>simp_all add: untagged_def\<close>)
    moreover have "find_str (open_tag t) (line_feed # open_tag tag @ rest) =
        map_option Suc (find_str (open_tag t) (open_tag tag @ rest))"
      by (rule find_str_sep_front[OF t])
    ultimately show ?thesis by (cases "find_str (open_tag t) (open_tag tag @ rest)") simp_all
  qed
  have own: "find_str (open_tag tag) (open_tag tag @ rest) = Some 0"
    using tag_chars[OF assms(1)] by (intro find_str_front) simp
  have other: "find_str (open_tag t) (open_tag tag @ rest) \<noteq> Some 0" if "list_tag t" "t \<noteq> tag" for t
    using that assms(1) by (auto simp: list_tag_def open_tag_def split: if_splits)
  have tags: "list_tag ''read-files''" "list_tag ''modified-files''" by (simp_all add: list_tag_def)
  show ?thesis
  proof (cases "tag = ''read-files''")
    case True
    then show ?thesis
      using at[OF tags(1)] at[OF tags(2)] own
      by (cases "find_str (open_tag ''modified-files'') (open_tag tag @ rest)") (simp_all add: next_tag_def)
  next
    case False
    with assms(1) have t: "tag = ''modified-files''" by (simp add: list_tag_def)
    show ?thesis
      using at[OF tags(1)] at[OF tags(2)] own other[OF tags(1)] t
      by (cases "find_str (open_tag ''read-files'') (open_tag tag @ rest)") (auto simp: next_tag_def)
  qed
qed

lemma strip_block:
  assumes "list_tag tag" and "untagged before" and "find_str (close_tag tag) body = None"
  shows "strip_loop (before @ line_feed # line_feed # open_tag tag @ line_feed # body @ line_feed # close_tag tag @ rest) result
     = strip_loop rest (result @ trim_end_newlines (before @ [line_feed, line_feed]))"
proof -
  define doc where "doc = before @ line_feed # line_feed # open_tag tag @ (line_feed # body @ line_feed # close_tag tag @ rest)"
  have nxt: "next_tag doc = Some (length before + 2, tag)" unfolding doc_def by (rule next_tag_block[OF assms(1,2)])
  have len: "length (open_tag tag) = length tag + 2" by (simp add: open_tag_def)
  have after: "drop (length before + 2 + length tag + 2) doc = line_feed # body @ line_feed # close_tag tag @ rest"
  proof -
    have "doc = (before @ line_feed # line_feed # open_tag tag) @ line_feed # body @ line_feed # close_tag tag @ rest"
      by (simp add: doc_def)
    moreover have "length (before @ line_feed # line_feed # open_tag tag) = length before + 2 + length tag + 2"
      using len by simp
    ultimately show ?thesis by (metis append_eq_conv_conj)
  qed
  have t: "line_feed \<notin> set (close_tag tag)" "close_tag tag \<noteq> []" using tag_chars[OF assms(1)] by simp_all
  have "find_str (close_tag tag) (body @ line_feed # close_tag tag @ rest) = Some (Suc (length body))"
    using find_str_sep[OF assms(3) t, of "close_tag tag @ rest"] find_str_front[OF t(2)] by simp
  moreover have "find_str (close_tag tag) (line_feed # body @ line_feed # close_tag tag @ rest) =
      map_option Suc (find_str (close_tag tag) (body @ line_feed # close_tag tag @ rest))"
    by (rule find_str_sep_front[OF t])
  ultimately have close: "find_str (close_tag tag) (line_feed # body @ line_feed # close_tag tag @ rest) = Some (Suc (Suc (length body)))"
    by simp
  have "drop (length before + 2 + length tag + 2 + Suc (Suc (length body)) + length (close_tag tag)) doc
      = drop (Suc (Suc (length body)) + length (close_tag tag)) (drop (length before + 2 + length tag + 2) doc)"
    by (simp add: ac_simps)
  also have "\<dots> = rest" unfolding after by simp
  finally have tail: "drop (length before + 2 + length tag + 2 + Suc (Suc (length body)) + length (close_tag tag)) doc = rest" .
  have "take (length before + 2) doc = before @ [line_feed, line_feed]" by (simp add: doc_def)
  then show ?thesis
    unfolding doc_def[symmetric]
    by (subst strip_loop.simps) (simp only: nxt option.case prod.case Let_def after close tail)
qed

lemma trim_end_newline: "trim_end (s @ [line_feed]) = trim_end s"
proof -
  have "is_ascii_space line_feed" by code_simp
  then show ?thesis by (simp add: trim_end_def trim_by.simps[of _ "line_feed # _"])
qed

lemma trim_end_newlines_trim: "trim_end (trim_end_newlines s) = trim_end s"
proof (induction s rule: rev_induct)
  case (snoc c s)
  then show ?case by (cases "c = line_feed") (simp_all add: trim_end_newlines_def trim_end_newline)
qed (simp add: trim_end_newlines_def)

lemma find_str_join:
  assumes "\<forall>f \<in> set fs. find_str p f = None" and "line_feed \<notin> set p" and "p \<noteq> []"
  shows "find_str p (join_with [line_feed] fs) = None"
  using assms
proof (induction fs rule: induct_list012)
  case (3 f g fs)
  then show ?case using find_str_sep[of p f line_feed "join_with [line_feed] (g # fs)"] by simp
qed simp_all

text \<open>
  What a compaction appends to its summary, the next one takes off again: stripping the file
  blocks from a summary with its lists appended gives the summary without its trailing white space,
  so the lists do not compound, however often a session is compacted.
\<close>

lemma appended_lists_are_stripped:
  assumes "untagged summary"
    and "\<forall>f \<in> set r. find_str (close_tag ''read-files'') f = None"
    and "\<forall>f \<in> set m. find_str (close_tag ''modified-files'') f = None"
  shows "strip_file_list_blocks (summary @ format_file_operations r m) = trim_end summary"
proof -
  have tags: "list_tag ''read-files''" "list_tag ''modified-files''" by (simp_all add: list_tag_def)
  have bodies: "find_str (close_tag ''read-files'') (join_with [line_feed] r) = None"
    "find_str (close_tag ''modified-files'') (join_with [line_feed] m) = None"
    using find_str_join assms(2,3) tag_chars tags by blast+
  have empty: "untagged []" using tag_chars by (auto simp: untagged_def)
  have none: "next_tag [] = None" "next_tag summary = None"
    using assms(1) empty tags by (simp_all add: next_tag_def untagged_def)
  have fin: "strip_loop [] res = res" for res using none(1) by (subst strip_loop.simps) simp
  have sect: "file_section tag fs = open_tag tag @ line_feed # join_with [line_feed] fs @ line_feed # close_tag tag" for tag fs
    by (simp add: file_section_def open_tag_def close_tag_def)
  have mid: "trim_end_newlines [line_feed, line_feed] = []" by (simp add: trim_end_newlines_def)
  have last: "trim_end (trim_end_newlines (summary @ [line_feed, line_feed])) = trim_end summary"
    using trim_end_newline[of "summary @ [line_feed]"] trim_end_newline[of summary]
    by (simp add: trim_end_newlines_trim)
  note read = strip_block[OF tags(1) assms(1) bodies(1)]
  note modified = strip_block[OF tags(2) _ bodies(2), of _ "[]", simplified]
  show ?thesis
  proof (cases "r = []")
    case True
    show ?thesis
    proof (cases "m = []")
      case True
      with \<open>r = []\<close> none(2) show ?thesis
        by (simp add: strip_file_list_blocks_def format_file_operations_def strip_loop.simps[of summary])
    next
      case False
      with True modified[OF assms(1), of "[]"] last fin show ?thesis
        by (simp add: strip_file_list_blocks_def format_file_operations_def sect)
    qed
  next
    case False
    show ?thesis
    proof (cases "m = []")
      case True
      with False read[of "[]" "[]"] last fin show ?thesis
        by (simp add: strip_file_list_blocks_def format_file_operations_def sect)
    next
      case m: False
      define rest where "rest = line_feed # line_feed # open_tag ''modified-files'' @ line_feed
          # join_with [line_feed] m @ line_feed # close_tag ''modified-files''"
      have "strip_loop rest res = res" for res
        using modified[OF empty, of res] fin mid by (simp add: rest_def)
      with False m read[of rest "[]"] last show ?thesis
        by (simp add: strip_file_list_blocks_def format_file_operations_def sect rest_def)
    qed
  qed
qed

end
