(* ===== verification/CompactionPrepare.thy ===== *)
theory CompactionPrepare
  imports Compaction CompactionText SessionFork
begin

text \<open>
  Preparing and committing a compaction: \<open>compact_session/prepare.rs\<close>,
  \<open>compact_session/recent_state_anchor.rs\<close>, the token budgets of \<open>compact_session/summarization.rs\<close>,
  \<open>message_from_entry\<close> and the cut of \<open>execute_compaction\<close> (\<open>compact_session.rs\<close>), and the record and
  its details (\<open>compaction_exec.rs\<close>). The model calls in between are not modelled: the summary is an
  argument of the record. \<open>None\<close> is the panic of a slice out of range.
\<close>

section \<open>Messages for the summarizer\<close>

definition message_from_entry :: "file_entry \<Rightarrow> session_message option" where
  "message_from_entry e =
     (case e of
        FeMessage m _ \<Rightarrow> if is_tool_result m then None else Some m
      | FeCustomMessage p _ \<Rightarrow>
          if cme_custom_type p = ''harness_digest'' then None
          else Some (SmCustom \<lparr>cu_custom_type = cme_custom_type p, cu_content = cme_content p,
                               cu_display = cme_display p, cu_details = cme_details p,
                               cu_timestamp = timestamp_to_millis (entry_timestamp e), cu_rest = []\<rparr>)
      | FeBranchSummary p _ \<Rightarrow>
          Some (SmBranchSummary \<lparr>bs_summary = bse_summary p, bs_from_id = bse_from_id p,
                                 bs_timestamp = timestamp_to_millis (entry_timestamp e)\<rparr>)
      | _ \<Rightarrow> None)"

definition recent_state_anchor_max_chars :: nat where
  "recent_state_anchor_max_chars = 2000"

fun assistant_block_text :: "assistant_content_block \<Rightarrow> string option" where
  "assistant_block_text (AbText t) = Some (ait_text t)"
| "assistant_block_text _ = None"

definition anchor_text :: "file_entry \<Rightarrow> string option" where
  "anchor_text e =
     (case message_from_entry e of
        Some (SmAssistant a) \<Rightarrow>
          let t = trim (join_with [line_feed] (List.map_filter assistant_block_text (aia_content a)));
              chars = split_chars t
          in if t = [] then None
             else Some (if recent_state_anchor_max_chars < length chars
                        then concat (drop (length chars - recent_state_anchor_max_chars) chars) else t)
      | _ \<Rightarrow> None)"

definition entry_slice :: "'a list \<Rightarrow> nat \<Rightarrow> nat \<Rightarrow> 'a list option" where
  "entry_slice xs a b = (if a \<le> b \<and> b \<le> length xs then Some (take (b - a) (drop a xs)) else None)"

definition extract_recent_state_anchor :: "file_entry list \<Rightarrow> nat \<Rightarrow> nat \<Rightarrow> string option option" where
  "extract_recent_state_anchor es kept_start kept_end = map_option (newest anchor_text) (entry_slice es kept_start kept_end)"

section \<open>Preparation\<close>

datatype compact_skip = AlreadyCompacted | TooShort

fun user_message_of_skip :: "compact_skip \<Rightarrow> string" where
  "user_message_of_skip AlreadyCompacted = ''Already compacted''"
| "user_message_of_skip TooShort =
     ''Session is too short to compact '' @ [CHR 0xE2, CHR 0x80, CHR 0x94] @ '' try again once it grows''"

fun request_reason :: "compact_skip \<Rightarrow> string" where
  "request_reason AlreadyCompacted = ''already compacted''"
| "request_reason TooShort = ''session is too short to compact''"

record compaction_preparation =
  prep_cut :: cut_point_result
  prep_boundary_start :: nat
  prep_previous_summary :: "string option"
  prep_recent_state_anchor :: "string option"

definition position :: "('a \<Rightarrow> bool) \<Rightarrow> 'a list \<Rightarrow> nat option" where
  "position P xs = find (\<lambda>i. P (xs ! i)) [0..<length xs]"

definition first_candidate :: "file_entry list \<Rightarrow> nat" where
  "first_candidate es = (case es of [] \<Rightarrow> 0 | e # _ \<Rightarrow> if is_header e then 1 else 0)"

text \<open>Where the prior compaction left off, and its summary.\<close>

definition compaction_anchor :: "file_entry list \<Rightarrow> nat \<times> string option" where
  "compaction_anchor es =
     (case rposition is_compaction es of
        None \<Rightarrow> (first_candidate es, None)
      | Some i \<Rightarrow>
          (case es ! i of
             FeCompaction p _ \<Rightarrow>
               let stripped = strip_file_list_blocks (co_summary p)
               in (case position (\<lambda>e. entry_id e = Some (co_first_kept_entry_id p)) es of
                     None \<Rightarrow> i + 1 | Some j \<Rightarrow> j,
                   if stripped \<noteq> [] then Some stripped else None)
           | _ \<Rightarrow> (first_candidate es, None)))"

definition history_end :: "cut_point_result \<Rightarrow> nat" where
  "history_end chosen =
     (if cp_is_split_turn chosen
      then (case cp_turn_start_index chosen of None \<Rightarrow> cp_first_kept_entry_index chosen | Some t \<Rightarrow> t)
      else cp_first_kept_entry_index chosen)"

definition prepare_compaction ::
    "(json_map \<Rightarrow> string) \<Rightarrow> file_entry list \<Rightarrow> nat \<Rightarrow> (compact_skip + compaction_preparation) option" where
  "prepare_compaction args_json es keep_recent_tokens =
     (if es \<noteq> [] \<and> is_compaction (last es) then Some (Inl AlreadyCompacted)
      else
        let (boundary_start, previous_summary) = compaction_anchor es;
            chosen = find_cut_point args_json es boundary_start (length es) keep_recent_tokens
        in case entry_slice es boundary_start (history_end chosen) of
             None \<Rightarrow> None
           | Some history \<Rightarrow>
          (case entry_slice es (history_end chosen) (cp_first_kept_entry_index chosen) of
             None \<Rightarrow> None
           | Some turn_prefix \<Rightarrow>
          (case extract_recent_state_anchor es (cp_first_kept_entry_index chosen) (length es) of
             None \<Rightarrow> None
           | Some anchor \<Rightarrow>
               if List.map_filter message_from_entry history = []
                  \<and> List.map_filter message_from_entry turn_prefix = [] \<and> previous_summary = None
               then Some (Inl TooShort)
               else Some (Inr \<lparr>prep_cut = chosen, prep_boundary_start = boundary_start,
                               prep_previous_summary = previous_summary, prep_recent_state_anchor = anchor\<rparr>))))"

definition compute_cut :: "(json_map \<Rightarrow> string) \<Rightarrow> file_entry list \<Rightarrow> string option \<Rightarrow> nat \<Rightarrow> cut_point_result \<times> nat" where
  "compute_cut args_json es leaf_id keep_recent_tokens =
     (find_cut_point args_json es (first_candidate es) (length es) keep_recent_tokens,
      cte_tokens (estimate_context_tokens args_json (sc_messages (build_session_context es leaf_id))))"

section \<open>Budgets, details and the record\<close>

definition saturating_mul :: "nat \<Rightarrow> nat \<Rightarrow> nat" where
  "saturating_mul a b = min (a * b) u64_max"

definition history_summary_completion_budget :: "nat \<Rightarrow> nat" where
  "history_summary_completion_budget reserve_tokens = saturating_mul reserve_tokens 4 div 5"

definition turn_prefix_summary_completion_budget :: "nat \<Rightarrow> nat" where
  "turn_prefix_summary_completion_budget reserve_tokens = reserve_tokens div 2"

record compaction_details =
  cd_read_files :: "string list"
  cd_modified_files :: "string list"

text \<open>\<open>parse_details\<close> is \<open>serde_json::from_value::<CompactionDetails>\<close>.\<close>

definition extract_file_operations ::
    "(json \<Rightarrow> compaction_details option) \<Rightarrow> session_message list \<Rightarrow> file_entry list \<Rightarrow> nat option \<Rightarrow> file_operations" where
  "extract_file_operations parse_details ms es prev_compaction_index =
     (let ops = (case prev_compaction_index of
            None \<Rightarrow> no_file_operations
          | Some i \<Rightarrow>
              if i < length es then
                (case es ! i of
                   FeCompaction p _ \<Rightarrow>
                     if co_from_hook p \<noteq> Some True then
                       (case co_details p of
                          None \<Rightarrow> no_file_operations
                        | Some d \<Rightarrow>
                            (case parse_details d of
                               None \<Rightarrow> no_file_operations
                             | Some details \<Rightarrow>
                                 no_file_operations
                                   \<lparr>fo_read := foldl (\<lambda>m f. insort_insert f m) [] (cd_read_files details),
                                    fo_edited := foldl (\<lambda>m f. insort_insert f m) [] (cd_modified_files details)\<rparr>))
                     else no_file_operations
                 | _ \<Rightarrow> no_file_operations)
              else no_file_operations)
      in foldl (\<lambda>ops m. extract_file_ops_from_message m ops) ops ms)"

definition details_for ::
    "(json \<Rightarrow> compaction_details option) \<Rightarrow> session_message list \<Rightarrow> file_entry list \<Rightarrow> nat option \<Rightarrow> compaction_details" where
  "details_for parse_details ms es prev_compaction_index =
     (let (r, m) = compute_file_lists (extract_file_operations parse_details ms es prev_compaction_index)
      in \<lparr>cd_read_files = r, cd_modified_files = m\<rparr>)"

definition split_summary :: "string \<Rightarrow> string \<Rightarrow> string" where
  "split_summary history turn_prefix =
     history @ [line_feed, line_feed] @ ''---'' @ [line_feed, line_feed] @ ''**Turn Context (split turn):**''
     @ [line_feed, line_feed] @ turn_prefix"

text \<open>\<open>compaction_entry_for\<close>; \<open>details_json\<close> is the details as a JSON value.\<close>

definition compaction_entry_for ::
    "string \<Rightarrow> string \<Rightarrow> nat \<Rightarrow> usage option \<Rightarrow> json \<Rightarrow> string option \<Rightarrow> string option \<Rightarrow> string option
     \<Rightarrow> compaction_entry" where
  "compaction_entry_for summary first_kept tokens_before use details_json custom_instructions
      harness_digest harness_state_fingerprint =
     \<lparr>co_summary = summary, co_first_kept_entry_id = first_kept, co_tokens_before = tokens_before,
      co_details = Some details_json, co_from_hook = Some False, co_custom_instructions = custom_instructions,
      co_usage = use, co_harness_digest = harness_digest,
      co_harness_state_fingerprint = harness_state_fingerprint\<rparr>"

text \<open>The id \<open>execute_compaction\<close> keeps from: that of the row at the cut, over the rows of the manager.\<close>

definition first_kept_id :: "file_entry list \<Rightarrow> cut_point_result \<Rightarrow> string" where
  "first_kept_id es chosen =
     (if cp_first_kept_entry_index chosen < length es
      then (case entry_id (es ! cp_first_kept_entry_index chosen) of None \<Rightarrow> [] | Some x \<Rightarrow> x) else [])"

section \<open>Preparation is total\<close>

lemma find_in_list: "find P xs = Some x \<Longrightarrow> x \<in> set xs \<and> P x"
  by (induction xs) (auto split: if_splits)

lemma rposition_bound: "rposition P xs = Some i \<Longrightarrow> i < length xs \<and> P (xs ! i)"
  unfolding rposition_def by (drule find_in_list) simp

lemma position_bound: "position P xs = Some i \<Longrightarrow> i < length xs \<and> P (xs ! i)"
  unfolding position_def by (drule find_in_list) simp

lemma cut_range:
  assumes "chosen = find_cut_point aj es start_index (length es) keep" and "start_index \<le> length es"
  shows "start_index \<le> history_end chosen" and "history_end chosen \<le> cp_first_kept_entry_index chosen"
    and "cp_first_kept_entry_index chosen \<le> length es"
    and "start_index < length es \<Longrightarrow> cp_first_kept_entry_index chosen < length es"
proof -
  define points where "points = find_valid_cut_points es start_index (length es)"
  have "start_index \<le> history_end chosen \<and> history_end chosen \<le> cp_first_kept_entry_index chosen
      \<and> (if points = [] then cp_first_kept_entry_index chosen = start_index else cp_first_kept_entry_index chosen < length es)"
  proof (cases "points = []")
    case True
    then show ?thesis using assms(1) by (simp add: find_cut_point_def points_def Let_def history_end_def)
  next
    case False
    define p where "p = (case cut_scan aj es keep 0 (rev [start_index..<length es]) of
        None \<Rightarrow> hd points
      | Some i \<Rightarrow> (case find (\<lambda>p. i \<le> p) points of Some p \<Rightarrow> p | None \<Rightarrow> last points))"
    have "p \<in> set points"
      using False by (auto simp: p_def dest: find_in_list split: option.splits)
    then have p: "start_index \<le> p" "p < length es" by (auto simp: points_def find_valid_cut_points_def)
    define c where "c = walk_back es start_index p"
    have c: "start_index \<le> c" "c < length es" using walk_back_spec[OF p(1), of es] p(2) by (auto simp: c_def)
    have chosen: "cp_first_kept_entry_index chosen = c"
      "cp_turn_start_index chosen = (if is_user_row (es ! c) then None else find_turn_start_index es c start_index)"
      using False assms(1) by (simp_all add: find_cut_point_def Let_def points_def[symmetric] p_def[symmetric] c_def[symmetric])
    have "start_index \<le> t \<and> t \<le> c" if "find_turn_start_index es c start_index = Some t" for t
    proof -
      have "t \<in> set (rev [start_index..<Suc c])"
        using that find_in_list unfolding find_turn_start_index_def by fast
      then show ?thesis by auto
    qed
    with chosen c False show ?thesis by (auto simp: history_end_def split: option.splits if_splits)
  qed
  then show "start_index \<le> history_end chosen" "history_end chosen \<le> cp_first_kept_entry_index chosen"
    "cp_first_kept_entry_index chosen \<le> length es"
    "start_index < length es \<Longrightarrow> cp_first_kept_entry_index chosen < length es"
    using assms(2) by (auto split: if_splits)
qed

lemma compaction_anchor_bound:
  assumes "es = [] \<or> \<not> is_compaction (last es)"
  shows "fst (compaction_anchor es) \<le> length es"
    and "snd (compaction_anchor es) \<noteq> None \<Longrightarrow> fst (compaction_anchor es) < length es"
proof -
  have "fst (compaction_anchor es) \<le> length es
      \<and> (snd (compaction_anchor es) \<noteq> None \<longrightarrow> fst (compaction_anchor es) < length es)"
  proof (cases "rposition is_compaction es")
    case None
    then show ?thesis by (cases es) (auto simp: compaction_anchor_def first_candidate_def)
  next
    case (Some i)
    then have i: "i < length es" "is_compaction (es ! i)" using rposition_bound by blast+
    then obtain p b where p: "es ! i = FeCompaction p b" by (cases "es ! i") auto
    have ne: "es \<noteq> []" using i(1) by auto
    then have "is_compaction (es ! (length es - 1)) = is_compaction (last es)" by (simp add: last_conv_nth)
    then have "i \<noteq> length es - 1" using assms i(2) ne by auto
    then have "i + 1 < length es" using i(1) by simp
    with Some p position_bound show ?thesis
      by (cases "position (\<lambda>e. entry_id e = Some (co_first_kept_entry_id p)) es")
         (auto simp: compaction_anchor_def Let_def dest!: position_bound)
  qed
  then show "fst (compaction_anchor es) \<le> length es"
    "snd (compaction_anchor es) \<noteq> None \<Longrightarrow> fst (compaction_anchor es) < length es" by simp_all
qed

lemma prepare_outcome:
  "\<exists>r. prepare_compaction aj es keep = Some r
     \<and> (r = Inl AlreadyCompacted \<longleftrightarrow> es \<noteq> [] \<and> is_compaction (last es))
     \<and> (case r of
          Inl _ \<Rightarrow> True
        | Inr prep \<Rightarrow> prep_boundary_start prep \<le> history_end (prep_cut prep)
            \<and> history_end (prep_cut prep) \<le> cp_first_kept_entry_index (prep_cut prep)
            \<and> cp_first_kept_entry_index (prep_cut prep) < length es)"
proof (cases "es \<noteq> [] \<and> is_compaction (last es)")
  case True
  then show ?thesis by (simp add: prepare_compaction_def)
next
  case False
  then have last: "es = [] \<or> \<not> is_compaction (last es)" by blast
  obtain b prev where anchor: "compaction_anchor es = (b, prev)" by fastforce
  define chosen where "chosen = find_cut_point aj es b (length es) keep"
  have b: "b \<le> length es" using compaction_anchor_bound(1)[OF last] anchor by simp
  note range = cut_range[OF chosen_def b]
  define history where "history = take (history_end chosen - b) (drop b es)"
  define prefix where "prefix = take (cp_first_kept_entry_index chosen - history_end chosen) (drop (history_end chosen) es)"
  have slices: "entry_slice es b (history_end chosen) = Some history"
    "entry_slice es (history_end chosen) (cp_first_kept_entry_index chosen) = Some prefix"
    "\<exists>a. extract_recent_state_anchor es (cp_first_kept_entry_index chosen) (length es) = Some a"
    using range(1,2,3) by (simp_all add: entry_slice_def history_def prefix_def extract_recent_state_anchor_def)
  then obtain a where a: "extract_recent_state_anchor es (cp_first_kept_entry_index chosen) (length es) = Some a" by blast
  define short where "short \<longleftrightarrow> List.map_filter message_from_entry history = []
      \<and> List.map_filter message_from_entry prefix = [] \<and> prev = None"
  have run: "prepare_compaction aj es keep =
      Some (if short then Inl TooShort
            else Inr \<lparr>prep_cut = chosen, prep_boundary_start = b, prep_previous_summary = prev,
                      prep_recent_state_anchor = a\<rparr>)"
    using False slices(1,2) a by (auto simp: prepare_compaction_def anchor chosen_def[symmetric] short_def)
  have "b < length es" if "\<not> short"
  proof (cases "prev = None")
    case True
    with that have "history \<noteq> [] \<or> prefix \<noteq> []" by (auto simp: short_def map_filter_def)
    then have "b < cp_first_kept_entry_index chosen"
    proof
      assume "history \<noteq> []"
      then have "b < history_end chosen" by (auto simp: history_def)
      with range(2) show ?thesis by simp
    next
      assume "prefix \<noteq> []"
      then have "history_end chosen < cp_first_kept_entry_index chosen" by (auto simp: prefix_def)
      with range(1) show ?thesis by simp
    qed
    with range(3) show ?thesis by simp
  next
    case False
    then show ?thesis using compaction_anchor_bound(2)[OF last] anchor by simp
  qed
  then show ?thesis using run range False by auto
qed

text \<open>
  Preparing a compaction never runs off the rows. Whatever the rows and the budget, no slice is
  out of range; a session that ends in a compaction is skipped and nothing else is skipped as already
  compacted; and a preparation that is given has its boundary before the start of the split turn,
  that before the cut, and the cut on a row.
\<close>

lemma preparation_is_total:
  "\<exists>r. prepare_compaction aj es keep = Some r
     \<and> (r = Inl AlreadyCompacted \<longleftrightarrow> es \<noteq> [] \<and> is_compaction (last es))
     \<and> (case r of
          Inl _ \<Rightarrow> True
        | Inr prep \<Rightarrow> prep_boundary_start prep \<le> history_end (prep_cut prep)
            \<and> history_end (prep_cut prep) \<le> cp_first_kept_entry_index (prep_cut prep)
            \<and> cp_first_kept_entry_index (prep_cut prep) < length es)"
  by (rule prepare_outcome)

text \<open>On a path, the row with the first kept id is the only one that ends the skipped rows.\<close>

lemma path_before_first_kept:
  assumes "rows_ok es" and "i < length es" and "j \<in> set (context_path es i)"
    and "c < length es" and "row_id (es ! c) = Some x" and "x \<noteq> []" and "j \<noteq> c" and "j \<noteq> i"
  shows "before_first_kept es x j"
proof -
  have j: "j < length es" "\<not> is_header (es ! j)"
    using context_path_rows[OF assms(1-3)] context_path_sorted_rows[OF assms(1,2)] assms(2,3,8) by auto
  have "entry_id (es ! j) \<noteq> Some x"
  proof
    assume "entry_id (es ! j) = Some x"
    with j(2) have "row_id (es ! j) = Some x" by (simp add: row_id_def)
    from rows_ok_unique[OF assms(1) j(1) assms(4) this assms(5)] assms(7) show False by simp
  qed
  with assms(6) show ?thesis by (auto simp: before_first_kept_def split: option.splits)
qed

section \<open>Two flaws of the cut\<close>

text \<open>
  A settings row between two turns makes the compaction treat the whole turn before it as split.
  The walk back puts the cut on the row, which is no user message, so the turn of the user message
  before it counts as cut in the middle, although the first message kept starts a turn of its own:
  the complete turn goes to the summarizer as the prefix of a split one, and out of the history.
\<close>

lemma settings_row_splits_turn:
  assumes "chosen = find_cut_point aj es start_index (length es) keep"
    and "cp_first_kept_entry_index chosen < p" and "p < length es" and "is_user_row (es ! p)"
    and "\<forall>j. cp_first_kept_entry_index chosen \<le> j \<longrightarrow> j < p \<longrightarrow> \<not> cut_boundary (es ! j) \<and> \<not> starts_turn (es ! j)"
    and "start_index \<le> t" and "t < cp_first_kept_entry_index chosen" and "starts_turn (es ! t)"
    and "\<forall>j. t < j \<longrightarrow> j < cp_first_kept_entry_index chosen \<longrightarrow> \<not> starts_turn (es ! j)"
  shows "cp_is_split_turn chosen \<and> history_end chosen = t"
proof -
  define c where "c = cp_first_kept_entry_index chosen"
  have "find_valid_cut_points es start_index (length es) \<noteq> []"
    using assms(1,6,7) by (auto simp: find_cut_point_def)
  moreover have user: "\<not> is_user_row (es ! c)" "\<not> starts_turn (es ! c)"
    using assms(2,5) by (auto simp: c_def elim!: is_user_row.elims)
  ultimately have cut: "cp_turn_start_index chosen = find_turn_start_index es c start_index"
    "cp_is_split_turn chosen = (find_turn_start_index es c start_index \<noteq> None)"
    using assms(1) by (auto simp: find_cut_point_def Let_def c_def)
  have tc: "t < c" using assms(7) by (simp add: c_def)
  have "[start_index..<Suc c] = [start_index..<t] @ t # [Suc t..<Suc c]"
    using assms(6) tc by (metis upt_add_eq_append upt_conv_Cons le_add_diff_inverse less_SucI less_imp_le)
  moreover have none: "\<not> starts_turn (es ! j)" if "j \<in> set [Suc t..<Suc c]" for j
    using that assms(9) user(2) by (cases "j = c") (auto simp: c_def)
  have "find (\<lambda>i. starts_turn (es ! i)) (rev [Suc t..<Suc c]) = None"
    using none by (auto simp: find_None_iff simp del: upt_Suc)
  moreover have "find P (xs @ ys) = (case find P xs of None \<Rightarrow> find P ys | Some x \<Rightarrow> Some x)" for P :: "nat \<Rightarrow> bool" and xs ys
    by (induction xs) auto
  ultimately have "find_turn_start_index es c start_index = Some t"
    unfolding find_turn_start_index_def using assms(8) by (simp del: upt_Suc)
  then show ?thesis by (simp add: cut history_end_def)
qed

text \<open>
  The cut is taken over the rows of the file, not of the branch. When it falls on a row that is not
  on the active branch, the compaction the session then appends keeps nothing: the model sees the
  summary, which says that no message was retained, and none of the recent conversation.
\<close>

lemma cut_off_the_branch_keeps_nothing:
  assumes "chosen = find_cut_point aj es (first_candidate es) (length es) keep"
    and "co_first_kept_entry_id p = first_kept_id es chosen" and "co_first_kept_entry_id p \<noteq> []"
    and "rows_ok (es @ [FeCompaction p b])" and "eb_id b = Some x" and "x \<noteq> []"
    and "context_path (es @ [FeCompaction p b]) (length es) = path @ [length es]"
    and "cp_first_kept_entry_index chosen \<notin> set path"
  shows "\<exists>summary. sc_messages (build_session_context (es @ [FeCompaction p b]) (Some x)) = [SmCompactionSummary summary]
     \<and> cs_retained_message_count summary = Some 0"
proof -
  let ?es = "es @ [FeCompaction p b]" and ?c = "cp_first_kept_entry_index chosen"
  have c: "?c < length es" "entry_id (es ! ?c) = Some (co_first_kept_entry_id p)"
    using assms(2,3) by (auto simp: first_kept_id_def split: if_splits option.splits)
  have x: "row_id (?es ! length es) = Some x" using assms(5) by (simp add: row_id_def entry_id_def)
  have "\<not> is_header (es ! ?c)"
  proof
    assume header: "is_header (es ! ?c)"
    with assms(4) c(1) have "?c = 0" by (simp add: rows_ok_def header_front_def nth_append)
    moreover from this header c(1) have "first_candidate es = 1" by (cases es) (auto simp: first_candidate_def)
    moreover have "first_candidate es \<le> ?c"
      using cut_range(1,2)[OF assms(1)] c(1) \<open>first_candidate es = 1\<close> by simp
    ultimately show False by simp
  qed
  then have cut: "?c < length ?es" "row_id (?es ! ?c) = Some (co_first_kept_entry_id p)"
    using c by (simp_all add: row_id_def nth_append)
  have "sorted_wrt (<) (context_path ?es (length es))" using context_path_sorted_rows[OF assms(4)] by simp
  then have "length es \<notin> set path" by (auto simp: assms(7) sorted_wrt_append)
  then have "before_first_kept ?es (co_first_kept_entry_id p) j" if "j \<in> set path" for j
    using path_before_first_kept[OF assms(4) _ _ cut assms(3), of "length es" j] assms(7,8) that by auto
  then have "dropWhile (before_first_kept ?es (co_first_kept_entry_id p)) path = []" by simp
  with compacted_messages[OF assms(4) _ x assms(6,7)] show ?thesis
    by (auto simp: Let_def compaction_summary_def)
qed

end
