(* ===== verification/LlmMessages.thy ===== *)
theory LlmMessages
  imports Compaction CompactionText
begin

text \<open>
  \<open>session_engine/messages.rs\<close>: the messages of a session as the model sees them. The rows that only the
  session knows become user messages, the bookkeeping rows drop out.
\<close>

section \<open>Frames\<close>

definition compaction_summary_prefix :: string where
  "compaction_summary_prefix =
     ''[compaction-summary]'' @ [line_feed, line_feed]
     @ ''The conversation history before this point was compacted into the following summary.'' @ [line_feed]
     @ ''The retained messages below are authoritative; this summary may lag behind them.''
     @ [line_feed, line_feed] @ ''<summary>'' @ [line_feed]"

definition compaction_summary_suffix :: string where
  "compaction_summary_suffix =
     [line_feed] @ ''</summary>''"

definition branch_summary_prefix :: string where
  "branch_summary_prefix =
     ''[branch-summary]'' @ [line_feed, line_feed]
     @ ''The following is a summary of a branch that this conversation came back from:''
     @ [line_feed, line_feed] @ ''<summary>'' @ [line_feed]"

definition branch_summary_suffix :: string where
  "branch_summary_suffix =
     [line_feed] @ ''</summary>''"

definition harness_digest_prefix :: string where
  "harness_digest_prefix =
     ''[harness-digest]'' @ [line_feed, line_feed]
     @ ''The persistent memories produced across this session so far:'' @ [line_feed, line_feed]
     @ ''<harness_state>'' @ [line_feed]"

definition harness_digest_suffix :: string where
  "harness_digest_suffix =
     [line_feed] @ ''</harness_state>''"

definition bookkeeping_custom_types :: "string list" where
  "bookkeeping_custom_types =
     [''session_slash_command'', ''session_slash_command_result'', ''compaction_outcome'',
      ''refinement_outcome'', ''provider_retry_outcome'']"

section \<open>Shell output\<close>

definition backtick :: char where
  "backtick = CHR 0x60"

definition backtick_run :: "string \<Rightarrow> nat" where
  "backtick_run s = length (takeWhile (\<lambda>c. c = backtick) s)"

text \<open>The fold over the positions of the backticks: the longest run that starts at one.\<close>

fun longest_backticks :: "string \<Rightarrow> nat" where
  "longest_backticks [] = 0"
| "longest_backticks (c # s) =
     (if c = backtick then max (backtick_run (c # s)) (longest_backticks s) else longest_backticks s)"

definition fence_length :: "string \<Rightarrow> nat" where
  "fence_length output = max (max (longest_backticks output) 3) (longest_backticks output + 1)"

definition bash_output_to_text :: "string \<Rightarrow> int option \<Rightarrow> bool \<Rightarrow> bool \<Rightarrow> string option \<Rightarrow> string" where
  "bash_output_to_text output exit_code cancelled truncated full_output_path =
     (let fence = replicate (fence_length output) backtick;
          body = (if output = [] then ''(no output)''
                  else fence @ [line_feed] @ output @ [line_feed] @ fence);
          status = (if cancelled then [line_feed, line_feed] @ ''(command cancelled)''
                    else (case exit_code of
                            None \<Rightarrow> []
                          | Some code \<Rightarrow>
                              if code \<noteq> 0
                              then [line_feed, line_feed] @ ''Command exited with code '' @ show_int code else []));
          notice = (if truncated
                    then (case full_output_path of
                            Some p \<Rightarrow> [line_feed, line_feed] @ ''[Output truncated. Full output: '' @ p @ '']''
                          | None \<Rightarrow> [line_feed, line_feed] @ ''[Output truncated.]'')
                    else [])
      in body @ status @ notice)"

definition bash_execution_to_text :: "bash_execution_message \<Rightarrow> string" where
  "bash_execution_to_text b =
     ''Ran '' @ [backtick] @ be_command b @ [backtick, line_feed]
     @ bash_output_to_text (be_output b) (be_exit_code b) (be_cancelled b) (be_truncated b) (be_full_output_path b)"

section \<open>Conversion\<close>

definition text_block :: "string \<Rightarrow> user_content_block" where
  "text_block t = UbText \<lparr>ait_text = t, ait_text_signature = None, ait_rest = []\<rparr>"

definition user_row :: "ai_user_content \<Rightarrow> nat \<Rightarrow> session_message" where
  "user_row content timestamp = SmUser \<lparr>aiu_content = content, aiu_timestamp = timestamp, aiu_rest = []\<rparr>"

fun converted :: "session_message \<Rightarrow> session_message option" where
  "converted (SmBashExecution b) =
     (if be_exclude_from_context b = Some True then None
      else Some (user_row (UcBlocks [text_block (bash_execution_to_text b)]) (be_timestamp b)))"
| "converted (SmCustom c) =
     (if cu_custom_type c \<in> set bookkeeping_custom_types then None
      else Some (user_row (case cu_content c of UcText t \<Rightarrow> UcBlocks [text_block t] | UcBlocks bs \<Rightarrow> UcBlocks bs)
                   (cu_timestamp c)))"
| "converted (SmBranchSummary s) =
     Some (user_row (UcBlocks [text_block (branch_summary_prefix @ bs_summary s @ branch_summary_suffix)])
             (bs_timestamp s))"
| "converted (SmCompactionSummary s) =
     (let digest_block = (case cs_harness_digest s of
              None \<Rightarrow> []
            | Some d \<Rightarrow> harness_digest_prefix @ d @ harness_digest_suffix @ [line_feed, line_feed])
      in Some (user_row
           (UcBlocks [text_block (digest_block @ compaction_summary_prefix @ cs_summary s @ compaction_summary_suffix)])
           (cs_timestamp s)))"
| "converted m = Some m"

definition convert_to_llm :: "session_message list \<Rightarrow> session_message list" where
  "convert_to_llm ms = List.map_filter converted ms"

section \<open>What the model sees\<close>

fun llm_row :: "session_message \<Rightarrow> bool" where
  "llm_row (SmUser _) = True"
| "llm_row (SmAssistant _) = True"
| "llm_row (SmToolResult _) = True"
| "llm_row _ = False"

lemma converted_llm: "converted m = Some m' \<Longrightarrow> llm_row m'"
  by (cases m) (auto simp: user_row_def Let_def split: if_splits)

lemma converted_time: "converted m = Some m' \<Longrightarrow> message_timestamp m' = message_timestamp m"
  by (cases m) (auto simp: user_row_def Let_def split: if_splits)

lemma converted_fixed: "llm_row m \<Longrightarrow> converted m = Some m"
  by (cases m) simp_all

fun model_visible :: "session_message \<Rightarrow> bool" where
  "model_visible (SmBashExecution b) = (be_exclude_from_context b \<noteq> Some True)"
| "model_visible (SmCustom c) = (cu_custom_type c \<notin> set bookkeeping_custom_types)"
| "model_visible _ = True"

lemma converted_visible: "(converted m \<noteq> None) = model_visible m"
  by (cases m) (simp_all add: Let_def)

text \<open>
  The model is shown user, assistant and tool-result messages only. Every row that is not a
  bookkeeping row or an excluded shell run yields exactly one message, in order and with the time of
  its row; messages that already are of the three kinds pass unchanged, so converting twice is
  converting once.
\<close>

lemma model_sees_llm_rows:
  "list_all llm_row (convert_to_llm ms)
   \<and> map message_timestamp (convert_to_llm ms) = map message_timestamp (filter model_visible ms)
   \<and> convert_to_llm (filter llm_row ms) = filter llm_row ms
   \<and> convert_to_llm (convert_to_llm ms) = convert_to_llm ms"
proof (intro conjI)
  show llm: "list_all llm_row (convert_to_llm ms)"
    by (auto simp: list_all_iff convert_to_llm_def map_filter_def dest: converted_llm)
  show "map message_timestamp (convert_to_llm ms) = map message_timestamp (filter model_visible ms)"
    by (induction ms) (auto simp: convert_to_llm_def map_filter_def converted_visible[symmetric] dest: converted_time)
  have same: "list_all llm_row xs \<Longrightarrow> convert_to_llm xs = xs" for xs
    by (induction xs) (simp_all add: convert_to_llm_def map_filter_def converted_fixed)
  show "convert_to_llm (filter llm_row ms) = filter llm_row ms" by (rule same) (simp add: list_all_iff)
  show "convert_to_llm (convert_to_llm ms) = convert_to_llm ms" using llm by (rule same)
qed

section \<open>The fence\<close>

lemma longest_backticks_run:
  assumes "find_str (replicate n backtick) s = Some i" and "0 < n"
  shows "n \<le> longest_backticks s"
  using assms(1)
proof (induction s arbitrary: i)
  case Nil
  with assms(2) show ?case by simp
next
  case (Cons c s)
  show ?case
  proof (cases "starts_with (c # s) (replicate n backtick)")
    case True
    then obtain t where "c # s = replicate n backtick @ t" unfolding starts_with_iff by blast
    then have pre: "c # s = replicate n backtick @ drop n (c # s)" by simp
    then have "takeWhile (\<lambda>c. c = backtick) (c # s)
        = replicate n backtick @ takeWhile (\<lambda>c. c = backtick) (drop n (c # s))"
      by (metis (mono_tags, lifting) in_set_replicate takeWhile_append2)
    then have "n \<le> backtick_run (c # s)" by (simp only: backtick_run_def length_append length_replicate le_add1)
    moreover have "c = backtick" using pre assms(2) by (cases n) auto
    ultimately show ?thesis by simp
  next
    case False
    with Cons.prems obtain j where "find_str (replicate n backtick) s = Some j" by (auto split: if_splits)
    from Cons.IH[OF this] show ?thesis by (simp add: le_max_iff_disj)
  qed
qed

text \<open>
  Shell output cannot leave its fence. The output of a command is shown between two lines of at
  least three backticks, and no run of that many backticks is part of the output; what follows the
  closing line starts on a line of its own.
\<close>

lemma shell_output_stays_fenced:
  assumes "output \<noteq> []"
  shows "\<exists>n rest. bash_output_to_text output exit_code cancelled truncated path
       = replicate n backtick @ [line_feed] @ output @ [line_feed] @ replicate n backtick @ rest
     \<and> 3 \<le> n \<and> find_str (replicate n backtick) output = None \<and> (rest = [] \<or> hd rest = line_feed)"
proof -
  define rest where "rest = drop (length (replicate (fence_length output) backtick @ [line_feed] @ output @ [line_feed]
      @ replicate (fence_length output) backtick)) (bash_output_to_text output exit_code cancelled truncated path)"
  have "bash_output_to_text output exit_code cancelled truncated path
      = replicate (fence_length output) backtick @ [line_feed] @ output @ [line_feed]
        @ replicate (fence_length output) backtick @ rest \<and> (rest = [] \<or> hd rest = line_feed)"
    using assms
    by (auto simp: rest_def bash_output_to_text_def Let_def split: option.splits)
  moreover have "find_str (replicate (fence_length output) backtick) output = None"
  proof (rule ccontr)
    assume "find_str (replicate (fence_length output) backtick) output \<noteq> None"
    then obtain i where "find_str (replicate (fence_length output) backtick) output = Some i" by blast
    moreover have "longest_backticks output < fence_length output" by (simp add: fence_length_def)
    ultimately show False by (metis gr0I leD less_nat_zero_code longest_backticks_run)
  qed
  moreover have "3 \<le> fence_length output" by (simp add: fence_length_def)
  ultimately show ?thesis by blast
qed

lemma shell_output_stays_fenced_witness:
  "\<exists>n rest. bash_output_to_text ''ok'' (Some 1) False False None
       = replicate n backtick @ [line_feed] @ ''ok'' @ [line_feed] @ replicate n backtick @ rest
     \<and> 3 \<le> n \<and> find_str (replicate n backtick) ''ok'' = None \<and> (rest = [] \<or> hd rest = line_feed)"
  by (rule shell_output_stays_fenced) simp

end
