(* ===== verification/CompactionRun.thy ===== *)
theory CompactionRun
  imports CompactionPrepare LlmMessages
begin

text \<open>
  A run of the compaction, \<open>execute_compaction\<close> of \<open>compact_session.rs\<close> with the requests, slices and
  usage of \<open>compaction_exec.rs\<close> and the prompts of \<open>compaction.rs\<close> and \<open>compaction_utils.rs\<close>. The model's
  answer, the JSON of the details and the signal at the two checks are given by the world; the choice
  of an auxiliary model, the trace and the clock are left out.
\<close>

section \<open>Prompts\<close>

definition summarization_prompt :: string where
  "summarization_prompt =
     ''The messages above are a conversation to summarize. Create a structured context checkpoint summary ''
     @ ''that another LLM will use to continue the work.'' @ [line_feed, line_feed]
     @ ''Use this EXACT format:'' @ [line_feed, line_feed] @ ''## Goal'' @ [line_feed]
     @ ''[What is the user trying to accomplish? Can be multiple items if the session covers different tasks.]''
     @ [line_feed, line_feed] @ ''## Constraints & Preferences'' @ [line_feed]
     @ ''- [Any constraints, preferences, or requirements mentioned by user]'' @ [line_feed] @ ''- [Or ''
     @ [CHR 0x22] @ ''(none)'' @ [CHR 0x22] @ '' if none were mentioned]'' @ [line_feed, line_feed]
     @ ''## Progress'' @ [line_feed] @ ''### Done'' @ [line_feed] @ ''- [x] [Completed tasks/changes]''
     @ [line_feed, line_feed] @ ''### In Progress'' @ [line_feed] @ ''- [ ] [Current work]''
     @ [line_feed, line_feed] @ ''### Blocked'' @ [line_feed] @ ''- [Issues preventing progress, if any]''
     @ [line_feed, line_feed] @ ''## Key Decisions'' @ [line_feed] @ ''- **[Decision]**: [Brief rationale]''
     @ [line_feed, line_feed] @ ''## Next Steps'' @ [line_feed]
     @ ''1. [Ordered list of what should happen next]'' @ [line_feed, line_feed] @ ''## Critical Context''
     @ [line_feed] @ ''- [Any data, examples, or references needed to continue]'' @ [line_feed] @ ''- [Or ''
     @ [CHR 0x22] @ ''(none)'' @ [CHR 0x22] @ '' if not applicable]'' @ [line_feed, line_feed]
     @ ''Keep each section concise. Preserve exact file paths, function names, and error messages.''"

definition kernel_persist_summary_note :: string where
  "kernel_persist_summary_note =
     ''Note: the Python kernel keeps running after this summary '' @ [CHR 0xE2, CHR 0x80, CHR 0x94]
     @ '' every Python variable, import, and helper you defined stays available. The cells that defined ''
     @ ''them won'' @ [CHR 0x27]
     @ ''t appear above, so record in the summary any names worth remembering so you reuse them instead of ''
     @ ''redefining them.''"

definition turn_prefix_summarization_prompt :: string where
  "turn_prefix_summarization_prompt =
     ''This is the PREFIX of a turn that was too large to keep. The SUFFIX (recent work) is retained.''
     @ [line_feed, line_feed] @ ''Summarize the prefix to provide context for the retained suffix:''
     @ [line_feed, line_feed] @ ''## Original Request'' @ [line_feed]
     @ ''[What did the user ask for in this turn?]'' @ [line_feed, line_feed] @ ''## Early Progress''
     @ [line_feed] @ ''- [Key decisions and work done in the prefix]'' @ [line_feed, line_feed]
     @ ''## Context for Suffix'' @ [line_feed]
     @ ''- [Information needed to understand the retained recent work]'' @ [line_feed, line_feed]
     @ ''Be concise. Focus on what'' @ [CHR 0x27] @ ''s needed to understand the kept suffix.''"

definition update_summarization_prompt :: string where
  "update_summarization_prompt =
     ''The messages above are NEW conversation messages to incorporate into the existing summary provided ''
     @ ''in <previous-summary> tags.'' @ [line_feed, line_feed]
     @ ''Update the existing structured summary with new information. RULES:'' @ [line_feed]
     @ ''- PRESERVE all existing information from the previous summary'' @ [line_feed]
     @ ''- ADD new progress, decisions, and context from the new messages'' @ [line_feed]
     @ ''- UPDATE the Progress section: move items from '' @ [CHR 0x22] @ ''In Progress'' @ [CHR 0x22]
     @ '' to '' @ [CHR 0x22] @ ''Done'' @ [CHR 0x22] @ '' when completed'' @ [line_feed] @ ''- UPDATE ''
     @ [CHR 0x22] @ ''Next Steps'' @ [CHR 0x22] @ '' based on what was accomplished'' @ [line_feed]
     @ ''- PRESERVE exact file paths, function names, and error messages'' @ [line_feed]
     @ ''- If something is no longer relevant, you may remove it'' @ [line_feed, line_feed]
     @ ''Use this EXACT format:'' @ [line_feed, line_feed] @ ''## Goal'' @ [line_feed]
     @ ''[Preserve existing goals, add new ones if the task expanded]'' @ [line_feed, line_feed]
     @ ''## Constraints & Preferences'' @ [line_feed] @ ''- [Preserve existing, add new ones discovered]''
     @ [line_feed, line_feed] @ ''## Progress'' @ [line_feed] @ ''### Done'' @ [line_feed]
     @ ''- [x] [Include previously done items AND newly completed items]'' @ [line_feed, line_feed]
     @ ''### In Progress'' @ [line_feed] @ ''- [ ] [Current work - update based on progress]''
     @ [line_feed, line_feed] @ ''### Blocked'' @ [line_feed] @ ''- [Current blockers - remove if resolved]''
     @ [line_feed, line_feed] @ ''## Key Decisions'' @ [line_feed]
     @ ''- **[Decision]**: [Brief rationale] (preserve all previous, add new)'' @ [line_feed, line_feed]
     @ ''## Next Steps'' @ [line_feed] @ ''1. [Update based on current state]'' @ [line_feed, line_feed]
     @ ''## Critical Context'' @ [line_feed] @ ''- [Preserve important context, add new if needed]''
     @ [line_feed, line_feed]
     @ ''Keep each section concise. Preserve exact file paths, function names, and error messages.''"

definition summarization_system_prompt :: string where
  "summarization_system_prompt =
     ''You are a context summarization assistant. Your task is to read a conversation between a user and an ''
     @ ''AI coding assistant, then produce a structured summary following the exact format specified.''
     @ [line_feed, line_feed]
     @ ''Do NOT continue the conversation. Do NOT respond to any questions in the conversation. ONLY output ''
     @ ''the structured summary.''"

definition build_summarization_prompt :: "string option \<Rightarrow> string option \<Rightarrow> string" where
  "build_summarization_prompt custom_instructions previous_summary =
     (if previous_summary \<noteq> None then update_summarization_prompt else summarization_prompt)
     @ (case custom_instructions of
          None \<Rightarrow> []
        | Some c \<Rightarrow>
            [line_feed, line_feed] @ ''<user-instructions>'' @ [line_feed]
            @ ''The user provided these instructions for this summary. Follow them with high priority while ''
            @ ''keeping the section format above: emphasize what they ask to focus on, and preserve ''
            @ ''verbatim anything they ask to remember.'' @ [line_feed]
            @ c @ [line_feed] @ ''</user-instructions>'')
     @ [line_feed, line_feed] @ kernel_persist_summary_note"

definition request_of :: "string \<Rightarrow> session_message list" where
  "request_of prompt_text = [SmUser \<lparr>aiu_content = UcBlocks [text_block prompt_text], aiu_timestamp = 0, aiu_rest = []\<rparr>]"

definition build_summarization_request ::
    "(json \<Rightarrow> string) \<Rightarrow> session_message list \<Rightarrow> string option \<Rightarrow> string option \<Rightarrow> string option
     \<Rightarrow> session_message list" where
  "build_summarization_request show_json ms custom_instructions previous_summary recent_state_anchor =
     request_of
       (''<conversation>'' @ [line_feed] @ serialize_conversation show_json (convert_to_llm ms) @ [line_feed]
        @ ''</conversation>'' @ [line_feed, line_feed]
        @ (case previous_summary of
             None \<Rightarrow> []
           | Some p \<Rightarrow> ''<previous-summary>'' @ [line_feed] @ p @ [line_feed] @ ''</previous-summary>''
               @ [line_feed, line_feed])
        @ (case recent_state_anchor of
             None \<Rightarrow> []
           | Some a \<Rightarrow>
               ''<recent-state-anchor>'' @ [line_feed]
               @ ''Newest assistant message that stays retained below the summary. The conversation to ''
               @ ''summarize is older than this anchor; the retained messages below are authoritative, so ''
               @ ''treat this anchor, not the conversation above, as the current state.''
               @ [line_feed, line_feed]
               @ a @ [line_feed] @ ''</recent-state-anchor>'' @ [line_feed, line_feed])
        @ build_summarization_prompt custom_instructions previous_summary)"

definition build_turn_prefix_request :: "(json \<Rightarrow> string) \<Rightarrow> session_message list \<Rightarrow> session_message list" where
  "build_turn_prefix_request show_json ms =
     request_of
       (''<conversation>'' @ [line_feed] @ serialize_conversation show_json (convert_to_llm ms) @ [line_feed]
        @ ''</conversation>'' @ [line_feed, line_feed] @ turn_prefix_summarization_prompt)"

section \<open>Estimates\<close>

fun request_chars :: "session_message \<Rightarrow> nat" where
  "request_chars (SmUser u) = chars_count (user_content_text (aiu_content u))"
| "request_chars _ = 0"

definition summarizer_request_tokens :: "session_message list \<Rightarrow> nat" where
  "summarizer_request_tokens request = div4 (u64_sum (map request_chars request))"

definition estimate_summary_request_tokens ::
    "(json \<Rightarrow> string) \<Rightarrow> session_message list \<Rightarrow> session_message list \<Rightarrow> bool \<Rightarrow> string option \<Rightarrow> string option
     \<Rightarrow> string option \<Rightarrow> nat \<Rightarrow> nat" where
  "estimate_summary_request_tokens show_json history turn_prefix is_split_turn previous_summary
      recent_state_anchor custom_instructions reserve_tokens =
     (let system_prompt_tokens = div4 (chars_count summarization_system_prompt);
          history_tokens =
            (if history \<noteq> [] \<or> \<not> is_split_turn \<or> turn_prefix = [] then
               u64_add (u64_add system_prompt_tokens (summarizer_request_tokens
                   (build_summarization_request show_json history custom_instructions previous_summary
                      recent_state_anchor)))
                 (history_summary_completion_budget reserve_tokens)
             else 0)
      in if turn_prefix \<noteq> [] then
           max history_tokens
             (u64_add (u64_add system_prompt_tokens
                 (summarizer_request_tokens (build_turn_prefix_request show_json turn_prefix)))
                (turn_prefix_summary_completion_budget reserve_tokens))
         else history_tokens)"

section \<open>Slices and usage\<close>

record summary_slice =
  ss_summary :: string
  ss_usage :: "usage option"

definition no_prior_history :: string where
  "no_prior_history = ''No prior history.''"

definition add_assistant_usage :: "usage \<Rightarrow> usage \<Rightarrow> usage" where
  "add_assistant_usage t u =
     \<lparr>us_input = saturating_add (us_input t) (us_input u),
      us_output = saturating_add (us_output t) (us_output u),
      us_cache_read = saturating_add (us_cache_read t) (us_cache_read u),
      us_cache_write = saturating_add (us_cache_write t) (us_cache_write u),
      us_total_tokens = saturating_add (us_total_tokens t) (us_total_tokens u)\<rparr>"

definition subtract_assistant_usage :: "usage \<Rightarrow> usage \<Rightarrow> usage" where
  "subtract_assistant_usage t u =
     \<lparr>us_input = saturating_sub (us_input t) (us_input u),
      us_output = saturating_sub (us_output t) (us_output u),
      us_cache_read = saturating_sub (us_cache_read t) (us_cache_read u),
      us_cache_write = saturating_sub (us_cache_write t) (us_cache_write u),
      us_total_tokens = saturating_sub (us_total_tokens t) (us_total_tokens u)\<rparr>"

definition sum_slice :: "usage option \<Rightarrow> summary_slice \<Rightarrow> usage option" where
  "sum_slice acc sl =
     (case ss_usage sl of
        None \<Rightarrow> acc
      | Some u \<Rightarrow> Some (add_assistant_usage (case acc of None \<Rightarrow> usage_zero | Some t \<Rightarrow> t) u))"

definition summed_usage :: "summary_slice list \<Rightarrow> usage option" where
  "summed_usage slices = foldl sum_slice None slices"

section \<open>A run\<close>

record compaction_result =
  cr_summary :: string
  cr_first_kept_entry_id :: string
  cr_tokens_before :: nat
  cr_usage :: "usage option"

text \<open>
  The world: the JSON texts, the details as JSON and back, and the answer of the model to a request
  with a budget: a failure of the call, or the text deltas it streams and its last message.
\<close>

record compaction_world =
  cw_args_json :: "json_map \<Rightarrow> string"
  cw_show_json :: "json \<Rightarrow> string"
  cw_parse_details :: "json \<Rightarrow> compaction_details option"
  cw_details_json :: "compaction_details \<Rightarrow> json"
  cw_reply :: "session_message list \<Rightarrow> nat \<Rightarrow> string + string list \<times> ai_assistant_message"

record compact_options =
  cx_settings :: compaction_settings
  cx_custom_instructions :: "string option"
  cx_aborted_before :: bool
  cx_aborted_after :: bool
  cx_harness_digest :: "(string \<times> string) option"
  cx_summary_delta :: bool

datatype compact_error = CeAborted | CeSummarizer string | CeStore store_error | CePanic

datatype compact_outcome = CoSkipped string | CoRan compaction_result compaction_entry

definition summary_text :: "ai_assistant_message \<Rightarrow> string" where
  "summary_text a = join_with [line_feed] (List.map_filter assistant_block_text (aia_content a))"

fun is_wire_message :: "session_message \<Rightarrow> bool" where
  "is_wire_message (SmUser _) = True"
| "is_wire_message (SmAssistant _) = True"
| "is_wire_message _ = False"

text \<open>The deltas the sink receives, and the slice or the error.\<close>

definition complete_summary_call ::
    "compaction_world \<Rightarrow> nat \<Rightarrow> session_message list \<Rightarrow> bool \<Rightarrow> string \<Rightarrow> string list \<times> (string + summary_slice)" where
  "complete_summary_call w max_tokens request live failure =
     (case cw_reply w (filter (\<lambda>m. is_wire_message m) request) max_tokens of
        Inl e \<Rightarrow> ([], Inl e)
      | Inr (deltas, a) \<Rightarrow>
          (if live then deltas else [],
           if aia_stop_reason a = StopError
           then Inl (failure @ '': '' @ (case aia_error_message a of None \<Rightarrow> ''Unknown error'' | Some e \<Rightarrow> e))
           else Inr \<lparr>ss_summary = summary_text a, ss_usage = Some (aia_usage a)\<rparr>))"

definition history_call ::
    "compaction_world \<Rightarrow> compact_options \<Rightarrow> compaction_preparation \<Rightarrow> session_message list \<Rightarrow> session_message list
     \<Rightarrow> string list \<times> (string + summary_slice)" where
  "history_call w options prep history turn_prefix =
     (if cp_is_split_turn (prep_cut prep) \<and> turn_prefix \<noteq> [] \<and> history = [] then
        (if cx_summary_delta options then [no_prior_history] else [],
         Inr \<lparr>ss_summary = no_prior_history, ss_usage = None\<rparr>)
      else
        complete_summary_call w (history_summary_completion_budget (cst_reserve_tokens (cx_settings options)))
          (build_summarization_request (cw_show_json w) history (cx_custom_instructions options)
             (prep_previous_summary prep) (prep_recent_state_anchor prep))
          (cx_summary_delta options) ''Summarization failed'')"

definition turn_prefix_call ::
    "compaction_world \<Rightarrow> compact_options \<Rightarrow> compaction_preparation \<Rightarrow> session_message list
     \<Rightarrow> string + summary_slice option" where
  "turn_prefix_call w options prep turn_prefix =
     (if \<not> cp_is_split_turn (prep_cut prep) \<or> turn_prefix = [] then Inr None
      else case snd (complete_summary_call w
               (turn_prefix_summary_completion_budget (cst_reserve_tokens (cx_settings options)))
               (build_turn_prefix_request (cw_show_json w) turn_prefix) False ''Turn prefix summarization failed'') of
             Inl e \<Rightarrow> Inl e
           | Inr sl \<Rightarrow> Inr (Some sl))"

definition file_ops_block :: "string list \<Rightarrow> string list \<Rightarrow> string" where
  "file_ops_block read_files modified_files = format_file_operations read_files modified_files"

text \<open>What the live stream has not carried: the split marker with the prefix, and the file lists.\<close>

definition delta_remainder :: "summary_slice option \<Rightarrow> compaction_details \<Rightarrow> string" where
  "delta_remainder prefix details =
     (case prefix of None \<Rightarrow> [] | Some p \<Rightarrow> split_summary [] (ss_summary p))
     @ file_ops_block (cd_read_files details) (cd_modified_files details)"

definition committed_summary :: "summary_slice \<Rightarrow> summary_slice option \<Rightarrow> compaction_details \<Rightarrow> string" where
  "committed_summary history prefix details =
     (case prefix of None \<Rightarrow> ss_summary history | Some p \<Rightarrow> split_summary (ss_summary history) (ss_summary p))
     @ file_ops_block (cd_read_files details) (cd_modified_files details)"

definition previous_compaction_index :: "file_entry list \<Rightarrow> nat \<Rightarrow> nat option" where
  "previous_compaction_index es first_row = rposition is_compaction (take first_row es)"

text \<open>The entry and the result for the slices, and its append.\<close>

definition commit_compaction ::
    "session_env \<Rightarrow> compaction_world \<Rightarrow> compact_options \<Rightarrow> string \<Rightarrow> nat \<Rightarrow> compaction_details
     \<Rightarrow> summary_slice \<Rightarrow> summary_slice option \<Rightarrow> session_manager
     \<Rightarrow> (compact_error + compact_outcome) \<times> session_manager" where
  "commit_compaction env w options first_kept tokens_before details history prefix s =
     (let result = \<lparr>cr_summary = committed_summary history prefix details, cr_first_kept_entry_id = first_kept,
                    cr_tokens_before = tokens_before,
                    cr_usage = summed_usage (history # (case prefix of None \<Rightarrow> [] | Some p \<Rightarrow> [p]))\<rparr>;
          entry = compaction_entry_for (cr_summary result) first_kept tokens_before (cr_usage result)
            (cw_details_json w details) (cx_custom_instructions options)
            (map_option fst (cx_harness_digest options)) (map_option snd (cx_harness_digest options))
      in case append_compaction env entry s of
           (Inl e, s') \<Rightarrow> (Inl (CeStore e), s')
         | (Inr _, s') \<Rightarrow> (Inr (CoRan result entry), s'))"

definition execute_compaction ::
    "session_env \<Rightarrow> compaction_world \<Rightarrow> compact_options \<Rightarrow> session_manager
     \<Rightarrow> string list \<times> (compact_error + compact_outcome) \<times> session_manager" where
  "execute_compaction env w options s =
     (let entries = sm_file_entries s in
      case prepare_compaction (cw_args_json w) entries (cst_keep_recent_tokens (cx_settings options)) of
        None \<Rightarrow> ([], Inl CePanic, s)
      | Some (Inl skip) \<Rightarrow> ([], Inr (CoSkipped (user_message_of_skip skip)), s)
      | Some (Inr prep) \<Rightarrow>
          let chosen = prep_cut prep;
              first_row = cp_first_kept_entry_index chosen
          in case (entry_slice entries (prep_boundary_start prep) (history_end chosen),
                   entry_slice entries (history_end chosen) first_row) of
               (Some history_rows, Some prefix_rows) \<Rightarrow>
                 let history = List.map_filter message_from_entry history_rows;
                     turn_prefix = List.map_filter message_from_entry prefix_rows;
                     tokens_before = cte_tokens (estimate_context_tokens (cw_args_json w)
                       (sc_messages (build_session_context entries (sm_leaf_id s))));
                     details = details_for (cw_parse_details w) (history @ turn_prefix) entries
                       (previous_compaction_index entries first_row)
                 in if cx_aborted_before options then ([], Inl CeAborted, s)
                    else
                      let (deltas, history_slice) = history_call w options prep history turn_prefix;
                          prefix_slice = turn_prefix_call w options prep turn_prefix
                      in (case history_slice of
                            Inl e \<Rightarrow> (deltas, Inl (CeSummarizer e), s)
                          | Inr h \<Rightarrow>
                         (case prefix_slice of
                            Inl e \<Rightarrow> (deltas, Inl (CeSummarizer e), s)
                          | Inr p \<Rightarrow>
                              if cx_aborted_after options then (deltas, Inl CeAborted, s)
                              else
                                (deltas @ (if cx_summary_delta options \<and> delta_remainder p details \<noteq> []
                                           then [delta_remainder p details] else []),
                                 commit_compaction env w options (first_kept_id entries chosen) tokens_before
                                   details h p s)))
             | _ \<Rightarrow> ([], Inl CePanic, s))"

text \<open>\<open>rebuilt_context_after_compaction\<close>\<close>

definition rebuilt_context_after_compaction :: "session_manager \<Rightarrow> session_message list" where
  "rebuilt_context_after_compaction s = sc_messages (active_context s)"

section \<open>The outcomes of a run\<close>

lemma prepare_given:
  assumes "prepare_compaction aj es keep = Some (Inr prep)"
  shows "\<exists>history_rows prefix_rows.
       entry_slice es (prep_boundary_start prep) (history_end (prep_cut prep)) = Some history_rows
     \<and> entry_slice es (history_end (prep_cut prep)) (cp_first_kept_entry_index (prep_cut prep)) = Some prefix_rows"
    and "prep_cut prep = find_cut_point aj es (prep_boundary_start prep) (length es) keep"
  using assms
  by (auto simp: prepare_compaction_def Let_def case_prod_unfold split: if_splits option.splits)

lemma execute_cases:
  assumes "execute_compaction env w options s = (deltas, r, s')"
  obtains (skipped) skip where "prepare_compaction (cw_args_json w) (sm_file_entries s)
        (cst_keep_recent_tokens (cx_settings options)) = Some (Inl skip)"
      and "deltas = []" and "r = Inr (CoSkipped (user_message_of_skip skip))" and "s' = s"
  | (stopped) e where "r = Inl e" and "e \<noteq> CePanic" and "s' = s"
  | (committed) prep history prefix history_deltas h p details tokens where
      "prepare_compaction (cw_args_json w) (sm_file_entries s)
        (cst_keep_recent_tokens (cx_settings options)) = Some (Inr prep)"
      and "\<not> cx_aborted_before options" and "\<not> cx_aborted_after options"
      and "history_call w options prep history prefix = (history_deltas, Inr h)"
      and "deltas = history_deltas
        @ (if cx_summary_delta options \<and> delta_remainder p details \<noteq> [] then [delta_remainder p details] else [])"
      and "commit_compaction env w options (first_kept_id (sm_file_entries s) (prep_cut prep)) tokens details h p s
        = (r, s')"
proof -
  let ?prepare = "prepare_compaction (cw_args_json w) (sm_file_entries s)
        (cst_keep_recent_tokens (cx_settings options))"
  obtain q where q: "?prepare = Some q" using prepare_outcome by blast
  show ?thesis
  proof (cases q)
    case (Inl skip)
    with q assms show ?thesis by (intro skipped) (auto simp: execute_compaction_def)
  next
    case (Inr prep)
    from prepare_given(1)[OF q[unfolded Inr]] obtain hr pr where rows:
      "entry_slice (sm_file_entries s) (prep_boundary_start prep) (history_end (prep_cut prep)) = Some hr"
      "entry_slice (sm_file_entries s) (history_end (prep_cut prep)) (cp_first_kept_entry_index (prep_cut prep)) = Some pr"
      by blast
    define history where "history = List.map_filter message_from_entry hr"
    define prefix where "prefix = List.map_filter message_from_entry pr"
    obtain hd hs where hc: "history_call w options prep history prefix = (hd, hs)" by fastforce
    have run: "execute_compaction env w options s =
      (if cx_aborted_before options then ([], Inl CeAborted, s)
       else case hs of
              Inl e \<Rightarrow> (hd, Inl (CeSummarizer e), s)
            | Inr h \<Rightarrow>
           (case turn_prefix_call w options prep prefix of
              Inl e \<Rightarrow> (hd, Inl (CeSummarizer e), s)
            | Inr p \<Rightarrow>
                if cx_aborted_after options then (hd, Inl CeAborted, s)
                else
                  let details = details_for (cw_parse_details w) (history @ prefix) (sm_file_entries s)
                       (previous_compaction_index (sm_file_entries s) (cp_first_kept_entry_index (prep_cut prep)))
                  in (hd @ (if cx_summary_delta options \<and> delta_remainder p details \<noteq> []
                           then [delta_remainder p details] else []),
                      commit_compaction env w options (first_kept_id (sm_file_entries s) (prep_cut prep))
                       (cte_tokens (estimate_context_tokens (cw_args_json w)
                       (sc_messages (build_session_context (sm_file_entries s) (sm_leaf_id s)))))
                       details h p s)))"
      using q Inr rows hc
      by (simp add: execute_compaction_def Let_def history_def prefix_def split: sum.splits)
    show ?thesis
    proof (cases "cx_aborted_before options")
      case True
      with run assms show ?thesis by (intro stopped[of CeAborted]) auto
    next
      case live: False
      show ?thesis
      proof (cases hs)
        case (Inl e)
        with live run assms show ?thesis by (intro stopped[of "CeSummarizer e"]) auto
      next
        case h: (Inr h)
        show ?thesis
        proof (cases "turn_prefix_call w options prep prefix")
          case (Inl e)
          with live h run assms show ?thesis by (intro stopped[of "CeSummarizer e"]) auto
        next
          case p: (Inr p)
          show ?thesis
          proof (cases "cx_aborted_after options")
            case True
            with live h p run assms show ?thesis by (intro stopped[of CeAborted]) auto
          next
            case False
            with live h p run assms q Inr hc show ?thesis
              by (intro committed) (auto simp: Let_def)
          qed
        qed
      qed
    qed
  qed
qed

lemma join_with_length: "length (join_with [c] xs) = length (concat xs) + (length xs - 1)"
  by (induction "[c]" xs rule: join_with.induct) simp_all

lemma commit_outcome:
  assumes "manager_ok env s" and "commit_compaction env w options first_kept tokens details h p s = (r, s')"
  shows "case r of
       Inl e \<Rightarrow> (\<exists>e'. e = CeStore e') \<and> sm_file_entries s' = sm_file_entries s \<and> sm_by_id s' = sm_by_id s
          \<and> sm_leaf_id s' = sm_leaf_id s \<and> active_branch s' = active_branch s
     | Inr (CoSkipped _) \<Rightarrow> False
     | Inr (CoRan result entry) \<Rightarrow>
          cr_summary result = committed_summary h p details \<and> co_summary entry = cr_summary result
          \<and> co_first_kept_entry_id entry = first_kept
          \<and> manager_ok env s'
          \<and> (\<exists>x b. eb_id b = Some x \<and> eb_parent_id b = sm_leaf_id s \<and> sm_leaf_id s' = Some x
              \<and> sm_file_entries s' = sm_file_entries s @ [FeCompaction entry b]
              \<and> active_branch s' = active_branch s @ [length (sm_file_entries s)])"
proof -
  define entry where "entry = compaction_entry_for (committed_summary h p details) first_kept tokens
      (summed_usage (h # (case p of None \<Rightarrow> [] | Some p \<Rightarrow> [p])))
      (cw_details_json w details) (cx_custom_instructions options)
      (map_option fst (cx_harness_digest options)) (map_option snd (cx_harness_digest options))"
  obtain a t where append: "append_compaction env entry s = (a, t)" by fastforce
  have "append_row env (FeCompaction entry) s = (a, t)" using append by (simp add: append_compaction_def)
  note outcome = append_row_outcome[OF assms(1) _ this]
  have keeps: "manager_ok env t"
    using perform_keeps[OF assms(1), of "OpCompaction entry"] append by simp
  show ?thesis
  proof (cases a)
    case (Inl e)
    then have "r = Inl (CeStore e)" "s' = t"
      using assms(2) append by (simp_all add: commit_compaction_def entry_def Let_def)
    with outcome Inl show ?thesis by simp
  next
    case (Inr x)
    then have "\<exists>result. r = Inr (CoRan result entry) \<and> cr_summary result = committed_summary h p details" "s' = t"
      using assms(2) append by (auto simp: commit_compaction_def entry_def Let_def)
    moreover have "co_summary entry = committed_summary h p details" "co_first_kept_entry_id entry = first_kept"
      by (simp_all add: entry_def compaction_entry_for_def)
    ultimately show ?thesis using outcome Inr keeps by auto
  qed
qed


lemma execute_ran:
  assumes "manager_ok env s" and "execute_compaction env w options s = (deltas, Inr (CoRan result entry), s')"
    and "prepare_compaction (cw_args_json w) (sm_file_entries s) (cst_keep_recent_tokens (cx_settings options))
      = Some (Inr prep)"
  shows "co_summary entry = cr_summary result
     \<and> co_first_kept_entry_id entry = first_kept_id (sm_file_entries s) (prep_cut prep) \<and> manager_ok env s'
     \<and> (\<exists>x b. eb_id b = Some x \<and> sm_leaf_id s' = Some x
          \<and> sm_file_entries s' = sm_file_entries s @ [FeCompaction entry b]
          \<and> active_branch s' = active_branch s @ [length (sm_file_entries s)])"
  using assms(2)
proof (cases rule: execute_cases)
  case (committed prep' history prefix hd h p details tokens)
  with assms(3) commit_outcome[OF assms(1) committed(6)] show ?thesis by auto
qed simp_all

text \<open>
  C7. After a compaction whose cut lies on the active branch the model sees the summary that was
  reported and then exactly the rows of the branch from the cut on, in order.
\<close>

theorem compaction_keeps_the_tail:
  assumes "manager_ok env s" and "execute_compaction env w options s = (deltas, Inr (CoRan result entry), s')"
    and "prepare_compaction (cw_args_json w) (sm_file_entries s) (cst_keep_recent_tokens (cx_settings options))
      = Some (Inr prep)"
    and "active_branch s = before @ cp_first_kept_entry_index (prep_cut prep) # kept"
    and "first_kept_id (sm_file_entries s) (prep_cut prep) \<noteq> []" and "sm_leaf_id s' \<noteq> Some []"
  shows "\<exists>summary keep. rebuilt_context_after_compaction s' =
       SmCompactionSummary summary
       # concat (map (\<lambda>j. context_message keep (sm_file_entries s ! j))
                  (cp_first_kept_entry_index (prep_cut prep) # kept))
     \<and> cs_summary summary = cr_summary result"
proof -
  let ?es = "sm_file_entries s" and ?c = "cp_first_kept_entry_index (prep_cut prep)"
  from execute_ran[OF assms(1,2,3)] obtain b x where
    entry: "co_summary entry = cr_summary result" "co_first_kept_entry_id entry = first_kept_id ?es (prep_cut prep)"
    and s': "manager_ok env s'" "eb_id b = Some x" "sm_leaf_id s' = Some x"
      "sm_file_entries s' = ?es @ [FeCompaction entry b]" "active_branch s' = active_branch s @ [length ?es]"
    by blast
  let ?es' = "?es @ [FeCompaction entry b]"
  have rows: "rows_ok ?es'" using manager_rows_ok[OF s'(1)] s'(4) by simp
  have x: "x \<noteq> []" "row_id (?es' ! length ?es) = Some x"
    using assms(6) s'(2,3) by (auto simp: row_id_def entry_id_def)
  have "sm_by_id s' x = Some (length ?es)"
    using s'(1,4) x(2) by (simp add: manager_ok_def index_ok_def)
  then have path: "context_path ?es' (length ?es) = (before @ ?c # kept) @ length ?es # []"
    using active_branch_path[OF s'(1,3)] s'(4,5) assms(4) by simp
  have sorted: "sorted_wrt (<) (context_path ?es' (length ?es))"
    using context_path_sorted_rows[OF rows, of "length ?es"] by simp
  have c: "?c < length ?es" "entry_id (?es ! ?c) = Some (first_kept_id ?es (prep_cut prep))"
    using assms(5) by (auto simp: first_kept_id_def split: if_splits option.splits)
  have "\<not> is_header (?es' ! ?c)"
    using context_path_rows[OF rows, of "length ?es" ?c] path c(1) by auto
  then have cut: "?c < length ?es'" "row_id (?es' ! ?c) = Some (co_first_kept_entry_id entry)"
    using c entry(2) by (simp_all add: row_id_def nth_append)
  have "before_first_kept ?es' (co_first_kept_entry_id entry) j" if "j \<in> set before" for j
    using path_before_first_kept[OF rows _ _ cut, of "length ?es" j] sorted that assms(5) entry(2)
    by (auto simp: path sorted_wrt_append)
  moreover have "\<not> before_first_kept ?es' (co_first_kept_entry_id entry) ?c"
    using c entry(2) by (simp add: before_first_kept_def nth_append)
  ultimately have drop: "dropWhile (before_first_kept ?es' (co_first_kept_entry_id entry)) (before @ ?c # kept)
      = ?c # kept" by (simp add: dropWhile_append2)
  have bound: "j < length ?es" if "j \<in> set (?c # kept)" for j
    using sorted that by (auto simp: path sorted_wrt_append)
  have same: "map (\<lambda>j. context_message keep (?es' ! j)) (?c # kept)
      = map (\<lambda>j. context_message keep (?es ! j)) (?c # kept)" for keep
    using bound by (intro map_cong refl) (simp add: nth_append)
  define keep where "keep = keep_digest ?es' (context_path ?es' (length ?es)) (Some (length ?es))"
  obtain summary where summary: "cs_summary summary = cr_summary result"
    "sc_messages (build_session_context ?es' (Some x))
       = SmCompactionSummary summary # concat (map (\<lambda>j. context_message keep (?es' ! j)) (?c # kept))"
  proof
    show "sc_messages (build_session_context ?es' (Some x)) = SmCompactionSummary (compaction_summary entry
          (?es' ! length ?es) (summary_yields_snapshot ?es' (context_path ?es' (length ?es)) (Some (length ?es)))
          (length (concat (map (\<lambda>j. context_message keep (?es' ! j)) (?c # kept)))))
        # concat (map (\<lambda>j. context_message keep (?es' ! j)) (?c # kept))"
      using compacted_messages[OF rows _ x(2,1) path]
      by (simp add: Let_def drop keep_def[symmetric] del: list.map(2))
  qed (simp add: compaction_summary_def Let_def entry(1))
  have "rebuilt_context_after_compaction s'
      = SmCompactionSummary summary # concat (map (\<lambda>j. context_message keep (?es ! j)) (?c # kept))"
    unfolding rebuilt_context_after_compaction_def active_context_def s'(3,4) summary(2) same ..
  with summary(1) show ?thesis by blast
qed

text \<open>
  What the live stream shows is not always what is committed. If the model streams exactly the texts
  of its blocks, the deltas put together are the blocks put together, with the split prefix and the
  file lists behind them; the committed summary has the same parts but a line feed between two blocks,
  so it is longer than the stream by one for every block of the history summary after the first.
\<close>

lemma live_summary_lacks_separators:
  assumes "execute_compaction env w options s = (deltas, Inr (CoRan result entry), s')"
    and "cx_summary_delta options" and "manager_ok env s"
    and "\<And>request n ds a. cw_reply w request n = Inr (ds, a)
      \<Longrightarrow> concat ds = concat (List.map_filter assistant_block_text (aia_content a))"
  shows "\<exists>texts rest. concat deltas = concat texts @ rest \<and> cr_summary result = join_with [line_feed] texts @ rest
     \<and> length (cr_summary result) = length (concat deltas) + (length texts - 1)
     \<and> (texts = [no_prior_history] \<or> (\<exists>request n ds a. cw_reply w request n = Inr (ds, a)
          \<and> texts = List.map_filter assistant_block_text (aia_content a)))"
  using assms(1)
proof (cases rule: execute_cases)
  case (committed prep history prefix hd h p details tokens)
  have summary: "cr_summary result = committed_summary h p details"
    using commit_outcome[OF assms(3) committed(6)] by simp
  have rest: "committed_summary h p details = ss_summary h @ delta_remainder p details"
    by (simp add: committed_summary_def delta_remainder_def split_summary_def split: option.splits)
  have "\<exists>texts. concat hd = concat texts \<and> ss_summary h = join_with [line_feed] texts
     \<and> (texts = [no_prior_history] \<or> (\<exists>request n ds a. cw_reply w request n = Inr (ds, a)
          \<and> texts = List.map_filter assistant_block_text (aia_content a)))"
  proof (cases "cp_is_split_turn (prep_cut prep) \<and> prefix \<noteq> [] \<and> history = []")
    case True
    then have "hd = [no_prior_history]" "ss_summary h = no_prior_history"
      using committed(4) assms(2) by (auto simp: history_call_def)
    then show ?thesis by (intro exI[of _ "[no_prior_history]"]) simp
  next
    case False
    then obtain request n where "complete_summary_call w n request True ''Summarization failed'' = (hd, Inr h)"
      using committed(4) assms(2) by (auto simp: history_call_def)
    then obtain ds a where a: "cw_reply w (filter is_wire_message request) n = Inr (ds, a)"
      "hd = ds" "ss_summary h = summary_text a"
      by (auto simp: complete_summary_call_def split: sum.splits prod.splits if_splits)
    then show ?thesis
      using assms(4)[OF a(1)] by (intro exI[of _ "List.map_filter assistant_block_text (aia_content a)"])
        (auto simp: summary_text_def)
  qed
  then obtain texts where t: "concat hd = concat texts" "ss_summary h = join_with [line_feed] texts"
    "texts = [no_prior_history] \<or> (\<exists>request n ds a. cw_reply w request n = Inr (ds, a)
          \<and> texts = List.map_filter assistant_block_text (aia_content a))" by blast
  have deltas: "concat deltas = concat texts @ delta_remainder p details"
    using committed(5) assms(2) t(1) by simp
  have "length (join_with [line_feed] texts) = length (concat texts) + (length texts - 1)"
    by (rule join_with_length)
  then show ?thesis
    using summary rest t(2,3) deltas by (intro exI[of _ texts] exI[of _ "delta_remainder p details"]) simp
qed simp_all

end
