(* ===== verification/CompactionInstances.thy ===== *)
theory CompactionInstances
  imports CompactionRun SessionFaults
begin

text \<open>Concrete conversations and texts at which the theorems on compaction apply.\<close>

definition demo_args :: "json_map \<Rightarrow> string" where
  "demo_args _ = []"

text \<open>Two turns with a session info row between them.\<close>

definition demo_turns :: "file_entry list" where
  "demo_turns =
     [demo_header, demo_user ''a'' None ''x'', demo_assistant ''b'' (Some ''a''),
      FeSessionInfo (Some ''n'') (demo_base ''c'' (Some ''b'')), demo_user ''d'' (Some ''c'') ''y'']"

text \<open>Two replies to the row \<open>a\<close>, the first of them abandoned.\<close>

definition demo_siblings :: "file_entry list" where
  "demo_siblings =
     [demo_header, demo_user ''a'' None ''x'', demo_user ''b'' (Some ''a'') ''y'', demo_user ''c'' (Some ''a'') ''z'']"

lemma demo_cuts:
  "length demo_turns = 5" "find_valid_cut_points demo_turns 1 5 = [1, 2, 4]"
  "find_cut_point demo_args demo_turns 1 5 1 =
     \<lparr>cp_first_kept_entry_index = 3, cp_turn_start_index = Some 1, cp_is_split_turn = True\<rparr>"
  "length demo_siblings = 4"
  "find_cut_point demo_args demo_siblings 1 4 2 =
     \<lparr>cp_first_kept_entry_index = 2, cp_turn_start_index = None, cp_is_split_turn = False\<rparr>"
proof -
  show len: "length demo_turns = 5" "length demo_siblings = 4" by code_simp+
  show points: "find_valid_cut_points demo_turns 1 5 = [1, 2, 4]" by code_simp
  have points': "find_valid_cut_points demo_siblings 1 4 = [1, 2, 3]" by code_simp
  have one: "chars_count ''y'' = 1" "chars_count ''z'' = 1" by code_simp+
  have big: "(2 :: nat) \<le> u64_max" by (simp add: u64_max_def)
  have rows: "demo_turns ! 4 = demo_user ''d'' (Some ''c'') ''y''" "demo_siblings ! 3 = demo_user ''c'' (Some ''a'') ''z''"
    "demo_siblings ! 2 = demo_user ''b'' (Some ''a'') ''y''" by (simp_all add: demo_turns_def demo_siblings_def)
  have tokens: "estimate_tokens demo_args (SmUser \<lparr>aiu_content = UcText ''y'', aiu_timestamp = 0, aiu_rest = []\<rparr>) = 1"
    "estimate_tokens demo_args (SmUser \<lparr>aiu_content = UcText ''z'', aiu_timestamp = 0, aiu_rest = []\<rparr>) = 1"
    using one by (simp_all add: div4_def)
  have downs: "rev [1..<5] = [4, 3, 2, 1 :: nat]" "rev [1..<4] = [3, 2, 1 :: nat]" by code_simp+
  have scan: "cut_scan demo_args demo_turns 1 0 (rev [1..<5]) = Some 4"
    "cut_scan demo_args demo_siblings 2 0 (rev [1..<4]) = Some 2"
    unfolding downs
    using big by (simp_all add: rows demo_user_def tokens saturating_add_def Let_def min_def del: estimate_tokens.simps)
  have walk: "walk_back demo_turns 1 4 = 3" "walk_back demo_siblings 1 2 = 2" by code_simp+
  have turn: "\<not> is_user_row (demo_turns ! 3)" "is_user_row (demo_siblings ! 2)"
    "find_turn_start_index demo_turns 3 1 = Some 1" by code_simp+
  show "find_cut_point demo_args demo_turns 1 5 1 =
     \<lparr>cp_first_kept_entry_index = 3, cp_turn_start_index = Some 1, cp_is_split_turn = True\<rparr>"
    using scan(1) walk(1) turn by (simp add: find_cut_point_def Let_def points len del: One_nat_def)
  show "find_cut_point demo_args demo_siblings 1 4 2 =
     \<lparr>cp_first_kept_entry_index = 2, cp_turn_start_index = None, cp_is_split_turn = False\<rparr>"
    using scan(2) walk(2) turn by (simp add: find_cut_point_def Let_def points' len del: One_nat_def)
qed


lemma settings_row_splits_turn_witness:
  "cp_is_split_turn (find_cut_point demo_args demo_turns 1 5 1) \<and> history_end (find_cut_point demo_args demo_turns 1 5 1) = 1"
proof (rule settings_row_splits_turn[where es = demo_turns and p = 4 and aj = demo_args and keep = 1 and start_index = 1])
  show "find_cut_point demo_args demo_turns 1 5 1 = find_cut_point demo_args demo_turns 1 (length demo_turns) 1"
    by (simp add: demo_cuts(1))
  have c: "cp_first_kept_entry_index (find_cut_point demo_args demo_turns 1 5 1) = 3" by (simp only: demo_cuts) simp
  show "cp_first_kept_entry_index (find_cut_point demo_args demo_turns 1 5 1) < 4"
    "1 < cp_first_kept_entry_index (find_cut_point demo_args demo_turns 1 5 1)" by (simp_all only: c)
  show "4 < length demo_turns" "is_user_row (demo_turns ! 4)" "starts_turn (demo_turns ! 1)" by code_simp+
  have "\<not> cut_boundary (demo_turns ! 3) \<and> \<not> starts_turn (demo_turns ! 3)" "\<not> starts_turn (demo_turns ! 2)"
    by code_simp+
  then show "\<forall>j. cp_first_kept_entry_index (find_cut_point demo_args demo_turns 1 5 1) \<le> j \<longrightarrow> j < 4
      \<longrightarrow> \<not> cut_boundary (demo_turns ! j) \<and> \<not> starts_turn (demo_turns ! j)"
    "\<forall>j. 1 < j \<longrightarrow> j < cp_first_kept_entry_index (find_cut_point demo_args demo_turns 1 5 1)
      \<longrightarrow> \<not> starts_turn (demo_turns ! j)"
    unfolding c by (auto simp: less_Suc_eq_le numeral_eq_Suc dest!: le_antisym)
qed simp

lemma cut_off_the_branch_keeps_nothing_witness:
  "\<exists>p b summary. first_kept_id demo_siblings (find_cut_point demo_args demo_siblings 1 4 2) = ''b''
     \<and> sc_messages (build_session_context (demo_siblings @ [FeCompaction p b]) (Some ''k'')) = [SmCompactionSummary summary]
     \<and> cs_retained_message_count summary = Some 0"
proof -
  define p where "p = \<lparr>co_summary = ''sum'', co_first_kept_entry_id = ''b'', co_tokens_before = 9,
                   co_details = None, co_from_hook = None, co_custom_instructions = None, co_usage = None,
                   co_harness_digest = None, co_harness_state_fingerprint = None\<rparr>"
  define b where "b = demo_base ''k'' (Some ''c'')"
  let ?chosen = "find_cut_point demo_args demo_siblings 1 4 2"
  let ?es = "demo_siblings @ [FeCompaction p b]"
  have chosen: "?chosen = find_cut_point demo_args demo_siblings (first_candidate demo_siblings) (length demo_siblings) 2"
    by (simp add: demo_cuts(4)) (simp add: demo_siblings_def first_candidate_def demo_header_def)
  have "row_ids ?es = [''a'', ''b'', ''c'', ''k'']" "context_path ?es 4 = [1, 3] @ [4]"
    unfolding p_def b_def by code_simp+
  moreover have "\<forall>i < length ?es. is_header (?es ! i) \<longrightarrow> i = 0" unfolding p_def b_def by code_simp
  moreover have "\<forall>i < length ?es. case entry_parent_id (?es ! i) of
      None \<Rightarrow> True | Some x \<Rightarrow> \<exists>j < i. row_id (?es ! j) = Some x" unfolding p_def b_def by code_simp
  ultimately have rows: "rows_ok ?es" "context_path ?es (length demo_siblings) = [1, 3] @ [length demo_siblings]"
    unfolding rows_ok_def header_front_def by (simp_all add: demo_cuts(4))
  have "entry_id (demo_siblings ! 2) = Some ''b''" by code_simp
  then have cut: "cp_first_kept_entry_index ?chosen = 2" "first_kept_id demo_siblings ?chosen = ''b''"
    by (simp_all add: first_kept_id_def demo_cuts del: One_nat_def)
  have "\<exists>summary. sc_messages (build_session_context ?es (Some ''k'')) = [SmCompactionSummary summary]
      \<and> cs_retained_message_count summary = Some 0"
    by (rule cut_off_the_branch_keeps_nothing[OF chosen _ _ rows(1) _ _ rows(2)])
      (simp_all add: cut p_def b_def demo_base_def del: One_nat_def)
  with cut(2) show ?thesis by blast
qed

text \<open>Texts for the summary.\<close>

definition demo_ops :: file_operations where
  "demo_ops = \<lparr>fo_read = [''a'', ''b''], fo_written = [''b''], fo_edited = []\<rparr>"

lemma file_lists_bounded_witness:
  "compute_file_lists demo_ops = ([''a''], [''b'']) \<and> file_list_chars [''a''] [''b''] \<le> 6000"
proof -
  have "compute_file_lists demo_ops = ([''a''], [''b''])" by code_simp
  with file_lists_bounded[OF this] show ?thesis by blast
qed

lemma truncated_result_fits_witness:
  "truncate_for_summary ''ok'' tool_result_max_chars = ''ok''"
proof -
  have "split_chars ''ok'' = [''o'', ''k'']" by code_simp
  then show ?thesis using truncated_result_fits[of "''ok''"] by (simp add: u64_max_def)
qed

lemma appended_lists_are_stripped_witness:
  "strip_file_list_blocks (''sum'' @ format_file_operations [''a''] [''b'']) = ''sum''"
proof -
  have "find_str (open_tag ''read-files'') ''sum'' = None" "find_str (open_tag ''modified-files'') ''sum'' = None"
    by code_simp+
  then have "untagged ''sum''" unfolding untagged_def list_tag_def by blast
  moreover have "find_str (close_tag ''read-files'') ''a'' = None"
    "find_str (close_tag ''modified-files'') ''b'' = None" "trim_end ''sum'' = ''sum''"
    by code_simp+
  ultimately show ?thesis using appended_lists_are_stripped[of "''sum''" "[''a'']" "[''b'']"] by simp
qed

section \<open>A run\<close>

text \<open>Three user rows, of which the last is kept; the model streams and answers one text.\<close>

definition demo_linear :: "file_entry list" where
  "demo_linear =
     [demo_header, demo_user ''a'' None ''x'', demo_user ''b'' (Some ''a'') ''y'', demo_user ''c'' (Some ''b'') ''z'']"

definition demo_run_manager :: session_manager where
  "demo_run_manager = (demo_manager False [])
     \<lparr>sm_persist := False, sm_file_entries := demo_linear, sm_by_id := [''a'' \<mapsto> 1, ''b'' \<mapsto> 2, ''c'' \<mapsto> 3],
      sm_leaf_id := Some ''c''\<rparr>"

definition demo_answer :: ai_assistant_message where
  "demo_answer = demo_assistant_message
     \<lparr>aia_content := [AbText \<lparr>ait_text = ''sum'', ait_text_signature = None, ait_rest = []\<rparr>]\<rparr>"

definition demo_compaction_world :: compaction_world where
  "demo_compaction_world =
     \<lparr>cw_args_json = demo_args, cw_show_json = (\<lambda>_. []), cw_parse_details = (\<lambda>_. None),
      cw_details_json = (\<lambda>_. JNull), cw_reply = (\<lambda>_ _. Inr ([''su'', ''m''], demo_answer))\<rparr>"

definition demo_compact_options :: compact_options where
  "demo_compact_options =
     \<lparr>cx_settings = \<lparr>cst_enabled = True, cst_reserve_tokens = 16384, cst_keep_recent_tokens = 1\<rparr>,
      cx_custom_instructions = None, cx_aborted_before = False, cx_aborted_after = False,
      cx_harness_digest = None, cx_summary_delta = True\<rparr>"

definition demo_preparation :: compaction_preparation where
  "demo_preparation =
     \<lparr>prep_cut = \<lparr>cp_first_kept_entry_index = 3, cp_turn_start_index = None, cp_is_split_turn = False\<rparr>,
      prep_boundary_start = 1, prep_previous_summary = None, prep_recent_state_anchor = None\<rparr>"

lemma demo_linear_rows:
  "length demo_linear = 4" "map row_id demo_linear = [None, Some ''a'', Some ''b'', Some ''c'']"
  "map entry_parent_id demo_linear = [None, None, Some ''a'', Some ''b'']"
  "map is_header demo_linear = [True, False, False, False]"
  by code_simp+

lemma demo_run_manager_ok: "manager_ok demo_env demo_run_manager"
proof -
  have nths: "demo_linear ! i \<in> set demo_linear" if "i < 4" for i using that by (simp add: demo_linear_rows(1))
  have ids: "row_id (demo_linear ! i) = map row_id demo_linear ! i" if "i < 4" for i
    using that by (simp add: demo_linear_rows(1))
  have parents: "entry_parent_id (demo_linear ! i) = map entry_parent_id demo_linear ! i" if "i < 4" for i
    using that by (simp add: demo_linear_rows(1))
  have headers: "is_header (demo_linear ! i) = map is_header demo_linear ! i" if "i < 4" for i
    using that by (simp add: demo_linear_rows(1))
  have four: "i < 4 \<longleftrightarrow> i = 0 \<or> i = 1 \<or> i = 2 \<or> i = (3 :: nat)" for i by auto
  have short: "demo_uuid k \<noteq> [c]" for k c by (auto simp: demo_uuid_def dest: arg_cong[of _ _ "length"])
  have "row_id (demo_linear ! 0) = None" by code_simp
  then have first: "row_id (demo_linear ! i) = Some x \<Longrightarrow> 0 < i" for i x by (cases i) simp_all
  show ?thesis
    using demo_uuid_ok short first
    by (auto simp: manager_ok_def demo_run_manager_def demo_manager_def demo_env_def header_front_def index_ok_def
        links_ok_def leaf_ok_def ids_fresh_def demo_linear_rows ids parents headers four split: if_splits)
qed

lemma demo_prepare:
  "prepare_compaction demo_args demo_linear 1 = Some (Inr demo_preparation)"
proof -
  have anchor: "compaction_anchor demo_linear = (1, None)" "\<not> is_compaction (last demo_linear)"
    "extract_recent_state_anchor demo_linear 3 4 = Some None"
    "find_valid_cut_points demo_linear 1 4 = [1, 2, 3]" "walk_back demo_linear 1 3 = 3" "is_user_row (demo_linear ! 3)"
    "demo_linear \<noteq> []"
    by code_simp+
  have rows: "List.map_filter message_from_entry [demo_linear ! 1, demo_linear ! 2] \<noteq> []"
    "entry_slice demo_linear 1 3 = Some [demo_linear ! 1, demo_linear ! 2]" "entry_slice demo_linear 3 3 = Some []"
    by code_simp+
  have one: "chars_count ''z'' = 1" by code_simp
  have tokens: "estimate_tokens demo_args (SmUser \<lparr>aiu_content = UcText ''z'', aiu_timestamp = 0, aiu_rest = []\<rparr>) = 1"
    using one by (simp add: div4_def)
  have row: "demo_linear ! 3 = demo_user ''c'' (Some ''b'') ''z''" by (simp add: demo_linear_def)
  have downs: "rev [1..<4] = [3, 2, 1 :: nat]" by code_simp
  have scan: "cut_scan demo_args demo_linear 1 0 (rev [1..<4]) = Some 3"
    unfolding downs
    by (simp add: row demo_user_def tokens saturating_add_def u64_max_def Let_def del: estimate_tokens.simps)
  have "find_cut_point demo_args demo_linear 1 4 1
      = \<lparr>cp_first_kept_entry_index = 3, cp_turn_start_index = None, cp_is_split_turn = False\<rparr>"
    using scan anchor by (simp add: find_cut_point_def Let_def demo_linear_rows(1) del: One_nat_def)
  then show ?thesis
    using anchor rows by (simp add: prepare_compaction_def demo_linear_rows(1) Let_def history_end_def demo_preparation_def
        del: One_nat_def)
qed

lemma append_row_in_memory:
  assumes "\<not> sm_persist s" and "next_base env s = (b, s1)" and "eb_id b = Some x"
  shows "\<exists>s'. append_row env (FeCompaction p) s = (Inr x, s') \<and> sm_leaf_id s' = Some x"
proof -
  have "\<not> sm_persist s1" using assms(1,2) by (auto simp: next_base_def split: prod.splits)
  then show ?thesis
    using assms(2,3)
    by (auto simp: append_row_def append_entry_def persist_entry_def mon_simps Let_def base_id_def
        index_new_row_def entry_id_def split: option.splits)
qed

lemma demo_run:
  "\<exists>deltas result entry s'. execute_compaction demo_env demo_compaction_world demo_compact_options demo_run_manager
      = (deltas, Inr (CoRan result entry), s') \<and> sm_leaf_id s' \<noteq> Some []"
proof -
  obtain hd where call: "history_call demo_compaction_world demo_compact_options demo_preparation history prefix
      = (hd, Inr \<lparr>ss_summary = ''sum'', ss_usage = Some usage_zero\<rparr>)" for history prefix
    by (simp add: history_call_def demo_preparation_def complete_summary_call_def demo_compaction_world_def
        demo_answer_def demo_assistant_message_def summary_text_def List.map_filter_def)
  have prefix: "turn_prefix_call demo_compaction_world demo_compact_options demo_preparation prefix = Inr None" for prefix
    by (simp add: turn_prefix_call_def demo_preparation_def)
  obtain hr pr where rows: "entry_slice demo_linear 1 3 = Some hr" "entry_slice demo_linear 3 3 = Some pr"
    by (simp add: entry_slice_def demo_linear_rows(1))
  have commit: "\<exists>result entry s'. commit_compaction demo_env demo_compaction_world demo_compact_options
      first_kept tokens details h p demo_run_manager = (Inr (CoRan result entry), s') \<and> sm_leaf_id s' = Some demo_drawn"
    for first_kept tokens details h p
  proof -
    have "generate_id demo_uuid (\<lambda>x. [''a'' \<mapsto> (1 :: nat), ''b'' \<mapsto> 2, ''c'' \<mapsto> 3] x \<noteq> None) 0 = (demo_drawn, 1)"
      by code_simp
    then obtain b s1 where b: "next_base demo_env demo_run_manager = (b, s1)" "eb_id b = Some demo_drawn"
      by (simp add: next_base_def demo_env_def demo_run_manager_def demo_manager_def)
    have "\<not> sm_persist demo_run_manager" by (simp add: demo_run_manager_def)
    note append = append_row_in_memory[OF this b]
    show ?thesis
      by (simp add: commit_compaction_def append_compaction_def Let_def)
        (use append in \<open>metis (mono_tags, lifting) old.sum.simps(6) prod.case\<close>)
  qed
  have world: "cw_args_json demo_compaction_world = demo_args" "sm_file_entries demo_run_manager = demo_linear"
    "cst_keep_recent_tokens (cx_settings demo_compact_options) = 1" "cx_summary_delta demo_compact_options"
    "\<not> cx_aborted_before demo_compact_options" "\<not> cx_aborted_after demo_compact_options"
    by (simp_all add: demo_compaction_world_def demo_run_manager_def demo_compact_options_def)
  have prep: "prep_boundary_start demo_preparation = 1" "history_end (prep_cut demo_preparation) = 3"
    "cp_first_kept_entry_index (prep_cut demo_preparation) = 3"
    by (simp_all add: demo_preparation_def history_end_def)
  have drawn: "demo_drawn \<noteq> []" by (simp add: demo_drawn_def)
  obtain deltas r s' where run: "execute_compaction demo_env demo_compaction_world demo_compact_options demo_run_manager
      = (deltas, r, s')" by (cases "execute_compaction demo_env demo_compaction_world demo_compact_options demo_run_manager")
  then have "\<exists>first_kept tokens details h p. commit_compaction demo_env demo_compaction_world demo_compact_options
      first_kept tokens details h p demo_run_manager = (r, s')"
    by (simp add: execute_compaction_def world demo_prepare prep rows call prefix Let_def del: One_nat_def) blast
  then obtain first_kept tokens details h p where "commit_compaction demo_env demo_compaction_world demo_compact_options
      first_kept tokens details h p demo_run_manager = (r, s')" by blast
  with commit[of first_kept tokens details h p] run drawn show ?thesis by auto
qed

lemma demo_run_witnesses:
  "active_branch demo_run_manager = [1, 2] @ 3 # []" "first_kept_id demo_linear (prep_cut demo_preparation) = ''c''"
proof -
  show "first_kept_id demo_linear (prep_cut demo_preparation) = ''c''" by code_simp
  have "context_path demo_linear 3 = [1, 2] @ 3 # []" by code_simp
  moreover have "sm_leaf_id demo_run_manager = Some ''c''" "sm_by_id demo_run_manager ''c'' = Some 3"
    "sm_file_entries demo_run_manager = demo_linear" by (simp_all add: demo_run_manager_def)
  ultimately show "active_branch demo_run_manager = [1, 2] @ 3 # []"
    using active_branch_path[OF demo_run_manager_ok] by simp
qed


lemma compaction_keeps_the_tail_witness:
  "\<exists>deltas result entry s' summary keep. execute_compaction demo_env demo_compaction_world demo_compact_options
      demo_run_manager = (deltas, Inr (CoRan result entry), s')
     \<and> rebuilt_context_after_compaction s' = SmCompactionSummary summary # context_message keep (demo_linear ! 3)"
proof -
  obtain deltas result entry s' where run: "execute_compaction demo_env demo_compaction_world demo_compact_options
      demo_run_manager = (deltas, Inr (CoRan result entry), s')" "sm_leaf_id s' \<noteq> Some []" using demo_run by blast
  have rows: "sm_file_entries demo_run_manager = demo_linear" by (simp add: demo_run_manager_def)
  have prepare: "prepare_compaction (cw_args_json demo_compaction_world) (sm_file_entries demo_run_manager)
      (cst_keep_recent_tokens (cx_settings demo_compact_options)) = Some (Inr demo_preparation)"
    using demo_prepare by (simp add: demo_compaction_world_def demo_compact_options_def rows)
  have three: "cp_first_kept_entry_index (prep_cut demo_preparation) = 3" by (simp add: demo_preparation_def)
  have "\<exists>summary keep. rebuilt_context_after_compaction s' = SmCompactionSummary summary
       # concat (map (\<lambda>j. context_message keep (sm_file_entries demo_run_manager ! j))
                  (cp_first_kept_entry_index (prep_cut demo_preparation) # []))
     \<and> cs_summary summary = cr_summary result"
    by (rule compaction_keeps_the_tail[OF demo_run_manager_ok run(1) prepare _ _ run(2), where before = "[1, 2]"])
      (simp_all add: three rows demo_run_witnesses del: One_nat_def)
  with run(1) show ?thesis by (auto simp: three rows)
qed

lemma live_summary_lacks_separators_witness:
  "\<exists>deltas result entry s' texts rest. execute_compaction demo_env demo_compaction_world demo_compact_options
      demo_run_manager = (deltas, Inr (CoRan result entry), s')
     \<and> concat deltas = concat texts @ rest \<and> cr_summary result = join_with [line_feed] texts @ rest"
proof -
  obtain deltas result entry s' where run: "execute_compaction demo_env demo_compaction_world demo_compact_options
      demo_run_manager = (deltas, Inr (CoRan result entry), s')" using demo_run by blast
  have "cx_summary_delta demo_compact_options" by (simp add: demo_compact_options_def)
  moreover have "concat ds = concat (List.map_filter assistant_block_text (aia_content a))"
    if "cw_reply demo_compaction_world request n = Inr (ds, a)" for request n ds a
    using that by (auto simp: demo_compaction_world_def demo_answer_def List.map_filter_def)
  ultimately show ?thesis
    using live_summary_lacks_separators[OF run _ demo_run_manager_ok] run by blast
qed


end
