(* ===== verification/Chunked.thy ===== *)
theory Chunked
  imports Prelude
begin

text \<open>
  Incremental decoders: a decoder is fed the chunks of a stream as they arrive and returns what
  each chunk completed. The locale \<open>chunked_decoder\<close> is the contract the reader of a socket or of
  a response body relies on: where the chunks are split does not matter, as long as every split is
  one that \<open>joins\<close> allows. Its client lemmas are proved here once; the theories of the decoders
  interpret it.
\<close>

section \<open>Feeding a sequence of chunks\<close>

fun push_all ::
    "('c list \<Rightarrow> 'd \<Rightarrow> ('e + 'o list) \<times> 'd) \<Rightarrow> 'c list list \<Rightarrow> 'd \<Rightarrow> ('e + 'o list) \<times> 'd" where
  "push_all push [] d = (Inr [], d)"
| "push_all push (c # cs) d =
     (case push c d of
        (Inl e, d') \<Rightarrow> (Inl e, d')
      | (Inr xs, d') \<Rightarrow>
          (case push_all push cs d' of
             (Inl e, d'') \<Rightarrow> (Inl e, d'')
           | (Inr ys, d'') \<Rightarrow> (Inr (xs @ ys), d'')))"

text \<open>The splits of a sequence of chunks: each chunk against everything that follows it.\<close>

fun well_split :: "('c list \<Rightarrow> 'c list \<Rightarrow> bool) \<Rightarrow> 'c list list \<Rightarrow> bool" where
  "well_split joins [] = True"
| "well_split joins (c # cs) = (joins c (concat cs) \<and> well_split joins cs)"

lemma well_split_any [simp]: "well_split (\<lambda>_ _. True) cs"
  by (induction cs) simp_all

section \<open>The contract\<close>

locale chunked_decoder =
  fixes push :: "'c list \<Rightarrow> 'd \<Rightarrow> ('e + 'o list) \<times> 'd"
    and settled :: "'d \<Rightarrow> bool"
    and joins :: "'c list \<Rightarrow> 'c list \<Rightarrow> bool"
  assumes push_Nil: "settled d \<Longrightarrow> push [] d = (Inr [], d)"
    and push_settled: "settled d \<Longrightarrow> push a d = (Inr xs, d') \<Longrightarrow> settled d'"
    and push_append: "settled d \<Longrightarrow> joins a b \<Longrightarrow> push a d = (Inr xs, d') \<Longrightarrow> push b d' = (Inr ys, d'')
      \<Longrightarrow> push (a @ b) d = (Inr (xs @ ys), d'')"
    and push_append_error: "settled d \<Longrightarrow> joins a b \<Longrightarrow> push a d = (Inr xs, d') \<Longrightarrow> push b d' = (Inl e, d'')
      \<Longrightarrow> fst (push (a @ b) d) = Inl e"
    and push_error_stays: "settled d \<Longrightarrow> joins a b \<Longrightarrow> push a d = (Inl e, d') \<Longrightarrow> fst (push (a @ b) d) = Inl e"
begin

lemma push_all_concat:
  assumes "settled d" and "well_split joins cs"
  shows "case push_all push cs d of
      (Inr xs, d') \<Rightarrow> push (concat cs) d = (Inr xs, d') \<and> settled d'
    | (Inl e, _) \<Rightarrow> fst (push (concat cs) d) = Inl e"
  using assms
proof (induction cs arbitrary: d)
  case Nil
  then show ?case by (simp add: push_Nil)
next
  case (Cons c cs)
  from Cons.prems have ok: "settled d" and split: "joins c (concat cs)" "well_split joins cs" by simp_all
  obtain r d' where c: "push c d = (r, d')" by (cases "push c d")
  show ?case
  proof (cases r)
    case (Inl e)
    then show ?thesis using push_error_stays [OF ok split(1) c [unfolded Inl]] c by simp
  next
    case (Inr xs)
    note c' = c [unfolded Inr]
    obtain r' d'' where cs: "push_all push cs d' = (r', d'')" by (cases "push_all push cs d'")
    note IH = Cons.IH [OF push_settled [OF ok c'] split(2)]
    show ?thesis
    proof (cases r')
      case (Inl e)
      with IH cs obtain d3 where "push (concat cs) d' = (Inl e, d3)" by (auto simp: prod_eq_iff)
      from push_append_error [OF ok split(1) c' this] show ?thesis using c' cs Inl by simp
    next
      case (Inr ys)
      with IH cs have "push (concat cs) d' = (Inr ys, d'')" and "settled d''" by auto
      with push_append [OF ok split(1) c' this(1)] show ?thesis using c' cs Inr by simp
    qed
  qed
qed

lemma push_all_ok_iff:
  assumes "settled d" and "well_split joins cs"
  shows "push_all push cs d = (Inr xs, d') \<longleftrightarrow> push (concat cs) d = (Inr xs, d')"
  using push_all_concat [OF assms]
  by (cases "push_all push cs d") (auto split: sum.splits simp: prod_eq_iff)

lemma chunking_is_irrelevant:
  assumes "settled d" and "well_split joins cs" and "well_split joins cs'" and "concat cs = concat cs'"
  shows "fst (push_all push cs d) = fst (push_all push cs' d)"
  using push_all_concat [OF assms(1,2)] push_all_concat [OF assms(1,3)] assms(4)
  by (auto split: prod.splits sum.splits)

end

end
