(* ===== verification/PrivateFraming.thy ===== *)
theory PrivateFraming
  imports Chunked "HOL-Library.Word" "HOL-Library.Sublist"
begin

unbundle bit_operations_syntax

text \<open>
  \<open>crates/pa-types/src/daemon/framing.rs\<close>: the frames of the worker socket. A frame is an
  8-byte prefix (two big-endian \<open>u32\<close> lengths), a JSON header and a binary payload. The
  encoder, the incremental decoder, the two writers and the stateful reader are modelled on
  bytes; \<open>serde_json\<close> is the pair of parameters \<open>ser\<close> and \<open>deser\<close>, the sink and the source are
  the bytes they accept and deliver.
\<close>

section \<open>Frames and limits\<close>

type_synonym byte = "8 word"

record frame_limits =
  max_header_bytes :: nat
  max_payload_bytes :: nat

definition default_private_frame_limits :: frame_limits where
  "default_private_frame_limits = \<lparr>max_header_bytes = 1024 * 1024, max_payload_bytes = 1024 * 1024 * 1024\<rparr>"

record private_frame =
  pf_header :: json
  pf_payload :: "byte list"

datatype frame_error =
    SerializeHeader
  | EmptyHeader
  | BadLength string nat
  | BadHeaderJson
  | BadRoutingHeader
  | IncompleteBytes nat
  | SinkFailed
  | SourceFailed

definition assert_frame_length :: "string \<Rightarrow> nat \<Rightarrow> nat \<Rightarrow> frame_error + unit" where
  "assert_frame_length name value maximum =
     (if maximum < value then Inl (BadLength name value) else Inr ())"

section \<open>Big-endian lengths\<close>

text \<open>\<open>u32::to_be_bytes\<close> and \<open>u32::from_be_bytes\<close>.\<close>

definition to_be_bytes :: "32 word \<Rightarrow> byte list" where
  "to_be_bytes w = [ucast (drop_bit 24 w), ucast (drop_bit 16 w), ucast (drop_bit 8 w), ucast w]"

definition from_be_bytes :: "byte \<Rightarrow> byte \<Rightarrow> byte \<Rightarrow> byte \<Rightarrow> 32 word" where
  "from_be_bytes a b c d =
     push_bit 24 (ucast a) OR push_bit 16 (ucast b) OR push_bit 8 (ucast c) OR ucast d"

section \<open>The encoder\<close>

definition frame_head :: "byte list \<Rightarrow> nat \<Rightarrow> byte list" where
  "frame_head header_bytes payload_len =
     to_be_bytes (word_of_nat (length header_bytes)) @ to_be_bytes (word_of_nat payload_len) @ header_bytes"

text \<open>The serialization of the header and the three checks that every writer makes first.\<close>

definition checked_header ::
    "(json \<Rightarrow> byte list option) \<Rightarrow> json \<Rightarrow> byte list \<Rightarrow> frame_limits \<Rightarrow> frame_error + byte list" where
  "checked_header ser header payload limits =
     (case ser header of
        None \<Rightarrow> Inl SerializeHeader
      | Some header_bytes \<Rightarrow>
          if header_bytes = [] then Inl EmptyHeader
          else case assert_frame_length ''header length'' (length header_bytes) (max_header_bytes limits) of
                 Inl e \<Rightarrow> Inl e
               | Inr _ \<Rightarrow>
                   (case assert_frame_length ''payload length'' (length payload) (max_payload_bytes limits) of
                      Inl e \<Rightarrow> Inl e
                    | Inr _ \<Rightarrow> Inr header_bytes))"

definition encode_private_frame ::
    "(json \<Rightarrow> byte list option) \<Rightarrow> json \<Rightarrow> byte list \<Rightarrow> frame_limits \<Rightarrow> frame_error + byte list" where
  "encode_private_frame ser header payload limits =
     (case checked_header ser header payload limits of
        Inl e \<Rightarrow> Inl e
      | Inr header_bytes \<Rightarrow> Inr (frame_head header_bytes (length payload) @ payload))"

section \<open>The decoder\<close>

record frame_decoder =
  fd_buffer :: "byte list"
  fd_limits :: frame_limits

definition decoder_new :: "frame_limits \<Rightarrow> frame_decoder" where
  "decoder_new limits = \<lparr>fd_buffer = [], fd_limits = limits\<rparr>"

definition buffered_bytes :: "frame_decoder \<Rightarrow> nat" where
  "buffered_bytes d = length (fd_buffer d)"

definition bytes_of :: "'a list \<Rightarrow> nat \<Rightarrow> nat \<Rightarrow> 'a list" where
  "bytes_of xs a b = take (b - a) (drop a xs)"

definition read_len :: "byte list \<Rightarrow> nat \<Rightarrow> nat" where
  "read_len bytes i = unat (from_be_bytes (bytes ! i) (bytes ! (i + 1)) (bytes ! (i + 2)) (bytes ! (i + 3)))"

text \<open>
  The \<open>while\<close> loop of \<open>push\<close>, at \<open>offset\<close> into the buffer with the frames found so far. It
  answers with the frames and the offset of the first incomplete frame.
\<close>

function decode_loop ::
    "(byte list \<Rightarrow> json option) \<Rightarrow> frame_limits \<Rightarrow> byte list \<Rightarrow> nat \<Rightarrow> private_frame list
     \<Rightarrow> frame_error + private_frame list \<times> nat" where
  "decode_loop deser limits buffer offset frames =
     (if length buffer - offset < 8 then Inr (frames, offset)
      else
        let header_len = read_len buffer offset;
            payload_len = read_len buffer (offset + 4);
            frame_len = 8 + header_len + payload_len;
            header_start = offset + 8;
            payload_start = header_start + header_len
        in case assert_frame_length ''header length'' header_len (max_header_bytes limits) of
             Inl e \<Rightarrow> Inl e
           | Inr _ \<Rightarrow>
          (case assert_frame_length ''payload length'' payload_len (max_payload_bytes limits) of
             Inl e \<Rightarrow> Inl e
           | Inr _ \<Rightarrow>
               if header_len = 0 then Inl EmptyHeader
               else if length buffer - offset < frame_len then Inr (frames, offset)
               else case deser (bytes_of buffer header_start payload_start) of
                      None \<Rightarrow> Inl BadHeaderJson
                    | Some header \<Rightarrow>
                        if \<not> is_object header then Inl BadRoutingHeader
                        else decode_loop deser limits buffer (offset + frame_len)
                               (frames @ [\<lparr>pf_header = header,
                                           pf_payload = bytes_of buffer payload_start (payload_start + payload_len)\<rparr>])))"
  by pat_completeness auto
termination
  by (relation "measure (\<lambda>(deser, limits, buffer, offset, frames). length buffer - offset)") auto

declare decode_loop.simps [simp del]

text \<open>
  On an error the chunk stays in the buffer and nothing is drained: the frames decoded earlier
  in the same push are lost.
\<close>

definition frame_push ::
    "(byte list \<Rightarrow> json option) \<Rightarrow> byte list \<Rightarrow> frame_decoder \<Rightarrow> (frame_error + private_frame list) \<times> frame_decoder" where
  "frame_push deser chunk d =
     (let buffer = fd_buffer d @ chunk
      in case decode_loop deser (fd_limits d) buffer 0 [] of
           Inl e \<Rightarrow> (Inl e, d\<lparr>fd_buffer := buffer\<rparr>)
         | Inr (frames, offset) \<Rightarrow> (Inr frames, d\<lparr>fd_buffer := drop offset buffer\<rparr>))"

definition frame_finish :: "frame_decoder \<Rightarrow> frame_error + unit" where
  "frame_finish d = (if fd_buffer d \<noteq> [] then Inl (IncompleteBytes (length (fd_buffer d))) else Inr ())"

section \<open>The writers\<close>

text \<open>
  A sink accepts a number of bytes and then fails (\<open>sk_room = None\<close>: it never does);
  \<open>write_all\<close> delivers what fits before it reports the failure.
\<close>

record byte_sink =
  sk_written :: "byte list"
  sk_room :: "nat option"
  sk_flush_fails :: bool

definition write_all :: "byte list \<Rightarrow> (byte_sink, frame_error, unit) prog" where
  "write_all bytes k =
     (case sk_room k of
        None \<Rightarrow> (Inr (), k\<lparr>sk_written := sk_written k @ bytes\<rparr>)
      | Some room \<Rightarrow>
          (if length bytes \<le> room then Inr () else Inl SinkFailed,
           k\<lparr>sk_written := sk_written k @ take room bytes, sk_room := Some (room - length bytes)\<rparr>))"

definition flush_sink :: "(byte_sink, frame_error, unit) prog" where
  "flush_sink k = (if sk_flush_fails k then Inl SinkFailed else Inr (), k)"

definition write_frame ::
    "(json \<Rightarrow> byte list option) \<Rightarrow> json \<Rightarrow> byte list \<Rightarrow> frame_limits \<Rightarrow> (byte_sink, frame_error, unit) prog" where
  "write_frame ser header payload limits =
     (case encode_private_frame ser header payload limits of
        Inl e \<Rightarrow> fail e
      | Inr frame \<Rightarrow> thn (write_all frame) flush_sink)"

definition write_frame_segments ::
    "(json \<Rightarrow> byte list option) \<Rightarrow> json \<Rightarrow> byte list \<Rightarrow> frame_limits \<Rightarrow> (byte_sink, frame_error, unit) prog" where
  "write_frame_segments ser header payload limits =
     (case checked_header ser header payload limits of
        Inl e \<Rightarrow> fail e
      | Inr header_bytes \<Rightarrow>
          thn (write_all (frame_head header_bytes (length payload)))
            (thn (write_all payload) flush_sink))"

section \<open>The reader\<close>

text \<open>
  The source of a reader: what its successive reads deliver. A read of 8192 bytes takes at most
  that much of the next segment; the end of the list is the end of the stream.
\<close>

datatype segment = Arrive "byte list" | Broken

record frame_reader =
  fr_source :: "segment list"
  fr_decoder :: frame_decoder
  fr_queue :: "private_frame list"

definition reader_new :: "segment list \<Rightarrow> frame_limits \<Rightarrow> frame_reader" where
  "reader_new source limits = \<lparr>fr_source = source, fr_decoder = decoder_new limits, fr_queue = []\<rparr>"

fun source_read :: "segment list \<Rightarrow> (frame_error + byte list) \<times> segment list" where
  "source_read [] = (Inr [], [])"
| "source_read (Broken # source) = (Inl SourceFailed, source)"
| "source_read (Arrive bytes # source) =
     (Inr (take 8192 bytes), if length bytes \<le> 8192 then source else Arrive (drop 8192 bytes) # source)"

fun segment_size :: "segment \<Rightarrow> nat" where
  "segment_size (Arrive bytes) = Suc (length bytes)"
| "segment_size Broken = 1"

definition source_size :: "segment list \<Rightarrow> nat" where
  "source_size source = sum_list (map segment_size source)"

lemma source_read_size: "source_read source = (Inr (b # bs), source') \<Longrightarrow> source_size source' < source_size source"
  by (induction source rule: source_read.induct) (auto simp: source_size_def split: if_splits)

function read_frame ::
    "(byte list \<Rightarrow> json option) \<Rightarrow> frame_reader \<Rightarrow> (frame_error + private_frame option) \<times> frame_reader" where
  "read_frame deser r =
     (case fr_queue r of
        frame # queue \<Rightarrow> (Inr (Some frame), r\<lparr>fr_queue := queue\<rparr>)
      | [] \<Rightarrow>
          (case source_read (fr_source r) of
             (Inl e, source) \<Rightarrow> (Inl e, r\<lparr>fr_source := source\<rparr>)
           | (Inr [], source) \<Rightarrow>
               (case frame_finish (fr_decoder r) of
                  Inl e \<Rightarrow> (Inl e, r\<lparr>fr_source := source\<rparr>)
                | Inr _ \<Rightarrow> (Inr None, r\<lparr>fr_source := source\<rparr>))
           | (Inr (b # bs), source) \<Rightarrow>
               (case frame_push deser (b # bs) (fr_decoder r) of
                  (Inl e, decoder) \<Rightarrow> (Inl e, r\<lparr>fr_source := source, fr_decoder := decoder\<rparr>)
                | (Inr frames, decoder) \<Rightarrow>
                    read_frame deser (r\<lparr>fr_source := source, fr_decoder := decoder, fr_queue := frames\<rparr>))))"
  by pat_completeness auto
termination
  by (relation "measure (\<lambda>(deser, r). source_size (fr_source r))") (auto dest!: source_read_size [OF sym])

declare read_frame.simps [simp del]

section \<open>The prefix codec\<close>

lemma from_be_to_be:
  "from_be_bytes (ucast (drop_bit 24 w)) (ucast (drop_bit 16 w)) (ucast (drop_bit 8 w)) (ucast w) = w"
proof (rule bit_word_eqI)
  fix n :: nat
  assume "n < LENGTH(32)"
  then consider "n < 8" | "8 \<le> n" "n < 16" | "16 \<le> n" "n < 24" | "24 \<le> n" "n < 32" by fastforce
  then show "bit (from_be_bytes (ucast (drop_bit 24 w)) (ucast (drop_bit 16 w)) (ucast (drop_bit 8 w)) (ucast w)) n
      \<longleftrightarrow> bit w n"
    by cases (auto simp: from_be_bytes_def bit_simps)
qed

lemma length_to_be_bytes [simp]: "length (to_be_bytes w) = 4"
  by (simp add: to_be_bytes_def)

lemma read_len_to_be:
  assumes "n < 2 ^ 32"
  shows "read_len (to_be_bytes (word_of_nat n) @ bytes) 0 = n"
  using assms by (simp add: read_len_def to_be_bytes_def from_be_to_be unat_of_nat)

lemma read_len_skip: "length xs = i \<Longrightarrow> read_len (xs @ bytes) (i + j) = read_len bytes j"
  by (simp add: read_len_def nth_append)

lemma read_len_drop: "i \<le> length bytes \<Longrightarrow> read_len (drop i bytes) j = read_len bytes (i + j)"
  by (simp add: read_len_def add.assoc)

lemma read_len_append: "i + 4 \<le> length bytes \<Longrightarrow> read_len (bytes @ later) i = read_len bytes i"
  by (simp add: read_len_def nth_append)

lemma bytes_of_drop: "bytes_of (drop i xs) a b = bytes_of xs (i + a) (i + b)"
  by (simp add: bytes_of_def add.commute)

lemma bytes_of_append: "b \<le> length xs \<Longrightarrow> bytes_of (xs @ ys) a b = bytes_of xs a b"
  by (simp add: bytes_of_def)

section \<open>A reference parser\<close>

text \<open>
  The frame at the front of a sequence of bytes, with its length: \<open>None\<close> when it is not
  complete yet. The parser consumes the bytes frame by frame, without offsets.
\<close>

definition parse_frame ::
    "(byte list \<Rightarrow> json option) \<Rightarrow> frame_limits \<Rightarrow> byte list \<Rightarrow> frame_error + (private_frame \<times> nat) option" where
  "parse_frame deser limits bytes =
     (if length bytes < 8 then Inr None
      else
        let header_len = read_len bytes 0; payload_len = read_len bytes 4 in
        if max_header_bytes limits < header_len then Inl (BadLength ''header length'' header_len)
        else if max_payload_bytes limits < payload_len then Inl (BadLength ''payload length'' payload_len)
        else if header_len = 0 then Inl EmptyHeader
        else if length bytes < 8 + header_len + payload_len then Inr None
        else case deser (bytes_of bytes 8 (8 + header_len)) of
               None \<Rightarrow> Inl BadHeaderJson
             | Some header \<Rightarrow>
                 if is_object header
                 then Inr (Some (\<lparr>pf_header = header,
                                  pf_payload = bytes_of bytes (8 + header_len) (8 + header_len + payload_len)\<rparr>,
                                 8 + header_len + payload_len))
                 else Inl BadRoutingHeader)"

lemma parse_frame_length:
  "parse_frame deser limits bytes = Inr (Some (f, n)) \<Longrightarrow> 8 < n \<and> n \<le> length bytes"
  by (auto simp: parse_frame_def Let_def split: if_splits option.splits)

lemma parse_frame_append:
  assumes "parse_frame deser limits bytes = r" and "r \<noteq> Inr None"
  shows "parse_frame deser limits (bytes @ later) = r"
proof -
  have long: "8 \<le> length bytes"
    using assms by (cases "8 \<le> length bytes") (simp_all add: parse_frame_def)
  then have lens: "read_len (bytes @ later) 0 = read_len bytes 0" "read_len (bytes @ later) 4 = read_len bytes 4"
    by (simp_all add: read_len_append)
  show ?thesis
    unfolding assms(1) [symmetric] using assms(2) [folded assms(1)] long
    by (simp add: parse_frame_def Let_def lens bytes_of_append split: if_splits option.splits)
qed

function parse_frames ::
    "(byte list \<Rightarrow> json option) \<Rightarrow> frame_limits \<Rightarrow> byte list \<Rightarrow> frame_error + private_frame list \<times> byte list" where
  "parse_frames deser limits bytes =
     (case parse_frame deser limits bytes of
        Inl e \<Rightarrow> Inl e
      | Inr None \<Rightarrow> Inr ([], bytes)
      | Inr (Some (f, n)) \<Rightarrow>
          (case parse_frames deser limits (drop n bytes) of
             Inl e \<Rightarrow> Inl e
           | Inr (fs, rest) \<Rightarrow> Inr (f # fs, rest)))"
  by pat_completeness auto
termination
  by (relation "measure (\<lambda>(deser, limits, bytes). length bytes)") (auto dest!: parse_frame_length)

declare parse_frames.simps [simp del]

lemma decode_loop_step:
  assumes "offset \<le> length buffer"
  shows "decode_loop deser limits buffer offset frames =
    (case parse_frame deser limits (drop offset buffer) of
       Inl e \<Rightarrow> Inl e
     | Inr None \<Rightarrow> Inr (frames, offset)
     | Inr (Some (f, n)) \<Rightarrow> decode_loop deser limits buffer (offset + n) (frames @ [f]))"
  by (subst decode_loop.simps)
     (simp add: parse_frame_def Let_def assert_frame_length_def read_len_drop [OF assms] bytes_of_drop add.assoc
       split: option.split)

lemma decode_loop_parses:
  assumes "offset \<le> length buffer"
  shows "decode_loop deser limits buffer offset frames =
    (case parse_frames deser limits (drop offset buffer) of
       Inl e \<Rightarrow> Inl e
     | Inr (fs, rest) \<Rightarrow> Inr (frames @ fs, length buffer - length rest))"
  using assms
proof (induction "length buffer - offset" arbitrary: offset frames rule: less_induct)
  case less
  consider (error) e where "parse_frame deser limits (drop offset buffer) = Inl e"
    | (stop) "parse_frame deser limits (drop offset buffer) = Inr None"
    | (frame) f n where "parse_frame deser limits (drop offset buffer) = Inr (Some (f, n))"
    by (metis obj_sumE option.exhaust surj_pair)
  then show ?case
  proof cases
    case frame
    from parse_frame_length [OF this] less.prems have n: "8 < n" "offset + n \<le> length buffer" by auto
    then have "decode_loop deser limits buffer (offset + n) (frames @ [f]) =
      (case parse_frames deser limits (drop (offset + n) buffer) of
         Inl e \<Rightarrow> Inl e
       | Inr (fs, rest) \<Rightarrow> Inr ((frames @ [f]) @ fs, length buffer - length rest))"
      by (intro less.hyps) auto
    then show ?thesis
      by (simp add: decode_loop_step [OF less.prems] parse_frames.simps [of deser limits "drop offset buffer"]
          frame add.commute split: sum.split prod.split)
  qed (simp_all add: decode_loop_step [OF less.prems] parse_frames.simps [of deser limits "drop offset buffer"]
         less.prems)
qed

lemma parse_frames_rest:
  "parse_frames deser limits bytes = Inr (fs, rest) \<Longrightarrow>
     rest = drop (length bytes - length rest) bytes \<and> length rest \<le> length bytes
     \<and> parse_frame deser limits rest = Inr None"
proof (induction deser limits bytes arbitrary: fs rule: parse_frames.induct)
  case (1 deser limits bytes)
  show ?case
  proof (cases "parse_frame deser limits bytes = Inr None")
    case True
    with "1.prems" show ?thesis by (simp add: parse_frames.simps)
  next
    case False
    with "1.prems" obtain f n fs' where f: "parse_frame deser limits bytes = Inr (Some (f, n))"
      and rest: "parse_frames deser limits (drop n bytes) = Inr (fs', rest)"
      by (subst (asm) parse_frames.simps) (auto split: sum.splits option.splits)
    from "1.IH" [OF f refl refl rest] parse_frame_length [OF f] show ?thesis
      by (auto simp: algebra_simps)
  qed
qed

lemma frame_push_parses:
  "frame_push deser chunk d =
     (case parse_frames deser (fd_limits d) (fd_buffer d @ chunk) of
        Inl e \<Rightarrow> (Inl e, d\<lparr>fd_buffer := fd_buffer d @ chunk\<rparr>)
      | Inr (fs, rest) \<Rightarrow> (Inr fs, d\<lparr>fd_buffer := rest\<rparr>))"
  using parse_frames_rest [of deser "fd_limits d" "fd_buffer d @ chunk"]
  by (auto simp: frame_push_def decode_loop_parses split: sum.splits prod.splits)

section \<open>Chunks\<close>

definition settled :: "(byte list \<Rightarrow> json option) \<Rightarrow> frame_decoder \<Rightarrow> bool" where
  "settled deser d \<longleftrightarrow> parse_frame deser (fd_limits d) (fd_buffer d) = Inr None"

lemma settled_new [simp]: "settled deser (decoder_new limits)"
  by (simp add: settled_def decoder_new_def parse_frame_def)

lemma parse_frames_append:
  "parse_frames deser limits (a @ b) =
     (case parse_frames deser limits a of
        Inl e \<Rightarrow> Inl e
      | Inr (fs, rest) \<Rightarrow>
          (case parse_frames deser limits (rest @ b) of
             Inl e \<Rightarrow> Inl e
           | Inr (gs, rest') \<Rightarrow> Inr (fs @ gs, rest')))"
proof (induction deser limits a rule: parse_frames.induct)
  case (1 deser limits bytes)
  consider (error) e where "parse_frame deser limits bytes = Inl e"
    | (stop) "parse_frame deser limits bytes = Inr None"
    | (frame) f n where "parse_frame deser limits bytes = Inr (Some (f, n))"
    by (metis obj_sumE option.exhaust surj_pair)
  then show ?case
  proof cases
    case error
    then show ?thesis
      by (simp add: parse_frames.simps [of deser limits bytes] parse_frames.simps [of deser limits "bytes @ b"]
          parse_frame_append)
  next
    case stop
    then show ?thesis
      by (simp add: parse_frames.simps [of deser limits bytes] split: sum.split prod.split)
  next
    case frame
    note IH = "1.IH" [OF this refl refl]
    from parse_frame_length [OF frame] frame show ?thesis
      by (simp add: parse_frames.simps [of deser limits bytes] parse_frames.simps [of deser limits "bytes @ b"]
          parse_frame_append IH split: sum.split prod.split)
  qed
qed

lemma parse_frames_stop: "parse_frame deser limits bytes = Inr None \<Longrightarrow> parse_frames deser limits bytes = Inr ([], bytes)"
  by (simp add: parse_frames.simps)

interpretation frames: chunked_decoder "frame_push deser" "settled deser" "\<lambda>_ _. True" for deser
proof (unfold_locales, goal_cases)
  case (1 d)
  then show ?case by (simp add: settled_def frame_push_parses parse_frames_stop)
next
  case (2 d a xs d')
  then show ?case
    by (auto simp: settled_def frame_push_parses dest: parse_frames_rest split: sum.splits prod.splits)
next
  case (3 d a b xs d' ys d'')
  then show ?case
    by (auto simp: frame_push_parses parse_frames_append [of _ _ "fd_buffer d @ a" b, simplified]
        split: sum.splits prod.splits)
next
  case (4 d a b xs d' e d'')
  then show ?case
    by (auto simp: frame_push_parses parse_frames_append [of _ _ "fd_buffer d @ a" b, simplified]
        split: sum.splits prod.splits)
next
  case (5 d a b e d')
  then show ?case
    by (auto simp: frame_push_parses parse_frames_append [of _ _ "fd_buffer d @ a" b, simplified]
        split: sum.splits prod.splits)
qed

section \<open>What an encoded frame parses to\<close>

definition sendable ::
    "(json \<Rightarrow> byte list option) \<Rightarrow> (byte list \<Rightarrow> json option) \<Rightarrow> frame_limits \<Rightarrow> private_frame \<Rightarrow> byte list \<Rightarrow> bool" where
  "sendable ser deser limits f bytes \<longleftrightarrow>
     encode_private_frame ser (pf_header f) (pf_payload f) limits = Inr bytes
     \<and> is_object (pf_header f) \<and> Option.bind (ser (pf_header f)) deser = Some (pf_header f)"

definition u32_limits :: "frame_limits \<Rightarrow> bool" where
  "u32_limits limits \<longleftrightarrow> max_header_bytes limits < 2 ^ 32 \<and> max_payload_bytes limits < 2 ^ 32"

lemma u32_limits_default [simp]: "u32_limits default_private_frame_limits"
  by (simp add: u32_limits_def default_private_frame_limits_def)

lemma sendable_bytes:
  assumes "sendable ser deser limits f bytes"
  obtains hb where "ser (pf_header f) = Some hb" and "deser hb = Some (pf_header f)" and "is_object (pf_header f)"
    and "hb \<noteq> []" and "length hb \<le> max_header_bytes limits" and "length (pf_payload f) \<le> max_payload_bytes limits"
    and "bytes = to_be_bytes (word_of_nat (length hb)) @ to_be_bytes (word_of_nat (length (pf_payload f)))
      @ hb @ pf_payload f"
  using assms
  by (auto simp: sendable_def encode_private_frame_def checked_header_def assert_frame_length_def frame_head_def
      split: option.splits sum.splits if_splits)

lemma sendable_length: "sendable ser deser limits f bytes \<Longrightarrow> 8 < length bytes"
  by (erule sendable_bytes) simp

lemma parse_sendable:
  assumes sent: "sendable ser deser limits f bytes" and lim: "u32_limits limits"
  shows "parse_frame deser limits (bytes @ later) = Inr (Some (f, length bytes))"
proof -
  from sent obtain hb where hb: "deser hb = Some (pf_header f)" "is_object (pf_header f)" "hb \<noteq> []"
      "length hb \<le> max_header_bytes limits" "length (pf_payload f) \<le> max_payload_bytes limits"
    and bytes: "bytes = to_be_bytes (word_of_nat (length hb)) @ to_be_bytes (word_of_nat (length (pf_payload f)))
      @ hb @ pf_payload f" by (elim sendable_bytes)
  have lens: "read_len (bytes @ later) 0 = length hb" "read_len (bytes @ later) (4 + 0) = length (pf_payload f)"
    using hb lim unfolding bytes u32_limits_def append_assoc
    by (subst read_len_to_be, simp_all) (subst read_len_skip [where j = 0, simplified], simp_all add: read_len_to_be)
  have parts: "bytes_of (bytes @ later) 8 (8 + length hb) = hb"
    "bytes_of (bytes @ later) (8 + length hb) (8 + length hb + length (pf_payload f)) = pf_payload f"
    by (simp_all add: bytes bytes_of_def)
  show ?thesis using hb parts lens by (simp add: parse_frame_def Let_def) (simp add: bytes)
qed

lemma parse_sendables:
  assumes "list_all2 (sendable ser deser limits) fs encs" and "u32_limits limits"
  shows "parse_frames deser limits (concat encs @ later) =
    (case parse_frames deser limits later of Inl e \<Rightarrow> Inl e | Inr (gs, rest) \<Rightarrow> Inr (fs @ gs, rest))"
  using assms(1)
proof (induction rule: list_all2_induct)
  case Nil
  then show ?case by (simp split: sum.split prod.split)
next
  case (Cons f fs enc encs)
  then show ?case
    by (subst parse_frames.simps) (simp add: parse_sendable assms(2) split: sum.split prod.split)
qed

text \<open>A strict prefix of an encoded frame is not complete.\<close>

lemma parse_partial:
  assumes sent: "sendable ser deser limits f bytes" and lim: "u32_limits limits" and n: "n < length bytes"
  shows "parse_frame deser limits (take n bytes) = Inr None"
proof (rule ccontr)
  assume "parse_frame deser limits (take n bytes) \<noteq> Inr None"
  then have "parse_frame deser limits (take n bytes @ drop n bytes) = parse_frame deser limits (take n bytes)"
    by (rule parse_frame_append [OF refl])
  moreover have "parse_frame deser limits (take n bytes @ drop n bytes) = Inr (Some (f, length bytes))"
    using parse_sendable [OF sent lim, of "[]"] by simp
  ultimately have "parse_frame deser limits (take n bytes) = Inr (Some (f, length bytes))" by simp
  from parse_frame_length [OF this] n show False by simp
qed

section \<open>Round trip of a stream that may be cut\<close>

fun complete_frames :: "'a list list \<Rightarrow> nat \<Rightarrow> nat" where
  "complete_frames [] n = 0"
| "complete_frames (e # es) n = (if length e \<le> n then Suc (complete_frames es (n - length e)) else 0)"

lemma complete_frames_all: "length (concat encs) \<le> n \<Longrightarrow> complete_frames encs n = length encs"
  by (induction encs arbitrary: n) auto

definition cut_tail :: "'a list list \<Rightarrow> nat \<Rightarrow> 'a list" where
  "cut_tail encs n = drop (length (concat (take (complete_frames encs n) encs))) (take n (concat encs))"

lemma parse_cut_stream:
  assumes "list_all2 (sendable ser deser limits) fs encs" and lim: "u32_limits limits"
  shows "parse_frames deser limits (take n (concat encs)) =
    Inr (take (complete_frames encs n) fs, cut_tail encs n)"
  using assms(1)
proof (induction arbitrary: n rule: list_all2_induct)
  case Nil
  then show ?case by (simp add: cut_tail_def parse_frames.simps parse_frame_def)
next
  case (Cons f fs enc encs)
  show ?case
  proof (cases "length enc \<le> n")
    case True
    have "parse_frames deser limits (enc @ take (n - length enc) (concat encs)) =
        Inr (f # take (complete_frames encs (n - length enc)) fs, cut_tail encs (n - length enc))"
      using Cons parse_sendable [OF Cons(1) lim]
      by (subst parse_frames.simps) simp
    then show ?thesis using True by (simp add: cut_tail_def)
  next
    case False
    then show ?thesis using parse_partial [OF Cons(1) lim, of n]
      by (simp add: cut_tail_def parse_frames_stop)
  qed
qed

lemma cut_tail_Nil_iff:
  "cut_tail encs n = [] \<longleftrightarrow> take n (concat encs) = concat (take (complete_frames encs n) encs)"
proof (induction encs arbitrary: n)
  case Nil
  then show ?case by (simp add: cut_tail_def)
next
  case (Cons e es)
  then show ?case by (auto simp: cut_tail_def)
qed

text \<open>
  Frames survive the socket whatever its chunks: when the bytes received so far, split in any
  way, are the first \<open>n\<close> bytes of a sequence of encoded frames, the decoder has handed out exactly
  the frames that are complete, in order and unchanged, and the end of the channel is accepted only
  at a frame boundary.
\<close>

lemma frames_survive_chunking:
  assumes "list_all2 (sendable ser deser limits) fs encs" and "u32_limits limits"
    and "concat chunks = take n (concat encs)"
  shows "\<exists>d. push_all (frame_push deser) chunks (decoder_new limits) = (Inr (take (complete_frames encs n) fs), d)
     \<and> (frame_finish d = Inr () \<longleftrightarrow> concat chunks = concat (take (complete_frames encs n) encs))"
proof (intro exI conjI)
  show "push_all (frame_push deser) chunks (decoder_new limits) =
    (Inr (take (complete_frames encs n) fs), (decoder_new limits)\<lparr>fd_buffer := cut_tail encs n\<rparr>)"
    unfolding frames.push_all_ok_iff [OF settled_new well_split_any] assms(3)
    by (simp add: frame_push_parses decoder_new_def parse_cut_stream [OF assms(1,2)])
  show "frame_finish ((decoder_new limits)\<lparr>fd_buffer := cut_tail encs n\<rparr>) = Inr ()
    \<longleftrightarrow> concat chunks = concat (take (complete_frames encs n) encs)"
    by (simp add: frame_finish_def assms(3) cut_tail_Nil_iff)
qed

section \<open>The reader hands out every frame once\<close>

fun arrival :: "segment \<Rightarrow> byte list" where
  "arrival (Arrive bytes) = bytes"
| "arrival Broken = []"

definition source_bytes :: "segment list \<Rightarrow> byte list" where
  "source_bytes source = concat (map arrival source)"

text \<open>A source whose reads neither fail nor deliver an empty segment, which means the end.\<close>

definition delivers :: "segment list \<Rightarrow> bool" where
  "delivers source \<longleftrightarrow> list_all (\<lambda>s. arrival s \<noteq> []) source"

fun read_times :: "(byte list \<Rightarrow> json option) \<Rightarrow> nat \<Rightarrow> frame_reader \<Rightarrow> (frame_error + private_frame option) list" where
  "read_times deser 0 r = []"
| "read_times deser (Suc n) r = (case read_frame deser r of (x, r') \<Rightarrow> x # read_times deser n r')"

definition awaits :: "(byte list \<Rightarrow> json option) \<Rightarrow> private_frame list \<Rightarrow> byte list \<Rightarrow> frame_reader \<Rightarrow> bool" where
  "awaits deser fs rest r \<longleftrightarrow> delivers (fr_source r) \<and>
     (\<exists>gs. parse_frames deser (fd_limits (fr_decoder r)) (fd_buffer (fr_decoder r) @ source_bytes (fr_source r))
        = Inr (gs, rest) \<and> fs = fr_queue r @ gs \<and> settled deser (fr_decoder r))"

lemma source_read_delivers:
  assumes "delivers source" and "source \<noteq> []"
  obtains b bs source' where "source_read source = (Inr (b # bs), source')" and "delivers source'"
    and "source_bytes source = b # bs @ source_bytes source'"
proof -
  obtain bytes later where source: "source = Arrive bytes # later"
    using assms by (cases source; cases "hd source") (auto simp: delivers_def)
  with assms obtain b bs where b: "bytes = b # bs" by (cases bytes) (auto simp: delivers_def)
  have "source_read source = (Inr (b # take 8191 bs),
      if length bytes \<le> 8192 then later else Arrive (drop 8192 bytes) # later)"
    using b source by (simp add: take_Cons')
  moreover have "delivers (if length bytes \<le> 8192 then later else Arrive (drop 8192 bytes) # later)"
    using assms source by (auto simp: delivers_def)
  moreover have "source_bytes source = b # take 8191 bs @
      source_bytes (if length bytes \<le> 8192 then later else Arrive (drop 8192 bytes) # later)"
    using b source by (auto simp: source_bytes_def drop_Cons' simp flip: append_assoc)
  ultimately show ?thesis by (rule that)
qed

lemma read_frame_awaits:
  assumes "awaits deser fs rest r"
  shows "case fs of
      [] \<Rightarrow> \<exists>r'. awaits deser [] rest r'
        \<and> read_frame deser r = (if rest = [] then Inr None else Inl (IncompleteBytes (length rest)), r')
    | f # fs' \<Rightarrow> \<exists>r'. awaits deser fs' rest r' \<and> read_frame deser r = (Inr (Some f), r')"
  using assms
proof (induction deser r arbitrary: fs rule: read_frame.induct)
  case (1 deser r)
  from "1.prems" obtain gs where src: "delivers (fr_source r)"
    and gs: "parse_frames deser (fd_limits (fr_decoder r)) (fd_buffer (fr_decoder r) @ source_bytes (fr_source r))
        = Inr (gs, rest)" and fs: "fs = fr_queue r @ gs" and ok: "settled deser (fr_decoder r)"
    by (auto simp: awaits_def)
  show ?case
  proof (cases "fr_queue r")
    case (Cons f queue)
    have "read_frame deser r = (Inr (Some f), r\<lparr>fr_queue := queue\<rparr>)"
      by (subst read_frame.simps) (simp add: Cons)
    moreover have "awaits deser (queue @ gs) rest (r\<lparr>fr_queue := queue\<rparr>)"
      using src gs ok by (simp add: awaits_def)
    ultimately show ?thesis using fs Cons by simp
  next
    case Nil
    show ?thesis
    proof (cases "fr_source r = []")
      case True
      then have rest: "gs = []" "rest = fd_buffer (fr_decoder r)"
        using gs ok by (simp_all add: source_bytes_def settled_def parse_frames_stop)
      have "read_frame deser r = (if rest = [] then Inr None else Inl (IncompleteBytes (length rest)), r)"
        by (subst read_frame.simps) (simp add: Nil True rest frame_finish_def)
      with "1.prems" fs Nil rest show ?thesis by auto
    next
      case False
      from source_read_delivers [OF src False] obtain b bs source' where
        rd: "source_read (fr_source r) = (Inr (b # bs), source')" and src': "delivers source'"
        and bytes: "source_bytes (fr_source r) = b # bs @ source_bytes source'" .
      have split: "fd_buffer (fr_decoder r) @ source_bytes (fr_source r)
          = (fd_buffer (fr_decoder r) @ b # bs) @ source_bytes source'"
        by (simp add: bytes)
      obtain xs buf ys where xs: "parse_frames deser (fd_limits (fr_decoder r)) (fd_buffer (fr_decoder r) @ b # bs)
            = Inr (xs, buf)"
        and ys: "parse_frames deser (fd_limits (fr_decoder r)) (buf @ source_bytes source') = Inr (ys, rest)"
        and gs': "gs = xs @ ys"
        using gs unfolding split parse_frames_append [of _ _ "fd_buffer (fr_decoder r) @ b # bs"]
        by (auto split: sum.splits prod.splits)
      let ?r = "r\<lparr>fr_source := source', fr_decoder := (fr_decoder r)\<lparr>fd_buffer := buf\<rparr>, fr_queue := xs\<rparr>"
      have push: "frame_push deser (b # bs) (fr_decoder r) = (Inr xs, (fr_decoder r)\<lparr>fd_buffer := buf\<rparr>)"
        by (simp add: frame_push_parses xs)
      have "read_frame deser r = read_frame deser ?r"
        by (subst read_frame.simps) (simp add: Nil rd push)
      moreover have "awaits deser fs rest ?r"
        using src' ys fs Nil gs' parse_frames_rest [OF xs] by (auto simp: awaits_def settled_def)
      note "1.IH" [OF Nil rd [symmetric] refl refl push [symmetric] refl this]
      ultimately show ?thesis by (simp only:)
    qed
  qed
qed

lemma read_times_awaits:
  assumes "awaits deser fs rest r"
  shows "read_times deser n r =
    take n (map (\<lambda>f. Inr (Some f)) fs @ replicate n (if rest = [] then Inr None else Inl (IncompleteBytes (length rest))))"
  using assms
proof (induction n arbitrary: fs r)
  case 0
  then show ?case by simp
next
  case (Suc n)
  show ?case
  proof (cases fs)
    case Nil
    with read_frame_awaits [OF Suc.prems] obtain r' where "awaits deser [] rest r'"
      and "read_frame deser r = (if rest = [] then Inr None else Inl (IncompleteBytes (length rest)), r')" by auto
    with Suc.IH [OF this(1)] show ?thesis by (simp add: Nil)
  next
    case (Cons f fs')
    with read_frame_awaits [OF Suc.prems] obtain r' where "awaits deser fs' rest r'"
      and "read_frame deser r = (Inr (Some f), r')" by auto
    with Suc.IH [OF this(1)] show ?thesis
      by (simp add: Cons take_append min_def del: replicate_Suc flip: replicate_Suc)
  qed
qed

text \<open>
  C22. A reader hands out the frames of its stream one at a time, in order and unchanged, however
  the reads split the stream, and then keeps answering end-of-stream; of a stream that breaks off
  inside a frame it hands out the complete frames and then keeps reporting the incomplete bytes,
  never a clean end.
\<close>

theorem reader_hands_out_frames:
  assumes "list_all2 (sendable ser deser limits) fs encs" and "u32_limits limits"
    and "delivers source" and "source_bytes source = take n (concat encs)"
  shows "read_times deser m (reader_new source limits) =
    take m (map (\<lambda>f. Inr (Some f)) (take (complete_frames encs n) fs)
      @ replicate m (if cut_tail encs n = [] then Inr None else Inl (IncompleteBytes (length (cut_tail encs n)))))"
proof -
  have "awaits deser (take (complete_frames encs n) fs) (cut_tail encs n) (reader_new source limits)"
    using assms parse_cut_stream [OF assms(1,2), of n]
    by (simp add: awaits_def reader_new_def decoder_new_def settled_def parse_frame_def)
  then show ?thesis by (rule read_times_awaits)
qed

section \<open>The two writers\<close>

lemma write_all_append: "thn (write_all a) (thn (write_all b) rest) = thn (write_all (a @ b)) rest"
  by (rule ext) (auto simp: thn_def bnd_def write_all_def split: option.splits)

text \<open>
  Writing a frame in segments is writing the frame: for every header, payload and limits the
  two writers have the same result and leave the same bytes in every sink, also in a sink that
  fails in the middle of the frame.
\<close>

lemma segments_write_the_frame:
  "write_frame_segments ser header payload limits sink = write_frame ser header payload limits sink"
  by (simp add: write_frame_segments_def write_frame_def encode_private_frame_def write_all_append
      split: sum.split)

section \<open>A malformed frame\<close>

lemma read_frame_pop: "fr_queue r = f # queue \<Longrightarrow> read_frame deser r = (Inr (Some f), r\<lparr>fr_queue := queue\<rparr>)"
  by (simp add: read_frame.simps)

lemma read_frame_arrive:
  "fr_queue r = [] \<Longrightarrow> fr_source r = Arrive (b # bs) # later \<Longrightarrow> length bs < 8192 \<Longrightarrow>
    read_frame deser r =
      (case frame_push deser (b # bs) (fr_decoder r) of
         (Inl e, decoder) \<Rightarrow> (Inl e, r\<lparr>fr_source := later, fr_decoder := decoder\<rparr>)
       | (Inr frames, decoder) \<Rightarrow>
           read_frame deser (r\<lparr>fr_source := later, fr_decoder := decoder, fr_queue := frames\<rparr>))"
  by (subst read_frame.simps) (simp add: Suc_le_eq)

lemma frame_push_new: "fd_buffer (decoder_new limits) = []" "fd_limits (decoder_new limits) = limits"
  by (simp_all add: decoder_new_def)

text \<open>
  What a reader hands out before it reports a malformed frame depends on how the bytes were
  split: a frame that arrived in an earlier read is delivered, a frame that arrived in the same
  read is lost, and the bytes stay in the buffer, so the end of the stream is an error as well.
\<close>

lemma malformed_frame_drops_its_chunk:
  assumes "sendable ser deser limits f enc" and "u32_limits limits"
    and "parse_frame deser limits bad = Inl e" and "length enc + length bad \<le> 8192"
  shows "read_times deser 2 (reader_new [Arrive enc, Arrive bad] limits) = [Inr (Some f), Inl e]
    \<and> read_times deser 2 (reader_new [Arrive (enc @ bad)] limits)
      = [Inl e, Inl (IncompleteBytes (length enc + length bad))]"
proof -
  from sendable_length [OF assms(1)] obtain b bs where enc: "enc = b # bs" by (cases enc) auto
  have "parse_frame deser limits [] = Inr None" by (simp add: parse_frame_def)
  then obtain c cs where bad: "bad = c # cs" using assms(3) by (cases bad) auto
  have one: "frame_push deser enc (decoder_new limits) = (Inr [f], decoder_new limits)"
    using parse_sendable [OF assms(1,2), of "[]"]
    by (simp add: frame_push_parses frame_push_new parse_frames.simps [of _ _ enc] parse_frames.simps [of _ _ "[]"]
        parse_frame_def [of _ _ "[]"])
  have two: "frame_push deser bad (decoder_new limits) = (Inl e, (decoder_new limits)\<lparr>fd_buffer := bad\<rparr>)"
    using assms(3) by (simp add: frame_push_parses frame_push_new parse_frames.simps [of _ _ bad])
  have both: "frame_push deser (enc @ bad) (decoder_new limits) = (Inl e, (decoder_new limits)\<lparr>fd_buffer := enc @ bad\<rparr>)"
    using parse_sendable [OF assms(1,2), of bad] assms(3)
    by (simp add: frame_push_parses frame_push_new parse_frames.simps [of _ _ "enc @ bad"] parse_frames.simps [of _ _ bad])
  have "read_frame deser (reader_new [Arrive enc, Arrive bad] limits)
      = (Inr (Some f), reader_new [Arrive bad] limits)"
    using one assms(4) enc by (simp add: read_frame_arrive read_frame_pop reader_new_def)
  moreover have "read_frame deser (reader_new [Arrive bad] limits)
      = (Inl e, (reader_new [] limits)\<lparr>fr_decoder := (decoder_new limits)\<lparr>fd_buffer := bad\<rparr>\<rparr>)"
    using two assms(4) bad by (simp add: read_frame_arrive reader_new_def)
  moreover have "read_frame deser (reader_new [Arrive (enc @ bad)] limits)
      = (Inl e, (reader_new [] limits)\<lparr>fr_decoder := (decoder_new limits)\<lparr>fd_buffer := enc @ bad\<rparr>\<rparr>)"
    using both assms(4) enc by (simp add: read_frame_arrive reader_new_def)
  moreover have "fst (read_frame deser ((reader_new [] limits)\<lparr>fr_decoder := (decoder_new limits)\<lparr>fd_buffer := enc @ bad\<rparr>\<rparr>))
      = Inl (IncompleteBytes (length enc + length bad))"
    using enc by (simp add: read_frame.simps reader_new_def frame_finish_def)
  ultimately show ?thesis
    by (simp add: numeral_2_eq_2 split: prod.split) (metis fst_conv)
qed

section \<open>Witnesses\<close>

definition brace_ser :: "json \<Rightarrow> byte list option" where
  "brace_ser j = (if j = JObj [] then Some [0x7B, 0x7D] else None)"

definition brace_deser :: "byte list \<Rightarrow> json option" where
  "brace_deser bytes = (if bytes = [0x7B, 0x7D] then Some (JObj []) else None)"

definition brace_frame :: "byte list \<Rightarrow> private_frame" where
  "brace_frame payload = \<lparr>pf_header = JObj [], pf_payload = payload\<rparr>"

definition brace_limits :: frame_limits where
  "brace_limits = \<lparr>max_header_bytes = 16, max_payload_bytes = 16\<rparr>"

lemma brace_u32 [simp]: "u32_limits brace_limits"
  by (simp add: u32_limits_def brace_limits_def)

lemma brace_sendable:
  "sendable brace_ser brace_deser brace_limits (brace_frame [7, 9]) [0, 0, 0, 2, 0, 0, 0, 2, 0x7B, 0x7D, 7, 9]"
  "sendable brace_ser brace_deser brace_limits (brace_frame []) [0, 0, 0, 2, 0, 0, 0, 0, 0x7B, 0x7D]"
  by (simp_all add: sendable_def encode_private_frame_def checked_header_def assert_frame_length_def frame_head_def
      brace_ser_def brace_deser_def brace_frame_def brace_limits_def to_be_bytes_def drop_bit_eq_div)

abbreviation brace_frames :: "private_frame list" where
  "brace_frames \<equiv> [brace_frame [7, 9], brace_frame []]"

abbreviation brace_wire :: "byte list list" where
  "brace_wire \<equiv> [[0, 0, 0, 2, 0, 0, 0, 2, 0x7B, 0x7D, 7, 9], [0, 0, 0, 2, 0, 0, 0, 0, 0x7B, 0x7D]]"

theorem frames_survive_chunking_witness:
  "\<exists>d. push_all (frame_push brace_deser) [[0, 0, 0], [2, 0, 0, 0, 2, 0x7B, 0x7D, 7, 9, 0, 0, 0]] (decoder_new brace_limits)
     = (Inr [brace_frame [7, 9]], d) \<and> frame_finish d \<noteq> Inr ()"
  using frames_survive_chunking [of brace_ser brace_deser brace_limits brace_frames brace_wire
      "[[0, 0, 0], [2, 0, 0, 0, 2, 0x7B, 0x7D, 7, 9, 0, 0, 0]]" 15] brace_sendable
  by auto

theorem reader_hands_out_frames_witness:
  "read_times brace_deser 4 (reader_new [Arrive [0, 0, 0, 2, 0], Arrive [0, 0, 2, 0x7B, 0x7D, 7, 9, 0, 0],
      Arrive [0, 2, 0, 0, 0, 0, 0x7B, 0x7D]] brace_limits)
    = [Inr (Some (brace_frame [7, 9])), Inr (Some (brace_frame [])), Inr None, Inr None]"
  using reader_hands_out_frames [of brace_ser brace_deser brace_limits brace_frames brace_wire
      "[Arrive [0, 0, 0, 2, 0], Arrive [0, 0, 2, 0x7B, 0x7D, 7, 9, 0, 0], Arrive [0, 2, 0, 0, 0, 0, 0x7B, 0x7D]]"
      22 4] brace_sendable
  by (auto simp: delivers_def source_bytes_def cut_tail_def eval_nat_numeral)

theorem malformed_frame_drops_its_chunk_witness:
  "read_times brace_deser 2 (reader_new [Arrive [0, 0, 0, 2, 0, 0, 0, 0, 0x7B, 0x7D], Arrive [0, 0, 0, 0, 0, 0, 0, 0]] brace_limits)
     = [Inr (Some (brace_frame [])), Inl EmptyHeader]
   \<and> read_times brace_deser 2 (reader_new [Arrive [0, 0, 0, 2, 0, 0, 0, 0, 0x7B, 0x7D, 0, 0, 0, 0, 0, 0, 0, 0]] brace_limits)
     = [Inl EmptyHeader, Inl (IncompleteBytes 18)]"
proof -
  have bad: "parse_frame brace_deser brace_limits [0, 0, 0, 0, 0, 0, 0, 0] = Inl EmptyHeader"
    by (simp add: parse_frame_def read_len_def from_be_bytes_def)
  have len: "length [0, 0, 0, 2, 0, 0, 0, 0, 0x7B, 0x7D :: byte] + length [0, 0, 0, 0, 0, 0, 0, 0 :: byte] = 18" by simp
  from malformed_frame_drops_its_chunk [OF brace_sendable(2) brace_u32 bad, unfolded len] show ?thesis by simp
qed

end
