(* ===== verification/Sse.thy ===== *)
theory Sse
  imports Chunked Rust_Text
begin

text \<open>
  \<open>crates/pa-ai/src/utils_inner/sse.rs\<close>: the decoder of server-sent events that the streaming
  providers share. The reference is a decoder of the whole text by lines.
\<close>

section \<open>Events and lines\<close>

record server_sent_event =
  sse_event :: "string option"
  sse_data :: string
  sse_raw :: "string list"

record decoder_state =
  ds_event :: "string option"
  ds_data :: "string list"
  ds_raw :: "string list"

definition decoder_state_default :: decoder_state where
  "decoder_state_default = \<lparr>ds_event = None, ds_data = [], ds_raw = []\<rparr>"

text \<open>The raw lines survive a flush that has nothing to report.\<close>

definition flush_event :: "decoder_state \<Rightarrow> server_sent_event option \<times> decoder_state" where
  "flush_event st =
     (if ds_event st = None \<and> ds_data st = [] then (None, st)
      else (Some \<lparr>sse_event = ds_event st, sse_data = join_with [line_feed] (ds_data st), sse_raw = ds_raw st\<rparr>,
            \<lparr>ds_event = None, ds_data = [], ds_raw = []\<rparr>))"

definition field_of :: "string \<Rightarrow> string \<times> string" where
  "field_of line =
     (if CHR '':'' \<in> set line then
        let name = takeWhile (\<lambda>c. c \<noteq> CHR '':'') line;
            tail = drop (length name + 1) line
        in (name, case strip_prefix tail '' '' of Some stripped \<Rightarrow> stripped | None \<Rightarrow> tail)
      else (line, []))"

definition decode_line :: "string \<Rightarrow> decoder_state \<Rightarrow> server_sent_event option \<times> decoder_state" where
  "decode_line line st =
     (if line = [] then flush_event st
      else
        let st = st\<lparr>ds_raw := ds_raw st @ [line]\<rparr> in
        if starts_with line '':'' then (None, st)
        else case field_of line of
               (field_name, field_value) \<Rightarrow>
                 (None,
                  if field_name = ''event'' then st\<lparr>ds_event := Some field_value\<rparr>
                  else if field_name = ''data'' then st\<lparr>ds_data := ds_data st @ [field_value]\<rparr>
                  else st))"

section \<open>The decoder\<close>

record sse_decoder =
  sd_state :: decoder_state
  sd_buffer :: string

definition sse_decoder_new :: sse_decoder where
  "sse_decoder_new = \<lparr>sd_state = decoder_state_default, sd_buffer = []\<rparr>"

abbreviation carriage_return :: char where
  "carriage_return \<equiv> CHR 0x0D"

definition break_len :: "string \<Rightarrow> nat \<Rightarrow> nat" where
  "break_len buffer index =
     (if buffer ! index = carriage_return \<and> index + 1 < length buffer \<and> buffer ! (index + 1) = line_feed then 2
      else if buffer ! index = carriage_return \<or> buffer ! index = line_feed then 1 else 0)"

lemma break_len_0 [simp]: "break_len buffer index \<noteq> 0 \<Longrightarrow> 0 < break_len buffer index"
  by simp

text \<open>The \<open>while\<close> loop of \<open>push_text\<close>: \<open>index\<close> scans, \<open>line_start\<close> is where the line began.\<close>

function scan_text ::
    "string \<Rightarrow> nat \<Rightarrow> nat \<Rightarrow> decoder_state \<Rightarrow> server_sent_event list
     \<Rightarrow> server_sent_event list \<times> decoder_state \<times> nat" where
  "scan_text buffer index line_start st events =
     (if length buffer \<le> index then (events, st, line_start)
      else if break_len buffer index = 0 then scan_text buffer (index + 1) line_start st events
      else
        let (event, st') = decode_line (take (index - line_start) (drop line_start buffer)) st;
            index' = index + break_len buffer index
        in scan_text buffer index' index' st' (events @ (case event of None \<Rightarrow> [] | Some e \<Rightarrow> [e])))"
  by pat_completeness auto
termination
  by (relation "measure (\<lambda>(buffer, index, line_start, st, events). length buffer - index)") auto

declare scan_text.simps [simp del]

definition push_text :: "string \<Rightarrow> sse_decoder \<Rightarrow> server_sent_event list \<times> sse_decoder" where
  "push_text chunk d =
     (let index = length (sd_buffer d);
          buffer = sd_buffer d @ chunk;
          (events, st, line_start) = scan_text buffer index 0 (sd_state d) []
      in (events, \<lparr>sd_state = st, sd_buffer = drop line_start buffer\<rparr>))"

definition finish_text :: "sse_decoder \<Rightarrow> server_sent_event list \<times> sse_decoder" where
  "finish_text d =
     (let (first, d1) =
            (if sd_buffer d \<noteq> [] then
               let (event, st) = decode_line (sd_buffer d) (sd_state d)
               in (event, \<lparr>sd_state = st, sd_buffer = []\<rparr>)
             else (None, d));
          (second, st2) = flush_event (sd_state d1)
      in ((case first of None \<Rightarrow> [] | Some e \<Rightarrow> [e]) @ (case second of None \<Rightarrow> [] | Some e \<Rightarrow> [e]),
          d1\<lparr>sd_state := st2\<rparr>))"

text \<open>A response body: its chunks, then the end.\<close>

fun push_texts :: "string list \<Rightarrow> sse_decoder \<Rightarrow> server_sent_event list \<times> sse_decoder" where
  "push_texts [] d = ([], d)"
| "push_texts (c # cs) d =
     (let (xs, d1) = push_text c d; (ys, d2) = push_texts cs d1 in (xs @ ys, d2))"

definition decode_chunks :: "string list \<Rightarrow> server_sent_event list" where
  "decode_chunks cs = (let (xs, d) = push_texts cs sse_decoder_new in xs @ fst (finish_text d))"

section \<open>The reference: the lines of the whole text\<close>

function split_breaks :: "string \<Rightarrow> string list \<times> string" where
  "split_breaks [] = ([], [])"
| "split_breaks (c # cs) =
     (if c = carriage_return \<and> cs \<noteq> [] \<and> hd cs = line_feed then apfst (Cons []) (split_breaks (tl cs))
      else if c = carriage_return \<or> c = line_feed then apfst (Cons []) (split_breaks cs)
      else case split_breaks cs of
             ([], rest) \<Rightarrow> ([], c # rest)
           | (l # ls, rest) \<Rightarrow> ((c # l) # ls, rest))"
  by pat_completeness auto
termination
  by (relation "measure length") auto

fun decode_lines :: "string list \<Rightarrow> decoder_state \<Rightarrow> server_sent_event list \<times> decoder_state" where
  "decode_lines [] st = ([], st)"
| "decode_lines (l # ls) st =
     (let (event, st1) = decode_line l st; (events, st2) = decode_lines ls st1
      in ((case event of None \<Rightarrow> [] | Some e \<Rightarrow> [e]) @ events, st2))"

definition decode_stream :: "string \<Rightarrow> server_sent_event list" where
  "decode_stream body =
     (let (ls, rest) = split_breaks body;
          (events, st) = decode_lines (ls @ (if rest = [] then [] else [rest])) decoder_state_default
      in events @ (case fst (flush_event st) of None \<Rightarrow> [] | Some e \<Rightarrow> [e]))"

section \<open>The scan finds the lines\<close>

definition no_break :: "string \<Rightarrow> bool" where
  "no_break s \<longleftrightarrow> carriage_return \<notin> set s \<and> line_feed \<notin> set s"

lemma no_break_simps [simp]:
  "no_break []" "no_break (c # s) \<longleftrightarrow> c \<noteq> carriage_return \<and> c \<noteq> line_feed \<and> no_break s"
  "no_break (s @ t) \<longleftrightarrow> no_break s \<and> no_break t"
  by (auto simp: no_break_def)

lemma split_breaks_no_break: "no_break s \<Longrightarrow> split_breaks s = ([], s)"
  by (induction s) auto

lemma split_breaks_prefix:
  "no_break s \<Longrightarrow> split_breaks (s @ t) =
     (case split_breaks t of ([], rest) \<Rightarrow> ([], s @ rest) | (l # ls, rest) \<Rightarrow> ((s @ l) # ls, rest))"
  by (induction s) (auto split: prod.splits list.splits)

lemma apfst_Cons_eq [simp]: "apfst (Cons x) p = (xs, y) \<longleftrightarrow> (\<exists>zs. p = (zs, y) \<and> xs = x # zs)"
  by (cases p) auto

lemma split_breaks_one_line: "split_breaks s = ([], rest) \<Longrightarrow> rest = s"
  by (induction s arbitrary: rest rule: split_breaks.induct) (auto split: if_splits prod.splits list.splits)

lemma split_breaks_rest: "split_breaks s = (ls, rest) \<Longrightarrow> no_break rest \<and> (\<exists>t. s = t @ rest)"
proof (induction s arbitrary: ls rest rule: split_breaks.induct)
  case 1
  then show ?case by simp
next
  case (2 c cs)
  show ?case
  proof (cases "c = carriage_return \<and> cs \<noteq> [] \<and> hd cs = line_feed")
    case True
    then obtain ls' where rec: "split_breaks (tl cs) = (ls', rest)" using "2.prems" by (auto simp: prod_eq_iff)
    from "2.IH"(1) [OF True rec] obtain t where "no_break rest" "tl cs = t @ rest" by blast
    with True show ?thesis by (cases cs) (auto intro: exI [of _ "c # hd cs # t"])
  next
    case crlf: False
    show ?thesis
    proof (cases "c = carriage_return \<or> c = line_feed")
      case True
      with crlf obtain ls' where rec: "split_breaks cs = (ls', rest)"
        using "2.prems" by (auto simp: prod_eq_iff split: if_splits)
      from "2.IH"(2) [OF crlf True rec] obtain t where "no_break rest" "cs = t @ rest" by blast
      then show ?thesis by (auto intro: exI [of _ "c # t"])
    next
      case False
      obtain ls' rest' where rec: "split_breaks cs = (ls', rest')" by (cases "split_breaks cs")
      from "2.IH"(3) [OF crlf False rec] obtain t where t: "no_break rest'" "cs = t @ rest'" by blast
      show ?thesis
      proof (cases ls')
        case Nil
        then show ?thesis
          using crlf False "2.prems" rec t split_breaks_one_line [of cs rest'] by (auto intro: exI [of _ "[]"])
      next
        case (Cons l ls'')
        then show ?thesis using crlf False "2.prems" rec t by (auto intro: exI [of _ "c # t"])
      qed
    qed
  qed
qed

lemma split_breaks_rest_drop:
  assumes "split_breaks s = (ls, rest)"
  shows "drop (length s - length rest) s = rest"
  using split_breaks_rest [OF assms] by auto

lemma scan_text_lines:
  assumes "line_start \<le> index" and "index \<le> length buffer"
    and "no_break (take (index - line_start) (drop line_start buffer))"
  shows "scan_text buffer index line_start st events =
    (let (ls, rest) = split_breaks (drop line_start buffer); (evs, st') = decode_lines ls st
     in (events @ evs, st', length buffer - length rest))"
  using assms
proof (induction buffer index line_start st events rule: scan_text.induct)
  case (1 buffer index line_start st events)
  define line where "line = take (index - line_start) (drop line_start buffer)"
  have split: "drop line_start buffer = line @ drop index buffer"
    using "1.prems" by (simp add: line_def) (metis append_take_drop_id drop_drop le_add_diff_inverse2)
  have line: "no_break line" using "1.prems" by (simp add: line_def)
  show ?case
  proof (cases "length buffer \<le> index")
    case True
    then have "split_breaks (drop line_start buffer) = ([], line)"
      using split line by (simp add: split_breaks_no_break)
    moreover have "length line = length buffer - line_start" using True "1.prems" by (simp add: line_def)
    ultimately show ?thesis using True "1.prems" by (simp add: scan_text.simps)
  next
    case inside: False
    define c where "c = buffer ! index"
    have c: "drop index buffer = c # drop (index + 1) buffer"
      using inside by (simp add: c_def Cons_nth_drop_Suc)
    show ?thesis
    proof (cases "break_len buffer index = 0")
      case True
      then have "c \<noteq> carriage_return" "c \<noteq> line_feed" by (auto simp: break_len_def c_def split: if_splits)
      moreover have "take (index + 1 - line_start) (drop line_start buffer) = line @ [c]"
        using inside "1.prems" by (simp add: line_def c_def Suc_diff_le take_Suc_conv_app_nth)
      ultimately have "scan_text buffer (index + 1) line_start st events =
        (let (ls, rest) = split_breaks (drop line_start buffer); (evs, st') = decode_lines ls st
         in (events @ evs, st', length buffer - length rest))"
        using inside True "1.prems" line by (intro "1.IH"(1)) auto
      then show ?thesis using inside True by (subst scan_text.simps) simp
    next
      case False
      define index' where "index' = index + break_len buffer index"
      obtain event st' where dl: "decode_line line st = (event, st')" by (cases "decode_line line st")
      have tail: "tl (drop (Suc index) buffer) = drop (Suc (Suc index)) buffer"
        by (simp add: drop_Suc tl_drop)
      have step: "split_breaks (drop index buffer) = apfst (Cons []) (split_breaks (drop index' buffer))"
        and le: "index' \<le> length buffer"
        using False inside
        by (auto simp: c index'_def break_len_def c_def hd_drop_conv_nth tail split: if_splits)
      then have "split_breaks (drop line_start buffer) =
          (case split_breaks (drop index' buffer) of (ls, rest) \<Rightarrow> (line # ls, rest))"
        by (simp add: split split_breaks_prefix line split: prod.split)
      moreover have "scan_text buffer index' index' st' (events @ (case event of None \<Rightarrow> [] | Some e \<Rightarrow> [e])) =
        (let (ls, rest) = split_breaks (drop index' buffer); (evs, st'') = decode_lines ls st'
         in ((events @ (case event of None \<Rightarrow> [] | Some e \<Rightarrow> [e])) @ evs, st'', length buffer - length rest))"
        using inside False le dl unfolding index'_def line_def by (intro "1.IH"(2)) auto
      ultimately show ?thesis
        using inside False dl
        by (subst scan_text.simps) (simp add: line_def index'_def Let_def split: prod.split)
    qed
  qed
qed

lemma push_text_lines:
  assumes "no_break (sd_buffer d)"
  shows "push_text chunk d =
    (let (ls, rest) = split_breaks (sd_buffer d @ chunk); (events, st) = decode_lines ls (sd_state d)
     in (events, \<lparr>sd_state = st, sd_buffer = rest\<rparr>))"
  using assms split_breaks_rest_drop [of "sd_buffer d @ chunk"]
  by (auto simp: push_text_def scan_text_lines Let_def split: prod.split)

lemma push_text_no_break:
  assumes "no_break (sd_buffer d)" and "push_text chunk d = (events, d')"
  shows "no_break (sd_buffer d')"
  using assms split_breaks_rest [of "sd_buffer d @ chunk"]
  by (auto simp: push_text_lines Let_def split: prod.splits)

section \<open>Splitting the text\<close>

text \<open>The split that separates a carriage return from the line feed after it.\<close>

definition joins_text :: "string \<Rightarrow> string \<Rightarrow> bool" where
  "joins_text a b \<longleftrightarrow> \<not> (a \<noteq> [] \<and> last a = carriage_return \<and> b \<noteq> [] \<and> hd b = line_feed)"

lemma split_breaks_append:
  "joins_text a b \<Longrightarrow> split_breaks (a @ b) =
     (case split_breaks a of (ls, rest) \<Rightarrow> apfst ((@) ls) (split_breaks (rest @ b)))"
proof (induction a rule: split_breaks.induct)
  case 1
  then show ?case by (simp add: prod_eq_iff)
next
  case (2 c cs)
  show ?case
  proof (cases "c = carriage_return \<and> cs \<noteq> [] \<and> hd cs = line_feed")
    case True
    then obtain cs' where cs: "cs = line_feed # cs'" by (cases cs) auto
    then have "joins_text (tl cs) b" using "2.prems" by (auto simp: joins_text_def)
    with "2.IH"(1) [OF True] True cs show ?thesis by (simp add: prod_eq_iff split: prod.split)
  next
    case crlf: False
    show ?thesis
    proof (cases "c = carriage_return \<or> c = line_feed")
      case True
      have "\<not> (c = carriage_return \<and> cs @ b \<noteq> [] \<and> hd (cs @ b) = line_feed)"
        using crlf "2.prems" by (cases cs) (auto simp: joins_text_def)
      moreover have "joins_text cs b" using "2.prems" by (auto simp: joins_text_def split: if_splits)
      ultimately show ?thesis using "2.IH"(2) [OF crlf True] crlf True by (auto simp: prod_eq_iff split: prod.split)
    next
      case False
      have "joins_text cs b" using "2.prems" False by (auto simp: joins_text_def split: if_splits)
      with "2.IH"(3) [OF crlf False] False show ?thesis
        by (auto simp: split_breaks_one_line split: prod.split list.split)
    qed
  qed
qed

lemma decode_lines_append:
  "decode_lines (ls @ ls') st =
     (let (xs, st1) = decode_lines ls st; (ys, st2) = decode_lines ls' st1 in (xs @ ys, st2))"
  by (induction ls arbitrary: st) (simp_all add: Let_def split: prod.split)

definition sse_push :: "string \<Rightarrow> sse_decoder \<Rightarrow> (unit + server_sent_event list) \<times> sse_decoder" where
  "sse_push chunk d = map_prod Inr id (push_text chunk d)"

lemma joins_text_buffer: "no_break s \<Longrightarrow> joins_text a b \<Longrightarrow> joins_text (s @ a) b"
  by (cases "s = []"; cases "a = []") (auto simp: joins_text_def no_break_def dest: last_in_set)

lemma map_prod_Inr [simp]: "map_prod Inr id p = (Inr xs, d) \<longleftrightarrow> p = (xs, d)"
  by (cases p) auto

lemma map_prod_Inr_Inl [simp]: "map_prod Inr id p \<noteq> (Inl e, d)"
  by (cases p) auto

lemma sse_push_append:
  assumes "no_break (sd_buffer d)" and "joins_text a b"
    and "push_text a d = (xs, d')" and "push_text b d' = (ys, d'')"
  shows "push_text (a @ b) d = (xs @ ys, d'')"
  using assms split_breaks_append [OF joins_text_buffer [OF assms(1,2)]]
    push_text_no_break [OF assms(1,3)]
  by (auto simp: push_text_lines Let_def decode_lines_append split: prod.splits)

interpretation text_chunks: chunked_decoder sse_push "\<lambda>d. no_break (sd_buffer d)" joins_text
proof (unfold_locales, goal_cases)
  case (1 d)
  then show ?case by (simp add: sse_push_def push_text_lines split_breaks_no_break)
next
  case (2 d a xs d')
  then show ?case by (auto simp: sse_push_def intro: push_text_no_break)
next
  case (3 d a b xs d' ys d'')
  then show ?case by (auto simp: sse_push_def sse_push_append)
qed (auto simp: sse_push_def)

lemma push_all_texts: "push_all sse_push cs d = map_prod Inr id (push_texts cs d)"
  by (induction cs arbitrary: d) (auto simp: sse_push_def Let_def split: prod.split)

lemma push_texts_one:
  assumes "well_split joins_text cs"
  shows "push_texts cs sse_decoder_new = push_text (concat cs) sse_decoder_new"
proof -
  obtain xs d where x: "push_texts cs sse_decoder_new = (xs, d)" by (cases "push_texts cs sse_decoder_new")
  have "no_break (sd_buffer sse_decoder_new)" by (simp add: sse_decoder_new_def)
  from text_chunks.push_all_ok_iff [OF this assms, of xs d] x show ?thesis
    by (auto simp: push_all_texts sse_push_def)
qed

lemma decode_one_chunk: "(case push_text body sse_decoder_new of (xs, d) \<Rightarrow> xs @ fst (finish_text d)) = decode_stream body"
  by (auto simp: push_text_lines sse_decoder_new_def finish_text_def decode_stream_def decode_lines_append Let_def
      split: prod.split)

lemma decode_chunks_stream:
  "well_split joins_text cs \<Longrightarrow> decode_chunks cs = decode_stream (concat cs)"
  using decode_one_chunk [of "concat cs"] by (simp add: decode_chunks_def push_texts_one Let_def)


text \<open>
  A chunk that ends between a carriage return and its line feed adds a blank line: the events
  are those of the body with one more line break at that place, so the event in progress there is
  reported early and its later lines become an event of their own.
\<close>

lemma split_crlf_is_a_blank_line:
  "decode_chunks [a @ [carriage_return], line_feed # b]
     = decode_stream (a @ [carriage_return, carriage_return, line_feed] @ b)"
proof -
  obtain ls rest where a: "split_breaks a = (ls, rest)" by (cases "split_breaks a")
  have rest: "no_break rest" using split_breaks_rest [OF a] by simp
  have "split_breaks (a @ [carriage_return]) = (ls @ [rest], [])"
    using split_breaks_append [of a "[carriage_return]"] split_breaks_prefix [OF rest, of "[carriage_return]"]
    by (simp add: a joins_text_def)
  then obtain events st where first: "push_text (a @ [carriage_return]) sse_decoder_new
      = (events, \<lparr>sd_state = st, sd_buffer = []\<rparr>)"
    by (cases "decode_lines (ls @ [rest]) decoder_state_default")
       (simp add: push_text_lines sse_decoder_new_def)
  have "push_text (line_feed # b) \<lparr>sd_state = st, sd_buffer = []\<rparr>
      = push_text (carriage_return # line_feed # b) \<lparr>sd_state = st, sd_buffer = []\<rparr>"
    by (simp add: push_text_lines)
  with first have "decode_chunks [a @ [carriage_return], line_feed # b]
      = decode_chunks [a @ [carriage_return], carriage_return # line_feed # b]"
    by (simp add: decode_chunks_def)
  also have "\<dots> = decode_stream (a @ [carriage_return, carriage_return, line_feed] @ b)"
    by (subst decode_chunks_stream) (simp_all add: joins_text_def)
  finally show ?thesis .
qed

section \<open>Round trip\<close>

text \<open>What a server sends for an event: its name, its data lines, a blank line.\<close>

definition wire_lines :: "string option \<times> string list \<Rightarrow> string list" where
  "wire_lines e =
     (case fst e of None \<Rightarrow> [] | Some name \<Rightarrow> [''event: '' @ name]) @ map (\<lambda>l. ''data: '' @ l) (snd e)"

definition render_event :: "string \<Rightarrow> string option \<times> string list \<Rightarrow> string" where
  "render_event br e = concat (map (\<lambda>l. l @ br) (wire_lines e @ [[]]))"

definition received_event :: "string option \<times> string list \<Rightarrow> server_sent_event" where
  "received_event e = \<lparr>sse_event = fst e, sse_data = join_with [line_feed] (snd e), sse_raw = wire_lines e\<rparr>"

definition sendable_event :: "string option \<times> string list \<Rightarrow> bool" where
  "sendable_event e \<longleftrightarrow> (fst e \<noteq> None \<or> snd e \<noteq> []) \<and> list_all no_break (wire_lines e)"

definition line_break :: "string \<Rightarrow> bool" where
  "line_break br \<longleftrightarrow> br = [line_feed] \<or> br = [carriage_return] \<or> br = [carriage_return, line_feed]"

lemma split_breaks_line:
  assumes "no_break l" and "line_break br" and "t = [] \<or> hd t \<noteq> line_feed \<or> br \<noteq> [carriage_return]"
  shows "split_breaks (l @ br @ t) = apfst (Cons l) (split_breaks t)"
  using assms by (auto simp: line_break_def split_breaks_prefix prod_eq_iff split: prod.split)

lemma hd_lines:
  assumes "list_all no_break ls" and "line_break br" and "br = [carriage_return]"
  shows "concat (map (\<lambda>l. l @ br) ls) = [] \<or> hd (concat (map (\<lambda>l. l @ br) ls)) \<noteq> line_feed"
  using assms by (cases ls; cases "hd ls") auto

lemma split_breaks_lines:
  assumes "list_all no_break ls" and "line_break br"
  shows "split_breaks (concat (map (\<lambda>l. l @ br) ls)) = (ls, [])"
  using assms(1)
proof (induction ls)
  case Nil
  then show ?case by simp
next
  case (Cons l ls)
  let ?t = "concat (map (\<lambda>l. l @ br) ls)"
  have "?t = [] \<or> hd ?t \<noteq> line_feed \<or> br \<noteq> [carriage_return]"
    using hd_lines [OF _ assms(2), of ls] Cons.prems by auto
  from split_breaks_line [OF _ assms(2) this, of l] Cons show ?case by simp
qed

lemma field_of_event: "field_of (''event: '' @ name) = (''event'', name)"
  by (simp add: field_of_def strip_prefix_def)

lemma field_of_data: "field_of (''data: '' @ l) = (''data'', l)"
  by (simp add: field_of_def strip_prefix_def)

lemma decode_data_lines:
  "decode_lines (map (\<lambda>l. ''data: '' @ l) ls) st =
     ([], st\<lparr>ds_data := ds_data st @ ls, ds_raw := ds_raw st @ map (\<lambda>l. ''data: '' @ l) ls\<rparr>)"
  using field_of_data by (induction ls arbitrary: st) (simp_all add: decode_line_def Let_def)

lemma decode_wire_lines:
  assumes "sendable_event e"
  shows "decode_lines (wire_lines e @ [[]]) decoder_state_default = ([received_event e], decoder_state_default)"
proof (cases "fst e")
  case None
  with assms show ?thesis
    by (simp add: wire_lines_def sendable_event_def decode_lines_append decode_data_lines [simplified] decode_line_def
        flush_event_def decoder_state_default_def received_event_def)
next
  case (Some name)
  have "decode_line (''event: '' @ name) decoder_state_default =
    (None, decoder_state_default\<lparr>ds_event := Some name, ds_raw := [''event: '' @ name]\<rparr>)"
    using field_of_event by (simp add: decode_line_def decoder_state_default_def)
  with Some show ?thesis
    by (simp add: wire_lines_def decode_lines_append decode_data_lines [simplified] decode_line_def [of "[]"]
        flush_event_def decoder_state_default_def received_event_def)
qed

text \<open>
  C30. What a server sends is what the decoder reports: a body that renders a sequence of events,
  with any of the three line breaks and split into chunks in any way that keeps carriage return
  and line feed together, is decoded to these events in order, each with its name, its data lines
  joined and its raw lines.
\<close>

theorem rendered_events_are_decoded:
  assumes "list_all sendable_event es" and "line_break br"
    and "well_split joins_text cs" and "concat cs = concat (map (render_event br) es)"
  shows "decode_chunks cs = map received_event es"
proof -
  let ?lines = "concat (map (\<lambda>e. wire_lines e @ [[]]) es)"
  have "concat cs = concat (map (\<lambda>l. l @ br) ?lines)"
    unfolding assms(4) by (induction es) (simp_all add: render_event_def)
  moreover have "list_all no_break ?lines"
    using assms(1) by (induction es) (auto simp: sendable_event_def)
  ultimately have "split_breaks (concat cs) = (?lines, [])"
    using split_breaks_lines assms(2) by simp
  moreover have "decode_lines ?lines decoder_state_default = (map received_event es, decoder_state_default)"
    using assms(1)
  proof (induction es)
    case (Cons e es)
    have "concat (map (\<lambda>e. wire_lines e @ [[]]) (e # es))
        = (wire_lines e @ [[]]) @ concat (map (\<lambda>e. wire_lines e @ [[]]) es)" by simp
    with Cons decode_wire_lines [of e] show ?case
      by (simp only: decode_lines_append) simp
  qed simp
  ultimately show ?thesis
    by (simp add: decode_chunks_stream [OF assms(3)] decode_stream_def flush_event_def decoder_state_default_def)
qed

section \<open>Witnesses\<close>


theorem rendered_events_are_decoded_witness:
  "decode_chunks [''event: m'' @ [carriage_return, line_feed] @ ''data: x'',
      [carriage_return, line_feed] @ ''data: y'' @ [carriage_return, line_feed], [carriage_return, line_feed]]
    = [\<lparr>sse_event = Some ''m'', sse_data = ''x'' @ [line_feed] @ ''y'', sse_raw = [''event: m'', ''data: x'', ''data: y'']\<rparr>]"
  using rendered_events_are_decoded [of "[(Some ''m'', [''x'', ''y''])]" "[carriage_return, line_feed]"
      "[''event: m'' @ [carriage_return, line_feed] @ ''data: x'',
        [carriage_return, line_feed] @ ''data: y'' @ [carriage_return, line_feed], [carriage_return, line_feed]]"]
  by (simp add: sendable_event_def wire_lines_def line_break_def joins_text_def render_event_def received_event_def)

text \<open>The same body, split inside its first line break: the event is cut in two.\<close>

lemma split_crlf_example:
  "decode_chunks [''data: a'' @ [carriage_return], line_feed # ''data: b'' @ [line_feed, line_feed]]
     = [\<lparr>sse_event = None, sse_data = ''a'', sse_raw = [''data: a'']\<rparr>,
        \<lparr>sse_event = None, sse_data = ''b'', sse_raw = [''data: b'']\<rparr>]
   \<and> decode_chunks [''data: a'' @ [carriage_return, line_feed] @ ''data: b'' @ [line_feed, line_feed]]
     = [\<lparr>sse_event = None, sse_data = ''a'' @ [line_feed] @ ''b'', sse_raw = [''data: a'', ''data: b'']\<rparr>]"
  by code_simp

end
