(* ===== verification/Truncate.thy ===== *)
theory Truncate
  imports Rust_Text "HOL-Library.Sublist"
begin

text \<open>
  \<open>crates/pa-core/src/tools/truncate.rs\<close>: the truncation that every tool output passes. Text is
  its UTF-8 bytes; the head keeps whole lines, the tail keeps whole lines or the end of one long
  line, a match line is cut by UTF-16 units.
\<close>

section \<open>Options and results\<close>

record truncation_options =
  to_max_lines :: nat
  to_max_bytes :: nat

definition default_max_lines :: nat where
  "default_max_lines = 2000"

definition default_max_bytes :: nat where
  "default_max_bytes = 50 * 1024"

definition truncation_options_default :: truncation_options where
  "truncation_options_default = \<lparr>to_max_lines = default_max_lines, to_max_bytes = default_max_bytes\<rparr>"

datatype truncated_by = ByLines | ByBytes

record truncation_result =
  tr_content :: string
  tr_truncated :: bool
  tr_truncated_by :: "truncated_by option"
  tr_total_lines :: nat
  tr_total_bytes :: nat
  tr_output_lines :: nat
  tr_output_bytes :: nat
  tr_last_line_partial :: bool
  tr_first_line_exceeds_limit :: bool
  tr_max_lines :: nat
  tr_max_bytes :: nat

text \<open>\<open>content.split('\n')\<close>: at least one line, the last one may be empty.\<close>

fun split_newlines :: "string \<Rightarrow> string list" where
  "split_newlines [] = [[]]"
| "split_newlines (c # s) =
     (if c = line_feed then [] # split_newlines s
      else case split_newlines s of [] \<Rightarrow> [[c]] | l # ls \<Rightarrow> (c # l) # ls)"

definition untruncated :: "string \<Rightarrow> truncation_options \<Rightarrow> truncation_result" where
  "untruncated content options =
     \<lparr>tr_content = content, tr_truncated = False, tr_truncated_by = None,
      tr_total_lines = length (split_newlines content), tr_total_bytes = length content,
      tr_output_lines = length (split_newlines content), tr_output_bytes = length content,
      tr_last_line_partial = False, tr_first_line_exceeds_limit = False,
      tr_max_lines = to_max_lines options, tr_max_bytes = to_max_bytes options\<rparr>"

section \<open>Keeping the head\<close>

text \<open>The loop over the lines, with the index of the next one, the lines kept and their bytes.\<close>

fun head_loop :: "nat \<Rightarrow> nat \<Rightarrow> string list \<Rightarrow> string list \<Rightarrow> nat \<Rightarrow> string list \<times> nat \<times> truncated_by" where
  "head_loop max_bytes i [] output count = (output, count, ByLines)"
| "head_loop max_bytes i (line # lines) output count =
     (let line_bytes = length line + (if 0 < i then 1 else 0)
      in if max_bytes < count + line_bytes then (output, count, ByBytes)
         else head_loop max_bytes (i + 1) lines (output @ [line]) (count + line_bytes))"

definition truncate_head :: "string \<Rightarrow> truncation_options \<Rightarrow> truncation_result" where
  "truncate_head content options =
     (let max_lines = to_max_lines options; max_bytes = to_max_bytes options;
          total_bytes = length content;
          lines = split_newlines content;
          total_lines = length lines
      in if total_lines \<le> max_lines \<and> total_bytes \<le> max_bytes then untruncated content options
         else if max_bytes < length (lines ! 0) then
           \<lparr>tr_content = [], tr_truncated = True, tr_truncated_by = Some ByBytes,
            tr_total_lines = total_lines, tr_total_bytes = total_bytes,
            tr_output_lines = 0, tr_output_bytes = 0,
            tr_last_line_partial = False, tr_first_line_exceeds_limit = True,
            tr_max_lines = max_lines, tr_max_bytes = max_bytes\<rparr>
         else
           let (output, count, truncated_by) = head_loop max_bytes 0 (take max_lines lines) [] 0;
               truncated_by = (if max_lines \<le> length output \<and> count \<le> max_bytes then ByLines else truncated_by);
               output_content = join_with [line_feed] output
           in \<lparr>tr_content = output_content, tr_truncated = True, tr_truncated_by = Some truncated_by,
               tr_total_lines = total_lines, tr_total_bytes = total_bytes,
               tr_output_lines = length output, tr_output_bytes = length output_content,
               tr_last_line_partial = False, tr_first_line_exceeds_limit = False,
               tr_max_lines = max_lines, tr_max_bytes = max_bytes\<rparr>)"

section \<open>Keeping the tail\<close>

function boundary_from :: "string \<Rightarrow> nat \<Rightarrow> nat" where
  "boundary_from bytes start =
     (if start < length bytes \<and> is_continuation (bytes ! start) then boundary_from bytes (start + 1) else start)"
  by pat_completeness auto
termination
  by (relation "measure (\<lambda>(bytes, start). length bytes - start)") auto

declare boundary_from.simps [simp del]

definition truncate_string_to_bytes_from_end :: "string \<Rightarrow> nat \<Rightarrow> string" where
  "truncate_string_to_bytes_from_end s max_bytes =
     (if length s \<le> max_bytes then s
      else from_utf8_lossy (drop (boundary_from s (length s - max_bytes)) s))"

text \<open>The loop over the lines from the last one back, with what it collected.\<close>

fun tail_loop ::
    "nat \<Rightarrow> nat \<Rightarrow> string list \<Rightarrow> string list \<Rightarrow> nat \<Rightarrow> string list \<times> nat \<times> truncated_by \<times> bool" where
  "tail_loop max_lines max_bytes [] collected count = (collected, count, ByLines, False)"
| "tail_loop max_lines max_bytes (line # lines) collected count =
     (if max_lines \<le> length collected then (collected, count, ByLines, False)
      else
        let line_bytes = length line + (if collected \<noteq> [] then 1 else 0)
        in if max_bytes < count + line_bytes then
             (if list_all (\<lambda>l. l = []) collected then
                let kept_blanks = min (length collected) (max_bytes - 1);
                    truncated_line = truncate_string_to_bytes_from_end line (max_bytes - kept_blanks)
                in (truncated_line # take kept_blanks collected, length truncated_line + kept_blanks, ByBytes, True)
              else (collected, count, ByBytes, False))
           else tail_loop max_lines max_bytes lines (line # collected) (count + line_bytes))"

definition truncate_tail :: "string \<Rightarrow> truncation_options \<Rightarrow> truncation_result" where
  "truncate_tail content options =
     (let max_lines = to_max_lines options; max_bytes = to_max_bytes options;
          total_bytes = length content;
          lines = split_newlines content;
          total_lines = length lines
      in if total_lines \<le> max_lines \<and> total_bytes \<le> max_bytes then untruncated content options
         else
           let (collected, count, truncated_by, last_line_partial) = tail_loop max_lines max_bytes (rev lines) [] 0;
               truncated_by = (if max_lines \<le> length collected \<and> count \<le> max_bytes then ByLines else truncated_by);
               output_content = join_with [line_feed] collected
           in \<lparr>tr_content = output_content, tr_truncated = True, tr_truncated_by = Some truncated_by,
               tr_total_lines = total_lines, tr_total_bytes = total_bytes,
               tr_output_lines = length collected, tr_output_bytes = length output_content,
               tr_last_line_partial = last_line_partial, tr_first_line_exceeds_limit = False,
               tr_max_lines = max_lines, tr_max_bytes = max_bytes\<rparr>)"

section \<open>Cutting a match line\<close>

record truncated_line =
  tl_text :: string
  tl_was_truncated :: bool

text \<open>\<open>char::len_utf16\<close>: a character of four bytes is a surrogate pair.\<close>

definition len_utf16 :: "string \<Rightarrow> nat" where
  "len_utf16 ch = (if ch \<noteq> [] \<and> 240 \<le> byte (hd ch) then 2 else 1)"

fun utf16_end :: "nat \<Rightarrow> string list \<Rightarrow> nat \<Rightarrow> nat \<Rightarrow> nat" where
  "utf16_end max_units [] units stop = stop"
| "utf16_end max_units (ch # chs) units stop =
     (if max_units < units + len_utf16 ch then stop
      else utf16_end max_units chs (units + len_utf16 ch) (stop + length ch))"

definition utf16_truncate_end :: "string \<Rightarrow> nat \<Rightarrow> string" where
  "utf16_truncate_end s max_units = take (utf16_end max_units (split_chars s) 0 0) s"

definition utf16_units :: "string \<Rightarrow> nat" where
  "utf16_units s = sum_list (map len_utf16 (split_chars s))"

definition truncate_line :: "string \<Rightarrow> nat \<Rightarrow> truncated_line" where
  "truncate_line line max_chars =
     (if utf16_units line \<le> max_chars then \<lparr>tl_text = line, tl_was_truncated = False\<rparr>
      else \<lparr>tl_text = utf16_truncate_end line max_chars @ ''... [truncated]'', tl_was_truncated = True\<rparr>)"

section \<open>Lines and their joins\<close>

lemma split_newlines_not_Nil [simp]: "split_newlines s \<noteq> []"
  by (induction s) (auto split: list.split)

lemma join_with_Cons: "ls \<noteq> [] \<Longrightarrow> join_with sep (l # ls) = l @ sep @ join_with sep ls"
  by (cases ls) simp_all

lemma join_with_append: "ls \<noteq> [] \<Longrightarrow> ls' \<noteq> [] \<Longrightarrow> join_with sep (ls @ ls') = join_with sep ls @ sep @ join_with sep ls'"
proof (induction ls)
  case (Cons l ls)
  then show ?case by (cases "ls = []") (simp_all add: join_with_Cons)
qed simp

lemma join_split_newlines: "join_with [line_feed] (split_newlines s) = s"
proof (induction s)
  case (Cons c s)
  obtain l ls where "split_newlines s = l # ls" by (cases "split_newlines s") auto
  with Cons show ?case by (cases ls) (auto simp: join_with_Cons)
qed simp

lemma join_with_take_prefix: "prefix (join_with sep (take k ls)) (join_with sep ls)"
proof (cases "take k ls = [] \<or> drop k ls = []")
  case False
  then have "join_with sep (take k ls @ drop k ls) = join_with sep (take k ls) @ sep @ join_with sep (drop k ls)"
    by (intro join_with_append) auto
  then show ?thesis by simp
qed auto

lemma join_with_drop_suffix: "suffix (join_with sep (drop k ls)) (join_with sep ls)"
proof (cases "take k ls = [] \<or> drop k ls = []")
  case False
  then have "join_with sep (take k ls @ drop k ls) = join_with sep (take k ls) @ sep @ join_with sep (drop k ls)"
    by (intro join_with_append) auto
  then show ?thesis by (simp add: suffix_def)
qed auto

lemma length_join_snoc:
  "length (join_with [c] (ls @ [l])) = length (join_with [c] ls) + length l + (if ls = [] then 0 else 1)"
  by (cases "ls = []") (simp_all add: join_with_append)

lemma length_join_Cons:
  "length (join_with [c] (l # ls)) = length (join_with [c] ls) + length l + (if ls = [] then 0 else 1)"
  by (cases "ls = []") (simp_all add: join_with_Cons)

section \<open>The head\<close>

lemma head_loop_keeps:
  assumes "head_loop max_bytes (length out) ls out (length (join_with [line_feed] out)) = (out', count, hit)"
    and "length (join_with [line_feed] out) \<le> max_bytes"
  shows "\<exists>k \<le> length ls. out' = out @ take k ls \<and> count = length (join_with [line_feed] out') \<and> count \<le> max_bytes
    \<and> (if k = length ls then hit = ByLines
       else hit = ByBytes \<and> max_bytes < length (join_with [line_feed] (out @ take (Suc k) ls)))"
  using assms
proof (induction ls arbitrary: out)
  case Nil
  then show ?case by auto
next
  case (Cons l ls)
  let ?join = "join_with [line_feed]"
  have len: "length (?join out) + (length l + (if 0 < length out then 1 else 0)) = length (?join (out @ [l]))"
    by (simp add: length_join_snoc)
  show ?case
  proof (cases "max_bytes < length (?join (out @ [l]))")
    case True
    with Cons.prems len show ?thesis by (auto simp: Let_def intro!: exI [of _ 0])
  next
    case False
    then have "head_loop max_bytes (length (out @ [l])) ls (out @ [l]) (length (?join (out @ [l]))) = (out', count, hit)"
      using Cons.prems len by (simp add: Let_def)
    from Cons.IH [OF this] False obtain k where "k \<le> length ls" "out' = (out @ [l]) @ take k ls"
      "count = length (?join out')" "count \<le> max_bytes"
      "if k = length ls then hit = ByLines else hit = ByBytes \<and> max_bytes < length (?join ((out @ [l]) @ take (Suc k) ls))"
      by auto
    then show ?thesis by (intro exI [of _ "Suc k"]) auto
  qed
qed

lemma head_loop_start:
  assumes "head_loop max_bytes 0 ls [] 0 = (out, count, hit)"
  shows "\<exists>k \<le> length ls. out = take k ls \<and> count = length (join_with [line_feed] out) \<and> count \<le> max_bytes
    \<and> (if k = length ls then hit = ByLines
       else hit = ByBytes \<and> max_bytes < length (join_with [line_feed] (take (Suc k) ls)))"
  by (rule head_loop_keeps [of max_bytes "[]" ls out count hit, unfolded append_Nil list.size(3) join_with.simps(1),
        OF assms le0])

text \<open>
  Keeping the head of an output: an output within both limits is returned as it is; of any
  other one the result is its first \<open>k\<close> lines, whole, in at most \<open>max_bytes\<close> bytes, where
  \<open>k\<close> is the line limit or the next line would not fit, and the counts and the limit that
  the result reports are those of what it keeps.
\<close>

lemma head_keeps_whole_lines:
  assumes "r = truncate_head content options"
  shows "if length (split_newlines content) \<le> to_max_lines options \<and> length content \<le> to_max_bytes options
    then tr_content r = content \<and> \<not> tr_truncated r \<and> tr_truncated_by r = None
    else tr_truncated r \<and> prefix (tr_content r) content
      \<and> tr_content r = join_with [line_feed] (take (tr_output_lines r) (split_newlines content))
      \<and> tr_output_bytes r = length (tr_content r) \<and> tr_output_bytes r \<le> to_max_bytes options
      \<and> tr_output_lines r \<le> min (to_max_lines options) (length (split_newlines content))
      \<and> (tr_output_lines r < to_max_lines options \<longrightarrow> tr_truncated_by r = Some ByBytes
           \<and> to_max_bytes options
             < length (join_with [line_feed] (take (Suc (tr_output_lines r)) (split_newlines content))))"
proof (cases "length (split_newlines content) \<le> to_max_lines options \<and> length content \<le> to_max_bytes options")
  case True
  then show ?thesis by (simp add: assms truncate_head_def untruncated_def Let_def)
next
  case limit: False
  define lines where "lines = split_newlines content"
  have whole: "join_with [line_feed] lines = content" by (simp add: lines_def join_split_newlines)
  show ?thesis
  proof (cases "to_max_bytes options < length (lines ! 0)")
    case True
    moreover have "take (Suc 0) lines = [lines ! 0]"
      by (cases lines) (simp_all add: lines_def)
    ultimately show ?thesis using limit
      by (auto simp: assms truncate_head_def Let_def lines_def [symmetric])
  next
    case False
    obtain out count hit where loop:
      "head_loop (to_max_bytes options) 0 (take (to_max_lines options) lines) [] 0 = (out, count, hit)"
      by (cases "head_loop (to_max_bytes options) 0 (take (to_max_lines options) lines) [] 0")
    define L where "L = take (to_max_lines options) lines"
    from head_loop_start [OF loop [folded L_def]] obtain k where
      kL: "k \<le> length L" "out = take k L" "count = length (join_with [line_feed] out)" "count \<le> to_max_bytes options"
      and stopL: "if k = length L then hit = ByLines
        else hit = ByBytes \<and> to_max_bytes options < length (join_with [line_feed] (take (Suc k) L))"
      by (elim exE conjE) (rule that)
    then have k: "k \<le> min (length lines) (to_max_lines options)" "out = take k lines"
        "count = length (join_with [line_feed] out)" "count \<le> to_max_bytes options"
      by (simp_all add: L_def min_absorb1)
    have takeL: "k < length L \<Longrightarrow> take (Suc k) L = take (Suc k) lines" by (simp add: L_def min_absorb1)
    have stop: "if k = min (length lines) (to_max_lines options) then hit = ByLines
        else hit = ByBytes \<and> to_max_bytes options < length (join_with [line_feed] (take (Suc k) lines))"
    proof (cases "k = length L")
      case True
      then show ?thesis using stopL by (simp add: L_def)
    next
      case False
      then have "k < length L" using kL by simp
      moreover have "length L = min (length lines) (to_max_lines options)" by (simp add: L_def)
      moreover from stopL False have "hit = ByBytes" "to_max_bytes options < length (join_with [line_feed] (take (Suc k) L))"
        by simp_all
      ultimately show ?thesis using takeL by auto
    qed
    have "k = min (length lines) (to_max_lines options) \<Longrightarrow> k = to_max_lines options"
      using k limit whole by (auto simp: min_def lines_def split: if_splits)
    with stop have "k < to_max_lines options \<Longrightarrow>
        hit = ByBytes \<and> to_max_bytes options < length (join_with [line_feed] (take (Suc k) lines))"
      by (auto split: if_splits)
    moreover have "prefix (join_with [line_feed] (take k lines)) content"
      using join_with_take_prefix [of "[line_feed]" k lines] by (simp add: whole)
    moreover have "length out = k" using k by simp
    ultimately show ?thesis using limit False k loop
      by (auto simp: assms truncate_head_def Let_def lines_def [symmetric] simp del: split_paired_Ex)
  qed
qed

section \<open>The tail\<close>

lemma boundary_from_spec:
  "start \<le> length s \<Longrightarrow> start \<le> boundary_from s start \<and> boundary_from s start \<le> length s
    \<and> (boundary_from s start = length s \<or> \<not> is_continuation (s ! boundary_from s start))
    \<and> (\<forall>i. start \<le> i \<longrightarrow> i < boundary_from s start \<longrightarrow> is_continuation (s ! i))"
proof (induction s start rule: boundary_from.induct)
  case (1 s start)
  show ?case
  proof (cases "start < length s \<and> is_continuation (s ! start)")
    case True
    then have eq: "boundary_from s start = boundary_from s (start + 1)" by (subst boundary_from.simps) simp
    from True "1.IH" show ?thesis
      unfolding eq by (auto simp: Suc_le_eq) (metis le_neq_implies_less)+
  next
    case False
    then have "boundary_from s start = start" by (subst boundary_from.simps) auto
    with False "1.prems" show ?thesis by auto
  qed
qed

lemma whole_chars_LF: "whole_chars (line_feed # s) \<longleftrightarrow> whole_chars s"
  by (simp add: whole_chars_unfold char_width_def)

lemma whole_chars_lines: "whole_chars (join_with [line_feed] ls) \<Longrightarrow> list_all whole_chars ls"
proof (induction ls)
  case (Cons l ls)
  show ?case
  proof (cases "ls = []")
    case False
    with Cons.prems have "whole_chars (l @ line_feed # join_with [line_feed] ls)" by (simp add: join_with_Cons)
    then have "whole_chars l" "whole_chars (join_with [line_feed] ls)"
      by (simp_all add: whole_chars_append_iff whole_chars_LF is_continuation_def)
    with Cons.IH show ?thesis by simp
  qed (use Cons.prems in simp)
qed simp

lemma whole_chars_hd: "whole_chars s \<Longrightarrow> s \<noteq> [] \<Longrightarrow> \<not> is_continuation (hd s)"
  by (cases s) (auto simp: whole_chars_unfold is_continuation_def char_width_def Let_def split: if_splits)

text \<open>The longest end of a line that fits and starts at a character.\<close>

definition longest_end :: "string \<Rightarrow> nat \<Rightarrow> string \<Rightarrow> bool" where
  "longest_end line room part \<longleftrightarrow> suffix part line \<and> whole_chars part \<and> length part \<le> room
     \<and> (\<forall>t. suffix t line \<longrightarrow> whole_chars t \<longrightarrow> length t \<le> room \<longrightarrow> length t \<le> length part)"

lemma truncate_from_end_longest:
  assumes "whole_chars s"
  shows "longest_end s room (truncate_string_to_bytes_from_end s room)"
proof (cases "length s \<le> room")
  case True
  then show ?thesis using assms by (auto simp: longest_end_def truncate_string_to_bytes_from_end_def suffix_length_le)
next
  case False
  define j where "j = boundary_from s (length s - room)"
  note j = boundary_from_spec [of "length s - room" s, folded j_def]
  have "drop j s = [] \<or> \<not> is_continuation (hd (drop j s))"
    using j False by (auto simp: hd_drop_conv_nth)
  then have whole: "whole_chars (drop j s)"
    using assms whole_chars_append_iff [of "drop j s" "take j s"] by simp
  have eq: "truncate_string_to_bytes_from_end s room = drop j s"
    using False whole by (simp add: truncate_string_to_bytes_from_end_def j_def lossy_whole_chars)
  have "length t \<le> length (drop j s)" if t: "suffix t s" "whole_chars t" "length t \<le> room" for t
  proof (rule ccontr)
    assume long: "\<not> length t \<le> length (drop j s)"
    from t(1) have t_drop: "t = drop (length s - length t) s" by (auto simp: suffix_def)
    have le: "length t \<le> length s" using t(1) by (simp add: suffix_length_le)
    then have "is_continuation (s ! (length s - length t))" using j t(3) long False by auto
    moreover have "t \<noteq> []" using long by auto
    ultimately have "is_continuation (hd t)"
      using le by (subst t_drop, subst hd_drop_conv_nth) (cases t, simp_all)
    with whole_chars_hd [OF t(2) \<open>t \<noteq> []\<close>] show False by simp
  qed
  with whole j False show ?thesis unfolding eq by (auto simp: longest_end_def suffix_drop)
qed

lemma join_blanks: "join_with [line_feed] (part # replicate b []) = part @ replicate b line_feed"
proof (induction b arbitrary: part)
  case (Suc b)
  from Suc [of "[]"] show ?case by simp
qed simp

lemma tail_loop_keeps:
  assumes "tail_loop max_lines max_bytes ls col (length (join_with [line_feed] col)) = (col', count, hit, partial)"
    and "length (join_with [line_feed] col) \<le> max_bytes" and "length col \<le> max_lines" and "list_all whole_chars ls"
  shows "if partial
    then hit = ByBytes \<and> (\<exists>line \<in> set ls. \<exists>b part. col' = part # replicate b [] \<and> Suc b \<le> max_lines
      \<and> b \<le> max_bytes \<and> longest_end line (max_bytes - b) part)
    else \<exists>k \<le> length ls. col' = rev (take k ls) @ col \<and> count = length (join_with [line_feed] col')
      \<and> count \<le> max_bytes \<and> length col' \<le> max_lines
      \<and> (length col' < max_lines \<longrightarrow> k < length ls
          \<longrightarrow> hit = ByBytes \<and> max_bytes < length (join_with [line_feed] (ls ! k # col')))"
  using assms
proof (induction ls arbitrary: col)
  case Nil
  then show ?case by auto
next
  case (Cons l ls)
  let ?join = "join_with [line_feed]"
  have len: "length (?join col) + (length l + (if col \<noteq> [] then 1 else 0)) = length (?join (l # col))"
    by (simp add: length_join_Cons)
  show ?case
  proof (cases "max_lines \<le> length col")
    case True
    with Cons.prems show ?thesis by (auto intro!: exI [of _ 0])
  next
    case room: False
    show ?thesis
    proof (cases "max_bytes < length (?join (l # col))")
      case True
      show ?thesis
      proof (cases "list_all (\<lambda>l. l = []) col")
        case blank: True
        define b where "b = min (length col) (max_bytes - 1)"
        have col: "col = replicate (length col) []"
          using blank by (induction col) auto
        then have "take b col = replicate b []" using b_def by (metis min.cobounded1 take_replicate min.absorb1)
        moreover have "length (?join col) = length col - 1"
          by (subst col, cases "length col") (simp_all add: join_blanks)
        then have "b \<le> max_bytes" "Suc b \<le> max_lines" using room by (auto simp: b_def)
        moreover define part where "part = truncate_string_to_bytes_from_end l (max_bytes - b)"
        moreover have "longest_end l (max_bytes - b) part"
          using Cons.prems by (simp add: truncate_from_end_longest part_def)
        moreover have "tail_loop max_lines max_bytes (l # ls) col (length (?join col))
            = (part # take b col, length part + b, ByBytes, True)"
          using True room blank len by (simp add: Let_def b_def part_def)
        ultimately show ?thesis using Cons.prems(1) by auto
      next
        case False
        with Cons.prems True room len show ?thesis by (auto simp: Let_def intro!: exI [of _ 0])
      qed
    next
      case False
      then have "tail_loop max_lines max_bytes ls (l # col) (length (?join (l # col))) = (col', count, hit, partial)"
        using Cons.prems room len by (simp add: Let_def)
      moreover have "length (?join (l # col)) \<le> max_bytes" "length (l # col) \<le> max_lines" "list_all whole_chars ls"
        using False room Cons.prems(4) by simp_all
      ultimately have IH: "if partial
        then hit = ByBytes \<and> (\<exists>line \<in> set ls. \<exists>b part. col' = part # replicate b [] \<and> Suc b \<le> max_lines
          \<and> b \<le> max_bytes \<and> longest_end line (max_bytes - b) part)
        else \<exists>k \<le> length ls. col' = rev (take k ls) @ l # col \<and> count = length (?join col')
          \<and> count \<le> max_bytes \<and> length col' \<le> max_lines
          \<and> (length col' < max_lines \<longrightarrow> k < length ls
              \<longrightarrow> hit = ByBytes \<and> max_bytes < length (?join (ls ! k # col')))"
        by (rule Cons.IH)
      show ?thesis
      proof (cases partial)
        case True
        with IH show ?thesis by auto
      next
        case np: False
        from IH [unfolded if_not_P [OF np]] obtain k where "k \<le> length ls" "col' = rev (take k ls) @ l # col"
          "count = length (?join col')" "count \<le> max_bytes" "length col' \<le> max_lines"
          "length col' < max_lines \<longrightarrow> k < length ls \<longrightarrow> hit = ByBytes \<and> max_bytes < length (?join (ls ! k # col'))"
          by (elim exE conjE) (rule that)
        then show ?thesis using np by (intro if_not_P [THEN iffD2] exI [of _ "Suc k"]) simp_all
      qed
    qed
  qed
qed

lemma whole_chars_blanks: "whole_chars (replicate b line_feed)"
  by (induction b) (simp_all add: whole_chars_LF)

lemma whole_chars_drop_lines:
  assumes "whole_chars (join_with [line_feed] ls)"
  shows "whole_chars (join_with [line_feed] (drop k ls))"
proof (cases "take k ls = [] \<or> drop k ls = []")
  case False
  then have "join_with [line_feed] (take k ls @ drop k ls)
      = join_with [line_feed] (take k ls) @ line_feed # join_with [line_feed] (drop k ls)"
    by (subst join_with_append) auto
  with assms show ?thesis by (simp add: whole_chars_append_iff whole_chars_LF is_continuation_def)
qed (use assms in auto)

lemma rev_take_rev: "rev (take k (rev xs)) = drop (length xs - k) xs"
  by (simp add: take_rev)


section \<open>A match line\<close>

lemma utf16_end_spec:
  assumes "units \<le> max_units"
  shows "\<exists>k \<le> length chs. utf16_end max_units chs units stop = stop + length (concat (take k chs))
    \<and> units + sum_list (map len_utf16 (take k chs)) \<le> max_units
    \<and> (k < length chs \<longrightarrow> max_units < units + sum_list (map len_utf16 (take (Suc k) chs)))"
  using assms
proof (induction chs arbitrary: units stop)
  case Nil
  then show ?case by simp
next
  case (Cons ch chs)
  show ?case
  proof (cases "max_units < units + len_utf16 ch")
    case True
    with Cons.prems show ?thesis by (auto intro!: exI [of _ 0])
  next
    case False
    then have "units + len_utf16 ch \<le> max_units" by simp
    from Cons.IH [OF this, of "stop + length ch"] obtain k where "k \<le> length chs"
      "utf16_end max_units chs (units + len_utf16 ch) (stop + length ch) = stop + length ch + length (concat (take k chs))"
      "units + len_utf16 ch + sum_list (map len_utf16 (take k chs)) \<le> max_units"
      "k < length chs \<longrightarrow> max_units < units + len_utf16 ch + sum_list (map len_utf16 (take (Suc k) chs))"
      by blast
    with False show ?thesis by (intro exI [of _ "Suc k"]) (auto simp: add.assoc)
  qed
qed

lemma split_chars_hd: "s = [] \<or> \<not> is_continuation (hd s) \<Longrightarrow>
    concat (take k (split_chars s)) = [] \<or> \<not> is_continuation (hd (concat (take k (split_chars s))))"
  by (cases s; cases k) auto

lemma takeWhile_append_stop:
  "list_all P a \<Longrightarrow> b = [] \<or> \<not> P (hd b) \<Longrightarrow> takeWhile P (a @ b) = a \<and> dropWhile P (a @ b) = b"
  by (induction a) (cases b, auto)

lemma split_chars_take: "split_chars (concat (take k (split_chars s))) = take k (split_chars s)"
proof (induction s arbitrary: k rule: split_chars.induct)
  case (2 c s)
  show ?case
  proof (cases k)
    case (Suc k')
    let ?rest = "concat (take k' (split_chars (dropWhile is_continuation s)))"
    have "?rest = [] \<or> \<not> is_continuation (hd ?rest)"
      by (rule split_chars_hd) (metis hd_dropWhile)
    moreover have "list_all is_continuation (takeWhile is_continuation s)"
      by (auto simp: list_all_iff dest: set_takeWhileD)
    ultimately have "takeWhile is_continuation (takeWhile is_continuation s @ ?rest) = takeWhile is_continuation s"
      "dropWhile is_continuation (takeWhile is_continuation s @ ?rest) = ?rest"
      using takeWhile_append_stop by blast+
    with 2 [of k'] show ?thesis by (simp add: Suc)
  qed simp
qed simp

text \<open>
  Cutting a match line: a line within the limit of UTF-16 units is returned as it is; of a
  longer one the result is its longest prefix of whole characters within the limit, so that a
  surrogate pair is never divided, with the mark of the truncation.
\<close>

lemma match_line_is_cut_at_a_character:
  "\<exists>k \<le> length (split_chars line). let kept = concat (take k (split_chars line)) in
     truncate_line line limit =
       (if utf16_units line \<le> limit then \<lparr>tl_text = line, tl_was_truncated = False\<rparr>
        else \<lparr>tl_text = kept @ ''... [truncated]'', tl_was_truncated = True\<rparr>)
     \<and> prefix kept line \<and> utf16_units kept \<le> limit
     \<and> (utf16_units line \<le> limit \<or> limit < utf16_units (concat (take (Suc k) (split_chars line))))"
proof -
  from utf16_end_spec [of 0 limit "split_chars line" 0] obtain k where k: "k \<le> length (split_chars line)"
    "utf16_end limit (split_chars line) 0 0 = length (concat (take k (split_chars line)))"
    "sum_list (map len_utf16 (take k (split_chars line))) \<le> limit"
    "k < length (split_chars line) \<longrightarrow> limit < sum_list (map len_utf16 (take (Suc k) (split_chars line)))" by auto
  have line: "concat (take k (split_chars line)) @ concat (drop k (split_chars line)) = line"
    by (metis append_take_drop_id concat_append concat_split_chars)
  then have taken: "take (length (concat (take k (split_chars line)))) line = concat (take k (split_chars line))"
    by (metis append_eq_conv_conj)
  have full: "k = length (split_chars line) \<Longrightarrow> utf16_units line \<le> limit"
    using k(3) by (simp add: utf16_units_def)
  have "prefix (concat (take k (split_chars line))) line" using line by (metis prefixI)
  moreover have "truncate_line line limit =
    (if utf16_units line \<le> limit then \<lparr>tl_text = line, tl_was_truncated = False\<rparr>
     else \<lparr>tl_text = concat (take k (split_chars line)) @ ''... [truncated]'', tl_was_truncated = True\<rparr>)"
    by (simp add: truncate_line_def utf16_truncate_end_def k(2) taken)
  moreover have "utf16_units (concat (take k (split_chars line))) \<le> limit"
    using k(3) by (simp add: utf16_units_def split_chars_take)
  moreover have "utf16_units line \<le> limit \<or> limit < utf16_units (concat (take (Suc k) (split_chars line)))"
    using k(1,4) full by (cases "k = length (split_chars line)") (simp_all add: utf16_units_def split_chars_take)
  ultimately show ?thesis unfolding Let_def using k(1) by blast
qed

section \<open>Witnesses\<close>

theorem head_keeps_whole_lines_witness:
  "tr_content (truncate_head (''ab'' @ [line_feed] @ ''cd'' @ [line_feed] @ ''ef'') \<lparr>to_max_lines = 9, to_max_bytes = 6\<rparr>)
     = ''ab'' @ [line_feed] @ ''cd''
   \<and> tr_truncated_by (truncate_head (''ab'' @ [line_feed] @ ''cd'' @ [line_feed] @ ''ef'')
       \<lparr>to_max_lines = 9, to_max_bytes = 6\<rparr>) = Some ByBytes"
proof -
  have "tr_output_lines (truncate_head (''ab'' @ [line_feed] @ ''cd'' @ [line_feed] @ ''ef'')
      \<lparr>to_max_lines = 9, to_max_bytes = 6\<rparr>) = 2" by code_simp
  with head_keeps_whole_lines [OF refl, of "''ab'' @ [line_feed] @ ''cd'' @ [line_feed] @ ''ef''"
      "\<lparr>to_max_lines = 9, to_max_bytes = 6\<rparr>"] show ?thesis by (simp add: eval_nat_numeral)
qed


end
