(* ===== verification/ProviderRetry.thy ===== *)
theory ProviderRetry
  imports AgentTypes Rust_Text Rust_Float SessionTypes SessionTime "HOL-Library.Word"
begin

unbundle bit_operations_syntax

text \<open>
  The retry policy for provider failures: \<open>crates/pa-core/src/session_engine/provider_retry.rs\<close>
  (classification, delays, jitter), the quota park of \<open>provider_park.rs\<close> and the overflow
  classifier of \<open>crates/pa-ai/src/utils_inner/overflow.rs\<close>. The \<open>regex\<close> crate is the parameter
  \<open>is_match\<close>, applied to the patterns of the code; the clock and the call counter behind the
  jitter sample are arguments.
\<close>

section \<open>The policy\<close>

record provider_retry_policy =
  rp_enabled :: bool
  rp_max_retries :: nat
  rp_base_delay_ms :: nat
  rp_max_retry_delay_ms :: nat
  rp_max_delay_ms :: nat

definition unbounded_backoff_ms :: nat where
  "unbounded_backoff_ms = u64_max"

definition default_provider_retry_policy :: provider_retry_policy where
  "default_provider_retry_policy =
     \<lparr>rp_enabled = True, rp_max_retries = 3, rp_base_delay_ms = 2000, rp_max_retry_delay_ms = 60000,
      rp_max_delay_ms = unbounded_backoff_ms\<rparr>"

datatype provider_retry_delay = Wait nat | ExceedsCap nat

definition max_timer_delay_ms :: nat where
  "max_timer_delay_ms = 2147483647"

section \<open>What a failed message says\<close>

definition has_diagnostic :: "string \<Rightarrow> assistant_message \<Rightarrow> bool" where
  "has_diagnostic kind m =
     (case am_diagnostics m of None \<Rightarrow> False | Some ds \<Rightarrow> list_ex (\<lambda>d. dg_kind d = kind) ds)"

definition is_agent_lifecycle_failure :: "assistant_message \<Rightarrow> bool" where
  "is_agent_lifecycle_failure m = has_diagnostic ''agent_lifecycle_failure'' m"

definition is_faux_provider_queue_exhausted :: "assistant_message \<Rightarrow> bool" where
  "is_faux_provider_queue_exhausted m \<longleftrightarrow>
     am_provider m = ''faux'' \<and> am_error_message m = Some ''No more faux responses queued''"

definition provider_stream_failure_details :: "assistant_message \<Rightarrow> json option" where
  "provider_stream_failure_details m =
     (case am_diagnostics m of
        None \<Rightarrow> None
      | Some ds \<Rightarrow>
          (case find (\<lambda>d. dg_kind d = ''provider_stream_failure'') ds of
             None \<Rightarrow> None
           | Some d \<Rightarrow>
               (case dg_details d of
                  None \<Rightarrow> None
                | Some details \<Rightarrow> if is_object details then Some details else None)))"

definition failure_field :: "string \<Rightarrow> assistant_message \<Rightarrow> json option" where
  "failure_field key m = Option.bind (provider_stream_failure_details m) (json_get key)"

definition provider_stream_failure_kind :: "assistant_message \<Rightarrow> string option" where
  "provider_stream_failure_kind m = Option.bind (failure_field ''kind'' m) json_as_str"

definition provider_stream_failure_retry_after_ms :: "assistant_message \<Rightarrow> nat option" where
  "provider_stream_failure_retry_after_ms m = Option.bind (failure_field ''retryAfterMs'' m) json_as_u64"

definition provider_stream_failure_status :: "assistant_message \<Rightarrow> nat option" where
  "provider_stream_failure_status m =
     (case Option.bind (failure_field ''status'' m) json_as_u64 of
        Some status \<Rightarrow> if status < 2 ^ 16 then Some status else None
      | None \<Rightarrow> None)"

definition unsupported_tool_failure_marker :: string where
  "unsupported_tool_failure_marker = ''no endpoints found that support tool use''"

definition is_unsupported_tool_failure :: "assistant_message \<Rightarrow> bool" where
  "is_unsupported_tool_failure m \<longleftrightarrow>
     provider_stream_failure_status m = Some 404
     \<and> (case am_error_message m of
          None \<Rightarrow> False
        | Some e \<Rightarrow> contains_str (to_ascii_lowercase e) unsupported_tool_failure_marker)"

definition has_provider_stream_failure :: "assistant_message \<Rightarrow> bool" where
  "has_provider_stream_failure m \<longleftrightarrow>
     \<not> is_faux_provider_queue_exhausted m \<and> provider_stream_failure_details m \<noteq> None"

definition is_permanent_provider_failure_kind :: "string option \<Rightarrow> nat \<Rightarrow> nat option \<Rightarrow> bool" where
  "is_permanent_provider_failure_kind kind retries_performed status =
     (if kind = Some ''invalid_request'' \<and> status = Some 404 then False
      else if kind \<in> Some ` {''invalid_request'', ''refusal'', ''permission'', ''safety'', ''payment_required''} then True
      else if kind = Some ''auth'' then 0 < retries_performed
      else False)"

section \<open>Context overflow\<close>

definition overflow_patterns :: "string list" where
  "overflow_patterns =
     [''prompt is too long'',
      ''request_too_large'',
      ''input is too long for requested model'',
      ''exceeds the context window'',
      ''(?i)input token count.*exceeds the maximum'',
      ''(?i)maximum prompt length is '' @ [CHR 0x5C] @ ''d+'',
      ''(?i)reduce the length of the messages'',
      ''(?i)maximum context length is '' @ [CHR 0x5C] @ ''d+ tokens'',
      ''(?i)exceeds the model'' @ [CHR 0x27] @ ''s maximum context length'',
      ''(?i)exceeds the limit of '' @ [CHR 0x5C] @ ''d+'',
      ''(?i)exceeds the available context size'',
      ''(?i)greater than the context length'',
      ''(?i)context window exceeds limit'',
      ''(?i)exceeded model token limit'',
      ''(?i)too large for model with '' @ [CHR 0x5C] @ ''d+ maximum context length'',
      ''(?i)model_context_window_exceeded'',
      ''(?i)combined input and output tokens'',
      ''(?i)accepts at most '' @ [CHR 0x5C] @ ''d+ combined'',
      ''(?i)reduce the input length or requested output length'',
      ''(?i)prompt too long; exceeded (?:max )?context length'',
      ''(?i)context[_ ]length[_ ]exceeded'',
      ''(?i)too many tokens'',
      ''(?i)token limit exceeded'',
      ''(?i)^4(?:00|13)'' @ [CHR 0x5C] @ ''s*(?:status code)?'' @ [CHR 0x5C] @ ''s*'' @ [CHR 0x5C]
      @ ''(no body'' @ [CHR 0x5C] @ '')'']"

definition non_overflow_patterns :: "string list" where
  "non_overflow_patterns =
     [''(?i)^(Throttling error|Service unavailable):'',
      ''(?i)rate limit'',
      ''(?i)too many requests'']"

definition error_message_has_overflow :: "(string \<Rightarrow> string \<Rightarrow> bool) \<Rightarrow> string \<Rightarrow> bool" where
  "error_message_has_overflow is_match e \<longleftrightarrow>
     \<not> list_ex (\<lambda>p. is_match p e) non_overflow_patterns \<and> list_ex (\<lambda>p. is_match p e) overflow_patterns"

definition is_context_overflow :: "(string \<Rightarrow> string \<Rightarrow> bool) \<Rightarrow> assistant_message \<Rightarrow> nat option \<Rightarrow> bool" where
  "is_context_overflow is_match m context_window \<longleftrightarrow>
     (am_stop_reason m = StopError
        \<and> (case am_error_message m of None \<Rightarrow> False | Some e \<Rightarrow> error_message_has_overflow is_match e))
     \<or> (case context_window of
          None \<Rightarrow> False
        | Some window \<Rightarrow>
            let input_tokens = us_input (am_usage m) + us_cache_read (am_usage m) in
            (am_stop_reason m = StopStop \<and> window < input_tokens)
            \<or> (am_stop_reason m = StopLength \<and> us_output (am_usage m) = 0
               \<and> f64_of (f64_of (of_nat window) * f64_of (99 / 100)) \<le> f64_of (of_nat input_tokens)))"

definition is_context_overflow_failure :: "(string \<Rightarrow> string \<Rightarrow> bool) \<Rightarrow> assistant_message \<Rightarrow> nat \<Rightarrow> bool" where
  "is_context_overflow_failure is_match m context_window =
     is_context_overflow is_match m (if 0 < context_window then Some context_window else None)"

section \<open>Delays\<close>

definition provider_retry_delay :: "nat \<Rightarrow> nat option \<Rightarrow> provider_retry_policy \<Rightarrow> provider_retry_delay" where
  "provider_retry_delay attempt retry_after_ms policy =
     (let exponential =
            min (saturating_mul (rp_base_delay_ms policy) (saturating_pow 2 (saturating_sub attempt 1)))
              (rp_max_delay_ms policy);
          delay_ms = min (max exponential (case retry_after_ms of None \<Rightarrow> 0 | Some ms \<Rightarrow> ms)) max_timer_delay_ms
      in case retry_after_ms of
           Some ms \<Rightarrow>
             if 0 < rp_max_retry_delay_ms policy \<and> rp_max_retry_delay_ms policy < ms then ExceedsCap ms
             else Wait delay_ms
         | None \<Rightarrow> Wait delay_ms)"

definition retry_jitter_fraction :: rat where
  "retry_jitter_fraction = f64_of (1 / 5)"

text \<open>\<open>f64::clamp\<close>, the product and sum with a rounding each, and \<open>f64::round\<close>.\<close>

definition jittered_delay_ms :: "nat \<Rightarrow> rat \<Rightarrow> nat" where
  "jittered_delay_ms delay_ms rand01 =
     (let rand01 = max 0 (min 1 rand01);
          factor = f64_of (1 + f64_of (retry_jitter_fraction * f64_of (f64_of (2 * rand01) - 1)))
      in nat \<lfloor>f64_of (f64_of (of_nat delay_ms) * factor) + 1 / 2\<rfloor>)"

definition xorshift_sample :: "64 word \<Rightarrow> 64 word" where
  "xorshift_sample x =
     (let x = x XOR drop_bit 12 x;
          x = x XOR push_bit 25 x
      in x XOR drop_bit 27 x)"

definition retry_jitter_rand01 :: "64 word \<Rightarrow> 64 word \<Rightarrow> 64 word \<Rightarrow> rat" where
  "retry_jitter_rand01 count subsec_nanos secs =
     (let nanos = subsec_nanos XOR push_bit 32 secs;
          x = xorshift_sample (nanos XOR (count * 0x9E3779B97F4A7C15))
      in f64_of (of_nat (unat x mod 10000) / 10000))"

section \<open>The quota park\<close>

definition provider_resume_grace_ms :: nat where
  "provider_resume_grace_ms = 30000"

definition max_provider_pause_ms :: nat where
  "max_provider_pause_ms = 7 * 86400000"

record provider_park_policy =
  pp_pause_until_reset :: bool
  pp_max_pause_ms :: nat
  pp_max_parks :: nat

definition default_provider_park_policy :: provider_park_policy where
  "default_provider_park_policy =
     \<lparr>pp_pause_until_reset = True, pp_max_pause_ms = 86400000, pp_max_parks = 8\<rparr>"

datatype no_park_reason = ParkDisabled | ParkBudget | NoReset

datatype provider_park_decision = ParkFor nat | NoPark no_park_reason

definition provider_park_decision :: "nat \<Rightarrow> nat option \<Rightarrow> provider_park_policy \<Rightarrow> provider_park_decision" where
  "provider_park_decision parks_used reset_ms policy =
     (if \<not> pp_pause_until_reset policy then NoPark ParkDisabled
      else if pp_max_parks policy \<le> parks_used then NoPark ParkBudget
      else case reset_ms of
             None \<Rightarrow> NoPark NoReset
           | Some ms \<Rightarrow>
               ParkFor (min (saturating_add ms provider_resume_grace_ms)
                 (min (pp_max_pause_ms policy) max_provider_pause_ms)))"

definition is_quota_block_failure :: "assistant_message \<Rightarrow> bool" where
  "is_quota_block_failure m \<longleftrightarrow> provider_stream_failure_kind m = Some ''rate_limit''"

definition quota_failure_reset_ms :: "assistant_message \<Rightarrow> nat option" where
  "quota_failure_reset_ms m = provider_stream_failure_retry_after_ms m"

section \<open>The band of the jitter\<close>

lemma f64_of_band: "\<bar>q\<bar> \<le> B \<Longrightarrow> f64_of q \<le> q + B / 2 ^ 53 \<and> q - B / 2 ^ 53 \<le> f64_of q"
  using f64_of_near [of q B] unfolding abs_diff_le_iff by blast

lemma scaled_near:
  fixes x y z e B :: rat
  assumes "\<bar>x - y\<bar> \<le> e" and "\<bar>z\<bar> \<le> B"
  shows "x * z \<le> y * z + e * B \<and> y * z - e * B \<le> x * z"
proof -
  have "\<bar>x - y\<bar> * \<bar>z\<bar> \<le> e * B" using assms by (intro mult_mono) auto
  then have "\<bar>x * z - y * z\<bar> \<le> e * B" by (simp only: left_diff_distrib [symmetric] abs_mult)
  then show ?thesis unfolding abs_diff_le_iff by blast
qed

lemma jitter_factor_band:
  assumes "0 \<le> r" and "r \<le> 1"
  shows "\<bar>f64_of (1 + f64_of (retry_jitter_fraction * f64_of (f64_of (2 * r) - 1))) - (4 / 5 + 2 / 5 * r)\<bar>
    \<le> 1 / 2 ^ 49"
proof -
  define a where "a = f64_of (2 * r)"
  have a: "a \<le> 2 * r + 2 / 2 ^ 53" "2 * r - 2 / 2 ^ 53 \<le> a"
    using f64_of_band [of "2 * r" 2] assms by (simp_all add: a_def)
  define b where "b = f64_of (a - 1)"
  have "\<bar>a - 1\<bar> \<le> 2" using a assms by (auto simp: abs_le_iff)
  then have b: "b \<le> a - 1 + 2 / 2 ^ 53" "a - 1 - 2 / 2 ^ 53 \<le> b"
    using f64_of_band [of "a - 1" 2] by (simp_all add: b_def)
  define c where "c = retry_jitter_fraction"
  have c: "c \<le> 1 / 5 + 1 / 2 ^ 53" "1 / 5 - 1 / 2 ^ 53 \<le> c"
    using f64_of_band [of "1 / 5" 1] by (simp_all add: c_def retry_jitter_fraction_def)
  have bb: "\<bar>b\<bar> \<le> 2" using a b assms by (auto simp: abs_le_iff)
  have "\<bar>c - 1 / 5\<bar> \<le> 1 / 2 ^ 53" unfolding abs_diff_le_iff using c by simp
  from scaled_near [OF this bb] have cb: "c * b \<le> b / 5 + 2 / 2 ^ 53" "b / 5 - 2 / 2 ^ 53 \<le> c * b"
    by simp_all
  define d where "d = f64_of (c * b)"
  have "\<bar>c * b\<bar> \<le> 2" using cb bb by (auto simp: abs_le_iff)
  then have d: "d \<le> c * b + 2 / 2 ^ 53" "c * b - 2 / 2 ^ 53 \<le> d"
    using f64_of_band [of "c * b" 2] by (simp_all add: d_def)
  define f where "f = f64_of (1 + d)"
  have "\<bar>1 + d\<bar> \<le> 4" using d cb bb by (auto simp: abs_le_iff)
  then have f: "f \<le> 1 + d + 4 / 2 ^ 53" "1 + d - 4 / 2 ^ 53 \<le> f"
    using f64_of_band [of "1 + d" 4] by (simp_all add: f_def)
  have "\<bar>f - (4 / 5 + 2 / 5 * r)\<bar> \<le> 1 / 2 ^ 49"
    unfolding abs_diff_le_iff using a b cb d f by simp
  then show ?thesis by (simp add: a_def b_def c_def d_def f_def)
qed

text \<open>The jittered wait is the wait, scaled by \<open>0.8 + 0.4 * rand01\<close> and rounded.\<close>

lemma jittered_delay_near:
  assumes "delay \<le> max_timer_delay_ms" and r_def: "r = max 0 (min 1 rand01)"
  shows "\<bar>of_nat (jittered_delay_ms delay rand01) - of_nat delay * (4 / 5 + 2 / 5 * r)\<bar> \<le> 3 / 5"
proof -
  have r: "0 \<le> r" "r \<le> 1" by (simp_all add: r_def)
  define g where "g = 4 / 5 + 2 / 5 * r"
  have g: "0 \<le> g" "g \<le> 6 / 5" using r by (simp_all add: g_def)
  define f where "f = f64_of (1 + f64_of (retry_jitter_fraction * f64_of (f64_of (2 * r) - 1)))"
  have f: "\<bar>f - g\<bar> \<le> 1 / 2 ^ 49" using jitter_factor_band [OF r] by (simp only: f_def g_def)
  then have f_le: "\<bar>f\<bar> \<le> 2" using g unfolding abs_diff_le_iff abs_le_iff by simp
  have D: "(of_nat delay :: rat) \<le> 2 ^ 31" using assms by (simp add: max_timer_delay_ms_def)
  define d where "d = f64_of (of_nat delay)"
  have "\<bar>d - of_nat delay\<bar> \<le> 1 / 2 ^ 22"
    using f64_of_near [of "of_nat delay" "2 ^ 31"] D by (simp add: d_def)
  from scaled_near [OF this f_le] have df: "d * f \<le> of_nat delay * f + 1 / 2 ^ 21" "of_nat delay * f - 1 / 2 ^ 21 \<le> d * f"
    by simp_all
  have "\<bar>of_nat delay :: rat\<bar> \<le> 2 ^ 31" using D by simp
  from scaled_near [OF f this]
  have fd: "of_nat delay * f \<le> of_nat delay * g + 1 / 2 ^ 18" "of_nat delay * g - 1 / 2 ^ 18 \<le> of_nat delay * f"
    by (simp_all add: mult.commute)
  have gd: "0 \<le> of_nat delay * g" using g by simp
  have "of_nat delay * g \<le> 2 ^ 31 * (6 / 5)" using D g by (intro mult_mono) simp_all
  then have "\<bar>d * f\<bar> \<le> 2 ^ 32" using df fd gd unfolding abs_le_iff by simp
  define m where "m = f64_of (d * f)"
  have m: "m \<le> d * f + 1 / 2 ^ 21" "d * f - 1 / 2 ^ 21 \<le> m"
    using f64_of_band [OF \<open>\<bar>d * f\<bar> \<le> 2 ^ 32\<close>] by (simp_all add: m_def)
  define n where "n = \<lfloor>m + 1 / 2\<rfloor>"
  have n: "of_int n \<le> m + 1 / 2" "m + 1 / 2 < of_int n + 1" by (simp_all add: n_def) linarith
  have "(-1 :: rat) < of_int n" using n m df fd gd by simp
  then have "-1 < n" by (metis of_int_less_iff of_int_minus of_int_1)
  then have "of_nat (nat n) = (of_int n :: rat)" by simp
  moreover have "jittered_delay_ms delay rand01 = nat n"
    by (simp add: jittered_delay_ms_def r_def [symmetric] f_def [symmetric] d_def [symmetric] m_def [symmetric]
        n_def Let_def)
  ultimately show ?thesis
    unfolding g_def [symmetric] abs_diff_le_iff using n m df fd by simp
qed

lemma jittered_delay_band:
  assumes "delay \<le> max_timer_delay_ms"
  shows "8 * delay \<le> 10 * jittered_delay_ms delay rand01 + 6 \<and> 10 * jittered_delay_ms delay rand01 \<le> 12 * delay + 6"
proof -
  define r where "r = max 0 (min 1 rand01)"
  have r: "0 \<le> r" "r \<le> 1" by (simp_all add: r_def)
  let ?D = "of_nat delay :: rat" and ?n = "of_nat (jittered_delay_ms delay rand01) :: rat"
  have near: "?n \<le> ?D * (4 / 5 + 2 / 5 * r) + 3 / 5" "?D * (4 / 5 + 2 / 5 * r) - 3 / 5 \<le> ?n"
    using jittered_delay_near [OF assms r_def] unfolding abs_diff_le_iff by blast+
  have "?D * (4 / 5 + 2 / 5 * r) \<le> ?D * (6 / 5)" "?D * (4 / 5) \<le> ?D * (4 / 5 + 2 / 5 * r)"
    using mult_left_mono [of "4 / 5 + 2 / 5 * r" "6 / 5" ?D] mult_left_mono [of "4 / 5" "4 / 5 + 2 / 5 * r" ?D] r
    by simp_all
  with near have "(of_nat (8 * delay) :: rat) \<le> of_nat (10 * jittered_delay_ms delay rand01 + 6)"
    and "(of_nat (10 * jittered_delay_ms delay rand01) :: rat) \<le> of_nat (12 * delay + 6)" by simp_all
  then show ?thesis by (simp only: of_nat_le_iff)
qed

lemma provider_retry_delay_bounds:
  assumes "provider_retry_delay attempt retry_after policy = Wait delay"
  shows "delay \<le> max_timer_delay_ms"
    and "retry_after = Some ms \<Longrightarrow> min ms max_timer_delay_ms \<le> delay"
  using assms by (auto simp: provider_retry_delay_def Let_def split: option.splits if_splits)

text \<open>
  A retry waits what the policy asks for, up to the jitter: the wait is at most the timer
  bound, at least the wait the server requested when that is within the bound, and the jittered wait
  stays within twenty percent of it. The jitter is applied after the server's request, though: with
  the lowest sample the retry waits a fifth less than the server asked for.
\<close>

lemma retry_wait_is_in_band:
  assumes "provider_retry_delay attempt requested policy = Wait delay"
  shows "delay \<le> max_timer_delay_ms
    \<and> (requested = Some ms \<longrightarrow> min ms max_timer_delay_ms \<le> delay
         \<and> (0 < rp_max_retry_delay_ms policy \<longrightarrow> ms \<le> rp_max_retry_delay_ms policy))
    \<and> 8 * delay \<le> 10 * jittered_delay_ms delay sample + 6
    \<and> 10 * jittered_delay_ms delay sample \<le> 12 * delay + 6
    \<and> (sample \<le> 0 \<longrightarrow> 10 * jittered_delay_ms delay sample \<le> 8 * delay + 6)"
proof (intro conjI impI)
  note le = provider_retry_delay_bounds(1) [OF assms]
  show "delay \<le> max_timer_delay_ms" by (rule le)
  show "min ms max_timer_delay_ms \<le> delay" if "requested = Some ms"
    using provider_retry_delay_bounds(2) [OF assms that] .
  show "ms \<le> rp_max_retry_delay_ms policy" if "requested = Some ms" "0 < rp_max_retry_delay_ms policy"
    using assms that by (auto simp: provider_retry_delay_def Let_def split: if_splits)
  show "8 * delay \<le> 10 * jittered_delay_ms delay sample + 6" "10 * jittered_delay_ms delay sample \<le> 12 * delay + 6"
    using jittered_delay_band [OF le] by simp_all
  assume "sample \<le> 0"
  then have "max 0 (min 1 sample) = 0" by simp
  from jittered_delay_near [OF le this [symmetric]]
  have "(of_nat (10 * jittered_delay_ms delay sample) :: rat) \<le> of_nat (8 * delay + 6)"
    unfolding abs_diff_le_iff by simp
  then show "10 * jittered_delay_ms delay sample \<le> 8 * delay + 6" by (simp only: of_nat_le_iff)
qed

text \<open>The server asked for nine seconds; the retry may come after 7.2.\<close>

theorem retry_wait_is_in_band_witness:
  "provider_retry_delay 1 (Some 9000) default_provider_retry_policy = Wait 9000
   \<and> jittered_delay_ms 9000 0 = 7200"
proof -
  have wait: "provider_retry_delay 1 (Some 9000) default_provider_retry_policy = Wait 9000"
    by (simp add: provider_retry_delay_def default_provider_retry_policy_def saturating_mul_def saturating_pow_def
        saturating_sub_def unbounded_backoff_ms_def max_timer_delay_ms_def u64_max_def)
  from retry_wait_is_in_band [OF wait, of 0 0] wait show ?thesis by simp
qed

end
