(* ===== verification/AutoRetry.thy ===== *)
theory AutoRetry
  imports ProviderRetry
begin

text \<open>
  The two retry loops: \<open>complete_with_provider_retry\<close> of
  \<open>crates/pa-core/src/session_engine/provider_retry.rs\<close> (one-shot completions) and
  \<open>run_turn_with_auto_retry\<close> of \<open>auto_retry.rs\<close> (a user's turn, with its events). The closures
  that they are given are the functions of a host; a trace of the calls a loop makes is what its
  correctness is stated on.
\<close>

section \<open>The host and the events\<close>

datatype retry_start_reason = Quick | Backup string

datatype auto_retry_event =
    RetryStart nat nat nat string retry_start_reason
  | RetryEnd bool nat "string option" "string option"

text \<open>
  The closures \<open>attempt\<close>, \<open>emit\<close>, \<open>wait\<close> and \<open>park\<close>, the abort signal (no signal is one that
  is never aborted) and the jitter sample, over the state \<open>'w\<close> of their surroundings. A park
  answers with the \<open>status_message\<close> of its outcome.
\<close>

record 'w retry_host =
  rh_attempt :: "'w \<Rightarrow> (string + assistant_message) \<times> 'w"
  rh_emit :: "auto_retry_event \<Rightarrow> 'w \<Rightarrow> (string + unit) \<times> 'w"
  rh_wait :: "nat \<Rightarrow> 'w \<Rightarrow> bool \<times> 'w"
  rh_aborted :: "'w \<Rightarrow> bool"
  rh_sample :: "'w \<Rightarrow> rat \<times> 'w"
  rh_park :: "(assistant_message \<Rightarrow> string \<Rightarrow> 'w \<Rightarrow> string option \<times> 'w) option"

definition with_stop_reason_aborted :: "assistant_message \<Rightarrow> assistant_message" where
  "with_stop_reason_aborted m = m\<lparr>am_stop_reason := StopAborted\<rparr>"

definition final_error_of :: "assistant_message \<Rightarrow> string" where
  "final_error_of m =
     (case am_error_message m of
        Some e \<Rightarrow> if e \<noteq> [] then e else ''Unknown error''
      | None \<Rightarrow> ''Unknown error'')"

section \<open>One-shot completions\<close>

function complete_loop ::
    "provider_retry_policy \<Rightarrow> 'w retry_host \<Rightarrow> nat \<Rightarrow> 'w \<Rightarrow> (string + assistant_message) \<times> 'w" where
  "complete_loop policy host retries_performed w =
     (let max_retries = (if rp_enabled policy then rp_max_retries policy else 0)
      in case rh_attempt host w of
           (Inl e, w1) \<Rightarrow> (Inl e, w1)
         | (Inr m, w1) \<Rightarrow>
             if am_stop_reason m \<noteq> StopError then (Inr m, w1)
             else if rh_aborted host w1 then (Inr (with_stop_reason_aborted m), w1)
             else if max_retries \<le> retries_performed \<or> is_agent_lifecycle_failure m
                  \<or> is_faux_provider_queue_exhausted m \<or> is_unsupported_tool_failure m then (Inr m, w1)
             else if is_permanent_provider_failure_kind (provider_stream_failure_kind m) retries_performed
                       (provider_stream_failure_status m) then (Inr m, w1)
             else
               (case provider_retry_delay (retries_performed + 1) (provider_stream_failure_retry_after_ms m) policy of
                  ExceedsCap _ \<Rightarrow> (Inr m, w1)
                | Wait delay \<Rightarrow>
                    let (sample, w2) = rh_sample host w1;
                        (continue, w3) = rh_wait host (jittered_delay_ms delay sample) w2
                    in if \<not> continue then (Inr (with_stop_reason_aborted m), w3)
                       else complete_loop policy host (retries_performed + 1) w3))"
  by pat_completeness auto
termination
  by (relation "measure (\<lambda>(policy, host, retries, w). (if rp_enabled policy then rp_max_retries policy else 0) - retries)")
     (auto split: if_splits)

declare complete_loop.simps [simp del]

definition complete_with_provider_retry ::
    "provider_retry_policy \<Rightarrow> 'w retry_host \<Rightarrow> 'w \<Rightarrow> (string + assistant_message) \<times> 'w" where
  "complete_with_provider_retry policy host w = complete_loop policy host 0 w"

section \<open>The turn of a user\<close>

definition non_retryable :: "(string \<Rightarrow> string \<Rightarrow> bool) \<Rightarrow> nat \<Rightarrow> nat \<Rightarrow> assistant_message \<Rightarrow> bool" where
  "non_retryable is_match context_window retries_performed m \<longleftrightarrow>
     is_agent_lifecycle_failure m \<or> is_faux_provider_queue_exhausted m
     \<or> is_context_overflow_failure is_match m context_window \<or> is_unsupported_tool_failure m
     \<or> is_permanent_provider_failure_kind (provider_stream_failure_kind m) retries_performed
         (provider_stream_failure_status m)"

text \<open>\<open>emit(..).await?; return Ok(message)\<close>.\<close>

definition emit_and_return ::
    "'w retry_host \<Rightarrow> auto_retry_event \<Rightarrow> assistant_message \<Rightarrow> 'w \<Rightarrow> (string + assistant_message) \<times> 'w" where
  "emit_and_return host event m w =
     (case rh_emit host event w of (Inl e, w') \<Rightarrow> (Inl e, w') | (Inr _, w') \<Rightarrow> (Inr m, w'))"

definition cap_sentence :: "nat \<Rightarrow> provider_retry_policy \<Rightarrow> string" where
  "cap_sentence retry_after_ms policy =
     ''Provider requested a '' @ show_nat ((retry_after_ms + 999) div 1000)
     @ ''s wait before retrying (above retry.provider.maxRetryDelayMs='' @ show_nat (rp_max_retry_delay_ms policy)
     @ ''ms)''"

definition park_seam ::
    "'w retry_host \<Rightarrow> assistant_message \<Rightarrow> string \<Rightarrow> 'w \<Rightarrow> string option \<times> 'w" where
  "park_seam host m abort w =
     (if is_quota_block_failure m
      then (case rh_park host of Some park \<Rightarrow> park m abort w | None \<Rightarrow> (None, w))
      else (None, w))"

definition cap_error :: "string \<Rightarrow> assistant_message \<Rightarrow> string option \<Rightarrow> string" where
  "cap_error abort m parked =
     (case parked of
        Some status_message \<Rightarrow> status_message
      | None \<Rightarrow> abort @ '': '' @ (case am_error_message m of Some e \<Rightarrow> e | None \<Rightarrow> ''unknown error''))"

function retry_loop ::
    "(string \<Rightarrow> string \<Rightarrow> bool) \<Rightarrow> provider_retry_policy \<Rightarrow> nat \<Rightarrow> 'w retry_host \<Rightarrow> nat \<Rightarrow> 'w
     \<Rightarrow> (string + assistant_message) \<times> 'w" where
  "retry_loop is_match policy context_window host retries_performed w =
     (case rh_attempt host w of
        (Inl e, w1) \<Rightarrow> (Inl e, w1)
      | (Inr m, w1) \<Rightarrow>
          if am_stop_reason m \<noteq> StopError then
            (if 0 < retries_performed
             then emit_and_return host (RetryEnd True retries_performed None None) m w1
             else (Inr m, w1))
          else if rh_aborted host w1 then (Inr (with_stop_reason_aborted m), w1)
          else if \<not> rp_enabled policy \<or> non_retryable is_match context_window retries_performed m then
            (if 0 < retries_performed
                \<or> (has_provider_stream_failure m \<and> \<not> is_context_overflow_failure is_match m context_window)
             then emit_and_return host (RetryEnd False retries_performed (Some (final_error_of m)) None) m w1
             else (Inr m, w1))
          else
            let retries_performed = retries_performed + 1 in
            case provider_retry_delay retries_performed (provider_stream_failure_retry_after_ms m) policy of
              ExceedsCap retry_after_ms \<Rightarrow>
                let abort = cap_sentence retry_after_ms policy;
                    (parked, w2) = park_seam host m abort w1
                in emit_and_return host
                     (RetryEnd False (retries_performed - 1) (Some (cap_error abort m parked)) None) m w2
            | Wait delay \<Rightarrow>
                if rp_max_retries policy < retries_performed then
                  emit_and_return host (RetryEnd False (retries_performed - 1) (Some (final_error_of m)) None) m w1
                else
                  let (sample, w2) = rh_sample host w1;
                      delay_ms = jittered_delay_ms delay sample
                  in case rh_emit host
                            (RetryStart retries_performed (rp_max_retries policy) delay_ms (final_error_of m) Quick) w2 of
                       (Inl e, w3) \<Rightarrow> (Inl e, w3)
                     | (Inr _, w3) \<Rightarrow>
                         (case rh_wait host delay_ms w3 of
                            (False, w4) \<Rightarrow>
                              emit_and_return host (RetryEnd False retries_performed (Some ''Retry cancelled'') None)
                                (with_stop_reason_aborted m) w4
                          | (True, w4) \<Rightarrow>
                              retry_loop is_match policy context_window host retries_performed w4))"
  by pat_completeness auto
termination
  by (relation "measure (\<lambda>(is_match, policy, window, host, retries, w). rp_max_retries policy - retries)") auto

declare retry_loop.simps [simp del]

definition run_turn_with_auto_retry ::
    "(string \<Rightarrow> string \<Rightarrow> bool) \<Rightarrow> provider_retry_policy \<Rightarrow> nat \<Rightarrow> 'w retry_host \<Rightarrow> 'w
     \<Rightarrow> (string + assistant_message) \<times> 'w" where
  "run_turn_with_auto_retry is_match policy context_window host w =
     retry_loop is_match policy context_window host 0 w"

section \<open>What a loop does to its host\<close>

datatype retry_action = Attempted | Emitted auto_retry_event | Waited nat | Consulted

text \<open>The same host with a log of the calls.\<close>

definition logged :: "'w retry_host \<Rightarrow> ('w \<times> retry_action list) retry_host" where
  "logged host =
     \<lparr>rh_attempt = \<lambda>(w, t). map_prod id (\<lambda>w. (w, t @ [Attempted])) (rh_attempt host w),
      rh_emit = \<lambda>e (w, t). map_prod id (\<lambda>w. (w, t @ [Emitted e])) (rh_emit host e w),
      rh_wait = \<lambda>d (w, t). map_prod id (\<lambda>w. (w, t @ [Waited d])) (rh_wait host d w),
      rh_aborted = \<lambda>(w, t). rh_aborted host w,
      rh_sample = \<lambda>(w, t). map_prod id (\<lambda>w. (w, t)) (rh_sample host w),
      rh_park = map_option (\<lambda>park m abort (w, t). map_prod id (\<lambda>w. (w, t @ [Consulted])) (park m abort w))
                  (rh_park host)\<rparr>"

text \<open>
  The protocol of a turn after \<open>n\<close> retries: the calls it may still make and the result that
  goes with them. Every retry is announced, waited for and numbered; what ends a turn that has
  been retried is announced, except an abort by the signal and an attempt that fails to run.
\<close>

definition announced :: "provider_retry_policy \<Rightarrow> nat \<Rightarrow> nat \<Rightarrow> string \<Rightarrow> auto_retry_event" where
  "announced policy n delay e = RetryStart n (rp_max_retries policy) delay e Quick"

definition wait_in_band :: "provider_retry_policy \<Rightarrow> nat \<Rightarrow> nat \<Rightarrow> bool" where
  "wait_in_band policy n d \<longleftrightarrow>
     (\<exists>requested base. provider_retry_delay n requested policy = Wait base \<and> base \<le> max_timer_delay_ms
        \<and> 8 * base \<le> 10 * d + 6 \<and> 10 * d \<le> 12 * base + 6)"

inductive retry_trace ::
    "provider_retry_policy \<Rightarrow> nat \<Rightarrow> string + assistant_message \<Rightarrow> retry_action list \<Rightarrow> bool"
  for policy :: provider_retry_policy where
  attempt_failed: "retry_trace policy n (Inl e) [Attempted]"
| first_try: "am_stop_reason m \<noteq> StopError \<Longrightarrow> retry_trace policy 0 (Inr m) [Attempted]"
| not_a_provider_failure: "am_stop_reason m = StopError \<Longrightarrow> retry_trace policy 0 (Inr m) [Attempted]"
| aborted: "retry_trace policy n (Inr (with_stop_reason_aborted m)) [Attempted]"
| recovered: "am_stop_reason m \<noteq> StopError \<Longrightarrow> 0 < n \<Longrightarrow> r = Inr m \<or> r = Inl e
    \<Longrightarrow> retry_trace policy n r [Attempted, Emitted (RetryEnd True n None None)]"
| gave_up: "am_stop_reason m = StopError \<Longrightarrow> r = Inr m \<or> r = Inl e \<Longrightarrow> parks = [] \<or> parks = [Consulted]
    \<Longrightarrow> retry_trace policy n r ([Attempted] @ parks @ [Emitted (RetryEnd False n (Some final) None)])"
| start_failed: "n < rp_max_retries policy
    \<Longrightarrow> retry_trace policy n (Inl e) [Attempted, Emitted (announced policy (Suc n) d why)]"
| cancelled: "n < rp_max_retries policy \<Longrightarrow> wait_in_band policy (Suc n) d
    \<Longrightarrow> r = Inr (with_stop_reason_aborted m) \<or> r = Inl e
    \<Longrightarrow> retry_trace policy n r [Attempted, Emitted (announced policy (Suc n) d why), Waited d,
          Emitted (RetryEnd False (Suc n) (Some ''Retry cancelled'') None)]"
| again: "n < rp_max_retries policy \<Longrightarrow> wait_in_band policy (Suc n) d \<Longrightarrow> retry_trace policy (Suc n) r t
    \<Longrightarrow> retry_trace policy n r (Attempted # Emitted (announced policy (Suc n) d why) # Waited d # t)"

section \<open>Every run follows the protocol\<close>

lemma logged_simps [simp]:
  "rh_attempt (logged host) (w, t) = (case rh_attempt host w of (r, w') \<Rightarrow> (r, (w', t @ [Attempted])))"
  "rh_emit (logged host) ev (w, t) = (case rh_emit host ev w of (r, w') \<Rightarrow> (r, (w', t @ [Emitted ev])))"
  "rh_wait (logged host) d (w, t) = (case rh_wait host d w of (r, w') \<Rightarrow> (r, (w', t @ [Waited d])))"
  "rh_aborted (logged host) (w, t) = rh_aborted host w"
  "rh_sample (logged host) (w, t) = (case rh_sample host w of (r, w') \<Rightarrow> (r, (w', t)))"
  by (simp_all add: logged_def split: prod.split)

lemma logged_park:
  "park_seam (logged host) m abort (w, t) =
     (case park_seam host m abort w of
        (r, w') \<Rightarrow> (r, (w', t @ (if is_quota_block_failure m \<and> rh_park host \<noteq> None then [Consulted] else []))))"
  by (auto simp: park_seam_def logged_def split: option.split prod.split)

lemma logged_emit_and_return:
  "emit_and_return (logged host) ev m (w, t) =
     (case emit_and_return host ev m w of (r, w') \<Rightarrow> (r, (w', t @ [Emitted ev])))"
  by (simp add: emit_and_return_def split: prod.split sum.split)

lemma emit_and_return_result:
  "emit_and_return host ev m w = (r, w') \<Longrightarrow> r = Inr m \<or> (\<exists>e. r = Inl e)"
  by (auto simp: emit_and_return_def split: prod.splits sum.splits)

lemma wait_in_band_jittered:
  "provider_retry_delay n requested policy = Wait base \<Longrightarrow> wait_in_band policy n (jittered_delay_ms base sample)"
  unfolding wait_in_band_def
  using provider_retry_delay_bounds(1) jittered_delay_band by blast

lemma retry_loop_trace:
  "retry_loop is_match policy window (logged host) n (w, t0) = (r, (w', t)) \<Longrightarrow>
    \<exists>t1. t = t0 @ t1 \<and> retry_trace policy n r t1"
proof (induction "rp_max_retries policy - n" arbitrary: n w t0 rule: less_induct)
  case less
  obtain a w1 where attempt: "rh_attempt host w = (a, w1)" by (cases "rh_attempt host w")
  note unfold = less.prems [unfolded retry_loop.simps [of is_match policy window "logged host" n]]
  show ?case
  proof (cases a)
    case (Inl e)
    with unfold attempt show ?thesis by (auto intro: retry_trace.attempt_failed)
  next
    case (Inr m)
    show ?thesis
    proof (cases "am_stop_reason m = StopError")
      case False
      show ?thesis
      proof (cases "0 < n")
        case True
        from unfold attempt Inr False True
        have "emit_and_return (logged host) (RetryEnd True n None None) m (w1, t0 @ [Attempted]) = (r, (w', t))" by simp
        then show ?thesis using False True
          by (auto simp: logged_emit_and_return split: prod.splits dest!: emit_and_return_result
              intro: retry_trace.recovered)
      next
        case zero: False
        with unfold attempt Inr False show ?thesis by (auto intro: retry_trace.first_try)
      qed
    next
      case error: True
      show ?thesis
      proof (cases "rh_aborted host w1")
        case True
        with unfold attempt Inr error show ?thesis by (auto intro: retry_trace.aborted)
      next
        case live: False
        show ?thesis
        proof (cases "\<not> rp_enabled policy \<or> non_retryable is_match window n m")
          case True
          with unfold attempt Inr error live show ?thesis
            by (auto simp: logged_emit_and_return split: if_splits prod.splits dest!: emit_and_return_result
                intro: retry_trace.not_a_provider_failure
                  retry_trace.gave_up [where parks = "[]", simplified])
        next
          case retry: False
          note known = unfold attempt Inr error live retry
          show ?thesis
          proof (cases "provider_retry_delay (Suc n) (provider_stream_failure_retry_after_ms m) policy")
            case (ExceedsCap ms)
            obtain parked w2 where park: "park_seam host m (cap_sentence ms policy) w1 = (parked, w2)"
              by (cases "park_seam host m (cap_sentence ms policy) w1")
            define parks where
              "parks = (if is_quota_block_failure m \<and> rh_park host \<noteq> None then [Consulted] else [])"
            define ev where "ev = RetryEnd False n (Some (cap_error (cap_sentence ms policy) m parked)) None"
            from known ExceedsCap park have
              "emit_and_return (logged host) ev m (w2, t0 @ [Attempted] @ parks) = (r, (w', t))"
              by (simp add: Let_def logged_park parks_def ev_def)
            then have "t = t0 @ [Attempted] @ parks @ [Emitted ev]" "r = Inr m \<or> (\<exists>e. r = Inl e)"
              by (auto simp: logged_emit_and_return split: prod.splits dest!: emit_and_return_result)
            moreover have "parks = [] \<or> parks = [Consulted]" by (simp add: parks_def)
            ultimately show ?thesis
              using retry_trace.gave_up [OF error, of r _ parks] by (auto simp: ev_def)
          next
            case (Wait delay)
            show ?thesis
            proof (cases "rp_max_retries policy < Suc n")
              case True
              with known Wait show ?thesis
                by (auto simp: Let_def logged_emit_and_return split: prod.splits dest!: emit_and_return_result
                    intro: retry_trace.gave_up [where parks = "[]", simplified, OF error])
            next
              case False
              then have room: "n < rp_max_retries policy" by simp
              obtain sample w2 where sample: "rh_sample host w1 = (sample, w2)" by (cases "rh_sample host w1")
              define d where "d = jittered_delay_ms delay sample"
              define start where "start = announced policy (Suc n) d (final_error_of m)"
              have band: "wait_in_band policy (Suc n) d" using wait_in_band_jittered [OF Wait] by (simp add: d_def)
              obtain x w3 where emit: "rh_emit host start w2 = (x, w3)" by (cases "rh_emit host start w2")
              note known = known Wait sample False emit [unfolded start_def announced_def] d_def [symmetric]
              show ?thesis
              proof (cases x)
                case (Inl e)
                with known show ?thesis
                  by (auto simp: Let_def announced_def [symmetric] intro: retry_trace.start_failed [OF room])
              next
                case (Inr unit)
                obtain go w4 where wait: "rh_wait host d w3 = (go, w4)" by (cases "rh_wait host d w3")
                show ?thesis
                proof (cases go)
                  case True
                  with known Inr wait have again: "retry_loop is_match policy window (logged host) (Suc n)
                      (w4, t0 @ [Attempted, Emitted start, Waited d]) = (r, (w', t))"
                    by (simp add: Let_def start_def announced_def)
                  have "rp_max_retries policy - Suc n < rp_max_retries policy - n" using room by simp
                  from less.hyps [OF this again] obtain t1 where
                    "t = t0 @ [Attempted, Emitted start, Waited d] @ t1" "retry_trace policy (Suc n) r t1" by auto
                  with band False show ?thesis
                    by (auto simp: start_def intro: retry_trace.again [OF room])
                next
                  case stop: False
                  with known Inr wait band show ?thesis
                    by (auto simp: Let_def announced_def [symmetric] logged_emit_and_return split: prod.splits dest!: emit_and_return_result
                        intro: retry_trace.cancelled [OF room])
                qed
              qed
            qed
          qed
        qed
      qed
    qed
  qed
qed

text \<open>One round of the loop: what it returns, or the state of the next round.\<close>

definition retry_round ::
    "(string \<Rightarrow> string \<Rightarrow> bool) \<Rightarrow> provider_retry_policy \<Rightarrow> nat \<Rightarrow> 'w retry_host \<Rightarrow> nat \<Rightarrow> 'w
     \<Rightarrow> (string + assistant_message) option \<times> 'w" where
  "retry_round is_match policy window host n w =
     (case rh_attempt host w of
        (Inl e, w1) \<Rightarrow> (Some (Inl e), w1)
      | (Inr m, w1) \<Rightarrow>
          let finish = \<lambda>event m. apfst Some \<circ> emit_and_return host event m in
          if am_stop_reason m \<noteq> StopError then
            (if 0 < n then finish (RetryEnd True n None None) m w1 else (Some (Inr m), w1))
          else if rh_aborted host w1 then (Some (Inr (with_stop_reason_aborted m)), w1)
          else if \<not> rp_enabled policy \<or> non_retryable is_match window n m then
            (if 0 < n \<or> (has_provider_stream_failure m \<and> \<not> is_context_overflow_failure is_match m window)
             then finish (RetryEnd False n (Some (final_error_of m)) None) m w1
             else (Some (Inr m), w1))
          else
            case provider_retry_delay (n + 1) (provider_stream_failure_retry_after_ms m) policy of
              ExceedsCap ms \<Rightarrow>
                (case park_seam host m (cap_sentence ms policy) w1 of
                   (parked, w2) \<Rightarrow>
                     finish (RetryEnd False n (Some (cap_error (cap_sentence ms policy) m parked)) None) m w2)
            | Wait delay \<Rightarrow>
                if rp_max_retries policy < n + 1 then finish (RetryEnd False n (Some (final_error_of m)) None) m w1
                else (case rh_sample host w1 of
                        (sample, w2) \<Rightarrow>
                          (case rh_emit host (announced policy (n + 1) (jittered_delay_ms delay sample) (final_error_of m)) w2 of
                             (Inl e, w3) \<Rightarrow> (Some (Inl e), w3)
                           | (Inr _, w3) \<Rightarrow>
                               (case rh_wait host (jittered_delay_ms delay sample) w3 of
                                  (False, w4) \<Rightarrow>
                                    finish (RetryEnd False (n + 1) (Some ''Retry cancelled'') None)
                                      (with_stop_reason_aborted m) w4
                                | (True, w4) \<Rightarrow> (None, w4)))))"

lemma retry_loop_round:
  "retry_loop is_match policy window host n w =
     (case retry_round is_match policy window host n w of
        (Some r, w') \<Rightarrow> (r, w')
      | (None, w') \<Rightarrow> retry_loop is_match policy window host (n + 1) w')"
  by (subst retry_loop.simps)
     (simp add: retry_round_def Let_def announced_def apfst_def map_prod_def
       split: prod.split sum.split provider_retry_delay.split bool.split)

lemma drop_log_emit:
  "emit_and_return (logged host) ev m (w, t) =
     (fst (emit_and_return host ev m w), (snd (emit_and_return host ev m w), t @ [Emitted ev]))"
  by (simp add: logged_emit_and_return split: prod.split)

lemma apfst_pair: "apfst f p = (f (fst p), snd p)"
  by (cases p) simp

lemma drop_log_round:
  "apsnd fst (retry_round is_match policy window (logged host) n (w, t)) = retry_round is_match policy window host n w"
proof -
  obtain a w1 where attempt: "rh_attempt host w = (a, w1)" by (cases "rh_attempt host w")
  show ?thesis
  proof (cases a)
    case (Inl e)
    with attempt show ?thesis by (simp add: retry_round_def)
  next
    case (Inr m)
    note start = attempt Inr retry_round_def Let_def comp_def drop_log_emit apfst_pair
    consider (settled) "am_stop_reason m \<noteq> StopError \<or> rh_aborted host w1 \<or> \<not> rp_enabled policy
        \<or> non_retryable is_match window n m"
      | (retry) "am_stop_reason m = StopError" "\<not> rh_aborted host w1" "rp_enabled policy"
        "\<not> non_retryable is_match window n m" by blast
    then show ?thesis
    proof cases
      case settled
      then show ?thesis by (auto simp: start)
    next
      case retry
      show ?thesis
      proof (cases "provider_retry_delay (n + 1) (provider_stream_failure_retry_after_ms m) policy")
        case (ExceedsCap ms)
        obtain parked w2 where "park_seam host m (cap_sentence ms policy) w1 = (parked, w2)"
          by (cases "park_seam host m (cap_sentence ms policy) w1")
        with retry ExceedsCap show ?thesis by (simp add: start logged_park)
      next
        case (Wait delay)
        obtain sample w2 where sample: "rh_sample host w1 = (sample, w2)" by (cases "rh_sample host w1")
        obtain x w3 where emit:
          "rh_emit host (announced policy (n + 1) (jittered_delay_ms delay sample) (final_error_of m)) w2 = (x, w3)"
          by (cases "rh_emit host (announced policy (n + 1) (jittered_delay_ms delay sample) (final_error_of m)) w2")
        obtain go w4 where "rh_wait host (jittered_delay_ms delay sample) w3 = (go, w4)"
          by (cases "rh_wait host (jittered_delay_ms delay sample) w3")
        with retry Wait sample emit show ?thesis
          by (cases x; cases go) (simp_all add: start)
      qed
    qed
  qed
qed

lemma logged_round:
  "retry_round is_match policy window (logged host) n (w, t) = (a, x) \<Longrightarrow>
    retry_round is_match policy window host n w = (a, fst x)"
  using drop_log_round [of is_match policy window host n w t] by simp

lemma retry_round_continues:
  "retry_round is_match policy window host n w = (None, w') \<Longrightarrow> n < rp_max_retries policy"
  by (auto simp: retry_round_def Let_def apfst_def map_prod_def
      split: prod.splits sum.splits if_splits provider_retry_delay.splits bool.splits)

lemma logged_run:
  "retry_loop is_match policy window (logged host) n (w, t) = (r, x) \<Longrightarrow>
    retry_loop is_match policy window host n w = (r, fst x)"
proof (induction "rp_max_retries policy - n" arbitrary: n w t rule: less_induct)
  case less
  obtain a y where round: "retry_round is_match policy window (logged host) n (w, t) = (a, y)"
    by (cases "retry_round is_match policy window (logged host) n (w, t)")
  note real = logged_round [OF round]
  show ?case
  proof (cases a)
    case None
    with less.prems round have "retry_loop is_match policy window (logged host) (Suc n) (fst y, snd y) = (r, x)"
      by (subst (asm) retry_loop_round) simp
    moreover have "rp_max_retries policy - Suc n < rp_max_retries policy - n"
      using retry_round_continues [OF round [unfolded None]] by simp
    ultimately show ?thesis
      using less.hyps [of "Suc n" "fst y" "snd y"] real None by (subst retry_loop_round) simp
  next
    case (Some r')
    with less.prems round real show ?thesis by (subst retry_loop_round, subst (asm) retry_loop_round) auto
  qed
qed

lemma retry_trace_attempts:
  "retry_trace policy n r t \<Longrightarrow> n \<le> rp_max_retries policy \<Longrightarrow>
    n + count_list t Attempted \<le> Suc (rp_max_retries policy)"
  by (induction rule: retry_trace.induct) auto


section \<open>The two loops agree\<close>


section \<open>A scripted host\<close>

text \<open>
  A host that runs through a script of messages and never cancels a wait; its signal is aborted
  once the script has run out, when \<open>signal\<close> says so.
\<close>

definition script_host :: "bool \<Rightarrow> assistant_message list retry_host" where
  "script_host signal =
     \<lparr>rh_attempt = \<lambda>ms. (case ms of [] \<Rightarrow> (Inl ''script exhausted'', []) | m # ms' \<Rightarrow> (Inr m, ms')),
      rh_emit = \<lambda>event ms. (Inr (), ms),
      rh_wait = \<lambda>delay ms. (True, ms),
      rh_aborted = \<lambda>ms. signal \<and> ms = [],
      rh_sample = \<lambda>ms. (1 / 2, ms),
      rh_park = None\<rparr>"

definition script_message :: "stop_reason \<Rightarrow> string option \<Rightarrow> assistant_message" where
  "script_message stop kind =
     \<lparr>am_content = [], am_api = ''api'', am_provider = ''p'', am_model = ''m'', am_response_model = None,
      am_response_id = None,
      am_diagnostics = map_option (\<lambda>k. [\<lparr>dg_kind = ''provider_stream_failure'', dg_timestamp = 0, dg_error = None,
        dg_details = Some (JObj [(''kind'', JStr k)])\<rparr>]) kind,
      am_usage = usage_zero, am_stop_reason = stop, am_stop_reason_raw = None, am_error_message = None,
      am_timestamp = 0\<rparr>"

abbreviation server_error :: assistant_message where
  "server_error \<equiv> script_message StopError (Some ''server_error'')"

abbreviation answer :: assistant_message where
  "answer \<equiv> script_message StopStop None"

lemma script_failure:
  "am_stop_reason (script_message stop kind) = stop" "am_error_message (script_message stop kind) = None"
  "provider_stream_failure_kind server_error = Some ''server_error''"
  "provider_stream_failure_status server_error = None" "provider_stream_failure_retry_after_ms server_error = None"
  "is_agent_lifecycle_failure server_error = False" "is_faux_provider_queue_exhausted server_error = False"
  by (simp_all add: script_message_def provider_stream_failure_kind_def provider_stream_failure_status_def
      provider_stream_failure_retry_after_ms_def failure_field_def provider_stream_failure_details_def
      is_agent_lifecycle_failure_def has_diagnostic_def is_faux_provider_queue_exhausted_def)

lemma script_retries:
  "\<not> is_unsupported_tool_failure server_error"
  "\<not> non_retryable (\<lambda>_ _. False) 0 n server_error"
  "\<exists>delay. provider_retry_delay k None default_provider_retry_policy = Wait delay"
  by (simp_all add: non_retryable_def script_failure is_unsupported_tool_failure_def is_context_overflow_failure_def
      is_context_overflow_def is_permanent_provider_failure_kind_def provider_retry_delay_def Let_def)

lemma default_policy_simps:
  "rp_enabled default_provider_retry_policy" "rp_max_retries default_provider_retry_policy = 3"
  by (simp_all add: default_provider_retry_policy_def)


text \<open>
  A turn that is aborted while a retry runs: the retry was announced, its end is not.
\<close>

lemma aborted_retry_is_never_closed:
  "\<exists>delay. run_turn_with_auto_retry (\<lambda>_ _. False) default_provider_retry_policy 0 (logged (script_host True))
       ([server_error, server_error], [])
     = (Inr (with_stop_reason_aborted server_error), ([],
         [Attempted, Emitted (announced default_provider_retry_policy 1 delay ''Unknown error''), Waited delay,
          Attempted]))"
proof -
  obtain delay where delay: "provider_retry_delay (Suc 0) None default_provider_retry_policy = Wait delay"
    using script_retries(3) by blast
  then show ?thesis
    using script_retries(2)
    by (simp add: run_turn_with_auto_retry_def retry_loop.simps [of _ default_provider_retry_policy] script_host_def
        logged_def script_failure default_policy_simps announced_def final_error_of_def Let_def)
qed

end
