(* ===== verification/GoalDriver.thy ===== *)
theory GoalDriver
  imports Goals
begin

text \<open>
  The goal driver: \<open>pa-core/src/session_engine/goal_driver.rs\<close> and its progress gate
  \<open>goal_driver/progress.rs\<close>. The driver's fields and the session it persists into are one state;
  every operation is a program on it that may fail with the error of a session write. The clock is
  the session's: each reading of \<open>now_millis\<close> is its next tick.
\<close>

section \<open>State\<close>

text \<open>The pending flag is an atomic shared with the admission surfaces; each access is one step.\<close>

record goal_driver =
  dr_state :: goal_state
  dr_accounted :: "string set"
  dr_owed :: bool
  dr_pending :: bool
  dr_streak :: nat
  dr_backoff_until :: nat
  dr_parked_until :: nat
  dr_counted :: "int option"

record goal_world =
  gw_driver :: goal_driver
  gw_session :: session_manager

datatype goal_error = GoalStore store_error | GoalInvalid string

type_synonym 'a goal_prog = "(goal_world, goal_error, 'a) prog"

datatype usage_outcome = Accounted | BudgetReached | Ignored

datatype goal_branch_reload = SameTimeline | FaithfulBranch

definition driver_new :: goal_driver where
  "driver_new =
     \<lparr>dr_state = empty_goal_state, dr_accounted = {}, dr_owed = False, dr_pending = False, dr_streak = 0,
      dr_backoff_until = 0, dr_parked_until = 0, dr_counted = None\<rparr>"

definition continuation_no_progress_cap :: nat where
  "continuation_no_progress_cap = 3"

definition continuation_no_progress_backoff_base_ms :: nat where
  "continuation_no_progress_backoff_base_ms = 10000"

definition creation_elapsed_seconds :: "nat option \<Rightarrow> nat \<Rightarrow> nat" where
  "creation_elapsed_seconds created_at now =
     (case created_at of None \<Rightarrow> 0 | Some created \<Rightarrow> saturating_sub now created div 1000)"

definition cap_reason :: string where
  "cap_reason = ''Goal continuation cap reached: consecutive turns made no progress''"

section \<open>Steps\<close>

definition on_session :: "'a store \<Rightarrow> 'a goal_prog" where
  "on_session m w =
     (case m (gw_session w) of
        (Inl e, s) \<Rightarrow> (Inl (GoalStore e), w\<lparr>gw_session := s\<rparr>)
      | (Inr x, s) \<Rightarrow> (Inr x, w\<lparr>gw_session := s\<rparr>))"

definition on_driver :: "(goal_driver \<Rightarrow> goal_driver) \<Rightarrow> unit goal_prog" where
  "on_driver f = upd (\<lambda>w. w\<lparr>gw_driver := f (gw_driver w)\<rparr>)"

definition now_millis :: "session_env \<Rightarrow> nat goal_prog" where
  "now_millis env w =
     (let s = gw_session w
      in (Inr (nat (ev_now env (sm_ticks s))), w\<lparr>gw_session := s\<lparr>sm_ticks := Suc (sm_ticks s)\<rparr>\<rparr>))"

definition new_uuid :: "session_env \<Rightarrow> string goal_prog" where
  "new_uuid env w =
     (let s = gw_session w
      in (Inr (ev_uuid env (sm_draws s)), w\<lparr>gw_session := s\<lparr>sm_draws := Suc (sm_draws s)\<rparr>\<rparr>))"

section \<open>Persisting a state\<close>

definition stamp :: "nat \<Rightarrow> goal_state \<Rightarrow> goal_state" where
  "stamp now g =
     (let n = normalize_goal_state (g\<lparr>gs_updated_at := Some now\<rparr>)
      in case gs_created_at n of
           Some c \<Rightarrow> n\<lparr>gs_time_used_seconds := creation_elapsed_seconds (Some c) now\<rparr>
         | None \<Rightarrow> n)"

definition release :: "goal_driver \<Rightarrow> goal_driver" where
  "release d = d\<lparr>dr_pending := False\<rparr>"

definition adopt :: "goal_state \<Rightarrow> goal_driver \<Rightarrow> goal_driver" where
  "adopt g d = (if gs_status g \<noteq> GsActive then release d else d)\<lparr>dr_state := g\<rparr>"

definition set_state :: "session_env \<Rightarrow> goal_state \<Rightarrow> unit goal_prog" where
  "set_state env g =
     bnd (now_millis env) (\<lambda>now.
       let normalized = stamp now g in
       thn (on_session (append_custom_entry env goal_state_custom_type (Some (goal_to_json normalized))))
         (thn (on_session (flush_now env)) (on_driver (adopt normalized))))"

text \<open>The state of the moment, changed and persisted.\<close>

definition change_state :: "session_env \<Rightarrow> (goal_state \<Rightarrow> goal_state) \<Rightarrow> unit goal_prog" where
  "change_state env f = bnd (gets (\<lambda>w. dr_state (gw_driver w))) (\<lambda>g. set_state env (f g))"

definition end_goal :: "goal_status \<Rightarrow> string option \<Rightarrow> string option \<Rightarrow> goal_state \<Rightarrow> goal_state" where
  "end_goal st reason err g =
     g\<lparr>gs_active := False, gs_status := st, gs_last_reason := reason, gs_last_error := err\<rparr>"

section \<open>The lifecycle\<close>

definition fresh_goal :: "nat \<Rightarrow> string \<Rightarrow> string \<Rightarrow> nat option \<Rightarrow> goal_state" where
  "fresh_goal now goal_id objective budget =
     \<lparr>gs_active = True, gs_status = GsActive, gs_goal_id = Some goal_id, gs_objective = Some objective,
      gs_token_budget = budget, gs_tokens_used = 0, gs_time_used_seconds = 0, gs_continuations_used = 0,
      gs_created_at = Some now, gs_no_progress_streak = Some 0, gs_no_progress_turn_ms = None,
      gs_updated_at = Some now, gs_last_reason = None, gs_last_error = None\<rparr>"

definition fresh_bookkeeping :: "goal_driver \<Rightarrow> goal_driver" where
  "fresh_bookkeeping d =
     d\<lparr>dr_accounted := {}, dr_owed := False, dr_pending := False, dr_streak := 0, dr_backoff_until := 0,
       dr_parked_until := 0, dr_counted := None\<rparr>"

definition restore_bookkeeping :: "goal_driver \<Rightarrow> goal_driver \<Rightarrow> goal_driver" where
  "restore_bookkeeping previous d =
     d\<lparr>dr_accounted := dr_accounted previous, dr_owed := dr_owed previous,
       dr_streak := dr_streak previous, dr_backoff_until := dr_backoff_until previous,
       dr_parked_until := dr_parked_until previous, dr_counted := dr_counted previous,
       dr_pending := (if dr_pending previous then True else dr_pending d)\<rparr>"

definition state_with_creation_elapsed :: "session_env \<Rightarrow> goal_state goal_prog" where
  "state_with_creation_elapsed env =
     bnd (gets (\<lambda>w. dr_state (gw_driver w))) (\<lambda>g.
       case gs_created_at g of
         Some c \<Rightarrow> bnd (now_millis env) (\<lambda>now.
                     ret (g\<lparr>gs_time_used_seconds := creation_elapsed_seconds (Some c) now\<rparr>))
       | None \<Rightarrow> ret g)"

definition start :: "session_env \<Rightarrow> string \<Rightarrow> nat option \<Rightarrow> goal_state goal_prog" where
  "start env objective_text token_budget =
     (case validate_goal_objective objective_text of
        Inl e \<Rightarrow> fail (GoalInvalid e)
      | Inr objective \<Rightarrow>
          (case validate_goal_budget token_budget of
             Inl e \<Rightarrow> fail (GoalInvalid e)
           | Inr budget \<Rightarrow>
               bnd (now_millis env) (\<lambda>now. bnd (new_uuid env) (\<lambda>goal_id.
               bnd (gets gw_driver) (\<lambda>previous.
               thn (on_driver fresh_bookkeeping)
                 (match_result (set_state env (fresh_goal now goal_id objective budget))
                   (\<lambda>_. state_with_creation_elapsed env)
                   (\<lambda>e. thn (on_driver (restore_bookkeeping previous)) (fail e))))))))"

definition drop_deferrals :: "goal_driver \<Rightarrow> goal_driver" where
  "drop_deferrals d = d\<lparr>dr_owed := False, dr_pending := False\<rparr>"

definition clear :: "session_env \<Rightarrow> unit goal_prog" where
  "clear env = thn (set_state env empty_goal_state) (on_driver drop_deferrals)"

definition pause :: "session_env \<Rightarrow> string \<Rightarrow> unit goal_prog" where
  "pause env reason =
     bnd (gets (\<lambda>w. gs_status (dr_state (gw_driver w)))) (\<lambda>st.
       if st \<noteq> GsActive then ret ()
       else thn (change_state env (end_goal GsPaused (Some reason) None)) (on_driver drop_deferrals))"

definition context_message :: "session_env \<Rightarrow> goal_context_kind \<Rightarrow> custom_message option goal_prog" where
  "context_message env kind =
     bnd (gets (\<lambda>w. dr_state (gw_driver w))) (\<lambda>g.
       case gs_objective g of
         None \<Rightarrow> ret None
       | Some _ \<Rightarrow> bnd (now_millis env) (\<lambda>now.
                     case create_goal_context_message now g kind of Inl _ \<Rightarrow> ret None | Inr m \<Rightarrow> ret (Some m)))"

definition exhausted :: "goal_state \<Rightarrow> bool" where
  "exhausted g = (case gs_token_budget g of None \<Rightarrow> False | Some budget \<Rightarrow> budget \<le> gs_tokens_used g)"

definition resumed :: "goal_state \<Rightarrow> goal_state" where
  "resumed g =
     (let next_status = (if exhausted g then GsBudgetLimited else GsActive)
      in g\<lparr>gs_active := next_status = GsActive, gs_status := next_status,
           gs_last_reason := (if exhausted g then Some ''Goal token budget already reached'' else None),
           gs_last_error := None\<rparr>)"

definition resume :: "session_env \<Rightarrow> custom_message option goal_prog" where
  "resume env =
     bnd (gets (\<lambda>w. dr_state (gw_driver w))) (\<lambda>g.
       if gs_objective g = None then ret None
       else if gs_status g \<notin> {GsPaused, GsBudgetLimited} then ret None
       else thn (change_state env resumed)
              (if exhausted g then ret None else context_message env Continuation))"

definition complete :: "session_env \<Rightarrow> unit goal_prog" where
  "complete env =
     bnd (gets (\<lambda>w. dr_state (gw_driver w))) (\<lambda>g.
       if gs_objective g = None \<or> gs_status g = GsIdle then ret ()
       else change_state env (end_goal GsComplete (Some ''Goal achieved'') None))"

definition finish_for_terminal_message :: "session_env \<Rightarrow> stop_reason \<Rightarrow> string option \<Rightarrow> unit goal_prog" where
  "finish_for_terminal_message env stop_reason error_message =
     bnd (gets (\<lambda>w. gs_status (dr_state (gw_driver w)))) (\<lambda>st.
       if st \<noteq> GsActive then ret ()
       else if stop_reason = StopError then
         change_state env (end_goal GsError (Some (failure_text error_message)) (Some (failure_text error_message)))
       else ret ())"

section \<open>Usage\<close>

definition reached_reason :: "goal_state \<Rightarrow> string" where
  "reached_reason g =
     (case gs_token_budget g of None \<Rightarrow> [] | Some budget \<Rightarrow> ''Reached '' @ show_nat budget @ '' token goal budget'')"

definition usage_delta :: "usage \<Rightarrow> nat" where
  "usage_delta u = goal_token_delta_for_usage (as_i64 (us_input u)) (as_i64 (us_output u))"

definition charge :: "nat \<Rightarrow> goal_state \<Rightarrow> goal_state" where
  "charge delta g = g\<lparr>gs_tokens_used := add_u64 (gs_tokens_used g) delta\<rparr>"

definition record_assistant_usage :: "session_env \<Rightarrow> string \<Rightarrow> usage \<Rightarrow> usage_outcome goal_prog" where
  "record_assistant_usage env message_id u =
     bnd (gets gw_driver) (\<lambda>d.
       if gs_status (dr_state d) \<noteq> GsActive then ret Ignored
       else if message_id \<in> dr_accounted d then ret Ignored
       else
         let next_goal = charge (usage_delta u) (dr_state d);
             mark = on_driver (\<lambda>d. d\<lparr>dr_accounted := insert message_id (dr_accounted d)\<rparr>)
         in if exhausted next_goal then
              thn (set_state env (end_goal GsBudgetLimited (Some (reached_reason next_goal)) None next_goal))
                (thn mark (ret BudgetReached))
            else thn (set_state env next_goal) (thn mark (ret Accounted)))"

section \<open>The progress gate\<close>

text \<open>
  \<open>goal_driver/progress.rs\<close>. A content part that is empty text or empty thinking is no output; a
  tool call always is.
\<close>

fun empty_part :: "assistant_content \<Rightarrow> bool" where
  "empty_part (AText t) = (tc_text t = [])"
| "empty_part (AThinking t) = (th_thinking t = [])"
| "empty_part (AToolCall _) = False"

definition turn_produced_no_output :: "assistant_message \<Rightarrow> bool" where
  "turn_produced_no_output m = list_all empty_part (am_content m)"

definition terminal_provider_failure :: "assistant_message \<Rightarrow> string option" where
  "terminal_provider_failure m =
     (if am_stop_reason m \<noteq> StopError then None
      else if provider_stream_failure_kind m = Some ''rate_limit'' then None
      else Some (failure_text (am_error_message m)))"

definition turn_is_this_goals :: "goal_driver \<Rightarrow> assistant_message \<Rightarrow> bool" where
  "turn_is_this_goals d turn =
     (case gs_created_at (dr_state d) of None \<Rightarrow> True | Some c \<Rightarrow> as_i64 c < am_timestamp turn)"

definition turn_is_new :: "goal_driver \<Rightarrow> assistant_message \<Rightarrow> bool" where
  "turn_is_new d turn = (case dr_counted d of None \<Rightarrow> True | Some examined \<Rightarrow> examined < am_timestamp turn)"

definition park_refusal :: "session_env \<Rightarrow> assistant_message \<Rightarrow> bool goal_prog" where
  "park_refusal env turn =
     thn (on_driver (\<lambda>d. d\<lparr>dr_counted := Some (am_timestamp turn), dr_backoff_until := 0\<rparr>))
       (bnd (now_millis env) (\<lambda>now.
          thn (on_driver (\<lambda>d. d\<lparr>dr_parked_until := add_u64 now continuation_no_progress_backoff_base_ms\<rparr>))
            (ret False)))"

definition note_streak :: "nat \<Rightarrow> int \<Rightarrow> goal_state \<Rightarrow> goal_state" where
  "note_streak streak turn_ms g =
     g\<lparr>gs_no_progress_streak := Some streak, gs_no_progress_turn_ms := Some turn_ms\<rparr>"

definition cap_goal :: "nat \<Rightarrow> goal_state \<Rightarrow> goal_state" where
  "cap_goal streak g = (end_goal GsError (Some cap_reason) (Some cap_reason) g)\<lparr>gs_no_progress_streak := Some streak\<rparr>"

definition strike :: "session_env \<Rightarrow> assistant_message \<Rightarrow> bool goal_prog" where
  "strike env turn =
     bnd (gets gw_driver) (\<lambda>d.
       let streak = add_u32 (dr_streak d) 1 in
       thn (on_driver (\<lambda>d. d\<lparr>dr_counted := Some (am_timestamp turn), dr_streak := streak\<rparr>))
       (bnd (now_millis env) (\<lambda>now.
       thn (on_driver (\<lambda>d. d\<lparr>dr_backoff_until :=
              add_u64 now (mul_u64 continuation_no_progress_backoff_base_ms
                             (saturating_pow 2 (saturating_sub streak 1)))\<rparr>))
       (thn (change_state env (note_streak streak (am_timestamp turn)))
          (if continuation_no_progress_cap \<le> streak then thn (change_state env (cap_goal streak)) (ret False)
           else ret False)))))"

definition progress_made :: "session_env \<Rightarrow> assistant_message \<Rightarrow> bool goal_prog" where
  "progress_made env turn =
     bnd (gets gw_driver) (\<lambda>d.
       if dr_streak d \<noteq> 0 then
         thn (on_driver (\<lambda>d. d\<lparr>dr_streak := 0, dr_backoff_until := 0, dr_parked_until := 0,
                                dr_counted := Some (am_timestamp turn)\<rparr>))
           (thn (change_state env (note_streak 0 (am_timestamp turn))) (ret True))
       else ret True)"

definition progress_gate :: "session_env \<Rightarrow> assistant_message \<Rightarrow> bool goal_prog" where
  "progress_gate env turn =
     bnd (gets gw_driver) (\<lambda>d.
       let ours = turn_is_this_goals d turn;
           unseen = turn_is_new d turn
       in case (if ours then terminal_provider_failure turn else None) of
            Some error \<Rightarrow> thn (finish_for_terminal_message env StopError (Some error)) (ret False)
          | None \<Rightarrow>
              if ours \<and> unseen then
                if provider_stream_failure_kind turn = Some ''rate_limit'' then park_refusal env turn
                else if turn_produced_no_output turn then strike env turn
                else progress_made env turn
              else ret True)"

section \<open>Minting continuations\<close>

definition spend_slot :: "goal_state \<Rightarrow> goal_state" where
  "spend_slot g =
     g\<lparr>gs_continuations_used := add_u64 (gs_continuations_used g) 1, gs_last_reason := None,
       gs_last_error := None\<rparr>"

definition mark_continuation_pending :: "goal_driver \<Rightarrow> goal_driver" where
  "mark_continuation_pending d = d\<lparr>dr_pending := True\<rparr>"

definition mint :: "session_env \<Rightarrow> custom_message option goal_prog" where
  "mint env =
     thn (change_state env spend_slot)
       (bnd (context_message env Continuation) (\<lambda>message.
          if message \<noteq> None then thn (on_driver mark_continuation_pending) (ret message)
          else ret message))"

definition next_continuation_message ::
    "session_env \<Rightarrow> assistant_message option \<Rightarrow> custom_message option goal_prog" where
  "next_continuation_message env last_turn =
     bnd (gets (\<lambda>w. dr_state (gw_driver w))) (\<lambda>g.
       if gs_status g \<noteq> GsActive \<or> gs_objective g = None then ret None
       else bnd (case last_turn of None \<Rightarrow> ret True | Some turn \<Rightarrow> progress_gate env turn) (\<lambda>pass.
         if \<not> pass then ret None
         else bnd (gets gw_driver) (\<lambda>d.
           if gs_status (dr_state d) = GsActive \<and> continuation_no_progress_cap \<le> dr_streak d then
             thn (change_state env (cap_goal (dr_streak d))) (ret None)
           else bnd (now_millis env) (\<lambda>now.
             if now < dr_backoff_until d \<or> now < dr_parked_until d then ret None
             else if dr_pending d then ret None
             else mint env))))"

definition mark_continuation_owed :: "goal_driver \<Rightarrow> goal_driver" where
  "mark_continuation_owed d = (if dr_pending d then d else d\<lparr>dr_owed := True\<rparr>)"

definition take_owed_continuation ::
    "session_env \<Rightarrow> assistant_message option \<Rightarrow> custom_message option goal_prog" where
  "take_owed_continuation env last_turn =
     bnd (gets gw_driver) (\<lambda>d.
       if \<not> dr_owed d then ret None
       else if dr_pending d then ret None
       else thn (on_driver (\<lambda>d. d\<lparr>dr_owed := False\<rparr>))
         (match_result (next_continuation_message env last_turn)
           (\<lambda>message.
              if message = None then
                thn (on_driver (\<lambda>d. if gs_status (dr_state d) = GsActive then d\<lparr>dr_owed := True\<rparr> else d))
                  (ret None)
              else ret message)
           (\<lambda>e. thn (on_driver (\<lambda>d. d\<lparr>dr_owed := True\<rparr>)) (fail e))))"

definition continuation_consumed :: "goal_driver \<Rightarrow> goal_driver" where
  "continuation_consumed d = release d"

definition refund_slot :: "goal_state \<Rightarrow> goal_state" where
  "refund_slot g = g\<lparr>gs_continuations_used := gs_continuations_used g - 1\<rparr>"

definition rollback_continuation_mint :: "session_env \<Rightarrow> unit goal_prog" where
  "rollback_continuation_mint env =
     bnd (gets (\<lambda>w. gs_continuations_used (dr_state (gw_driver w)))) (\<lambda>used.
       if used = 0 then on_driver continuation_consumed
       else match_result (change_state env refund_slot)
              (\<lambda>_. on_driver continuation_consumed)
              (\<lambda>e. thn (on_driver continuation_consumed) (fail e)))"

definition backoff_wake_at :: "nat \<Rightarrow> goal_driver \<Rightarrow> nat option" where
  "backoff_wake_at now d =
     (if gs_status (dr_state d) = GsActive \<and> now < dr_backoff_until d then Some (dr_backoff_until d) else None)"

definition owns_continuation_wakeup :: "goal_driver \<Rightarrow> bool" where
  "owns_continuation_wakeup d \<longleftrightarrow> gs_status (dr_state d) = GsActive \<and> gs_objective (dr_state d) \<noteq> None"

definition active_objective :: "goal_driver \<Rightarrow> string option" where
  "active_objective d = (if gs_status (dr_state d) = GsActive then gs_objective (dr_state d) else None)"

section \<open>Rehydration\<close>

definition fail_goal :: "string \<Rightarrow> goal_state \<Rightarrow> goal_state" where
  "fail_goal error g = end_goal GsError (Some error) (Some error) g"

definition revive_guard :: "session_manager \<Rightarrow> goal_state \<Rightarrow> goal_state" where
  "revive_guard s g =
     (if gs_status g = GsActive then
        (case branch_goal_failure s of Some error \<Rightarrow> fail_goal error g | None \<Rightarrow> g)
      else g)"

definition latest_persisted_state :: "session_manager \<Rightarrow> goal_state" where
  "latest_persisted_state s = (case active_goal_state s of None \<Rightarrow> empty_goal_state | Some g \<Rightarrow> g)"

definition streak_of :: "goal_state \<Rightarrow> nat" where
  "streak_of g = (case gs_no_progress_streak g of None \<Rightarrow> 0 | Some n \<Rightarrow> n)"

definition restore_from_persisted :: "goal_state \<Rightarrow> goal_driver \<Rightarrow> goal_driver" where
  "restore_from_persisted g d =
     (let n = normalize_goal_state g
      in release (d\<lparr>dr_state := n, dr_streak := streak_of n, dr_backoff_until := 0, dr_parked_until := 0,
                    dr_counted := gs_no_progress_turn_ms n\<rparr>))"

definition restore_persisted :: "goal_state \<Rightarrow> goal_driver" where
  "restore_persisted g = restore_from_persisted g driver_new"

definition load_persisted :: "session_manager \<Rightarrow> goal_driver" where
  "load_persisted s = restore_persisted (revive_guard s (latest_persisted_state s))"

definition clamp_counters :: "goal_state \<Rightarrow> goal_state \<Rightarrow> goal_state" where
  "clamp_counters previous reloaded =
     previous\<lparr>gs_tokens_used := max (gs_tokens_used previous) (gs_tokens_used reloaded),
              gs_continuations_used := max (gs_continuations_used previous) (gs_continuations_used reloaded),
              gs_time_used_seconds := max (gs_time_used_seconds previous) (gs_time_used_seconds reloaded)\<rparr>"

definition reload_from_branch :: "session_manager \<Rightarrow> goal_branch_reload \<Rightarrow> goal_driver \<Rightarrow> goal_driver" where
  "reload_from_branch s rule d =
     (let previous = dr_state d;
          reloaded = latest_persisted_state s
      in if rule = SameTimeline \<and> gs_goal_id reloaded \<noteq> None \<and> gs_goal_id reloaded = gs_goal_id previous
         then d\<lparr>dr_state := clamp_counters previous reloaded\<rparr>
         else (continuation_consumed d)\<lparr>
                dr_owed := False, dr_streak := streak_of reloaded, dr_backoff_until := 0, dr_parked_until := 0,
                dr_counted := gs_no_progress_turn_ms reloaded, dr_state := revive_guard s reloaded\<rparr>)"

definition is_branch_seedable :: "session_manager \<Rightarrow> bool" where
  "is_branch_seedable s \<longleftrightarrow> \<not> has_non_bootstrap_entries s"

end
