(* ===== verification/GoalRuns.thy ===== *)
theory GoalRuns
  imports GoalDriver
begin

text \<open>
  What the goal driver guarantees: every successful change is the newest goal row of the session's
  branch, failures leave the driver alone, a goal that ended stays ended, a mint blocks the next one,
  usage is charged once per message, and turns without output end the goal.
\<close>

section \<open>Runs of the steps\<close>

lemmas goal_run = mon_simps on_driver_def

lemma now_millis_run:
  "now_millis env w = (r, w') \<Longrightarrow>
   \<exists>now. r = Inr now \<and> now = nat (ev_now env (sm_ticks (gw_session w))) \<and> gw_driver w' = gw_driver w
     \<and> gw_session w' = (gw_session w)\<lparr>sm_ticks := Suc (sm_ticks (gw_session w))\<rparr>"
  by (auto simp: now_millis_def Let_def)

lemma on_session_run:
  "on_session m w = (r, w') \<Longrightarrow>
   gw_driver w' = gw_driver w
   \<and> (case r of Inl e \<Rightarrow> \<exists>err. e = GoalStore err \<and> m (gw_session w) = (Inl err, gw_session w')
      | Inr x \<Rightarrow> m (gw_session w) = (Inr x, gw_session w'))"
  by (auto simp: on_session_def split: prod.splits sum.splits)

lemma branch_entries_snoc:
  assumes "sm_file_entries s' = sm_file_entries s @ [e]"
    and "active_branch s' = active_branch s @ [length (sm_file_entries s)]"
  shows "active_branch_entries s' = active_branch_entries s @ [e]"
proof -
  have "sm_file_entries s' ! i = sm_file_entries s ! i" if "i \<in> set (active_branch s)" for i
    using that walk_props by (fastforce simp: assms(1) active_branch_def nth_append)
  then show ?thesis by (simp add: active_branch_entries_def assms nth_append)
qed

lemma same_rows_branch: "same_rows s s' \<Longrightarrow> active_branch_entries s' = active_branch_entries s"
  by (cases "sm_leaf_id s") (simp_all add: same_rows_def active_branch_entries_def active_branch_def)

definition goal_entry :: "goal_state \<Rightarrow> entry_base \<Rightarrow> file_entry" where
  "goal_entry g = FeCustom \<lparr>ce_custom_type = goal_state_custom_type, ce_data = Some (goal_to_json g), ce_rest = []\<rparr>"

lemma makes_goal_entry: "makes_row (goal_entry g)"
  by (simp add: goal_entry_def)

lemma goal_row_entry: "goal_wf g \<Longrightarrow> goal_row (goal_entry g b) = Some g"
  by (simp add: goal_entry_def goal_json_persisted goal_json_roundtrip)

text \<open>
  Persisting a state: it succeeds and the driver holds the stamped state, whose row ends the branch;
  or it fails and the driver is as before. A failure of the flush leaves the row in the branch.
\<close>

lemma set_state_cases:
  assumes "set_state env g w = (r, w')"
  obtains (persisted) now where "r = Inr ()" "now \<in> range (\<lambda>k. nat (ev_now env k))"
      "gw_driver w' = adopt (stamp now g) (gw_driver w)"
      "manager_ok env (gw_session w) \<Longrightarrow> manager_ok env (gw_session w') \<and>
         (\<exists>b. active_branch_entries (gw_session w') = active_branch_entries (gw_session w) @ [goal_entry (stamp now g) b])"
  | (failed) e where "r = Inl e" "gw_driver w' = gw_driver w"
      "manager_ok env (gw_session w) \<Longrightarrow> manager_ok env (gw_session w')"
proof -
  obtain rn w1 where clock: "now_millis env w = (rn, w1)" by fastforce
  from now_millis_run[OF clock] obtain now where now: "rn = Inr now" "now \<in> range (\<lambda>k. nat (ev_now env k))"
      "gw_driver w1 = gw_driver w" "gw_session w1 = (gw_session w)\<lparr>sm_ticks := Suc (sm_ticks (gw_session w))\<rparr>" by blast
  define n where "n = stamp now g"
  obtain ra w2 where app: "on_session (append_row env (goal_entry n)) w1 = (ra, w2)" by fastforce
  obtain rf w3 where flush: "on_session (flush_now env) w2 = (rf, w3)" by fastforce
  have ok1: "manager_ok env (gw_session w1)" and br1: "active_branch_entries (gw_session w1) = active_branch_entries (gw_session w)"
    if "manager_ok env (gw_session w)"
  proof -
    have "same_rows (gw_session w) (gw_session w1)" by (simp add: same_rows_def now)
    with that show "manager_ok env (gw_session w1)" "active_branch_entries (gw_session w1) = active_branch_entries (gw_session w)"
      by (simp_all add: manager_ok_same_rows same_rows_branch)
  qed
  have run: "set_state env g w =
      (case (ra, w2) of (Inl e, w2) \<Rightarrow> (Inl e, w2)
       | (Inr _, w2) \<Rightarrow> (case on_session (flush_now env) w2 of (Inl e, w3) \<Rightarrow> (Inl e, w3)
           | (Inr _, w3) \<Rightarrow> (Inr (), w3\<lparr>gw_driver := adopt n (gw_driver w3)\<rparr>)))"
    using clock app
    by (simp add: set_state_def goal_run now Let_def n_def append_custom_entry_def goal_entry_def split: sum.splits prod.splits)
  note d2 = on_session_run[OF app] and d3 = on_session_run[OF flush]
  show thesis
  proof (cases ra)
    case (Inl e)
    with run assms have w': "r = Inl e" "w' = w2" by auto
    from Inl d2 obtain err where "append_row env (goal_entry n) (gw_session w1) = (Inl err, gw_session w2)" by auto
    with ok1 have "manager_ok env (gw_session w2)" if "manager_ok env (gw_session w)"
      using append_row_keeps[OF _ makes_goal_entry] that by blast
    with w' d2 now show thesis by (intro failed) auto
  next
    case (Inr x)
    with d2 have x: "append_row env (goal_entry n) (gw_session w1) = (Inr x, gw_session w2)" by auto
    have ok3: "manager_ok env (gw_session w3)" "active_branch_entries (gw_session w3) = active_branch_entries (gw_session w2)"
      if "manager_ok env (gw_session w)"
    proof -
      have "manager_ok env (gw_session w2)" by (rule append_row_keeps[OF ok1[OF that] makes_goal_entry x])
      moreover have "same_rows (gw_session w2) (gw_session w3)"
        using d3 flush_now_same_rows by (auto split: sum.splits)
      ultimately show "manager_ok env (gw_session w3)"
          "active_branch_entries (gw_session w3) = active_branch_entries (gw_session w2)"
        by (simp_all add: manager_ok_same_rows same_rows_branch)
    qed
    show thesis
    proof (cases rf)
      case (Inl e)
      with run Inr assms flush have w': "r = Inl e" "w' = w3" by auto
      with ok3 d2 d3 now show thesis by (intro failed) auto
    next
      case (Inr u)
      with run \<open>ra = Inr x\<close> assms flush have w': "r = Inr ()" "w' = w3\<lparr>gw_driver := adopt n (gw_driver w3)\<rparr>" by auto
      have "\<exists>b. active_branch_entries (gw_session w2) = active_branch_entries (gw_session w) @ [goal_entry n b]"
        if "manager_ok env (gw_session w)"
        using append_row_outcome[OF ok1[OF that] makes_goal_entry x] br1[OF that] branch_entries_snoc by fastforce
      with w' ok3 d2 d3 now show thesis by (intro persisted[of now]) (auto simp: n_def)
    qed
  qed
qed

lemma change_state_run: "change_state env f w = set_state env (f (dr_state (gw_driver w))) w"
  by (simp add: change_state_def goal_run)

lemma finish_run:
  "finish_for_terminal_message env st e w =
     (if gs_status (dr_state (gw_driver w)) \<noteq> GsActive \<or> st \<noteq> StopError then (Inr (), w)
      else set_state env (end_goal GsError (Some (failure_text e)) (Some (failure_text e)) (dr_state (gw_driver w))) w)"
  by (simp add: finish_for_terminal_message_def goal_run change_state_run)

lemma context_message_run:
  "context_message env kind w = (r, w') \<Longrightarrow>
   gw_driver w' = gw_driver w \<and>
   (\<exists>m. r = Inr m \<and> (m = None \<longleftrightarrow> gs_objective (dr_state (gw_driver w)) = None))
   \<and> same_rows (gw_session w) (gw_session w')"
  by (auto simp: context_message_def goal_run now_millis_def Let_def create_goal_context_message_def same_rows_def
      split: option.splits sum.splits)

lemma adopt_simps [simp]:
  "dr_state (adopt g d) = g" "dr_accounted (adopt g d) = dr_accounted d" "dr_owed (adopt g d) = dr_owed d"
  "dr_streak (adopt g d) = dr_streak d" "dr_backoff_until (adopt g d) = dr_backoff_until d"
  "dr_parked_until (adopt g d) = dr_parked_until d" "dr_counted (adopt g d) = dr_counted d"
  "dr_pending (adopt g d) \<longleftrightarrow> dr_pending d \<and> gs_status g = GsActive"
  by (simp_all add: adopt_def release_def)

lemma stamp_simps [simp]:
  "gs_status (stamp now g) = gs_status g" "gs_goal_id (stamp now g) = gs_goal_id g"
  "gs_objective (stamp now g) = gs_objective g" "gs_token_budget (stamp now g) = gs_token_budget g"
  "gs_tokens_used (stamp now g) = gs_tokens_used g"
  "gs_continuations_used (stamp now g) = gs_continuations_used g"
  "gs_no_progress_streak (stamp now g) = gs_no_progress_streak g"
  "gs_no_progress_turn_ms (stamp now g) = gs_no_progress_turn_ms g"
  "gs_updated_at (stamp now g) = Some now" "gs_last_reason (stamp now g) = gs_last_reason g"
  "gs_last_error (stamp now g) = gs_last_error g" "gs_active (stamp now g) = (gs_status g = GsActive)"
  "exhausted (stamp now g) = exhausted g"
  by (simp_all add: stamp_def Let_def exhausted_def split: option.splits)

section \<open>The goal as a state machine\<close>

text \<open>
  The moves a driver makes, with what happened as the label. A resumed goal becomes active again unless
  its budget is spent; a mint needs an active goal, an objective and no pending continuation.
\<close>

datatype goal_event = DidStart | DidClear | DidResume | DidMint | DidRelease | DidReload | DidOther

inductive goal_step :: "goal_driver \<Rightarrow> goal_event \<Rightarrow> goal_driver \<Rightarrow> bool" where
  started: "budget \<noteq> Some 0 \<Longrightarrow>
    goal_step d DidStart (adopt (stamp now (fresh_goal created i objective budget)) (fresh_bookkeeping d))"
| cleared: "goal_step d DidClear (drop_deferrals (adopt (stamp now empty_goal_state) d))"
| paused: "gs_status (dr_state d) = GsActive \<Longrightarrow>
    goal_step d DidOther (drop_deferrals (adopt (stamp now (end_goal GsPaused reason None (dr_state d))) d))"
| resumed: "gs_status (dr_state d) \<in> {GsPaused, GsBudgetLimited} \<Longrightarrow> gs_objective (dr_state d) \<noteq> None \<Longrightarrow>
    goal_step d DidResume (adopt (stamp now (resumed (dr_state d))) d)"
| completed: "gs_status (dr_state d) \<noteq> GsIdle \<Longrightarrow>
    goal_step d DidOther (adopt (stamp now (end_goal GsComplete reason None (dr_state d))) d)"
| errored: "gs_status (dr_state d) = GsActive \<Longrightarrow>
    goal_step d DidOther (adopt (stamp now (end_goal GsError reason err (dr_state d))) d)"
| capped: "gs_status (dr_state d) = GsActive \<Longrightarrow>
    goal_step d DidOther (adopt (stamp now (cap_goal streak (dr_state d))) d)"
| charged: "gs_status (dr_state d) = GsActive \<Longrightarrow> i \<notin> dr_accounted d \<Longrightarrow>
    next_goal = charge delta (dr_state d) \<Longrightarrow> \<not> exhausted next_goal \<Longrightarrow>
    goal_step d DidOther ((adopt (stamp now next_goal) d)\<lparr>dr_accounted := insert i (dr_accounted d)\<rparr>)"
| limited: "gs_status (dr_state d) = GsActive \<Longrightarrow> i \<notin> dr_accounted d \<Longrightarrow>
    next_goal = charge delta (dr_state d) \<Longrightarrow> exhausted next_goal \<Longrightarrow>
    goal_step d DidOther
      ((adopt (stamp now (end_goal GsBudgetLimited reason None next_goal)) d)\<lparr>dr_accounted := insert i (dr_accounted d)\<rparr>)"
| noted: "goal_step d DidOther (adopt (stamp now (note_streak streak turn (dr_state d))) d)"
| kept: "dr_state d' = dr_state d \<Longrightarrow> dr_pending d' = dr_pending d \<Longrightarrow> dr_accounted d' = dr_accounted d \<Longrightarrow>
    goal_step d DidOther d'"
| minted: "gs_status (dr_state d) = GsActive \<Longrightarrow> gs_objective (dr_state d) \<noteq> None \<Longrightarrow> \<not> dr_pending d \<Longrightarrow>
    goal_step d DidMint (mark_continuation_pending (adopt (stamp now (spend_slot (dr_state d))) d))"
| refunded: "goal_step d DidOther (adopt (stamp now (refund_slot (dr_state d))) d)"
| released: "goal_step d DidRelease (release d)"
| reloaded: "goal_step d DidReload (reload_from_branch s rule d)"

inductive goal_trace :: "goal_driver \<Rightarrow> goal_event list \<Rightarrow> goal_driver \<Rightarrow> bool" where
  trace_nil: "goal_trace d [] d"
| trace_cons: "goal_step d ev d1 \<Longrightarrow> goal_trace d1 evs d2 \<Longrightarrow> goal_trace d (ev # evs) d2"

lemma trace_append: "goal_trace d xs d1 \<Longrightarrow> goal_trace d1 ys d2 \<Longrightarrow> goal_trace d (xs @ ys) d2"
  by (induction rule: goal_trace.induct) (auto intro: goal_trace.intros)

lemma trace_one: "goal_step d ev d' \<Longrightarrow> goal_trace d [ev] d'"
  by (blast intro: goal_trace.intros)

text \<open>What every reachable driver satisfies, and what holds as long as no branch is reloaded.\<close>

definition goal_shape :: "goal_driver \<Rightarrow> bool" where
  "goal_shape d \<longleftrightarrow>
     (gs_active (dr_state d) \<longleftrightarrow> gs_status (dr_state d) = GsActive)
     \<and> (dr_pending d \<longrightarrow> gs_status (dr_state d) = GsActive \<and> gs_objective (dr_state d) \<noteq> None)"

definition goal_funded :: "goal_driver \<Rightarrow> bool" where
  "goal_funded d \<longleftrightarrow>
     (gs_status (dr_state d) = GsActive \<longrightarrow> gs_objective (dr_state d) \<noteq> None \<and> \<not> exhausted (dr_state d))"

lemma exhausted_congs [simp]:
  "exhausted (note_streak n t g) = exhausted g" "exhausted (spend_slot g) = exhausted g"
  "exhausted (refund_slot g) = exhausted g" "exhausted (end_goal st r e g) = exhausted g"
  "exhausted (resumed g) = exhausted g"
  "b \<noteq> Some 0 \<Longrightarrow> \<not> exhausted (fresh_goal now i objective b)"
  by (auto simp: exhausted_def note_streak_def spend_slot_def refund_slot_def end_goal_def resumed_def
      fresh_goal_def Let_def split: option.splits)

lemma slot_simps [simp]:
  "gs_status (spend_slot g) = gs_status g" "gs_objective (spend_slot g) = gs_objective g"
  "gs_status (note_streak n t g) = gs_status g" "gs_objective (note_streak n t g) = gs_objective g"
  by (simp_all add: spend_slot_def note_streak_def)

lemmas goal_changes = note_streak_def spend_slot_def refund_slot_def end_goal_def cap_goal_def charge_def
  fresh_goal_def empty_goal_state_def resumed_def Let_def

lemma find_map_rev_simps [simp]:
  "find_map_rev f [] = None"
  "find_map_rev f (xs @ [x]) = (case f x of None \<Rightarrow> find_map_rev f xs | Some y \<Rightarrow> Some y)"
  by (simp_all add: find_map_rev_def map_filter_simps split: option.splits)

lemma latest_normalized:
  "gs_active (latest_persisted_state s) \<longleftrightarrow> gs_status (latest_persisted_state s) = GsActive"
proof -
  have "case find_map_rev (\<lambda>e. map_option normalize_goal_state (f e)) es of
          None \<Rightarrow> True | Some g \<Rightarrow> gs_active g \<longleftrightarrow> gs_status g = GsActive" for f and es :: "file_entry list"
    by (induction es rule: rev_induct) (auto split: option.splits)
  from this[of goal_row "active_branch_entries s"] show ?thesis
    by (auto simp: latest_persisted_state_def active_goal_state_def empty_goal_state_def split: option.splits)
qed

lemma step_shape: "goal_step d ev d' \<Longrightarrow> goal_shape d \<Longrightarrow> goal_shape d'"
proof (induction rule: goal_step.induct)
  case (reloaded d s rule)
  then show ?case
    using latest_normalized[of s]
    by (auto simp: goal_shape_def reload_from_branch_def Let_def clamp_counters_def revive_guard_def fail_goal_def
        end_goal_def continuation_consumed_def release_def split: option.splits)
qed (auto simp: goal_shape_def goal_changes drop_deferrals_def mark_continuation_pending_def release_def
  fresh_bookkeeping_def)

lemma step_funded: "goal_step d ev d' \<Longrightarrow> ev \<noteq> DidReload \<Longrightarrow> goal_funded d \<Longrightarrow> goal_funded d'"
  by (induction rule: goal_step.induct)
    (auto simp: goal_funded_def goal_changes drop_deferrals_def mark_continuation_pending_def release_def
      fresh_bookkeeping_def exhausted_def split: option.splits)

lemma trace_shape: "goal_trace d evs d' \<Longrightarrow> goal_shape d \<Longrightarrow> goal_shape d'"
  by (induction rule: goal_trace.induct) (auto dest: step_shape)

lemma trace_funded: "goal_trace d evs d' \<Longrightarrow> DidReload \<notin> set evs \<Longrightarrow> goal_funded d \<Longrightarrow> goal_funded d'"
  by (induction rule: goal_trace.induct) (auto dest: step_funded)

section \<open>The operations are moves of the machine\<close>

datatype goal_op =
    GoStart string "nat option"
  | GoClear
  | GoPause string
  | GoResume
  | GoComplete
  | GoFinish stop_reason "string option"
  | GoUsage string usage
  | GoMint "assistant_message option"
  | GoTake "assistant_message option"
  | GoOwe
  | GoConsumed
  | GoRollback
  | GoReload goal_branch_reload

definition silently :: "'a goal_prog \<Rightarrow> custom_message option goal_prog" where
  "silently m = thn m (ret None)"

fun perform_goal :: "session_env \<Rightarrow> goal_op \<Rightarrow> custom_message option goal_prog" where
  "perform_goal env (GoStart objective budget) = silently (start env objective budget)"
| "perform_goal env GoClear = silently (clear env)"
| "perform_goal env (GoPause reason) = silently (pause env reason)"
| "perform_goal env GoResume = resume env"
| "perform_goal env GoComplete = silently (complete env)"
| "perform_goal env (GoFinish st e) = silently (finish_for_terminal_message env st e)"
| "perform_goal env (GoUsage i u) = silently (record_assistant_usage env i u)"
| "perform_goal env (GoMint turn) = next_continuation_message env turn"
| "perform_goal env (GoTake turn) = take_owed_continuation env turn"
| "perform_goal env GoOwe = silently (on_driver mark_continuation_owed)"
| "perform_goal env GoConsumed = silently (on_driver continuation_consumed)"
| "perform_goal env GoRollback = silently (rollback_continuation_mint env)"
| "perform_goal env (GoReload rule) =
     silently (upd (\<lambda>w. w\<lparr>gw_driver := reload_from_branch (gw_session w) rule (gw_driver w)\<rparr>))"

fun op_events :: "goal_op \<Rightarrow> goal_event set" where
  "op_events (GoStart _ _) = {DidStart}"
| "op_events GoClear = {DidClear}"
| "op_events GoResume = {DidResume}"
| "op_events (GoMint _) = {DidMint, DidOther}"
| "op_events (GoTake _) = {DidMint, DidOther}"
| "op_events GoConsumed = {DidRelease}"
| "op_events GoRollback = {DidOther, DidRelease}"
| "op_events (GoReload _) = {DidReload}"
| "op_events _ = {DidOther}"

fun is_mint :: "goal_op \<Rightarrow> bool" where
  "is_mint (GoMint _) = True"
| "is_mint (GoTake _) = True"
| "is_mint _ = False"

text \<open>A driver moved by events of \<open>E\<close>, with one mint exactly when a message came out.\<close>

definition moved :: "goal_event set \<Rightarrow> bool \<Rightarrow> goal_driver \<Rightarrow> goal_driver \<Rightarrow> bool" where
  "moved E out d d' \<longleftrightarrow>
     (\<exists>evs. goal_trace d evs d' \<and> set evs \<subseteq> E \<and> count_list evs DidMint = (if out then 1 else 0))"

lemma moved_refl [simp]: "moved E False d d"
  by (auto simp: moved_def intro!: exI[of _ "[]"] goal_trace.intros)

lemma moved_one: "goal_step d ev d' \<Longrightarrow> ev \<in> E \<Longrightarrow> out = (ev = DidMint) \<Longrightarrow> moved E out d d'"
  by (auto simp: moved_def intro!: exI[of _ "[ev]"] trace_one)

lemma moved_trans:
  assumes "moved E a d d1" and "moved E b d1 d2" and "out = (a \<or> b)" and "\<not> (a \<and> b)"
  shows "moved E out d d2"
proof -
  obtain xs ys where "goal_trace d xs d1" "goal_trace d1 ys d2" "set xs \<subseteq> E" "set ys \<subseteq> E"
      "count_list xs DidMint = (if a then 1 else 0)" "count_list ys DidMint = (if b then 1 else 0)"
    using assms(1,2) by (auto simp: moved_def)
  with trace_append[of d xs d1 ys d2] assms(3,4) show ?thesis
    by (auto simp: moved_def intro!: exI[of _ "xs @ ys"])
qed

lemma moved_kept:
  "dr_state d' = dr_state d \<Longrightarrow> dr_pending d' = dr_pending d \<Longrightarrow> dr_accounted d' = dr_accounted d \<Longrightarrow>
   DidOther \<in> E \<Longrightarrow> moved E False d d'"
  by (rule moved_one[OF kept]) auto

text \<open>A program whose final driver has moved, whatever it returns.\<close>

definition moves :: "goal_event set \<Rightarrow> (goal_world \<Rightarrow> bool) \<Rightarrow> ('a \<Rightarrow> bool) \<Rightarrow> 'a goal_prog \<Rightarrow> bool" where
  "moves E P out m \<longleftrightarrow>
     (\<forall>w r w'. P w \<longrightarrow> m w = (r, w') \<longrightarrow>
        moved E (case r of Inl _ \<Rightarrow> False | Inr x \<Rightarrow> out x) (gw_driver w) (gw_driver w'))"

lemma movesD: "moves E P out m \<Longrightarrow> P w \<Longrightarrow> m w = (r, w') \<Longrightarrow>
   moved E (case r of Inl _ \<Rightarrow> False | Inr x \<Rightarrow> out x) (gw_driver w) (gw_driver w')"
  by (auto simp: moves_def)

lemma set_state_moved:
  assumes "set_state env g w = (r, w')" and "\<And>now. goal_step (gw_driver w) ev (adopt (stamp now g) (gw_driver w))"
    and "ev \<in> E" and "ev \<noteq> DidMint"
  shows "moved E False (gw_driver w) (gw_driver w')"
  using assms(1)
proof (cases rule: set_state_cases)
  case (persisted now)
  show ?thesis unfolding persisted(3) by (rule moved_one[OF assms(2)]) (use assms(3,4) in auto)
qed simp

lemma start_moved:
  assumes "start env objective budget w = (r, w')"
  shows "moved {DidStart} False (gw_driver w) (gw_driver w')"
proof -
  have fresh: "moved {DidStart} False (gw_driver w) (gw_driver w2)"
    if run: "set_state env (fresh_goal now i obj b) (w1\<lparr>gw_driver := fresh_bookkeeping (gw_driver w)\<rparr>) = (Inr u, w2)"
      and b: "b \<noteq> Some 0" for now i obj b w1 u w2
    using run
  proof (cases rule: set_state_cases)
    case (persisted now')
    from moved_one[OF started[OF b], of "{DidStart}" False] show ?thesis by (simp add: persisted)
  qed simp
  have undo: "gw_driver w2 = fresh_bookkeeping (gw_driver w)"
    if "set_state env g (w1\<lparr>gw_driver := fresh_bookkeeping (gw_driver w)\<rparr>) = (Inl e, w2)" for g w1 e w2
    using that by (cases rule: set_state_cases) auto
  have restored: "restore_bookkeeping d (fresh_bookkeeping d) = d" for d
    by (simp add: restore_bookkeeping_def fresh_bookkeeping_def)
  show ?thesis
    using assms
    by (auto simp: start_def goal_run now_millis_def new_uuid_def state_with_creation_elapsed_def Let_def
        validate_goal_budget_def restored
        split: sum.splits prod.splits if_splits option.splits dest!: undo dest: fresh)
qed

abbreviation goal_of :: "goal_world \<Rightarrow> goal_state" where
  "goal_of w \<equiv> dr_state (gw_driver w)"

text \<open>A persisted change, and one that is followed by a change of the driver.\<close>

lemma change_moved:
  assumes "change_state env f w = (r, w')" and "ev \<in> E" and "ev \<noteq> DidMint"
    and "\<And>now. goal_step (gw_driver w) ev (adopt (stamp now (f (goal_of w))) (gw_driver w))"
  shows "moved E False (gw_driver w) (gw_driver w')"
  using assms by (intro set_state_moved[of env "f (goal_of w)"]) (simp_all add: change_state_run)

lemma set_state_ok: "set_state env g w = (Inr u, w') \<Longrightarrow> \<exists>now. gw_driver w' = adopt (stamp now g) (gw_driver w)"
  by (erule set_state_cases) auto

lemma set_state_error: "set_state env g w = (Inl e, w') \<Longrightarrow> gw_driver w' = gw_driver w"
  by (erule set_state_cases) simp_all

lemma clear_moved: "clear env w = (r, w') \<Longrightarrow> moved {DidClear} False (gw_driver w) (gw_driver w')"
  by (auto simp: clear_def goal_run dest!: set_state_error set_state_ok intro!: moved_one[OF cleared]
      split: sum.splits prod.splits)

lemma pause_moved: "pause env reason w = (r, w') \<Longrightarrow> moved {DidOther} False (gw_driver w) (gw_driver w')"
  by (auto simp: pause_def goal_run change_state_run dest!: set_state_error set_state_ok intro!: moved_one[OF paused]
      split: sum.splits prod.splits if_splits)

lemma complete_moved: "complete env w = (r, w') \<Longrightarrow> moved {DidOther} False (gw_driver w) (gw_driver w')"
  by (auto simp: complete_def goal_run intro: change_moved completed split: if_splits)

lemma finish_moved:
  "finish_for_terminal_message env st e w = (r, w') \<Longrightarrow> DidOther \<in> E \<Longrightarrow> moved E False (gw_driver w) (gw_driver w')"
  by (auto simp: finish_run intro: set_state_moved errored split: if_splits)

lemma resume_moved:
  "resume env w = (r, w') \<Longrightarrow> moved {DidResume} False (gw_driver w) (gw_driver w')"
  by (auto simp: resume_def goal_run change_state_run dest!: context_message_run set_state_ok set_state_error
      intro!: moved_one[OF resumed] split: if_splits sum.splits prod.splits)

lemma usage_moved:
  "record_assistant_usage env i u w = (r, w') \<Longrightarrow> moved {DidOther} False (gw_driver w) (gw_driver w')"
  by (auto simp: record_assistant_usage_def goal_run Let_def dest!: set_state_error set_state_ok
      intro!: moved_one[OF charged] moved_one[OF limited] split: if_splits sum.splits prod.splits)

text \<open>The world in which a strike persists its count.\<close>

definition struck :: "session_env \<Rightarrow> assistant_message \<Rightarrow> goal_world \<Rightarrow> goal_world" where
  "struck env turn w =
     (let d = gw_driver w; s = gw_session w; n = add_u32 (dr_streak d) 1
      in w\<lparr>gw_session := s\<lparr>sm_ticks := Suc (sm_ticks s)\<rparr>,
           gw_driver := d\<lparr>dr_counted := Some (am_timestamp turn), dr_streak := n,
             dr_backoff_until := add_u64 (nat (ev_now env (sm_ticks s)))
               (mul_u64 continuation_no_progress_backoff_base_ms (saturating_pow 2 (saturating_sub n 1)))\<rparr>\<rparr>)"

lemma strike_run:
  "strike env turn w =
     (let n = add_u32 (dr_streak (gw_driver w)) 1
      in thn (change_state env (note_streak n (am_timestamp turn)))
           (if continuation_no_progress_cap \<le> n then thn (change_state env (cap_goal n)) (ret False) else ret False)
           (struck env turn w))"
  by (simp add: strike_def goal_run now_millis_def struck_def Let_def)

lemma struck_simps [simp]:
  "dr_state (gw_driver (struck env turn w)) = dr_state (gw_driver w)"
  "dr_pending (gw_driver (struck env turn w)) = dr_pending (gw_driver w)"
  "dr_accounted (gw_driver (struck env turn w)) = dr_accounted (gw_driver w)"
  "dr_owed (gw_driver (struck env turn w)) = dr_owed (gw_driver w)"
  "dr_counted (gw_driver (struck env turn w)) = Some (am_timestamp turn)"
  "dr_streak (gw_driver (struck env turn w)) = add_u32 (dr_streak (gw_driver w)) 1"
  "manager_ok env (gw_session (struck env turn w)) = manager_ok env (gw_session w)"
  "active_branch_entries (gw_session (struck env turn w)) = active_branch_entries (gw_session w)"
proof -
  have "same_rows (gw_session w) (gw_session (struck env turn w))" "same_rows (gw_session (struck env turn w)) (gw_session w)"
    by (simp_all add: same_rows_def struck_def Let_def)
  then show "manager_ok env (gw_session (struck env turn w)) = manager_ok env (gw_session w)"
      "active_branch_entries (gw_session (struck env turn w)) = active_branch_entries (gw_session w)"
    by (blast intro: manager_ok_same_rows, intro same_rows_branch)
qed (simp_all add: struck_def Let_def)

lemma strike_moved:
  assumes "strike env turn w = (r, w')" and "DidOther \<in> E" and "gs_status (goal_of w) = GsActive"
  shows "moved E False (gw_driver w) (gw_driver w')" and "r \<noteq> Inr True"
proof -
  define n where "n = add_u32 (dr_streak (gw_driver w)) 1"
  define w1 where "w1 = struck env turn w"
  note run = strike_run[of env turn w, folded n_def w1_def, unfolded Let_def]
  have start: "moved E False (gw_driver w) (gw_driver w1)" by (rule moved_kept) (use assms(2) in \<open>simp_all add: w1_def\<close>)
  have first: "moved E False (gw_driver w1) (gw_driver w2)"
    if "change_state env (note_streak n t) w1 = (q, w2)" for t q w2
    using that assms(2) by (rule change_moved) (auto intro: noted)
  have second: "moved E False (gw_driver w2) (gw_driver w3)"
    if "change_state env (note_streak n t) w1 = (Inr u, w2)" and "change_state env (cap_goal n) w2 = (q, w3)" for t u q w2 w3
  proof (rule change_moved[OF that(2) assms(2)])
    from set_state_ok[OF that(1)[unfolded change_state_run]]
    obtain k where "gw_driver w2 = adopt (stamp k (note_streak n t (goal_of w1))) (gw_driver w1)" by blast
    then have "gs_status (goal_of w2) = GsActive" by (simp add: w1_def assms(3) note_streak_def)
    then show "goal_step (gw_driver w2) DidOther (adopt (stamp k (cap_goal n (goal_of w2))) (gw_driver w2))" for k
      by (rule capped)
  qed simp
  have both: "moved E False (gw_driver w1) (gw_driver w3)"
    if "change_state env (note_streak n t) w1 = (Inr u, w2)" and "change_state env (cap_goal n) w2 = (q, w3)" for t u q w2 w3
    by (rule moved_trans[OF first[OF that(1)] second[OF that]]) simp_all
  show "moved E False (gw_driver w) (gw_driver w')" "r \<noteq> Inr True"
    using assms(1) unfolding run
    by (auto simp: goal_run split: if_splits sum.splits prod.splits
        intro: moved_trans[OF start] dest: first both)
qed

lemma progress_moved:
  assumes "progress_made env turn w = (r, w')" and "DidOther \<in> E"
  shows "moved E False (gw_driver w) (gw_driver w')"
    and "r = Inr True \<Longrightarrow> gs_status (goal_of w') = gs_status (goal_of w) \<and> gs_objective (goal_of w') = gs_objective (goal_of w)
           \<and> (gs_status (goal_of w) = GsActive \<longrightarrow> dr_pending (gw_driver w') = dr_pending (gw_driver w))"
proof -
  define w1 where "w1 = w\<lparr>gw_driver := (gw_driver w)\<lparr>dr_streak := 0, dr_backoff_until := 0, dr_parked_until := 0,
    dr_counted := Some (am_timestamp turn)\<rparr>\<rparr>"
  have run: "progress_made env turn w =
      (if dr_streak (gw_driver w) \<noteq> 0
       then thn (change_state env (note_streak 0 (am_timestamp turn))) (ret True) w1 else (Inr True, w))"
    by (simp add: progress_made_def goal_run w1_def)
  have start: "moved E False (gw_driver w) (gw_driver w1)" by (rule moved_kept) (use assms(2) in \<open>simp_all add: w1_def\<close>)
  have first: "moved E False (gw_driver w1) (gw_driver w2)"
    if "change_state env (note_streak 0 t) w1 = (q, w2)" for t q w2
    using that assms(2) by (rule change_moved) (auto intro: noted)
  show "moved E False (gw_driver w) (gw_driver w')"
    using assms(1) unfolding run
    by (auto simp: goal_run split: if_splits sum.splits prod.splits intro: moved_trans[OF start] dest: first)
  show "gs_status (goal_of w') = gs_status (goal_of w) \<and> gs_objective (goal_of w') = gs_objective (goal_of w)
      \<and> (gs_status (goal_of w) = GsActive \<longrightarrow> dr_pending (gw_driver w') = dr_pending (gw_driver w))" if "r = Inr True"
    using assms(1) that unfolding run
    by (auto simp: goal_run change_state_run w1_def note_streak_def split: if_splits sum.splits prod.splits dest!: set_state_ok)
qed

lemma park_moved:
  "park_refusal env turn w = (r, w') \<Longrightarrow> DidOther \<in> E \<Longrightarrow> moved E False (gw_driver w) (gw_driver w') \<and> r = Inr False"
  by (auto simp: park_refusal_def goal_run now_millis_def Let_def intro: moved_kept)

lemma gate_run:
  "progress_gate env turn w =
     (let ours = turn_is_this_goals (gw_driver w) turn
      in if ours \<and> terminal_provider_failure turn \<noteq> None then
           thn (finish_for_terminal_message env StopError (terminal_provider_failure turn)) (ret False) w
         else if ours \<and> turn_is_new (gw_driver w) turn then
           (if provider_stream_failure_kind turn = Some ''rate_limit'' then park_refusal env turn
            else if turn_produced_no_output turn then strike env turn else progress_made env turn) w
         else (Inr True, w))"
  by (simp add: progress_gate_def goal_run Let_def split: option.splits)

text \<open>The five ways through the gate.\<close>

lemma gate_cases:
  assumes "progress_gate env turn w = (r, w')"
  obtains (terminal) r0 where "finish_for_terminal_message env StopError (terminal_provider_failure turn) w = (r0, w')"
      "r \<noteq> Inr True" "turn_is_this_goals (gw_driver w) turn" "terminal_provider_failure turn \<noteq> None"
    | (parked) "park_refusal env turn w = (r, w')" "provider_stream_failure_kind turn = Some ''rate_limit''"
    | (struck) "strike env turn w = (r, w')" "turn_produced_no_output turn" "turn_is_new (gw_driver w) turn"
    | (progress) "progress_made env turn w = (r, w')" "\<not> turn_produced_no_output turn" "turn_is_new (gw_driver w) turn"
        "turn_is_this_goals (gw_driver w) turn" "terminal_provider_failure turn = None"
    | (passed) "r = Inr True" "w' = w" "\<not> (turn_is_this_goals (gw_driver w) turn \<and> terminal_provider_failure turn \<noteq> None)"
        "\<not> (turn_is_this_goals (gw_driver w) turn \<and> turn_is_new (gw_driver w) turn)"
proof (cases "turn_is_this_goals (gw_driver w) turn \<and> terminal_provider_failure turn \<noteq> None")
  case True
  obtain r0 w0 where fin: "finish_for_terminal_message env StopError (terminal_provider_failure turn) w = (r0, w0)"
    by fastforce
  have "w' = w0" "r \<noteq> Inr True"
    using assms[unfolded gate_run Let_def if_P[OF True]] fin by (auto simp: goal_run split: sum.splits)
  with True fin terminal show thesis by blast
next
  case False
  note run = assms[unfolded gate_run Let_def if_not_P[OF False]]
  show thesis
  proof (cases "turn_is_this_goals (gw_driver w) turn \<and> turn_is_new (gw_driver w) turn")
    case True
    note run = run[unfolded if_P[OF True]]
    have "terminal_provider_failure turn = None" using True \<open>\<not> (_ \<and> terminal_provider_failure turn \<noteq> None)\<close> by simp
    with True run parked struck progress show thesis
      by (cases "provider_stream_failure_kind turn = Some ''rate_limit''"; cases "turn_produced_no_output turn") simp_all
  next
    case none: False
    from run[unfolded if_not_P[OF none]] passed[OF _ _ False none] show thesis by simp
  qed
qed

lemma gate_moved:
  assumes "progress_gate env turn w = (r, w')" and "DidOther \<in> E" and "gs_status (goal_of w) = GsActive"
  shows "moved E False (gw_driver w) (gw_driver w')"
    and "r = Inr True \<Longrightarrow> gs_status (goal_of w') = GsActive \<and> gs_objective (goal_of w') = gs_objective (goal_of w)"
  using assms(1)
proof (atomize (full), cases rule: gate_cases)
  case (terminal r0)
  with finish_moved[OF terminal(1) assms(2)] show "moved E False (gw_driver w) (gw_driver w') \<and>
      (r = Inr True \<longrightarrow> gs_status (goal_of w') = GsActive \<and> gs_objective (goal_of w') = gs_objective (goal_of w))" by simp
next
  case parked
  with park_moved[OF parked(1) assms(2)] show "moved E False (gw_driver w) (gw_driver w') \<and>
      (r = Inr True \<longrightarrow> gs_status (goal_of w') = GsActive \<and> gs_objective (goal_of w') = gs_objective (goal_of w))" by simp
next
  case struck
  with strike_moved[OF struck(1) assms(2,3)] show "moved E False (gw_driver w) (gw_driver w') \<and>
      (r = Inr True \<longrightarrow> gs_status (goal_of w') = GsActive \<and> gs_objective (goal_of w') = gs_objective (goal_of w))" by simp
next
  case progress
  with progress_moved[OF progress(1) assms(2)] assms(3) show "moved E False (gw_driver w) (gw_driver w') \<and>
      (r = Inr True \<longrightarrow> gs_status (goal_of w') = GsActive \<and> gs_objective (goal_of w') = gs_objective (goal_of w))" by simp
qed (use assms(3) in simp)

lemma mint_moved:
  assumes run: "mint env w = (r, w')" and "DidMint \<in> E" and "gs_status (goal_of w) = GsActive"
    and "gs_objective (goal_of w) \<noteq> None" and "\<not> dr_pending (gw_driver w)"
  shows "moved E (case r of Inl _ \<Rightarrow> False | Inr m \<Rightarrow> m \<noteq> None) (gw_driver w) (gw_driver w')"
proof -
  obtain q w1 where spent: "set_state env (spend_slot (goal_of w)) w = (q, w1)" by fastforce
  show ?thesis
  proof (cases q)
    case (Inl e)
    with run spent have "r = Inl e" "w' = w1" by (simp_all add: mint_def goal_run change_state_run)
    with set_state_error[OF spent[unfolded Inl]] show ?thesis by simp
  next
    case (Inr u)
    from set_state_ok[OF spent[unfolded Inr]]
    obtain now where w1: "gw_driver w1 = adopt (stamp now (spend_slot (goal_of w))) (gw_driver w)" by blast
    obtain q2 w2 where built: "context_message env Continuation w1 = (q2, w2)" by fastforce
    from context_message_run[OF built] w1 assms(4) obtain m where m: "q2 = Inr (Some m)" "gw_driver w2 = gw_driver w1"
      by auto
    have "r = Inr (Some m)" "gw_driver w' = mark_continuation_pending (gw_driver w1)"
      using run spent Inr built m by (auto simp: mint_def goal_run change_state_run)
    with moved_one[OF minted[OF assms(3-5)] assms(2)] show ?thesis by (simp add: w1)
  qed
qed

text \<open>The ways through a consult of an active goal that returns.\<close>

lemma next_cases:
  assumes "next_continuation_message env (Some turn) w = (Inr m, w')"
    and "gs_status (goal_of w) = GsActive" and "gs_objective (goal_of w) \<noteq> None"
  obtains (refused) "progress_gate env turn w = (Inr False, w')" "m = None"
    | (capped) w1 where "progress_gate env turn w = (Inr True, w1)" "gs_status (goal_of w1) = GsActive"
        "continuation_no_progress_cap \<le> dr_streak (gw_driver w1)"
        "change_state env (cap_goal (dr_streak (gw_driver w1))) w1 = (Inr (), w')" "m = None"
    | (waiting) w1 where "progress_gate env turn w = (Inr True, w1)" "gw_driver w' = gw_driver w1" "m = None"
        "gs_status (goal_of w1) = GsActive \<longrightarrow> dr_streak (gw_driver w1) < continuation_no_progress_cap"
    | (minted) w1 w2 where "progress_gate env turn w = (Inr True, w1)" "gw_driver w2 = gw_driver w1"
        "gs_status (goal_of w1) = GsActive \<longrightarrow> dr_streak (gw_driver w1) < continuation_no_progress_cap"
        "mint env w2 = (Inr m, w')"
proof -
  obtain q w1 where gate: "progress_gate env turn w = (q, w1)" by fastforce
  obtain objective where active: "gs_status (goal_of w) = GsActive" "gs_objective (goal_of w) = Some objective"
    using assms(2,3) by auto
  note run = assms(1)[unfolded next_continuation_message_def]
  show thesis
  proof (cases q)
    case (Inl e)
    with run gate active show thesis by (simp add: goal_run)
  next
    case (Inr pass)
    show thesis
    proof (cases pass)
      case False
      with run gate active Inr refused show thesis by (simp add: goal_run)
    next
      case True
      note gate = gate[unfolded Inr, simplified True]
      show thesis
      proof (cases "gs_status (goal_of w1) = GsActive \<and> continuation_no_progress_cap \<le> dr_streak (gw_driver w1)")
        case True
        with run gate active capped[OF gate] show thesis by (simp add: goal_run split: sum.splits prod.splits)
      next
        case False
        obtain now w2 where clock: "now_millis env w1 = (Inr now, w2)" "gw_driver w2 = gw_driver w1"
          using now_millis_run[of env w1] by (metis surj_pair)
        have "(if now < dr_backoff_until (gw_driver w1) \<or> now < dr_parked_until (gw_driver w1) then ret None
               else if dr_pending (gw_driver w1) then ret None else mint env) w2 = (Inr m, w')"
          using run gate active clock False by (auto simp: goal_run split: if_splits)
        with False clock waiting[OF gate] minted[OF gate clock(2)] show thesis
          by (auto simp: goal_run split: if_splits)
      qed
    qed
  qed
qed

lemma next_moved:
  assumes "next_continuation_message env last_turn w = (r, w')"
  shows "moved {DidMint, DidOther} (case r of Inl _ \<Rightarrow> False | Inr m \<Rightarrow> m \<noteq> None) (gw_driver w) (gw_driver w')"
proof (cases "gs_status (goal_of w) \<noteq> GsActive \<or> gs_objective (goal_of w) = None")
  case True
  with assms show ?thesis by (auto simp: next_continuation_message_def goal_run)
next
  case False
  then obtain objective where active: "gs_status (goal_of w) = GsActive" "gs_objective (goal_of w) = Some objective"
    by auto
  define rest where "rest pass =
      (if \<not> pass then ret None
       else bnd (gets gw_driver) (\<lambda>d.
         if gs_status (dr_state d) = GsActive \<and> continuation_no_progress_cap \<le> dr_streak d then
           thn (change_state env (cap_goal (dr_streak d))) (ret None)
         else bnd (now_millis env) (\<lambda>now.
           if now < dr_backoff_until d \<or> now < dr_parked_until d then ret None
           else if dr_pending d then ret None
           else mint env)))" for pass
  obtain q w1 where gate: "(case last_turn of None \<Rightarrow> ret True | Some turn \<Rightarrow> progress_gate env turn) w = (q, w1)"
    by fastforce
  have run: "next_continuation_message env last_turn w = (case q of Inl e \<Rightarrow> (Inl e, w1) | Inr pass \<Rightarrow> rest pass w1)"
    using active gate by (simp add: next_continuation_message_def goal_run rest_def split: sum.splits)
  have first: "moved {DidMint, DidOther} False (gw_driver w) (gw_driver w1)"
    and pass: "q = Inr True \<Longrightarrow> gs_status (goal_of w1) = GsActive \<and> gs_objective (goal_of w1) \<noteq> None"
  proof (atomize (full), cases last_turn)
    case None
    with gate active show "moved {DidMint, DidOther} False (gw_driver w) (gw_driver w1) \<and>
        (q = Inr True \<longrightarrow> gs_status (goal_of w1) = GsActive \<and> gs_objective (goal_of w1) \<noteq> None)"
      by (auto simp: goal_run)
  next
    case (Some turn)
    with gate have "progress_gate env turn w = (q, w1)" by simp
    from gate_moved[OF this _ active(1), of "{DidMint, DidOther}"] active(2)
    show "moved {DidMint, DidOther} False (gw_driver w) (gw_driver w1) \<and>
        (q = Inr True \<longrightarrow> gs_status (goal_of w1) = GsActive \<and> gs_objective (goal_of w1) \<noteq> None)" by simp
  qed
  have last: "moved {DidMint, DidOther} (case r of Inl _ \<Rightarrow> False | Inr m \<Rightarrow> m \<noteq> None) (gw_driver w1) (gw_driver w')"
    if run: "rest pass w1 = (r, w')" and q: "q = Inr pass" for pass
  proof -
    consider (refused) "r = Inr None" "gw_driver w' = gw_driver w1"
      | (cap) q' where "change_state env (cap_goal (dr_streak (gw_driver w1))) w1 = (q', w')"
          "gs_status (goal_of w1) = GsActive" "case r of Inl _ \<Rightarrow> True | Inr m \<Rightarrow> m = None"
      | (mint) w2 where "mint env w2 = (r, w')" "gw_driver w2 = gw_driver w1" "\<not> dr_pending (gw_driver w1)" pass
      using run by (auto simp: rest_def goal_run dest!: now_millis_run split: if_splits sum.splits prod.splits)
    then show ?thesis
    proof cases
      case cap
      have "moved {DidMint, DidOther} False (gw_driver w1) (gw_driver w')"
        by (rule change_moved[OF cap(1), of DidOther]) (auto intro: capped cap(2))
      with cap(3) show ?thesis by (auto split: sum.splits)
    next
      case mint
      with pass q mint_moved[OF mint(1)] show ?thesis by simp
    qed simp
  qed
  show ?thesis
  proof (cases q)
    case (Inr x)
    show ?thesis by (rule moved_trans[OF first last[OF _ Inr]]) (use assms run Inr in simp_all)
  next
    case (Inl e)
    with assms run have "r = Inl e" "w' = w1" by simp_all
    with first show ?thesis by simp
  qed
qed

lemma take_moved:
  assumes "take_owed_continuation env last_turn w = (r, w')"
  shows "moved {DidMint, DidOther} (case r of Inl _ \<Rightarrow> False | Inr m \<Rightarrow> m \<noteq> None) (gw_driver w) (gw_driver w')"
proof (cases "dr_owed (gw_driver w) \<and> \<not> dr_pending (gw_driver w)")
  case False
  with assms show ?thesis by (auto simp: take_owed_continuation_def goal_run split: if_splits)
next
  case True
  let ?E = "{DidMint, DidOther}"
  define w1 where "w1 = w\<lparr>gw_driver := (gw_driver w)\<lparr>dr_owed := False\<rparr>\<rparr>"
  obtain q w2 where nxt: "next_continuation_message env last_turn w1 = (q, w2)" by fastforce
  have first: "moved ?E False (gw_driver w) (gw_driver w1)" by (rule moved_kept) (simp_all add: w1_def)
  note second = next_moved[OF nxt]
  have run: "take_owed_continuation env last_turn w =
      (case q of
         Inl e \<Rightarrow> (Inl e, w2\<lparr>gw_driver := (gw_driver w2)\<lparr>dr_owed := True\<rparr>\<rparr>)
       | Inr m \<Rightarrow> if m = None
                  then (Inr None, w2\<lparr>gw_driver := (if gs_status (goal_of w2) = GsActive
                                        then (gw_driver w2)\<lparr>dr_owed := True\<rparr> else gw_driver w2)\<rparr>)
                  else (Inr m, w2))"
    using True nxt by (simp add: take_owed_continuation_def goal_run w1_def split: sum.splits)
  have third: "moved ?E False (gw_driver w2) (gw_driver w')"
    and out: "(case r of Inl _ \<Rightarrow> False | Inr m \<Rightarrow> m \<noteq> None) = (case q of Inl _ \<Rightarrow> False | Inr m \<Rightarrow> m \<noteq> None)"
    using assms unfolding run by (auto split: sum.splits if_splits intro!: moved_kept)
  have "moved ?E (case q of Inl _ \<Rightarrow> False | Inr m \<Rightarrow> m \<noteq> None) (gw_driver w1) (gw_driver w')"
    by (rule moved_trans[OF second third]) simp_all
  from moved_trans[OF first this] show ?thesis by (simp add: out)
qed

lemma rollback_moved:
  assumes "rollback_continuation_mint env w = (r, w')"
  shows "moved {DidOther, DidRelease} False (gw_driver w) (gw_driver w')"
proof -
  let ?E = "{DidOther, DidRelease}"
  have drop: "moved ?E False d (release d)" for d by (rule moved_one[OF released]) auto
  obtain q w1 where undo: "change_state env refund_slot w = (q, w1)" by fastforce
  have "moved ?E False (gw_driver w) (gw_driver w1)"
    by (rule change_moved[OF undo, of DidOther]) (auto intro: refunded)
  from moved_trans[OF this drop, of False] have "moved ?E False (gw_driver w) (release (gw_driver w1))" by simp
  with assms undo drop show ?thesis
    by (auto simp: rollback_continuation_mint_def goal_run continuation_consumed_def split: if_splits sum.splits)
qed

text \<open>Every operation moves the driver by its own events; a continuation comes out exactly when a mint happened.\<close>

lemma operation_moved:
  assumes "perform_goal env op w = (r, w')"
  shows "moved (op_events op) (is_mint op \<and> (case r of Inl _ \<Rightarrow> False | Inr m \<Rightarrow> m \<noteq> None)) (gw_driver w) (gw_driver w')"
proof (cases op)
  case GoOwe
  with assms show ?thesis
    by (cases "dr_pending (gw_driver w)")
      (auto simp: silently_def goal_run mark_continuation_owed_def intro!: moved_kept)
next
  case GoConsumed
  with assms show ?thesis
    by (auto simp: silently_def goal_run continuation_consumed_def intro: moved_one[OF released])
next
  case (GoReload rule)
  with assms show ?thesis by (auto simp: silently_def goal_run intro: moved_one[OF reloaded])
qed (use assms in \<open>auto simp: silently_def goal_run split: sum.splits prod.splits
  dest: start_moved clear_moved pause_moved resume_moved complete_moved finish_moved usage_moved next_moved
    take_moved rollback_moved\<close>)

section \<open>Runs\<close>

text \<open>A run performs its operations in order, whether they fail or not; each leaves its result.\<close>

fun run_goal :: "session_env \<Rightarrow> goal_op list \<Rightarrow> goal_world \<Rightarrow> (goal_op \<times> (goal_error + custom_message option)) list \<times> goal_world"
  where
  "run_goal env [] w = ([], w)"
| "run_goal env (op # ops) w =
     (let (r, w1) = perform_goal env op w;
          (outs, w2) = run_goal env ops w1
      in ((op, r) # outs, w2))"

fun minted_message :: "goal_op \<times> (goal_error + custom_message option) \<Rightarrow> bool" where
  "minted_message (op, Inl _) = False"
| "minted_message (op, Inr m) = (is_mint op \<and> m \<noteq> None)"

lemma run_trace:
  assumes "run_goal env ops w = (outs, w')"
  shows "\<exists>evs. goal_trace (gw_driver w) evs (gw_driver w') \<and> set evs \<subseteq> (\<Union>op \<in> set ops. op_events op)
           \<and> count_list evs DidMint = length (filter minted_message outs)"
  using assms
proof (induction ops arbitrary: w outs)
  case Nil
  then show ?case by (auto intro!: exI[of _ "[]"] goal_trace.intros)
next
  case (Cons op ops)
  obtain r w1 where first: "perform_goal env op w = (r, w1)" by fastforce
  obtain outs1 where rest: "run_goal env ops w1 = (outs1, w')" and outs: "outs = (op, r) # outs1"
    using Cons.prems first by (auto simp: Let_def split: prod.splits)
  from operation_moved[OF first] obtain xs where xs: "goal_trace (gw_driver w) xs (gw_driver w1)"
      "set xs \<subseteq> op_events op" "count_list xs DidMint = (if minted_message (op, r) then 1 else 0)"
    by (cases r) (auto simp: moved_def)
  from Cons.IH[OF rest] obtain ys where ys: "goal_trace (gw_driver w1) ys (gw_driver w')"
      "set ys \<subseteq> (\<Union>op \<in> set ops. op_events op)" "count_list ys DidMint = length (filter minted_message outs1)" by blast
  have "set (xs @ ys) \<subseteq> (\<Union>op \<in> set (op # ops). op_events op)" using xs(2) ys(2) by auto
  moreover have "count_list (xs @ ys) DidMint = length (filter minted_message outs)" using xs(3) ys(3) by (simp add: outs)
  ultimately show ?case using trace_append[OF xs(1) ys(1)] by blast
qed

end
