(* ===== verification/GoalProps.thy ===== *)
theory GoalProps
  imports GoalRuns
begin

text \<open>
  The properties of the goal driver over whole runs: what its states look like, what a failed
  operation leaves, how usage is charged, what survives a restart, and that a dead provider ends the
  goal. \<open>GoalInstances\<close> has the instances.
\<close>

section \<open>The lifecycle\<close>


definition blocked :: "goal_driver \<Rightarrow> bool" where
  "blocked d \<longleftrightarrow> dr_pending d \<or> gs_status (dr_state d) \<noteq> GsActive"

lemma quiet_step: "goal_step d ev d' \<Longrightarrow> ev \<in> {DidMint, DidOther} \<Longrightarrow>
    (blocked d \<longrightarrow> ev = DidOther \<and> blocked d') \<and> (ev = DidMint \<longrightarrow> blocked d')"
  by (cases rule: goal_step.cases, assumption)
    (auto simp: blocked_def goal_changes drop_deferrals_def mark_continuation_pending_def)

lemma quiet_trace:
  "goal_trace d evs d' \<Longrightarrow> set evs \<subseteq> {DidMint, DidOther} \<Longrightarrow>
   count_list evs DidMint \<le> (if blocked d then 0 else 1) \<and> (blocked d \<longrightarrow> blocked d')"
proof (induction rule: goal_trace.induct)
  case (trace_cons d ev d1 evs d2)
  with quiet_step[OF trace_cons.hyps(1)] show ?case by (auto split: if_splits)
qed simp

text \<open>
  C12. One continuation per boundary: without an admission, a rollback, a resume, a new or cleared goal
  or a branch reload in between, any number of mints, deferred or not, interleaved with usage, pauses,
  completions and failures, hand out at most one continuation, and none at all while one is pending.
\<close>

theorem one_continuation_until_admitted:
  assumes "run_goal env ops w = (outs, w')"
    and "\<forall>op \<in> set ops. is_mint op \<or> op = GoOwe \<or> op = GoComplete
           \<or> (\<exists>i u. op = GoUsage i u) \<or> (\<exists>reason. op = GoPause reason) \<or> (\<exists>st e. op = GoFinish st e)"
  shows "length (filter minted_message outs) \<le> (if dr_pending (gw_driver w) then 0 else 1)"
proof -
  obtain evs where evs: "goal_trace (gw_driver w) evs (gw_driver w')" "set evs \<subseteq> (\<Union>op \<in> set ops. op_events op)"
      "count_list evs DidMint = length (filter minted_message outs)"
    using run_trace[OF assms(1)] by auto
  have "op_events op \<subseteq> {DidMint, DidOther}" if "op \<in> set ops" for op
    using assms(2) that by (cases op) auto
  with evs(2) have "set evs \<subseteq> {DidMint, DidOther}" by blast
  from quiet_trace[OF evs(1) this] evs(3) show ?thesis by (auto simp: blocked_def split: if_splits)
qed

definition ended :: "goal_driver \<Rightarrow> bool" where
  "ended d \<longleftrightarrow> gs_status (dr_state d) \<in> {GsComplete, GsError}"

lemma ended_step: "goal_step d ev d' \<Longrightarrow> ev \<notin> {DidStart, DidClear, DidReload} \<Longrightarrow> ended d \<Longrightarrow>
    ended d' \<and> ev \<noteq> DidMint \<and> gs_goal_id (dr_state d') = gs_goal_id (dr_state d)
    \<and> gs_tokens_used (dr_state d') = gs_tokens_used (dr_state d)"
  by (cases rule: goal_step.cases, assumption)
    (auto simp: ended_def goal_changes drop_deferrals_def mark_continuation_pending_def release_def)

lemma ended_trace:
  "goal_trace d evs d' \<Longrightarrow> set evs \<inter> {DidStart, DidClear, DidReload} = {} \<Longrightarrow> ended d \<Longrightarrow>
   ended d' \<and> count_list evs DidMint = 0 \<and> gs_goal_id (dr_state d') = gs_goal_id (dr_state d)
   \<and> gs_tokens_used (dr_state d') = gs_tokens_used (dr_state d)"
proof (induction rule: goal_trace.induct)
  case (trace_cons d ev d1 evs d2)
  with ended_step[OF trace_cons.hyps(1)] show ?case by auto
qed simp


section \<open>Failed operations\<close>

text \<open>
  C21. A lifecycle operation or a usage charge that fails leaves the driver as it was: the state, the
  counted messages, the pending and the owed continuation and the no-progress bookkeeping. A start
  resets all of these before its write and puts them back.
\<close>

theorem failed_operation_keeps_driver:
  assumes "perform_goal env op w = (Inl e, w')"
    and "\<forall>turn. op \<noteq> GoMint turn \<and> op \<noteq> GoTake turn" and "op \<noteq> GoRollback"
  shows "gw_driver w' = gw_driver w"
proof (cases op)
  case (GoStart objective budget)
  have undo: "gw_driver w2 = fresh_bookkeeping (gw_driver w)"
    if "set_state env g (w1\<lparr>gw_driver := fresh_bookkeeping (gw_driver w)\<rparr>) = (Inl e, w2)" for g w1 e w2
    using that by (cases rule: set_state_cases) auto
  have restored: "restore_bookkeeping d (fresh_bookkeeping d) = d" for d
    by (simp add: restore_bookkeeping_def fresh_bookkeeping_def)
  from GoStart assms(1) show ?thesis
    by (auto simp: silently_def start_def goal_run now_millis_def new_uuid_def state_with_creation_elapsed_def Let_def
        restored split: sum.splits prod.splits if_splits option.splits dest!: undo)
next
  case GoResume
  with assms(1) show ?thesis
    by (auto simp: resume_def goal_run change_state_run split: if_splits sum.splits prod.splits
        dest!: context_message_run set_state_error)
qed (use assms in \<open>auto simp: silently_def goal_run clear_def pause_def complete_def finish_run change_state_run
    record_assistant_usage_def Let_def split: if_splits sum.splits prod.splits dest!: set_state_error\<close>)

section \<open>Usage\<close>

fun record_all ::
    "session_env \<Rightarrow> (string \<times> usage) list \<Rightarrow> goal_world \<Rightarrow>
     ((string \<times> usage) \<times> (goal_error + usage_outcome)) list \<times> goal_world" where
  "record_all env [] w = ([], w)"
| "record_all env ((i, u) # ms) w =
     (let (r, w1) = record_assistant_usage env i u w;
          (outs, w2) = record_all env ms w1
      in (((i, u), r) # outs, w2))"

fun charged_for :: "(string \<times> usage) \<times> (goal_error + usage_outcome) \<Rightarrow> bool" where
  "charged_for (_, Inr Accounted) = True"
| "charged_for (_, Inr BudgetReached) = True"
| "charged_for _ = False"

lemma record_usage_effect:
  assumes "record_assistant_usage env i u w = (r, w')"
  shows "(if charged_for ((i, u), r)
          then i \<notin> dr_accounted (gw_driver w) \<and> dr_accounted (gw_driver w') = insert i (dr_accounted (gw_driver w))
             \<and> gs_tokens_used (goal_of w') = add_u64 (gs_tokens_used (goal_of w)) (usage_delta u)
             \<and> gs_status (goal_of w) = GsActive
          else gw_driver w' = gw_driver w)"
    and "r = Inr out \<Longrightarrow> gs_status (goal_of w') = GsActive \<Longrightarrow> i \<in> dr_accounted (gw_driver w')"
  using assms
  by (auto simp: record_assistant_usage_def goal_run Let_def charge_def end_goal_def
      dest!: set_state_error set_state_ok split: if_splits sum.splits prod.splits)

lemma record_all_inactive:
  "record_all env ms w = (outs, w') \<Longrightarrow> gs_status (goal_of w) \<noteq> GsActive \<Longrightarrow> gw_driver w' = gw_driver w"
proof (induction ms arbitrary: w outs)
  case (Cons m ms)
  obtain i u where m: "m = (i, u)" by fastforce
  obtain r w1 where first: "record_assistant_usage env i u w = (r, w1)" by fastforce
  from record_usage_effect(1)[OF first] Cons.prems(2) have "gw_driver w1 = gw_driver w" by (auto split: if_splits)
  with Cons first show ?case by (auto simp: m Let_def split: prod.splits)
qed simp

text \<open>
  C14. The usage of each assistant message is charged at most once, whatever order the calls come in,
  however often a message is repeated and whichever writes fail: the goal's tokens grow by the deltas
  of the charged messages (modulo \<open>2 ^ 64\<close>), these are distinct and were not counted before, and while
  the goal is active every call that succeeded left its message counted.
\<close>

theorem usage_is_charged_once:
  assumes "record_all env ms w = (outs, w')" and "gs_tokens_used (goal_of w) < 2 ^ 64"
  shows "distinct (map (fst \<circ> fst) (filter charged_for outs))
     \<and> set (map (fst \<circ> fst) (filter charged_for outs)) \<inter> dr_accounted (gw_driver w) = {}
     \<and> dr_accounted (gw_driver w') = dr_accounted (gw_driver w) \<union> set (map (fst \<circ> fst) (filter charged_for outs))
     \<and> gs_tokens_used (goal_of w') =
         (gs_tokens_used (goal_of w) + sum_list (map (usage_delta \<circ> snd \<circ> fst) (filter charged_for outs))) mod 2 ^ 64
     \<and> (gs_status (goal_of w') = GsActive \<longrightarrow>
          (\<forall>(m, r) \<in> set outs. r \<in> range Inr \<longrightarrow> fst m \<in> dr_accounted (gw_driver w')))"
  using assms
proof (induction ms arbitrary: w outs)
  case (Cons m ms)
  obtain i u where m: "m = (i, u)" by fastforce
  obtain r w1 where first: "record_assistant_usage env i u w = (r, w1)" by fastforce
  obtain outs1 where rest: "record_all env ms w1 = (outs1, w')" and outs: "outs = ((i, u), r) # outs1"
    using Cons.prems(1) first by (auto simp: m Let_def split: prod.splits)
  note effect = record_usage_effect(1)[OF first]
  then have "gs_tokens_used (goal_of w1) < 2 ^ 64" using Cons.prems(2) by (auto simp: add_u64_def split: if_splits)
  note IH = Cons.IH[OF rest this]
  have active: "gs_status (goal_of w1) = GsActive" if "gs_status (goal_of w') = GsActive"
    using record_all_inactive[OF rest] that by (cases "gs_status (goal_of w1) = GsActive") auto
  show ?case
  proof (cases "charged_for ((i, u), r)")
    case True
    with effect have e: "i \<notin> dr_accounted (gw_driver w)"
        "dr_accounted (gw_driver w1) = insert i (dr_accounted (gw_driver w))"
        "gs_tokens_used (goal_of w1) = (gs_tokens_used (goal_of w) + usage_delta u) mod 2 ^ 64"
      by (simp_all add: add_u64_def)
    from IH e True show ?thesis by (auto simp: outs mod_add_left_eq add.assoc)
  next
    case False
    with effect have e: "gw_driver w1 = gw_driver w" by simp
    with record_usage_effect(2)[OF first] active IH False show ?thesis by (auto simp: outs)
  qed
qed auto

section \<open>The goal row\<close>

text \<open>
  The values a run keeps in their types, and the state as the newest goal row. \<open>saves\<close> is the
  triple that all programs of the driver satisfy: the values stay in range, and when the program
  succeeds the row stays the state.
\<close>

definition clock_ok :: "session_env \<Rightarrow> bool" where
  "clock_ok env \<longleftrightarrow> (\<forall>k. ev_now env k < 2 ^ 64)"

definition held :: "session_env \<Rightarrow> goal_world \<Rightarrow> bool" where
  "held env w \<longleftrightarrow> manager_ok env (gw_session w) \<and> goal_wf (goal_of w) \<and> dr_streak (gw_driver w) < 2 ^ 32"

definition saved :: "goal_world \<Rightarrow> bool" where
  "saved w \<longleftrightarrow> latest_persisted_state (gw_session w) = goal_of w"

definition saves :: "session_env \<Rightarrow> 'a goal_prog \<Rightarrow> bool" where
  "saves env m \<longleftrightarrow> hoare (\<lambda>w. held env w \<and> saved w) m (\<lambda>_ w. held env w \<and> saved w) (\<lambda>_. held env)"

named_theorems saves_rules \<open>the programs of the goal driver keep the state and its row\<close>

lemma clock_value: "clock_ok env \<Longrightarrow> nat (ev_now env k) < 2 ^ 64"
  by (simp only: clock_ok_def nat_less_numeral_power_cancel_iff)

lemma goal_wf_stamp: "goal_wf g \<Longrightarrow> now < 2 ^ 64 \<Longrightarrow> goal_wf (stamp now g)"
  by (auto simp: goal_wf_def stamp_def normalize_goal_state_def opt_below_def Let_def creation_elapsed_seconds_def
      saturating_sub_def split: option.splits intro: le_less_trans[OF div_le_dividend])

lemma normalize_stamp: "normalize_goal_state (stamp now g) = stamp now g"
  by (auto simp: stamp_def normalize_goal_state_def Let_def split: option.splits)

lemma latest_after_goal:
  assumes "active_branch_entries s' = active_branch_entries s @ [goal_entry g b]" and "goal_wf g"
    and "normalize_goal_state g = g"
  shows "latest_persisted_state s' = g"
  using assms by (simp add: latest_persisted_state_def active_goal_state_def goal_row_entry)

lemma saves_set_state:
  assumes "clock_ok env" and "goal_wf g"
  shows "saves env (set_state env g)"
  unfolding saves_def
proof (rule hoareI)
  fix w x w' assume ok: "held env w \<and> saved w" and run: "set_state env g w = (Inr x, w')"
  from run show "held env w' \<and> saved w'"
  proof (cases rule: set_state_cases)
    case (persisted now)
    have "now < 2 ^ 64" using persisted(2) clock_value[OF assms(1)] by auto
    with assms(2) have wf: "goal_wf (stamp now g)" by (rule goal_wf_stamp)
    from ok persisted(4) obtain b where "manager_ok env (gw_session w')"
        "active_branch_entries (gw_session w') = active_branch_entries (gw_session w) @ [goal_entry (stamp now g) b]"
      by (auto simp: held_def)
    with latest_after_goal[OF _ wf normalize_stamp] wf ok show ?thesis by (simp add: held_def saved_def persisted(3))
  qed simp
next
  fix w e w' assume ok: "held env w \<and> saved w" and run: "set_state env g w = (Inl e, w')"
  from run show "held env w'" by (cases rule: set_state_cases) (use ok in \<open>auto simp: held_def\<close>)
qed

lemma saves_ret [saves_rules]: "saves env (ret x)" and saves_fail [saves_rules]: "saves env (fail e)"
  by (auto simp: saves_def hoare_def goal_run)

lemma saves_bnd: "saves env m \<Longrightarrow> (\<And>x. saves env (f x)) \<Longrightarrow> saves env (bnd m f)"
  unfolding saves_def by (rule hoare_bnd)

lemma saves_thn [saves_rules]: "saves env m \<Longrightarrow> saves env k \<Longrightarrow> saves env (thn m k)"
  unfolding thn_def by (rule saves_bnd)

lemma saves_if [saves_rules]: "(b \<Longrightarrow> saves env m) \<Longrightarrow> (\<not> b \<Longrightarrow> saves env k) \<Longrightarrow> saves env (if b then m else k)"
  by simp

lemma saves_gets [saves_rules]:
  assumes "\<And>d. goal_wf (dr_state d) \<Longrightarrow> dr_streak d < 2 ^ 32 \<Longrightarrow> saves env (f (h d))"
  shows "saves env (bnd (gets (\<lambda>w. h (gw_driver w))) f)"
  using assms by (fastforce simp: saves_def hoare_def goal_run held_def)

lemma saves_gets_driver [saves_rules]:
  assumes "\<And>d. goal_wf (dr_state d) \<Longrightarrow> dr_streak d < 2 ^ 32 \<Longrightarrow> saves env (f d)"
  shows "saves env (bnd (gets gw_driver) f)"
  using saves_gets[of env f "\<lambda>d. d"] assms by simp

lemma saves_now [saves_rules]:
  assumes "clock_ok env" and "\<And>now. now < 2 ^ 64 \<Longrightarrow> saves env (f now)"
  shows "saves env (bnd (now_millis env) f)"
proof -
  have "hoare (\<lambda>w. held env w \<and> saved w) (now_millis env) (\<lambda>now w. now < 2 ^ 64 \<and> held env w \<and> saved w) (\<lambda>_. held env)"
  proof (rule hoareI)
    fix w x w' assume ok: "held env w \<and> saved w" and "now_millis env w = (Inr x, w')"
    with now_millis_run[OF this(2)] have "x < 2 ^ 64" "gw_driver w' = gw_driver w" "same_rows (gw_session w) (gw_session w')"
      using clock_value[OF assms(1)] by (auto simp: same_rows_def)
    with ok show "x < 2 ^ 64 \<and> held env w' \<and> saved w'"
      by (auto simp: held_def saved_def latest_persisted_state_def active_goal_state_def same_rows_branch
          intro: manager_ok_same_rows)
  qed (auto simp: now_millis_def Let_def)
  then show ?thesis
    unfolding saves_def by (rule hoare_bnd) (use assms(2) in \<open>auto simp: saves_def hoare_def\<close>)
qed

lemma saves_driver [saves_rules]:
  assumes "\<And>d. dr_state (h d) = dr_state d" and "\<And>d. dr_streak d < 2 ^ 32 \<Longrightarrow> dr_streak (h d) < 2 ^ 32"
  shows "saves env (on_driver h)"
  using assms by (auto simp: saves_def hoare_def goal_run held_def saved_def)

lemma saves_change [saves_rules]:
  assumes "clock_ok env" and "\<And>g. goal_wf g \<Longrightarrow> goal_wf (f g)"
  shows "saves env (change_state env f)"
  unfolding change_state_def by (intro saves_rules saves_set_state assms)

text \<open>An error handler that puts the driver right and fails again.\<close>

lemma saves_match [saves_rules]:
  assumes "saves env m" and "\<And>x. saves env (f x)" and "\<And>d. dr_state (h d) = dr_state d"
    and "\<And>d. dr_streak d < 2 ^ 32 \<Longrightarrow> dr_streak (h d) < 2 ^ 32"
  shows "saves env (match_result m f (\<lambda>e. thn (on_driver h) (fail e)))"
  unfolding saves_def hoare_def
proof (intro allI impI)
  fix w assume ok: "held env w \<and> saved w"
  obtain q w1 where m: "m w = (q, w1)" by fastforce
  show "case match_result m f (\<lambda>e. thn (on_driver h) (fail e)) w of
      (Inl e, w') \<Rightarrow> held env w' | (Inr x, w') \<Rightarrow> held env w' \<and> saved w'"
  proof (cases q)
    case (Inl e)
    with assms(1) ok m have "held env w1" unfolding saves_def hoare_def by fastforce
    with assms(3,4) m Inl show ?thesis by (simp add: goal_run held_def)
  next
    case (Inr x)
    with assms(1) ok m have "held env w1 \<and> saved w1" unfolding saves_def hoare_def by fastforce
    with assms(2)[of x] m Inr show ?thesis by (simp add: goal_run saves_def hoare_def)
  qed
qed

lemma saves_uuid [saves_rules]:
  assumes "\<And>i. saves env (f i)"
  shows "saves env (bnd (new_uuid env) f)"
proof -
  have "saves env (new_uuid env)"
    unfolding saves_def hoare_def
  proof (intro allI impI)
    fix w assume ok: "held env w \<and> saved w"
    let ?s = "gw_session w" and ?s' = "(gw_session w)\<lparr>sm_draws := Suc (sm_draws (gw_session w))\<rparr>"
    have "manager_ok env ?s'" using ok by (auto simp: held_def manager_ok_def leaf_ok_def ids_fresh_def)
    moreover have "active_branch_entries ?s' = active_branch_entries ?s"
      by (cases "sm_leaf_id ?s") (simp_all add: active_branch_entries_def active_branch_def)
    ultimately show "case new_uuid env w of (Inl e, w') \<Rightarrow> held env w' | (Inr x, w') \<Rightarrow> held env w' \<and> saved w'"
      using ok by (simp add: new_uuid_def Let_def held_def saved_def latest_persisted_state_def active_goal_state_def)
  qed
  then show ?thesis using assms by (rule saves_bnd)
qed

lemma goal_wf_changes:
  "goal_wf g \<Longrightarrow> goal_wf (end_goal st r e g)" "goal_wf g \<Longrightarrow> goal_wf (resumed g)"
  "goal_wf g \<Longrightarrow> goal_wf (charge n g)" "goal_wf g \<Longrightarrow> goal_wf (spend_slot g)" "goal_wf g \<Longrightarrow> goal_wf (refund_slot g)"
  "goal_wf g \<Longrightarrow> n < 2 ^ 32 \<Longrightarrow> goal_wf (cap_goal n g)"
  "goal_wf g \<Longrightarrow> n < 2 ^ 32 \<Longrightarrow> - (2 ^ 63) \<le> t \<Longrightarrow> t < 2 ^ 63 \<Longrightarrow> goal_wf (note_streak n t g)"
  "now < 2 ^ 64 \<Longrightarrow> opt_below (2 ^ 64) b \<Longrightarrow> goal_wf (fresh_goal now i objective b)" "goal_wf empty_goal_state"
  by (auto simp: goal_wf_def goal_changes opt_below_def add_u64_def)

text \<open>The values the caller passes are those of their types.\<close>

definition turn_wf :: "assistant_message \<Rightarrow> bool" where
  "turn_wf turn \<longleftrightarrow> - (2 ^ 63) \<le> am_timestamp turn \<and> am_timestamp turn < 2 ^ 63"

fun op_wf :: "goal_op \<Rightarrow> bool" where
  "op_wf (GoStart _ budget) = opt_below (2 ^ 64) budget"
| "op_wf (GoMint turn) = (case turn of None \<Rightarrow> True | Some t \<Rightarrow> turn_wf t)"
| "op_wf (GoTake turn) = (case turn of None \<Rightarrow> True | Some t \<Rightarrow> turn_wf t)"
| "op_wf _ = True"

lemma saves_context: "clock_ok env \<Longrightarrow> saves env (context_message env kind)"
  unfolding context_message_def
  by (intro saves_rules) (auto split: option.splits sum.splits intro!: saves_rules)

lemma saves_finish: "clock_ok env \<Longrightarrow> saves env (finish_for_terminal_message env st e)"
  unfolding finish_for_terminal_message_def by (intro saves_rules goal_wf_changes)

lemma saves_strike: "clock_ok env \<Longrightarrow> turn_wf turn \<Longrightarrow> saves env (strike env turn)"
  unfolding strike_def Let_def turn_wf_def
  by (intro saves_rules goal_wf_changes) (auto simp: add_u32_def)

lemma saves_gate:
  assumes "clock_ok env" and "turn_wf turn"
  shows "saves env (progress_gate env turn)"
proof -
  have "saves env (park_refusal env turn)" "saves env (progress_made env turn)"
    unfolding park_refusal_def progress_made_def using assms
    by (intro saves_rules goal_wf_changes; simp add: turn_wf_def)+
  with saves_finish[OF assms(1)] saves_strike[OF assms] show ?thesis
    unfolding progress_gate_def Let_def
    by (intro saves_rules) (auto split: option.splits intro!: saves_rules)
qed

lemma saves_next:
  assumes "clock_ok env" and "op_wf (GoMint last_turn)"
  shows "saves env (next_continuation_message env last_turn)"
proof -
  have "saves env (case last_turn of None \<Rightarrow> ret True | Some turn \<Rightarrow> progress_gate env turn)"
    using assms saves_gate by (auto split: option.splits intro: saves_rules)
  moreover have "saves env (mint env)"
    unfolding mint_def by (intro saves_rules saves_bnd saves_context goal_wf_changes assms(1))
      (simp_all add: mark_continuation_pending_def)
  ultimately show ?thesis
    unfolding next_continuation_message_def
    by (intro saves_rules saves_bnd goal_wf_changes assms(1)) auto
qed

lemma saves_silently: "saves env m \<Longrightarrow> saves env (silently m)"
  unfolding silently_def by (intro saves_rules)

lemma saves_start:
  assumes "clock_ok env" and "opt_below (2 ^ 64) budget"
  shows "saves env (start env objective budget)"
proof -
  have "saves env (state_with_creation_elapsed env)"
    unfolding state_with_creation_elapsed_def
    by (intro saves_rules) (auto split: option.splits intro!: saves_rules assms(1))
  then have "saves env (bnd (now_millis env) (\<lambda>now. bnd (new_uuid env) (\<lambda>goal_id.
      bnd (gets gw_driver) (\<lambda>previous. thn (on_driver fresh_bookkeeping)
        (match_result (set_state env (fresh_goal now goal_id t budget)) (\<lambda>_. state_with_creation_elapsed env)
          (\<lambda>e. thn (on_driver (restore_bookkeeping previous)) (fail e)))))))" for t
    using assms
    by (intro saves_rules saves_set_state goal_wf_changes) (auto simp: fresh_bookkeeping_def restore_bookkeeping_def)
  then show ?thesis
    using assms by (auto simp: start_def validate_goal_budget_def intro: saves_rules split: sum.splits)
qed

lemma saves_take:
  assumes "clock_ok env" and "op_wf (GoTake last_turn)"
  shows "saves env (take_owed_continuation env last_turn)"
  unfolding take_owed_continuation_def
  by (intro saves_rules saves_next) (use assms in simp_all)

lemma saves_rollback: "clock_ok env \<Longrightarrow> saves env (rollback_continuation_mint env)"
  unfolding rollback_continuation_mint_def
  by (intro saves_rules goal_wf_changes) (simp_all add: continuation_consumed_def release_def)

lemma operation_keeps:
  assumes "clock_ok env" and "op_wf op" and "\<forall>rule. op \<noteq> GoReload rule"
  shows "saves env (perform_goal env op)"
proof (cases op)
  case (GoStart objective budget)
  with assms show ?thesis by (simp add: saves_silently saves_start)
next
  case GoResume
  show ?thesis
    unfolding perform_goal.simps GoResume resume_def
    by (intro saves_rules saves_context goal_wf_changes assms(1))
next
  case (GoUsage i u)
  then show ?thesis
    unfolding GoUsage perform_goal.simps record_assistant_usage_def Let_def
    by (intro saves_silently saves_rules saves_set_state goal_wf_changes assms(1)) simp_all
next
  case (GoMint turn)
  with assms show ?thesis by (simp add: saves_next)
next
  case (GoTake turn)
  with assms show ?thesis by (simp add: saves_take)
next
  case GoOwe
  show ?thesis unfolding GoOwe perform_goal.simps
    by (intro saves_silently saves_rules) (simp_all add: mark_continuation_owed_def)
next
  case GoConsumed
  show ?thesis unfolding GoConsumed perform_goal.simps
    by (intro saves_silently saves_rules) (simp_all add: continuation_consumed_def release_def)
next
  case GoRollback
  with assms show ?thesis by (simp add: saves_silently saves_rollback)
next
  case (GoFinish st e)
  with assms show ?thesis by (simp add: saves_silently saves_finish)
next
  case (GoReload rule)
  with assms show ?thesis by simp
next
  case (GoPause reason)
  show ?thesis unfolding GoPause perform_goal.simps pause_def
    by (intro saves_silently saves_rules goal_wf_changes assms(1)) (simp_all add: drop_deferrals_def)
next
  case GoClear
  show ?thesis unfolding GoClear perform_goal.simps clear_def
    by (intro saves_silently saves_rules saves_set_state goal_wf_changes assms(1)) (simp_all add: drop_deferrals_def)
next
  case GoComplete
  show ?thesis unfolding GoComplete perform_goal.simps complete_def
    by (intro saves_silently saves_rules goal_wf_changes assms(1))
qed

lemma run_keeps:
  assumes "run_goal env ops w = (outs, w')" and "clock_ok env" and "held env w" and "saved w"
    and "\<forall>op \<in> set ops. op_wf op \<and> (\<forall>rule. op \<noteq> GoReload rule)" and "\<forall>(op, r) \<in> set outs. r \<in> range Inr"
  shows "held env w' \<and> saved w'"
  using assms(1,3,4,5,6)
proof (induction ops arbitrary: w outs)
  case (Cons op ops)
  obtain r w1 where first: "perform_goal env op w = (r, w1)" by fastforce
  obtain outs1 where rest: "run_goal env ops w1 = (outs1, w')" and outs: "outs = (op, r) # outs1"
    using Cons.prems first by (auto simp: Let_def split: prod.splits)
  obtain m where m: "r = Inr m" using Cons.prems(5) outs by auto
  have "saves env (perform_goal env op)" by (rule operation_keeps) (use assms(2) Cons.prems(4) in auto)
  with first m Cons.prems(2,3) have "held env w1 \<and> saved w1" unfolding saves_def by (blast dest: hoare_value)
  with Cons.IH[OF rest] Cons.prems(4,5) outs show ?case by auto
qed simp


section \<open>Turns without output\<close>

text \<open>
  A dead turn: it failed on the provider for good or produced nothing, and it is not parked. A goal
  that has been consulted with dead turns either ended, or is as before but for the strikes counted.
\<close>

definition dead_turn :: "assistant_message \<Rightarrow> bool" where
  "dead_turn turn \<longleftrightarrow>
     (terminal_provider_failure turn \<noteq> None \<or> turn_produced_no_output turn)
     \<and> provider_stream_failure_kind turn \<noteq> Some ''rate_limit''"

definition striking :: "nat \<Rightarrow> nat \<Rightarrow> int option \<Rightarrow> goal_driver \<Rightarrow> bool" where
  "striking created n counted d \<longleftrightarrow>
     gs_status (dr_state d) = GsActive \<and> gs_objective (dr_state d) \<noteq> None
     \<and> gs_created_at (dr_state d) = Some created \<and> dr_streak d = n \<and> n < continuation_no_progress_cap
     \<and> dr_counted d = counted"

lemma stamp_created: "gs_created_at g = Some c \<Longrightarrow> gs_created_at (stamp now g) = Some c"
  by (simp add: stamp_def normalize_goal_state_def Let_def)

lemma mint_striking:
  "mint env w = (Inr m, w') \<Longrightarrow> striking created n counted (gw_driver w) \<Longrightarrow> striking created n counted (gw_driver w')"
  by (auto simp: mint_def goal_run change_state_run striking_def mark_continuation_pending_def spend_slot_def stamp_created
      dest!: set_state_ok context_message_run split: if_splits sum.splits prod.splits)

lemma consult_dead_turn:
  assumes run: "next_continuation_message env (Some turn) w = (Inr m, w')" and dead: "dead_turn turn"
    and alive: "striking created n counted (gw_driver w)" and "as_i64 created < am_timestamp turn"
  shows "gs_status (goal_of w') = GsError
     \<or> (if turn_is_new (gw_driver w) turn
         then m = None \<and> striking created (Suc n) (Some (am_timestamp turn)) (gw_driver w')
         else striking created n counted (gw_driver w'))"
proof -
  have active: "gs_status (goal_of w) = GsActive" "gs_objective (goal_of w) \<noteq> None"
    and ours: "turn_is_this_goals (gw_driver w) turn"
    using alive assms(4) by (auto simp: striking_def turn_is_this_goals_def)
  have gate: "gs_status (goal_of w1) = GsError \<and> \<not> pass \<or>
      (if turn_is_new (gw_driver w) turn
       then \<not> pass \<and> striking created (Suc n) (Some (am_timestamp turn)) (gw_driver w1)
       else gw_driver w1 = gw_driver w)"
    if "progress_gate env turn w = (Inr pass, w1)" for pass w1
    using that
  proof (cases rule: gate_cases)
    case (terminal r0)
    with that have "\<exists>u. r0 = Inr u" by (auto simp: gate_run goal_run Let_def split: sum.splits)
    with terminal(1,2) active show ?thesis by (auto simp: finish_run end_goal_def dest!: set_state_ok)
  next
    case struck
    define k where "k = add_u32 (dr_streak (gw_driver w)) 1"
    have k: "k = Suc n" using alive by (simp add: k_def add_u32_def striking_def continuation_no_progress_cap_def)
    from struck(1)[unfolded strike_run Let_def, folded k_def]
    obtain w2 where first: "set_state env (note_streak k (am_timestamp turn) (goal_of w)) (struck env turn w) = (Inr (), w2)"
      and rest: "(if continuation_no_progress_cap \<le> k then thn (change_state env (cap_goal k)) (ret False) else ret False) w2
                   = (Inr pass, w1)"
      by (auto simp: goal_run change_state_run split: sum.splits prod.splits)
    from set_state_ok[OF first] obtain now where
      w2: "gw_driver w2 = adopt (stamp now (note_streak k (am_timestamp turn) (goal_of w))) (gw_driver (struck env turn w))"
      by blast
    show ?thesis
    proof (cases "continuation_no_progress_cap \<le> k")
      case True
      with rest show ?thesis
        by (auto simp: goal_run change_state_run cap_goal_def end_goal_def split: sum.splits prod.splits dest!: set_state_ok)
    next
      case False
      with rest have "\<not> pass" "w1 = w2" by (simp_all add: goal_run)
      moreover have "striking created (Suc n) (Some (am_timestamp turn)) (gw_driver w2)"
        using alive False k by (simp add: w2 striking_def stamp_created note_streak_def k_def)
      ultimately show ?thesis using struck(3) by simp
    qed
  next
    case passed
    with ours show ?thesis by simp
  qed (use dead in \<open>auto simp: dead_turn_def\<close>)
  from run active show ?thesis
  proof (cases rule: next_cases)
    case refused
    with gate[OF refused(1)] alive show ?thesis by (auto split: if_splits)
  next
    case (capped w1)
    with gate[OF capped(1)] alive show ?thesis by (auto simp: striking_def split: if_splits)
  next
    case (waiting w1)
    with gate[OF waiting(1)] alive show ?thesis by (auto split: if_splits)
  next
    case (minted w1 w2)
    with gate[OF minted(1)] alive mint_striking[OF minted(4), of created n counted] show ?thesis by (auto split: if_splits)
  qed
qed

text \<open>How many of the turns are newer than everything counted before them.\<close>

fun new_turns :: "int option \<Rightarrow> assistant_message list \<Rightarrow> nat" where
  "new_turns counted [] = 0"
| "new_turns counted (t # ts) =
     (if case counted of None \<Rightarrow> True | Some c \<Rightarrow> c < am_timestamp t
      then Suc (new_turns (Some (am_timestamp t)) ts) else new_turns counted ts)"

fun consulted_turn :: "goal_op \<Rightarrow> assistant_message option" where
  "consulted_turn (GoMint t) = t"
| "consulted_turn _ = None"

lemma inactive_run:
  assumes "run_goal env ops w = (outs, w')" and "gs_status (goal_of w) = GsError"
    and "\<forall>op \<in> set ops. op = GoConsumed \<or> (\<exists>t. op = GoMint t)"
  shows "gs_status (goal_of w') = GsError"
  using assms
proof (induction ops arbitrary: w outs)
  case (Cons op ops)
  obtain r w1 where first: "perform_goal env op w = (r, w1)" by fastforce
  obtain outs1 where rest: "run_goal env ops w1 = (outs1, w')"
    using Cons.prems first by (auto simp: Let_def split: prod.splits)
  have "op = GoConsumed \<or> (\<exists>t. op = GoMint t)" using Cons.prems(3) by simp
  then have "gs_status (goal_of w1) = GsError"
    using first Cons.prems(2)
    by (auto simp: silently_def goal_run continuation_consumed_def release_def next_continuation_message_def)
  with Cons.IH[OF rest] Cons.prems(3) show ?case by simp
qed simp

lemma striking_release: "striking created n counted d \<Longrightarrow> striking created n counted (release d)"
  by (simp add: striking_def release_def)

lemma dead_loop:
  assumes "run_goal env ops w = (outs, w')" and "\<forall>(op, r) \<in> set outs. r \<in> range Inr"
    and "\<forall>op \<in> set ops. op = GoConsumed \<or> (\<exists>t. op = GoMint (Some t) \<and> dead_turn t \<and> as_i64 created < am_timestamp t)"
    and "striking created n counted (gw_driver w)"
  shows "gs_status (goal_of w') = GsError
     \<or> n + new_turns counted (List.map_filter consulted_turn ops) < continuation_no_progress_cap"
  using assms
proof (induction ops arbitrary: w outs n counted)
  case Nil
  then show ?case by (simp add: striking_def map_filter_simps)
next
  case (Cons op ops)
  obtain r w1 where first: "perform_goal env op w = (r, w1)" by fastforce
  obtain outs1 where rest: "run_goal env ops w1 = (outs1, w')" and outs: "outs = (op, r) # outs1"
    using Cons.prems first by (auto simp: Let_def split: prod.splits)
  obtain m where m: "r = Inr m" using Cons.prems(2) outs by auto
  have all: "\<forall>(op, r) \<in> set outs1. r \<in> range Inr" using Cons.prems(2) outs by simp
  have ops: "\<forall>op \<in> set ops. op = GoConsumed \<or> (\<exists>t. op = GoMint (Some t) \<and> dead_turn t \<and> as_i64 created < am_timestamp t)"
    using Cons.prems(3) by simp
  note IH = Cons.IH[OF rest all ops]
  from Cons.prems(3) consider "op = GoConsumed"
    | t where "op = GoMint (Some t)" "dead_turn t" "as_i64 created < am_timestamp t" by auto
  then show ?case
  proof cases
    case 1
    with first have "gw_driver w1 = release (gw_driver w)" by (auto simp: silently_def goal_run continuation_consumed_def)
    with IH[of n counted] striking_release[OF Cons.prems(4)] 1 show ?thesis by (simp add: map_filter_simps)
  next
    case (2 t)
    with first m have "next_continuation_message env (Some t) w = (Inr m, w1)" by simp
    from consult_dead_turn[OF this 2(2) Cons.prems(4) 2(3)] consider "gs_status (goal_of w1) = GsError"
      | "turn_is_new (gw_driver w) t" "striking created (Suc n) (Some (am_timestamp t)) (gw_driver w1)"
      | "\<not> turn_is_new (gw_driver w) t" "striking created n counted (gw_driver w1)" by (auto split: if_splits)
    then show ?thesis
    proof cases
      case 1
      with inactive_run[OF rest] ops show ?thesis by blast
    next
      case new: 2
      have "case counted of None \<Rightarrow> True | Some c \<Rightarrow> c < am_timestamp t"
        using new(1) Cons.prems(4) by (simp add: turn_is_new_def striking_def)
      with IH[OF new(2)] 2 show ?thesis by (simp add: map_filter_simps)
    next
      case old: 3
      have "\<not> (case counted of None \<Rightarrow> True | Some c \<Rightarrow> c < am_timestamp t)"
        using old(1) Cons.prems(4) by (simp add: turn_is_new_def striking_def)
      with IH[OF old(2)] 2 show ?thesis by (simp add: map_filter_simps)
    qed
  qed
qed


section \<open>The guard against resurrection\<close>

lemma stale_scan_tail:
  assumes "\<forall>e \<in> set es. goal_row e = None"
  shows "stale_scan (rev es @ rest) newest =
    stale_scan rest (if newest = None then find_map_rev assistant_row es else newest)"
  using assms by (induction es arbitrary: newest rule: rev_induct) (auto split: option.splits)

text \<open>
  The guard decides by the newest goal row alone: an active row is stale exactly when the newest
  assistant message after it failed on the provider for good, whatever came before the row and
  whatever else follows it; a row in another state is never stale.
\<close>

lemma newest_goal_row_decides:
  assumes "goal_row row = Some g" and "\<forall>e \<in> set later. goal_row e = None"
  shows "stale_active_goal_failure (earlier @ row # later) =
    (if gs_status g = GsActive then Option.bind (find_map_rev assistant_row later) wire_terminal_provider_failure
     else None)"
  using stale_scan_tail[OF assms(2), of "row # rev earlier" None] assms(1)
  by (simp add: stale_active_goal_failure_def)

end
