(* ===== verification/GoalBoundary.thy ===== *)
theory GoalBoundary
  imports GoalProps
begin

text \<open>
  The engine's goal arms (\<open>pa-core/src/session_engine/goal_boundary.rs\<close>): each takes the driver's
  lock and then the session's, so it is one step of the pair. The rows that the seed queues for the
  next turn are part of its result; the text of an error is the parameter \<open>error_text\<close>; dropping the
  failed pair from the live conversation is left to the transcript. The last section is about a start
  whose row was buffered when its flush failed.
\<close>

section \<open>The arms\<close>

definition seed_initial_goal ::
    "session_env \<Rightarrow> string \<Rightarrow> nat option \<Rightarrow> (bool \<times> custom_message list) goal_prog" where
  "seed_initial_goal env objective token_budget =
     bnd (gets gw_session) (\<lambda>s.
       if \<not> is_branch_seedable s then ret (False, [])
       else bnd (start env objective token_budget) (\<lambda>state.
         if gs_objective state = None then fail (GoalInvalid ''Cannot create goal context without an objective.'')
         else bnd (now_millis env) (\<lambda>now.
           case create_goal_context_message now state Continuation of
             Inl e \<Rightarrow> fail (GoalInvalid e)
           | Inr row \<Rightarrow> ret (True, [row]))))"

definition record_goal_usage :: "session_env \<Rightarrow> string \<Rightarrow> usage \<Rightarrow> usage_outcome goal_prog" where
  "record_goal_usage env message_id u = record_assistant_usage env message_id u"

definition goal_budget_limit_steer :: "session_env \<Rightarrow> custom_message option goal_prog" where
  "goal_budget_limit_steer env =
     bnd (gets (\<lambda>w. gs_status (dr_state (gw_driver w)))) (\<lambda>st.
       if st \<noteq> GsBudgetLimited then ret None
       else bnd (state_with_creation_elapsed env) (\<lambda>g.
         if gs_objective g = None then ret None
         else bnd (now_millis env) (\<lambda>now.
           case create_goal_context_message now g BudgetLimit of Inl _ \<Rightarrow> ret None | Inr row \<Rightarrow> ret (Some row))))"

definition mint_goal_continuation ::
    "(goal_error \<Rightarrow> string) \<Rightarrow> session_env \<Rightarrow> assistant_message option \<Rightarrow> custom_message option goal_prog" where
  "mint_goal_continuation error_text env last_turn =
     bnd (gets gw_driver) (\<lambda>d.
       if \<not> owns_continuation_wakeup d then ret None
       else match_result (next_continuation_message env last_turn) ret
              (\<lambda>e. match_result (finish_for_terminal_message env StopError (Some (error_text e)))
                     (\<lambda>_. ret None) (\<lambda>_. ret None)))"

definition fail_goal_for_terminal_error :: "session_env \<Rightarrow> string option \<Rightarrow> unit goal_prog" where
  "fail_goal_for_terminal_error env error_message = finish_for_terminal_message env StopError error_message"

definition current_goal_state :: "session_env \<Rightarrow> goal_state goal_prog" where
  "current_goal_state env = state_with_creation_elapsed env"

definition clear_pending_goal_continuation :: "unit goal_prog" where
  "clear_pending_goal_continuation = on_driver continuation_consumed"

section \<open>Properties\<close>

lemma gate_error_status:
  assumes "progress_gate env turn w = (Inl e, w')" and "gs_status (goal_of w) = GsActive"
  shows "gs_status (goal_of w') = GsActive"
  using assms(1)
proof (cases rule: gate_cases)
  case (terminal r0)
  with assms have "r0 = Inl e" by (auto simp: gate_run goal_run Let_def split: sum.splits)
  with terminal(1) assms(2) show ?thesis by (auto simp: finish_run dest: set_state_error)
next
  case struck
  then show ?thesis
    using assms(2)
    by (auto simp: strike_run Let_def goal_run change_state_run split: sum.splits prod.splits if_splits
        dest!: set_state_error set_state_ok)
next
  case progress
  then show ?thesis
    using assms(2)
    by (auto simp: progress_made_def goal_run change_state_run split: sum.splits prod.splits if_splits
        dest!: set_state_error set_state_ok)
qed (use assms in \<open>auto simp: park_refusal_def goal_run now_millis_def Let_def\<close>)

lemma mint_error_status: "mint env w = (Inl e, w') \<Longrightarrow> gw_driver w' = gw_driver w"
  by (auto simp: mint_def goal_run change_state_run split: sum.splits prod.splits if_splits
      dest!: set_state_error context_message_run)

lemma next_error_status:
  assumes "next_continuation_message env last_turn w = (Inl e, w')" and "gs_status (goal_of w) = GsActive"
  shows "gs_status (goal_of w') = GsActive"
proof -
  obtain q w1 where gate: "(case last_turn of None \<Rightarrow> ret True | Some turn \<Rightarrow> progress_gate env turn) w = (q, w1)"
    by fastforce
  have kept: "gs_status (goal_of w1) = GsActive" if "q = Inr True \<or> q \<in> range Inl"
  proof (cases last_turn)
    case (Some turn)
    with gate have run: "progress_gate env turn w = (q, w1)" by simp
    with that gate_error_status[of env turn w _ w1] gate_moved(2)[OF run, of "{DidOther}"] assms(2) show ?thesis by auto
  qed (use gate assms(2) in \<open>simp add: goal_run\<close>)
  show ?thesis
  proof (cases q)
    case (Inl e')
    with assms gate kept show ?thesis by (auto simp: next_continuation_message_def goal_run split: if_splits)
  next
    case (Inr pass)
    with assms gate kept show ?thesis
      by (auto simp: next_continuation_message_def goal_run change_state_run now_millis_def Let_def
          split: if_splits sum.splits prod.splits dest!: set_state_error mint_error_status)
  qed
qed

lemma mint_value:
  "mint env w = (Inr m, w') \<Longrightarrow> m \<noteq> None \<Longrightarrow> dr_pending (gw_driver w') \<and> gs_status (goal_of w') = gs_status (goal_of w)"
  by (auto simp: mint_def goal_run change_state_run mark_continuation_pending_def split: sum.splits prod.splits if_splits
      dest!: set_state_ok context_message_run)

lemma next_value:
  assumes "next_continuation_message env last_turn w = (Inr m, w')" and "m \<noteq> None"
  shows "dr_pending (gw_driver w') \<and> gs_status (goal_of w') = GsActive"
proof -
  obtain q w1 where gate: "(case last_turn of None \<Rightarrow> ret True | Some turn \<Rightarrow> progress_gate env turn) w = (q, w1)"
    by fastforce
  have active: "gs_status (goal_of w) = GsActive"
    using assms by (auto simp: next_continuation_message_def goal_run split: if_splits)
  have kept: "gs_status (goal_of w1) = GsActive" if "q = Inr True"
  proof (cases last_turn)
    case (Some turn)
    with gate have run: "progress_gate env turn w = (q, w1)" by simp
    with that gate_moved(2)[OF run, of "{DidOther}"] active show ?thesis by auto
  qed (use gate active in \<open>simp add: goal_run\<close>)
  show ?thesis
  proof (cases q)
    case (Inl e)
    with assms gate active show ?thesis by (auto simp: next_continuation_message_def goal_run split: if_splits)
  next
    case (Inr pass)
    with assms gate kept show ?thesis
      by (auto simp: next_continuation_message_def goal_run change_state_run now_millis_def Let_def
          split: if_splits sum.splits prod.splits dest!: mint_value)
  qed
qed

text \<open>
  C17. The mint of a boundary never fails. When it hands out a continuation, the slot was spent and the
  continuation is pending. When a write of the mint fails, no continuation comes out, and the goal has
  ended with the write's error, unless that write failed as well: then the goal is still active.
\<close>

theorem boundary_mint_never_rejects:
  assumes "mint_goal_continuation error_text env last_turn w = (r, w')"
  shows "\<exists>m. r = Inr m
     \<and> (m \<noteq> None \<longrightarrow> dr_pending (gw_driver w') \<and> gs_status (goal_of w') = GsActive)
     \<and> (\<forall>e w1. next_continuation_message env last_turn w = (Inl e, w1) \<longrightarrow> m = None \<and>
          (if fst (finish_for_terminal_message env StopError (Some (error_text e)) w1) = Inr ()
           then gs_status (goal_of w') = GsError \<and> gs_last_error (goal_of w') = Some (failure_text (Some (error_text e)))
           else gs_status (goal_of w') = GsActive))"
proof (cases "owns_continuation_wakeup (gw_driver w)")
  case False
  with assms show ?thesis
    by (auto simp: mint_goal_continuation_def goal_run next_continuation_message_def owns_continuation_wakeup_def)
next
  case True
  then have active: "gs_status (goal_of w) = GsActive" by (simp add: owns_continuation_wakeup_def)
  obtain q w1 where nxt: "next_continuation_message env last_turn w = (q, w1)" by fastforce
  show ?thesis
  proof (cases q)
    case (Inr m)
    with assms nxt True have res: "r = Inr m" "w' = w1" by (simp_all add: mint_goal_continuation_def goal_run)
    have "m \<noteq> None \<Longrightarrow> dr_pending (gw_driver w1) \<and> gs_status (goal_of w1) = GsActive"
      using next_value[OF nxt[unfolded Inr]] by simp
    with res nxt Inr show ?thesis by simp
  next
    case (Inl e)
    note still = next_error_status[OF nxt[unfolded Inl] active]
    obtain f w2 where fin: "finish_for_terminal_message env StopError (Some (error_text e)) w1 = (f, w2)" by fastforce
    with assms nxt True Inl have res: "r = Inr None" "w' = w2"
      by (auto simp: mint_goal_continuation_def goal_run split: sum.splits)
    have "if f = Inr () then gs_status (goal_of w2) = GsError
            \<and> gs_last_error (goal_of w2) = Some (failure_text (Some (error_text e)))
          else gs_status (goal_of w2) = GsActive"
    proof (cases f)
      case (Inl e')
      with fin still show ?thesis by (auto simp: finish_run dest!: set_state_error split: if_splits)
    next
      case (Inr u)
      with fin still show ?thesis by (auto simp: finish_run end_goal_def dest!: set_state_ok split: if_splits)
    qed
    with res nxt Inl fin show ?thesis by simp
  qed
qed

section \<open>A start that fails after its row was buffered\<close>

text \<open>
  In a session without an assistant row an append only buffers; the flush behind it does the write.
\<close>

lemma append_buffers:
  assumes "sm_persist s" and "sm_session_file s = Some f" and "\<not> sm_has_assistant_entry s"
  shows "\<exists>x s'. append_row env (goal_entry g) s = (Inr x, s') \<and> sm_persist s' \<and> sm_session_file s' = Some f
           \<and> \<not> sm_flushed s' \<and> sm_io s' = sm_io s"
  using assms
  by (auto simp: append_row_def next_base_def append_entry_def persist_entry_def index_new_row_def goal_entry_def
      Let_def goal_run entry_id_def split: prod.splits option.splits)

lemma set_state_buffered:
  assumes "manager_ok env (gw_session w)" and "clock_ok env" and "goal_wf g"
    and "sm_persist (gw_session w)" and "sm_session_file (gw_session w) = Some f"
    and "\<not> sm_has_assistant_entry (gw_session w)" and "next_outcome (gw_session w) = IoFail k err"
  shows "\<exists>now w'. set_state env g w = (Inl (GoalStore (IoError err)), w') \<and> gw_driver w' = gw_driver w
           \<and> latest_persisted_state (gw_session w') = stamp now g \<and> branch_goal_failure (gw_session w') = None"
proof -
  let ?s = "gw_session w"
  define now where "now = nat (ev_now env (sm_ticks ?s))"
  define s1 where "s1 = ?s\<lparr>sm_ticks := Suc (sm_ticks ?s)\<rparr>"
  have same: "same_rows ?s s1" by (simp add: same_rows_def s1_def)
  have ok1: "manager_ok env s1" using manager_ok_same_rows[OF same assms(1)] .
  obtain x s2 where app: "append_row env (goal_entry (stamp now g)) s1 = (Inr x, s2)" "sm_persist s2"
      "sm_session_file s2 = Some f" "\<not> sm_flushed s2" "sm_io s2 = sm_io ?s"
    using append_buffers[of s1 f env "stamp now g"] assms(4-6) by (auto simp: s1_def)
  from append_row_outcome[OF ok1 makes_goal_entry app(1)] branch_entries_snoc
  obtain b where br: "active_branch_entries s2 = active_branch_entries s1 @ [goal_entry (stamp now g) b]" by fastforce
  have "now < 2 ^ 64" unfolding now_def by (rule clock_value[OF assms(2)])
  from latest_after_goal[OF br goal_wf_stamp[OF assms(3) \<open>now < 2 ^ 64\<close>] normalize_stamp]
  have latest: "latest_persisted_state s2 = stamp now g" .
  define s3 where "s3 = spend_outcome s2"
  have flush: "flush_now env s2 = (Inl (IoError err), s3)"
    using app(2-5) assms(7) by (simp add: flush_now_def try_rewrite_file_def next_outcome_def goal_run s3_def)
  have "same_rows s2 s3" by (rule flush_now_same_rows[OF flush])
  then have "latest_persisted_state s3 = latest_persisted_state s2" "branch_goal_failure s3 = branch_goal_failure s2"
    by (simp_all add: latest_persisted_state_def active_goal_state_def branch_goal_failure_def same_rows_branch)
  moreover have "branch_goal_failure s2 = None"
    using goal_row_entry[OF goal_wf_stamp[OF assms(3) \<open>now < 2 ^ 64\<close>]]
    by (simp add: branch_goal_failure_def br stale_active_goal_failure_def)
  moreover have "set_state env g w = (Inl (GoalStore (IoError err)), w\<lparr>gw_session := s3\<rparr>)"
    using app(1) flush
    by (simp add: set_state_def goal_run now_millis_def Let_def on_session_def append_custom_entry_def goal_entry_def
        now_def[symmetric] s1_def[symmetric])
  ultimately show ?thesis using latest by (intro exI[of _ now] exI[of _ "w\<lparr>gw_session := s3\<rparr>"]) simp
qed

text \<open>
  C40. A start whose flush fails reports the error and leaves the driver without the goal, but in a
  session that has no assistant row yet its goal row stays in the branch: a driver rehydrated from that
  session has the goal, and it is active.
\<close>

theorem failed_start_leaves_goal_row:
  assumes "manager_ok env s" and "clock_ok env" and "validate_goal_objective t = Inr objective"
    and "sm_persist s" and "sm_session_file s = Some f" and "\<not> sm_has_assistant_entry s" and "sm_io s = IoFail k err # io"
  shows "\<exists>w'. start env t None \<lparr>gw_driver = driver_new, gw_session = s\<rparr> = (Inl (GoalStore (IoError err)), w')
     \<and> gw_driver w' = driver_new
     \<and> gs_status (dr_state (load_persisted (gw_session w'))) = GsActive
     \<and> gs_objective (dr_state (load_persisted (gw_session w'))) = Some objective"
proof -
  define created where "created = nat (ev_now env (sm_ticks s))"
  define g where "g = fresh_goal created (ev_uuid env (sm_draws s)) objective None"
  define s1 where "s1 = s\<lparr>sm_ticks := Suc (sm_ticks s), sm_draws := Suc (sm_draws s)\<rparr>"
  define w1 where "w1 = \<lparr>gw_driver = fresh_bookkeeping driver_new, gw_session = s1\<rparr>"
  have fresh: "fresh_bookkeeping driver_new = driver_new" by (simp add: fresh_bookkeeping_def driver_new_def)
  have ok: "manager_ok env s1" using assms(1) by (auto simp: s1_def manager_ok_def leaf_ok_def ids_fresh_def)
  have wf: "goal_wf g" unfolding g_def created_def
    by (rule goal_wf_changes(8)[OF clock_value[OF assms(2)]]) (simp add: opt_below_def)
  obtain now w2 where run: "set_state env g w1 = (Inl (GoalStore (IoError err)), w2)" "gw_driver w2 = driver_new"
      "latest_persisted_state (gw_session w2) = stamp now g" "branch_goal_failure (gw_session w2) = None"
    using set_state_buffered[of env w1 g f k err] ok assms(2,4-7) wf fresh
    by (auto simp: w1_def s1_def next_outcome_def)
  have start: "start env t None \<lparr>gw_driver = driver_new, gw_session = s\<rparr> = (Inl (GoalStore (IoError err)), w2)"
    using run
    by (simp add: start_def assms(3) validate_goal_budget_def goal_run now_millis_def new_uuid_def Let_def
        created_def[symmetric] g_def[symmetric] s1_def w1_def fresh restore_bookkeeping_def driver_new_def)
  have "gs_status (stamp now g) = GsActive" "gs_objective (stamp now g) = Some objective"
    by (simp_all add: g_def fresh_goal_def)
  with start run show ?thesis
    by (auto simp: load_persisted_def restore_persisted_def restore_from_persisted_def Let_def release_def revive_guard_def)
qed

end
