(* ===== verification/GoalInstances.thy ===== *)
theory GoalInstances
  imports GoalBoundary SessionFaults
begin

text \<open>
  Instances of the goal properties: a goal driven on the demonstration session, with a disk that
  answers as listed.
\<close>

section \<open>Sessions without a file\<close>

text \<open>In a session that is not persisted no write can fail, so every program of the driver returns.\<close>

definition sure :: "'a goal_prog \<Rightarrow> bool" where
  "sure m \<longleftrightarrow> hoare (\<lambda>w. \<not> sm_persist (gw_session w)) m (\<lambda>_ w. \<not> sm_persist (gw_session w)) (\<lambda>_ _. False)"

named_theorems sure_rules \<open>programs that return in a session without a file\<close>

lemma sureI: "(\<And>w. \<not> sm_persist (gw_session w) \<Longrightarrow> \<exists>x w'. m w = (Inr x, w') \<and> \<not> sm_persist (gw_session w')) \<Longrightarrow> sure m"
  by (fastforce simp: sure_def hoare_def)

lemma sureD: "sure m \<Longrightarrow> \<not> sm_persist (gw_session w) \<Longrightarrow> \<exists>x w'. m w = (Inr x, w') \<and> \<not> sm_persist (gw_session w')"
  by (auto simp: sure_def hoare_def split: sum.splits prod.splits elim!: allE[of _ w])
    (metis sum.exhaust surj_pair)

lemma sure_ret [sure_rules]: "sure (ret x)"
  by (rule sureI) (simp add: goal_run)

lemma sure_bnd [sure_rules]: "sure m \<Longrightarrow> (\<And>x. sure (f x)) \<Longrightarrow> sure (bnd m f)"
  unfolding sure_def by (rule hoare_bnd)

lemma sure_thn [sure_rules]: "sure m \<Longrightarrow> sure k \<Longrightarrow> sure (thn m k)"
  unfolding thn_def by (rule sure_bnd)

lemma sure_if [sure_rules]: "(b \<Longrightarrow> sure m) \<Longrightarrow> (\<not> b \<Longrightarrow> sure k) \<Longrightarrow> sure (if b then m else k)"
  by simp

lemma sure_steps [sure_rules]: "sure (gets f)" "sure (on_driver h)" "sure (now_millis env)" "sure (new_uuid env)"
  by (rule sureI; simp add: goal_run now_millis_def new_uuid_def Let_def)+

lemma sure_match [sure_rules]: "sure m \<Longrightarrow> (\<And>x. sure (f x)) \<Longrightarrow> sure (match_result m f h)"
  by (rule sureI) (fastforce dest: sureD simp: goal_run)

lemma sure_set_state [sure_rules]: "sure (set_state env g)"
proof -
  have app: "\<exists>x s'. append_custom_entry env k v s = (Inr x, s') \<and> \<not> sm_persist s'" if "\<not> sm_persist s" for k v s
    using that
    by (auto simp: append_custom_entry_def append_row_def next_base_def append_entry_def persist_entry_def index_new_row_def
        Let_def goal_run split: prod.splits option.splits)
  have "sure (on_session (append_custom_entry env k v))" for k v
  proof (rule sureI)
    fix w :: goal_world assume "\<not> sm_persist (gw_session w)"
    from app[OF this] obtain x s'
      where "append_custom_entry env k v (gw_session w) = (Inr x, s')" "\<not> sm_persist s'" by blast
    then show "\<exists>x w'. on_session (append_custom_entry env k v) w = (Inr x, w') \<and> \<not> sm_persist (gw_session w')"
      by (simp add: on_session_def)
  qed
  moreover have "sure (on_session (flush_now env))" by (rule sureI) (simp add: on_session_def flush_now_def)
  ultimately show ?thesis unfolding set_state_def Let_def by (intro sure_rules)
qed

lemma sure_change [sure_rules]: "sure (change_state env f)"
  unfolding change_state_def by (intro sure_rules)

lemma sure_context [sure_rules]: "sure (context_message env kind)"
  unfolding context_message_def
  by (intro sure_rules) (auto split: option.splits sum.splits intro!: sure_rules)

lemma sure_gate: "sure (progress_gate env turn)"
  unfolding progress_gate_def Let_def
  by (intro sure_rules)
    (auto simp: finish_for_terminal_message_def park_refusal_def strike_def progress_made_def Let_def
      split: option.splits intro!: sure_rules)

lemma sure_mint: "sure (perform_goal env (GoMint last_turn))"
  unfolding perform_goal.simps next_continuation_message_def mint_def
  by (intro sure_rules) (auto split: option.splits intro!: sure_rules sure_gate)

lemma sure_consumed: "sure (perform_goal env GoConsumed)"
  unfolding perform_goal.simps silently_def by (intro sure_rules)

lemma sure_usage: "sure (record_assistant_usage env i u)"
  unfolding record_assistant_usage_def Let_def by (intro sure_rules)

lemma sure_start:
  assumes "validate_goal_objective t = Inr t'" and "validate_goal_budget b = Inr b'"
  shows "sure (start env t b)"
proof -
  have "sure (state_with_creation_elapsed env)"
    unfolding state_with_creation_elapsed_def by (intro sure_rules) (auto split: option.splits intro!: sure_rules)
  then show ?thesis unfolding start_def assms sum.case by (intro sure_rules)
qed

lemma sure_run:
  assumes "\<forall>op \<in> set ops. sure (perform_goal env op)" and "\<not> sm_persist (gw_session w)"
  shows "\<forall>(op, r) \<in> set (fst (run_goal env ops w)). r \<in> range Inr"
  using assms
proof (induction ops arbitrary: w)
  case (Cons op ops)
  from sureD[of "perform_goal env op" w] Cons.prems obtain x w1 where "perform_goal env op w = (Inr x, w1)" "\<not> sm_persist (gw_session w1)"
    by auto
  with Cons.IH[of w1] Cons.prems(1) show ?case by (auto simp: Let_def split: prod.splits)
qed simp

section \<open>A goal on the demonstration session\<close>

definition demo_turn :: "int \<Rightarrow> assistant_message" where
  "demo_turn t =
     \<lparr>am_content = [AText \<lparr>tc_text = [], tc_signature = None\<rparr>], am_api = ''a'', am_provider = ''p'', am_model = ''m'',
      am_response_model = None, am_response_id = None, am_diagnostics = None, am_usage = usage_zero,
      am_stop_reason = StopAborted, am_stop_reason_raw = None, am_error_message = None, am_timestamp = t\<rparr>"

definition demo_spent :: usage where
  "demo_spent = \<lparr>us_input = 30, us_output = 30, us_cache_read = 0, us_cache_write = 0, us_total_tokens = 60\<rparr>"

definition demo_session :: session_manager where
  "demo_session = (demo_manager True [])\<lparr>sm_persist := False\<rparr>"

definition demo_goal :: goal_state where
  "demo_goal = fresh_goal 0 ''g1'' ''ship'' (Some 100)"

definition demo_goal_world :: goal_world where
  "demo_goal_world = \<lparr>gw_driver = restore_persisted demo_goal, gw_session = demo_session\<rparr>"

definition demo_start :: "goal_op list" where
  "demo_start = [GoStart ''ship'' (Some 100)]"

lemma demo_world_simps [simp]:
  "\<not> sm_persist (gw_session demo_goal_world)" "\<not> sm_persist demo_session"
  "gs_status (goal_of demo_goal_world) = GsActive" "gs_objective (goal_of demo_goal_world) = Some ''ship''"
  "gs_created_at (goal_of demo_goal_world) = Some 0" "gs_tokens_used (goal_of demo_goal_world) = 0"
  "dr_streak (gw_driver demo_goal_world) = 0" "dr_counted (gw_driver demo_goal_world) = None"
  "dr_pending (gw_driver demo_goal_world) = False" "dr_accounted (gw_driver demo_goal_world) = {}"
  by (simp_all add: demo_goal_world_def demo_session_def restore_persisted_def restore_from_persisted_def release_def
      demo_goal_def fresh_goal_def normalize_goal_state_def Let_def driver_new_def streak_of_def)

lemma demo_valid: "validate_goal_objective ''ship'' = Inr ''ship''" "validate_goal_budget (Some 100) = Inr (Some 100)"
  by code_simp (simp add: validate_goal_budget_def)

lemma demo_dead: "dead_turn (demo_turn t)"
  by (simp add: dead_turn_def turn_produced_no_output_def demo_turn_def provider_stream_failure_kind_def failure_field_def
      provider_stream_failure_details_def)

lemma demo_session_ok: "manager_ok demo_env demo_session" "clock_ok demo_env"
  using demo_manager_ok[of True "[]"]
  by (simp_all add: manager_ok_def leaf_ok_def ids_fresh_def demo_session_def clock_ok_def)
    (simp add: demo_env_def)

lemma no_goal_rows:
  assumes "\<forall>e \<in> set (sm_file_entries s). goal_row e = None"
  shows "active_goal_state s = None"
proof -
  have "set (active_branch_entries s) \<subseteq> set (sm_file_entries s)"
    using walk_props by (fastforce simp: active_branch_entries_def active_branch_def)
  moreover have "(\<forall>e \<in> set es. goal_row e = None) \<Longrightarrow> find_map_rev (\<lambda>e. map_option normalize_goal_state (goal_row e)) es = None"
    for es by (induction es rule: rev_induct) auto
  ultimately show ?thesis using assms by (auto simp: active_goal_state_def)
qed

lemma demo_session_no_goal: "active_goal_state demo_session = None"
  by (rule no_goal_rows) (simp add: demo_session_def demo_header_def demo_user_def)


lemma one_continuation_until_admitted_witness:
  "length (filter minted_message (fst (run_goal demo_env [GoMint None, GoOwe, GoMint None, GoTake None] demo_goal_world))) \<le> 1"
  using one_continuation_until_admitted[of demo_env "[GoMint None, GoOwe, GoMint None, GoTake None]" demo_goal_world]
  by (cases "run_goal demo_env [GoMint None, GoOwe, GoMint None, GoTake None] demo_goal_world") simp


lemma failed_operation_keeps_driver_witness:
  "\<exists>e w'. perform_goal demo_env (GoStart '' '' None) demo_goal_world = (Inl e, w') \<and> gw_driver w' = gw_driver demo_goal_world"
proof -
  have "validate_goal_objective '' '' = Inl ''Goal objective must not be empty.''" by code_simp
  then obtain e where run: "perform_goal demo_env (GoStart '' '' None) demo_goal_world = (Inl e, demo_goal_world)"
    by (simp add: silently_def start_def goal_run)
  from failed_operation_keeps_driver[OF run] run show ?thesis by simp
qed

lemma usage_is_charged_once_witness:
  "let (outs, w') = record_all demo_env [(''m1'', demo_spent), (''m1'', demo_spent)] demo_goal_world
   in distinct (map (fst \<circ> fst) (filter charged_for outs))
      \<and> gs_tokens_used (goal_of w') = sum_list (map (usage_delta \<circ> snd \<circ> fst) (filter charged_for outs)) mod 2 ^ 64"
  using usage_is_charged_once[of demo_env "[(''m1'', demo_spent), (''m1'', demo_spent)]" demo_goal_world]
  by (cases "record_all demo_env [(''m1'', demo_spent), (''m1'', demo_spent)] demo_goal_world") simp


definition demo_dead_ops :: "goal_op list" where
  "demo_dead_ops =
     [GoMint (Some (demo_turn 1)), GoMint (Some (demo_turn 1)), GoConsumed, GoMint (Some (demo_turn 2)), GoMint (Some (demo_turn 3))]"


definition demo_failed_row :: file_entry where
  "demo_failed_row = FeMessage (SmAssistant (demo_assistant_message\<lparr>aia_stop_reason := StopError,
     aia_error_message := Some ''402''\<rparr>)) (demo_base ''c'' (Some ''b''))"

lemma newest_goal_row_decides_witness:
  "stale_active_goal_failure [demo_header, goal_entry demo_goal (demo_base ''b'' (Some ''a'')), demo_failed_row] = Some ''402''"
proof -
  have "goal_row (goal_entry demo_goal (demo_base ''b'' (Some ''a''))) = Some demo_goal"
    by (rule goal_row_entry) (simp add: demo_goal_def goal_wf_changes opt_below_def)
  from newest_goal_row_decides[OF this, of "[demo_failed_row]" "[demo_header]"] show ?thesis
    by (simp add: demo_goal_def fresh_goal_def demo_failed_row_def find_map_rev_def map_filter_simps
        wire_terminal_provider_failure_def wire_failure_kind_def demo_assistant_message_def failure_text_def)
qed

lemma boundary_mint_never_rejects_witness:
  "\<exists>m. fst (mint_goal_continuation (\<lambda>_. ''disk full'') demo_env (Some (demo_turn 1)) demo_goal_world) = Inr m"
  using boundary_mint_never_rejects[of "\<lambda>_. ''disk full''" demo_env "Some (demo_turn 1)" demo_goal_world]
  by (metis surjective_pairing)

lemma failed_start_leaves_goal_row_witness:
  "\<exists>w'. start demo_env ''ship'' None \<lparr>gw_driver = driver_new, gw_session = demo_manager False [IoFail 0 ''disk full'']\<rparr>
       = (Inl (GoalStore (IoError ''disk full'')), w')
     \<and> gs_status (dr_state (load_persisted (gw_session w'))) = GsActive"
  using failed_start_leaves_goal_row[OF demo_manager_ok demo_session_ok(2) demo_valid(1), of False "[IoFail 0 ''disk full'']"]
  by auto

end
