(* ===== verification/CronSchedule.thy ===== *)
theory CronSchedule
  imports SessionTime
begin

text \<open>
  \<open>pa-core/src/cron/mod.rs\<close>: the jobs, the schedule texts (\<open>in\<close>, \<open>every\<close>, \<open>at\<close>, the five fields
  of a cron line), the search for the next matching minute, the calendar it matches against and the
  reader of the ISO timestamps of the job files. Times are milliseconds since the epoch as \<open>u64\<close>,
  additions wrap as in a release build. Where the source can panic the result says so:
  \<open>CronPanic\<close>, or \<open>None\<close> around an optional value.
\<close>

section \<open>Jobs\<close>

datatype job_status = JobActive | JobPaused | JobCompleted | JobCancelled

datatype schedule_kind = KindOnce | KindCron | KindInterval

datatype delivery_mode = Steer | FollowUp

record cron_schedule =
  sc_kind :: schedule_kind
  sc_expression :: string
  sc_interval_ms :: "nat option"

record cron_job =
  cj_id :: string
  cj_status :: job_status
  cj_source :: "string option"
  cj_runtime_kind :: "string option"
  cj_delivery_mode :: "delivery_mode option"
  cj_active_session_id :: string
  cj_session_id :: string
  cj_session_file :: string
  cj_cwd :: string
  cj_label :: "string option"
  cj_prompt :: string
  cj_schedule :: cron_schedule
  cj_created_at :: string
  cj_updated_at :: string
  cj_next_run_at :: "string option"
  cj_last_run_at :: "string option"
  cj_last_skipped_at :: "string option"
  cj_last_error :: "string option"
  cj_run_count :: nat

record session_activity =
  ac_streaming :: bool
  ac_compacting :: bool
  ac_retrying :: bool
  ac_bash_running :: bool
  ac_pending_work :: bool
  ac_unfinished_actions :: nat

datatype cron_error = Refused string | CronPanic

section \<open>Text\<close>

text \<open>\<open>str::split\<close> at a character.\<close>

fun split_on :: "char \<Rightarrow> string \<Rightarrow> string list" where
  "split_on c [] = [[]]"
| "split_on c (x # xs) =
     (if x = c then [] # split_on c xs
      else case split_on c xs of [] \<Rightarrow> [[x]] | w # ws \<Rightarrow> (x # w) # ws)"

text \<open>\<open>str::split_whitespace\<close>\<close>

function words_from :: "string \<Rightarrow> string \<Rightarrow> string list" where
  "words_from acc s =
     (case s of
        [] \<Rightarrow> (if acc = [] then [] else [rev acc])
      | c # cs \<Rightarrow>
          if 0 < space_prefix s
          then (if acc = [] then [] else [rev acc]) @ words_from [] (drop (space_prefix s) s)
          else words_from (c # acc) cs)"
  by pat_completeness auto
termination
  by (relation "measure (\<lambda>(acc, s). length s)") auto

declare words_from.simps [simp del]

definition split_whitespace :: "string \<Rightarrow> string list" where
  "split_whitespace s = words_from [] s"

definition is_ascii_alphabetic :: "char \<Rightarrow> bool" where
  "is_ascii_alphabetic c \<longleftrightarrow> (65 \<le> byte c \<and> byte c \<le> (90 :: nat)) \<or> (97 \<le> byte c \<and> byte c \<le> (122 :: nat))"

definition strip_matching_quotes :: "string \<Rightarrow> string" where
  "strip_matching_quotes value =
     (if 2 \<le> length value
         \<and> (hd value = CHR 0x22 \<and> last value = CHR 0x22 \<or> hd value = CHR 0x27 \<and> last value = CHR 0x27)
      then butlast (tl value) else value)"

section \<open>Amounts and units\<close>

definition one_minute_ms :: nat where
  "one_minute_ms = 60000"

definition unit_multiplier :: "string \<Rightarrow> bool \<Rightarrow> nat option" where
  "unit_multiplier u allow_seconds =
     (let u = trim u
      in if allow_seconds \<and> u \<in> {''s'', ''sec'', ''secs'', ''second'', ''seconds''} then Some 1000
         else if u \<in> {''m'', ''min'', ''mins'', ''minute'', ''minutes''} then Some one_minute_ms
         else if u \<in> {''h'', ''hr'', ''hrs'', ''hour'', ''hours''} then Some (60 * one_minute_ms)
         else if u \<in> {''d'', ''day'', ''days''} then Some (24 * 60 * one_minute_ms)
         else None)"

definition split_amount_unit :: "string \<Rightarrow> (nat \<times> string) option" where
  "split_amount_unit rest =
     (let rest = trim rest;
          digits = takeWhile is_ascii_digit rest;
          after = drop (length digits) rest;
          u = trim after
      in if digits = [] then None
         else case parse_u64 digits of
                None \<Rightarrow> None
              | Some amount \<Rightarrow>
                  if u \<noteq> [] \<and> space_prefix after = 0 \<and> \<not> list_all is_ascii_alphabetic u then None
                  else Some (amount, u))"

definition parse_in_delay :: "string \<Rightarrow> nat \<Rightarrow> nat option" where
  "parse_in_delay rest now =
     (case split_amount_unit rest of
        None \<Rightarrow> None
      | Some (amount, u) \<Rightarrow>
          map_option (\<lambda>m. add_u64 now (saturating_mul amount m)) (unit_multiplier u False))"

definition parse_every_delay :: "string \<Rightarrow> nat \<Rightarrow> cron_error + nat option" where
  "parse_every_delay rest now =
     (case split_amount_unit rest of
        None \<Rightarrow> Inr None
      | Some (amount, u) \<Rightarrow>
          (case unit_multiplier u True of
             None \<Rightarrow> Inr None
           | Some m \<Rightarrow>
               let interval_ms = saturating_mul amount m
               in if interval_ms < 10000 then Inl (Refused ''Recurring interval must be at least 10 seconds'')
                  else Inr (Some (add_u64 now interval_ms))))"

section \<open>The fields of a cron line\<close>

record cron_fields =
  cf_minute :: "nat set"
  cf_hour :: "nat set"
  cf_day_of_month :: "nat set"
  cf_month :: "nat set"
  cf_day_of_week :: "nat set"

definition parse_cron_number :: "string \<Rightarrow> nat \<Rightarrow> nat \<Rightarrow> cron_error + nat" where
  "parse_cron_number value lo hi =
     (if value = [] then Inl (Refused ''Invalid cron number: '')
      else if \<not> list_all is_ascii_digit value then Inl (Refused (''Invalid cron number: '' @ value))
      else case parse_unsigned (2 ^ 32 - 1) value of
             None \<Rightarrow> Inl (Refused (''Invalid cron number: '' @ value))
           | Some parsed \<Rightarrow>
               if parsed < lo \<or> hi < parsed then Inl (Refused (''Cron number out of range: '' @ value))
               else Inr parsed)"

definition parse_cron_range :: "string \<Rightarrow> nat \<Rightarrow> nat \<Rightarrow> cron_error + nat \<times> nat" where
  "parse_cron_range range_text lo hi =
     (if range_text = ''*'' then Inr (lo, hi)
      else case split_once CHR ''-'' range_text of
             Some (start_text, end_text) \<Rightarrow>
               (case parse_cron_number start_text lo hi of
                  Inl e \<Rightarrow> Inl e
                | Inr start \<Rightarrow>
                    (case parse_cron_number end_text lo hi of
                       Inl e \<Rightarrow> Inl e
                     | Inr stop \<Rightarrow>
                         if stop < start then Inl (Refused (''Invalid cron range: '' @ range_text))
                         else Inr (start, stop)))
           | None \<Rightarrow> map_sum id (\<lambda>v. (v, v)) (parse_cron_number range_text lo hi))"

text \<open>
  The loop \<open>while value <= end\<close> that collects every \<open>step\<close>-th value. A step of zero does not get
  here (the parser wants at least 1); the guard keeps the recursion well-founded.
\<close>

function collect_values :: "nat \<Rightarrow> nat \<Rightarrow> nat \<Rightarrow> nat set \<Rightarrow> nat set" where
  "collect_values value stop step values =
     (if value \<le> stop \<and> 0 < step then collect_values (value + step) stop step (insert value values) else values)"
  by pat_completeness auto
termination
  by (relation "measure (\<lambda>(value, stop, step, values). stop + 1 - value)") auto

declare collect_values.simps [simp del]

definition parse_cron_part :: "string \<Rightarrow> nat \<Rightarrow> nat \<Rightarrow> cron_error + nat \<times> nat \<times> nat" where
  "parse_cron_part part lo hi =
     (let (range_text, step_text) =
            (case split_once CHR ''/'' part of Some (before, step) \<Rightarrow> (before, Some step) | None \<Rightarrow> (part, None))
      in case (case step_text of None \<Rightarrow> Inr 1 | Some step \<Rightarrow> parse_cron_number step 1 hi) of
           Inl e \<Rightarrow> Inl e
         | Inr step \<Rightarrow> map_sum id (\<lambda>(start, stop). (start, stop, step)) (parse_cron_range range_text lo hi))"

fun parse_cron_parts :: "string \<Rightarrow> string list \<Rightarrow> nat \<Rightarrow> nat \<Rightarrow> nat set \<Rightarrow> cron_error + nat set" where
  "parse_cron_parts field [] lo hi values = Inr values"
| "parse_cron_parts field (part # parts) lo hi values =
     (if part = [] then Inl (Refused (''Invalid cron field: '' @ field))
      else case parse_cron_part part lo hi of
             Inl e \<Rightarrow> Inl e
           | Inr (start, stop, step) \<Rightarrow>
               parse_cron_parts field parts lo hi (collect_values start stop step values))"

definition parse_cron_field :: "string \<Rightarrow> nat \<Rightarrow> nat \<Rightarrow> cron_error + nat set" where
  "parse_cron_field field lo hi = parse_cron_parts field (split_on CHR '','' field) lo hi {}"

definition unsupported_schedule :: string where
  "unsupported_schedule =
     ''Unsupported cron schedule. Use 'in 10m', 'at <ISO date>', @hourly, or five fields: minute hour day month weekday''"

definition parse_cron_expression :: "string \<Rightarrow> cron_error + cron_fields" where
  "parse_cron_expression expression =
     (case split_whitespace expression of
        [p0, p1, p2, p3, p4] \<Rightarrow>
          (case parse_cron_field p0 0 59 of Inl e \<Rightarrow> Inl e | Inr minute \<Rightarrow>
          (case parse_cron_field p1 0 23 of Inl e \<Rightarrow> Inl e | Inr hour \<Rightarrow>
          (case parse_cron_field p2 1 31 of Inl e \<Rightarrow> Inl e | Inr day_of_month \<Rightarrow>
          (case parse_cron_field p3 1 12 of Inl e \<Rightarrow> Inl e | Inr month \<Rightarrow>
          (case parse_cron_field p4 0 7 of Inl e \<Rightarrow> Inl e | Inr day_of_week \<Rightarrow>
             Inr \<lparr>cf_minute = minute, cf_hour = hour, cf_day_of_month = day_of_month,
                  cf_month = month, cf_day_of_week = day_of_week\<rparr>)))))
      | _ \<Rightarrow> Inl (Refused unsupported_schedule))"

section \<open>The next matching minute\<close>

text \<open>
  The civil time of an instant in UTC: minute, hour, day of the month, month, and the weekday with
  Sunday as 0. \<open>div_euclid\<close> and \<open>rem_euclid\<close> by a positive divisor are \<open>div\<close> and \<open>mod\<close>.
\<close>

definition civil_time :: "nat \<Rightarrow> nat \<times> nat \<times> nat \<times> nat \<times> nat" where
  "civil_time timestamp_ms =
     (let days = timestamp_ms div (24 * 60 * one_minute_ms);
          seconds_of_day = (timestamp_ms mod (24 * 60 * one_minute_ms)) div 1000;
          minute = (seconds_of_day div 60) mod 60;
          hour = seconds_of_day div 3600;
          z = int days + 719468;
          doe = z mod 146097;
          yoe = (doe - doe div 1460 + doe div 36524 - doe div 146096) div 365;
          doy = doe - (365 * yoe + yoe div 4 - yoe div 100);
          mp = (5 * doy + 2) div 153;
          day = doy - (153 * mp + 2) div 5 + 1;
          month = (if mp < 10 then mp + 3 else mp - 9);
          weekday = (days + 4) mod 7
      in (minute, hour, nat day, nat month, weekday))"

definition matches_cron_fields :: "nat \<Rightarrow> cron_fields \<Rightarrow> bool" where
  "matches_cron_fields timestamp_ms fs \<longleftrightarrow>
     (case civil_time timestamp_ms of
        (minute, hour, day, month, weekday) \<Rightarrow>
          minute \<in> cf_minute fs \<and> hour \<in> cf_hour fs \<and> day \<in> cf_day_of_month fs
          \<and> month \<in> cf_month fs
          \<and> (weekday \<in> cf_day_of_week fs \<or> weekday = 0 \<and> 7 \<in> cf_day_of_week fs))"

text \<open>
  The search goes minute by minute up to the deadline. The candidate is kept unbounded here: it
  would wrap only with a deadline in the last minute of the range of \<open>u64\<close>.
\<close>

function search_minutes :: "cron_fields \<Rightarrow> nat \<Rightarrow> nat \<Rightarrow> nat option" where
  "search_minutes fs candidate deadline =
     (if candidate \<le> deadline then
        if matches_cron_fields candidate fs then Some candidate
        else search_minutes fs (candidate + one_minute_ms) deadline
      else None)"
  by pat_completeness auto
termination
  by (relation "measure (\<lambda>(fs, candidate, deadline). deadline + 1 - candidate)") (auto simp: one_minute_ms_def)

declare search_minutes.simps [simp del]

definition first_candidate :: "nat \<Rightarrow> nat" where
  "first_candidate after_millis = mul_u64 (after_millis div one_minute_ms + 1) one_minute_ms"

definition search_window :: nat where
  "search_window = 366 * 24 * 60 * one_minute_ms"

definition next_cron_run_after :: "string \<Rightarrow> nat \<Rightarrow> cron_error + nat" where
  "next_cron_run_after expression after_millis =
     (case parse_cron_expression expression of
        Inl e \<Rightarrow> Inl e
      | Inr fs \<Rightarrow>
          let candidate = first_candidate after_millis;
              deadline = add_u64 candidate search_window
          in case search_minutes fs candidate deadline of
               Some found \<Rightarrow> Inr found
             | None \<Rightarrow> Inl (Refused (''Cron schedule did not match within one year: '' @ expression)))"

definition normalize_cron_alias :: "string \<Rightarrow> string" where
  "normalize_cron_alias t =
     (if t = ''@hourly'' then ''0 * * * *''
      else if t = ''@daily'' then ''0 0 * * *''
      else if t = ''@weekly'' then ''0 0 * * 0''
      else if t = ''@monthly'' then ''0 0 1 * *''
      else t)"

definition next_run_at_for_schedule :: "cron_schedule \<Rightarrow> nat \<Rightarrow> cron_error + nat option" where
  "next_run_at_for_schedule schedule after_millis =
     (case sc_kind schedule of
        KindOnce \<Rightarrow> Inr None
      | KindInterval \<Rightarrow>
          (case sc_interval_ms schedule of
             None \<Rightarrow> Inl (Refused (''Invalid interval schedule: '' @ sc_expression schedule))
           | Some interval_ms \<Rightarrow>
               if interval_ms = 0 then Inl (Refused (''Invalid interval schedule: '' @ sc_expression schedule))
               else Inr (Some (add_u64 after_millis interval_ms)))
      | KindCron \<Rightarrow> map_sum id Some (next_cron_run_after (sc_expression schedule) after_millis))"

section \<open>ISO timestamps\<close>

text \<open>
  The small reader of RFC 3339 shapes. The sums are exact here and reduced once, by the cast to
  \<open>u64\<close>: wrapping at every \<open>i64\<close> operation gives the same remainder. Slicing off the first byte of
  a time panics when there is none or when it is not a whole character.
\<close>

definition fraction_pad :: "string \<Rightarrow> int option" where
  "fraction_pad fraction =
     (if fraction = [] \<or> \<not> list_all is_ascii_digit fraction then None
      else parse_i64 (take 3 (fraction @ replicate (3 - length fraction) CHR ''0'')))"

definition minutes_of :: "string list \<Rightarrow> int option" where
  "minutes_of parts = (case parts of _ # p # _ \<Rightarrow> parse_i64 p | _ \<Rightarrow> Some 0)"

definition parse_iso_offset :: "string \<Rightarrow> int option" where
  "parse_iso_offset s =
     (case (case strip_prefix s ''+'' of
              Some rest \<Rightarrow> Some (1, rest)
            | None \<Rightarrow> map_option (\<lambda>rest. (- 1, rest)) (strip_prefix s ''-'')) of
        None \<Rightarrow> None
      | Some (sign, rest) \<Rightarrow>
          let parts = split_on CHR '':'' rest
          in case (parse_i64 (hd parts), minutes_of parts) of
               (Some hours, Some minutes) \<Rightarrow> Some (sign * (hours * 60 + minutes) * 60000)
             | _ \<Rightarrow> None)"

fun rfind_char :: "char \<Rightarrow> string \<Rightarrow> nat option" where
  "rfind_char c [] = None"
| "rfind_char c (x # xs) =
     (case rfind_char c xs of Some i \<Rightarrow> Some (Suc i) | None \<Rightarrow> if x = c then Some 0 else None)"

definition boundary_after_first :: "string \<Rightarrow> bool" where
  "boundary_after_first s \<longleftrightarrow> (case s of [] \<Rightarrow> False | [_] \<Rightarrow> True | _ # b # _ \<Rightarrow> \<not> is_continuation b)"

definition time_of_parts :: "string list \<Rightarrow> int option" where
  "time_of_parts parts =
     (if 3 < length parts then None
      else
        let seconds_part = (case parts of _ # _ # p # _ \<Rightarrow> p | _ \<Rightarrow> ''0'')
        in case (parse_i64 (hd parts), minutes_of parts,
                 case split_once CHR ''.'' seconds_part of
                   Some (seconds, fraction) \<Rightarrow>
                     (case (parse_i64 seconds, fraction_pad fraction) of
                        (Some s, Some ms) \<Rightarrow> Some (s, ms)
                      | _ \<Rightarrow> None)
                 | None \<Rightarrow> map_option (\<lambda>s. (s, 0)) (parse_i64 seconds_part)) of
             (Some hours, Some minutes, Some (seconds, millis)) \<Rightarrow>
               if 23 < hours \<or> 59 < minutes \<or> 59 < seconds then None
               else Some (hours * 3600000 + minutes * 60000 + seconds * 1000 + millis)
           | _ \<Rightarrow> None)"

definition clock_and_offset :: "string \<Rightarrow> (string \<times> int) option option" where
  "clock_and_offset time =
     (if time \<noteq> [] \<and> last time = CHR ''Z'' then Some (Some (butlast time, 0))
      else
        let cut_at = (\<lambda>i. map_option (\<lambda>offset. (take i time, offset)) (parse_iso_offset (drop i time)))
        in case rfind_char CHR ''+'' time of
             Some i \<Rightarrow> Some (cut_at i)
           | None \<Rightarrow>
               if \<not> boundary_after_first time then None
               else case rfind_char CHR ''-'' (tl time) of
                      Some i \<Rightarrow> Some (cut_at (i + 1))
                    | None \<Rightarrow> Some (Some (time, 0)))"

definition parse_time_with_offset :: "string \<Rightarrow> (int \<times> int) option option" where
  "parse_time_with_offset time =
     map_option
       (\<lambda>split. case split of
          None \<Rightarrow> None
        | Some (clock, offset) \<Rightarrow> map_option (\<lambda>millis. (millis, offset)) (time_of_parts (split_on CHR '':'' clock)))
       (clock_and_offset time)"

definition days_of_date :: "string \<Rightarrow> int option" where
  "days_of_date date =
     (case split_on CHR ''-'' date of
        [ys, ms, ds] \<Rightarrow>
          (case (parse_i64 ys, parse_unsigned (2 ^ 32 - 1) ms, parse_unsigned (2 ^ 32 - 1) ds) of
             (Some year, Some month, Some day) \<Rightarrow>
               if \<not> (1 \<le> month \<and> month \<le> 12) \<or> \<not> (1 \<le> day \<and> day \<le> 31) then None
               else
                 let y = (if month \<le> 2 then year - 1 else year);
                     era = y div 400;
                     yoe = y mod 400;
                     mp = int (if 2 < month then month - 3 else month + 9);
                     doy = (153 * mp + 2) div 5 + int day - 1;
                     doe = yoe * 365 + yoe div 4 - yoe div 100 + doy
                 in Some (era * 146097 + doe - 719468)
           | _ \<Rightarrow> None)
      | _ \<Rightarrow> None)"

definition parse_iso_millis :: "string \<Rightarrow> nat option option" where
  "parse_iso_millis s =
     (case split_once CHR ''T'' (trim s) of
        None \<Rightarrow> Some None
      | Some (date, time) \<Rightarrow>
          (case days_of_date date of
             None \<Rightarrow> Some None
           | Some days \<Rightarrow>
               map_option
                 (map_option (\<lambda>(millis, offset).
                    nat ((days * 24 * 60 * 60 * 1000 + millis - offset) mod 2 ^ 64)))
                 (parse_time_with_offset time)))"

definition iso_from_millis :: "nat \<Rightarrow> string" where
  "iso_from_millis millis = format_iso (wrap64 (int millis))"

definition is_due_job :: "cron_job \<Rightarrow> nat \<Rightarrow> bool option" where
  "is_due_job job now =
     (if cj_status job \<noteq> JobActive then Some False
      else case cj_next_run_at job of
             None \<Rightarrow> Some False
           | Some s \<Rightarrow> map_option (\<lambda>t. case t of None \<Rightarrow> False | Some n \<Rightarrow> n \<le> now) (parse_iso_millis s))"

section \<open>Schedule texts\<close>

text \<open>
  \<open>lower\<close> stands for \<open>str::to_lowercase\<close>, whose Unicode tables are not part of the repository.
\<close>

fun parse_every :: "string list \<Rightarrow> string \<Rightarrow> string \<Rightarrow> nat \<Rightarrow> cron_error + (cron_schedule \<times> nat) option" where
  "parse_every [] t low now = Inr None"
| "parse_every (prefix # prefixes) t low now =
     (case strip_prefix low prefix of
        None \<Rightarrow> parse_every prefixes t low now
      | Some rest \<Rightarrow>
          (case parse_every_delay rest now of
             Inl e \<Rightarrow> Inl e
           | Inr None \<Rightarrow> parse_every prefixes t low now
           | Inr (Some upcoming) \<Rightarrow>
               Inr (Some (\<lparr>sc_kind = KindInterval, sc_expression = t,
                            sc_interval_ms = Some (sub_u64 upcoming now)\<rparr>, upcoming))))"

definition parse_in :: "string \<Rightarrow> string \<Rightarrow> nat \<Rightarrow> (cron_schedule \<times> nat) option" where
  "parse_in t low now =
     (case strip_prefix low ''in '' of
        None \<Rightarrow> None
      | Some rest \<Rightarrow>
          map_option (\<lambda>upcoming. (\<lparr>sc_kind = KindOnce, sc_expression = t, sc_interval_ms = None\<rparr>, upcoming))
            (parse_in_delay rest now))"

definition parse_at :: "string \<Rightarrow> nat \<Rightarrow> cron_error + cron_schedule \<times> nat" where
  "parse_at t now =
     (case parse_iso_millis (trim (drop 3 t)) of
        None \<Rightarrow> Inl CronPanic
      | Some None \<Rightarrow> Inl (Refused ''Invalid one-shot schedule. Use: at <ISO date>'')
      | Some (Some instant) \<Rightarrow>
          if instant \<le> now then Inl (Refused ''One-shot schedule must be in the future'')
          else Inr (\<lparr>sc_kind = KindOnce, sc_expression = t, sc_interval_ms = None\<rparr>, instant))"

definition parse_cron_line :: "string \<Rightarrow> nat \<Rightarrow> cron_error + cron_schedule \<times> nat" where
  "parse_cron_line t now =
     (let expression = normalize_cron_alias t
      in map_sum id (\<lambda>n. (\<lparr>sc_kind = KindCron, sc_expression = expression, sc_interval_ms = None\<rparr>, n))
           (next_cron_run_after expression now))"

definition parse_agent_cron_schedule ::
    "(string \<Rightarrow> string) \<Rightarrow> string \<Rightarrow> nat \<Rightarrow> cron_error + cron_schedule \<times> nat" where
  "parse_agent_cron_schedule lower input now =
     (let t = strip_matching_quotes (trim input); low = lower t
      in if t = [] then Inl (Refused ''Cron schedule cannot be empty'')
         else case parse_in t low now of
                Some parsed \<Rightarrow> Inr parsed
              | None \<Rightarrow>
                  (case parse_every [''every '', ''each ''] t low now of
                     Inl e \<Rightarrow> Inl e
                   | Inr (Some parsed) \<Rightarrow> Inr parsed
                   | Inr None \<Rightarrow> if starts_with low ''at '' then parse_at t now else parse_cron_line t now))"

section \<open>Heartbeats\<close>

definition is_heartbeat_cron_job :: "cron_job \<Rightarrow> bool" where
  "is_heartbeat_cron_job job \<longleftrightarrow> cj_source job = Some ''heartbeat'' \<or> cj_source job = Some ''rlm_heartbeat''"

definition resolve_heartbeat_streaming_behavior :: "delivery_mode option \<Rightarrow> string" where
  "resolve_heartbeat_streaming_behavior mode =
     (case (case mode of None \<Rightarrow> Steer | Some m \<Rightarrow> m) of FollowUp \<Rightarrow> ''followUp'' | Steer \<Rightarrow> ''steer'')"

definition should_defer_heartbeat_cron_job :: "cron_job \<Rightarrow> session_activity \<Rightarrow> bool" where
  "should_defer_heartbeat_cron_job job activity \<longleftrightarrow>
     (if \<not> is_heartbeat_cron_job job then False
      else
        let busy_besides_streaming =
              ac_compacting activity \<or> ac_retrying activity \<or> ac_bash_running activity
              \<or> ac_pending_work activity \<or> (\<not> ac_streaming activity \<and> 0 < ac_unfinished_actions activity)
        in if busy_besides_streaming then True
           else if resolve_heartbeat_streaming_behavior (cj_delivery_mode job) = ''steer'' then False
           else ac_streaming activity)"

definition status_text :: "job_status \<Rightarrow> string" where
  "status_text st = (case st of JobActive \<Rightarrow> ''active'' | JobPaused \<Rightarrow> ''paused''
     | JobCompleted \<Rightarrow> ''completed'' | JobCancelled \<Rightarrow> ''cancelled'')"

definition format_agent_cron_job :: "cron_job \<Rightarrow> string" where
  "format_agent_cron_job job =
     (let or_dash = (\<lambda>v. case v of None \<Rightarrow> ''-'' | Some s \<Rightarrow> s);
          preview = concat (take 80 (split_chars (join_with '' '' (split_whitespace (cj_prompt job)))));
          quoted = (\<lambda>s. [CHR 0x22] @ s @ [CHR 0x22]);
          opt = (\<lambda>f v. case v of None \<Rightarrow> [] | Some s \<Rightarrow> f s)
      in cj_id job @ '' '' @ status_text (cj_status job) @ opt (\<lambda>l. '' label='' @ quoted l) (cj_label job)
         @ '' next='' @ or_dash (cj_next_run_at job) @ '' last='' @ or_dash (cj_last_run_at job)
         @ opt (\<lambda>s. '' skipped='' @ s) (cj_last_skipped_at job)
         @ '' runs='' @ show_nat (cj_run_count job) @ '' schedule='' @ quoted (sc_expression (cj_schedule job))
         @ '' prompt='' @ quoted preview @ opt (\<lambda>e. '' error='' @ e) (cj_last_error job))"

end
