(* ===== verification/CronStore.thy ===== *)
theory CronStore
  imports CronSchedule Goals
begin

text \<open>
  \<open>pa-core/src/cron/store\<close>: the job files and the operations on them. A file is kept as the JSON
  value its bytes parse to (\<open>None\<close> when it is missing or is no JSON); reading decodes it as the
  derived implementations do, writing encodes it. A store has one file, or one per registered
  session (artifact mode). The locks of \<open>with_state_locks\<close> are taken and given back within one
  operation, which is one step here. The environment supplies what the code does not choose:
  whether a write reaches the disk, the order in which a hash map lists its values, fresh ids, the
  wall clock.
\<close>

section \<open>The JSON of a job\<close>

definition put_status :: "job_status \<Rightarrow> json" where
  "put_status st = JStr (status_text st)"

definition kind_text :: "schedule_kind \<Rightarrow> string" where
  "kind_text k = (case k of KindOnce \<Rightarrow> ''once'' | KindCron \<Rightarrow> ''cron'' | KindInterval \<Rightarrow> ''interval'')"

definition mode_text :: "delivery_mode \<Rightarrow> string" where
  "mode_text m = (case m of Steer \<Rightarrow> ''steer'' | FollowUp \<Rightarrow> ''follow_up'')"

definition schedule_to_json :: "cron_schedule \<Rightarrow> json" where
  "schedule_to_json s =
     JObj ([(''kind'', JStr (kind_text (sc_kind s))), (''expression'', JStr (sc_expression s))]
           @ member ''intervalMs'' json_nat (sc_interval_ms s))"

definition job_to_json :: "cron_job \<Rightarrow> json" where
  "job_to_json j =
     JObj ([(''id'', JStr (cj_id j)), (''status'', put_status (cj_status j))]
           @ member ''source'' JStr (cj_source j)
           @ member ''runtimeKind'' JStr (cj_runtime_kind j)
           @ member ''deliveryMode'' (\<lambda>m. JStr (mode_text m)) (cj_delivery_mode j)
           @ [(''activeSessionId'', JStr (cj_active_session_id j)), (''sessionId'', JStr (cj_session_id j)),
              (''sessionFile'', JStr (cj_session_file j)), (''cwd'', JStr (cj_cwd j))]
           @ member ''label'' JStr (cj_label j)
           @ [(''prompt'', JStr (cj_prompt j)), (''schedule'', schedule_to_json (cj_schedule j)),
              (''createdAt'', JStr (cj_created_at j)), (''updatedAt'', JStr (cj_updated_at j))]
           @ member ''nextRunAt'' JStr (cj_next_run_at j)
           @ member ''lastRunAt'' JStr (cj_last_run_at j)
           @ member ''lastSkippedAt'' JStr (cj_last_skipped_at j)
           @ member ''lastError'' JStr (cj_last_error j)
           @ [(''runCount'', json_nat (cj_run_count j))])"

record dispatch_record =
  dp_id :: string
  dp_job_id :: string
  dp_claimed_at :: string
  dp_scheduled_for :: string

definition dispatch_to_json :: "dispatch_record \<Rightarrow> json" where
  "dispatch_to_json d =
     JObj [(''id'', JStr (dp_id d)), (''jobId'', JStr (dp_job_id d)),
           (''claimedAt'', JStr (dp_claimed_at d)), (''scheduledFor'', JStr (dp_scheduled_for d))]"

record cron_jobs_state =
  js_jobs :: "cron_job list"
  js_dispatches :: "dispatch_record list"

definition state_to_json :: "cron_jobs_state \<Rightarrow> json" where
  "state_to_json s =
     JObj [(''jobs'', JArr (map job_to_json (js_jobs s))),
           (''dispatches'', JArr (map dispatch_to_json (js_dispatches s)))]"

text \<open>
  Reading: a unit variant is its name, or an object with that one member and \<open>null\<close>; a struct is
  an object, or an array with the fields in their order, short of defaulted ones at the end.
\<close>

definition read_variant :: "('a \<Rightarrow> string) \<Rightarrow> 'a list \<Rightarrow> json \<Rightarrow> 'a option" where
  "read_variant name variants v =
     (case v of
        JStr s \<Rightarrow> find (\<lambda>x. name x = s) variants
      | JObj [(s, JNull)] \<Rightarrow> find (\<lambda>x. name x = s) variants
      | _ \<Rightarrow> None)"

definition read_required :: "json_map \<Rightarrow> string \<Rightarrow> (json \<Rightarrow> 'a option) \<Rightarrow> 'a option" where
  "read_required ms k de = (case map_of ms k of None \<Rightarrow> None | Some v \<Rightarrow> de v)"

fun struct_members :: "string list \<Rightarrow> json \<Rightarrow> json_map option" where
  "struct_members names (JObj ms) = Some ms"
| "struct_members names (JArr vs) = (if length vs \<le> length names then Some (zip names vs) else None)"
| "struct_members names _ = None"

abbreviation read_text_option :: "json_map \<Rightarrow> string \<Rightarrow> string option option" where
  "read_text_option ms k \<equiv> read_member ms k (read_option json_as_str) None"

definition schedule_of_members :: "json_map \<Rightarrow> cron_schedule option" where
  "schedule_of_members ms =
     do {
       kind \<leftarrow> read_required ms ''kind'' (read_variant kind_text [KindOnce, KindCron, KindInterval]);
       expression \<leftarrow> read_required ms ''expression'' json_as_str;
       interval_ms \<leftarrow> read_member ms ''intervalMs'' (read_option (read_nat (2 ^ 64))) None;
       Some \<lparr>sc_kind = kind, sc_expression = expression, sc_interval_ms = interval_ms\<rparr>
     }"

definition schedule_of_json :: "json \<Rightarrow> cron_schedule option" where
  "schedule_of_json v = Option.bind (struct_members [''kind'', ''expression'', ''intervalMs''] v) schedule_of_members"

definition job_fields :: "string list" where
  "job_fields =
     [''id'', ''status'', ''source'', ''runtimeKind'', ''deliveryMode'', ''activeSessionId'', ''sessionId'',
      ''sessionFile'', ''cwd'', ''label'', ''prompt'', ''schedule'', ''createdAt'', ''updatedAt'',
      ''nextRunAt'', ''lastRunAt'', ''lastSkippedAt'', ''lastError'', ''runCount'']"

definition job_of_members :: "json_map \<Rightarrow> cron_job option" where
  "job_of_members ms =
     do {
       i \<leftarrow> read_required ms ''id'' json_as_str;
       status \<leftarrow> read_required ms ''status''
         (read_variant status_text [JobActive, JobPaused, JobCompleted, JobCancelled]);
       source \<leftarrow> read_text_option ms ''source'';
       runtime_kind \<leftarrow> read_text_option ms ''runtimeKind'';
       delivery_mode \<leftarrow> read_member ms ''deliveryMode'' (read_option (read_variant mode_text [Steer, FollowUp])) None;
       active_session_id \<leftarrow> read_required ms ''activeSessionId'' json_as_str;
       session_id \<leftarrow> read_required ms ''sessionId'' json_as_str;
       session_file \<leftarrow> read_required ms ''sessionFile'' json_as_str;
       cwd \<leftarrow> read_required ms ''cwd'' json_as_str;
       label \<leftarrow> read_text_option ms ''label'';
       prompt \<leftarrow> read_required ms ''prompt'' json_as_str;
       schedule \<leftarrow> read_required ms ''schedule'' schedule_of_json;
       created_at \<leftarrow> read_required ms ''createdAt'' json_as_str;
       updated_at \<leftarrow> read_required ms ''updatedAt'' json_as_str;
       next_run_at \<leftarrow> read_text_option ms ''nextRunAt'';
       last_run_at \<leftarrow> read_text_option ms ''lastRunAt'';
       last_skipped_at \<leftarrow> read_text_option ms ''lastSkippedAt'';
       last_error \<leftarrow> read_text_option ms ''lastError'';
       run_count \<leftarrow> read_member ms ''runCount'' (read_nat (2 ^ 64)) 0;
       Some \<lparr>cj_id = i, cj_status = status, cj_source = source, cj_runtime_kind = runtime_kind,
             cj_delivery_mode = delivery_mode, cj_active_session_id = active_session_id,
             cj_session_id = session_id, cj_session_file = session_file, cj_cwd = cwd, cj_label = label,
             cj_prompt = prompt, cj_schedule = schedule, cj_created_at = created_at,
             cj_updated_at = updated_at, cj_next_run_at = next_run_at, cj_last_run_at = last_run_at,
             cj_last_skipped_at = last_skipped_at, cj_last_error = last_error, cj_run_count = run_count\<rparr>
     }"

definition job_of_json :: "json \<Rightarrow> cron_job option" where
  "job_of_json v = Option.bind (struct_members job_fields v) job_of_members"

definition dispatch_of_members :: "json_map \<Rightarrow> dispatch_record option" where
  "dispatch_of_members ms =
     do {
       i \<leftarrow> read_required ms ''id'' json_as_str;
       job_id \<leftarrow> read_required ms ''jobId'' json_as_str;
       claimed_at \<leftarrow> read_required ms ''claimedAt'' json_as_str;
       scheduled_for \<leftarrow> read_required ms ''scheduledFor'' json_as_str;
       Some \<lparr>dp_id = i, dp_job_id = job_id, dp_claimed_at = claimed_at, dp_scheduled_for = scheduled_for\<rparr>
     }"

definition dispatch_of_json :: "json \<Rightarrow> dispatch_record option" where
  "dispatch_of_json v =
     Option.bind (struct_members [''id'', ''jobId'', ''claimedAt'', ''scheduledFor''] v) dispatch_of_members"

fun array_items :: "json option \<Rightarrow> json list" where
  "array_items (Some (JArr vs)) = vs"
| "array_items _ = []"

definition read_jobs_state :: "json option \<Rightarrow> cron_jobs_state" where
  "read_jobs_state file =
     (case file of
        None \<Rightarrow> \<lparr>js_jobs = [], js_dispatches = []\<rparr>
      | Some parsed \<Rightarrow>
          \<lparr>js_jobs = List.map_filter job_of_json (array_items (json_get ''jobs'' parsed)),
           js_dispatches = List.map_filter dispatch_of_json (array_items (json_get ''dispatches'' parsed))\<rparr>)"

text \<open>The values that the integer fields can hold, and what is written is read back.\<close>

definition job_wf :: "cron_job \<Rightarrow> bool" where
  "job_wf j \<longleftrightarrow> cj_run_count j < 2 ^ 64 \<and> opt_below (2 ^ 64) (sc_interval_ms (cj_schedule j))"

lemma read_variant_texts [simp]:
  "read_variant status_text [JobActive, JobPaused, JobCompleted, JobCancelled] (put_status st) = Some st"
  "read_variant kind_text [KindOnce, KindCron, KindInterval] (JStr (kind_text k)) = Some k"
  "read_variant mode_text [Steer, FollowUp] (JStr (mode_text m)) = Some m"
  by (cases st; cases k; cases m; simp add: read_variant_def put_status_def status_text_def kind_text_def mode_text_def)+

lemma read_back_mode:
  "(case (case v of None \<Rightarrow> None | Some y \<Rightarrow> Some (JStr (mode_text y))) of None \<Rightarrow> Some None
    | Some x \<Rightarrow> read_option (read_variant mode_text [Steer, FollowUp]) x) = Some v"
  by (cases v) auto

lemma schedule_json_roundtrip:
  "opt_below (2 ^ 64) (sc_interval_ms s) \<Longrightarrow> schedule_of_json (schedule_to_json s) = Some s"
  unfolding schedule_of_json_def schedule_to_json_def schedule_of_members_def read_member_def read_required_def
    struct_members.simps bind.bind_lunit
  by (simp add: read_back_members del: map_of_append cong: option.case_cong)

lemma job_json_roundtrip: "job_wf j \<Longrightarrow> job_of_json (job_to_json j) = Some j"
  unfolding job_of_json_def job_to_json_def job_of_members_def read_member_def read_required_def job_wf_def
    struct_members.simps bind.bind_lunit
  by (simp add: read_back_members read_back_mode schedule_json_roundtrip del: map_of_append cong: option.case_cong)

lemma dispatch_json_roundtrip: "dispatch_of_json (dispatch_to_json d) = Some d"
  by (simp add: dispatch_of_json_def dispatch_to_json_def dispatch_of_members_def read_required_def)

lemma map_filter_roundtrip: "(\<And>x. x \<in> set xs \<Longrightarrow> de (ser x) = Some x) \<Longrightarrow> List.map_filter de (map ser xs) = xs"
  by (induction xs) (simp_all add: List.map_filter_simps)

lemma state_json_roundtrip:
  "list_all job_wf (js_jobs s) \<Longrightarrow> read_jobs_state (Some (state_to_json s)) = s"
  by (simp add: read_jobs_state_def state_to_json_def map_filter_roundtrip job_json_roundtrip
      dispatch_json_roundtrip list_all_iff)

section \<open>The store\<close>

record cron_env =
  ce_file_path :: "string option"
  ce_artifact_mode :: bool
  ce_write_ok :: "nat \<Rightarrow> bool"
  ce_order :: "nat \<Rightarrow> cron_job list \<Rightarrow> cron_job list"
  ce_uuid :: "nat \<Rightarrow> string"
  ce_clock :: "nat \<Rightarrow> nat"
  ce_lower :: "string \<Rightarrow> string"

record cron_world =
  cw_files :: "string \<Rightarrow> json option"
  cw_artifacts :: "(string \<times> string) list"
  cw_writes :: nat
  cw_merges :: nat
  cw_draws :: nat
  cw_ticks :: nat
  cw_notified :: nat

type_synonym 'a cron_prog = "(cron_world, cron_error, 'a) prog"

definition or_panic :: "'a option \<Rightarrow> 'a cron_prog" where
  "or_panic v = (case v of None \<Rightarrow> fail CronPanic | Some x \<Rightarrow> ret x)"

definition or_error :: "cron_error + 'a \<Rightarrow> 'a cron_prog" where
  "or_error v = (case v of Inl e \<Rightarrow> fail e | Inr x \<Rightarrow> ret x)"

definition clock_now :: "cron_env \<Rightarrow> nat cron_prog" where
  "clock_now env w = (Inr (ce_clock env (cw_ticks w)), w\<lparr>cw_ticks := Suc (cw_ticks w)\<rparr>)"

definition now_or :: "cron_env \<Rightarrow> nat option \<Rightarrow> nat cron_prog" where
  "now_or env now = (case now of Some n \<Rightarrow> ret n | None \<Rightarrow> clock_now env)"

definition new_job_id :: "cron_env \<Rightarrow> string cron_prog" where
  "new_job_id env w = (Inr (ce_uuid env (cw_draws w)), w\<lparr>cw_draws := Suc (cw_draws w)\<rparr>)"

definition store_paths :: "cron_env \<Rightarrow> string list cron_prog" where
  "store_paths env =
     (if ce_artifact_mode env then gets (\<lambda>w. map snd (cw_artifacts w))
      else case ce_file_path env of None \<Rightarrow> fail CronPanic | Some path \<Rightarrow> ret [path])"

definition read_path :: "string \<Rightarrow> cron_jobs_state cron_prog" where
  "read_path path = gets (\<lambda>w. read_jobs_state (cw_files w path))"

definition write_jobs_state :: "cron_env \<Rightarrow> string \<Rightarrow> cron_jobs_state \<Rightarrow> unit cron_prog" where
  "write_jobs_state env path s =
     upd (\<lambda>w. w\<lparr>cw_writes := Suc (cw_writes w),
                 cw_files := (if ce_write_ok env (cw_writes w) then (cw_files w)(path := Some (state_to_json s))
                              else cw_files w)\<rparr>)"

definition read_states :: "cron_env \<Rightarrow> cron_jobs_state list cron_prog" where
  "read_states env = bnd (store_paths env) (\<lambda>ps. gets (\<lambda>w. map (\<lambda>p. read_jobs_state (cw_files w p)) ps))"

definition read_jobs :: "cron_env \<Rightarrow> cron_job list cron_prog" where
  "read_jobs env = bnd (read_states env) (\<lambda>states. ret (concat (map js_jobs states)))"

section \<open>The heartbeat catalog\<close>

fun text_le :: "string \<Rightarrow> string \<Rightarrow> bool" where
  "text_le [] t = True"
| "text_le (c # s) [] = False"
| "text_le (c # s) (d # t) = (if c = d then text_le s t else byte c < (byte d :: nat))"

fun insert_by :: "('a \<Rightarrow> 'a \<Rightarrow> bool) \<Rightarrow> 'a \<Rightarrow> 'a list \<Rightarrow> 'a list" where
  "insert_by le x [] = [x]"
| "insert_by le x (y # ys) = (if le x y then x # y # ys else y # insert_by le x ys)"

text \<open>The stable \<open>sort_by\<close>.\<close>

definition stable_sort :: "('a \<Rightarrow> 'a \<Rightarrow> bool) \<Rightarrow> 'a list \<Rightarrow> 'a list" where
  "stable_sort le xs = foldr (insert_by le) xs []"

definition catalog_entry :: "cron_job \<Rightarrow> cron_job" where
  "catalog_entry j =
     j\<lparr>cj_updated_at := [], cj_next_run_at := None, cj_last_run_at := None, cj_last_skipped_at := None,
       cj_last_error := None, cj_run_count := 0\<rparr>"

text \<open>
  The signature is a JSON text; two of them are equal when the entries are, so the list of the
  entries (a job without the fields that an entry leaves out) stands for it.
\<close>

definition heartbeat_catalog_signature :: "cron_job list \<Rightarrow> cron_job list" where
  "heartbeat_catalog_signature jobs =
     map catalog_entry
       (stable_sort (\<lambda>l r. text_le (cj_id l) (cj_id r))
          (filter (\<lambda>j. is_heartbeat_cron_job j \<and> (cj_status j = JobActive \<or> cj_status j = JobPaused)) jobs))"

definition notify_heartbeat_change :: "unit cron_prog" where
  "notify_heartbeat_change = upd (\<lambda>w. w\<lparr>cw_notified := Suc (cw_notified w)\<rparr>)"

definition notify_if_changed :: "cron_env \<Rightarrow> cron_job list \<Rightarrow> unit cron_prog" where
  "notify_if_changed env before =
     bnd (read_jobs env) (\<lambda>after.
       if heartbeat_catalog_signature after \<noteq> heartbeat_catalog_signature before then notify_heartbeat_change
       else ret ())"

section \<open>Writing the jobs\<close>

definition is_at_least_as_fresh :: "cron_job \<Rightarrow> cron_job \<Rightarrow> bool option" where
  "is_at_least_as_fresh candidate current =
     (case parse_iso_millis (cj_updated_at current) of
        None \<Rightarrow> None
      | Some None \<Rightarrow> Some True
      | Some (Some current_time) \<Rightarrow>
          map_option (\<lambda>t. case t of None \<Rightarrow> False | Some candidate_time \<Rightarrow> current_time \<le> candidate_time)
            (parse_iso_millis (cj_updated_at candidate)))"

text \<open>\<open>HashMap::insert\<close> under the id of the job.\<close>

definition put_job :: "cron_job \<Rightarrow> cron_job list \<Rightarrow> cron_job list" where
  "put_job job merged =
     (if \<exists>c \<in> set merged. cj_id c = cj_id job
      then map (\<lambda>c. if cj_id c = cj_id job then job else c) merged
      else merged @ [job])"

fun merge_next :: "cron_job list \<Rightarrow> cron_job list \<Rightarrow> cron_job list option" where
  "merge_next merged [] = Some merged"
| "merge_next merged (job # jobs) =
     (case (case find (\<lambda>c. cj_id c = cj_id job) merged of
              None \<Rightarrow> Some True
            | Some current \<Rightarrow> is_at_least_as_fresh job current) of
        None \<Rightarrow> None
      | Some is_fresh \<Rightarrow> merge_next (if is_fresh then put_job job merged else merged) jobs)"

definition merge_fresh_jobs :: "cron_env \<Rightarrow> cron_job list \<Rightarrow> cron_job list \<Rightarrow> cron_job list cron_prog" where
  "merge_fresh_jobs env current_jobs next_jobs =
     bnd (or_panic (merge_next (fold put_job current_jobs []) next_jobs)) (\<lambda>merged.
       \<lambda>w. (Inr (ce_order env (cw_merges w) merged), w\<lparr>cw_merges := Suc (cw_merges w)\<rparr>))"

definition write_jobs_file :: "cron_env \<Rightarrow> string \<Rightarrow> cron_job list \<Rightarrow> unit cron_prog" where
  "write_jobs_file env path jobs =
     bnd (read_path path) (\<lambda>current.
     bnd (merge_fresh_jobs env (js_jobs current) jobs) (\<lambda>merged.
       write_jobs_state env path \<lparr>js_jobs = merged, js_dispatches = js_dispatches current\<rparr>))"

text \<open>Artifact mode: each file gets the jobs and dispatches of its session.\<close>

definition incoming_session :: "cron_job list \<Rightarrow> string \<Rightarrow> string option" where
  "incoming_session jobs i = map_option cj_session_id (find (\<lambda>j. cj_id j = i) (rev jobs))"

fun merge_sessions ::
    "cron_env \<Rightarrow> cron_job list \<Rightarrow> (string \<times> cron_jobs_state) list \<Rightarrow> (string \<times> cron_job list) list cron_prog" where
  "merge_sessions env jobs [] = ret []"
| "merge_sessions env jobs ((session_id, current) # rest) =
     bnd (merge_fresh_jobs env
            (filter (\<lambda>j. case incoming_session jobs (cj_id j) of None \<Rightarrow> True | Some s \<Rightarrow> s = session_id)
               (js_jobs current))
            (filter (\<lambda>j. cj_session_id j = session_id) jobs)) (\<lambda>merged.
     bnd (merge_sessions env jobs rest) (\<lambda>others. ret ((session_id, merged) # others)))"

definition session_of_job :: "(string \<times> cron_job list) list \<Rightarrow> string \<Rightarrow> string option" where
  "session_of_job merged job_id =
     map_of (rev (concat (map (\<lambda>(session_id, jobs). map (\<lambda>j. (cj_id j, session_id)) jobs) merged))) job_id"

fun write_partitions ::
    "cron_env \<Rightarrow> (string \<Rightarrow> cron_jobs_state) \<Rightarrow> (string \<times> string) list \<Rightarrow> (string \<times> cron_jobs_state) list
     \<Rightarrow> unit cron_prog" where
  "write_partitions env following [] currents = ret ()"
| "write_partitions env following ((session_id, path) # files) currents =
     (let current = (case map_of currents session_id of None \<Rightarrow> \<lparr>js_jobs = [], js_dispatches = []\<rparr> | Some s \<Rightarrow> s)
      in thn (if state_to_json current \<noteq> state_to_json (following session_id)
              then write_jobs_state env path (following session_id) else ret ())
           (write_partitions env following files currents))"

definition partition_state ::
    "(string \<times> cron_job list) list \<Rightarrow> dispatch_record list \<Rightarrow> string \<Rightarrow> cron_jobs_state" where
  "partition_state merged all_dispatches session_id =
     \<lparr>js_jobs = (case map_of merged session_id of None \<Rightarrow> [] | Some jobs \<Rightarrow> jobs),
      js_dispatches = filter (\<lambda>d. session_of_job merged (dp_job_id d) = Some session_id) all_dispatches\<rparr>"

definition write_jobs_session_artifacts :: "cron_env \<Rightarrow> cron_job list \<Rightarrow> unit cron_prog" where
  "write_jobs_session_artifacts env jobs =
     bnd (gets cw_artifacts) (\<lambda>files.
       if \<not> list_all (\<lambda>j. cj_session_id j \<in> fst ` set files) jobs then ret ()
       else
         bnd (gets (\<lambda>w. map (\<lambda>(session_id, path). (session_id, read_jobs_state (cw_files w path))) files)) (\<lambda>currents.
         bnd (merge_sessions env jobs currents) (\<lambda>merged.
           write_partitions env
             (partition_state merged (concat (map (\<lambda>(_, s). js_dispatches s) currents))) files currents)))"

definition write_jobs :: "cron_env \<Rightarrow> cron_job list \<Rightarrow> unit cron_prog" where
  "write_jobs env jobs =
     bnd (read_jobs env) (\<lambda>before.
     thn (if ce_artifact_mode env then write_jobs_session_artifacts env jobs
          else case ce_file_path env of None \<Rightarrow> fail CronPanic | Some path \<Rightarrow> write_jobs_file env path jobs)
         (notify_if_changed env before))"

text \<open>
  \<open>mutate_states\<close>: the mutator runs on the state of each file; a file is written when its text
  would change. The mutator's results are returned in the order of the files.
\<close>

fun mutate_paths ::
    "cron_env \<Rightarrow> (cron_jobs_state \<Rightarrow> ('a \<times> cron_jobs_state) cron_prog) \<Rightarrow> string list
     \<Rightarrow> ('a list \<times> bool) cron_prog" where
  "mutate_paths env mutator [] = ret ([], False)"
| "mutate_paths env mutator (path # paths) =
     bnd (read_path path) (\<lambda>before.
     bnd (mutator before) (\<lambda>(out, after).
     thn (if state_to_json after \<noteq> state_to_json before then write_jobs_state env path after else ret ())
       (bnd (mutate_paths env mutator paths) (\<lambda>(outs, changed).
          ret (out # outs, state_to_json after \<noteq> state_to_json before \<or> changed)))))"

definition mutate_states ::
    "cron_env \<Rightarrow> (cron_jobs_state \<Rightarrow> ('a \<times> cron_jobs_state) cron_prog) \<Rightarrow> 'a list cron_prog" where
  "mutate_states env mutator =
     bnd (store_paths env) (\<lambda>paths.
     bnd (read_jobs env) (\<lambda>before.
     bnd (mutate_paths env mutator paths) (\<lambda>(outs, changed).
       thn (if changed then notify_if_changed env before else ret ()) (ret outs))))"

end
