(* ===== verification/CronJobs.thy ===== *)
theory CronJobs
  imports CronStore "HOL-Library.AList"
begin

text \<open>
  The operations of the job store: \<open>store/jobs.rs\<close> (jobs and dispatches), \<open>store/state.rs\<close> (the
  claim and the recovery within one state), \<open>store/heartbeat.rs\<close>, \<open>store/rlm_heartbeat.rs\<close> and
  \<open>store/session_artifacts.rs\<close>. An operation that rewrites some jobs of the list gives each job
  its new form, or \<open>None\<close> where the closure of the source hands the job back without noting it.
\<close>

section \<open>Rewriting a list of jobs\<close>

definition rewrite :: "(cron_job \<Rightarrow> cron_job option) \<Rightarrow> cron_job list \<Rightarrow> cron_job list" where
  "rewrite f jobs = map (\<lambda>j. case f j of None \<Rightarrow> j | Some k \<Rightarrow> k) jobs"

definition rewritten :: "(cron_job \<Rightarrow> cron_job option) \<Rightarrow> cron_job list \<Rightarrow> cron_job list" where
  "rewritten f jobs = List.map_filter f jobs"

definition last_of :: "'a list \<Rightarrow> 'a option" where
  "last_of xs = (if xs = [] then None else Some (last xs))"

text \<open>
  Read, rewrite, and write the list back if a job was noted. Only the write takes the state locks,
  so other users of the store may change it after the read: \<open>others\<close> is what they do. An operation
  that has the store for itself is the case of no others; the merge in the write (\<open>merge_fresh_jobs\<close>)
  is what the code relies on otherwise.
\<close>

definition change_jobs_around ::
    "cron_env \<Rightarrow> unit cron_prog \<Rightarrow> (cron_job \<Rightarrow> cron_job option) \<Rightarrow> cron_job list cron_prog" where
  "change_jobs_around env others f =
     bnd (read_jobs env) (\<lambda>jobs.
       thn others
         (thn (if rewritten f jobs \<noteq> [] then write_jobs env (rewrite f jobs) else ret ())
           (ret (rewritten f jobs))))"

definition change_jobs :: "cron_env \<Rightarrow> (cron_job \<Rightarrow> cron_job option) \<Rightarrow> cron_job list cron_prog" where
  "change_jobs env f = change_jobs_around env (ret ()) f"

lemma change_jobs_alone:
  "change_jobs env f =
     bnd (read_jobs env) (\<lambda>jobs.
       thn (if rewritten f jobs \<noteq> [] then write_jobs env (rewrite f jobs) else ret ())
         (ret (rewritten f jobs)))"
  by (simp add: change_jobs_def change_jobs_around_def thn_def bnd_def ret_def fun_eq_iff)

definition cancelled_job :: "string \<Rightarrow> cron_job \<Rightarrow> cron_job" where
  "cancelled_job now_iso job = job\<lparr>cj_status := JobCancelled, cj_next_run_at := None, cj_updated_at := now_iso\<rparr>"

definition is_open :: "cron_job \<Rightarrow> bool" where
  "is_open job \<longleftrightarrow> cj_status job = JobActive \<or> cj_status job = JobPaused"

text \<open>\<open>next_run_at_for_schedule(..).ok().flatten().map(iso_from_millis)\<close>\<close>

definition rolled_next_run :: "cron_schedule \<Rightarrow> nat \<Rightarrow> string option" where
  "rolled_next_run schedule after_millis =
     (case next_run_at_for_schedule schedule after_millis of
        Inr (Some n) \<Rightarrow> Some (iso_from_millis n)
      | _ \<Rightarrow> None)"

definition finished_status :: "cron_job \<Rightarrow> job_status" where
  "finished_status job = (if sc_kind (cj_schedule job) = KindOnce then JobCompleted else cj_status job)"

section \<open>Creating and listing\<close>

record create_input =
  ci_active_session_id :: string
  ci_session_id :: string
  ci_session_file :: string
  ci_cwd :: string
  ci_label :: "string option"
  ci_prompt :: string
  ci_schedule_text :: string
  ci_source :: "string option"
  ci_runtime_kind :: "string option"
  ci_delivery_mode :: "delivery_mode option"
  ci_now :: "nat option"

definition normalize_optional_label :: "string option \<Rightarrow> string option" where
  "normalize_optional_label label =
     (case label of None \<Rightarrow> None | Some l \<Rightarrow> if trim l = [] then None else Some (trim l))"

definition new_job ::
    "create_input \<Rightarrow> string \<Rightarrow> string \<Rightarrow> delivery_mode option \<Rightarrow> string \<Rightarrow> cron_schedule \<Rightarrow> nat \<Rightarrow> cron_job" where
  "new_job input i source mode now_iso schedule upcoming =
     \<lparr>cj_id = i, cj_status = JobActive, cj_source = Some source, cj_runtime_kind = ci_runtime_kind input,
      cj_delivery_mode = mode, cj_active_session_id = ci_active_session_id input,
      cj_session_id = ci_session_id input, cj_session_file = ci_session_file input,
      cj_cwd = ci_cwd input, cj_label = normalize_optional_label (ci_label input),
      cj_prompt = trim (ci_prompt input), cj_schedule = schedule, cj_created_at = now_iso,
      cj_updated_at = now_iso, cj_next_run_at = Some (iso_from_millis upcoming), cj_last_run_at = None,
      cj_last_skipped_at = None, cj_last_error = None, cj_run_count = 0\<rparr>"

definition create :: "cron_env \<Rightarrow> create_input \<Rightarrow> cron_job cron_prog" where
  "create env input =
     (if trim (ci_prompt input) = [] then fail (Refused ''Cron job prompt cannot be empty'')
      else
        bnd (now_or env (ci_now input)) (\<lambda>now.
        bnd (or_error (parse_agent_cron_schedule (ce_lower env) (ci_schedule_text input) now)) (\<lambda>(schedule, upcoming).
        bnd (new_job_id env) (\<lambda>i.
          let job = new_job input i (case ci_source input of None \<Rightarrow> ''cron'' | Some s \<Rightarrow> s) None
                      (iso_from_millis now) schedule upcoming
          in bnd (read_jobs env) (\<lambda>jobs. thn (write_jobs env (jobs @ [job])) (ret job))))))"

text \<open>
  The order of the listings: no next run last, the others by time. The times of all jobs are read
  first; the source reads the ones its sort compares.
\<close>

definition iso_or_zero :: "string option \<Rightarrow> nat option" where
  "iso_or_zero s =
     (case s of None \<Rightarrow> Some 0
      | Some t \<Rightarrow> map_option (\<lambda>n. case n of None \<Rightarrow> 0 | Some m \<Rightarrow> m) (parse_iso_millis t))"

definition optional_iso_le :: "string option \<times> nat \<Rightarrow> string option \<times> nat \<Rightarrow> bool" where
  "optional_iso_le l r \<longleftrightarrow>
     (if fst l = fst r then True
      else case fst l of None \<Rightarrow> False
           | Some _ \<Rightarrow> (case fst r of None \<Rightarrow> True | Some _ \<Rightarrow> snd l \<le> snd r))"

fun option_all :: "('a \<Rightarrow> 'b option) \<Rightarrow> 'a list \<Rightarrow> 'b list option" where
  "option_all f [] = Some []"
| "option_all f (x # xs) =
     (case f x of None \<Rightarrow> None | Some y \<Rightarrow> map_option (\<lambda>ys. y # ys) (option_all f xs))"

definition sort_by_next_run :: "cron_job list \<Rightarrow> cron_job list option" where
  "sort_by_next_run jobs =
     map_option (\<lambda>keyed. map snd (stable_sort (\<lambda>l r. optional_iso_le (fst l) (fst r)) keyed))
       (option_all (\<lambda>j. map_option (\<lambda>t. ((cj_next_run_at j, t), j)) (iso_or_zero (cj_next_run_at j))) jobs)"

definition list_jobs :: "cron_env \<Rightarrow> cron_job list cron_prog" where
  "list_jobs env = bnd (read_jobs env) (\<lambda>jobs. or_panic (sort_by_next_run jobs))"

section \<open>Sessions\<close>

text \<open>
  \<open>resolve_path\<close>: the components of a path, without \<open>.\<close> and with \<open>..\<close> resolved on the text, under
  the root directory. \<open>Path::components\<close> drops empty components.
\<close>

fun resolve_components :: "string list \<Rightarrow> string list \<Rightarrow> string list" where
  "resolve_components [] acc = rev acc"
| "resolve_components (c # cs) acc =
     (if c = [] \<or> c = ''.'' then resolve_components cs acc
      else if c = ''..'' then resolve_components cs (tl acc)
      else resolve_components cs (c # acc))"

definition resolve_path :: "string \<Rightarrow> string" where
  "resolve_path path = ''/'' @ join_with ''/'' (resolve_components (split_on CHR ''/'' path) [])"

record session_binding =
  sb_active_session_id :: string
  sb_session_id :: string
  sb_session_file :: string
  sb_cwd :: string

definition rebound :: "session_binding \<Rightarrow> cron_job \<Rightarrow> cron_job option" where
  "rebound b job =
     (if cj_active_session_id job \<noteq> sb_active_session_id b
         \<and> resolve_path (cj_session_file job) \<noteq> resolve_path (sb_session_file b) then None
      else if cj_active_session_id job = sb_active_session_id b \<and> cj_session_id job = sb_session_id b
         \<and> resolve_path (cj_session_file job) = resolve_path (sb_session_file b) \<and> cj_cwd job = sb_cwd b then None
      else Some (job\<lparr>cj_active_session_id := sb_active_session_id b, cj_session_id := sb_session_id b,
                     cj_session_file := sb_session_file b, cj_cwd := sb_cwd b\<rparr>))"

definition rebind_session_jobs :: "cron_env \<Rightarrow> session_binding \<Rightarrow> cron_job list cron_prog" where
  "rebind_session_jobs env b = change_jobs env (rebound b)"

record cancel_filter =
  cn_active_session_id :: "string option"
  cn_session_id :: "string option"
  cn_session_file :: "string option"

definition cancel_matches :: "cancel_filter \<Rightarrow> cron_job \<Rightarrow> bool" where
  "cancel_matches f job \<longleftrightarrow>
     cn_active_session_id f = Some (cj_active_session_id job)
     \<or> cn_session_id f = Some (cj_session_id job)
     \<or> map_option resolve_path (cn_session_file f) = Some (resolve_path (cj_session_file job))"

definition cancel_jobs_for_session :: "cron_env \<Rightarrow> cancel_filter \<Rightarrow> nat \<Rightarrow> cron_job list cron_prog" where
  "cancel_jobs_for_session env f now =
     change_jobs env (\<lambda>job. if \<not> cancel_matches f job \<or> \<not> is_open job then None
                            else Some (cancelled_job (iso_from_millis now) job))"

definition cancel :: "cron_env \<Rightarrow> string \<Rightarrow> nat \<Rightarrow> cron_job option cron_prog" where
  "cancel env i now =
     bnd (change_jobs env (\<lambda>job. if cj_id job \<noteq> i \<or> cj_status job = JobCancelled then None
                                 else Some (cancelled_job (iso_from_millis now) job)))
       (\<lambda>hits. ret (last_of hits))"

section \<open>Run and skip results\<close>

definition ran_now :: "nat \<Rightarrow> string option \<Rightarrow> cron_job \<Rightarrow> cron_job" where
  "ran_now now err job =
     job\<lparr>cj_last_run_at := Some (iso_from_millis now), cj_last_error := err,
         cj_run_count := add_u64 (cj_run_count job) 1, cj_updated_at := iso_from_millis now\<rparr>"

definition skipped_now :: "nat \<Rightarrow> cron_job \<Rightarrow> cron_job" where
  "skipped_now now job =
     job\<lparr>cj_next_run_at := rolled_next_run (cj_schedule job) now,
         cj_last_skipped_at := Some (iso_from_millis now), cj_updated_at := iso_from_millis now\<rparr>"

definition record_run_result :: "cron_env \<Rightarrow> string \<Rightarrow> nat option \<Rightarrow> string option \<Rightarrow> cron_job option cron_prog" where
  "record_run_result env i now_option err =
     bnd (now_or env now_option) (\<lambda>now.
     bnd (change_jobs env (\<lambda>job.
            if cj_id job \<noteq> i then None
            else if cj_status job \<noteq> JobActive then Some job
            else
              let next_run_at = (case sc_kind (cj_schedule job) of
                                   KindCron \<Rightarrow> rolled_next_run (cj_schedule job) (add_u64 now 1)
                                 | KindInterval \<Rightarrow> rolled_next_run (cj_schedule job) now
                                 | KindOnce \<Rightarrow> None)
              in Some (ran_now now err
                   (job\<lparr>cj_status := (if sc_kind (cj_schedule job) = KindOnce then JobCompleted else JobActive),
                        cj_next_run_at := next_run_at\<rparr>))))
       (\<lambda>hits. ret (last_of hits)))"

definition record_skip_result :: "cron_env \<Rightarrow> string \<Rightarrow> nat \<Rightarrow> cron_job option cron_prog" where
  "record_skip_result env i now =
     bnd (change_jobs env (\<lambda>job.
            if cj_id job \<noteq> i then None
            else if cj_status job \<noteq> JobActive then Some job
            else Some (skipped_now now job)))
       (\<lambda>hits. ret (last_of hits))"

section \<open>The backoff of a failing job\<close>

fun defer_loop :: "cron_env \<Rightarrow> string \<Rightarrow> nat \<Rightarrow> cron_job list \<Rightarrow> (cron_job option \<times> cron_job list) cron_prog" where
  "defer_loop env i until_ms [] = ret (None, [])"
| "defer_loop env i until_ms (job # jobs) =
     (if cj_id job \<noteq> i \<or> cj_status job \<noteq> JobActive
      then bnd (defer_loop env i until_ms jobs) (\<lambda>(updated, rest). ret (updated, job # rest))
      else
        bnd (or_panic (case cj_next_run_at job of None \<Rightarrow> Some None | Some s \<Rightarrow> parse_iso_millis s)) (\<lambda>current.
          if (case current of None \<Rightarrow> False | Some t \<Rightarrow> until_ms \<le> t)
          then bnd (defer_loop env i until_ms jobs) (\<lambda>(updated, rest). ret (updated, job # rest))
          else
            bnd (clock_now env) (\<lambda>now.
              let deferred = job\<lparr>cj_next_run_at := Some (iso_from_millis until_ms),
                                 cj_updated_at := iso_from_millis now\<rparr>
              in bnd (defer_loop env i until_ms jobs) (\<lambda>(updated, rest).
                   ret (case updated of None \<Rightarrow> Some deferred | Some u \<Rightarrow> Some u, deferred # rest)))))"

definition some_last :: "'a option list \<Rightarrow> 'a option" where
  "some_last xs = last_of (List.map_filter id xs)"

definition defer_next_run :: "cron_env \<Rightarrow> string \<Rightarrow> nat \<Rightarrow> cron_job option cron_prog" where
  "defer_next_run env i until_ms =
     bnd (mutate_states env (\<lambda>s.
            bnd (defer_loop env i until_ms (js_jobs s)) (\<lambda>(updated, jobs). ret (updated, s\<lparr>js_jobs := jobs\<rparr>))))
       (\<lambda>outs. ret (some_last outs))"

section \<open>Due jobs and claims\<close>

fun due_jobs :: "nat \<Rightarrow> cron_job list \<Rightarrow> cron_job list option" where
  "due_jobs now [] = Some []"
| "due_jobs now (job # jobs) =
     (case is_due_job job now of
        None \<Rightarrow> None
      | Some d \<Rightarrow> map_option (\<lambda>rest. if d then job # rest else rest) (due_jobs now jobs))"

definition due :: "cron_env \<Rightarrow> nat \<Rightarrow> cron_job list cron_prog" where
  "due env now = bnd (read_jobs env) (\<lambda>jobs. or_panic (due_jobs now jobs))"

fun find_due :: "string \<Rightarrow> nat \<Rightarrow> cron_job list \<Rightarrow> cron_job option option" where
  "find_due i now [] = Some None"
| "find_due i now (job # jobs) =
     (if cj_id job = i then
        case is_due_job job now of None \<Rightarrow> None | Some True \<Rightarrow> Some (Some job) | Some False \<Rightarrow> find_due i now jobs
      else find_due i now jobs)"

definition get_due_job :: "cron_env \<Rightarrow> string \<Rightarrow> nat \<Rightarrow> cron_job option cron_prog" where
  "get_due_job env i now = bnd (read_jobs env) (\<lambda>jobs. or_panic (find_due i now jobs))"

definition next_run_times :: "cron_job list \<Rightarrow> nat list option" where
  "next_run_times jobs =
     map_option (List.map_filter id)
       (option_all (\<lambda>j. case cj_next_run_at j of None \<Rightarrow> Some None | Some s \<Rightarrow> parse_iso_millis s)
          (filter (\<lambda>j. cj_status j = JobActive) jobs))"

definition next_active_run_at :: "cron_env \<Rightarrow> nat option cron_prog" where
  "next_active_run_at env =
     bnd (read_jobs env) (\<lambda>jobs. bnd (or_panic (next_run_times jobs)) (\<lambda>times.
       ret (if times = [] then None else Some (Min (set times)))))"

record cron_dispatch =
  cd_id :: string
  cd_job :: cron_job

text \<open>The job that a claim leaves behind: its next run is rolled from the time of the claim.\<close>

definition claimed_job :: "nat \<Rightarrow> cron_job \<Rightarrow> cron_job" where
  "claimed_job claimed_at job =
     job\<lparr>cj_next_run_at := rolled_next_run (cj_schedule job) claimed_at,
         cj_updated_at := iso_from_millis claimed_at\<rparr>"

fun claim_loop ::
    "cron_env \<Rightarrow> string set \<Rightarrow> nat \<Rightarrow> nat \<Rightarrow> cron_job list
     \<Rightarrow> (cron_job list \<times> dispatch_record list \<times> cron_dispatch list) cron_prog" where
  "claim_loop env claimed due_at claimed_at [] = ret ([], [], [])"
| "claim_loop env claimed due_at claimed_at (job # jobs) =
     bnd (or_panic (is_due_job job due_at)) (\<lambda>is_due.
       if \<not> is_due then
         bnd (claim_loop env claimed due_at claimed_at jobs) (\<lambda>(rest, records, dispatches).
           ret (job # rest, records, dispatches))
       else
         let job' = claimed_job claimed_at job
         in if cj_id job \<in> claimed then
              bnd (claim_loop env claimed due_at claimed_at jobs) (\<lambda>(rest, records, dispatches).
                ret (job'\<lparr>cj_last_skipped_at := Some (iso_from_millis claimed_at)\<rparr> # rest, records, dispatches))
            else
              bnd (new_job_id env) (\<lambda>i.
                let record = \<lparr>dp_id = i, dp_job_id = cj_id job, dp_claimed_at = iso_from_millis claimed_at,
                              dp_scheduled_for = (case cj_next_run_at job of None \<Rightarrow> [] | Some s \<Rightarrow> s)\<rparr>
                in bnd (claim_loop env claimed due_at claimed_at jobs) (\<lambda>(rest, records, dispatches).
                     ret (job' # rest, record # records, \<lparr>cd_id = i, cd_job = job'\<rparr> # dispatches))))"

definition claim_due_in_state ::
    "cron_env \<Rightarrow> nat \<Rightarrow> nat \<Rightarrow> cron_jobs_state \<Rightarrow> (cron_dispatch list \<times> cron_jobs_state) cron_prog" where
  "claim_due_in_state env due_at claimed_at s =
     bnd (claim_loop env (set (map dp_job_id (js_dispatches s))) due_at claimed_at (js_jobs s))
       (\<lambda>(jobs, records, dispatches).
          ret (dispatches, \<lparr>js_jobs = jobs, js_dispatches = js_dispatches s @ records\<rparr>))"

definition claim_due :: "cron_env \<Rightarrow> nat \<Rightarrow> nat \<Rightarrow> cron_dispatch list cron_prog" where
  "claim_due env due_at claimed_at =
     bnd (mutate_states env (claim_due_in_state env due_at claimed_at)) (\<lambda>outs. ret (concat outs))"

section \<open>Dispatches\<close>

fun claimed_in_states :: "string \<Rightarrow> cron_jobs_state list \<Rightarrow> cron_job option" where
  "claimed_in_states i [] = None"
| "claimed_in_states i (s # states) =
     (if \<exists>d \<in> set (js_dispatches s). dp_job_id d = i
      then find (\<lambda>j. cj_id j = i \<and> cj_status j = JobActive) (js_jobs s)
      else claimed_in_states i states)"

definition get_claimed_job :: "cron_env \<Rightarrow> string \<Rightarrow> cron_job option cron_prog" where
  "get_claimed_job env i = bnd (read_states env) (\<lambda>states. ret (claimed_in_states i states))"

datatype run_outcome = Ran | Skipped

definition settled_job :: "nat \<Rightarrow> run_outcome \<Rightarrow> string option \<Rightarrow> cron_job \<Rightarrow> cron_job" where
  "settled_job now outcome err job =
     (if outcome = Skipped \<and> err = None then skipped_now now (job\<lparr>cj_status := finished_status job\<rparr>)
      else ran_now now err (job\<lparr>cj_status := finished_status job\<rparr>))"

definition settle_in_state ::
    "string \<Rightarrow> nat \<Rightarrow> run_outcome \<Rightarrow> string option \<Rightarrow> cron_jobs_state \<Rightarrow> cron_job option \<times> cron_jobs_state" where
  "settle_in_state dispatch_id now outcome err s =
     (case find (\<lambda>d. dp_id d = dispatch_id) (js_dispatches s) of
        None \<Rightarrow> (None, s)
      | Some d \<Rightarrow>
          let f = (\<lambda>job. if cj_id job \<noteq> dp_job_id d \<or> cj_status job \<noteq> JobActive then None
                         else Some (settled_job now outcome err job))
          in (last_of (rewritten f (js_jobs s)),
              \<lparr>js_jobs = rewrite f (js_jobs s),
               js_dispatches = filter (\<lambda>c. dp_id c \<noteq> dispatch_id) (js_dispatches s)\<rparr>))"

definition record_dispatch_result ::
    "cron_env \<Rightarrow> string \<Rightarrow> nat option \<Rightarrow> run_outcome \<Rightarrow> string option \<Rightarrow> cron_job option cron_prog" where
  "record_dispatch_result env dispatch_id now_option outcome err =
     bnd (now_or env now_option) (\<lambda>now.
     bnd (mutate_states env (\<lambda>s. ret (settle_in_state dispatch_id now outcome err s)))
       (\<lambda>outs. ret (some_last outs)))"

definition interrupted_error :: string where
  "interrupted_error = ''Interrupted before scheduled operation completion''"

definition recover_interrupted_in_state ::
    "nat \<Rightarrow> string set option \<Rightarrow> cron_jobs_state \<Rightarrow> cron_job list \<times> cron_jobs_state" where
  "recover_interrupted_in_state now dispatch_ids s =
     (let chosen = (\<lambda>d. case dispatch_ids of None \<Rightarrow> True | Some ids \<Rightarrow> dp_id d \<in> ids);
          interrupted = filter chosen (js_dispatches s);
          f = (\<lambda>job. if cj_id job \<notin> set (map dp_job_id interrupted) \<or> cj_status job \<noteq> JobActive then None
                     else Some (job\<lparr>cj_status := finished_status job, cj_last_error := Some interrupted_error,
                                    cj_updated_at := iso_from_millis now\<rparr>))
      in if interrupted = [] then ([], s)
         else (rewritten f (js_jobs s),
               \<lparr>js_jobs = rewrite f (js_jobs s), js_dispatches = filter (\<lambda>d. \<not> chosen d) (js_dispatches s)\<rparr>))"

definition recover_interrupted_dispatches :: "cron_env \<Rightarrow> nat \<Rightarrow> cron_job list cron_prog" where
  "recover_interrupted_dispatches env now =
     bnd (mutate_states env (\<lambda>s. ret (recover_interrupted_in_state now None s))) (\<lambda>outs. ret (concat outs))"

definition recover_interrupted_dispatches_by_id ::
    "cron_env \<Rightarrow> string list \<Rightarrow> nat \<Rightarrow> cron_job list cron_prog" where
  "recover_interrupted_dispatches_by_id env ids now =
     bnd (mutate_states env (\<lambda>s. ret (recover_interrupted_in_state now (Some (set ids)) s)))
       (\<lambda>outs. ret (concat outs))"

section \<open>Session artifacts\<close>

definition register_session_artifact :: "cron_env \<Rightarrow> string \<Rightarrow> string \<Rightarrow> bool cron_prog" where
  "register_session_artifact env session_id path =
     (if \<not> ce_artifact_mode env then ret False
      else
        bnd (gets cw_artifacts) (\<lambda>files.
          if map_of files session_id = Some path then ret False
          else thn (upd (\<lambda>w. w\<lparr>cw_artifacts := AList.update session_id path files\<rparr>)) (ret True)))"

definition recover_session_artifact :: "cron_env \<Rightarrow> string \<Rightarrow> nat \<Rightarrow> cron_job list cron_prog" where
  "recover_session_artifact env session_id now =
     bnd (gets cw_artifacts) (\<lambda>files.
       case map_of files session_id of
         None \<Rightarrow> ret []
       | Some path \<Rightarrow>
           bnd (read_path path) (\<lambda>s.
             if js_dispatches s = [] then ret []
             else
               let (recovered, s') = recover_interrupted_in_state now None s
               in thn (write_jobs_state env path s') (ret recovered)))"

definition read_scheduled_jobs_artifact :: "string \<Rightarrow> cron_job list cron_prog" where
  "read_scheduled_jobs_artifact path = bnd (read_path path) (\<lambda>s. ret (js_jobs s))"

section \<open>The heartbeat of a session\<close>

text \<open>\<open>max_by_key\<close>: of several jobs with the greatest time the last one.\<close>

fun latest_from :: "(nat \<times> cron_job) option \<Rightarrow> cron_job list \<Rightarrow> (nat \<times> cron_job) option option" where
  "latest_from best [] = Some best"
| "latest_from best (job # jobs) =
     (case iso_or_zero (Some (cj_updated_at job)) of
        None \<Rightarrow> None
      | Some t \<Rightarrow>
          latest_from (case best of None \<Rightarrow> Some (t, job) | Some (b, j) \<Rightarrow> if b \<le> t then Some (t, job) else best) jobs)"

definition latest_job :: "cron_job list \<Rightarrow> cron_job option option" where
  "latest_job jobs = map_option (map_option snd) (latest_from None jobs)"

definition session_heartbeat :: "string \<Rightarrow> cron_job \<Rightarrow> bool" where
  "session_heartbeat active_session_id job \<longleftrightarrow>
     cj_active_session_id job = active_session_id \<and> cj_source job = Some ''heartbeat''"

definition get_heartbeat :: "cron_env \<Rightarrow> string \<Rightarrow> cron_job option cron_prog" where
  "get_heartbeat env active_session_id =
     bnd (read_jobs env) (\<lambda>jobs.
       or_panic (latest_job (filter (\<lambda>j. session_heartbeat active_session_id j \<and> is_open j) jobs)))"

definition get_latest_heartbeat :: "cron_env \<Rightarrow> string \<Rightarrow> cron_job option cron_prog" where
  "get_latest_heartbeat env active_session_id =
     bnd (read_jobs env) (\<lambda>jobs. or_panic (latest_job (filter (session_heartbeat active_session_id) jobs)))"

definition mode_or_steer :: "delivery_mode option \<Rightarrow> delivery_mode" where
  "mode_or_steer m = (case m of None \<Rightarrow> Steer | Some d \<Rightarrow> d)"

definition create_heartbeat :: "cron_env \<Rightarrow> create_input \<Rightarrow> cron_job cron_prog" where
  "create_heartbeat env input =
     bnd (now_or env (ci_now input)) (\<lambda>now.
     bnd (or_error (parse_agent_cron_schedule (ce_lower env) (ci_schedule_text input) now)) (\<lambda>(schedule, upcoming).
       if sc_kind schedule = KindOnce then fail (Refused ''Heartbeat schedule must be recurring'')
       else if trim (ci_prompt input) = [] then fail (Refused ''Heartbeat instruction cannot be empty'')
       else
         bnd (read_jobs env) (\<lambda>jobs.
         bnd (new_job_id env) (\<lambda>i.
           let existing = rewrite (\<lambda>j. if session_heartbeat (ci_active_session_id input) j \<and> is_open j
                                       then Some (cancelled_job (iso_from_millis now) j) else None) jobs;
               job = new_job input i ''heartbeat'' (Some (mode_or_steer (ci_delivery_mode input)))
                       (iso_from_millis now) schedule upcoming
           in thn (write_jobs env (existing @ [job])) (ret job)))))"

text \<open>Rewrite the job with the id of the session's open heartbeat, and write the list back.\<close>

definition change_heartbeat :: "cron_env \<Rightarrow> cron_job \<Rightarrow> (cron_job \<Rightarrow> cron_job) \<Rightarrow> cron_job option cron_prog" where
  "change_heartbeat env current g =
     bnd (read_jobs env) (\<lambda>jobs.
       let f = (\<lambda>j. if cj_id j \<noteq> cj_id current then None else Some (g j))
       in thn (write_jobs env (rewrite f jobs)) (ret (last_of (rewritten f jobs))))"

definition paused_job :: "string \<Rightarrow> cron_job \<Rightarrow> cron_job" where
  "paused_job now_iso job = job\<lparr>cj_status := JobPaused, cj_next_run_at := None, cj_updated_at := now_iso\<rparr>"

definition pause_heartbeat :: "cron_env \<Rightarrow> string \<Rightarrow> nat \<Rightarrow> cron_job option cron_prog" where
  "pause_heartbeat env active_session_id now =
     bnd (get_heartbeat env active_session_id) (\<lambda>found.
       case found of
         None \<Rightarrow> ret None
       | Some current \<Rightarrow> change_heartbeat env current (paused_job (iso_from_millis now)))"

definition resume_heartbeat :: "cron_env \<Rightarrow> string \<Rightarrow> nat \<Rightarrow> cron_job option cron_prog" where
  "resume_heartbeat env active_session_id now =
     bnd (get_heartbeat env active_session_id) (\<lambda>found.
       case found of
         None \<Rightarrow> ret None
       | Some current \<Rightarrow>
           bnd (or_error (next_run_at_for_schedule (cj_schedule current) now)) (\<lambda>upcoming.
             case upcoming of
               None \<Rightarrow> fail (Refused ''Heartbeat schedule must be recurring'')
             | Some n \<Rightarrow>
                 change_heartbeat env current (\<lambda>j. j\<lparr>cj_status := JobActive, cj_next_run_at := Some (iso_from_millis n),
                                                      cj_updated_at := iso_from_millis now\<rparr>)))"

definition clear_heartbeat :: "cron_env \<Rightarrow> string \<Rightarrow> nat \<Rightarrow> cron_job option cron_prog" where
  "clear_heartbeat env active_session_id now =
     bnd (get_heartbeat env active_session_id) (\<lambda>found.
       case found of
         None \<Rightarrow> ret None
       | Some current \<Rightarrow> change_heartbeat env current (cancelled_job (iso_from_millis now)))"

datatype heartbeat_action = ManagePause | ManageResume | ManageStop

definition managed_job :: "heartbeat_action \<Rightarrow> string \<Rightarrow> cron_job \<Rightarrow> cron_job" where
  "managed_job action now_iso job =
     (case action of
        ManagePause \<Rightarrow> paused_job now_iso job
      | ManageStop \<Rightarrow> cancelled_job now_iso job
      | ManageResume \<Rightarrow> job\<lparr>cj_status := JobActive, cj_updated_at := now_iso\<rparr>)"

definition manage_heartbeat ::
    "cron_env \<Rightarrow> string \<Rightarrow> string \<Rightarrow> heartbeat_action \<Rightarrow> nat \<Rightarrow> cron_job option cron_prog" where
  "manage_heartbeat env active_session_id i action now =
     bnd (read_jobs env) (\<lambda>jobs.
       let f = (\<lambda>job. if cj_id job \<noteq> i \<or> cj_active_session_id job \<noteq> active_session_id \<or> \<not> is_heartbeat_cron_job job
                         \<or> cj_status job = JobCancelled \<or> cj_status job = JobCompleted then None
                      else Some (managed_job action (iso_from_millis now) job))
       in case last_of (rewritten f jobs) of
            None \<Rightarrow> ret None
          | Some updated_job \<Rightarrow>
              if action = ManageResume then
                bnd (or_error (next_run_at_for_schedule (cj_schedule updated_job) now)) (\<lambda>upcoming.
                  case upcoming of
                    None \<Rightarrow> fail (Refused ''Heartbeat schedule must be recurring'')
                  | Some n \<Rightarrow>
                      let resumed = updated_job\<lparr>cj_next_run_at := Some (iso_from_millis n)\<rparr>
                      in thn (write_jobs env
                                (map (\<lambda>j. if cj_id j = cj_id resumed then resumed else j) (rewrite f jobs)))
                           (ret (Some resumed)))
              else thn (write_jobs env (rewrite f jobs)) (ret (Some updated_job)))"

section \<open>RLM heartbeats\<close>

definition rlm_heartbeat :: "string \<Rightarrow> cron_job \<Rightarrow> bool" where
  "rlm_heartbeat active_session_id job \<longleftrightarrow>
     cj_active_session_id job = active_session_id \<and> cj_source job = Some ''rlm_heartbeat''"

definition list_rlm_heartbeats :: "cron_env \<Rightarrow> string \<Rightarrow> bool \<Rightarrow> cron_job list cron_prog" where
  "list_rlm_heartbeats env active_session_id include_inactive =
     bnd (read_jobs env) (\<lambda>jobs.
       or_panic (sort_by_next_run
         (filter (\<lambda>j. rlm_heartbeat active_session_id j \<and> (include_inactive \<or> is_open j)) jobs)))"

definition create_rlm_heartbeat :: "cron_env \<Rightarrow> create_input \<Rightarrow> cron_job cron_prog" where
  "create_rlm_heartbeat env input =
     bnd (now_or env (ci_now input)) (\<lambda>now.
     bnd (or_error (parse_agent_cron_schedule (ce_lower env) (ci_schedule_text input) now)) (\<lambda>(schedule, upcoming).
       if sc_kind schedule = KindOnce then fail (Refused ''RLM heartbeat schedule must be recurring'')
       else if trim (ci_prompt input) = [] then fail (Refused ''RLM heartbeat instruction cannot be empty'')
       else
         bnd (new_job_id env) (\<lambda>i.
           let job = new_job input i ''rlm_heartbeat'' (Some (mode_or_steer (ci_delivery_mode input)))
                       (iso_from_millis now) schedule upcoming
           in bnd (read_jobs env) (\<lambda>jobs. thn (write_jobs env (jobs @ [job])) (ret job)))))"

datatype rlm_status_update = RlmPause | RlmResume

record rlm_update =
  ru_label :: "string option"
  ru_prompt :: "string option"
  ru_schedule_text :: "string option"
  ru_status :: "rlm_status_update option"
  ru_delivery_mode :: "delivery_mode option"
  ru_now :: "nat option"

definition apply_rlm_status :: "nat \<Rightarrow> rlm_status_update option \<Rightarrow> cron_job \<Rightarrow> cron_job" where
  "apply_rlm_status now status job =
     (case status of
        Some RlmPause \<Rightarrow> job\<lparr>cj_status := JobPaused, cj_next_run_at := None\<rparr>
      | Some RlmResume \<Rightarrow> job\<lparr>cj_status := JobActive, cj_next_run_at := rolled_next_run (cj_schedule job) now\<rparr>
      | None \<Rightarrow> job)"

text \<open>The rest of an update once label, mode and prompt are in; \<open>None\<close> inside is a rejected update.\<close>

definition apply_rlm_schedule ::
    "(string \<Rightarrow> string) \<Rightarrow> nat \<Rightarrow> rlm_update \<Rightarrow> cron_job \<Rightarrow> cron_error + cron_job option" where
  "apply_rlm_schedule lower now update job =
     (case ru_schedule_text update of
        None \<Rightarrow> Inr (Some job)
      | Some t \<Rightarrow>
          (case parse_agent_cron_schedule lower t now of
             Inl CronPanic \<Rightarrow> Inl CronPanic
           | Inl (Refused _) \<Rightarrow> Inr None
           | Inr (schedule, upcoming) \<Rightarrow>
               if sc_kind schedule = KindOnce then Inr None
               else Inr (Some (job\<lparr>cj_schedule := schedule,
                                   cj_next_run_at := (if cj_status job = JobPaused then None
                                                      else Some (iso_from_millis upcoming))\<rparr>))))"

definition rlm_updated :: "(string \<Rightarrow> string) \<Rightarrow> nat \<Rightarrow> rlm_update \<Rightarrow> cron_job \<Rightarrow> cron_error + cron_job option" where
  "rlm_updated lower now update job =
     (let labelled = (case ru_label update of None \<Rightarrow> job
                        | Some l \<Rightarrow> job\<lparr>cj_label := normalize_optional_label (Some l)\<rparr>);
          moded = (case ru_delivery_mode update of None \<Rightarrow> labelled
                     | Some m \<Rightarrow> labelled\<lparr>cj_delivery_mode := Some m\<rparr>)
      in if (case ru_prompt update of None \<Rightarrow> False | Some p \<Rightarrow> trim p = []) then Inr None
         else
           let prompted = (case ru_prompt update of None \<Rightarrow> moded | Some p \<Rightarrow> moded\<lparr>cj_prompt := trim p\<rparr>)
           in map_sum id
                (map_option (\<lambda>j. (apply_rlm_status now (ru_status update) j)\<lparr>cj_updated_at := iso_from_millis now\<rparr>))
                (apply_rlm_schedule lower now update prompted))"

fun rlm_update_loop ::
    "(cron_job \<Rightarrow> bool) \<Rightarrow> (cron_job \<Rightarrow> cron_error + cron_job option) \<Rightarrow> cron_job list
     \<Rightarrow> cron_error + (cron_job option \<times> cron_job list)" where
  "rlm_update_loop chosen f [] = Inr (None, [])"
| "rlm_update_loop chosen f (job # jobs) =
     (case (if chosen job \<and> \<not> (cj_status job = JobCancelled \<or> cj_status job = JobCompleted) then f job else Inr None) of
        Inl e \<Rightarrow> Inl e
      | Inr v \<Rightarrow>
          (case rlm_update_loop chosen f jobs of
             Inl e \<Rightarrow> Inl e
           | Inr (updated, rest) \<Rightarrow>
               Inr (case updated of None \<Rightarrow> v | Some u \<Rightarrow> Some u, (case v of None \<Rightarrow> job | Some j \<Rightarrow> j) # rest)))"

definition rlm_update_rejected :: string where
  "rlm_update_rejected = ''RLM heartbeat update rejected (empty instruction or non-recurring schedule)''"

definition update_rlm_heartbeat :: "cron_env \<Rightarrow> string \<Rightarrow> string \<Rightarrow> rlm_update \<Rightarrow> cron_job option cron_prog" where
  "update_rlm_heartbeat env active_session_id i update =
     bnd (now_or env (ru_now update)) (\<lambda>now.
     bnd (read_jobs env) (\<lambda>jobs.
       let chosen = (\<lambda>j. cj_id j = i \<and> rlm_heartbeat active_session_id j)
       in bnd (or_error (rlm_update_loop chosen (rlm_updated (ce_lower env) now update) jobs)) (\<lambda>(updated, jobs').
            if \<not> list_ex chosen jobs then ret None
            else case updated of
                   None \<Rightarrow> fail (Refused rlm_update_rejected)
                 | Some job \<Rightarrow> thn (write_jobs env jobs') (ret (Some job)))))"

definition delete_rlm_heartbeat :: "cron_env \<Rightarrow> string \<Rightarrow> string \<Rightarrow> nat \<Rightarrow> cron_job option cron_prog" where
  "delete_rlm_heartbeat env active_session_id i now =
     bnd (change_jobs env (\<lambda>job. if cj_id job \<noteq> i \<or> \<not> rlm_heartbeat active_session_id job then None
                                 else Some (cancelled_job (iso_from_millis now) job)))
       (\<lambda>hits. ret (last_of hits))"

definition cancel_rlm_heartbeats_for_session :: "cron_env \<Rightarrow> string \<Rightarrow> nat \<Rightarrow> cron_job list cron_prog" where
  "cancel_rlm_heartbeats_for_session env active_session_id now =
     change_jobs env (\<lambda>job. if \<not> rlm_heartbeat active_session_id job \<or> \<not> is_open job then None
                            else Some (cancelled_job (iso_from_millis now) job))"

end
