(* ===== verification/CronCalendar.thy ===== *)
theory CronCalendar
  imports CronSchedule
begin

text \<open>
  What the schedule texts mean: the minute search finds the first match and misses none, it matches
  the date that the timestamps of the job files print, the values of a field are the ones its parts
  describe, and a timestamp that was written is read back.
\<close>

section \<open>The minute search\<close>

lemma search_minutes_cases:
  "case search_minutes fs c deadline of
     Some t \<Rightarrow> (\<exists>k. t = c + k * one_minute_ms \<and> t \<le> deadline \<and> matches_cron_fields t fs
                  \<and> (\<forall>j < k. \<not> matches_cron_fields (c + j * one_minute_ms) fs))
   | None \<Rightarrow> \<forall>j. c + j * one_minute_ms \<le> deadline \<longrightarrow> \<not> matches_cron_fields (c + j * one_minute_ms) fs"
proof (induction fs c deadline rule: search_minutes.induct)
  case (1 fs c deadline)
  show ?case
  proof (cases "c \<le> deadline \<and> \<not> matches_cron_fields c fs")
    case True
    have e: "search_minutes fs c deadline = search_minutes fs (c + one_minute_ms) deadline"
      using True by (subst search_minutes.simps) simp
    have shift: "c + one_minute_ms + j * one_minute_ms = c + Suc j * one_minute_ms" for j by simp
    note ih = 1[unfolded shift]
    show ?thesis
    proof (cases "search_minutes fs (c + one_minute_ms) deadline")
      case None
      have "\<not> matches_cron_fields (c + j * one_minute_ms) fs" if "c + j * one_minute_ms \<le> deadline" for j
        using True that ih None by (cases j) auto
      then show ?thesis using e None by simp
    next
      case (Some t)
      from ih True Some obtain k where k: "t = c + Suc k * one_minute_ms" "t \<le> deadline"
        "matches_cron_fields t fs" "\<forall>j < k. \<not> matches_cron_fields (c + Suc j * one_minute_ms) fs" by auto
      have "\<not> matches_cron_fields (c + j * one_minute_ms) fs" if "j < Suc k" for j
        using True that k(4) by (cases j) auto
      then show ?thesis using e Some k(1-3) by (auto intro!: exI[of _ "Suc k"])
    qed
  next
    case False
    then show ?thesis by (subst search_minutes.simps) (auto intro!: exI[of _ 0])
  qed
qed

text \<open>The minutes strictly after an instant, up to the end of the search window.\<close>

definition window_end :: "nat \<Rightarrow> nat" where
  "window_end after_millis = (after_millis div one_minute_ms + 1) * one_minute_ms + search_window"

definition minutes_after :: "nat \<Rightarrow> nat set" where
  "minutes_after after_millis = {t. after_millis < t \<and> t \<le> window_end after_millis \<and> one_minute_ms dvd t}"

lemma minutes_after_iff:
  "t \<in> minutes_after a \<longleftrightarrow>
     (\<exists>j. t = (a div one_minute_ms + 1) * one_minute_ms + j * one_minute_ms \<and> t \<le> window_end a)"
proof
  assume "t \<in> minutes_after a"
  then obtain q where q: "t = one_minute_ms * q" "a < t" "t \<le> window_end a" by (auto simp: minutes_after_def dvd_def)
  then have "a div one_minute_ms < q" by (simp add: one_minute_ms_def div_less_iff_less_mult mult.commute)
  then have "t = (a div one_minute_ms + 1) * one_minute_ms + (q - (a div one_minute_ms + 1)) * one_minute_ms"
    using q(1) by (simp add: add_mult_distrib[symmetric] del: mult_Suc)
  with q(3) show "\<exists>j. t = (a div one_minute_ms + 1) * one_minute_ms + j * one_minute_ms \<and> t \<le> window_end a" by blast
next
  assume "\<exists>j. t = (a div one_minute_ms + 1) * one_minute_ms + j * one_minute_ms \<and> t \<le> window_end a"
  then obtain j where j: "t = (a div one_minute_ms + 1) * one_minute_ms + j * one_minute_ms" "t \<le> window_end a" by blast
  have "a < (a div one_minute_ms + 1) * one_minute_ms" by (simp add: one_minute_ms_def)
  with j show "t \<in> minutes_after a" by (simp add: minutes_after_def)
qed

definition time_limit :: nat where
  "time_limit = 253402300800000"

lemma candidate_in_range:
  assumes "a < time_limit"
  shows "first_candidate a = (a div one_minute_ms + 1) * one_minute_ms"
    and "add_u64 (first_candidate a) search_window = window_end a"
proof -
  have "a div one_minute_ms \<le> a" by simp
  then have b: "(a div one_minute_ms + 1) * one_minute_ms < 2 ^ 63"
    using assms by (simp add: one_minute_ms_def time_limit_def)
  then show 1: "first_candidate a = (a div one_minute_ms + 1) * one_minute_ms"
    by (simp add: first_candidate_def mul_u64_def)
  show "add_u64 (first_candidate a) search_window = window_end a"
    using b unfolding 1 by (simp add: add_u64_def window_end_def search_window_def one_minute_ms_def)
qed

lemma next_cron_run_cases:
  assumes "a < time_limit"
  shows "case next_cron_run_after e a of
      Inr t \<Rightarrow> (\<exists>fs. parse_cron_expression e = Inr fs \<and> t \<in> minutes_after a \<and> matches_cron_fields t fs
                 \<and> (\<forall>u \<in> minutes_after a. u < t \<longrightarrow> \<not> matches_cron_fields u fs))
    | Inl _ \<Rightarrow> (\<exists>err. parse_cron_expression e = Inl err) \<or> (\<exists>fs. parse_cron_expression e = Inr fs
                 \<and> (\<forall>u \<in> minutes_after a. \<not> matches_cron_fields u fs))"
proof (cases "parse_cron_expression e")
  case (Inl err)
  then show ?thesis by (simp add: next_cron_run_after_def)
next
  case (Inr fs)
  let ?c = "(a div one_minute_ms + 1) * one_minute_ms"
  have r: "next_cron_run_after e a = (case search_minutes fs ?c (window_end a) of Some t \<Rightarrow> Inr t
      | None \<Rightarrow> Inl (Refused (''Cron schedule did not match within one year: '' @ e)))"
    using Inr candidate_in_range[OF assms] by (simp add: next_cron_run_after_def Let_def)
  note sc = search_minutes_cases[where fs = fs and c = ?c and deadline = "window_end a"]
  show ?thesis
  proof (cases "search_minutes fs ?c (window_end a)")
    case None
    then show ?thesis using sc Inr by (auto simp: r minutes_after_iff)
  next
    case (Some t)
    with sc obtain k where k: "t = ?c + k * one_minute_ms" "t \<le> window_end a" "matches_cron_fields t fs"
      "\<forall>j < k. \<not> matches_cron_fields (?c + j * one_minute_ms) fs" by auto
    have "\<not> matches_cron_fields u fs" if u: "u \<in> minutes_after a" "u < t" for u
    proof -
      obtain j where j: "u = ?c + j * one_minute_ms" using u(1) unfolding minutes_after_iff by blast
      then have "j < k" using u(2) k(1) by (simp add: one_minute_ms_def)
      then show ?thesis using k(4) j by blast
    qed
    moreover have "t \<in> minutes_after a" using k(1,2) minutes_after_iff by blast
    moreover have "next_cron_run_after e a = Inr t" using r Some by (simp only: option.case)
    ultimately show ?thesis using Inr k(3) by simp
  qed
qed

section \<open>The calendar\<close>

text \<open>The fields are matched against the date that \<open>format_iso\<close> writes.\<close>

lemma civil_time_date:
  "civil_time t =
     (t div 60000 mod 60, t div 3600000 mod 24,
      nat (snd (snd (civil_from_days (int (t div 86400000))))),
      nat (fst (snd (civil_from_days (int (t div 86400000))))),
      (t div 86400000 + 4) mod 7)"
proof -
  have doe: "int (t div 86400000) + 719468
      - tdiv (if 0 \<le> int (t div 86400000) + 719468 then int (t div 86400000) + 719468
              else int (t div 86400000) + 719468 - 146096) 146097 * 146097
      = (int (t div 86400000) + 719468) mod 146097"
    by (simp add: tdiv_def minus_div_mult_eq_mod)
  have w: "24 * 60 * one_minute_ms = 86400000" by (simp add: one_minute_ms_def)
  have cut: "t mod (b * c) div b = t div b mod c" if "0 < b" for b c :: nat
    using that by (simp add: mod_mult2_eq)
  have "t mod 86400000 div 1000 div 60 mod 60 = t div 60000 mod 1440 mod 60"
    using cut[of 60000 1440] by (simp add: div_mult2_eq[symmetric])
  also have "\<dots> = t div 60000 mod 60" by (rule mod_mod_cancel) simp
  finally have minute: "t mod 86400000 div 1000 div 60 mod 60 = t div 60000 mod 60" .
  have hour: "t mod 86400000 div 1000 div 3600 = t div 3600000 mod 24"
    using cut[of 3600000 24] by (simp add: div_mult2_eq[symmetric])
  show ?thesis by (simp only: civil_time_def civil_from_days_def Let_def w doe minute hour fst_conv snd_conv)
qed

section \<open>The values of a field\<close>

lemma collect_values_iff:
  "v \<in> collect_values value stop step values \<longleftrightarrow>
     v \<in> values \<or> (0 < step \<and> (\<exists>k. v = value + k * step \<and> v \<le> stop))"
proof (induction "value" stop step "values" rule: collect_values.induct)
  case (1 "value" stop step "values")
  show ?case
  proof (cases "value \<le> stop \<and> 0 < step")
    case True
    have "(\<exists>k. v = value + k * step \<and> v \<le> stop) \<longleftrightarrow> v = value \<or> (\<exists>k. v = value + step + k * step \<and> v \<le> stop)"
      (is "?l \<longleftrightarrow> ?r")
    proof
      assume ?l then obtain k where k: "v = value + k * step" "v \<le> stop" by blast
      then show ?r by (cases k) (auto simp: algebra_simps)
    next
      assume ?r
      then show ?l
      proof
        assume "v = value" with True show ?l by (auto intro: exI[of _ 0])
      next
        assume "\<exists>k. v = value + step + k * step \<and> v \<le> stop"
        then obtain k where k: "v = value + step + k * step" "v \<le> stop" by blast
        then have "v = value + Suc k * step" by simp
        with k(2) show ?l by blast
      qed
    qed
    with 1 True show ?thesis by (subst collect_values.simps) auto
  next
    case False
    then show ?thesis by (subst collect_values.simps) auto
  qed
qed

text \<open>The values that one part of a field stands for: from its start to its end in steps.\<close>

definition part_covers :: "nat \<Rightarrow> nat \<Rightarrow> nat \<Rightarrow> string \<Rightarrow> bool" where
  "part_covers lo hi v part \<longleftrightarrow>
     (case parse_cron_part part lo hi of
        Inl _ \<Rightarrow> False
      | Inr (start, stop, step) \<Rightarrow> start \<le> v \<and> v \<le> stop \<and> step dvd v - start)"

lemma parse_cron_number_range: "parse_cron_number s lo hi = Inr n \<Longrightarrow> lo \<le> n \<and> n \<le> hi"
  by (auto simp: parse_cron_number_def split: if_splits option.splits)

lemma parse_cron_range_range:
  "parse_cron_range s lo hi = Inr (a, b) \<Longrightarrow> lo \<le> hi \<Longrightarrow> lo \<le> a \<and> a \<le> b \<and> b \<le> hi"
  by (auto simp: parse_cron_range_def map_sum_def dest!: parse_cron_number_range
        split: if_splits option.splits sum.splits)

lemma parse_cron_part_range:
  assumes "parse_cron_part s lo hi = Inr (a, b, step)" and "lo \<le> hi"
  shows "lo \<le> a \<and> a \<le> b \<and> b \<le> hi \<and> 0 < step"
proof -
  obtain range_text step_text where "(case split_once CHR ''/'' s of Some (before, step) \<Rightarrow> (before, Some step)
      | None \<Rightarrow> (s, None)) = (range_text, step_text)" by (cases "split_once CHR ''/'' s") auto
  with assms show ?thesis
    by (auto simp: parse_cron_part_def map_sum_def dest!: parse_cron_number_range parse_cron_range_range
          split: option.splits sum.splits)
qed

lemma parse_cron_parts_values:
  assumes "parse_cron_parts field parts lo hi values = Inr vs" and "lo \<le> hi"
  shows "v \<in> vs \<longleftrightarrow> v \<in> values \<or> (\<exists>part \<in> set parts. part_covers lo hi v part)"
  using assms(1)
proof (induction parts arbitrary: "values")
  case (Cons part parts)
  from Cons.prems obtain start stop step where
    p: "parse_cron_part part lo hi = Inr (start, stop, step)" and
    r: "parse_cron_parts field parts lo hi (collect_values start stop step values) = Inr vs"
    by (auto split: if_splits sum.splits)
  have "(\<exists>k. v = start + k * step \<and> v \<le> stop) \<longleftrightarrow> start \<le> v \<and> v \<le> stop \<and> step dvd v - start"
    by (auto simp: dvd_def) (metis le_add_diff_inverse mult.commute)
  then have "v \<in> collect_values start stop step values \<longleftrightarrow> v \<in> values \<or> part_covers lo hi v part"
    using parse_cron_part_range[OF p assms(2)] by (auto simp: collect_values_iff part_covers_def p)
  with Cons.IH[OF r] show ?case by auto
qed simp

lemma part_covers_range: "part_covers lo hi v part \<Longrightarrow> lo \<le> hi \<Longrightarrow> lo \<le> v \<and> v \<le> hi"
  using parse_cron_part_range[of part lo hi] by (fastforce simp: part_covers_def split: sum.splits)

lemma parse_cron_field_values:
  assumes "parse_cron_field field lo hi = Inr vs" and "lo \<le> hi"
  shows "vs = {v. \<exists>part \<in> set (split_on CHR '','' field). part_covers lo hi v part}" and "vs \<subseteq> {lo..hi}"
proof -
  show 1: "vs = {v. \<exists>part \<in> set (split_on CHR '','' field). part_covers lo hi v part}"
    using parse_cron_parts_values[OF assms(1)[unfolded parse_cron_field_def] assms(2)] by blast
  show "vs \<subseteq> {lo..hi}" using part_covers_range[OF _ assms(2)] by (auto simp: 1)
qed

section \<open>Written timestamps\<close>

definition numeral_text :: "string \<Rightarrow> int \<Rightarrow> bool" where
  "numeral_text s n \<longleftrightarrow>
     s \<noteq> [] \<and> (\<forall>c \<in> set s. is_ascii_digit c) \<and> digits_value 0 s = Some (nat n) \<and> 0 \<le> n \<and> n < 10000"

lemma numeral_text_fmt_pad: "0 \<le> n \<Longrightarrow> n < 10 ^ Suc w \<Longrightarrow> w \<le> 3 \<Longrightarrow> numeral_text (fmt_pad (Suc w) n) n"
  using fmt_pad_parses[of n w] by (auto simp: numeral_text_def)

lemma numeral_text_pads:
  "0 \<le> n \<Longrightarrow> n < 10000 \<Longrightarrow> numeral_text (fmt_pad 4 n) n"
  "0 \<le> n \<Longrightarrow> n < 100 \<Longrightarrow> numeral_text (fmt_pad 2 n) n"
  "0 \<le> n \<Longrightarrow> n < 1000 \<Longrightarrow> numeral_text (fmt_pad 3 n) n"
  using numeral_text_fmt_pad[of n 3] numeral_text_fmt_pad[of n 1, unfolded One_nat_def] numeral_text_fmt_pad[of n 2]
  unfolding numeral_2_eq_2[symmetric] by (simp, simp, simp)

lemma numeral_text_parses:
  assumes "numeral_text s n"
  shows "parse_i64 s = Some n" and "parse_unsigned (2 ^ 32 - 1) s = Some (nat n)"
proof -
  obtain c cs where s: "s = c # cs" using assms by (cases s) (auto simp: numeral_text_def)
  then have "c \<noteq> CHR ''+''" using assms digits_no_sign(1)[of c] by (auto simp: numeral_text_def)
  then show "parse_unsigned (2 ^ 32 - 1) s = Some (nat n)"
    using assms s by (auto simp: parse_unsigned_def numeral_text_def split: if_splits)
  show "parse_i64 s = Some n"
    using assms parse_i64_digits(1)[of s "nat n"] by (auto simp: numeral_text_def)
qed

lemma numeral_text_free:
  assumes "numeral_text s n" and "\<not> is_ascii_digit c"
  shows "c \<notin> set s"
  using assms by (auto simp: numeral_text_def)

lemma separators [simp]:
  "\<not> is_ascii_digit CHR ''-''" "\<not> is_ascii_digit CHR '':''" "\<not> is_ascii_digit CHR ''T''"
  "\<not> is_ascii_digit CHR ''.''" "\<not> is_ascii_digit CHR ''Z''"
  by (simp_all add: is_ascii_digit_def)

lemma split_on_free: "c \<notin> set s \<Longrightarrow> split_on c s = [s]"
  by (induction s) auto

lemma split_on_sep: "c \<notin> set s \<Longrightarrow> split_on c (s @ c # t) = s # split_on c t"
  by (induction s) auto

lemma split_once_sep: "c \<notin> set s \<Longrightarrow> split_once c (s @ c # t) = Some (s, t)"
  by (induction s) auto

lemma days_of_written_date:
  assumes "numeral_text ys y" and "numeral_text ms m" and "numeral_text ds d"
    and "civil_days y m d = Some days"
  shows "days_of_date (ys @ CHR ''-'' # ms @ CHR ''-'' # ds) = Some days"
proof -
  note free = numeral_text_free[OF assms(1)] numeral_text_free[OF assms(2)] numeral_text_free[OF assms(3)]
  have sp: "split_on CHR ''-'' (ys @ CHR ''-'' # ms @ CHR ''-'' # ds) = [ys, ms, ds]"
    by (simp add: split_on_sep split_on_free free)
  have era: "tdiv (if 0 \<le> y then y else y - 399) 400 = y div 400" for y
  proof -
    have "0 \<le> y mod 400" "y mod 400 < 400" "y = 400 * (y div 400) + y mod 400" by simp_all
    then have "(399 - y) div 400 = - (y div 400)" by (intro int_div_pos_eq[of _ _ _ "399 - y mod 400"]) linarith+
    then show ?thesis by (simp add: tdiv_def)
  qed
  have md: "1 \<le> m" "m \<le> 12" "1 \<le> d" "d \<le> 31"
    using assms(4) by (auto simp: civil_days_def Let_def split: if_splits)
  have im: "int (if 2 < nat m then nat m - 3 else nat m + 9) = (if 2 < m then m - 3 else m + 9)"
    using md by auto
  have lift: "(nat m \<le> 2) = (m \<le> 2)" "int (nat d) = d"
    "(\<not> (1 \<le> nat m \<and> nat m \<le> 12) \<or> \<not> (1 \<le> nat d \<and> nat d \<le> 31)) = False"
    "(\<not> (1 \<le> m \<and> m \<le> 12) \<or> \<not> (1 \<le> d \<and> d \<le> 31)) = False"
    using md by auto
  have yoe: "y - y div 400 * 400 = y mod 400" for y :: int by (simp add: minus_div_mult_eq_mod)
  have "days_of_date (ys @ CHR ''-'' # ms @ CHR ''-'' # ds) = civil_days y m d"
    by (simp only: days_of_date_def civil_days_def Let_def sp list.case option.case prod.case
        numeral_text_parses[OF assms(1)] numeral_text_parses[OF assms(2)] numeral_text_parses[OF assms(3)]
        im lift era yoe if_False)
  then show ?thesis using assms(4) by simp
qed

lemma time_of_written_clock:
  assumes "numeral_text hs h" and "numeral_text ns n" and "numeral_text ss s" and "numeral_text fs f"
    and "length fs = 3" and "h \<le> 23" and "n \<le> 59" and "s \<le> 59"
  shows "parse_time_with_offset (hs @ CHR '':'' # ns @ CHR '':'' # ss @ CHR ''.'' # fs @ ''Z'')
         = Some (Some (h * 3600000 + n * 60000 + s * 1000 + f, 0))"
proof -
  note free = numeral_text_free[OF assms(1)] numeral_text_free[OF assms(2)] numeral_text_free[OF assms(3)]
    numeral_text_free[OF assms(4)]
  have l: "last (ns @ CHR '':'' # ss @ CHR ''.'' # fs @ ''Z'') = CHR ''Z''" by simp
  have cl: "clock_and_offset (hs @ CHR '':'' # ns @ CHR '':'' # ss @ CHR ''.'' # fs @ ''Z'')
      = Some (Some (hs @ CHR '':'' # ns @ CHR '':'' # ss @ CHR ''.'' # fs, 0))"
    by (simp add: clock_and_offset_def butlast_append)
  have sp: "split_on CHR '':'' (hs @ CHR '':'' # ns @ CHR '':'' # ss @ CHR ''.'' # fs) = [hs, ns, ss @ CHR ''.'' # fs]"
    using free by (simp add: split_on_sep split_on_free)
  have fp: "fraction_pad fs = Some f"
    using assms(4,5) numeral_text_parses(1)[OF assms(4)]
    by (simp add: fraction_pad_def numeral_text_def list_all_iff)
  have "time_of_parts [hs, ns, ss @ CHR ''.'' # fs] = Some (h * 3600000 + n * 60000 + s * 1000 + f)"
    using assms(6-8) free(3) fp
    by (simp add: time_of_parts_def minutes_of_def split_once_sep numeral_text_parses[OF assms(1)]
        numeral_text_parses[OF assms(2)] numeral_text_parses[OF assms(3)])
  then show ?thesis by (simp add: parse_time_with_offset_def cl sp)
qed

lemma trim_digit_Z:
  assumes "is_ascii_digit c"
  shows "trim (c # s @ ''Z'') = c # s @ ''Z''"
proof -
  have f: "space_prefix (c # s @ ''Z'') = 0"
    using assms by (auto simp: is_ascii_digit_def is_ascii_space_def wide_space_def split: list.splits)
  have b: "space_suffix (CHR ''Z'' # t) = 0" for t
    by (auto simp: is_ascii_space_def wide_space_def split: list.splits)
  have "trim_start (c # s @ ''Z'') = c # s @ ''Z''" unfolding trim_start_def by (rule trim_by_id) (simp only: f simp_thms)
  moreover have "trim_end (c # s @ ''Z'') = c # s @ ''Z''"
  proof -
    have "trim_by space_suffix (CHR ''Z'' # rev s @ [c]) = CHR ''Z'' # rev s @ [c]"
      by (rule trim_by_id) (simp only: b simp_thms)
    then show ?thesis by (simp add: trim_end_def)
  qed
  ultimately show ?thesis by (simp only: trim_def)
qed

lemma iso_round_trip:
  assumes "n < time_limit"
  shows "parse_iso_millis (iso_from_millis n) = Some (Some n)"
proof -
  define days where "days = int n div 86400000"
  define t where "t = int n mod 86400000"
  have n: "int n = days * 86400000 + t" and t: "0 \<le> t" "t < 86400000" and days: "0 \<le> days" "days < 2932897"
    using assms by (simp_all add: days_def t_def time_limit_def)
  obtain y mo d where ymd: "civil_from_days days = (y, mo, d)" by (cases "civil_from_days days") auto
  note civ = civil_round_trip[OF days(1) ymd]
  note tod = time_of_day[OF t]
  have small: "t div 3600000 \<le> 23" "t div 60000 mod 60 \<le> 59" "t div 1000 mod 60 \<le> 59"
  proof -
    have "t div 3600000 < 24" using t by linarith
    then show "t div 3600000 \<le> 23" by simp
    have "x mod 60 < 60" for x :: int by simp
    from this[of "t div 60000"] this[of "t div 1000"]
    show "t div 60000 mod 60 \<le> 59" "t div 1000 mod 60 \<le> 59" by linarith+
  qed
  have w: "wrap64 (int n) = int n" using assms by (intro wrap64_id) (simp_all add: time_limit_def)
  let ?date = "fmt_pad 4 y @ CHR ''-'' # fmt_pad 2 mo @ CHR ''-'' # fmt_pad 2 d"
  let ?clock = "fmt_pad 2 (t div 3600000) @ CHR '':'' # fmt_pad 2 (t div 60000 mod 60) @ CHR '':''
      # fmt_pad 2 (t div 1000 mod 60) @ CHR ''.'' # fmt_pad 3 (t mod 1000) @ ''Z''"
  have iso: "iso_from_millis n = ?date @ CHR ''T'' # ?clock"
    using ymd by (simp add: iso_from_millis_def w format_iso_def Let_def days_def[symmetric] t_def[symmetric])
  have nums: "numeral_text (fmt_pad 4 y) y" "numeral_text (fmt_pad 2 mo) mo" "numeral_text (fmt_pad 2 d) d"
    "numeral_text (fmt_pad 2 (t div 3600000)) (t div 3600000)"
    "numeral_text (fmt_pad 2 (t div 60000 mod 60)) (t div 60000 mod 60)"
    "numeral_text (fmt_pad 2 (t div 1000 mod 60)) (t div 1000 mod 60)"
    "numeral_text (fmt_pad 3 (t mod 1000)) (t mod 1000)"
    subgoal by (rule numeral_text_pads(1)) (use civ(3)[OF days(2)] in linarith)+
    subgoal by (rule numeral_text_pads(2)) (use civ(2) in linarith)+
    subgoal by (rule numeral_text_pads(2)) (use civ(2) in linarith)+
    subgoal by (rule numeral_text_pads(2)[OF tod(2,3)])
    subgoal by (rule numeral_text_pads(2)[OF tod(4,5)])
    subgoal by (rule numeral_text_pads(2)[OF tod(6,7)])
    subgoal by (rule numeral_text_pads(3)) simp_all
    done
  have l3: "length (fmt_pad 3 (t mod 1000)) = 3"
    using fmt_pad_parses(1)[of "t mod 1000" 2] by simp
  obtain c r where c: "fmt_pad 4 y = c # r" "is_ascii_digit c"
    using nums(1) by (cases "fmt_pad 4 y") (auto simp: numeral_text_def)
  have tr: "trim (iso_from_millis n) = iso_from_millis n"
    unfolding iso c(1) using trim_digit_Z[OF c(2)] by (metis append.assoc append_Cons)
  have so: "split_once CHR ''T'' (iso_from_millis n) = Some (?date, ?clock)"
    unfolding iso using numeral_text_free[OF nums(1) separators(3)] numeral_text_free[OF nums(2) separators(3)]
      numeral_text_free[OF nums(3) separators(3)] by (intro split_once_sep) auto
  have "parse_iso_millis (iso_from_millis n)
      = Some (Some (nat ((days * 24 * 60 * 60 * 1000 + (t div 3600000 * 3600000 + t div 60000 mod 60 * 60000
          + t div 1000 mod 60 * 1000 + t mod 1000) - 0) mod 2 ^ 64)))"
    by (simp only: parse_iso_millis_def tr so option.case prod.case option.map
        days_of_written_date[OF nums(1-3) civ(1)] time_of_written_clock[OF nums(4-7) l3 small])
  also have "days * 24 * 60 * 60 * 1000 + (t div 3600000 * 3600000 + t div 60000 mod 60 * 60000
          + t div 1000 mod 60 * 1000 + t mod 1000) - 0 = int n"
    using tod(1) n by (simp add: algebra_simps)
  finally show ?thesis using assms by (simp add: time_limit_def)
qed

end
