(* ===== verification/CronClaims.thy ===== *)
theory CronClaims
  imports CronJobs CronCalendar
begin

text \<open>
  What one operation does to a job file: what is read is well-formed, a mutation touches each file
  by itself, and a claim takes every due job once and leaves none due.
\<close>

section \<open>What is read\<close>

lemma read_nat_bound: "read_nat hi v = Some n \<Longrightarrow> n < hi"
  by (cases v) (auto simp: read_nat_def split: if_splits)

lemma read_option_nat_bound: "read_option (read_nat hi) v = Some r \<Longrightarrow> opt_below hi r"
  by (cases v) (auto simp: opt_below_def dest: read_nat_bound)

lemma schedule_of_json_wf: "schedule_of_json v = Some s \<Longrightarrow> opt_below (2 ^ 64) (sc_interval_ms s)"
  by (auto simp: schedule_of_json_def schedule_of_members_def read_member_def bind_eq_Some_conv
      dest!: read_option_nat_bound split: option.splits) (simp add: opt_below_def)

lemma read_required_schedule:
  "read_required ms k schedule_of_json = Some s \<Longrightarrow> opt_below (2 ^ 64) (sc_interval_ms s)"
  by (auto simp: read_required_def dest: schedule_of_json_wf split: option.splits)

lemma read_member_count: "read_member ms k (read_nat (2 ^ 64)) 0 = Some n \<Longrightarrow> n < 2 ^ 64"
  by (auto simp: read_member_def dest: read_nat_bound split: option.splits)

lemma job_of_members_parts:
  assumes "job_of_members ms = Some j"
  obtains s n where "read_required ms ''schedule'' schedule_of_json = Some s"
    and "read_member ms ''runCount'' (read_nat (2 ^ 64)) 0 = Some n"
    and "cj_schedule j = s" "cj_run_count j = n"
  using assms unfolding job_of_members_def bind_eq_Some_conv
  apply (elim exE conjE)
  apply (rule that)
     apply assumption
    apply assumption
   apply auto
  done

lemma job_of_json_wf:
  assumes "job_of_json v = Some j"
  shows "job_wf j"
proof -
  obtain ms where "job_of_members ms = Some j"
    using assms by (auto simp: job_of_json_def bind_eq_Some_conv)
  then obtain s n where s: "read_required ms ''schedule'' schedule_of_json = Some s"
    and n: "read_member ms ''runCount'' (read_nat (2 ^ 64)) 0 = Some n"
    and j: "cj_schedule j = s" "cj_run_count j = n"
    by (rule job_of_members_parts)
  show ?thesis using read_required_schedule[OF s] read_member_count[OF n] j by (simp add: job_wf_def)
qed

lemma read_state_wf: "list_all job_wf (js_jobs (read_jobs_state file))"
  by (auto simp: read_jobs_state_def list_all_iff List.map_filter_def dest: job_of_json_wf split: option.splits)

section \<open>The next run\<close>

text \<open>
  An instant from which the next run of a schedule is still a date before the year 10000: neither
  the end of the search window nor the interval goes past it.
\<close>

definition timely :: "nat \<Rightarrow> cron_schedule \<Rightarrow> bool" where
  "timely now schedule \<longleftrightarrow>
     now + 2 * search_window < time_limit
     \<and> (case sc_interval_ms schedule of None \<Rightarrow> True | Some i \<Rightarrow> now + i < time_limit)"

lemma window_end_timely: "timely now schedule \<Longrightarrow> window_end now < time_limit"
proof -
  assume "timely now schedule"
  then have "now + 2 * search_window < time_limit" by (simp add: timely_def)
  moreover have "window_end now = now div one_minute_ms * one_minute_ms + one_minute_ms + search_window"
    by (simp add: window_end_def)
  moreover have "one_minute_ms \<le> search_window" by (simp add: search_window_def one_minute_ms_def)
  moreover have "now div one_minute_ms * one_minute_ms \<le> now" by simp
  ultimately show ?thesis by linarith
qed

lemma next_run_is_later:
  assumes "next_run_at_for_schedule schedule now = Inr (Some n)" and "timely now schedule"
  shows "now < n \<and> n < time_limit"
proof (cases "sc_kind schedule")
  case KindOnce
  with assms(1) show ?thesis by (simp add: next_run_at_for_schedule_def)
next
  case KindInterval
  with assms obtain i where i: "sc_interval_ms schedule = Some i" "0 < i" "n = add_u64 now i" "now + i < time_limit"
    by (auto simp: next_run_at_for_schedule_def timely_def split: option.splits if_splits)
  then have "n = now + i" by (simp add: add_u64_def time_limit_def)
  with i show ?thesis by simp
next
  case KindCron
  then have r: "next_cron_run_after (sc_expression schedule) now = Inr n"
    using assms(1) by (auto simp: next_run_at_for_schedule_def map_sum_def split: sum.splits)
  have "now < time_limit" using assms(2) by (simp add: timely_def)
  from next_cron_run_cases[OF this, of "sc_expression schedule"] r have "n \<in> minutes_after now" by auto
  then show ?thesis using window_end_timely[OF assms(2)] by (simp add: minutes_after_def)
qed

lemma rolled_next_run_cases:
  assumes "timely now schedule"
  shows "case rolled_next_run schedule now of None \<Rightarrow> True
    | Some s \<Rightarrow> \<exists>n. s = iso_from_millis n \<and> now < n \<and> n < time_limit"
  using next_run_is_later[OF _ assms] by (auto simp: rolled_next_run_def split: sum.splits option.splits)

definition due_now :: "nat \<Rightarrow> cron_job \<Rightarrow> bool" where
  "due_now now job \<longleftrightarrow> is_due_job job now = Some True"

lemma claimed_job_not_due:
  assumes "timely claimed_at (cj_schedule job)" and "due_at \<le> claimed_at"
  shows "is_due_job (claimed_job claimed_at job) due_at = Some False"
    and "is_due_job (claimed_job claimed_at job\<lparr>cj_last_skipped_at := t\<rparr>) due_at = Some False"
  using rolled_next_run_cases[OF assms(1)] assms(2)
  by (auto simp: is_due_job_def claimed_job_def iso_round_trip split: option.splits)

section \<open>Mutating the files\<close>

definition paths_of :: "cron_env \<Rightarrow> cron_world \<Rightarrow> string list" where
  "paths_of env w =
     (if ce_artifact_mode env then map snd (cw_artifacts w)
      else case ce_file_path env of None \<Rightarrow> [] | Some path \<Rightarrow> [path])"

definition file_at :: "cron_world \<Rightarrow> string \<Rightarrow> cron_jobs_state" where
  "file_at w path = read_jobs_state (cw_files w path)"

text \<open>A store with a file, whose sessions have files of their own and whose writes succeed.\<close>

definition steady :: "cron_env \<Rightarrow> cron_world \<Rightarrow> bool" where
  "steady env w \<longleftrightarrow>
     (\<forall>n. ce_write_ok env n) \<and> (ce_artifact_mode env \<or> ce_file_path env \<noteq> None) \<and> distinct (paths_of env w)"

definition quiet :: "cron_world \<Rightarrow> cron_world \<Rightarrow> bool" where
  "quiet w w' \<longleftrightarrow>
     cw_files w' = cw_files w \<and> cw_artifacts w' = cw_artifacts w \<and> cw_draws w \<le> cw_draws w'"

lemma quiet_refl [simp]: "quiet w w"
  by (simp add: quiet_def)

lemma quiet_trans [trans]: "quiet w w' \<Longrightarrow> quiet w' w'' \<Longrightarrow> quiet w w''"
  by (auto simp: quiet_def)

text \<open>Everything but the files themselves: the registered sessions stay, ids are only drawn.\<close>

definition same_store :: "cron_world \<Rightarrow> cron_world \<Rightarrow> bool" where
  "same_store w w' \<longleftrightarrow> cw_artifacts w' = cw_artifacts w \<and> cw_draws w \<le> cw_draws w'"

lemma same_store_refl [simp]: "same_store w w"
  by (simp add: same_store_def)

lemma same_store_trans [trans]: "same_store w w' \<Longrightarrow> same_store w' w'' \<Longrightarrow> same_store w w''"
  by (auto simp: same_store_def)

lemma quiet_same_store: "quiet w w' \<Longrightarrow> same_store w w'"
  by (simp add: quiet_def same_store_def)

lemma quiet_file_at: "quiet w w' \<Longrightarrow> file_at w' p = file_at w p"
  by (simp add: quiet_def file_at_def)

lemma store_paths_run: "steady env w \<Longrightarrow> store_paths env w = (Inr (paths_of env w), w)"
  by (auto simp: store_paths_def steady_def paths_of_def mon_simps split: option.splits)

lemma read_jobs_run:
  "steady env w \<Longrightarrow> read_jobs env w = (Inr (concat (map (\<lambda>p. js_jobs (file_at w p)) (paths_of env w))), w)"
  by (simp add: read_jobs_def read_states_def mon_simps store_paths_run file_at_def comp_def)

lemma steady_cong:
  "steady env w \<Longrightarrow> same_store w w' \<Longrightarrow> steady env w' \<and> paths_of env w' = paths_of env w"
  by (simp add: steady_def paths_of_def same_store_def split: if_splits)

lemma notify_run:
  assumes "steady env w"
  shows "\<exists>w'. notify_if_changed env before w = (Inr (), w') \<and> quiet w w'"
  using read_jobs_run[OF assms]
  by (simp add: notify_if_changed_def mon_simps notify_heartbeat_change_def quiet_def)

text \<open>What one call of a mutator may do: fail with \<open>E\<close>, or give a result and a state with \<open>Q\<close>.\<close>

definition mutator_gives ::
    "(cron_jobs_state \<Rightarrow> cron_error \<Rightarrow> bool) \<Rightarrow> (cron_jobs_state \<Rightarrow> 'a \<Rightarrow> cron_jobs_state \<Rightarrow> bool)
     \<Rightarrow> (cron_jobs_state \<Rightarrow> ('a \<times> cron_jobs_state) cron_prog) \<Rightarrow> bool" where
  "mutator_gives E Q mutator \<longleftrightarrow>
     (\<forall>s w. list_all job_wf (js_jobs s) \<longrightarrow>
        (case mutator s w of
           (Inl e, w') \<Rightarrow> E s e \<and> quiet w w'
         | (Inr (out, s'), w') \<Rightarrow> Q s out s' \<and> quiet w w' \<and> list_all job_wf (js_jobs s')))"

lemma state_json_inj:
  "list_all job_wf (js_jobs s) \<Longrightarrow> list_all job_wf (js_jobs s') \<Longrightarrow> state_to_json s = state_to_json s' \<Longrightarrow> s = s'"
  by (metis state_json_roundtrip)

lemma file_at_wf: "list_all job_wf (js_jobs (file_at w p))"
  by (simp add: file_at_def read_state_wf)

text \<open>One file: read, mutate, write back if it changed.\<close>

lemma write_after_mutation:
  assumes "\<forall>n. ce_write_ok env n" and "list_all job_wf (js_jobs s')" and "quiet w w'"
  shows "\<exists>w''. (if state_to_json s' \<noteq> state_to_json (file_at w p) then write_jobs_state env p s' else ret ()) w' = (Inr (), w'')
    \<and> file_at w'' p = s' \<and> (\<forall>q. q \<noteq> p \<longrightarrow> cw_files w'' q = cw_files w q) \<and> same_store w w''"
proof (cases "state_to_json s' = state_to_json (file_at w p)")
  case True
  with state_json_inj[OF assms(2) file_at_wf] have "s' = file_at w p" by blast
  with True assms(3) show ?thesis by (simp add: mon_simps quiet_def file_at_def same_store_def)
next
  case False
  with assms show ?thesis
    by (simp add: mon_simps write_jobs_state_def quiet_def file_at_def state_json_roundtrip same_store_def)
qed

lemma mutate_paths_run:
  assumes mut: "mutator_gives E Q mutator" and ok: "\<forall>n. ce_write_ok env n"
  shows "distinct ps \<Longrightarrow>
    case mutate_paths env mutator ps w of
      (Inl e, w') \<Rightarrow> (\<exists>p \<in> set ps. E (file_at w p) e) \<and> same_store w w'
        \<and> (\<forall>q. q \<notin> set ps \<longrightarrow> cw_files w' q = cw_files w q)
        \<and> (\<forall>p. file_at w' p = file_at w p \<or> (\<exists>out. Q (file_at w p) out (file_at w' p)))
    | (Inr (outs, changed), w') \<Rightarrow>
        list_all2 (\<lambda>p out. Q (file_at w p) out (file_at w' p)) ps outs
        \<and> (\<forall>q. q \<notin> set ps \<longrightarrow> cw_files w' q = cw_files w q) \<and> same_store w w'"
proof (induction ps arbitrary: w)
  case Nil
  then show ?case by (simp add: mon_simps)
next
  case (Cons p ps)
  obtain r w1 where m: "mutator (file_at w p) w = (r, w1)" by (cases "mutator (file_at w p) w")
  note g = mut[unfolded mutator_gives_def, rule_format, OF file_at_wf[of w p], of w, unfolded m]
  have run: "mutate_paths env mutator (p # ps) w =
      (case r of Inl e \<Rightarrow> (Inl e, w1)
       | Inr (out, s') \<Rightarrow>
           (case (if state_to_json s' \<noteq> state_to_json (file_at w p) then write_jobs_state env p s' else ret ()) w1 of
              (Inl e, w2) \<Rightarrow> (Inl e, w2)
            | (Inr u, w2) \<Rightarrow>
                (case mutate_paths env mutator ps w2 of
                   (Inl e, w3) \<Rightarrow> (Inl e, w3)
                 | (Inr (outs, ch), w3) \<Rightarrow>
                     (Inr (out # outs, state_to_json s' \<noteq> state_to_json (file_at w p) \<or> ch), w3))))"
    by (simp add: mon_simps read_path_def file_at_def[symmetric] m split: sum.splits prod.splits)
  show ?case
  proof (cases r)
    case (Inl e)
    with g run show ?thesis by (auto simp: quiet_same_store quiet_file_at) (simp add: quiet_def)
  next
    case (Inr os)
    obtain out s' where os: "os = (out, s')" by (cases os)
    have q: "Q (file_at w p) out s'" "quiet w w1" "list_all job_wf (js_jobs s')" using g Inr os by auto
    obtain w2 where w2: "(if state_to_json s' \<noteq> state_to_json (file_at w p) then write_jobs_state env p s' else ret ()) w1
        = (Inr (), w2)" "file_at w2 p = s'" "\<forall>q. q \<noteq> p \<longrightarrow> cw_files w2 q = cw_files w q" "same_store w w2"
      using write_after_mutation[OF ok q(3,2)] by blast
    have other: "file_at w2 q = file_at w q" if "q \<noteq> p" for q
      using w2(3) that by (auto simp: file_at_def)
    have same: "file_at w2 q = file_at w q" if "q \<in> set ps" for q
      using other[of q] Cons.prems that by (cases "q = p") auto
    note ih = Cons.IH[of w2]
    obtain r3 w3 where m3: "mutate_paths env mutator ps w2 = (r3, w3)" by (cases "mutate_paths env mutator ps w2")
    show ?thesis
    proof (cases r3)
      case (Inl e)
      with ih Cons.prems m3 have f: "\<exists>q \<in> set ps. E (file_at w2 q) e" "same_store w2 w3"
        "\<forall>q. q \<notin> set ps \<longrightarrow> cw_files w3 q = cw_files w2 q"
        "\<forall>q. file_at w3 q = file_at w2 q \<or> (\<exists>out. Q (file_at w2 q) out (file_at w3 q))" by simp_all
      then have "\<exists>q \<in> set ps. E (file_at w q) e" using same by auto
      moreover have "same_store w w3" using w2(4) f(2) by (rule same_store_trans)
      moreover have "file_at w3 p = s'" using f(3) Cons.prems w2(2) by (simp add: file_at_def)
      then have "\<forall>q. file_at w3 q = file_at w q \<or> (\<exists>out. Q (file_at w q) out (file_at w3 q))"
        using q(1) f(4) other by metis
      moreover have "\<forall>q. q \<notin> set (p # ps) \<longrightarrow> cw_files w3 q = cw_files w q" using f(3) w2(3) by simp
      moreover have "mutate_paths env mutator (p # ps) w = (Inl e, w3)"
        unfolding run Inr os sum.case prod.case w2(1) m3 Inl ..
      ultimately show ?thesis by simp
    next
      case (Inr oc)
      obtain outs ch where oc: "oc = (outs, ch)" by (cases oc)
      have l: "list_all2 (\<lambda>q out. Q (file_at w2 q) out (file_at w3 q)) ps outs"
        and f: "\<forall>q. q \<notin> set ps \<longrightarrow> cw_files w3 q = cw_files w2 q" and a: "same_store w2 w3"
        using ih Cons.prems m3 Inr oc by auto
      have "file_at w3 p = s'" using f Cons.prems w2(2) by (simp add: file_at_def)
      moreover have "list_all2 (\<lambda>q out. Q (file_at w q) out (file_at w3 q)) ps outs"
        using l same by (auto simp: list_all2_conv_all_nth)
      moreover have "mutate_paths env mutator (p # ps) w
          = (Inr (out # outs, state_to_json s' \<noteq> state_to_json (file_at w p) \<or> ch), w3)"
        unfolding run \<open>r = Inr os\<close> os sum.case prod.case w2(1) m3 Inr oc ..
      ultimately show ?thesis using q(1) f same_store_trans[OF w2(4) a] w2(3) by auto
    qed
  qed
qed

lemma mutate_states_run:
  assumes mut: "mutator_gives E Q mutator" and st: "steady env w"
  shows "case mutate_states env mutator w of
      (Inl e, w') \<Rightarrow> (\<exists>p \<in> set (paths_of env w). E (file_at w p) e) \<and> same_store w w'
        \<and> (\<forall>p. file_at w' p = file_at w p \<or> (\<exists>out. Q (file_at w p) out (file_at w' p)))
    | (Inr outs, w') \<Rightarrow>
        list_all2 (\<lambda>p out. Q (file_at w p) out (file_at w' p)) (paths_of env w) outs
        \<and> (\<forall>q. q \<notin> set (paths_of env w) \<longrightarrow> cw_files w' q = cw_files w q) \<and> same_store w w'"
proof -
  have ok: "\<forall>n. ce_write_ok env n" and d: "distinct (paths_of env w)" using st by (auto simp: steady_def)
  note mp = mutate_paths_run[OF mut ok d, of w]
  obtain r w1 where m: "mutate_paths env mutator (paths_of env w) w = (r, w1)"
    by (cases "mutate_paths env mutator (paths_of env w) w")
  show ?thesis
  proof (cases r)
    case (Inl e)
    with mp m show ?thesis by (simp add: mutate_states_def mon_simps store_paths_run[OF st] read_jobs_run[OF st])
  next
    case (Inr oc)
    obtain outs ch where oc: "oc = (outs, ch)" by (cases oc)
    have a: "same_store w w1" using mp m Inr oc by simp
    note s1 = steady_cong[OF st a]
    obtain w2 where n: "(if ch then notify_if_changed env (concat (map (\<lambda>p. js_jobs (file_at w p)) (paths_of env w)))
        else ret ()) w1 = (Inr (), w2)" "quiet w1 w2"
      using notify_run[of env w1] s1 by (cases ch) (auto simp: mon_simps)
    have "mutate_states env mutator w = (Inr outs, w2)"
      by (simp add: mutate_states_def mon_simps store_paths_run[OF st] read_jobs_run[OF st] m Inr oc)
        (use n(1) in \<open>auto simp: mon_simps split: if_splits\<close>)
    moreover have "same_store w w2" using same_store_trans[OF a quiet_same_store[OF n(2)]] .
    ultimately show ?thesis
      using mp m Inr oc n(2) by (simp add: quiet_file_at) (simp add: quiet_def)
  qed
qed

section \<open>Claiming\<close>

definition claim_form :: "string set \<Rightarrow> nat \<Rightarrow> nat \<Rightarrow> cron_job \<Rightarrow> cron_job" where
  "claim_form claimed due_at claimed_at job =
     (if \<not> due_now due_at job then job
      else if cj_id job \<in> claimed
           then claimed_job claimed_at job\<lparr>cj_last_skipped_at := Some (iso_from_millis claimed_at)\<rparr>
           else claimed_job claimed_at job)"

definition to_dispatch :: "string set \<Rightarrow> nat \<Rightarrow> cron_job list \<Rightarrow> cron_job list" where
  "to_dispatch claimed due_at jobs = filter (\<lambda>j. due_now due_at j \<and> cj_id j \<notin> claimed) jobs"

lemma claim_loop_run:
  "case claim_loop env claimed due_at claimed_at jobs w of
     (Inl e, w') \<Rightarrow> e = CronPanic \<and> (\<exists>j \<in> set jobs. is_due_job j due_at = None) \<and> quiet w w'
   | (Inr (js, records, ds), w') \<Rightarrow>
       js = map (claim_form claimed due_at claimed_at) jobs
       \<and> map cd_job ds = map (claimed_job claimed_at) (to_dispatch claimed due_at jobs)
       \<and> map dp_job_id records = map cj_id (to_dispatch claimed due_at jobs)
       \<and> map dp_id records = map cd_id ds \<and> quiet w w' \<and> (\<forall>j \<in> set jobs. is_due_job j due_at \<noteq> None)"
proof (induction jobs arbitrary: w)
  case Nil
  then show ?case by (simp add: mon_simps to_dispatch_def)
next
  case (Cons job jobs)
  show ?case
  proof (cases "is_due_job job due_at")
    case None
    then show ?thesis by (simp add: mon_simps or_panic_def)
  next
    case (Some d)
    define w1 where "w1 = (if d \<and> cj_id job \<notin> claimed then w\<lparr>cw_draws := Suc (cw_draws w)\<rparr> else w)"
    obtain r w2 where m: "claim_loop env claimed due_at claimed_at jobs w1 = (r, w2)"
      by (cases "claim_loop env claimed due_at claimed_at jobs w1")
    note ih = Cons.IH[of w1, unfolded m]
    have q: "quiet w w1" by (simp add: w1_def quiet_def)
    show ?thesis
    proof (cases r)
      case (Inl e)
      have "claim_loop env claimed due_at claimed_at (job # jobs) w = (Inl e, w2)"
        using m Inl Some by (auto simp: mon_simps or_panic_def new_job_id_def Let_def w1_def)
      with ih Inl q show ?thesis by (auto intro: quiet_trans)
    next
      case (Inr t)
      obtain js records ds where t: "t = (js, records, ds)" by (cases t)
      from ih Inr t q show ?thesis
        using m Some
        by (cases d; cases "cj_id job \<in> claimed")
          (auto simp: mon_simps or_panic_def new_job_id_def Let_def w1_def due_now_def claim_form_def
            to_dispatch_def claimed_job_def quiet_def)
    qed
  qed
qed

definition claimed_state :: "nat \<Rightarrow> nat \<Rightarrow> cron_jobs_state \<Rightarrow> cron_dispatch list \<Rightarrow> cron_jobs_state \<Rightarrow> bool" where
  "claimed_state due_at claimed_at s ds s' \<longleftrightarrow>
     (let claimed = set (map dp_job_id (js_dispatches s)) in
      (\<forall>j \<in> set (js_jobs s). is_due_job j due_at \<noteq> None)
      \<and> js_jobs s' = map (claim_form claimed due_at claimed_at) (js_jobs s)
      \<and> map cd_job ds = map (claimed_job claimed_at) (to_dispatch claimed due_at (js_jobs s))
      \<and> (\<exists>records. js_dispatches s' = js_dispatches s @ records
            \<and> map dp_job_id records = map cj_id (to_dispatch claimed due_at (js_jobs s))
            \<and> map dp_id records = map cd_id ds))"

lemma claim_form_wf: "job_wf j \<Longrightarrow> job_wf (claim_form c d a j)"
  by (simp add: claim_form_def claimed_job_def job_wf_def)

lemma claim_mutator:
  "mutator_gives (\<lambda>s e. e = CronPanic \<and> (\<exists>j \<in> set (js_jobs s). is_due_job j due_at = None))
     (claimed_state due_at claimed_at) (claim_due_in_state env due_at claimed_at)"
  unfolding mutator_gives_def
proof (intro allI impI)
  fix s :: cron_jobs_state and w
  assume wf: "list_all job_wf (js_jobs s)"
  let ?c = "set (map dp_job_id (js_dispatches s))"
  obtain r w' where m: "claim_loop env ?c due_at claimed_at (js_jobs s) w = (r, w')"
    by (cases "claim_loop env ?c due_at claimed_at (js_jobs s) w")
  note run = claim_loop_run[where env = env and claimed = ?c and due_at = due_at and claimed_at = claimed_at
      and jobs = "js_jobs s" and w = w, unfolded m]
  show "case claim_due_in_state env due_at claimed_at s w of
      (Inl e, w') \<Rightarrow> (e = CronPanic \<and> (\<exists>j \<in> set (js_jobs s). is_due_job j due_at = None)) \<and> quiet w w'
    | (Inr (out, s'), w') \<Rightarrow> claimed_state due_at claimed_at s out s' \<and> quiet w w' \<and> list_all job_wf (js_jobs s')"
  proof (cases r)
    case (Inl e)
    with run m show ?thesis by (simp add: claim_due_in_state_def mon_simps)
  next
    case (Inr t)
    obtain js records ds where t: "t = (js, records, ds)" by (cases t)
    with run m Inr wf show ?thesis
      by (simp add: claim_due_in_state_def mon_simps claimed_state_def Let_def list_all_iff claim_form_wf)
  qed
qed

lemma claimed_state_idle:
  assumes "claimed_state due_at claimed_at s ds s'" and "due_at \<le> claimed_at"
    and "\<forall>j \<in> set (js_jobs s). timely claimed_at (cj_schedule j)"
  shows "\<forall>j \<in> set (js_jobs s'). is_due_job j due_at = Some False"
proof
  fix j' assume "j' \<in> set (js_jobs s')"
  then obtain j where j: "j \<in> set (js_jobs s)"
    and j': "j' = claim_form (set (map dp_job_id (js_dispatches s))) due_at claimed_at j"
    using assms(1) by (auto simp: claimed_state_def Let_def)
  from j assms(1,3) have t: "timely claimed_at (cj_schedule j)" and n: "is_due_job j due_at \<noteq> None"
    by (auto simp: claimed_state_def Let_def)
  show "is_due_job j' due_at = Some False"
    using claimed_job_not_due[OF t assms(2)] n unfolding j' claim_form_def due_now_def by auto
qed

lemma claimed_state_distinct:
  assumes "claimed_state due_at claimed_at s ds s'"
    and "distinct (map cj_id (js_jobs s))" and "distinct (map dp_job_id (js_dispatches s))"
  shows "distinct (map cj_id (js_jobs s'))" and "distinct (map dp_job_id (js_dispatches s'))"
proof -
  have "cj_id \<circ> claim_form c d a = cj_id" for c d a
    by (auto simp: claim_form_def claimed_job_def)
  then show "distinct (map cj_id (js_jobs s'))" using assms(1,2) by (simp add: claimed_state_def Let_def)
  let ?c = "set (map dp_job_id (js_dispatches s))"
  have "distinct (map cj_id (to_dispatch ?c due_at (js_jobs s)))"
    using assms(2) by (simp add: to_dispatch_def distinct_map_filter)
  moreover have "set (map cj_id (to_dispatch ?c due_at (js_jobs s))) \<inter> ?c = {}"
    by (auto simp: to_dispatch_def)
  ultimately show "distinct (map dp_job_id (js_dispatches s'))"
    using assms(1,3) unfolding claimed_state_def Let_def by fastforce
qed

end
