(* ===== verification/CronMoves.thy ===== *)
theory CronMoves
  imports CronClaims "HOL-Library.Multiset"
begin

text \<open>
  How a job of the store can change: it keeps its id, a cancelled job stays cancelled, a closed one
  (completed or cancelled) stays closed. Every operation of the store, whether it mutates the files
  one by one or writes a new list of jobs, moves the jobs that way and keeps their ids apart.
\<close>

section \<open>Moves\<close>

definition closed :: "cron_job \<Rightarrow> bool" where
  "closed j \<longleftrightarrow> cj_status j = JobCancelled \<or> cj_status j = JobCompleted"

definition keeps_job :: "cron_job \<Rightarrow> cron_job \<Rightarrow> bool" where
  "keeps_job j k \<longleftrightarrow>
     cj_id k = cj_id j \<and> (cj_status j = JobCancelled \<longrightarrow> cj_status k = JobCancelled)
     \<and> (closed j \<longrightarrow> closed k) \<and> (job_wf j \<longrightarrow> job_wf k)"

lemma keeps_job_refl [simp]: "keeps_job j j"
  by (simp add: keeps_job_def)

lemma keeps_job_trans: "keeps_job j k \<Longrightarrow> keeps_job k l \<Longrightarrow> keeps_job j l"
  by (auto simp: keeps_job_def)

definition jobs_of :: "cron_env \<Rightarrow> cron_world \<Rightarrow> cron_job list" where
  "jobs_of env w = concat (map (\<lambda>p. js_jobs (file_at w p)) (paths_of env w))"

text \<open>The ids of the jobs are apart, from each other and from those still to be drawn.\<close>

definition ids_apart :: "cron_env \<Rightarrow> cron_world \<Rightarrow> bool" where
  "ids_apart env w \<longleftrightarrow>
     distinct (map cj_id (jobs_of env w)) \<and> (\<forall>j \<in> set (jobs_of env w). \<forall>n \<ge> cw_draws w. cj_id j \<noteq> ce_uuid env n)"

text \<open>A hash map lists its values in some order; an id is drawn once.\<close>

definition orderly :: "cron_env \<Rightarrow> bool" where
  "orderly env \<longleftrightarrow> (\<forall>n xs. mset (ce_order env n xs) = mset xs) \<and> inj (ce_uuid env)"

definition settled_store :: "cron_env \<Rightarrow> cron_world \<Rightarrow> bool" where
  "settled_store env w \<longleftrightarrow> steady env w \<and> distinct (map fst (cw_artifacts w)) \<and> orderly env \<and> ids_apart env w"

definition moved :: "cron_env \<Rightarrow> cron_world \<Rightarrow> cron_world \<Rightarrow> bool" where
  "moved env w w' \<longleftrightarrow>
     settled_store env w' \<and> same_store w w' \<and> (\<forall>j \<in> set (jobs_of env w). \<exists>k \<in> set (jobs_of env w'). keeps_job j k)"

lemma moved_trans_store: "moved env w w' \<Longrightarrow> moved env w' w'' \<Longrightarrow> moved env w w''"
  unfolding moved_def using same_store_trans keeps_job_trans by meson

lemma jobs_of_cong:
  "steady env w \<Longrightarrow> same_store w w' \<Longrightarrow> (\<And>p. p \<in> set (paths_of env w) \<Longrightarrow> file_at w' p = file_at w p) \<Longrightarrow>
    jobs_of env w' = jobs_of env w"
  using steady_cong[of env w w'] by (simp add: jobs_of_def cong: map_cong)

lemma settled_keeps:
  assumes "settled_store env w" and "same_store w w'" and "distinct (map cj_id (jobs_of env w'))"
    and "\<forall>k \<in> set (jobs_of env w'). cj_id k \<in> cj_id ` set (jobs_of env w)
          \<or> (\<exists>n < cw_draws w'. cj_id k = ce_uuid env n)"
  shows "settled_store env w'"
proof -
  have "cj_id k \<noteq> ce_uuid env n" if k: "k \<in> set (jobs_of env w')" and n: "cw_draws w' \<le> n" for k n
  proof (cases "cj_id k \<in> cj_id ` set (jobs_of env w)")
    case True
    moreover have "cw_draws w \<le> n" using n assms(2) by (simp add: same_store_def)
    ultimately show ?thesis using assms(1) unfolding settled_store_def ids_apart_def by (metis imageE)
  next
    case False
    then obtain m where "m < cw_draws w'" "cj_id k = ce_uuid env m" using assms(4) k by blast
    moreover have "inj (ce_uuid env)" using assms(1) by (simp add: settled_store_def orderly_def)
    then have "m \<noteq> n \<longrightarrow> ce_uuid env m \<noteq> ce_uuid env n" by (simp add: inj_eq)
    ultimately show ?thesis using n by auto
  qed
  moreover have "cw_artifacts w' = cw_artifacts w" using assms(2) by (simp add: same_store_def)
  ultimately show ?thesis
    using assms steady_cong[OF _ assms(2), of env] by (auto simp: settled_store_def ids_apart_def)
qed

lemma quiet_moved: "settled_store env w \<Longrightarrow> quiet w w' \<Longrightarrow> moved env w w'"
  using jobs_of_cong[of env w w'] settled_keeps[of env w w'] quiet_same_store[of w w'] quiet_file_at[of w w']
  by (force simp: moved_def settled_store_def ids_apart_def)

section \<open>Mutations of the files\<close>

text \<open>A mutation that keeps the ids of a file in place and moves each job.\<close>

definition jobs_moved :: "cron_jobs_state \<Rightarrow> cron_jobs_state \<Rightarrow> bool" where
  "jobs_moved s s' \<longleftrightarrow> list_all2 keeps_job (js_jobs s) (js_jobs s')"

lemma jobs_moved_ids: "jobs_moved s s' \<Longrightarrow> map cj_id (js_jobs s') = map cj_id (js_jobs s)"
  unfolding jobs_moved_def by (induction rule: list_all2_induct) (simp_all add: keeps_job_def)

lemma jobs_moved_wf: "jobs_moved s s' \<Longrightarrow> list_all job_wf (js_jobs s) \<Longrightarrow> list_all job_wf (js_jobs s')"
  unfolding jobs_moved_def by (induction rule: list_all2_induct) (simp_all add: keeps_job_def)

lemma jobs_moved_refl [simp]: "jobs_moved s s"
  by (simp add: jobs_moved_def list_all2_refl)

lemma files_moved:
  assumes "settled_store env w" and "same_store w w'"
    and "\<And>p. p \<in> set (paths_of env w) \<Longrightarrow> jobs_moved (file_at w p) (file_at w' p)"
  shows "moved env w w'"
proof -
  have ps: "paths_of env w' = paths_of env w"
    using assms(1) steady_cong[OF _ assms(2)] by (simp add: settled_store_def)
  have ids: "map cj_id (jobs_of env w') = map cj_id (jobs_of env w)"
    unfolding jobs_of_def ps map_concat map_map comp_def
    using jobs_moved_ids[OF assms(3)] by (metis (no_types, lifting) map_eq_conv)
  have "\<exists>k \<in> set (jobs_of env w'). keeps_job j k" if j: "j \<in> set (jobs_of env w)" for j
  proof -
    obtain p where p: "p \<in> set (paths_of env w)" "j \<in> set (js_jobs (file_at w p))"
      using j by (auto simp: jobs_of_def)
    then obtain k where "k \<in> set (js_jobs (file_at w' p))" "keeps_job j k"
      using assms(3)[OF p(1)] unfolding jobs_moved_def by (metis in_set_conv_nth list_all2_conv_all_nth)
    with p(1) show ?thesis by (auto simp: jobs_of_def ps)
  qed
  moreover have "settled_store env w'"
  proof (rule settled_keeps[OF assms(1,2)])
    show "distinct (map cj_id (jobs_of env w'))"
      using assms(1) unfolding ids by (simp add: settled_store_def ids_apart_def)
    show "\<forall>k \<in> set (jobs_of env w'). cj_id k \<in> cj_id ` set (jobs_of env w) \<or> (\<exists>n < cw_draws w'. cj_id k = ce_uuid env n)"
      using ids by (metis image_eqI set_map)
  qed
  ultimately show ?thesis using assms(2) by (simp add: moved_def)
qed

lemma mutate_moved:
  assumes mut: "mutator_gives E Q mutator" and q: "\<And>s out s'. Q s out s' \<Longrightarrow> jobs_moved s s'"
    and st: "settled_store env w"
  shows "moved env w (snd (mutate_states env mutator w))"
proof -
  obtain r w' where m: "mutate_states env mutator w = (r, w')" by (cases "mutate_states env mutator w")
  have s: "steady env w" using st by (simp add: settled_store_def)
  note run = mutate_states_run[OF mut s, unfolded m]
  have "same_store w w'" using run by (cases r) auto
  moreover have "jobs_moved (file_at w p) (file_at w' p)" if pin: "p \<in> set (paths_of env w)" for p
  proof (cases r)
    case (Inl e)
    then have "file_at w' p = file_at w p \<or> (\<exists>out. Q (file_at w p) out (file_at w' p))" using run by simp
    with q show ?thesis by auto
  next
    case (Inr outs)
    then have "list_all2 (\<lambda>p out. Q (file_at w p) out (file_at w' p)) (paths_of env w) outs" using run by simp
    then obtain out where "Q (file_at w p) out (file_at w' p)"
      using pin by (auto simp: list_all2_conv_all_nth in_set_conv_nth)
    with q show ?thesis by blast
  qed
  ultimately show ?thesis using files_moved[OF st] m by simp
qed

section \<open>Merging and writing\<close>

lemma put_job_set: "set (put_job job ms) \<subseteq> insert job (set ms)"
  by (auto simp: put_job_def)

lemma put_job_ids: "cj_id ` set (put_job job ms) = insert (cj_id job) (cj_id ` set ms)"
proof (cases "\<exists>c \<in> set ms. cj_id c = cj_id job")
  case True
  have "cj_id ` (\<lambda>c. if cj_id c = cj_id job then job else c) ` set ms = cj_id ` set ms"
    unfolding image_image by (rule image_cong) auto
  with True show ?thesis by (auto simp: put_job_def)
qed (simp add: put_job_def)

lemma put_job_distinct: "distinct (map cj_id ms) \<Longrightarrow> distinct (map cj_id (put_job job ms))"
proof -
  assume d: "distinct (map cj_id ms)"
  have "map cj_id (map (\<lambda>c. if cj_id c = cj_id job then job else c) ms) = map cj_id ms" by simp
  with d show ?thesis by (simp add: put_job_def del: map_map) (force simp: image_iff)
qed

lemma put_job_fresh: "cj_id job \<notin> cj_id ` set ms \<Longrightarrow> put_job job ms = ms @ [job]"
  unfolding put_job_def by (metis image_eqI)

lemma fold_put_distinct:
  "distinct (map cj_id (ms @ xs)) \<Longrightarrow> fold put_job xs ms = ms @ xs"
proof (induction xs arbitrary: ms)
  case (Cons x xs)
  have "put_job x ms = ms @ [x]" using Cons.prems by (intro put_job_fresh) auto
  with Cons.IH[of "ms @ [x]"] Cons.prems show ?case by simp
qed simp

lemma merge_next_props:
  assumes "merge_next ms xs = Some out" and "distinct (map cj_id ms)"
  shows "distinct (map cj_id out) \<and> cj_id ` set out = cj_id ` set ms \<union> cj_id ` set xs \<and> set out \<subseteq> set ms \<union> set xs"
  using assms
proof (induction xs arbitrary: ms)
  case (Cons x xs)
  from Cons.prems(1) obtain fresh where f: "(case find (\<lambda>c. cj_id c = cj_id x) ms of None \<Rightarrow> Some True
      | Some current \<Rightarrow> is_at_least_as_fresh x current) = Some fresh"
    and m: "merge_next (if fresh then put_job x ms else ms) xs = Some out" by (auto split: option.splits)
  have ids: "cj_id x \<in> cj_id ` set ms" if "\<not> fresh"
    using f that by (auto simp: find_Some_iff split: option.splits) (metis image_eqI nth_mem)
  have "distinct (map cj_id (if fresh then put_job x ms else ms))"
    using Cons.prems(2) put_job_distinct by simp
  from Cons.IH[OF m this] ids show ?case
    using put_job_set[of x ms] put_job_ids[of x ms] by (cases fresh) auto
qed simp

text \<open>
  A list of jobs that an operation may write: it covers the jobs of the store, moves each, and what
  it adds has a fresh id.
\<close>

definition may_write :: "cron_env \<Rightarrow> cron_world \<Rightarrow> cron_job list \<Rightarrow> bool" where
  "may_write env w xs \<longleftrightarrow>
     distinct (map cj_id xs) \<and> list_all job_wf xs \<and> cj_id ` set (jobs_of env w) \<subseteq> cj_id ` set xs
     \<and> (\<forall>k \<in> set xs. (\<exists>j \<in> set (jobs_of env w). keeps_job j k)
          \<or> (cj_id k \<notin> cj_id ` set (jobs_of env w) \<and> (\<exists>n < cw_draws w. cj_id k = ce_uuid env n)))"

text \<open>Writing moves the store when each file gets jobs that were in it or in the list, once each.\<close>

lemma written_moved:
  assumes st: "settled_store env w" and xs: "may_write env w xs" and same: "same_store w w'"
    and d: "distinct (map cj_id (jobs_of env w'))"
    and sub: "set (jobs_of env w') \<subseteq> set (jobs_of env w) \<union> set xs"
    and cover: "cj_id ` set (jobs_of env w) \<subseteq> cj_id ` set (jobs_of env w')"
  shows "moved env w w'"
proof -
  have draws: "cw_draws w \<le> cw_draws w'" using same by (simp add: same_store_def)
  have "cj_id k \<in> cj_id ` set (jobs_of env w) \<or> (\<exists>n < cw_draws w'. cj_id k = ce_uuid env n)"
    if "k \<in> set (jobs_of env w')" for k
  proof (cases "k \<in> set (jobs_of env w)")
    case False
    with sub that have "k \<in> set xs" by blast
    then have "(\<exists>j \<in> set (jobs_of env w). keeps_job j k) \<or> (\<exists>n < cw_draws w. cj_id k = ce_uuid env n)"
      using xs unfolding may_write_def by blast
    then show ?thesis
    proof
      assume "\<exists>j \<in> set (jobs_of env w). keeps_job j k"
      then show ?thesis unfolding keeps_job_def by (metis image_eqI)
    next
      assume "\<exists>n < cw_draws w. cj_id k = ce_uuid env n"
      with draws show ?thesis by (meson less_le_trans)
    qed
  qed simp
  then have "settled_store env w'" using settled_keeps[OF st same d] by blast
  moreover have "\<exists>k \<in> set (jobs_of env w'). keeps_job j k" if j: "j \<in> set (jobs_of env w)" for j
  proof -
    obtain k where k: "k \<in> set (jobs_of env w')" "cj_id k = cj_id j" using cover j by (metis imageE image_eqI subsetD)
    have uniq: "i = j" if "i \<in> set (jobs_of env w)" "cj_id i = cj_id j" for i
      using st that j by (simp add: settled_store_def ids_apart_def distinct_map inj_on_def)
    have "keeps_job j k"
    proof (cases "k \<in> set (jobs_of env w)")
      case True
      with uniq[of k] k(2) show ?thesis by simp
    next
      case False
      with sub k have "k \<in> set xs" by blast
      moreover have "cj_id k \<in> cj_id ` set (jobs_of env w)" using k(2) j by simp
      ultimately obtain i where i: "i \<in> set (jobs_of env w)" "keeps_job i k"
        using xs unfolding may_write_def by blast
      have "cj_id i = cj_id j" using i(2) k(2) unfolding keeps_job_def by argo
      with uniq[OF i(1)] i(2) show ?thesis by simp
    qed
    with k(1) show ?thesis by blast
  qed
  ultimately show ?thesis using same by (simp add: moved_def)
qed

end
