(* ===== verification/CronWrites.thy ===== *)
theory CronWrites
  imports CronMoves
begin

text \<open>
  \<open>write_jobs\<close>: the list of the jobs is merged into the one file, or split over the files of the
  sessions. Either way the store moves.
\<close>

section \<open>One file\<close>

lemma merge_fresh_run:
  assumes "orderly env" and "distinct (map cj_id cur)"
  shows "case merge_fresh_jobs env cur xs w of
      (Inl e, w') \<Rightarrow> w' = w
    | (Inr out, w') \<Rightarrow> quiet w w' \<and> distinct (map cj_id out)
        \<and> cj_id ` set out = cj_id ` set cur \<union> cj_id ` set xs \<and> set out \<subseteq> set cur \<union> set xs"
proof (cases "merge_next cur xs")
  case None
  then show ?thesis using assms(2) by (simp add: merge_fresh_jobs_def mon_simps or_panic_def fold_put_distinct)
next
  case (Some m)
  have o: "mset (ce_order env (cw_merges w) m) = mset m" using assms(1) by (simp add: orderly_def)
  have s: "set (ce_order env (cw_merges w) m) = set m" using o by (rule mset_eq_setD)
  have "mset (map cj_id (ce_order env (cw_merges w) m)) = mset (map cj_id m)" using o by simp
  then have "distinct (map cj_id (ce_order env (cw_merges w) m)) = distinct (map cj_id m)"
    by (rule mset_eq_imp_distinct_iff)
  with merge_next_props[OF Some assms(2)] s Some assms(2) show ?thesis
    by (simp add: merge_fresh_jobs_def mon_simps or_panic_def fold_put_distinct quiet_def)
qed

lemma write_state_run:
  assumes "\<forall>n. ce_write_ok env n" and "list_all job_wf (js_jobs s)"
  shows "\<exists>w'. write_jobs_state env p s w = (Inr (), w') \<and> file_at w' p = s
    \<and> (\<forall>q. q \<noteq> p \<longrightarrow> cw_files w' q = cw_files w q) \<and> same_store w w'"
  using assms by (simp add: write_jobs_state_def mon_simps file_at_def state_json_roundtrip same_store_def)

lemma store_file_moved:
  assumes st: "settled_store env w" and xs: "may_write env w xs"
    and mode: "\<not> ce_artifact_mode env" "ce_file_path env = Some p"
  shows "moved env w (snd (write_jobs_file env p xs w))"
proof -
  have ps: "paths_of env v = [p]" for v using mode by (simp add: paths_of_def)
  have jobs: "jobs_of env v = js_jobs (file_at v p)" for v by (simp add: jobs_of_def ps)
  have d: "distinct (map cj_id (js_jobs (file_at w p)))"
    using st by (simp add: settled_store_def ids_apart_def jobs)
  obtain r w1 where m: "merge_fresh_jobs env (js_jobs (file_at w p)) xs w = (r, w1)"
    by (cases "merge_fresh_jobs env (js_jobs (file_at w p)) xs w")
  have "orderly env" using st by (simp add: settled_store_def)
  note run = merge_fresh_run[where w = w and xs = xs, OF this d, unfolded m]
  show ?thesis
  proof (cases r)
    case (Inl e)
    with run m have "snd (write_jobs_file env p xs w) = w"
      by (simp add: write_jobs_file_def read_path_def mon_simps file_at_def[symmetric])
    with quiet_moved[OF st quiet_refl] show ?thesis by simp
  next
    case (Inr out)
    have q: "quiet w w1" using run Inr by simp
    have wf: "list_all job_wf out"
      using run Inr xs file_at_wf[of w p] by (auto simp: list_all_iff may_write_def)
    have ok: "\<forall>n. ce_write_ok env n" using st by (simp add: settled_store_def steady_def)
    obtain w2 where w2: "write_jobs_state env p \<lparr>js_jobs = out, js_dispatches = js_dispatches (file_at w p)\<rparr> w1 = (Inr (), w2)"
      "file_at w2 p = \<lparr>js_jobs = out, js_dispatches = js_dispatches (file_at w p)\<rparr>" "same_store w1 w2"
      using write_state_run[OF ok, of "\<lparr>js_jobs = out, js_dispatches = js_dispatches (file_at w p)\<rparr>" p w1] wf by auto
    have "snd (write_jobs_file env p xs w) = w2"
      using m Inr w2(1) by (simp add: write_jobs_file_def read_path_def mon_simps file_at_def[symmetric])
    moreover have "moved env w w2"
    proof (rule written_moved[OF st xs same_store_trans[OF quiet_same_store[OF q] w2(3)]])
      show "distinct (map cj_id (jobs_of env w2))" "set (jobs_of env w2) \<subseteq> set (jobs_of env w) \<union> set xs"
        "cj_id ` set (jobs_of env w) \<subseteq> cj_id ` set (jobs_of env w2)"
        using run Inr w2(2) by (auto simp: jobs)
    qed
    ultimately show ?thesis by simp
  qed
qed

section \<open>The files of the sessions\<close>

definition retained :: "cron_job list \<Rightarrow> string \<Rightarrow> cron_job list \<Rightarrow> cron_job list" where
  "retained xs session_id cur =
     filter (\<lambda>j. case incoming_session xs (cj_id j) of None \<Rightarrow> True | Some s \<Rightarrow> s = session_id) cur"

definition merged_for :: "cron_job list \<Rightarrow> string \<Rightarrow> cron_job list \<Rightarrow> cron_job list \<Rightarrow> bool" where
  "merged_for xs session_id cur m \<longleftrightarrow>
     distinct (map cj_id m)
     \<and> cj_id ` set m = cj_id ` set (retained xs session_id cur) \<union> cj_id ` {j \<in> set xs. cj_session_id j = session_id}
     \<and> set m \<subseteq> set cur \<union> set xs"

lemma merge_sessions_run:
  assumes "orderly env"
  shows "\<forall>c \<in> set currents. distinct (map cj_id (js_jobs (snd c))) \<Longrightarrow>
    case merge_sessions env xs currents w of
      (Inl e, w') \<Rightarrow> quiet w w'
    | (Inr merged, w') \<Rightarrow> quiet w w'
        \<and> list_all2 (\<lambda>(s, cur) (s', m). s' = s \<and> merged_for xs s (js_jobs cur) m) currents merged"
proof (induction currents arbitrary: w)
  case Nil
  then show ?case by (simp add: mon_simps)
next
  case (Cons c cs)
  obtain s cur where c: "c = (s, cur)" by (cases c)
  have d: "distinct (map cj_id (retained xs s (js_jobs cur)))"
    using Cons.prems c by (simp add: retained_def distinct_map_filter)
  let ?mine = "filter (\<lambda>j. cj_session_id j = s) xs"
  obtain r w1 where m: "merge_fresh_jobs env (retained xs s (js_jobs cur)) ?mine w = (r, w1)"
    by (cases "merge_fresh_jobs env (retained xs s (js_jobs cur)) ?mine w")
  note run = merge_fresh_run[where w = w and xs = ?mine, OF assms d, unfolded m]
  show ?case
  proof (cases r)
    case (Inl e)
    with run m show ?thesis by (simp add: c mon_simps retained_def)
  next
    case (Inr out)
    obtain r2 w2 where m2: "merge_sessions env xs cs w1 = (r2, w2)" by (cases "merge_sessions env xs cs w1")
    note ih = Cons.IH[of w1, unfolded m2]
    have q: "quiet w w1" using run Inr by simp
    have "merged_for xs s (js_jobs cur) out"
      using run Inr by (auto simp: merged_for_def retained_def)
    then show ?thesis
      using ih Cons.prems m m2 Inr quiet_trans[OF q]
      by (cases r2) (auto simp: c mon_simps retained_def)
  qed
qed

lemma write_partitions_run:
  assumes ok: "\<forall>n. ce_write_ok env n"
    and wf: "\<forall>f \<in> set files. list_all job_wf (js_jobs (following (fst f)))"
  shows "distinct (map snd files) \<Longrightarrow> \<forall>f \<in> set files. map_of currents (fst f) = Some (file_at w (snd f)) \<Longrightarrow>
    \<exists>w'. write_partitions env following files currents w = (Inr (), w') \<and> same_store w w'
      \<and> (\<forall>f \<in> set files. file_at w' (snd f) = following (fst f))
      \<and> (\<forall>q. q \<notin> snd ` set files \<longrightarrow> cw_files w' q = cw_files w q)"
  using wf
proof (induction files arbitrary: w)
  case Nil
  then show ?case by (simp add: mon_simps)
next
  case (Cons f fs)
  obtain s p where f: "f = (s, p)" by (cases f)
  have cur: "map_of currents s = Some (file_at w p)" using Cons.prems(2) f by simp
  have wf_s: "list_all job_wf (js_jobs (following s))" using Cons.prems(3) f by simp
  obtain w1 where w1: "(if state_to_json (following s) \<noteq> state_to_json (file_at w p)
        then write_jobs_state env p (following s) else ret ()) w = (Inr (), w1)"
    "file_at w1 p = following s" "\<forall>q. q \<noteq> p \<longrightarrow> cw_files w1 q = cw_files w q" "same_store w w1"
    using write_after_mutation[OF ok wf_s quiet_refl] by blast
  have "\<forall>f \<in> set fs. map_of currents (fst f) = Some (file_at w1 (snd f))"
  proof
    fix g assume g: "g \<in> set fs"
    then have "snd g \<noteq> p" using Cons.prems(1) f by auto
    then have "file_at w1 (snd g) = file_at w (snd g)" using w1(3) by (simp add: file_at_def)
    with Cons.prems(2) g show "map_of currents (fst g) = Some (file_at w1 (snd g))" by simp
  qed
  with Cons.IH[of w1] Cons.prems(1,3) obtain w2 where w2: "write_partitions env following fs currents w1 = (Inr (), w2)"
    "same_store w1 w2" "\<forall>f \<in> set fs. file_at w2 (snd f) = following (fst f)"
    "\<forall>q. q \<notin> snd ` set fs \<longrightarrow> cw_files w2 q = cw_files w1 q" by auto
  have "write_partitions env following (f # fs) currents w = (Inr (), w2)"
    using w1(1) w2(1) by (simp add: f cur mon_simps eq_commute[of "state_to_json (file_at w p)"])
  moreover have "file_at w2 p = following s"
    using w2(4) w1(2) Cons.prems(1) f by (simp add: file_at_def)
  ultimately show ?case
    using same_store_trans[OF w1(4) w2(2)] w2(3,4) w1(3) by (auto simp: f)
qed

lemma distinct_concat_keyed:
  "distinct (map fst files) \<Longrightarrow> (\<And>s p. (s, p) \<in> set files \<Longrightarrow> distinct (f s) \<and> (\<forall>i \<in> set (f s). g i = Some s)) \<Longrightarrow>
    distinct (concat (map (\<lambda>x. f (fst x)) files))"
proof (induction files)
  case (Cons x files)
  obtain s p where x: "x = (s, p)" by (cases x)
  have "set (f s) \<inter> set (concat (map (\<lambda>x. f (fst x)) files)) = {}"
  proof (rule ccontr)
    assume "\<not> ?thesis"
    then obtain i t q where "i \<in> set (f s)" "(t, q) \<in> set files" "i \<in> set (f t)" by auto
    moreover from this have "g i = Some s" "g i = Some t" using Cons.prems(2)[of s p] Cons.prems(2)[of t q] x by auto
    ultimately show False using Cons.prems(1) x by (force simp: image_iff)
  qed
  with Cons x show ?case by auto
qed simp

lemma incoming_mine:
  assumes "distinct (map cj_id xs)" and "j \<in> set xs"
  shows "incoming_session xs (cj_id j) = Some (cj_session_id j)"
proof -
  have "find (\<lambda>i. cj_id i = cj_id j) (rev xs) = Some i \<Longrightarrow> i = j" for i
    using assms by (auto simp: find_Some_iff distinct_map inj_on_def dest: nth_mem)
      (metis (no_types, lifting) length_rev nth_mem set_rev)
  moreover have "find (\<lambda>i. cj_id i = cj_id j) (rev xs) \<noteq> None"
    using assms(2) by (auto simp: find_None_iff)
  ultimately show ?thesis by (auto simp: incoming_session_def)
qed

lemma merged_for_session:
  assumes "merged_for xs s cur m" and "distinct (map cj_id xs)" and "cj_id ` set cur \<subseteq> cj_id ` set xs"
  shows "\<forall>i \<in> set (map cj_id m). incoming_session xs i = Some s"
proof
  fix i assume "i \<in> set (map cj_id m)"
  then have "i \<in> cj_id ` set (retained xs s cur) \<union> cj_id ` {j \<in> set xs. cj_session_id j = s}"
    using assms(1) by (auto simp: merged_for_def)
  then show "incoming_session xs i = Some s"
  proof
    assume "i \<in> cj_id ` set (retained xs s cur)"
    then obtain j where j: "j \<in> set cur" "i = cj_id j"
      "case incoming_session xs (cj_id j) of None \<Rightarrow> True | Some t \<Rightarrow> t = s" by (auto simp: retained_def)
    then obtain k where "k \<in> set xs" "cj_id k = i" using assms(3) by (metis imageE image_eqI subsetD)
    with incoming_mine[OF assms(2)] have "incoming_session xs i \<noteq> None" by force
    with j show ?thesis by (auto split: option.splits)
  next
    assume "i \<in> cj_id ` {j \<in> set xs. cj_session_id j = s}"
    with incoming_mine[OF assms(2)] show ?thesis by auto
  qed
qed

lemma artifact_paths: "ce_artifact_mode env \<Longrightarrow> jobs_of env w = concat (map (\<lambda>f. js_jobs (file_at w (snd f))) (cw_artifacts w))"
  by (simp add: jobs_of_def paths_of_def comp_def)

text \<open>What the merged lists of all sessions amount to, for the store as it is read.\<close>

lemma merged_sessions:
  assumes st: "settled_store env w" and xs: "may_write env w xs" and mode: "ce_artifact_mode env"
    and all2: "list_all2 (\<lambda>(s, cur) (s', m). s' = s \<and> merged_for xs s (js_jobs cur) m)
        (map (\<lambda>(s, p). (s, file_at w p)) (cw_artifacts w)) merged"
    and f: "(s, p) \<in> set (cw_artifacts w)"
  obtains m where "map_of merged s = Some m" and "merged_for xs s (js_jobs (file_at w p)) m"
    and "\<forall>i \<in> set (map cj_id m). incoming_session xs i = Some s"
proof -
  have keys: "map fst merged = map fst (cw_artifacts w)"
  proof (rule nth_equalityI)
    show l: "length (map fst merged) = length (map fst (cw_artifacts w))" using list_all2_lengthD[OF all2] by simp
    fix i assume "i < length (map fst merged)"
    then show "map fst merged ! i = map fst (cw_artifacts w) ! i"
      using list_all2_nthD2[OF all2, of i] l by (simp add: split_beta)
  qed
  have d: "distinct (map fst (cw_artifacts w))" using st by (simp add: settled_store_def)
  obtain i where i: "i < length (cw_artifacts w)" "cw_artifacts w ! i = (s, p)" using f by (metis in_set_conv_nth)
  define m where "m = snd (merged ! i)"
  have nth: "merged ! i = (s, m)" "merged_for xs s (js_jobs (file_at w p)) m" "i < length merged"
    using list_all2_nthD[OF all2, of i] list_all2_lengthD[OF all2] i
    by (simp_all add: m_def split_beta prod_eq_iff)
  have "map_of merged s = Some m"
    using nth d keys by (metis map_of_eq_Some_iff nth_mem)
  moreover have "cj_id ` set (js_jobs (file_at w p)) \<subseteq> cj_id ` set xs"
    using xs f unfolding may_write_def artifact_paths[OF mode] by force
  then have "\<forall>i \<in> set (map cj_id m). incoming_session xs i = Some s"
    using merged_for_session[OF nth(2)] xs by (simp add: may_write_def)
  ultimately show thesis using that nth(2) by blast
qed

lemma store_sessions_moved:
  assumes st: "settled_store env w" and xs: "may_write env w xs" and mode: "ce_artifact_mode env"
  shows "moved env w (snd (write_jobs_session_artifacts env xs w))"
proof (cases "list_all (\<lambda>j. cj_session_id j \<in> fst ` set (cw_artifacts w)) xs")
  case False
  then have "snd (write_jobs_session_artifacts env xs w) = w"
    by (simp add: write_jobs_session_artifacts_def mon_simps)
  with quiet_moved[OF st quiet_refl] show ?thesis by simp
next
  case True
  let ?files = "cw_artifacts w"
  let ?cur = "map (\<lambda>(s, p). (s, file_at w p)) ?files"
  have st': "steady env w" "distinct (map fst ?files)" "orderly env" using st by (simp_all add: settled_store_def)
  have dp: "distinct (map snd ?files)" using st'(1) mode by (simp add: steady_def paths_of_def)
  have dj: "distinct (map cj_id (js_jobs (file_at w p)))" if "(s, p) \<in> set ?files" for s p
  proof -
    have "distinct (concat (map (\<lambda>f. map cj_id (js_jobs (file_at w (snd f)))) ?files))"
      using st by (simp add: settled_store_def ids_apart_def artifact_paths[OF mode] map_concat comp_def)
    with that show ?thesis by (auto simp: distinct_concat_iff)
  qed
  obtain r w1 where m: "merge_sessions env xs ?cur w = (r, w1)" by (cases "merge_sessions env xs ?cur w")
  have "\<forall>c \<in> set ?cur. distinct (map cj_id (js_jobs (snd c)))" using dj by auto
  note run = merge_sessions_run[where w = w and xs = xs, OF st'(3) this, unfolded m]
  have unfold: "write_jobs_session_artifacts env xs w =
      (case r of Inl e \<Rightarrow> (Inl e, w1) | Inr merged \<Rightarrow>
         write_partitions env (partition_state merged (concat (map (\<lambda>(_, s). js_dispatches s) ?cur))) ?files ?cur w1)"
    using True m by (simp add: write_jobs_session_artifacts_def mon_simps file_at_def split: sum.splits)
  show ?thesis
  proof (cases r)
    case (Inl e)
    with run unfold quiet_moved[OF st] show ?thesis by simp
  next
    case (Inr merged)
    let ?following = "partition_state merged (concat (map (\<lambda>(_, s). js_dispatches s) ?cur))"
    have q: "quiet w w1" and all2: "list_all2 (\<lambda>(s, cur) (s', m). s' = s \<and> merged_for xs s (js_jobs cur) m) ?cur merged"
      using run Inr by auto
    note parts = merged_sessions[OF st xs mode all2]
    have ok: "\<forall>n. ce_write_ok env n" using st'(1) by (simp add: steady_def)
    have jobs: "js_jobs (?following s) = m" if "map_of merged s = Some m" for s m
      using that by (simp add: partition_state_def)
    have wf: "\<forall>f \<in> set ?files. list_all job_wf (js_jobs (?following (fst f)))"
    proof
      fix f assume f: "f \<in> set ?files"
      obtain s p where sp: "f = (s, p)" by (cases f)
      obtain m where m: "map_of merged s = Some m" "merged_for xs s (js_jobs (file_at w p)) m"
        using parts[of s p] f sp by blast
      then have "set m \<subseteq> set (js_jobs (file_at w p)) \<union> set xs" by (simp add: merged_for_def)
      then show "list_all job_wf (js_jobs (?following (fst f)))"
        using file_at_wf[of w p] xs jobs[OF m(1)] sp by (auto simp: list_all_iff may_write_def)
    qed
    have cur: "\<forall>f \<in> set ?files. map_of ?cur (fst f) = Some (file_at w1 (snd f))"
      using st'(2) q by (auto simp: map_of_map quiet_file_at intro!: map_of_eq_Some_iff[THEN iffD2] simp: comp_def split_beta)
    obtain w2 where w2: "write_partitions env ?following ?files ?cur w1 = (Inr (), w2)" "same_store w1 w2"
      "\<forall>f \<in> set ?files. file_at w2 (snd f) = ?following (fst f)"
      using write_partitions_run[OF ok wf dp cur] by blast
    have same: "same_store w w2" using same_store_trans[OF quiet_same_store[OF q] w2(2)] .
    have files2: "cw_artifacts w2 = ?files" using same by (simp add: same_store_def)
    have jobs2: "jobs_of env w2 = concat (map (\<lambda>f. js_jobs (?following (fst f))) ?files)"
      using w2(3) by (simp add: artifact_paths[OF mode] files2 cong: map_cong)
    have "moved env w w2"
    proof (rule written_moved[OF st xs same])
      have "distinct (concat (map (\<lambda>x. map cj_id (js_jobs (?following (fst x)))) ?files))"
      proof (rule distinct_concat_keyed[OF st'(2), where g = "incoming_session xs"])
        fix s p assume "(s, p) \<in> set ?files"
        then obtain m where "map_of merged s = Some m" "merged_for xs s (js_jobs (file_at w p)) m"
          "\<forall>i \<in> set (map cj_id m). incoming_session xs i = Some s" using parts by blast
        then show "distinct (map cj_id (js_jobs (?following s)))
            \<and> (\<forall>i \<in> set (map cj_id (js_jobs (?following s))). incoming_session xs i = Some s)"
          using jobs by (simp add: merged_for_def)
      qed
      then show "distinct (map cj_id (jobs_of env w2))" by (simp add: jobs2 map_concat comp_def)
      show "set (jobs_of env w2) \<subseteq> set (jobs_of env w) \<union> set xs"
      proof
        fix j assume "j \<in> set (jobs_of env w2)"
        then obtain s p where sp: "(s, p) \<in> set ?files" "j \<in> set (js_jobs (?following s))" by (auto simp: jobs2)
        then obtain m where "map_of merged s = Some m" "merged_for xs s (js_jobs (file_at w p)) m" using parts by blast
        with sp(2) jobs have "j \<in> set (js_jobs (file_at w p)) \<union> set xs" by (auto simp: merged_for_def)
        moreover have "set (js_jobs (file_at w p)) \<subseteq> set (jobs_of env w)"
          using sp(1) by (force simp: artifact_paths[OF mode])
        ultimately show "j \<in> set (jobs_of env w) \<union> set xs" by blast
      qed
      show "cj_id ` set (jobs_of env w) \<subseteq> cj_id ` set (jobs_of env w2)"
      proof
        fix i assume "i \<in> cj_id ` set (jobs_of env w)"
        moreover have "cj_id ` set (jobs_of env w) \<subseteq> cj_id ` set xs" using xs by (simp add: may_write_def)
        ultimately obtain k where k: "k \<in> set xs" "cj_id k = i" by (metis imageE subsetD)
        then obtain p where p: "(cj_session_id k, p) \<in> set ?files" using True by (auto simp: list_all_iff)
        then obtain m where m: "map_of merged (cj_session_id k) = Some m"
          "merged_for xs (cj_session_id k) (js_jobs (file_at w p)) m" using parts by blast
        then have "i \<in> cj_id ` set m" using k by (auto simp: merged_for_def)
        then have "i \<in> cj_id ` set (js_jobs (?following (cj_session_id k)))" by (simp only: jobs[OF m(1)])
        then obtain j where j: "j \<in> set (js_jobs (?following (cj_session_id k)))" "i = cj_id j" by blast
        have "set (js_jobs (?following (fst (cj_session_id k, p)))) \<subseteq> set (jobs_of env w2)"
          unfolding jobs2 using p by (auto simp del: fst_conv)
        with j show "i \<in> cj_id ` set (jobs_of env w2)" by auto
      qed
    qed
    with w2(1) Inr unfold show ?thesis by simp
  qed
qed

section \<open>Writing a list\<close>

lemma write_jobs_moved:
  assumes st: "settled_store env w" and xs: "may_write env w xs"
  shows "moved env w (snd (write_jobs env xs w))"
proof -
  have s: "steady env w" using st by (simp add: settled_store_def)
  define m where "m = (if ce_artifact_mode env then write_jobs_session_artifacts env xs
    else case ce_file_path env of None \<Rightarrow> fail CronPanic | Some path \<Rightarrow> write_jobs_file env path xs)"
  have "moved env w (snd (m w))"
  proof (cases "ce_artifact_mode env")
    case True
    with store_sessions_moved[OF st xs] show ?thesis by (simp add: m_def)
  next
    case False
    then obtain p where "ce_file_path env = Some p" using s by (auto simp: steady_def)
    with False store_file_moved[OF st xs] show ?thesis by (simp add: m_def)
  qed
  moreover have "write_jobs env xs w = (case m w of (Inl e, w') \<Rightarrow> (Inl e, w')
      | (Inr u, w') \<Rightarrow> notify_if_changed env (concat (map (\<lambda>p. js_jobs (file_at w p)) (paths_of env w))) w')"
    by (simp add: write_jobs_def mon_simps read_jobs_run[OF s] m_def)
  moreover have "moved env w (snd (notify_if_changed env before w'))" if "moved env w w'" for before w'
  proof -
    have "settled_store env w'" using that by (simp add: moved_def)
    then have "steady env w'" by (simp add: settled_store_def)
    from notify_run[OF this, of before] obtain w'' where "snd (notify_if_changed env before w') = w''" "quiet w' w''" by auto
    with quiet_moved[OF \<open>settled_store env w'\<close>] moved_trans_store[OF that] show ?thesis by simp
  qed
  ultimately show ?thesis by (cases "m w") (auto split: sum.splits)
qed

lemma read_jobs_of: "settled_store env w \<Longrightarrow> read_jobs env w = (Inr (jobs_of env w), w)"
  by (simp add: settled_store_def read_jobs_run jobs_of_def)

lemma jobs_of_wf: "list_all job_wf (jobs_of env w)"
  using file_at_wf by (auto simp: jobs_of_def list_all_iff)

lemma map_may_write:
  assumes "settled_store env w" and "\<And>j. j \<in> set (jobs_of env w) \<Longrightarrow> keeps_job j (g j)"
  shows "may_write env w (map g (jobs_of env w))"
proof -
  have ids: "map cj_id (map g (jobs_of env w)) = map cj_id (jobs_of env w)"
    using assms(2) by (simp add: keeps_job_def)
  have "cj_id ` set (map g (jobs_of env w)) = cj_id ` set (jobs_of env w)"
    using ids by (metis set_map)
  moreover have "distinct (map cj_id (map g (jobs_of env w)))"
    using assms(1) unfolding ids by (simp add: settled_store_def ids_apart_def)
  moreover have "list_all job_wf (map g (jobs_of env w))"
    using jobs_of_wf[of env w] assms(2) by (simp add: list_all_iff keeps_job_def)
  ultimately show ?thesis using assms(2) by (auto simp: may_write_def)
qed

lemma append_may_write:
  assumes "settled_store env w" and "\<And>j. j \<in> set (jobs_of env w) \<Longrightarrow> keeps_job j (g j)"
    and "job_wf new" and "cj_id new \<notin> cj_id ` set (jobs_of env w)" and "n < cw_draws w" "cj_id new = ce_uuid env n"
  shows "may_write env w (map g (jobs_of env w) @ [new])"
proof -
  have "cj_id ` set (map g (jobs_of env w)) = cj_id ` set (jobs_of env w)"
  proof -
    have "map cj_id (map g (jobs_of env w)) = map cj_id (jobs_of env w)"
      using assms(2) by (simp add: keeps_job_def)
    then show ?thesis by (metis set_map)
  qed
  then have f: "cj_id new \<notin> cj_id ` set (map g (jobs_of env w))" using assms(4) by simp
  note old = map_may_write[OF assms(1,2)]
  have "distinct (map cj_id (map g (jobs_of env w) @ [new]))"
    using old f by (simp add: may_write_def image_image)
  moreover have "list_all job_wf (map g (jobs_of env w) @ [new])"
    using old assms(3) by (simp add: may_write_def)
  moreover have "cj_id ` set (jobs_of env w) \<subseteq> cj_id ` set (map g (jobs_of env w) @ [new])"
    using old by (simp add: may_write_def) blast
  ultimately show ?thesis using old assms(4-6) unfolding may_write_def by (simp only: set_append Ball_def) auto
qed

lemma rewrite_map: "rewrite f jobs = map (\<lambda>j. case f j of None \<Rightarrow> j | Some k \<Rightarrow> k) jobs"
  by (simp add: rewrite_def)

definition moves_jobs :: "(cron_job \<Rightarrow> cron_job option) \<Rightarrow> bool" where
  "moves_jobs f \<longleftrightarrow> (\<forall>j k. f j = Some k \<longrightarrow> keeps_job j k)"

lemma rewrite_may_write:
  "settled_store env w \<Longrightarrow> moves_jobs f \<Longrightarrow> may_write env w (rewrite f (jobs_of env w))"
  unfolding rewrite_map by (rule map_may_write) (auto simp: moves_jobs_def split: option.split)

lemma change_jobs_moved:
  assumes "settled_store env w" and "moves_jobs f"
  shows "moved env w (snd (change_jobs env f w))"
proof -
  note wr = write_jobs_moved[OF assms(1) rewrite_may_write[OF assms]]
  note q = quiet_moved[OF assms(1) quiet_refl]
  show ?thesis
    using wr q by (cases "write_jobs env (rewrite f (jobs_of env w)) w")
      (auto simp: change_jobs_alone mon_simps read_jobs_of[OF assms(1)] split: sum.splits)
qed

lemma jobs_moved_rewrite: "moves_jobs f \<Longrightarrow> js_jobs s' = rewrite f (js_jobs s) \<Longrightarrow> jobs_moved s s'"
  by (auto simp: jobs_moved_def rewrite_map list_all2_conv_all_nth moves_jobs_def split: option.split)

end
