(* ===== verification/CronHistory.thy ===== *)
theory CronHistory
  imports CronWrites
begin

text \<open>
  The operations of the store as one type, and any sequence of them as a run: whatever is done to
  the store, its jobs only move.
\<close>

datatype cron_op =
    OpCreate create_input
  | OpRebind session_binding
  | OpCancelSession cancel_filter nat
  | OpCancel string nat
  | OpRecordRun string "nat option" "string option"
  | OpRecordSkip string nat
  | OpDefer string nat
  | OpClaim nat nat
  | OpSettle string "nat option" run_outcome "string option"
  | OpRecover nat
  | OpRecoverIds "string list" nat
  | OpRecoverSession string nat
  | OpCreateHeartbeat create_input
  | OpPauseHeartbeat string nat
  | OpResumeHeartbeat string nat
  | OpClearHeartbeat string nat
  | OpManage string string heartbeat_action nat
  | OpCreateRlm create_input
  | OpUpdateRlm string string rlm_update
  | OpDeleteRlm string string nat
  | OpCancelRlm string nat

fun apply_op :: "cron_env \<Rightarrow> cron_op \<Rightarrow> cron_world \<Rightarrow> cron_world" where
  "apply_op env (OpCreate input) w = snd (create env input w)"
| "apply_op env (OpRebind b) w = snd (rebind_session_jobs env b w)"
| "apply_op env (OpCancelSession f now) w = snd (cancel_jobs_for_session env f now w)"
| "apply_op env (OpCancel i now) w = snd (cancel env i now w)"
| "apply_op env (OpRecordRun i now err) w = snd (record_run_result env i now err w)"
| "apply_op env (OpRecordSkip i now) w = snd (record_skip_result env i now w)"
| "apply_op env (OpDefer i until_ms) w = snd (defer_next_run env i until_ms w)"
| "apply_op env (OpClaim due_at claimed_at) w = snd (claim_due env due_at claimed_at w)"
| "apply_op env (OpSettle d now outcome err) w = snd (record_dispatch_result env d now outcome err w)"
| "apply_op env (OpRecover now) w = snd (recover_interrupted_dispatches env now w)"
| "apply_op env (OpRecoverIds ids now) w = snd (recover_interrupted_dispatches_by_id env ids now w)"
| "apply_op env (OpRecoverSession s now) w = snd (recover_session_artifact env s now w)"
| "apply_op env (OpCreateHeartbeat input) w = snd (create_heartbeat env input w)"
| "apply_op env (OpPauseHeartbeat s now) w = snd (pause_heartbeat env s now w)"
| "apply_op env (OpResumeHeartbeat s now) w = snd (resume_heartbeat env s now w)"
| "apply_op env (OpClearHeartbeat s now) w = snd (clear_heartbeat env s now w)"
| "apply_op env (OpManage s i action now) w = snd (manage_heartbeat env s i action now w)"
| "apply_op env (OpCreateRlm input) w = snd (create_rlm_heartbeat env input w)"
| "apply_op env (OpUpdateRlm s i update) w = snd (update_rlm_heartbeat env s i update w)"
| "apply_op env (OpDeleteRlm s i now) w = snd (delete_rlm_heartbeat env s i now w)"
| "apply_op env (OpCancelRlm s now) w = snd (cancel_rlm_heartbeats_for_session env s now w)"

section \<open>The parts of an operation\<close>

lemma snd_bnd_ret [simp]: "snd (bnd m (\<lambda>x. ret (f x)) w) = snd (m w)"
proof -
  obtain r w' where "m w = (r, w')" by (cases "m w")
  then show ?thesis by (cases r) (simp_all add: mon_simps)
qed

lemma snd_thn_ret [simp]: "snd (thn m (ret x) w) = snd (m w)"
  unfolding thn_def by simp

lemma now_or_run: "\<exists>n w'. now_or env t w = (Inr n, w') \<and> quiet w w'"
  by (cases t) (auto simp: now_or_def clock_now_def mon_simps quiet_def)

lemma moved_after_quiet:
  "settled_store env w \<Longrightarrow> quiet w w' \<Longrightarrow> (settled_store env w' \<Longrightarrow> moved env w' w'') \<Longrightarrow> moved env w w''"
proof -
  assume "settled_store env w" "quiet w w'" and n: "settled_store env w' \<Longrightarrow> moved env w' w''"
  then have m: "moved env w w'" by (intro quiet_moved)
  then have "settled_store env w'" by (simp add: moved_def)
  with m n moved_trans_store show ?thesis by blast
qed

lemma now_or_moved:
  assumes "settled_store env w" and "\<And>n w'. quiet w w' \<Longrightarrow> settled_store env w' \<Longrightarrow> moved env w' (snd (k n w'))"
  shows "moved env w (snd (bnd (now_or env t) k w))"
proof -
  obtain n w' where n: "now_or env t w = (Inr n, w')" "quiet w w'" using now_or_run by blast
  have "snd (bnd (now_or env t) k w) = snd (k n w')" by (simp add: mon_simps n(1))
  with moved_after_quiet[OF assms(1) n(2) assms(2)[OF n(2)]] show ?thesis by simp
qed

lemma or_error_moved:
  assumes "settled_store env w" and "\<And>x. v = Inr x \<Longrightarrow> moved env w (snd (k x w))"
  shows "moved env w (snd (bnd (or_error v) k w))"
  using assms(2) quiet_moved[OF assms(1) quiet_refl]
  by (cases v) (auto simp: or_error_def mon_simps)

lemma or_panic_moved:
  assumes "settled_store env w" and "\<And>x. v = Some x \<Longrightarrow> moved env w (snd (k x w))"
  shows "moved env w (snd (bnd (or_panic v) k w))"
  using assms(2) quiet_moved[OF assms(1) quiet_refl]
  by (cases v) (auto simp: or_panic_def mon_simps)

lemma read_jobs_moved:
  assumes "settled_store env w" and "moved env w (snd (k (jobs_of env w) w))"
  shows "moved env w (snd (bnd (read_jobs env) k w))"
  using assms(2) by (simp add: mon_simps read_jobs_of[OF assms(1)])

lemma same_moved: "settled_store env w \<Longrightarrow> moved env w w"
  by (rule quiet_moved) simp_all

lemma ret_moved: "settled_store env w \<Longrightarrow> moved env w (snd (ret x w))"
  by (simp add: mon_simps same_moved)

lemma fail_moved: "settled_store env w \<Longrightarrow> moved env w (snd (fail e w))"
  by (simp add: mon_simps same_moved)

section \<open>New jobs\<close>

definition schedule_wf :: "cron_schedule \<Rightarrow> bool" where
  "schedule_wf s \<longleftrightarrow> opt_below (2 ^ 64) (sc_interval_ms s)"

lemma parsed_schedule_wf:
  assumes "parse_agent_cron_schedule lower input now = Inr (s, n)"
  shows "schedule_wf s"
  unfolding schedule_wf_def
proof -
  have e: "parse_every ps t low now = Inr (Some (s, n)) \<Longrightarrow> opt_below (2 ^ 64) (sc_interval_ms s)" for ps t low
    by (induction ps) (auto simp: opt_below_def sub_u64_def split: option.splits sum.splits)
  have i: "parse_in t low now = Some (s, n) \<Longrightarrow> opt_below (2 ^ 64) (sc_interval_ms s)" for t low
    by (auto simp: parse_in_def opt_below_def split: option.splits)
  have a: "parse_at t now = Inr (s, n) \<Longrightarrow> opt_below (2 ^ 64) (sc_interval_ms s)" for t
    by (auto simp: parse_at_def opt_below_def split: option.splits if_splits)
  have c: "parse_cron_line t now = Inr (s, n) \<Longrightarrow> opt_below (2 ^ 64) (sc_interval_ms s)" for t
    by (auto simp: parse_cron_line_def Let_def map_sum_def opt_below_def split: sum.splits)
  define t where "t = strip_matching_quotes (trim input)"
  show "opt_below (2 ^ 64) (sc_interval_ms s)"
    using assms e[of "[''every '', ''each '']" t "lower t"] i[of t "lower t"] a[of t] c[of t]
    unfolding parse_agent_cron_schedule_def Let_def t_def[symmetric]
    by (simp only: split: if_splits option.splits sum.splits) auto
qed

text \<open>Draw an id, and write the jobs with a new one that has it.\<close>

lemma new_job_moved:
  assumes st: "settled_store env w" and g: "\<And>j. keeps_job j (g j)"
    and wf: "schedule_wf schedule"
  defines "w' \<equiv> w\<lparr>cw_draws := Suc (cw_draws w)\<rparr>"
  shows "settled_store env w'" and "jobs_of env w' = jobs_of env w"
    and "moved env w (snd (write_jobs env
           (map g (jobs_of env w) @ [new_job input (ce_uuid env (cw_draws w)) src mode now_iso schedule n]) w'))"
proof -
  let ?i = "ce_uuid env (cw_draws w)"
  have q: "quiet w w'" by (simp add: quiet_def w'_def)
  show st': "settled_store env w'" using quiet_moved[OF st q] by (simp add: moved_def)
  show jobs: "jobs_of env w' = jobs_of env w"
    using jobs_of_cong[OF _ quiet_same_store[OF q]] st quiet_file_at[OF q] by (simp add: settled_store_def)
  have "cj_id j \<noteq> ?i" if "j \<in> set (jobs_of env w)" for j
    using st that by (simp add: settled_store_def ids_apart_def)
  then have "?i \<notin> cj_id ` set (jobs_of env w)" by (metis imageE)
  moreover have "job_wf (new_job input ?i src mode now_iso schedule n)"
    using wf unfolding schedule_wf_def by (simp add: new_job_def job_wf_def)
  moreover have "cj_id (new_job input ?i src mode now_iso schedule n) = ?i" by (simp add: new_job_def)
  moreover have "cw_draws w < cw_draws w'" by (simp add: w'_def)
  ultimately have "may_write env w' (map g (jobs_of env w') @ [new_job input ?i src mode now_iso schedule n])"
    by (intro append_may_write[OF st' g]) (simp_all only: jobs not_False_eq_True)
  from moved_trans_store[OF quiet_moved[OF st q] write_jobs_moved[OF st' this]]
  show "moved env w (snd (write_jobs env (map g (jobs_of env w) @ [new_job input ?i src mode now_iso schedule n]) w'))"
    by (simp add: jobs)
qed

lemma add_job_moved:
  assumes st: "settled_store env w" and wf: "schedule_wf schedule"
  shows "moved env w (snd (bnd (new_job_id env) (\<lambda>i.
      let job = new_job input i src mode now_iso schedule n
      in bnd (read_jobs env) (\<lambda>jobs. thn (write_jobs env (jobs @ [job])) (ret job))) w))"
  using new_job_moved(1,2)[OF st keeps_job_refl wf]
    new_job_moved(3)[OF st keeps_job_refl wf, where input = input and src = src and mode = mode
      and now_iso = now_iso and n = n]
  by (simp add: Let_def bnd_run new_job_id_def read_jobs_of)

lemma keeps_cancelled [simp]: "keeps_job j (cancelled_job t j)"
  by (simp add: keeps_job_def cancelled_job_def closed_def job_wf_def)

lemma create_moved: "settled_store env w \<Longrightarrow> moved env w (snd (create env input w))"
  by (auto simp: create_def fail_moved parsed_schedule_wf intro!: now_or_moved or_error_moved add_job_moved)

lemma create_rlm_moved: "settled_store env w \<Longrightarrow> moved env w (snd (create_rlm_heartbeat env input w))"
  by (auto simp: create_rlm_heartbeat_def fail_moved parsed_schedule_wf intro!: now_or_moved or_error_moved add_job_moved)

section \<open>Changes of jobs\<close>

lemma moves_if: "(\<And>j k. f j = Some k \<Longrightarrow> keeps_job j k) \<Longrightarrow> moves_jobs f"
  by (simp add: moves_jobs_def)

lemma keeps_open:
  "cj_id k = cj_id j \<Longrightarrow> \<not> closed j \<Longrightarrow> (job_wf j \<Longrightarrow> job_wf k) \<Longrightarrow> keeps_job j k"
  by (auto simp: keeps_job_def closed_def)

lemma active_open: "cj_status j = JobActive \<Longrightarrow> \<not> closed j"
  by (simp add: closed_def)

lemma ran_now_wf: "job_wf j \<Longrightarrow> job_wf (ran_now now err j)"
  by (simp add: job_wf_def ran_now_def add_u64_def)

lemma rebind_moved: "settled_store env w \<Longrightarrow> moved env w (snd (rebind_session_jobs env b w))"
  unfolding rebind_session_jobs_def
  by (rule change_jobs_moved) (auto simp: moves_jobs_def rebound_def keeps_job_def closed_def job_wf_def split: if_splits)

lemma cancel_session_moved: "settled_store env w \<Longrightarrow> moved env w (snd (cancel_jobs_for_session env f now w))"
  unfolding cancel_jobs_for_session_def by (rule change_jobs_moved) (auto simp: moves_jobs_def split: if_splits)

lemma cancel_moved: "settled_store env w \<Longrightarrow> moved env w (snd (cancel env i now w))"
  unfolding cancel_def snd_bnd_ret by (rule change_jobs_moved) (auto simp: moves_jobs_def split: if_splits)

lemma record_run_moved: "settled_store env w \<Longrightarrow> moved env w (snd (record_run_result env i now err w))"
  unfolding record_run_result_def
proof (rule now_or_moved, assumption, unfold snd_bnd_ret, rule change_jobs_moved, assumption, rule moves_if)
  fix now and j k :: cron_job
  let ?j = "\<lambda>n. j\<lparr>cj_status := (if sc_kind (cj_schedule j) = KindOnce then JobCompleted else JobActive), cj_next_run_at := n\<rparr>"
  assume "(if cj_id j \<noteq> i then None
          else if cj_status j \<noteq> JobActive then Some j
          else let next_run_at = (case sc_kind (cj_schedule j) of
                      KindCron \<Rightarrow> rolled_next_run (cj_schedule j) (add_u64 now 1)
                    | KindInterval \<Rightarrow> rolled_next_run (cj_schedule j) now
                    | KindOnce \<Rightarrow> None)
               in Some (ran_now now err (?j next_run_at))) = Some k"
  then consider "k = j" | n where "cj_status j = JobActive" "k = ran_now now err (?j n)"
    by (auto simp: Let_def split: if_splits)
  then show "keeps_job j k"
  proof cases
    case 2
    have "job_wf j \<Longrightarrow> job_wf (?j n)" by (simp add: job_wf_def)
    then have "job_wf j \<Longrightarrow> job_wf k" using 2(2) ran_now_wf by blast
    moreover have "cj_id k = cj_id j" using 2(2) by (simp add: ran_now_def)
    ultimately show ?thesis using 2(1) by (intro keeps_open) (simp_all add: active_open)
  qed simp
qed

lemma record_skip_moved: "settled_store env w \<Longrightarrow> moved env w (snd (record_skip_result env i now w))"
  unfolding record_skip_result_def snd_bnd_ret
  by (rule change_jobs_moved) (auto simp: moves_jobs_def skipped_now_def job_wf_def active_open intro!: keeps_open split: if_splits)

lemma delete_rlm_moved: "settled_store env w \<Longrightarrow> moved env w (snd (delete_rlm_heartbeat env s i now w))"
  unfolding delete_rlm_heartbeat_def snd_bnd_ret by (rule change_jobs_moved) (auto simp: moves_jobs_def split: if_splits)

lemma cancel_rlm_moved: "settled_store env w \<Longrightarrow> moved env w (snd (cancel_rlm_heartbeats_for_session env s now w))"
  unfolding cancel_rlm_heartbeats_for_session_def by (rule change_jobs_moved) (auto simp: moves_jobs_def split: if_splits)

section \<open>Mutations\<close>

lemma pure_mutator_moved:
  assumes "settled_store env w" and "\<And>s. jobs_moved s (snd (f s))"
  shows "moved env w (snd (mutate_states env (\<lambda>s. ret (f s)) w))"
proof (rule mutate_moved[OF _ _ assms(1), where E = "\<lambda>_ _. False" and Q = "\<lambda>s out s'. jobs_moved s s'"])
  show "mutator_gives (\<lambda>_ _. False) (\<lambda>s out s'. jobs_moved s s') (\<lambda>s. ret (f s))"
    using assms(2) jobs_moved_wf by (auto simp: mutator_gives_def mon_simps split: prod.split) (metis snd_conv)+
qed

lemma settled_job_keeps:
  assumes "cj_status j = JobActive"
  shows "keeps_job j (settled_job now outcome err j)"
proof -
  have "job_wf j \<Longrightarrow> job_wf (settled_job now outcome err j)"
    by (simp add: settled_job_def skipped_now_def ran_now_def job_wf_def add_u64_def)
  with assms show ?thesis
    by (intro keeps_open) (simp_all add: settled_job_def skipped_now_def ran_now_def active_open)
qed

lemma settle_moved: "settled_store env w \<Longrightarrow> moved env w (snd (record_dispatch_result env d now outcome err w))"
  unfolding record_dispatch_result_def
proof (rule now_or_moved, assumption, unfold snd_bnd_ret, rule pure_mutator_moved, assumption)
  fix now s
  show "jobs_moved s (snd (settle_in_state d now outcome err s))"
  proof (cases "find (\<lambda>c. dp_id c = d) (js_dispatches s)")
    case (Some c)
    have m: "moves_jobs (\<lambda>job. if cj_id job \<noteq> dp_job_id c \<or> cj_status job \<noteq> JobActive then None
        else Some (settled_job now outcome err job))"
      by (auto simp: moves_jobs_def settled_job_keeps split: if_splits)
    show ?thesis by (rule jobs_moved_rewrite[OF m]) (simp add: settle_in_state_def Some Let_def)
  qed (simp add: settle_in_state_def)
qed

lemma recover_in_state_moved: "jobs_moved s (snd (recover_interrupted_in_state now ids s))"
proof -
  define chosen :: "dispatch_record \<Rightarrow> bool" where "chosen = (\<lambda>d. case ids of None \<Rightarrow> True | Some ids \<Rightarrow> dp_id d \<in> ids)"
  define f where "f = (\<lambda>job. if cj_id job \<notin> set (map dp_job_id (filter chosen (js_dispatches s))) \<or> cj_status job \<noteq> JobActive
      then None else Some (job\<lparr>cj_status := finished_status job, cj_last_error := Some interrupted_error,
                               cj_updated_at := iso_from_millis now\<rparr>))"
  have m: "moves_jobs f"
    by (auto simp: moves_jobs_def f_def active_open job_wf_def intro!: keeps_open split: if_splits)
  have "recover_interrupted_in_state now ids s =
      (if filter chosen (js_dispatches s) = [] then ([], s)
       else (rewritten f (js_jobs s),
             \<lparr>js_jobs = rewrite f (js_jobs s), js_dispatches = filter (\<lambda>d. \<not> chosen d) (js_dispatches s)\<rparr>))"
    unfolding recover_interrupted_in_state_def Let_def f_def chosen_def by (rule refl)
  then show ?thesis using jobs_moved_rewrite[OF m] by simp
qed

lemma recover_moved:
  "settled_store env w \<Longrightarrow> moved env w (snd (recover_interrupted_dispatches env now w))"
  "settled_store env w \<Longrightarrow> moved env w (snd (recover_interrupted_dispatches_by_id env ids now w))"
  unfolding recover_interrupted_dispatches_def recover_interrupted_dispatches_by_id_def snd_bnd_ret
  by (rule pure_mutator_moved; simp add: recover_in_state_moved)+

lemma claim_moved: "settled_store env w \<Longrightarrow> moved env w (snd (claim_due env due_at claimed_at w))"
  unfolding claim_due_def snd_bnd_ret
proof (rule mutate_moved[OF claim_mutator])
  fix s ds s' assume "claimed_state due_at claimed_at s ds s'"
  moreover have "keeps_job j (claim_form c due_at claimed_at j)" for c j
    by (auto simp: claim_form_def claimed_job_def due_now_def is_due_job_def keeps_job_def closed_def job_wf_def)
  ultimately show "jobs_moved s s'"
    by (simp add: jobs_moved_def claimed_state_def Let_def list_all2_conv_all_nth)
qed

lemma defer_loop_moved:
  "case defer_loop env i until_ms jobs w of (Inl e, w') \<Rightarrow> quiet w w'
   | (Inr (u, js), w') \<Rightarrow> quiet w w' \<and> list_all2 keeps_job jobs js"
proof (induction jobs arbitrary: w)
  case Nil
  then show ?case by (simp add: mon_simps)
next
  case (Cons job jobs)
  have k: "keeps_job job (job\<lparr>cj_next_run_at := a, cj_updated_at := b\<rparr>)" for a b
    by (simp add: keeps_job_def closed_def job_wf_def)
  define w1 where "w1 = w\<lparr>cw_ticks := Suc (cw_ticks w)\<rparr>"
  have q: "quiet w w1" by (simp add: w1_def quiet_def)
  obtain r v where m: "defer_loop env i until_ms jobs w = (r, v)" by (cases "defer_loop env i until_ms jobs w")
  obtain r1 v1 where m1: "defer_loop env i until_ms jobs w1 = (r1, v1)" by (cases "defer_loop env i until_ms jobs w1")
  note ih = Cons.IH[of w, unfolded m] Cons.IH[of w1, unfolded m1]
  show ?case
    using ih k quiet_trans[OF q]
    by (cases r; cases r1)
      (auto simp: mon_simps m m1 or_panic_def clock_now_def w1_def[symmetric] Let_def split: option.splits)
qed

lemma defer_moved: "settled_store env w \<Longrightarrow> moved env w (snd (defer_next_run env i until_ms w))"
  unfolding defer_next_run_def snd_bnd_ret
proof (rule mutate_moved[where E = "\<lambda>_ _. True" and Q = "\<lambda>s out s'. jobs_moved s s'"])
  show "mutator_gives (\<lambda>_ _. True) (\<lambda>s out s'. jobs_moved s s')
      (\<lambda>s. bnd (defer_loop env i until_ms (js_jobs s)) (\<lambda>(updated, jobs). ret (updated, s\<lparr>js_jobs := jobs\<rparr>)))"
    unfolding mutator_gives_def
  proof (intro allI impI)
    fix s :: cron_jobs_state and w assume wf: "list_all job_wf (js_jobs s)"
    obtain r w' where m: "defer_loop env i until_ms (js_jobs s) w = (r, w')" by (cases "defer_loop env i until_ms (js_jobs s) w")
    note run = defer_loop_moved[where w = w and env = env and i = i and until_ms = until_ms and jobs = "js_jobs s", unfolded m]
    show "case bnd (defer_loop env i until_ms (js_jobs s)) (\<lambda>(updated, jobs). ret (updated, s\<lparr>js_jobs := jobs\<rparr>)) w of
        (Inl e, w') \<Rightarrow> True \<and> quiet w w'
      | (Inr (out, s'), w') \<Rightarrow> jobs_moved s s' \<and> quiet w w' \<and> list_all job_wf (js_jobs s')"
    proof (cases r)
      case (Inl e)
      with run m show ?thesis by (simp add: mon_simps)
    next
      case (Inr uj)
      obtain u js where uj: "uj = (u, js)" by (cases uj)
      have "jobs_moved s (s\<lparr>js_jobs := js\<rparr>)" using run Inr uj by (simp add: jobs_moved_def)
      from this jobs_moved_wf[OF this wf] run m Inr uj show ?thesis by (simp add: mon_simps)
    qed
  qed
qed

lemma recover_session_moved:
  assumes "settled_store env w"
  shows "moved env w (snd (recover_session_artifact env s now w))"
proof (cases "map_of (cw_artifacts w) s")
  case None
  then show ?thesis using same_moved[OF assms] by (simp add: recover_session_artifact_def mon_simps)
next
  case (Some p)
  obtain rs s' where r: "recover_interrupted_in_state now None (file_at w p) = (rs, s')"
    by (cases "recover_interrupted_in_state now None (file_at w p)")
  have jm: "jobs_moved (file_at w p) s'" using recover_in_state_moved[of "file_at w p" now None] r by simp
  have ok: "\<forall>n. ce_write_ok env n" using assms by (simp add: settled_store_def steady_def)
  obtain w' where w': "write_jobs_state env p s' w = (Inr (), w')" "file_at w' p = s'"
    "\<forall>q. q \<noteq> p \<longrightarrow> cw_files w' q = cw_files w q" "same_store w w'"
    using write_state_run[OF ok jobs_moved_wf[OF jm file_at_wf]] by blast
  have "jobs_moved (file_at w q) (file_at w' q)" for q
    using jm w'(2,3) by (cases "q = p") (simp_all add: file_at_def)
  from files_moved[OF assms w'(4) this] same_moved[OF assms] w'(1) r show ?thesis
    by (simp add: recover_session_artifact_def mon_simps Some read_path_def file_at_def)
qed

section \<open>Heartbeats\<close>

lemma create_heartbeat_moved: "settled_store env w \<Longrightarrow> moved env w (snd (create_heartbeat env input w))"
  unfolding create_heartbeat_def
proof (rule now_or_moved, assumption, rule or_error_moved, assumption)
  fix now w' and x :: "cron_schedule \<times> nat"
  assume st: "settled_store env w'"
    and p: "parse_agent_cron_schedule (ce_lower env) (ci_schedule_text input) now = Inr x"
  obtain s n where x: "x = (s, n)" by (cases x)
  define f where "f = (\<lambda>j. if session_heartbeat (ci_active_session_id input) j \<and> is_open j
      then Some (cancelled_job (iso_from_millis now) j) else None)"
  have g: "keeps_job j (case f j of None \<Rightarrow> j | Some k \<Rightarrow> k)" for j by (simp add: f_def)
  have wf: "schedule_wf s" using p x parsed_schedule_wf by simp
  from new_job_moved(3)[OF st g wf]
  show "moved env w' (snd ((case x of (schedule, upcoming) \<Rightarrow>
      if sc_kind schedule = KindOnce then fail (Refused ''Heartbeat schedule must be recurring'')
      else if trim (ci_prompt input) = [] then fail (Refused ''Heartbeat instruction cannot be empty'')
      else bnd (read_jobs env) (\<lambda>jobs. bnd (new_job_id env) (\<lambda>i.
        let existing = rewrite (\<lambda>j. if session_heartbeat (ci_active_session_id input) j \<and> is_open j
                                    then Some (cancelled_job (iso_from_millis now) j) else None) jobs;
            job = new_job input i ''heartbeat'' (Some (mode_or_steer (ci_delivery_mode input)))
                    (iso_from_millis now) schedule upcoming
        in thn (write_jobs env (existing @ [job])) (ret job)))) w'))"
    using st by (simp add: x fail_moved bnd_run read_jobs_of new_job_id_def Let_def rewrite_map f_def[symmetric])
qed

lemma change_heartbeat_moved:
  assumes "settled_store env w" and "\<And>j. j \<in> set (jobs_of env w) \<Longrightarrow> cj_id j = cj_id current \<Longrightarrow> keeps_job j (g j)"
  shows "moved env w (snd (change_heartbeat env current g w))"
  unfolding change_heartbeat_def
proof (rule read_jobs_moved[OF assms(1)])
  have "may_write env w (rewrite (\<lambda>j. if cj_id j \<noteq> cj_id current then None else Some (g j)) (jobs_of env w))"
    unfolding rewrite_map using assms(2) by (intro map_may_write[OF assms(1)]) simp
  from write_jobs_moved[OF assms(1) this]
  show "moved env w (snd ((let f = \<lambda>j. if cj_id j \<noteq> cj_id current then None else Some (g j)
      in thn (write_jobs env (rewrite f (jobs_of env w))) (ret (last_of (rewritten f (jobs_of env w))))) w))"
    by (simp add: Let_def)
qed

lemma latest_from_in: "latest_from best jobs = Some (Some (t, j)) \<Longrightarrow> (\<exists>u. best = Some (u, j)) \<or> j \<in> set jobs"
  by (induction best jobs rule: latest_from.induct) (auto split: option.splits if_splits)

lemma latest_job_in: "latest_job jobs = Some (Some j) \<Longrightarrow> j \<in> set jobs"
  using latest_from_in[of None jobs] by (auto simp: latest_job_def)

text \<open>The heartbeat found is an open job of the store, the only one with its id.\<close>

lemma get_heartbeat_moved:
  assumes st: "settled_store env w" and none: "moved env w (snd (k None w))"
    and some: "\<And>c. c \<in> set (jobs_of env w) \<Longrightarrow> is_open c \<Longrightarrow> moved env w (snd (k (Some c) w))"
  shows "moved env w (snd (bnd (get_heartbeat env s) k w))"
proof -
  let ?l = "latest_job (filter (\<lambda>j. session_heartbeat s j \<and> is_open j) (jobs_of env w))"
  have "moved env w (snd (k f w))" if f: "?l = Some f" for f
  proof (cases f)
    case None
    with none show ?thesis by simp
  next
    case (Some c)
    have "c \<in> set (filter (\<lambda>j. session_heartbeat s j \<and> is_open j) (jobs_of env w))"
      by (rule latest_job_in) (use f Some in simp)
    with Some some show ?thesis by simp
  qed
  then show ?thesis using same_moved[OF st]
    by (cases ?l) (auto simp: get_heartbeat_def bnd_run read_jobs_of[OF st] or_panic_def mon_simps)
qed

lemma same_id_same_job:
  "settled_store env w \<Longrightarrow> j \<in> set (jobs_of env w) \<Longrightarrow> c \<in> set (jobs_of env w) \<Longrightarrow> cj_id j = cj_id c \<Longrightarrow> j = c"
  by (simp add: settled_store_def ids_apart_def distinct_map inj_on_def)

lemma open_not_closed: "is_open c \<Longrightarrow> \<not> closed c"
  by (auto simp: is_open_def closed_def)

lemma open_heartbeat_moved:
  assumes "settled_store env w" and "c \<in> set (jobs_of env w)" and "is_open c"
    and "\<And>j. cj_id (g j) = cj_id j" and "\<And>j. job_wf j \<Longrightarrow> job_wf (g j)"
  shows "moved env w (snd (change_heartbeat env c g w))"
  using same_id_same_job[OF assms(1) _ assms(2)] open_not_closed[OF assms(3)] assms(4,5)
  by (intro change_heartbeat_moved[OF assms(1)] keeps_open) auto

lemma pause_beat_moved: "settled_store env w \<Longrightarrow> moved env w (snd (pause_heartbeat env s now w))"
  unfolding pause_heartbeat_def
  by (rule get_heartbeat_moved) (auto simp: ret_moved paused_job_def job_wf_def intro!: open_heartbeat_moved)

lemma clear_beat_moved: "settled_store env w \<Longrightarrow> moved env w (snd (clear_heartbeat env s now w))"
  unfolding clear_heartbeat_def
  by (rule get_heartbeat_moved) (auto simp: ret_moved cancelled_job_def job_wf_def intro!: open_heartbeat_moved)

lemma resume_beat_moved: "settled_store env w \<Longrightarrow> moved env w (snd (resume_heartbeat env s now w))"
  unfolding resume_heartbeat_def
  by (rule get_heartbeat_moved)
    (auto simp: ret_moved fail_moved job_wf_def intro!: or_error_moved open_heartbeat_moved split: option.split)

lemma last_rewritten: "last_of (rewritten f jobs) = Some u \<Longrightarrow> \<exists>c \<in> set jobs. f c = Some u"
proof -
  assume "last_of (rewritten f jobs) = Some u"
  then have "u \<in> set (rewritten f jobs)" by (auto simp: last_of_def split: if_splits)
  then show ?thesis by (auto simp: rewritten_def List.map_filter_def split: option.splits)
qed

lemma managed_keeps:
  "\<not> closed j \<Longrightarrow> keeps_job j (managed_job action t j)"
  by (cases action) (auto simp: managed_job_def paused_job_def cancelled_job_def job_wf_def intro!: keeps_open)

lemma manage_moved: "settled_store env w \<Longrightarrow> moved env w (snd (manage_heartbeat env s i action now w))"
proof -
  assume st: "settled_store env w"
  define f where "f = (\<lambda>job. if cj_id job \<noteq> i \<or> cj_active_session_id job \<noteq> s \<or> \<not> is_heartbeat_cron_job job
      \<or> cj_status job = JobCancelled \<or> cj_status job = JobCompleted then None
      else Some (managed_job action (iso_from_millis now) job))"
  have m: "moves_jobs f" by (auto simp: moves_jobs_def f_def closed_def intro!: managed_keeps split: if_splits)
  note plain = write_jobs_moved[OF st rewrite_may_write[OF st m]]
  have resumed: "moved env w (snd (write_jobs env (map (\<lambda>j. if cj_id j = cj_id r then r else j) (rewrite f (jobs_of env w))) w))"
    if c: "c \<in> set (jobs_of env w)" "f c = Some u" and r: "r = u\<lparr>cj_next_run_at := t\<rparr>" for c u r t
  proof -
    have cr: "keeps_job c r"
    proof (rule keeps_open)
      show "\<not> closed c" using c(2) by (auto simp: f_def closed_def split: if_splits)
      have "keeps_job c u" using m c(2) by (simp add: moves_jobs_def)
      then show "cj_id r = cj_id c" "job_wf c \<Longrightarrow> job_wf r" by (simp_all add: r keeps_job_def job_wf_def)
    qed
    let ?h = "\<lambda>j. let k = (case f j of None \<Rightarrow> j | Some k \<Rightarrow> k) in if cj_id k = cj_id r then r else k"
    have "keeps_job j (?h j)" if j: "j \<in> set (jobs_of env w)" for j
    proof -
      have k: "keeps_job j (case f j of None \<Rightarrow> j | Some k \<Rightarrow> k)"
        using m by (auto simp: moves_jobs_def split: option.split)
      show ?thesis
      proof (cases "cj_id j = cj_id c")
        case True
        with same_id_same_job[OF st j c(1)] have "j = c" by simp
        with cr k show ?thesis by (simp add: Let_def)
      next
        case False
        with cr k show ?thesis by (auto simp: Let_def keeps_job_def)
      qed
    qed
    from write_jobs_moved[OF st map_may_write[OF st this]]
    show ?thesis by (simp add: rewrite_map comp_def Let_def)
  qed
  show ?thesis
    unfolding manage_heartbeat_def
  proof (rule read_jobs_moved[OF st], unfold Let_def f_def[symmetric])
    show "moved env w (snd ((case last_of (rewritten f (jobs_of env w)) of
          None \<Rightarrow> ret None
        | Some updated_job \<Rightarrow>
            if action = ManageResume then
              bnd (or_error (next_run_at_for_schedule (cj_schedule updated_job) now)) (\<lambda>upcoming.
                case upcoming of
                  None \<Rightarrow> fail (Refused ''Heartbeat schedule must be recurring'')
                | Some n \<Rightarrow>
                    thn (write_jobs env (map (\<lambda>j. if cj_id j = cj_id (updated_job\<lparr>cj_next_run_at := Some (iso_from_millis n)\<rparr>)
                             then updated_job\<lparr>cj_next_run_at := Some (iso_from_millis n)\<rparr> else j)
                          (rewrite f (jobs_of env w))))
                      (ret (Some (updated_job\<lparr>cj_next_run_at := Some (iso_from_millis n)\<rparr>))))
            else thn (write_jobs env (rewrite f (jobs_of env w))) (ret (Some updated_job))) w))"
    proof (cases "last_of (rewritten f (jobs_of env w))")
      case None
      then show ?thesis by (simp add: ret_moved[OF st])
    next
      case (Some u)
      with last_rewritten obtain c where c: "c \<in> set (jobs_of env w)" "f c = Some u" by blast
      show ?thesis
        using plain resumed[OF c refl]
        by (auto simp: Some fail_moved[OF st] intro!: or_error_moved[OF st] split: option.split)
    qed
  qed
qed

lemma all2_may_write:
  assumes "settled_store env w" and "list_all2 keeps_job (jobs_of env w) xs"
  shows "may_write env w xs"
proof -
  have ids: "map cj_id xs = map cj_id (jobs_of env w)"
    using assms(2) by (induction rule: list_all2_induct) (simp_all add: keeps_job_def)
  have "distinct (map cj_id xs)" using assms(1) unfolding ids by (simp add: settled_store_def ids_apart_def)
  moreover have "list_all job_wf xs"
    using assms(2) jobs_of_wf[of env w] by (induction rule: list_all2_induct) (simp_all add: keeps_job_def)
  moreover have "cj_id ` set (jobs_of env w) = cj_id ` set xs" using ids by (metis set_map)
  moreover have "\<exists>j \<in> set (jobs_of env w). keeps_job j k" if "k \<in> set xs" for k
    using assms(2) that by (metis in_set_conv_nth list_all2_conv_all_nth)
  ultimately show ?thesis by (simp add: may_write_def)
qed

lemma apply_status_parts: "cj_id (apply_rlm_status now st j) = cj_id j \<and> cj_run_count (apply_rlm_status now st j) = cj_run_count j
    \<and> cj_schedule (apply_rlm_status now st j) = cj_schedule j"
  by (cases st) (auto simp: apply_rlm_status_def split: rlm_status_update.split)

lemma apply_schedule_parts:
  "apply_rlm_schedule lower now u j = Inr (Some k) \<Longrightarrow>
     cj_id k = cj_id j \<and> cj_run_count k = cj_run_count j \<and> (cj_schedule k = cj_schedule j \<or> schedule_wf (cj_schedule k))"
  by (auto simp: apply_rlm_schedule_def dest!: parsed_schedule_wf split: option.splits sum.splits cron_error.splits if_splits)

lemma rlm_updated_keeps:
  assumes "rlm_updated lower now u j = Inr (Some k)" and "\<not> closed j"
  shows "keeps_job j k"
proof -
  define a where "a = (case ru_label u of None \<Rightarrow> j | Some l \<Rightarrow> j\<lparr>cj_label := normalize_optional_label (Some l)\<rparr>)"
  define b where "b = (case ru_delivery_mode u of None \<Rightarrow> a | Some m \<Rightarrow> a\<lparr>cj_delivery_mode := Some m\<rparr>)"
  define c where "c = (case ru_prompt u of None \<Rightarrow> b | Some p \<Rightarrow> b\<lparr>cj_prompt := trim p\<rparr>)"
  have parts: "cj_id c = cj_id j" "cj_run_count c = cj_run_count j" "cj_schedule c = cj_schedule j"
    by (simp_all add: a_def b_def c_def split: option.split)
  obtain d where d: "apply_rlm_schedule lower now u c = Inr (Some d)"
    and k: "k = (apply_rlm_status now (ru_status u) d)\<lparr>cj_updated_at := iso_from_millis now\<rparr>"
    using assms(1) unfolding rlm_updated_def Let_def a_def[symmetric] b_def[symmetric] c_def[symmetric] map_sum_def
    by (auto split: if_splits sum.splits)
  note p = apply_schedule_parts[OF d] apply_status_parts[of now "ru_status u" d]
  have "job_wf j \<Longrightarrow> job_wf k"
    using p parts k by (auto simp: job_wf_def schedule_wf_def)
  with p parts k assms(2) show ?thesis by (intro keeps_open) simp_all
qed

lemma rlm_loop_keeps:
  assumes "rlm_update_loop chosen f jobs = Inr (u, jobs')" and "\<And>j k. \<not> closed j \<Longrightarrow> f j = Inr (Some k) \<Longrightarrow> keeps_job j k"
  shows "list_all2 keeps_job jobs jobs'"
  using assms(1)
proof (induction jobs arbitrary: u jobs')
  case (Cons j js)
  from Cons.prems obtain v u1 rest where
    v: "(if chosen j \<and> \<not> (cj_status j = JobCancelled \<or> cj_status j = JobCompleted) then f j else Inr None) = Inr v" and
    r: "rlm_update_loop chosen f js = Inr (u1, rest)" and
    jobs': "jobs' = (case v of None \<Rightarrow> j | Some k \<Rightarrow> k) # rest"
    by (auto split: sum.splits)
  have "keeps_job j (case v of None \<Rightarrow> j | Some k \<Rightarrow> k)"
    using v assms(2)[of j] by (auto simp: closed_def split: option.split if_splits)
  with Cons.IH[OF r] jobs' show ?case by simp
qed simp

lemma update_rlm_moved: "settled_store env w \<Longrightarrow> moved env w (snd (update_rlm_heartbeat env s i u w))"
  unfolding update_rlm_heartbeat_def
proof (rule now_or_moved, assumption, rule read_jobs_moved, assumption, unfold Let_def, rule or_error_moved, assumption)
  fix now w' and x :: "cron_job option \<times> cron_job list"
  let ?chosen = "\<lambda>j. cj_id j = i \<and> rlm_heartbeat s j"
  assume st: "settled_store env w'"
    and x: "rlm_update_loop ?chosen (rlm_updated (ce_lower env) now u) (jobs_of env w') = Inr x"
  obtain v js where vj: "x = (v, js)" by (cases x)
  have "list_all2 keeps_job (jobs_of env w') js"
    by (rule rlm_loop_keeps[OF x[unfolded vj]]) (rule rlm_updated_keeps)
  from write_jobs_moved[OF st all2_may_write[OF st this]]
  show "moved env w' (snd ((case x of (updated, jobs') \<Rightarrow>
      if \<not> list_ex ?chosen (jobs_of env w') then ret None
      else case updated of None \<Rightarrow> fail (Refused rlm_update_rejected)
           | Some job \<Rightarrow> thn (write_jobs env jobs') (ret (Some job))) w'))"
    by (auto simp: vj ret_moved[OF st] fail_moved[OF st] split: option.split)
qed

section \<open>Runs\<close>

lemma apply_op_moved: "settled_store env w \<Longrightarrow> moved env w (apply_op env p w)"
  by (cases p)
    (simp_all add: create_moved rebind_moved cancel_session_moved cancel_moved record_run_moved record_skip_moved
      defer_moved claim_moved settle_moved recover_moved recover_session_moved create_heartbeat_moved pause_beat_moved
      resume_beat_moved clear_beat_moved manage_moved create_rlm_moved update_rlm_moved delete_rlm_moved cancel_rlm_moved)

lemma run_moved: "settled_store env w \<Longrightarrow> moved env w (fold (apply_op env) ops w)"
proof (induction ops arbitrary: w)
  case Nil
  then show ?case by (simp add: same_moved)
next
  case (Cons p ops)
  have m: "moved env w (apply_op env p w)" using Cons.prems by (rule apply_op_moved)
  then have "settled_store env (apply_op env p w)" by (simp add: moved_def)
  from moved_trans_store[OF m Cons.IH[OF this]] show ?case by simp
qed

end
