(* ===== verification/CronScheduler.thy ===== *)
theory CronScheduler
  imports CronHistory
begin

text \<open>
  \<open>pa-core/src/cron/scheduler.rs\<close>: a pass claims the due jobs and runs their dispatches
  concurrently, each under the lane of its session. The dispatches of a pass are the futures of one
  \<open>join_all\<close>; what happens to them between two await points is one event, so a list of events is one
  interleaving of them with each other and with every other user of the store. The lanes are the
  map of the code: a dispatch that arrives takes the lane its session has there or puts a new one
  in, and one that is through takes the session out again. The wake timer, which only decides when
  a pass begins, is left out.
\<close>

section \<open>The backoff\<close>

definition failure_backoff_base_ms :: nat where
  "failure_backoff_base_ms = 120000"

definition failure_backoff_cap_ms :: nat where
  "failure_backoff_cap_ms = 3600000"

definition failure_backoff_ms :: "nat \<Rightarrow> nat" where
  "failure_backoff_ms consecutive_failures =
     min (saturating_mul failure_backoff_base_ms (saturating_pow 2 (saturating_sub consecutive_failures 1)))
       failure_backoff_cap_ms"

section \<open>Passes\<close>

text \<open>
  The stages of \<open>queue_dispatch\<close> and \<open>run_dispatch\<close>: not polled yet, waiting for a lane, running
  the job, after the result of a failed run was recorded, through with the job and about to take
  the session out of the map, done with what \<open>run_job\<close> returned. A lane is known by its number, and
  a task keeps the place it has in the queue of its lane's mutex.
\<close>

datatype stage =
    Queued
  | Waiting nat
  | Running nat cron_job
  | Recorded nat
  | Leaving nat "string option"
  | Finished "string option"

record task =
  tk_dispatch :: cron_dispatch
  tk_stage :: stage
  tk_ticket :: nat

record scheduler =
  sd_store :: cron_world
  sd_streaks :: "string \<Rightarrow> nat option"
  sd_lanes :: "string \<Rightarrow> nat option"   \<comment> \<open>\<open>dispatch_lanes\<close>\<close>
  sd_next_lane :: nat
  sd_next_ticket :: nat
  sd_tasks :: "task list"
  sd_running :: bool
  sd_stopped :: bool
  sd_started :: bool

definition task_session :: "task \<Rightarrow> string" where
  "task_session t = cj_active_session_id (cd_job (tk_dispatch t))"

definition task_job_id :: "task \<Rightarrow> string" where
  "task_job_id t = cj_id (cd_job (tk_dispatch t))"

fun stage_lane :: "stage \<Rightarrow> nat option" where
  "stage_lane (Waiting l) = Some l"
| "stage_lane (Running l _) = Some l"
| "stage_lane (Recorded l) = Some l"
| "stage_lane (Leaving l _) = Some l"
| "stage_lane _ = None"

definition arrived :: "task \<Rightarrow> bool" where
  "arrived t \<longleftrightarrow> tk_stage t \<noteq> Queued"

definition waits :: "task \<Rightarrow> bool" where
  "waits t \<longleftrightarrow> (case tk_stage t of Waiting _ \<Rightarrow> True | _ \<Rightarrow> False)"

definition holds_lane :: "task \<Rightarrow> bool" where
  "holds_lane t \<longleftrightarrow> stage_lane (tk_stage t) \<noteq> None \<and> \<not> waits t"

text \<open>The lane a task waits for is free, and no task waits for it before it: the mutex is fair.\<close>

definition lane_free :: "task list \<Rightarrow> nat \<Rightarrow> bool" where
  "lane_free ts i \<longleftrightarrow>
     list_all (\<lambda>t. stage_lane (tk_stage t) = stage_lane (tk_stage (ts ! i)) \<longrightarrow>
                  \<not> holds_lane t \<and> tk_ticket (ts ! i) \<le> tk_ticket t) ts"

definition set_stage :: "nat \<Rightarrow> stage \<Rightarrow> scheduler \<Rightarrow> scheduler" where
  "set_stage i st s = s\<lparr>sd_tasks := (sd_tasks s)[i := (sd_tasks s ! i)\<lparr>tk_stage := st\<rparr>]\<rparr>"

definition on_store :: "'a cron_prog \<Rightarrow> scheduler \<Rightarrow> scheduler" where
  "on_store m s = s\<lparr>sd_store := snd (m (sd_store s))\<rparr>"

text \<open>\<open>note_run_failure\<close> and \<open>clear_run_failure\<close>\<close>

definition next_streak :: "(string \<Rightarrow> nat option) \<Rightarrow> string \<Rightarrow> nat" where
  "next_streak streaks i = min (case streaks i of None \<Rightarrow> 1 | Some n \<Rightarrow> n + 1) (2 ^ 32 - 1)"

definition note_run_failure :: "string \<Rightarrow> scheduler \<Rightarrow> scheduler" where
  "note_run_failure i s = s\<lparr>sd_streaks := (sd_streaks s)(i \<mapsto> next_streak (sd_streaks s) i)\<rparr>"

definition clear_run_failure :: "string \<Rightarrow> scheduler \<Rightarrow> scheduler" where
  "clear_run_failure i s = s\<lparr>sd_streaks := (sd_streaks s)(i := None)\<rparr>"

text \<open>
  The first poll of \<open>queue_dispatch\<close>: the lane of the session, a new one if the map has none. And
  its end: the session is taken out of the map, and the lane's guard is dropped.
\<close>

definition arrive :: "nat \<Rightarrow> scheduler \<Rightarrow> scheduler" where
  "arrive i s =
     (let t = sd_tasks s ! i;
          l = (case sd_lanes s (task_session t) of Some l \<Rightarrow> l | None \<Rightarrow> sd_next_lane s)
      in s\<lparr>sd_lanes := (sd_lanes s)(task_session t \<mapsto> l),
           sd_next_lane := (if sd_lanes s (task_session t) = None then Suc l else sd_next_lane s),
           sd_next_ticket := Suc (sd_next_ticket s),
           sd_tasks := (sd_tasks s)[i := t\<lparr>tk_stage := Waiting l, tk_ticket := sd_next_ticket s\<rparr>]\<rparr>)"

definition leave :: "nat \<Rightarrow> string option \<Rightarrow> scheduler \<Rightarrow> scheduler" where
  "leave i result s =
     set_stage i (Finished result) (s\<lparr>sd_lanes := (sd_lanes s)(task_session (sd_tasks s ! i) := None)\<rparr>)"

datatype event =
    StartScheduler nat
  | StopScheduler
  | BeginPass nat nat
  | Arrive nat
  | StartRun nat nat
  | RunReturns nat "string option" nat
  | RunFails nat string nat
  | BackOff nat nat
  | Leave nat
  | EndPass
  | UnwindPass
  | Elsewhere cron_op

text \<open>A task gets the lane: it finds its job still claimed and runs it, or skips the dispatch.\<close>

definition start_run :: "cron_env \<Rightarrow> nat \<Rightarrow> nat \<Rightarrow> nat \<Rightarrow> scheduler \<Rightarrow> scheduler" where
  "start_run env i l now s =
     (let d = tk_dispatch (sd_tasks s ! i)
      in case get_claimed_job env (cj_id (cd_job d)) (sd_store s) of
           (Inr (Some job), _) \<Rightarrow> set_stage i (Running l job) s
         | _ \<Rightarrow> set_stage i (Leaving l (Some ''skipped''))
                  (on_store (record_dispatch_result env (cd_id d) (Some now) Skipped None) s))"

text \<open>\<open>run_job\<close> returns without an error.\<close>

definition run_returns :: "cron_env \<Rightarrow> nat \<Rightarrow> nat \<Rightarrow> string option \<Rightarrow> nat \<Rightarrow> scheduler \<Rightarrow> scheduler" where
  "run_returns env i l result now s =
     (let d = tk_dispatch (sd_tasks s ! i);
          outcome = (if result = Some ''skipped'' then Skipped else Ran);
          recorded = on_store (record_dispatch_result env (cd_id d) (Some now) outcome None) s
      in set_stage i (Leaving l result)
           (if outcome = Ran then clear_run_failure (cj_id (cd_job d)) recorded else recorded))"

definition run_fails :: "cron_env \<Rightarrow> nat \<Rightarrow> nat \<Rightarrow> string \<Rightarrow> nat \<Rightarrow> scheduler \<Rightarrow> scheduler" where
  "run_fails env i l message now s =
     set_stage i (Recorded l)
       (on_store (record_dispatch_result env (cd_id (tk_dispatch (sd_tasks s ! i))) (Some now) Ran (Some message)) s)"

definition back_off :: "cron_env \<Rightarrow> nat \<Rightarrow> nat \<Rightarrow> nat \<Rightarrow> scheduler \<Rightarrow> scheduler" where
  "back_off env i l now s =
     (let job_id = task_job_id (sd_tasks s ! i);
          noted = note_run_failure job_id s
      in set_stage i (Leaving l None)
           (on_store (defer_next_run env job_id
              (add_u64 now (failure_backoff_ms (next_streak (sd_streaks s) job_id)))) noted))"

text \<open>\<open>run_due_at\<close> up to the hand-out of its dispatches, and its end. It returns \<open>0\<close> unless it may run.\<close>

definition begin_pass :: "cron_env \<Rightarrow> nat \<Rightarrow> nat \<Rightarrow> scheduler \<Rightarrow> scheduler" where
  "begin_pass env due_at claimed_at s =
     (if (sd_stopped s \<and> sd_started s) \<or> sd_running s then s
      else
        let w = snd (recover_interrupted_dispatches env due_at (sd_store s))
        in case claim_due env due_at claimed_at w of
             (Inl _, w') \<Rightarrow> s\<lparr>sd_store := w', sd_tasks := []\<rparr>
           | (Inr ds, w') \<Rightarrow>
               s\<lparr>sd_store := w', sd_running := True,
                 sd_tasks := map (\<lambda>d. \<lparr>tk_dispatch = d, tk_stage = Queued, tk_ticket = 0\<rparr>) ds\<rparr>)"

definition ran_count :: "task list \<Rightarrow> nat" where
  "ran_count ts = length (filter (\<lambda>t. tk_stage t \<noteq> Finished (Some ''skipped'')) ts)"

definition stage_of :: "scheduler \<Rightarrow> nat \<Rightarrow> stage option" where
  "stage_of s i = (if i < length (sd_tasks s) then Some (tk_stage (sd_tasks s ! i)) else None)"

fun step_event :: "cron_env \<Rightarrow> event \<Rightarrow> scheduler \<Rightarrow> scheduler option" where
  "step_event env (StartScheduler now) s =
     Some ((if sd_started s then id else on_store (recover_interrupted_dispatches env now))
             (s\<lparr>sd_stopped := False, sd_started := True\<rparr>))"
| "step_event env StopScheduler s = Some (s\<lparr>sd_stopped := True\<rparr>)"
| "step_event env (BeginPass due_at claimed_at) s = Some (begin_pass env due_at claimed_at s)"
| "step_event env (Arrive i) s = (if stage_of s i = Some Queued then Some (arrive i s) else None)"
| "step_event env (StartRun i now) s =
     (case stage_of s i of
        Some (Waiting l) \<Rightarrow> if lane_free (sd_tasks s) i then Some (start_run env i l now s) else None
      | _ \<Rightarrow> None)"
| "step_event env (RunReturns i result now) s =
     (case stage_of s i of Some (Running l _) \<Rightarrow> Some (run_returns env i l result now s) | _ \<Rightarrow> None)"
| "step_event env (RunFails i message now) s =
     (case stage_of s i of Some (Running l _) \<Rightarrow> Some (run_fails env i l message now s) | _ \<Rightarrow> None)"
| "step_event env (BackOff i now) s =
     (case stage_of s i of Some (Recorded l) \<Rightarrow> Some (back_off env i l now s) | _ \<Rightarrow> None)"
| "step_event env (Leave i) s =
     (case stage_of s i of Some (Leaving _ result) \<Rightarrow> Some (leave i result s) | _ \<Rightarrow> None)"
| "step_event env EndPass s =
     (if sd_running s \<and> list_all (\<lambda>t. case tk_stage t of Finished _ \<Rightarrow> True | _ \<Rightarrow> False) (sd_tasks s)
      then Some (s\<lparr>sd_running := False, sd_tasks := []\<rparr>) else None)"
| "step_event env UnwindPass s = Some (s\<lparr>sd_running := False, sd_tasks := []\<rparr>)"
| "step_event env (Elsewhere p) s = Some (s\<lparr>sd_store := apply_op env p (sd_store s)\<rparr>)"

fun run_pass_events :: "cron_env \<Rightarrow> event list \<Rightarrow> scheduler \<Rightarrow> scheduler option" where
  "run_pass_events env [] s = Some s"
| "run_pass_events env (e # es) s =
     (case step_event env e s of None \<Rightarrow> None | Some s' \<Rightarrow> run_pass_events env es s')"

text \<open>
  \<open>join_all\<close> polls its futures for the first time in their order, and polls none again before each
  had that first poll: an event of a task comes when all tasks before it have arrived, and, unless
  all have, none after it. That is how it runs as long as no first poll is put off (the mutexes of
  the runtime give up when a poll has used up its cooperative budget).
\<close>

fun event_task :: "event \<Rightarrow> nat option" where
  "event_task (Arrive i) = Some i"
| "event_task (StartRun i _) = Some i"
| "event_task (RunReturns i _ _) = Some i"
| "event_task (RunFails i _ _) = Some i"
| "event_task (BackOff i _) = Some i"
| "event_task (Leave i) = Some i"
| "event_task _ = None"

definition join_order :: "task list \<Rightarrow> nat \<Rightarrow> bool" where
  "join_order ts i \<longleftrightarrow>
     list_all arrived (take i ts) \<and> (list_all arrived ts \<or> list_all (\<lambda>t. \<not> arrived t) (drop (Suc i) ts))"

fun polled_in_order :: "cron_env \<Rightarrow> event list \<Rightarrow> scheduler \<Rightarrow> bool" where
  "polled_in_order env [] s = True"
| "polled_in_order env (e # es) s =
     ((case event_task e of None \<Rightarrow> True | Some i \<Rightarrow> join_order (sd_tasks s) i)
      \<and> (case step_event env e s of None \<Rightarrow> True | Some s' \<Rightarrow> polled_in_order env es s'))"

end
