(* ===== verification/CronProps.thy ===== *)
theory CronProps
  imports CronScheduler
begin

text \<open>The properties of the schedules and of the job store, each with its witness.\<close>

section \<open>Claims\<close>

definition sound_file :: "cron_jobs_state \<Rightarrow> bool" where
  "sound_file s \<longleftrightarrow> distinct (map cj_id (js_jobs s)) \<and> distinct (map dp_job_id (js_dispatches s))"

lemma claim_due_run:
  assumes "steady env w"
  shows "case claim_due env due_at claimed_at w of
      (Inl e, w') \<Rightarrow> e = CronPanic \<and> (\<exists>p \<in> set (paths_of env w). \<exists>j \<in> set (js_jobs (file_at w p)). is_due_job j due_at = None)
    | (Inr ds, w') \<Rightarrow>
        (\<exists>outs. ds = concat outs
           \<and> list_all2 (\<lambda>p out. claimed_state due_at claimed_at (file_at w p) out (file_at w' p)) (paths_of env w) outs)
        \<and> steady env w' \<and> paths_of env w' = paths_of env w"
proof -
  obtain r w' where m: "mutate_states env (claim_due_in_state env due_at claimed_at) w = (r, w')"
    by (cases "mutate_states env (claim_due_in_state env due_at claimed_at) w")
  note run = mutate_states_run[OF claim_mutator assms, of due_at claimed_at env, unfolded m]
  show ?thesis
  proof (cases r)
    case (Inl e)
    with run m show ?thesis by (auto simp: claim_due_def mon_simps)
  next
    case (Inr outs)
    with run have "same_store w w'" by simp
    from steady_cong[OF assms this] run m Inr show ?thesis by (auto simp: claim_due_def mon_simps)
  qed
qed

definition due_unclaimed :: "nat \<Rightarrow> cron_jobs_state \<Rightarrow> cron_job list" where
  "due_unclaimed due_at s = to_dispatch (set (map dp_job_id (js_dispatches s))) due_at (js_jobs s)"

lemma claimed_outs:
  "list_all2 (\<lambda>p out. claimed_state due_at claimed_at (file_at w p) out (file_at w' p)) ps outs \<Longrightarrow>
    map cd_job (concat outs) = concat (map (\<lambda>p. map (claimed_job claimed_at) (due_unclaimed due_at (file_at w p))) ps)"
  by (induction ps outs rule: list_all2_induct) (simp_all add: claimed_state_def Let_def due_unclaimed_def)

lemma claimed_files:
  "list_all2 (\<lambda>p out. claimed_state due_at claimed_at (file_at w p) out (file_at w' p)) ps outs \<Longrightarrow>
    p \<in> set ps \<Longrightarrow> \<exists>out. claimed_state due_at claimed_at (file_at w p) out (file_at w' p)"
  by (auto simp: list_all2_conv_all_nth in_set_conv_nth)

lemma idle_claim:
  assumes "steady env w"
    and idle: "\<forall>p \<in> set (paths_of env w). \<forall>j \<in> set (js_jobs (file_at w p)). is_due_job j due_at = Some False"
  shows "\<exists>w'. claim_due env due_at claimed_at w = (Inr [], w')"
proof -
  obtain r w' where m: "claim_due env due_at claimed_at w = (r, w')" by (cases "claim_due env due_at claimed_at w")
  note run = claim_due_run[OF assms(1), of due_at claimed_at, unfolded m]
  show ?thesis
  proof (cases r)
    case (Inl e)
    with run idle show ?thesis by force
  next
    case (Inr ds)
    with run obtain outs where ds: "ds = concat outs"
      "list_all2 (\<lambda>p out. claimed_state due_at claimed_at (file_at w p) out (file_at w' p)) (paths_of env w) outs" by auto
    have "due_unclaimed due_at (file_at w p) = []" if "p \<in> set (paths_of env w)" for p
      using idle that by (auto simp: due_unclaimed_def to_dispatch_def due_now_def filter_empty_conv)
    then have "map cd_job ds = []" unfolding ds(1) claimed_outs[OF ds(2)] by (simp add: concat_eq_Nil_conv)
    with m Inr show ?thesis by simp
  qed
qed


section \<open>Closed jobs\<close>

lemma claimed_jobs_active:
  assumes "claimed_state due_at claimed_at s ds s'" and "d \<in> set ds"
  shows "\<exists>j \<in> set (js_jobs s). cj_id (cd_job d) = cj_id j \<and> cj_status j = JobActive"
proof -
  have "cd_job d \<in> set (map cd_job ds)" using assms(2) by simp
  then obtain j where j: "j \<in> set (to_dispatch (set (map dp_job_id (js_dispatches s))) due_at (js_jobs s))"
    "cd_job d = claimed_job claimed_at j"
    using assms(1) unfolding claimed_state_def Let_def by auto
  then have "cj_status j = JobActive" by (auto simp: to_dispatch_def due_now_def is_due_job_def split: if_splits)
  with j show ?thesis by (auto simp: to_dispatch_def claimed_job_def)
qed

lemma claims_are_active:
  assumes "settled_store env w" and "claim_due env due_at claimed_at w = (Inr ds, w')" and "d \<in> set ds"
  shows "\<exists>j \<in> set (jobs_of env w). cj_id (cd_job d) = cj_id j \<and> cj_status j = JobActive"
proof -
  have "steady env w" using assms(1) by (simp add: settled_store_def)
  from claim_due_run[OF this, of due_at claimed_at, unfolded assms(2)]
  obtain outs where ds: "ds = concat outs"
    "list_all2 (\<lambda>p out. claimed_state due_at claimed_at (file_at w p) out (file_at w' p)) (paths_of env w) outs"
    unfolding prod.case sum.case by blast
  obtain out where o: "out \<in> set outs" "d \<in> set out" using assms(3) ds(1) by auto
  then obtain i where i: "i < length outs" "outs ! i = out" by (auto simp: in_set_conv_nth)
  define p where "p = paths_of env w ! i"
  have p: "p \<in> set (paths_of env w)" "claimed_state due_at claimed_at (file_at w p) out (file_at w' p)"
    using list_all2_lengthD[OF ds(2)] list_all2_nthD2[OF ds(2) i(1)] i by (simp_all add: p_def)
  from claimed_jobs_active[OF p(2) o(2)] p(1) show ?thesis by (auto simp: jobs_of_def)
qed

lemma claimed_in_states_in:
  "claimed_in_states i states = Some j \<Longrightarrow>
    (\<exists>s \<in> set states. j \<in> set (js_jobs s)) \<and> cj_id j = i \<and> cj_status j = JobActive"
  by (induction states) (auto simp: find_Some_iff split: if_splits dest: nth_mem)

text \<open>
  C8. A completed job never runs again and a cancelled one stays cancelled: after any sequence of
  store operations (the scheduler's, the user's and the agent's), one after another, the job is still
  there and closed, no claim hands it out, and a dispatch of it that is still pending finds no job
  to run. The store is settled (\<open>settled_store\<close>): its writes succeed, its jobs and the ids still to be
  drawn are distinct, and its sessions stay registered.
\<close>

theorem closed_job_never_runs:
  assumes "settled_store env w" and "j \<in> set (jobs_of env w)" and "closed j"
    and "w' = fold (apply_op env) ops w"
  shows "(\<exists>k \<in> set (jobs_of env w'). cj_id k = cj_id j \<and> closed k \<and> (cj_status j = JobCancelled \<longrightarrow> cj_status k = JobCancelled))
    \<and> (\<forall>due_at claimed_at. case claim_due env due_at claimed_at w' of
           (Inl e, _) \<Rightarrow> True | (Inr ds, _) \<Rightarrow> \<forall>d \<in> set ds. cj_id (cd_job d) \<noteq> cj_id j)
    \<and> fst (get_claimed_job env (cj_id j) w') = Inr None"
proof (intro conjI)
  have m: "moved env w w'" using run_moved[OF assms(1)] assms(4) by simp
  then have st: "settled_store env w'" by (simp add: moved_def)
  obtain k where k: "k \<in> set (jobs_of env w')" "keeps_job j k" using m assms(2) unfolding moved_def by blast
  then have ck: "cj_id k = cj_id j" "closed k" using assms(3) by (simp_all add: keeps_job_def)
  show "\<exists>k \<in> set (jobs_of env w'). cj_id k = cj_id j \<and> closed k \<and> (cj_status j = JobCancelled \<longrightarrow> cj_status k = JobCancelled)"
    using k ck by (auto simp: keeps_job_def)
  have other: "cj_id i \<noteq> cj_id j" if "i \<in> set (jobs_of env w')" "cj_status i = JobActive" for i
    using same_id_same_job[OF st that(1) k(1)] ck active_open[OF that(2)] by auto
  show "\<forall>due_at claimed_at. case claim_due env due_at claimed_at w' of
           (Inl e, _) \<Rightarrow> True | (Inr ds, _) \<Rightarrow> \<forall>d \<in> set ds. cj_id (cd_job d) \<noteq> cj_id j"
    using claims_are_active[OF st] other by (force split: prod.split sum.split)
  have s: "steady env w'" using st by (simp add: settled_store_def)
  have "claimed_in_states (cj_id j) (map (\<lambda>p. file_at w' p) (paths_of env w')) = None"
  proof (rule ccontr)
    assume "\<not> ?thesis"
    then obtain i where "claimed_in_states (cj_id j) (map (\<lambda>p. file_at w' p) (paths_of env w')) = Some i" by auto
    from claimed_in_states_in[OF this] other show False by (auto simp: jobs_of_def)
  qed
  then show "fst (get_claimed_job env (cj_id j) w') = Inr None"
    by (simp add: get_claimed_job_def read_states_def mon_simps store_paths_run[OF s] file_at_def[symmetric])
qed

text \<open>
  One after another matters: an operation that read the jobs before a cancel writes its copy after it,
  and the merge, which looks at the stamps only, lets the copy with the later stamp win. So a skip (or
  a run result, or a resume) whose clock was read after that of the cancel brings the job back.
\<close>

lemma fresher_copy_wins:
  assumes "cj_id k = cj_id c" and "is_at_least_as_fresh k c = Some True"
  shows "fst (merge_fresh_jobs env [c] [k] w) = Inr (ce_order env (cw_merges w) [k])"
  using assms by (simp add: merge_fresh_jobs_def mon_simps or_panic_def put_job_def)

lemma stale_copy_reopens:
  assumes "cj_status job = JobActive" and "cancelled_at \<le> now" and "now < time_limit"
  shows "fst (merge_fresh_jobs env [cancelled_job (iso_from_millis cancelled_at) job] [skipped_now now job] w)
      = Inr (ce_order env (cw_merges w) [skipped_now now job])
    \<and> cj_status (skipped_now now job) = JobActive"
proof -
  have "cancelled_at < time_limit" using assms by simp
  then have "is_at_least_as_fresh (skipped_now now job) (cancelled_job (iso_from_millis cancelled_at) job) = Some True"
    using assms(2) by (simp add: is_at_least_as_fresh_def skipped_now_def cancelled_job_def iso_round_trip assms(3))
  moreover have "cj_id (skipped_now now job) = cj_id (cancelled_job (iso_from_millis cancelled_at) job)"
    by (simp add: skipped_now_def cancelled_job_def)
  ultimately have "fst (merge_fresh_jobs env [cancelled_job (iso_from_millis cancelled_at) job] [skipped_now now job] w)
      = Inr (ce_order env (cw_merges w) [skipped_now now job])" by (rule fresher_copy_wins[rotated])
  moreover have "cj_status (skipped_now now job) = JobActive" using assms(1) by (simp add: skipped_now_def)
  ultimately show ?thesis by simp
qed

section \<open>The next run of a schedule\<close>

text \<open>A date and time in the five fields, by the calendar that writes the timestamps.\<close>

definition on_schedule :: "cron_fields \<Rightarrow> nat \<Rightarrow> bool" where
  "on_schedule fs t \<longleftrightarrow>
     (case civil_from_days (int (t div 86400000)) of
        (_, month, day) \<Rightarrow>
          nat month \<in> cf_month fs \<and> nat day \<in> cf_day_of_month fs
          \<and> t div 3600000 mod 24 \<in> cf_hour fs \<and> t div 60000 mod 60 \<in> cf_minute fs
          \<and> ((t div 86400000 + 4) mod 7 \<in> cf_day_of_week fs
              \<or> (t div 86400000 + 4) mod 7 = 0 \<and> 7 \<in> cf_day_of_week fs))"

lemma matches_on_schedule: "matches_cron_fields t fs = on_schedule fs t"
  unfolding matches_cron_fields_def on_schedule_def civil_time_date
  by (cases "civil_from_days (int (t div 86400000))") auto

text \<open>
  C18. The next run of a cron line is the first minute after the given time whose date and time are
  in the five fields, found within the search window; an error means that the line is no cron line
  or that no minute of the window matches. The dates are those of the calendar that writes the
  timestamps, and a timestamp of such a minute is read back as the minute.
\<close>

theorem cron_run_is_the_first_match:
  assumes "now + 2 * search_window < time_limit"
  shows "case next_cron_run_after line now of
      Inr t \<Rightarrow> (\<exists>fs. parse_cron_expression line = Inr fs \<and> t \<in> minutes_after now \<and> on_schedule fs t
                 \<and> (\<forall>u \<in> minutes_after now. u < t \<longrightarrow> \<not> on_schedule fs u))
               \<and> parse_iso_millis (iso_from_millis t) = Some (Some t)
    | Inl _ \<Rightarrow> (\<exists>err. parse_cron_expression line = Inl err)
               \<or> (\<exists>fs. parse_cron_expression line = Inr fs \<and> (\<forall>u \<in> minutes_after now. \<not> on_schedule fs u))"
proof -
  have now: "now < time_limit" using assms by simp
  have "timely now \<lparr>sc_kind = KindCron, sc_expression = line, sc_interval_ms = None\<rparr>"
    using assms by (simp add: timely_def)
  then have "window_end now < time_limit" by (rule window_end_timely)
  then have "t \<in> minutes_after now \<Longrightarrow> parse_iso_millis (iso_from_millis t) = Some (Some t)" for t
    by (intro iso_round_trip) (simp add: minutes_after_def)
  then show ?thesis
    using next_cron_run_cases[OF now, of line, unfolded matches_on_schedule] by (auto split: sum.splits)
qed

section \<open>The scheduler\<close>

text \<open>
  What the lanes keep while the first polls come in order: tasks of a session that wait for or hold a
  lane have the same one; a lane has one holder, and those that wait for it came later; as long as a
  task has not arrived, the map leads the session of a task to the lane the task has; and tickets are
  in the order of the tasks.
\<close>

definition one_lane :: "task list \<Rightarrow> bool" where
  "one_lane ts \<longleftrightarrow>
     (\<forall>i < length ts. \<forall>j < length ts. \<forall>l m. task_session (ts ! i) = task_session (ts ! j)
        \<longrightarrow> stage_lane (tk_stage (ts ! i)) = Some l \<longrightarrow> stage_lane (tk_stage (ts ! j)) = Some m \<longrightarrow> l = m)"

definition one_holder :: "task list \<Rightarrow> bool" where
  "one_holder ts \<longleftrightarrow>
     (\<forall>i < length ts. \<forall>j < length ts. i \<noteq> j \<longrightarrow> holds_lane (ts ! i)
        \<longrightarrow> stage_lane (tk_stage (ts ! i)) = stage_lane (tk_stage (ts ! j))
        \<longrightarrow> waits (ts ! j) \<and> tk_ticket (ts ! i) < tk_ticket (ts ! j))"

definition mapped :: "(string \<Rightarrow> nat option) \<Rightarrow> task list \<Rightarrow> bool" where
  "mapped lanes ts \<longleftrightarrow>
     (list_all arrived ts
      \<or> (\<forall>j < length ts. \<forall>l. stage_lane (tk_stage (ts ! j)) = Some l \<longrightarrow> lanes (task_session (ts ! j)) = Some l))"

definition in_turn :: "nat \<Rightarrow> task list \<Rightarrow> bool" where
  "in_turn next_ticket ts \<longleftrightarrow>
     (\<forall>j < length ts. arrived (ts ! j) \<longrightarrow> tk_ticket (ts ! j) < next_ticket)
     \<and> (\<forall>i < length ts. \<forall>j < length ts. i < j \<longrightarrow> arrived (ts ! i) \<longrightarrow> arrived (ts ! j)
          \<longrightarrow> tk_ticket (ts ! i) < tk_ticket (ts ! j))"

definition lanes_kept :: "scheduler \<Rightarrow> bool" where
  "lanes_kept s \<longleftrightarrow>
     one_lane (sd_tasks s) \<and> one_holder (sd_tasks s) \<and> mapped (sd_lanes s) (sd_tasks s)
     \<and> in_turn (sd_next_ticket s) (sd_tasks s)"

lemma lanes_kept_cong:
  "sd_tasks s' = sd_tasks s \<Longrightarrow> sd_lanes s' = sd_lanes s \<Longrightarrow> sd_next_ticket s' = sd_next_ticket s \<Longrightarrow>
   lanes_kept s' = lanes_kept s"
  by (simp add: lanes_kept_def)

lemma task_session_update [simp]:
  "task_session (t\<lparr>tk_stage := st\<rparr>) = task_session t" "task_session (t\<lparr>tk_ticket := k\<rparr>) = task_session t"
  by (simp_all add: task_session_def)

lemma lane_arrived: "stage_lane (tk_stage t) = Some l \<Longrightarrow> arrived t"
  by (auto simp: arrived_def)

lemma arrived_iff: "list_all arrived ts \<longleftrightarrow> (\<forall>j < length ts. arrived (ts ! j))"
  by (simp add: list_all_length)

lemma kept_exclusive:
  assumes "lanes_kept s" and "i < length (sd_tasks s)" and "j < length (sd_tasks s)" and "i \<noteq> j"
    and "holds_lane (sd_tasks s ! i)" and "holds_lane (sd_tasks s ! j)"
  shows "task_session (sd_tasks s ! i) \<noteq> task_session (sd_tasks s ! j)"
proof
  assume "task_session (sd_tasks s ! i) = task_session (sd_tasks s ! j)"
  moreover obtain l m where "stage_lane (tk_stage (sd_tasks s ! i)) = Some l"
    "stage_lane (tk_stage (sd_tasks s ! j)) = Some m"
    using assms(5,6) by (auto simp: holds_lane_def)
  ultimately have "stage_lane (tk_stage (sd_tasks s ! i)) = stage_lane (tk_stage (sd_tasks s ! j))"
    using assms(1-3) unfolding lanes_kept_def one_lane_def by metis
  with assms have "waits (sd_tasks s ! j)" unfolding lanes_kept_def one_holder_def by blast
  with assms(6) show False by (simp add: holds_lane_def)
qed

text \<open>A step inside a lane: the task moves on and keeps its lane.\<close>

lemma kept_move:
  assumes kept: "lanes_kept s" and i: "i < length (sd_tasks s)"
    and lane: "stage_lane st = Some l" "stage_lane (tk_stage (sd_tasks s ! i)) = Some l"
    and moved: "sd_tasks s' = (sd_tasks s)[i := (sd_tasks s ! i)\<lparr>tk_stage := st\<rparr>]"
      "sd_lanes s' = sd_lanes s" "sd_next_ticket s' = sd_next_ticket s"
    and holder: "holds_lane (sd_tasks s ! i) \<or> lane_free (sd_tasks s) i"
    and st: "\<And>k. st \<noteq> Waiting k"
  shows "lanes_kept s'"
proof -
  let ?ts = "sd_tasks s" and ?us = "sd_tasks s'"
  have len: "length ?us = length ?ts" by (simp add: moved)
  have at: "?us ! j = (if j = i then (?ts ! i)\<lparr>tk_stage := st\<rparr> else ?ts ! j)" if "j < length ?ts" for j
    using that i by (simp add: moved)
  have same: "task_session (?us ! j) = task_session (?ts ! j)" "tk_ticket (?us ! j) = tk_ticket (?ts ! j)"
    "stage_lane (tk_stage (?us ! j)) = stage_lane (tk_stage (?ts ! j))" "arrived (?us ! j) = arrived (?ts ! j)"
    if "j < length ?ts" for j
    using that lane lane_arrived[OF lane(2)] by (auto simp: at task_session_def arrived_def)
  have "one_lane ?us" "mapped (sd_lanes s') ?us" "in_turn (sd_next_ticket s') ?us"
    using kept unfolding lanes_kept_def one_lane_def mapped_def in_turn_def arrived_iff len moved(2,3)
    by (simp_all add: same cong: conj_cong imp_cong)
  moreover have "one_holder ?us"
    unfolding one_holder_def len
  proof (intro allI impI)
    fix j k assume j: "j < length ?ts" and k: "k < length ?ts" and "j \<noteq> k"
      and h: "holds_lane (?us ! j)" and eq: "stage_lane (tk_stage (?us ! j)) = stage_lane (tk_stage (?us ! k))"
    have eq': "stage_lane (tk_stage (?ts ! j)) = stage_lane (tk_stage (?ts ! k))" using eq same(3) j k by simp
    have old: "waits (?ts ! b) \<and> tk_ticket (?ts ! a) < tk_ticket (?ts ! b)"
      if "a < length ?ts" "b < length ?ts" "a \<noteq> b" "holds_lane (?ts ! a)"
        "stage_lane (tk_stage (?ts ! a)) = stage_lane (tk_stage (?ts ! b))" for a b
      using kept that unfolding lanes_kept_def one_holder_def by blast
    have free: "\<not> holds_lane (?ts ! b) \<and> tk_ticket (?ts ! i) \<le> tk_ticket (?ts ! b)"
      if "lane_free ?ts i" "b < length ?ts" "stage_lane (tk_stage (?ts ! b)) = stage_lane (tk_stage (?ts ! i))" for b
      using that unfolding lane_free_def list_all_length by blast
    have ticket: "tk_ticket (?ts ! i) \<noteq> tk_ticket (?ts ! b)"
      if "b < length ?ts" "b \<noteq> i" "stage_lane (tk_stage (?ts ! b)) = Some l" for b
      using kept that i lane_arrived[OF lane(2)] lane_arrived[OF that(3)]
      unfolding lanes_kept_def in_turn_def by (metis linorder_neqE_nat nat_neq_iff)
    show "waits (?us ! k) \<and> tk_ticket (?us ! j) < tk_ticket (?us ! k)"
    proof (cases "j = i")
      case True
      with \<open>j \<noteq> k\<close> have ki: "k \<noteq> i" by simp
      have l: "stage_lane (tk_stage (?ts ! k)) = Some l" using eq' lane True by simp
      from holder show ?thesis
      proof
        assume "holds_lane (?ts ! i)"
        from old[OF i k _ this] True eq' \<open>j \<noteq> k\<close> show ?thesis using at[OF k] at[OF i] ki i by auto
      next
        assume f: "lane_free ?ts i"
        have "\<not> holds_lane (?ts ! k) \<and> tk_ticket (?ts ! i) \<le> tk_ticket (?ts ! k)"
          using free[OF f k] l lane by simp
        moreover have "waits (?ts ! k)" using calculation l by (auto simp: holds_lane_def)
        ultimately show ?thesis using ticket[OF k ki l] at[OF k] at[OF i] True ki i by auto
      qed
    next
      case False
      with h at[OF j] have hj: "holds_lane (?ts ! j)" by simp
      have "k \<noteq> i"
      proof
        assume "k = i"
        with holder show False
        proof (elim disjE)
          assume "holds_lane (?ts ! i)"
          with old[OF i j _ this] old[OF j i _ hj] \<open>k = i\<close> eq' False show False by (auto simp: holds_lane_def)
        next
          assume "lane_free ?ts i"
          with free[OF this j] hj \<open>k = i\<close> eq' show False by simp
        qed
      qed
      with old[OF j k \<open>j \<noteq> k\<close> hj eq'] at[OF j] at[OF k] False show ?thesis by simp
    qed
  qed
  ultimately show ?thesis by (simp add: lanes_kept_def)
qed

text \<open>A task arrives.\<close>

lemma kept_arrive:
  assumes kept: "lanes_kept s" and i: "i < length (sd_tasks s)" and q: "tk_stage (sd_tasks s ! i) = Queued"
    and order: "join_order (sd_tasks s) i"
  shows "lanes_kept (arrive i s)"
proof -
  let ?ts = "sd_tasks s" and ?s' = "arrive i s"
  let ?us = "sd_tasks ?s'" and ?k = "task_session (?ts ! i)"
  define l where "l = (case sd_lanes s ?k of Some l \<Rightarrow> l | None \<Rightarrow> sd_next_lane s)"
  have us: "?us = ?ts[i := (?ts ! i)\<lparr>tk_stage := Waiting l, tk_ticket := sd_next_ticket s\<rparr>]"
    and lanes: "sd_lanes ?s' = (sd_lanes s)(?k \<mapsto> l)" and next_ticket: "sd_next_ticket ?s' = Suc (sd_next_ticket s)"
    by (simp_all add: arrive_def Let_def l_def)
  have not_all: "\<not> list_all arrived ?ts" using i q by (auto simp: list_all_length arrived_def)
  have later: "\<not> arrived (?ts ! j)" if "i < j" "j < length ?ts" for j
  proof -
    have "list_all (\<lambda>t. \<not> arrived t) (drop (Suc i) ?ts)" using order not_all by (simp add: join_order_def)
    then show ?thesis using that by (auto simp: list_all_length dest: spec[of _ "j - Suc i"])
  qed
  have map: "sd_lanes s (task_session (?ts ! j)) = Some m" if "j < length ?ts" "stage_lane (tk_stage (?ts ! j)) = Some m" for j m
    using kept that not_all unfolding lanes_kept_def mapped_def by blast
  have len: "length ?us = length ?ts" by (simp add: us)
  have at: "?us ! j = (if j = i then (?ts ! i)\<lparr>tk_stage := Waiting l, tk_ticket := sd_next_ticket s\<rparr> else ?ts ! j)"
    if "j < length ?ts" for j
    using that i by (simp add: us)
  have sess: "task_session (?us ! j) = task_session (?ts ! j)" if "j < length ?ts" for j
    using that by (simp add: at task_session_def)
  have lane: "stage_lane (tk_stage (?us ! j)) = Some m \<Longrightarrow> sd_lanes ?s' (task_session (?us ! j)) = Some m"
    if "j < length ?ts" for j m
    using map[of j m] that by (cases "j = i") (auto simp: sess at lanes l_def)
  have "one_lane ?us" unfolding one_lane_def len
    using lane by (metis option.inject)
  moreover have "mapped (sd_lanes ?s') ?us" unfolding mapped_def len using lane by blast
  moreover have turn: "in_turn (sd_next_ticket ?s') ?us"
  proof -
    have old: "arrived (?ts ! j) \<Longrightarrow> tk_ticket (?ts ! j) < sd_next_ticket s" if "j < length ?ts" for j
      using kept that unfolding lanes_kept_def in_turn_def by blast
    have old2: "tk_ticket (?ts ! a) < tk_ticket (?ts ! b)"
      if "a < length ?ts" "b < length ?ts" "a < b" "arrived (?ts ! a)" "arrived (?ts ! b)" for a b
      using kept that unfolding lanes_kept_def in_turn_def by blast
    show ?thesis
      unfolding in_turn_def len next_ticket
    proof (intro conjI allI impI)
      fix j assume "j < length ?ts" and "arrived (?us ! j)"
      then show "tk_ticket (?us ! j) < Suc (sd_next_ticket s)" using old[of j] by (cases "j = i") (simp_all add: at)
    next
      fix a b assume a: "a < length ?ts" and b: "b < length ?ts" and "a < b" and "arrived (?us ! a)" "arrived (?us ! b)"
      then show "tk_ticket (?us ! a) < tk_ticket (?us ! b)"
        using old[of a] old2[of a b] later[of b] by (cases "a = i"; cases "b = i") (simp_all add: at)
    qed
  qed
  moreover have "one_holder ?us"
    unfolding one_holder_def len
  proof (intro allI impI)
    fix j k assume j: "j < length ?ts" and k: "k < length ?ts" and "j \<noteq> k"
      and h: "holds_lane (?us ! j)" and eq: "stage_lane (tk_stage (?us ! j)) = stage_lane (tk_stage (?us ! k))"
    have "j \<noteq> i" using h at[OF i] i by (auto simp: holds_lane_def waits_def)
    with h at[OF j] have hj: "holds_lane (?ts ! j)" by simp
    show "waits (?us ! k) \<and> tk_ticket (?us ! j) < tk_ticket (?us ! k)"
    proof (cases "k = i")
      case True
      have "arrived (?ts ! j)" using hj by (auto simp: holds_lane_def intro: lane_arrived)
      then have "tk_ticket (?ts ! j) < sd_next_ticket s" using kept j unfolding lanes_kept_def in_turn_def by blast
      with True \<open>j \<noteq> i\<close> show ?thesis using at[OF j] at[OF i] i by (simp add: waits_def)
    next
      case False
      with kept j k hj \<open>j \<noteq> k\<close> eq at[OF j] at[OF k] \<open>j \<noteq> i\<close> show ?thesis
        unfolding lanes_kept_def one_holder_def by simp
    qed
  qed
  ultimately show ?thesis by (simp add: lanes_kept_def)
qed

text \<open>
  A task leaves: none waits for its lane, or all tasks have arrived, so the map is not asked again.
\<close>

lemma kept_leave:
  assumes kept: "lanes_kept s" and i: "i < length (sd_tasks s)" and st: "tk_stage (sd_tasks s ! i) = Leaving l r"
    and order: "join_order (sd_tasks s) i"
  shows "lanes_kept (leave i r s)"
proof -
  let ?ts = "sd_tasks s" and ?s' = "leave i r s"
  let ?us = "sd_tasks ?s'"
  have us: "?us = ?ts[i := (?ts ! i)\<lparr>tk_stage := Finished r\<rparr>]"
    and lanes: "sd_lanes ?s' = (sd_lanes s)(task_session (?ts ! i) := None)"
    and next_ticket: "sd_next_ticket ?s' = sd_next_ticket s"
    by (simp_all add: leave_def set_stage_def)
  have len: "length ?us = length ?ts" by (simp add: us)
  have at: "?us ! j = (if j = i then (?ts ! i)\<lparr>tk_stage := Finished r\<rparr> else ?ts ! j)" if "j < length ?ts" for j
    using that i by (simp add: us)
  have sess: "task_session (?us ! j) = task_session (?ts ! j)" "tk_ticket (?us ! j) = tk_ticket (?ts ! j)"
    "arrived (?us ! j) = arrived (?ts ! j)" if "j < length ?ts" for j
    using that st by (simp_all add: at task_session_def arrived_def)
  have lane: "stage_lane (tk_stage (?us ! j)) = Some m \<Longrightarrow> j \<noteq> i \<and> stage_lane (tk_stage (?ts ! j)) = Some m"
    if "j < length ?ts" for j m
    using that by (cases "j = i") (simp_all add: at)
  have h: "holds_lane (?us ! j) \<Longrightarrow> j \<noteq> i" if "j < length ?ts" for j
    using that by (cases "j = i") (simp_all add: at holds_lane_def)
  have li: "stage_lane (tk_stage (?ts ! i)) = Some l" and hi: "holds_lane (?ts ! i)"
    using st by (simp_all add: holds_lane_def waits_def)
  have "one_lane ?us"
    using kept unfolding lanes_kept_def one_lane_def len
    by (metis lane sess(1))
  moreover have "in_turn (sd_next_ticket ?s') ?us"
    using kept unfolding lanes_kept_def in_turn_def len next_ticket by (simp add: sess)
  moreover have "one_holder ?us"
    unfolding one_holder_def len
  proof (intro allI impI)
    fix j k assume j: "j < length ?ts" and k: "k < length ?ts" and "j \<noteq> k"
      and hj: "holds_lane (?us ! j)" and eq: "stage_lane (tk_stage (?us ! j)) = stage_lane (tk_stage (?us ! k))"
    have ji: "j \<noteq> i" using h[OF j hj] .
    obtain m where "stage_lane (tk_stage (?us ! j)) = Some m" using hj by (auto simp: holds_lane_def)
    with eq have "stage_lane (tk_stage (?us ! k)) = Some m" by simp
    from lane[OF k this] have "k \<noteq> i" by simp
    with ji kept j k hj \<open>j \<noteq> k\<close> eq at[OF j] at[OF k]
    show "waits (?us ! k) \<and> tk_ticket (?us ! j) < tk_ticket (?us ! k)"
      unfolding lanes_kept_def one_holder_def by simp
  qed
  moreover have "mapped (sd_lanes ?s') ?us"
  proof (cases "list_all arrived ?ts")
    case True
    then show ?thesis unfolding mapped_def arrived_iff len by (simp add: sess)
  next
    case False
    have other: "task_session (?ts ! j) \<noteq> task_session (?ts ! i)"
      if j: "j < length ?ts" "j \<noteq> i" and m: "stage_lane (tk_stage (?ts ! j)) = Some m" for j m
    proof
      assume "task_session (?ts ! j) = task_session (?ts ! i)"
      then have "m = l" using kept i j m li unfolding lanes_kept_def one_lane_def by metis
      then have less: "tk_ticket (?ts ! i) < tk_ticket (?ts ! j)"
        using kept i j m li hi unfolding lanes_kept_def one_holder_def by metis
      have "list_all (\<lambda>t. \<not> arrived t) (drop (Suc i) ?ts)" using order False by (simp add: join_order_def)
      then have "\<not> i < j"
        using lane_arrived[OF m] j by (auto simp: list_all_length dest: spec[of _ "j - Suc i"])
      then have "tk_ticket (?ts ! j) < tk_ticket (?ts ! i)"
        using kept i j lane_arrived[OF m] lane_arrived[OF li]
        unfolding lanes_kept_def in_turn_def by (metis linorder_neqE_nat)
      with less show False by simp
    qed
    have "sd_lanes s (task_session (?ts ! j)) = Some m"
      if "j < length ?ts" "stage_lane (tk_stage (?ts ! j)) = Some m" for j m
      using kept that False unfolding lanes_kept_def mapped_def by blast
    then show ?thesis
      unfolding mapped_def len lanes using other lane sess(1) by (metis fun_upd_other)
  qed
  ultimately show ?thesis by (simp add: lanes_kept_def)
qed

lemma stage_of_Some: "stage_of s i = Some st \<Longrightarrow> i < length (sd_tasks s) \<and> tk_stage (sd_tasks s ! i) = st"
  by (simp add: stage_of_def split: if_splits)

lemma scheduler_after [simp]:
  "sd_tasks (on_store m s) = sd_tasks s" "sd_lanes (on_store m s) = sd_lanes s"
  "sd_next_ticket (on_store m s) = sd_next_ticket s"
  "sd_tasks (note_run_failure j s) = sd_tasks s" "sd_lanes (note_run_failure j s) = sd_lanes s"
  "sd_next_ticket (note_run_failure j s) = sd_next_ticket s"
  "sd_tasks (clear_run_failure j s) = sd_tasks s" "sd_lanes (clear_run_failure j s) = sd_lanes s"
  "sd_next_ticket (clear_run_failure j s) = sd_next_ticket s"
  "sd_tasks (set_stage i st s) = (sd_tasks s)[i := (sd_tasks s ! i)\<lparr>tk_stage := st\<rparr>]"
  "sd_lanes (set_stage i st s) = sd_lanes s" "sd_next_ticket (set_stage i st s) = sd_next_ticket s"
  by (simp_all add: on_store_def note_run_failure_def clear_run_failure_def set_stage_def)

lemma start_run_moves:
  obtains st where "sd_tasks (start_run env i l now s) = (sd_tasks s)[i := (sd_tasks s ! i)\<lparr>tk_stage := st\<rparr>]"
    and "stage_lane st = Some l" and "\<And>k. st \<noteq> Waiting k" and "sd_lanes (start_run env i l now s) = sd_lanes s"
    and "sd_next_ticket (start_run env i l now s) = sd_next_ticket s"
proof -
  obtain r w where r: "get_claimed_job env (cj_id (cd_job (tk_dispatch (sd_tasks s ! i)))) (sd_store s) = (r, w)"
    by fastforce
  consider (job) job where "r = Inr (Some job)" | (skip) "\<forall>job. r \<noteq> Inr (Some job)" by blast
  then show ?thesis
  proof cases
    case job
    with that[of "Running l job"] show ?thesis by (simp add: start_run_def r)
  next
    case skip
    then have "start_run env i l now s = set_stage i (Leaving l (Some ''skipped''))
        (on_store (record_dispatch_result env (cd_id (tk_dispatch (sd_tasks s ! i))) (Some now) Skipped None) s)"
      by (auto simp: start_run_def r Let_def split: sum.split option.split)
    with that[of "Leaving l (Some ''skipped'')"] show ?thesis by simp
  qed
qed

lemma kept_fresh:
  "sd_tasks s = map (\<lambda>d. \<lparr>tk_dispatch = d, tk_stage = Queued, tk_ticket = 0\<rparr>) ds \<Longrightarrow> lanes_kept s"
  by (simp add: lanes_kept_def one_lane_def one_holder_def mapped_def in_turn_def holds_lane_def arrived_def)

lemma kept_no_tasks: "sd_tasks s = [] \<Longrightarrow> lanes_kept s"
  using kept_fresh[of s "[]"] by simp

lemma begin_pass_kept: "lanes_kept s \<Longrightarrow> lanes_kept (begin_pass env due_at claimed_at s)"
proof -
  assume kept: "lanes_kept s"
  define w where "w = snd (recover_interrupted_dispatches env due_at (sd_store s))"
  obtain r w' where r: "claim_due env due_at claimed_at w = (r, w')" by fastforce
  have "begin_pass env due_at claimed_at s =
     (if (sd_stopped s \<and> sd_started s) \<or> sd_running s then s
      else case r of Inl _ \<Rightarrow> s\<lparr>sd_store := w', sd_tasks := []\<rparr>
           | Inr ds \<Rightarrow> s\<lparr>sd_store := w', sd_running := True,
                 sd_tasks := map (\<lambda>d. \<lparr>tk_dispatch = d, tk_stage = Queued, tk_ticket = 0\<rparr>) ds\<rparr>)"
    by (simp add: begin_pass_def Let_def w_def[symmetric] r)
  then show ?thesis using kept by (cases r) (auto intro: kept_fresh kept_no_tasks)
qed

lemma step_kept:
  assumes step: "step_event env e s = Some s'" and kept: "lanes_kept s"
    and order: "\<And>i. event_task e = Some i \<Longrightarrow> join_order (sd_tasks s) i"
  shows "lanes_kept s'"
proof (cases e)
  case (BeginPass due_at claimed_at)
  with step begin_pass_kept[OF kept, of env due_at claimed_at] show ?thesis by simp
next
  case (Arrive i)
  with step have "stage_of s i = Some Queued" and s': "s' = arrive i s" by (auto split: if_splits)
  from stage_of_Some[OF this(1)] show ?thesis unfolding s' using kept order Arrive by (intro kept_arrive) auto
next
  case (StartRun i now)
  with step obtain l where st: "stage_of s i = Some (Waiting l)" and free: "lane_free (sd_tasks s) i"
    and s': "s' = start_run env i l now s"
    by (auto split: option.splits stage.splits if_splits)
  obtain st' where "sd_tasks s' = (sd_tasks s)[i := (sd_tasks s ! i)\<lparr>tk_stage := st'\<rparr>]" "stage_lane st' = Some l"
    "\<And>k. st' \<noteq> Waiting k" "sd_lanes s' = sd_lanes s" "sd_next_ticket s' = sd_next_ticket s"
    unfolding s' using start_run_moves[of env i l now s] by blast
  with stage_of_Some[OF st] free show ?thesis by (intro kept_move[OF kept]) auto
next
  case (RunReturns i result now)
  with step obtain l job where st: "stage_of s i = Some (Running l job)" and s': "s' = run_returns env i l result now s"
    by (auto split: option.splits stage.splits)
  from stage_of_Some[OF st] show ?thesis
    by (intro kept_move[OF kept, of i "Leaving l result" l]) (simp_all add: s' run_returns_def Let_def holds_lane_def waits_def)
next
  case (RunFails i message now)
  with step obtain l job where st: "stage_of s i = Some (Running l job)" and s': "s' = run_fails env i l message now s"
    by (auto split: option.splits stage.splits)
  from stage_of_Some[OF st] show ?thesis
    by (intro kept_move[OF kept, of i "Recorded l" l]) (simp_all add: s' run_fails_def holds_lane_def waits_def)
next
  case (BackOff i now)
  with step obtain l where st: "stage_of s i = Some (Recorded l)" and s': "s' = back_off env i l now s"
    by (auto split: option.splits stage.splits)
  from stage_of_Some[OF st] show ?thesis
    by (intro kept_move[OF kept, of i "Leaving l None" l]) (simp_all add: s' back_off_def Let_def holds_lane_def waits_def)
next
  case (Leave i)
  with step obtain l r where st: "stage_of s i = Some (Leaving l r)" and s': "s' = leave i r s"
    by (auto split: option.splits stage.splits)
  from stage_of_Some[OF st] show ?thesis unfolding s' using kept order Leave by (intro kept_leave) auto
next
  case (StartScheduler now)
  with step have "sd_tasks s' = sd_tasks s \<and> sd_lanes s' = sd_lanes s \<and> sd_next_ticket s' = sd_next_ticket s" by auto
  with kept show ?thesis by (simp add: lanes_kept_def)
next
  case EndPass
  with step show ?thesis by (auto intro: kept_no_tasks split: if_splits)
next
  case UnwindPass
  with step show ?thesis by (auto intro: kept_no_tasks)
next
  case StopScheduler
  with step kept show ?thesis by (auto simp: lanes_kept_def)
next
  case (Elsewhere p)
  with step kept show ?thesis by (auto simp: lanes_kept_def)
qed

lemma run_kept: "run_pass_events env es s = Some s' \<Longrightarrow> polled_in_order env es s \<Longrightarrow> lanes_kept s \<Longrightarrow> lanes_kept s'"
proof (induction es arbitrary: s)
  case (Cons e es)
  then obtain s1 where s1: "step_event env e s = Some s1" and "run_pass_events env es s1 = Some s'"
    and "polled_in_order env es s1" by (auto split: option.splits)
  moreover have "lanes_kept s1"
    using Cons.prems by (intro step_kept[OF s1]) (auto split: option.splits)
  ultimately show ?case by (intro Cons.IH)
qed simp

text \<open>
  C19. A session runs one scheduled job at a time: when the tasks of every pass get their first poll in
  their order, as \<open>join_all\<close> gives it, then however they start, return and fail after that, and
  whatever is done to the store in between, no two tasks that run a job, settle a failed one or have
  their session still to take out of the map belong to the same session.
\<close>

theorem session_runs_one_job_at_a_time:
  assumes "run_pass_events env es s = Some s'" and "polled_in_order env es s" and "sd_tasks s = []"
    and "i < length (sd_tasks s')" and "j < length (sd_tasks s')" and "i \<noteq> j"
    and "holds_lane (sd_tasks s' ! i)" and "holds_lane (sd_tasks s' ! j)"
  shows "task_session (sd_tasks s' ! i) \<noteq> task_session (sd_tasks s' ! j)"
  using run_kept[OF assms(1,2) kept_no_tasks[OF assms(3)]] assms(4-8) by (rule kept_exclusive)

text \<open>
  Without that order it fails: a task that is through takes its session out of the map although
  another waits for the lane, so a third that arrives after that gets a lane of its own, and the two
  jobs of the session run at once.
\<close>

lemma late_arrival_runs_beside:
  assumes tasks: "sd_tasks s = [t0, t1, t2]"
    and session: "task_session t0 = k" "task_session t1 = k" "task_session t2 = k"
    and stages: "tk_stage t0 = Leaving l r" "tk_stage t1 = Waiting l" "tk_stage t2 = Queued"
    and fresh: "l < sd_next_lane s"
    and jobs: "get_claimed_job env (task_job_id t1) (sd_store s) = (Inr (Some job1), w1)"
      "get_claimed_job env (task_job_id t2) (sd_store s) = (Inr (Some job2), w2)"
  shows "\<exists>s'. run_pass_events env [Leave 0, StartRun 1 now, Arrive 2, StartRun 2 now] s = Some s'
    \<and> map tk_stage (sd_tasks s') = [Finished r, Running l job1, Running (sd_next_lane s) job2]
    \<and> map task_session (sd_tasks s') = [k, k, k]"
proof -
  have 1: "step_event env (Leave 0) s = Some (leave 0 r s)"
    by (simp add: stage_of_def tasks stages)
  have t1: "sd_tasks (leave 0 r s) = [t0\<lparr>tk_stage := Finished r\<rparr>, t1, t2]" "sd_lanes (leave 0 r s) k = None"
    "sd_store (leave 0 r s) = sd_store s" "sd_next_lane (leave 0 r s) = sd_next_lane s"
    by (simp_all add: leave_def set_stage_def tasks session)
  define s2 where "s2 = start_run env 1 l now (leave 0 r s)"
  have 2: "step_event env (StartRun 1 now) (leave 0 r s) = Some s2"
    by (simp add: s2_def stage_of_def t1 stages lane_free_def holds_lane_def waits_def)
  have t2: "sd_tasks s2 = [t0\<lparr>tk_stage := Finished r\<rparr>, t1\<lparr>tk_stage := Running l job1\<rparr>, t2]" "sd_lanes s2 k = None"
    "sd_store s2 = sd_store s" "sd_next_lane s2 = sd_next_lane s"
    using jobs(1) by (simp_all add: s2_def start_run_def set_stage_def t1 task_job_id_def)
  define s3 where "s3 = arrive 2 s2"
  have 3: "step_event env (Arrive 2) s2 = Some s3" by (simp add: s3_def stage_of_def t2 stages)
  have t3: "sd_tasks s3 = [t0\<lparr>tk_stage := Finished r\<rparr>, t1\<lparr>tk_stage := Running l job1\<rparr>,
      t2\<lparr>tk_stage := Waiting (sd_next_lane s), tk_ticket := sd_next_ticket s2\<rparr>]" "sd_store s3 = sd_store s"
    using session by (simp_all add: s3_def arrive_def t2 Let_def)
  have 4: "step_event env (StartRun 2 now) s3 = Some (start_run env 2 (sd_next_lane s) now s3)"
    using fresh by (simp add: stage_of_def t3 lane_free_def holds_lane_def waits_def)
  have t4: "sd_tasks (start_run env 2 (sd_next_lane s) now s3) =
      [t0\<lparr>tk_stage := Finished r\<rparr>, t1\<lparr>tk_stage := Running l job1\<rparr>,
       t2\<lparr>tk_stage := Running (sd_next_lane s) job2, tk_ticket := sd_next_ticket s2\<rparr>]"
    using jobs(2) by (simp add: start_run_def set_stage_def t3 task_job_id_def)
  have "run_pass_events env [Leave 0, StartRun 1 now, Arrive 2, StartRun 2 now] s =
      Some (start_run env 2 (sd_next_lane s) now s3)"
    unfolding run_pass_events.simps 1 2 3 4 option.case ..
  then show ?thesis by (simp add: t4 session)
qed

section \<open>The backoff\<close>

text \<open>The time a job is planned for, and a job whose next run was pushed to a time at least.\<close>

definition planned_run :: "cron_job \<Rightarrow> nat option" where
  "planned_run j =
     (case cj_next_run_at j of None \<Rightarrow> None
      | Some s \<Rightarrow> (case parse_iso_millis s of Some (Some n) \<Rightarrow> Some n | _ \<Rightarrow> None))"

definition pushed :: "nat \<Rightarrow> cron_job \<Rightarrow> cron_job \<Rightarrow> bool" where
  "pushed until_ms j k \<longleftrightarrow>
     (\<exists>r u. k = j\<lparr>cj_next_run_at := r, cj_updated_at := u\<rparr>)
     \<and> planned_run k = Some (case planned_run j of None \<Rightarrow> until_ms | Some n \<Rightarrow> max until_ms n)"

definition deferred :: "string \<Rightarrow> nat \<Rightarrow> cron_job \<Rightarrow> cron_job \<Rightarrow> bool" where
  "deferred i until_ms j k \<longleftrightarrow>
     (if cj_id j = i \<and> cj_status j = JobActive then pushed until_ms j k else k = j)"

definition readable_run :: "cron_job \<Rightarrow> bool" where
  "readable_run j \<longleftrightarrow> (case cj_next_run_at j of None \<Rightarrow> True | Some s \<Rightarrow> parse_iso_millis s \<noteq> None)"

lemma pushed_now:
  assumes "until_ms < time_limit" and "\<And>n. planned_run j = Some n \<Longrightarrow> n < until_ms"
  shows "pushed until_ms j (j\<lparr>cj_next_run_at := Some (iso_from_millis until_ms), cj_updated_at := u\<rparr>)"
proof -
  have "planned_run (j\<lparr>cj_next_run_at := Some (iso_from_millis until_ms), cj_updated_at := u\<rparr>) = Some until_ms"
    by (simp add: planned_run_def iso_round_trip[OF assms(1)])
  moreover have "(case planned_run j of None \<Rightarrow> until_ms | Some n \<Rightarrow> max until_ms n) = until_ms"
    using assms(2) by (cases "planned_run j") (simp_all add: max_def not_le)
  ultimately show ?thesis unfolding pushed_def by auto
qed

lemma pushed_same: "planned_run j = Some n \<Longrightarrow> until_ms \<le> n \<Longrightarrow> pushed until_ms j j"
proof -
  assume a: "planned_run j = Some n" "until_ms \<le> n"
  have "j = j\<lparr>cj_next_run_at := cj_next_run_at j, cj_updated_at := cj_updated_at j\<rparr>" by simp
  then have "\<exists>r u. j = j\<lparr>cj_next_run_at := r, cj_updated_at := u\<rparr>" by blast
  then show ?thesis using a unfolding pushed_def by (simp add: max_def)
qed

lemma deferred_wf: "deferred i until_ms j k \<Longrightarrow> job_wf j \<Longrightarrow> job_wf k"
  by (auto simp: deferred_def pushed_def job_wf_def split: if_splits)

lemma defer_loop_run:
  assumes "until_ms < time_limit"
  shows "case defer_loop env i until_ms jobs w of
      (Inl e, w') \<Rightarrow> (\<exists>j \<in> set jobs. \<not> readable_run j) \<and> quiet w w'
    | (Inr (u, js), w') \<Rightarrow> list_all2 (deferred i until_ms) jobs js \<and> quiet w w'"
proof (induction jobs arbitrary: w)
  case Nil
  then show ?case by (simp add: mon_simps)
next
  case (Cons job jobs)
  define w1 where "w1 = w\<lparr>cw_ticks := Suc (cw_ticks w)\<rparr>"
  have q: "quiet w w1" by (simp add: w1_def quiet_def)
  obtain r v where m: "defer_loop env i until_ms jobs w = (r, v)" by (cases "defer_loop env i until_ms jobs w")
  obtain r1 v1 where m1: "defer_loop env i until_ms jobs w1 = (r1, v1)" by (cases "defer_loop env i until_ms jobs w1")
  note ih = Cons.IH[of w, unfolded m] and ih1 = Cons.IH[of w1, unfolded m1]
  define cur where "cur = (case cj_next_run_at job of None \<Rightarrow> Some None | Some s \<Rightarrow> parse_iso_millis s)"
  have plan: "cur = Some c \<Longrightarrow> planned_run job = c" for c
    by (auto simp: cur_def planned_run_def split: option.splits)
  have bad: "cur = None \<Longrightarrow> \<not> readable_run job"
    by (auto simp: cur_def readable_run_def split: option.splits)
  consider (other) "cj_id job \<noteq> i \<or> cj_status job \<noteq> JobActive"
    | (panic) "cj_id job = i" "cj_status job = JobActive" "cur = None"
    | (later) n where "cj_id job = i" "cj_status job = JobActive" "cur = Some (Some n)" "until_ms \<le> n"
    | (push) c where "cj_id job = i" "cj_status job = JobActive" "cur = Some c" "\<And>n. c = Some n \<Longrightarrow> n < until_ms"
    by (metis not_less option.exhaust)
  then show ?case
  proof cases
    case other
    then have "deferred i until_ms job job" by (auto simp: deferred_def)
    with ih other show ?thesis by (cases r) (auto simp: mon_simps m)
  next
    case panic
    with bad show ?thesis by (simp add: mon_simps cur_def[symmetric] or_panic_def)
  next
    case later
    then have "deferred i until_ms job job" using pushed_same plan by (simp add: deferred_def)
    with ih later show ?thesis by (cases r) (auto simp: mon_simps m cur_def[symmetric] or_panic_def)
  next
    case push
    have "deferred i until_ms job (job\<lparr>cj_next_run_at := Some (iso_from_millis until_ms), cj_updated_at := u\<rparr>)" for u
    proof -
      have "n < until_ms" if p: "planned_run job = Some n" for n using push(4) plan[OF push(3)] p by simp
      from pushed_now[OF assms this] push(1,2) show ?thesis by (simp add: deferred_def)
    qed
    moreover have "\<not> (case c of None \<Rightarrow> False | Some t \<Rightarrow> until_ms \<le> t)"
      using push(4) by (cases c) (auto simp: not_le)
    ultimately show ?thesis using ih1 push(1-3) quiet_trans[OF q]
      by (cases r1) (auto simp: mon_simps m1 cur_def[symmetric] or_panic_def clock_now_def w1_def[symmetric] Let_def)
  qed
qed

lemma defer_mutator:
  assumes "until_ms < time_limit"
  shows "mutator_gives (\<lambda>s e. \<exists>j \<in> set (js_jobs s). \<not> readable_run j)
      (\<lambda>s out s'. list_all2 (deferred i until_ms) (js_jobs s) (js_jobs s'))
      (\<lambda>s. bnd (defer_loop env i until_ms (js_jobs s)) (\<lambda>(updated, jobs). ret (updated, s\<lparr>js_jobs := jobs\<rparr>)))"
  unfolding mutator_gives_def
proof (intro allI impI)
  fix s :: cron_jobs_state and w assume wf: "list_all job_wf (js_jobs s)"
  obtain r w' where m: "defer_loop env i until_ms (js_jobs s) w = (r, w')"
    by (cases "defer_loop env i until_ms (js_jobs s) w")
  note run = defer_loop_run[OF assms, where w = w and env = env and i = i and jobs = "js_jobs s", unfolded m]
  show "case bnd (defer_loop env i until_ms (js_jobs s)) (\<lambda>(updated, jobs). ret (updated, s\<lparr>js_jobs := jobs\<rparr>)) w of
      (Inl e, w') \<Rightarrow> (\<exists>j \<in> set (js_jobs s). \<not> readable_run j) \<and> quiet w w'
    | (Inr (out, s'), w') \<Rightarrow> list_all2 (deferred i until_ms) (js_jobs s) (js_jobs s') \<and> quiet w w'
        \<and> list_all job_wf (js_jobs s')"
  proof (cases r)
    case (Inl e)
    with run m show ?thesis by (simp add: mon_simps)
  next
    case (Inr uj)
    obtain u js where uj: "uj = (u, js)" by (cases uj)
    have d: "list_all2 (deferred i until_ms) (js_jobs s) js" using run Inr uj by simp
    then have "list_all job_wf js"
      using wf deferred_wf unfolding list_all_length list_all2_conv_all_nth by metis
    with d run m Inr uj show ?thesis by (simp add: mon_simps)
  qed
qed

lemma concat_all2:
  "list_all2 (\<lambda>p out. list_all2 R (f p) (g p)) ps outs \<Longrightarrow> list_all2 R (concat (map f ps)) (concat (map g ps))"
  by (induction ps outs rule: list_all2_induct) (auto intro: list_all2_appendI)

lemma defer_run:
  assumes "steady env w" and "until_ms < time_limit" and "\<forall>j \<in> set (jobs_of env w). readable_run j"
  shows "list_all2 (deferred i until_ms) (jobs_of env w) (jobs_of env (snd (defer_next_run env i until_ms w)))"
proof -
  let ?m = "\<lambda>s. bnd (defer_loop env i until_ms (js_jobs s)) (\<lambda>(updated, jobs). ret (updated, s\<lparr>js_jobs := jobs\<rparr>))"
  obtain r w' where m: "mutate_states env ?m w = (r, w')" by (cases "mutate_states env ?m w")
  note run = mutate_states_run[OF defer_mutator[OF assms(2), of i env] assms(1), unfolded m]
  have "r \<noteq> Inl e" for e using run assms(3) by (auto simp: jobs_of_def)
  then obtain outs where r: "r = Inr outs" by (cases r) auto
  with run have all: "list_all2 (\<lambda>p out. list_all2 (deferred i until_ms) (js_jobs (file_at w p)) (js_jobs (file_at w' p)))
      (paths_of env w) outs" and same: "same_store w w'" by auto
  have "snd (defer_next_run env i until_ms w) = w'" by (simp add: defer_next_run_def mon_simps m r)
  moreover have "paths_of env w' = paths_of env w" using steady_cong[OF assms(1) same] by simp
  ultimately show ?thesis using concat_all2[OF all] by (simp add: jobs_of_def)
qed

lemma backoff_pauses:
  "failure_backoff_ms 1 = failure_backoff_base_ms"
  "failure_backoff_ms (Suc (Suc n)) = min failure_backoff_cap_ms (2 * failure_backoff_ms (Suc n))"
  by (simp_all add: failure_backoff_ms_def failure_backoff_base_ms_def failure_backoff_cap_ms_def saturating_mul_def
      saturating_pow_def saturating_sub_def u64_max_def min_def)

lemma backoff_bounds:
  "failure_backoff_base_ms \<le> failure_backoff_ms n" "failure_backoff_ms n \<le> failure_backoff_cap_ms"
proof -
  have "120000 \<le> min (min (120000 * min p m) m) (3600000::nat)" if "1 \<le> p" "3600000 \<le> m" for p m :: nat
    using that by (simp add: min_def)
  from this[of "2 ^ (n - 1)" u64_max] show "failure_backoff_base_ms \<le> failure_backoff_ms n"
    by (simp add: failure_backoff_ms_def failure_backoff_base_ms_def failure_backoff_cap_ms_def saturating_mul_def
        saturating_pow_def saturating_sub_def u64_max_def)
qed (simp add: failure_backoff_ms_def)

text \<open>
  C20. While the writes succeed and the stored run times are readable, a job whose run failed is pushed
  back: its streak of failures grows by one, and its next run is at least the pause of the streak
  away, which starts at two minutes and doubles up to an hour, as long as that is before the year
  10000. A later next run stays, and no other job changes.
\<close>

theorem failed_job_backs_off:
  assumes "steady env (sd_store s)" and "step_event env (BackOff i now) s = Some s'"
    and "now + failure_backoff_cap_ms < time_limit"
    and "\<forall>j \<in> set (jobs_of env (sd_store s)). readable_run j"
  shows "case sd_streaks s' (task_job_id (sd_tasks s ! i)) of
      None \<Rightarrow> False
    | Some n \<Rightarrow>
        n = (case sd_streaks s (task_job_id (sd_tasks s ! i)) of None \<Rightarrow> 1 | Some m \<Rightarrow> min (m + 1) (2 ^ 32 - 1))
        \<and> (\<forall>m. failure_backoff_ms (Suc (Suc m)) = min failure_backoff_cap_ms (2 * failure_backoff_ms (Suc m)))
        \<and> failure_backoff_ms 1 = 120000 \<and> failure_backoff_cap_ms = 3600000
        \<and> list_all2 (deferred (task_job_id (sd_tasks s ! i)) (now + failure_backoff_ms n))
            (jobs_of env (sd_store s)) (jobs_of env (sd_store s'))"
proof -
  let ?id = "task_job_id (sd_tasks s ! i)"
  define n where "n = next_streak (sd_streaks s) ?id"
  obtain l where s': "s' = back_off env i l now s" using assms(2) by (auto split: option.splits stage.splits)
  have limit: "now + failure_backoff_ms n < time_limit" using assms(3) backoff_bounds(2)[of n] by linarith
  then have "add_u64 now (failure_backoff_ms n) = now + failure_backoff_ms n"
    by (simp add: add_u64_def time_limit_def)
  then have store: "sd_store s' = snd (defer_next_run env ?id (now + failure_backoff_ms n) (sd_store s))"
    and streaks: "sd_streaks s' ?id = Some n"
    by (simp_all add: s' back_off_def Let_def set_stage_def on_store_def note_run_failure_def n_def)
  have "n = (case sd_streaks s ?id of None \<Rightarrow> 1 | Some m \<Rightarrow> min (m + 1) (2 ^ 32 - 1))"
    by (simp add: n_def next_streak_def split: option.split)
  with defer_run[OF assms(1) limit assms(4), of ?id] backoff_pauses streaks store show ?thesis
    by (simp add: failure_backoff_base_ms_def failure_backoff_cap_ms_def)
qed

end
