(* ===== verification/CronInstances.thy ===== *)
theory CronInstances
  imports CronProps
begin

text \<open>
  A store with one file and two sessions, at whose jobs the properties of the schedules, of the
  store and of the scheduler are applied: two heartbeats that are due and a cancelled one.
\<close>

section \<open>A store\<close>

definition sample_schedule :: cron_schedule where
  "sample_schedule = \<lparr>sc_kind = KindInterval, sc_expression = ''5m'', sc_interval_ms = Some 300000\<rparr>"

definition sample_job :: "string \<Rightarrow> string \<Rightarrow> job_status \<Rightarrow> string option \<Rightarrow> cron_job" where
  "sample_job i session_id status next_run_at =
     \<lparr>cj_id = i, cj_status = status, cj_source = Some ''cron'', cj_runtime_kind = None, cj_delivery_mode = None,
       cj_active_session_id = session_id, cj_session_id = session_id, cj_session_file = '''', cj_cwd = '''',
       cj_label = None, cj_prompt = ''look'', cj_schedule = sample_schedule,
       cj_created_at = iso_from_millis 0, cj_updated_at = iso_from_millis 0, cj_next_run_at = next_run_at,
       cj_last_run_at = None, cj_last_skipped_at = None, cj_last_error = None, cj_run_count = 0\<rparr>"

definition sample_state :: cron_jobs_state where
  "sample_state =
     \<lparr>js_jobs = [sample_job ''a'' ''s'' JobActive (Some (iso_from_millis 1000)),
                 sample_job ''b'' ''t'' JobActive (Some (iso_from_millis 2000)),
                 sample_job ''c'' ''s'' JobCancelled None],
      js_dispatches = []\<rparr>"

definition sample_env :: cron_env where
  "sample_env =
     \<lparr>ce_file_path = Some ''jobs.json'', ce_artifact_mode = False, ce_write_ok = (\<lambda>_. True),
      ce_order = (\<lambda>_ jobs. jobs), ce_uuid = (\<lambda>n. replicate n CHR ''x''), ce_clock = (\<lambda>_. 5000),
      ce_lower = (\<lambda>s. s)\<rparr>"

definition sample_world :: cron_world where
  "sample_world =
     \<lparr>cw_files = (\<lambda>path. if path = ''jobs.json'' then Some (state_to_json sample_state) else None),
      cw_artifacts = [], cw_writes = 0, cw_merges = 0, cw_draws = 5, cw_ticks = 0, cw_notified = 0\<rparr>"

lemma sample_file: "file_at sample_world ''jobs.json'' = sample_state"
  unfolding file_at_def sample_world_def cron_world.simps if_P[OF refl]
  by (rule state_json_roundtrip) (simp add: sample_state_def sample_job_def job_wf_def sample_schedule_def opt_below_def)

lemma sample_paths: "paths_of sample_env w = [''jobs.json'']"
  by (simp add: paths_of_def sample_env_def)

lemma sample_steady: "steady sample_env w"
  by (simp add: steady_def sample_paths) (simp add: sample_env_def)

lemma sample_jobs: "jobs_of sample_env sample_world = js_jobs sample_state"
  by (simp add: jobs_of_def sample_paths sample_file)

lemma sample_settled: "settled_store sample_env sample_world"
proof -
  have "orderly sample_env" by (simp add: orderly_def sample_env_def inj_on_def)
  moreover have "ids_apart sample_env sample_world"
    unfolding ids_apart_def sample_jobs
    by (auto simp: sample_state_def sample_job_def sample_env_def sample_world_def Cons_replicate_eq)
  ultimately show ?thesis by (simp add: settled_store_def sample_steady sample_world_def)
qed

section \<open>Claims\<close>

lemma sample_timely: "timely 5000 sample_schedule"
  by (simp add: timely_def sample_schedule_def time_limit_def search_window_def one_minute_ms_def)

lemma sample_due:
  "is_due_job (sample_job i session_id JobActive (Some (iso_from_millis 1000))) 5000 = Some True"
  "is_due_job (sample_job i session_id JobActive (Some (iso_from_millis 2000))) 5000 = Some True"
  "is_due_job (sample_job i session_id JobCancelled None) 5000 = Some False"
  by (simp_all add: is_due_job_def sample_job_def iso_round_trip time_limit_def)


section \<open>Closed jobs\<close>

definition sample_ops :: "cron_op list" where
  "sample_ops = [OpCancel ''a'' 5000, OpClaim 6000 6000, OpManage ''s'' ''c'' ManageResume 7000, OpRecover 8000]"

lemma closed_job_never_runs_witness:
  "(\<exists>k \<in> set (jobs_of sample_env (fold (apply_op sample_env) sample_ops sample_world)).
      cj_id k = ''c'' \<and> cj_status k = JobCancelled)
   \<and> fst (get_claimed_job sample_env ''c'' (fold (apply_op sample_env) sample_ops sample_world)) = Inr None"
proof -
  have j: "sample_job ''c'' ''s'' JobCancelled None \<in> set (jobs_of sample_env sample_world)"
    by (simp add: sample_jobs sample_state_def)
  have c: "closed (sample_job ''c'' ''s'' JobCancelled None)" by (simp add: closed_def sample_job_def)
  have i: "cj_id (sample_job ''c'' ''s'' JobCancelled None) = ''c''"
    and st: "cj_status (sample_job ''c'' ''s'' JobCancelled None) = JobCancelled" by (simp_all add: sample_job_def)
  from closed_job_never_runs[OF sample_settled j c refl, of sample_ops, unfolded i] st show ?thesis by blast
qed

section \<open>The next run of a schedule\<close>

definition quarters :: cron_fields where
  "quarters =
     \<lparr>cf_minute = {0, 15, 30, 45}, cf_hour = collect_values 0 23 1 {}, cf_day_of_month = collect_values 1 31 1 {},
      cf_month = collect_values 1 12 1 {}, cf_day_of_week = collect_values 0 7 1 {}\<rparr>"

lemma quarters_minute: "parse_cron_field ''*/15'' 0 59 = Inr {0, 15, 30, 45}"
proof -
  have "parse_cron_number ''15'' 1 59 = Inr 15"
    by (simp add: parse_cron_number_def parse_unsigned_def is_ascii_digit_def)
  moreover have "split_on CHR '','' ''*/15'' = [''*/15'']" "split_once CHR ''/'' ''*/15'' = Some (''*'', ''15'')"
    by code_simp+
  ultimately show ?thesis
    by (simp add: parse_cron_field_def parse_cron_part_def parse_cron_range_def collect_values.simps insert_commute)
qed

lemma any_value: "parse_cron_field ''*'' lo hi = Inr (collect_values lo hi 1 {})"
proof -
  have "split_on CHR '','' ''*'' = [''*'']" "split_once CHR ''/'' ''*'' = None" by code_simp+
  then show ?thesis by (simp add: parse_cron_field_def parse_cron_part_def parse_cron_range_def)
qed

lemma quarters_parsed: "parse_cron_expression ''*/15 * * * *'' = Inr quarters"
proof -
  have "split_whitespace ''*/15 * * * *'' = [''*/15'', ''*'', ''*'', ''*'', ''*'']" by code_simp
  then show ?thesis by (simp add: parse_cron_expression_def quarters_minute any_value quarters_def)
qed

lemma first_of_january: "civil_from_days 0 = (1970, 1, 1)"
  by code_simp

lemma quarter_times: "on_schedule quarters 900000" "\<not> on_schedule quarters 60000"
proof -
  have "0 \<in> cf_hour quarters" "1 \<in> cf_day_of_month quarters" "1 \<in> cf_month quarters" "4 \<in> cf_day_of_week quarters"
    by code_simp+
  then show "on_schedule quarters 900000" "\<not> on_schedule quarters 60000"
    by (simp_all add: on_schedule_def first_of_january) (simp_all add: quarters_def)
qed

lemma cron_run_is_the_first_match_witness:
  "case next_cron_run_after ''*/15 * * * *'' 1 of
     Inr t \<Rightarrow> t \<in> minutes_after 1 \<and> t \<le> 900000 \<and> t \<noteq> 60000
   | Inl _ \<Rightarrow> False"
proof -
  have m: "900000 \<in> minutes_after 1"
    by (simp add: minutes_after_def window_end_def search_window_def one_minute_ms_def)
  have n: "1 + 2 * search_window < time_limit"
    by (simp add: time_limit_def search_window_def one_minute_ms_def)
  note run = cron_run_is_the_first_match[OF n, of "''*/15 * * * *''", unfolded quarters_parsed]
  show ?thesis
  proof (cases "next_cron_run_after ''*/15 * * * *'' 1")
    case (Inl e)
    with run m quarter_times show ?thesis by auto
  next
    case (Inr t)
    with run m quarter_times have "\<not> 900000 < t" "t \<in> minutes_after 1" "t \<noteq> 60000" by auto
    with Inr show ?thesis by simp
  qed
qed

section \<open>The scheduler\<close>

definition sample_scheduler :: scheduler where
  "sample_scheduler =
     \<lparr>sd_store = sample_world, sd_streaks = (\<lambda>_. None), sd_lanes = (\<lambda>_. None),
      sd_next_lane = 0, sd_next_ticket = 0, sd_tasks = [], sd_running = False, sd_stopped = False,
      sd_started = True\<rparr>"

definition sample_run :: "event list" where
  "sample_run = [BeginPass 5000 5000, Arrive 0, StartRun 0 5000, Arrive 1, StartRun 1 5000]"

lemma sample_recovery: "recover_interrupted_dispatches sample_env 5000 sample_world = (Inr [], sample_world)"
proof -
  have r: "read_jobs_state (cw_files sample_world ''jobs.json'') = sample_state"
    using sample_file by (simp add: file_at_def)
  have "recover_interrupted_in_state 5000 None sample_state = ([], sample_state)"
    by (simp add: recover_interrupted_in_state_def sample_state_def)
  then show ?thesis
    by (simp add: recover_interrupted_dispatches_def mutate_states_def mon_simps store_paths_run[OF sample_steady]
        sample_paths read_jobs_def read_states_def read_path_def r)
qed

lemma sample_claims:
  "\<exists>d e w. claim_due sample_env 5000 5000 sample_world = (Inr [d, e], w)
     \<and> cd_job d = claimed_job 5000 (js_jobs sample_state ! 0) \<and> cd_job e = claimed_job 5000 (js_jobs sample_state ! 1)
     \<and> fst (get_claimed_job sample_env ''a'' w) = Inr (Some (cd_job d))
     \<and> fst (get_claimed_job sample_env ''b'' w) = Inr (Some (cd_job e))"
proof -
  obtain r w where m: "claim_due sample_env 5000 5000 sample_world = (r, w)" by fastforce
  note run = claim_due_run[OF sample_steady, of sample_world 5000 5000, unfolded m sample_paths]
  have due: "due_unclaimed 5000 sample_state = take 2 (js_jobs sample_state)"
    by (simp add: due_unclaimed_def to_dispatch_def due_now_def sample_state_def sample_due)
  have "r \<noteq> Inl e" for e using run sample_due by (auto simp: sample_file sample_state_def)
  then obtain ds where r: "r = Inr ds" by (cases r) auto
  with run obtain outs where ds: "ds = concat outs"
    and c: "list_all2 (\<lambda>p out. claimed_state 5000 5000 (file_at sample_world p) out (file_at w p)) [''jobs.json''] outs"
    by auto
  from claimed_outs[OF c] have jobs: "map cd_job ds = map (claimed_job 5000) (take 2 (js_jobs sample_state))"
    by (simp add: ds sample_file due)
  then obtain d e where de: "ds = [d, e]" "cd_job d = claimed_job 5000 (js_jobs sample_state ! 0)"
    "cd_job e = claimed_job 5000 (js_jobs sample_state ! 1)"
    by (auto simp: sample_state_def)
  from c ds have s: "claimed_state 5000 5000 sample_state ds (file_at w ''jobs.json'')"
    by (auto simp: list_all2_Cons1 sample_file)
  then obtain records where st: "js_jobs (file_at w ''jobs.json'') = map (claim_form {} 5000 5000) (js_jobs sample_state)"
    "js_dispatches (file_at w ''jobs.json'') = records"
    "map dp_job_id records = map cj_id (take 2 (js_jobs sample_state))"
    using due by (auto simp: claimed_state_def due_unclaimed_def sample_state_def)
  have forms: "map (claim_form {} 5000 5000) (js_jobs sample_state)
      = [claimed_job 5000 (js_jobs sample_state ! 0), claimed_job 5000 (js_jobs sample_state ! 1), js_jobs sample_state ! 2]"
    by (simp add: sample_state_def claim_form_def due_now_def sample_due)
  have "\<exists>x \<in> set records. dp_job_id x = i" if "i \<in> {''a'', ''b''}" for i
  proof -
    have "set (map dp_job_id records) = {''a'', ''b''}" unfolding st(3) by (simp add: sample_state_def sample_job_def)
    with that show ?thesis by (metis imageE list.set_map)
  qed
  then have found: "fst (get_claimed_job sample_env i w) = Inr (find (\<lambda>j. cj_id j = i \<and> cj_status j = JobActive)
      [claimed_job 5000 (js_jobs sample_state ! 0), claimed_job 5000 (js_jobs sample_state ! 1), js_jobs sample_state ! 2])"
    if "i \<in> {''a'', ''b''}" for i
    using that by (simp add: get_claimed_job_def read_states_def mon_simps store_paths_run[OF sample_steady] sample_paths
        file_at_def[symmetric] st(1,2) forms)
  have "fst (get_claimed_job sample_env ''a'' w) = Inr (Some (cd_job d))"
    "fst (get_claimed_job sample_env ''b'' w) = Inr (Some (cd_job e))"
    by (simp_all add: found de) (simp_all add: sample_state_def sample_job_def claimed_job_def)
  with m r de show ?thesis by blast
qed

lemma session_runs_one_job_at_a_time_witness:
  "case run_pass_events sample_env sample_run sample_scheduler of
     None \<Rightarrow> False
   | Some s \<Rightarrow> map holds_lane (sd_tasks s) = [True, True]
       \<and> task_session (sd_tasks s ! 0) \<noteq> task_session (sd_tasks s ! 1)"
proof -
  obtain d e w where c: "claim_due sample_env 5000 5000 sample_world = (Inr [d, e], w)"
    "cd_job d = claimed_job 5000 (js_jobs sample_state ! 0)" "cd_job e = claimed_job 5000 (js_jobs sample_state ! 1)"
    "fst (get_claimed_job sample_env ''a'' w) = Inr (Some (cd_job d))"
    "fst (get_claimed_job sample_env ''b'' w) = Inr (Some (cd_job e))"
    using sample_claims by blast
  have ids: "cj_id (cd_job d) = ''a''" "cj_id (cd_job e) = ''b''"
    "cj_active_session_id (cd_job d) = ''s''" "cj_active_session_id (cd_job e) = ''t''"
    by (simp_all add: c(2,3) claimed_job_def sample_state_def sample_job_def)
  obtain w1 w2 where claimed: "get_claimed_job sample_env ''a'' w = (Inr (Some (cd_job d)), w1)"
    "get_claimed_job sample_env ''b'' w = (Inr (Some (cd_job e)), w2)"
    using c(4,5) by (metis prod.collapse)
  let ?ready = "\<lambda>lanes n t u. sample_scheduler\<lparr>sd_store := w, sd_lanes := lanes, sd_next_lane := n,
      sd_next_ticket := n, sd_running := True, sd_tasks := [t, u]\<rparr>"
  let ?d = "\<lambda>st k. \<lparr>tk_dispatch = d, tk_stage = st, tk_ticket = k\<rparr>"
  let ?e = "\<lambda>st k. \<lparr>tk_dispatch = e, tk_stage = st, tk_ticket = k\<rparr>"
  let ?m1 = "[''s'' \<mapsto> 0]" and ?m2 = "[''s'' \<mapsto> 0, ''t'' \<mapsto> 1]"
  let ?s1 = "?ready (\<lambda>_. None) 0 (?d Queued 0) (?e Queued 0)"
  let ?s2 = "?ready ?m1 1 (?d (Waiting 0) 0) (?e Queued 0)"
  let ?s3 = "?ready ?m1 1 (?d (Running 0 (cd_job d)) 0) (?e Queued 0)"
  let ?s4 = "?ready ?m2 2 (?d (Running 0 (cd_job d)) 0) (?e (Waiting 1) 1)"
  let ?s = "?ready ?m2 2 (?d (Running 0 (cd_job d)) 0) (?e (Running 1 (cd_job e)) 1)"
  note lane_defs = stage_of_def lane_free_def holds_lane_def waits_def task_session_def
  have steps: "step_event sample_env (BeginPass 5000 5000) sample_scheduler = Some ?s1"
    "step_event sample_env (Arrive 0) ?s1 = Some ?s2"
    "step_event sample_env (StartRun 0 5000) ?s2 = Some ?s3"
    "step_event sample_env (Arrive 1) ?s3 = Some ?s4"
    "step_event sample_env (StartRun 1 5000) ?s4 = Some ?s"
    by (simp add: begin_pass_def sample_scheduler_def sample_recovery c(1))
       (simp_all add: lane_defs arrive_def start_run_def set_stage_def ids claimed sample_scheduler_def)
  have run: "run_pass_events sample_env sample_run sample_scheduler = Some ?s"
    unfolding sample_run_def run_pass_events.simps steps option.case ..
  have order: "polled_in_order sample_env sample_run sample_scheduler"
    unfolding sample_run_def polled_in_order.simps steps option.case event_task.simps
    by (simp add: join_order_def arrived_def)
  have "task_session (sd_tasks ?s ! 0) \<noteq> task_session (sd_tasks ?s ! 1)"
    by (rule session_runs_one_job_at_a_time[OF run order])
       (simp_all add: sample_scheduler_def holds_lane_def waits_def)
  then show ?thesis unfolding run by (simp add: holds_lane_def waits_def)
qed

section \<open>The backoff\<close>

definition failed_scheduler :: scheduler where
  "failed_scheduler =
     sample_scheduler\<lparr>sd_tasks :=
       [\<lparr>tk_dispatch = \<lparr>cd_id = ''x'', cd_job = js_jobs sample_state ! 0\<rparr>, tk_stage = Recorded 0,
        tk_ticket = 0\<rparr>]\<rparr>"

lemma failed_job_backs_off_witness:
  "case step_event sample_env (BackOff 0 5000) failed_scheduler of
     None \<Rightarrow> False
   | Some s \<Rightarrow> sd_streaks s ''a'' = Some 1
       \<and> (\<exists>k \<in> set (jobs_of sample_env (sd_store s)). cj_id k = ''a'' \<and> planned_run k = Some 125000)"
proof -
  let ?a = "sample_job ''a'' ''s'' JobActive (Some (iso_from_millis 1000))"
  have store: "sd_store failed_scheduler = sample_world" and streaks: "sd_streaks failed_scheduler = (\<lambda>_. None)"
    and i: "task_job_id (sd_tasks failed_scheduler ! 0) = ''a''"
    by (simp_all add: failed_scheduler_def sample_scheduler_def task_job_id_def sample_state_def sample_job_def)
  have "stage_of failed_scheduler 0 = Some (Recorded 0)" by (simp add: stage_of_def failed_scheduler_def)
  then obtain s where s: "step_event sample_env (BackOff 0 5000) failed_scheduler = Some s" by simp
  have lim: "5000 + failure_backoff_cap_ms < time_limit" by (simp add: failure_backoff_cap_ms_def time_limit_def)
  have readable: "\<forall>j \<in> set (jobs_of sample_env (sd_store failed_scheduler)). readable_run j"
    by (simp add: store sample_jobs sample_state_def sample_job_def readable_run_def iso_round_trip time_limit_def)
  note pushed_back = failed_job_backs_off[OF sample_steady s lim readable, unfolded i store streaks sample_jobs]
  then obtain n where n: "sd_streaks s ''a'' = Some n" by (auto split: option.splits)
  with pushed_back have one: "n = 1" and pause: "failure_backoff_ms n = 120000"
    and jobs: "list_all2 (deferred ''a'' (5000 + failure_backoff_ms n)) (js_jobs sample_state) (jobs_of sample_env (sd_store s))"
    by auto
  from jobs[unfolded sample_state_def] obtain k ks where k: "jobs_of sample_env (sd_store s) = k # ks"
    "deferred ''a'' (5000 + failure_backoff_ms n) ?a k" by (auto simp: list_all2_Cons1)
  have "cj_id ?a = ''a''" "cj_status ?a = JobActive" "planned_run ?a = Some 1000"
    by (simp_all add: sample_job_def planned_run_def iso_round_trip time_limit_def)
  with k(2) pause have "cj_id k = ''a''" "planned_run k = Some 125000" by (auto simp: deferred_def pushed_def)
  with s n one k(1) show ?thesis by simp
qed

end
