(* ===== verification/Spec2Isabelle.thy ===== *)
theory Spec2Isabelle
  imports AgentRuns SessionInstances CompactionInstances PrivateFraming Sse Truncate AutoRetry GoalInstances CronInstances
begin

text \<open>
  A verification library for the core of prime-agent, a coding agent written in Rust: the turn loop
  that drives a model and its tools, the session files that record a conversation as a tree of rows,
  the compaction that keeps a conversation within the model's window, the retries of failing
  providers, the thread goals that keep an agent working, the scheduled jobs that wake it, and the
  codecs in between. The definitions translate the code under \<open>src/crates/\<close>; every theory says at its top which files it models, and
  the theorems that are marked as claims state what makes each component correct.

  How the code is rendered. A struct is a record whose field names carry a prefix, an enum a datatype,
  an \<open>Option\<close> an option, a \<open>Result\<close> a sum with the error on the left. A function on
  \<open>&mut S\<close> is a program of the state-and-error monad of \<open>Prelude\<close>; the state reached before a
  \<open>?\<close> is kept, as the mutations made before it are kept in Rust. A \<open>String\<close> is its UTF-8 bytes
  (\<open>Rust_Text\<close>), so lengths and slices are those of the code. Machine integers are \<open>nat\<close> or
  \<open>int\<close> with the wrap-around of a release build written out where it can be reached; \<open>f64\<close>
  arithmetic is exact rational arithmetic followed by the rounding of \<open>Rust_Float\<close>.

  What is outside the source is a parameter: the JSON codec of the rows and frames (\<open>ev_ser\<close>,
  \<open>ev_deser\<close>, \<open>ser\<close>, \<open>deser\<close>, \<open>args_json\<close>), the \<open>uuid\<close> crate and the clock
  (\<open>session_env\<close>: the n-th draw, the n-th reading), the \<open>regex\<close> crate (\<open>is_match\<close>), the
  answers of the disk (\<open>sm_io\<close>: each write still to come succeeds, or fails after some bytes), the
  model and its stream, the tools and hooks, the jitter sample. What a theorem needs of them is a named
  hypothesis: ids do not repeat (\<open>uuid_ok\<close>), the codec reads back what it wrote (\<open>reads_back\<close>),
  the clock stays below \<open>2 ^ 64\<close> (\<open>clock_ok\<close>), the stream follows its protocol (\<open>stream_ok\<close>).

  The agent, \<open>crates/pa-agent/src\<close>.
  \<open>AgentTypes\<close>: messages, events, tools (\<open>types.rs\<close>, \<open>stream.rs\<close>).
  \<open>Validation\<close>: coercion and check of tool arguments (\<open>validation.rs\<close>), against the reference
  semantics \<open>conforms\<close>.
  \<open>AgentLoop\<close>: the loop (\<open>agent_loop/\<close>). The world of a run holds everything outside the loop
  and decides when the abort signal fires, which branch of a race wins and which spawned task runs
  next, so a theorem for every world is one for every interleaving at the await points. The number of
  turns is bounded by fuel; \<open>aborted_run_returns\<close> says that one step is enough after an abort, and
  the statements about results hold for every fuel that returns.
  \<open>ToolBatch\<close>: batches of tool calls, sequential and parallel; the rounds in which a spawned task is
  awaited are shown to be enough for it to end. \<open>AgentRun\<close>: the locale \<open>loop_env\<close>, an automaton
  of the events and the run invariant. \<open>AgentView\<close>: the locale \<open>event_sourced\<close>, a view of the
  world that is the fold of the events. \<open>MessageQueue\<close>, \<open>AgentState\<close>: the queues and the agent
  (\<open>agent.rs\<close>); \<open>Scripted\<close>: the scripted provider (\<open>scripted.rs\<close>); \<open>AgentRuns\<close> interprets
  the locales on the agent's own sink and hooks and states the claims about whole runs.

  The sessions, \<open>crates/pa-core/src/session\<close> and \<open>crates/pa-types/src/session.rs\<close>.
  \<open>SessionTypes\<close>: rows and payloads. \<open>SessionTime\<close>: timestamps. \<open>SessionContext\<close>,
  \<open>SessionPath\<close>, \<open>SessionBuild\<close>, \<open>SessionMigrate\<close>: reading a file, its tree, the context of
  the model, migrations and child usage (\<open>mod.rs\<close>, \<open>tree.rs\<close>). \<open>SessionRepair\<close>: crash repair
  (\<open>manager/repair.rs\<close>). \<open>SessionStore\<close>: the writer (\<open>manager/append.rs\<close>,
  \<open>persist.rs\<close>) over its record \<open>session_manager\<close>, which includes the files as bytes.
  \<open>SessionInv\<close>: its invariant \<open>manager_ok\<close>. \<open>SessionDurable\<close>, \<open>SessionStrict\<close>,
  \<open>SessionFaults\<close>: what the file holds, through failing and torn writes. \<open>SessionQueries\<close>:
  \<open>manager/queries.rs\<close>. \<open>SessionLifecycle\<close>, \<open>SessionOpen\<close>, \<open>SessionFork\<close>:
  \<open>manager/lifecycle.rs\<close>, reachable sessions, reopening, forking. \<open>SessionInstances\<close>: concrete
  sessions for the witnesses.

  The compaction, \<open>crates/pa-core/src/session_engine\<close>. \<open>Compaction\<close>: estimates, threshold and cut
  point (\<open>compaction.rs\<close>). \<open>CompactionText\<close>: \<open>compaction_utils.rs\<close>. \<open>CompactionPrepare\<close>,
  \<open>CompactionRun\<close>: \<open>compact_session.rs\<close> with its modules and \<open>compaction_exec.rs\<close>.
  \<open>LlmMessages\<close>: \<open>messages.rs\<close>. \<open>CompactionInstances\<close>: instances.

  Failures of providers. \<open>ProviderRetry\<close>: \<open>provider_retry.rs\<close>, the decisions of
  \<open>provider_park.rs\<close>, and \<open>pa-ai/src/utils_inner/overflow.rs\<close>. \<open>AutoRetry\<close>: the two retry
  loops over a host of closures, with an inductive account of the calls they make; the loops recurse on
  the retries left.

  Thread goals. \<open>Goals\<close>: the wire state of \<open>pa-types/src/goal.rs\<close> with its codec, and
  \<open>pa-core/src/goals.rs\<close>. \<open>GoalDriver\<close>: \<open>session_engine/goal_driver.rs\<close> and
  \<open>goal_driver/progress.rs\<close>, on the pair of driver and session. \<open>GoalRuns\<close>: the goal as a state
  machine (\<open>goal_step\<close>) that every operation refines, whatever its writes answer. \<open>GoalProps\<close>: the
  claims over runs of operations. \<open>GoalBoundary\<close>: the engine's arms (\<open>goal_boundary.rs\<close>) and a
  start whose flush fails. \<open>GoalInstances\<close>: instances.

  Scheduled jobs, \<open>crates/pa-core/src/cron\<close>. \<open>CronSchedule\<close>: jobs, schedule texts, cron lines,
  times and due jobs (\<open>mod.rs\<close>). \<open>CronStore\<close>: the JSON of the job files, their reading, merging
  and writing (\<open>store/mod.rs\<close>, \<open>store/state.rs\<close>, \<open>store/session_artifacts.rs\<close>), over the record
  \<open>cron_world\<close> of the files, the registered sessions and the counters of what the environment
  \<open>cron_env\<close> answers (writes, fresh ids, the clock, the order of a hash map). \<open>CronJobs\<close>: every
  operation of the store. \<open>CronScheduler\<close>: the passes, tasks, lanes and backoff of
  \<open>scheduler.rs\<close>, as events between two await points. \<open>CronCalendar\<close>: the search of the next
  run against the calendar of the timestamps. \<open>CronClaims\<close>, \<open>CronMoves\<close>, \<open>CronWrites\<close>,
  \<open>CronHistory\<close>: a rule for operations on the files, what a write keeps of each job in both modes
  of the store, and that every operation moves each job by \<open>keeps_job\<close>. \<open>CronProps\<close>,
  \<open>CronInstances\<close>: the claims and their instances. The hypotheses: writes succeed and the files of the
  sessions are apart (\<open>steady\<close>), ids are drawn once and a hash map lists all it holds
  (\<open>settled_store\<close>), times and intervals stay below the year 10000 (\<open>timely\<close>, \<open>time_limit\<close>),
  where the timestamps have four digits of year.

  Codecs. \<open>Chunked\<close>: the locale \<open>chunked_decoder\<close>, the contract of an incremental decoder.
  \<open>PrivateFraming\<close> (\<open>pa-types/src/daemon/framing.rs\<close>) and \<open>Sse\<close>
  (\<open>pa-ai/src/utils_inner/sse.rs\<close>) interpret it. \<open>Truncate\<close>: \<open>pa-core/src/tools/truncate.rs\<close>.

  What the lemmas show. The loop emits a well-formed event sequence and agrees with its transcript;
  tool results answer the calls in order under every schedule; an aborted run returns. Every session
  that can be reached has a consistent index and tree; strict appends extend the branch or change
  nothing, and the file stays in step with the rows; a crash loses at most the torn row; reopening and
  forking give back the branch. A compaction commits whole or not at all and keeps the tail it names.
  A retried turn ends after at most its number of retries, with waits in their band. A goal stays
  within its budget, charges each message once, hands out one continuation per boundary, survives a
  restart and is ended by a dead provider. A due job is claimed once, a completed or cancelled one
  never runs again, a cron line runs at its first matching minute, a session runs one job at a time,
  and a failing job is put off for twice as long each time, up to an hour. Frames and events survive
  any chunking. Where modelling showed that the code does something else than it says, a theorem
  states what it does.

  Not modelled, and why. Of the modelled files: updates that a detached emitter sends after its call
  has ended, stalled scripted turns, hooks that change the transcript through the agent's setters, the
  money fields of usage (floats that are copied and never read), the windowed store and its cache (a
  second representation of the session that is read through a cached index), directories, the model
  calls of a compaction and the choice of an auxiliary model, traces, \<open>promptUntilAccepted\<close> and
  \<open>wait_for_idle\<close>, the park entries of the session log, subnormal and infinite floats, the overflow
  of the \<open>u32\<close> retry counters. Of the program: the terminal interface, the daemon's processes and
  messaging, the command line, the wire formats of the providers, the Python kernel, settings and
  credentials, resources and extensions, telemetry and the generated model table. They are I/O,
  rendering or data around the core, or are still to come: the wake timer of the scheduler and the
  parser of the \<open>/heartbeat\<close> command, the queries and entries of the quota park, the failover between
  providers and the merge of the settings would be next.
\<close>

end
